(* ===== verification/Prelude.thy ===== *)
theory Prelude
  imports Complex_Main "HOL-Library.Sublist" "HOL-Library.Multiset"
begin

text \<open>
  What every component shares.  The program is TypeScript: strings are sequences of UTF-16 code
  units, and the model takes the code units below 256 (the Latin-1 range), so a string is a list
  of \<^typ>\<open>char\<close> and \<^term>\<open>length\<close> is JavaScript's \<open>.length\<close>.  On that range \<open>trim\<close>, \<open>toLowerCase\<close> and
  the white space class of a regular expression are the functions below.  Untyped values
  (\<open>unknown\<close>, parsed JSON, arguments written by a model) are the datatype \<open>js\<close>.
  Integers that the code only counts, compares or subtracts are \<^typ>\<open>int\<close> or \<^typ>\<open>nat\<close>; the doubles of
  the scoring code are exact reals or rationals, and \<open>toFixed\<close> and \<open>Math.round\<close> are written out.
\<close>

named_theorems text_simps \<open>how the text helpers compute\<close>
named_theorems inv_intros \<open>operations keep the invariant of their component\<close>
named_theorems frame_simps \<open>what an operation leaves alone\<close>

section \<open>Characters and strings\<close>

definition js_ws :: "char \<Rightarrow> bool" where
  "js_ws c = (let n = (of_char c :: nat) in (9 \<le> n \<and> n \<le> 13) \<or> n = 32 \<or> n = 160)"

definition trim_start :: "string \<Rightarrow> string" where
  "trim_start s = dropWhile js_ws s"

definition trim_end :: "string \<Rightarrow> string" where
  "trim_end s = rev (dropWhile js_ws (rev s))"

definition js_trim :: "string \<Rightarrow> string" where
  "js_trim s = trim_end (trim_start s)"

definition char_lower :: "char \<Rightarrow> char" where
  "char_lower c = (let n = (of_char c :: nat) in
     if (65 \<le> n \<and> n \<le> 90) \<or> (192 \<le> n \<and> n \<le> 222 \<and> n \<noteq> 215) then char_of (n + 32) else c)"

definition js_lower :: "string \<Rightarrow> string" where
  "js_lower s = map char_lower s"

definition is_digit :: "char \<Rightarrow> bool" where
  "is_digit c = (let n = (of_char c :: nat) in 48 \<le> n \<and> n \<le> 57)"

definition is_lower_az :: "char \<Rightarrow> bool" where
  "is_lower_az c = (let n = (of_char c :: nat) in 97 \<le> n \<and> n \<le> 122)"

definition is_upper_az :: "char \<Rightarrow> bool" where
  "is_upper_az c = (let n = (of_char c :: nat) in 65 \<le> n \<and> n \<le> 90)"

definition is_control :: "char \<Rightarrow> bool" where
  "is_control c = ((of_char c :: nat) < 32)"

definition digit_val :: "char \<Rightarrow> nat" where
  "digit_val c = of_char c - 48"

fun nat_of_digits :: "nat \<Rightarrow> string \<Rightarrow> nat" where
  "nat_of_digits acc [] = acc"
| "nat_of_digits acc (c # cs) = nat_of_digits (10 * acc + digit_val c) cs"

text \<open>\<open>String(n)\<close> for a whole number.\<close>

fun show_nat :: "nat \<Rightarrow> string" where
  "show_nat n = (if n < 10 then [char_of (48 + n)]
                 else show_nat (n div 10) @ [char_of (48 + n mod 10)])"

declare show_nat.simps [simp del]

definition show_int :: "int \<Rightarrow> string" where
  "show_int i = (if i < 0 then CHR ''-'' # show_nat (nat (- i)) else show_nat (nat i))"

text \<open>\<open>s.split(c)\<close> for a one character separator: empty fields are kept.\<close>

fun split_char :: "char \<Rightarrow> string \<Rightarrow> string list" where
  "split_char c [] = [[]]"
| "split_char c (x # xs) =
     (if x = c then [] # split_char c xs
      else (case split_char c xs of [] \<Rightarrow> [[x]] | f # fs \<Rightarrow> (x # f) # fs))"

lemma length_dropWhile_Suc [termination_simp]: "length (dropWhile P xs) < Suc (length xs)"
  by (simp add: length_dropWhile_le less_Suc_eq_le)

text \<open>\<open>s.split(/P+/)\<close>: a maximal run of separator characters is one separator.\<close>

fun split_runs :: "(char \<Rightarrow> bool) \<Rightarrow> string \<Rightarrow> string list" where
  "split_runs P [] = [[]]"
| "split_runs P (x # xs) =
     (if P x then [] # split_runs P (dropWhile P xs)
      else (case split_runs P xs of [] \<Rightarrow> [[x]] | f # fs \<Rightarrow> (x # f) # fs))"

text \<open>\<open>s.replace(/\s+/g, " ")\<close>.\<close>

fun collapse_ws :: "string \<Rightarrow> string" where
  "collapse_ws [] = []"
| "collapse_ws (x # xs) =
     (if js_ws x then CHR '' '' # collapse_ws (dropWhile js_ws xs) else x # collapse_ws xs)"

text \<open>\<open>s.replace(/\r\n/g, "\n")\<close>.\<close>

fun crlf_to_lf :: "string \<Rightarrow> string" where
  "crlf_to_lf [] = []"
| "crlf_to_lf [x] = [x]"
| "crlf_to_lf (x # y # xs) =
     (if x = CHR 0x0D \<and> y = CHR 0x0A then CHR 0x0A # crlf_to_lf xs
      else x # crlf_to_lf (y # xs))"

fun join :: "string \<Rightarrow> string list \<Rightarrow> string" where
  "join sep [] = []"
| "join sep [s] = s"
| "join sep (s # t # ts) = s @ sep @ join sep (t # ts)"

definition nl :: string where
  "nl = [CHR 0x0A]"

fun index_of :: "'a \<Rightarrow> 'a list \<Rightarrow> nat option" where
  "index_of x [] = None"
| "index_of x (y # ys) = (if x = y then Some 0 else map_option Suc (index_of x ys))"

text \<open>\<open>s.lastIndexOf(c)\<close> and \<open>s.slice(s.lastIndexOf(c) + 1)\<close>: the whole string when \<open>c\<close> is not in it.\<close>

definition after_last :: "char \<Rightarrow> string \<Rightarrow> string" where
  "after_last c s = rev (takeWhile (\<lambda>x. x \<noteq> c) (rev s))"

text \<open>The classes on binary integers, for evaluation.\<close>

lemma of_char_int: "(of_char c :: int) = int (of_char c)" by (simp only: of_nat_of_char)

lemma char_lower_code [code]:
  "char_lower (Char b0 b1 b2 b3 b4 b5 b6 b7) = (let n = (of_char (Char b0 b1 b2 b3 b4 b5 b6 b7) :: int) in
     if (65 \<le> n \<and> n \<le> 90) \<or> (192 \<le> n \<and> n \<le> 222 \<and> n \<noteq> 215) then Char b0 b1 b2 b3 b4 True b6 b7
     else Char b0 b1 b2 b3 b4 b5 b6 b7)"
  by (cases b7; cases b6; cases b5; cases b4; cases b3; cases b2; cases b1; cases b0; simp add: char_lower_def char_of_def bit_Suc_0_iff)

lemma is_digit_code [code]: "is_digit c = (let n = (of_char c :: int) in 48 \<le> n \<and> n \<le> 57)"
  unfolding is_digit_def of_char_int Let_def by presburger

lemma is_lower_az_code [code]: "is_lower_az c = (let n = (of_char c :: int) in 97 \<le> n \<and> n \<le> 122)"
  unfolding is_lower_az_def of_char_int Let_def by presburger

lemma is_upper_az_code [code]: "is_upper_az c = (let n = (of_char c :: int) in 65 \<le> n \<and> n \<le> 90)"
  unfolding is_upper_az_def of_char_int Let_def by presburger

lemma is_control_code [code]: "is_control c = ((of_char c :: int) < 32)"
  unfolding is_control_def of_char_int Let_def by presburger

lemma js_ws_code [code]: "js_ws c = (let n = (of_char c :: int) in (9 \<le> n \<and> n \<le> 13) \<or> n = 32 \<or> n = 160)"
  unfolding js_ws_def of_char_int Let_def by presburger

lemma length_trim_start: "length (trim_start s) \<le> length s"
  by (simp add: trim_start_def length_dropWhile_le)

lemma length_trim_end: "length (trim_end s) \<le> length s"
  by (metis length_dropWhile_le length_rev trim_end_def)

lemma length_js_trim: "length (js_trim s) \<le> length s"
  using length_trim_end [of "trim_start s"] length_trim_start [of s] by (simp add: js_trim_def)

lemma length_collapse_ws: "length (collapse_ws s) \<le> length s"
proof (induction s rule: collapse_ws.induct)
  case (2 x xs)
  then show ?case
    using length_dropWhile_le [of js_ws xs] by auto
qed simp

lemma show_nat_nonempty: "show_nat n \<noteq> []"
  by (subst show_nat.simps) simp

lemma show_nat_digits: "list_all is_digit (show_nat n)"
proof (induction n rule: show_nat.induct)
  case (1 n)
  have digit: "d < 10 \<Longrightarrow> is_digit (char_of (48 + d))" for d :: nat by (simp add: is_digit_def)
  show ?case
    by (subst show_nat.simps) (use 1 digit in auto)
qed

lemma digit_val_char [simp]: "d < 10 \<Longrightarrow> digit_val (char_of (48 + d)) = d"
  by (simp add: digit_val_def)

lemma nat_of_digits_append:
  "nat_of_digits acc (xs @ ys) = nat_of_digits (nat_of_digits acc xs) ys"
  by (induction xs arbitrary: acc) auto

lemma nat_of_digits_show_nat [simp]: "nat_of_digits 0 (show_nat n) = n"
proof (induction n rule: show_nat.induct)
  case (1 n)
  show ?case
  proof (cases "n < 10")
    case True
    then show ?thesis by (subst show_nat.simps) simp
  next
    case False
    then show ?thesis
      using 1 by (subst show_nat.simps) (simp add: nat_of_digits_append)
  qed
qed

lemma show_nat_inject [simp]: "show_nat m = show_nat n \<longleftrightarrow> m = n"
  by (metis nat_of_digits_show_nat)

section \<open>Untyped values\<close>

datatype js =
    JUndef
  | JNull
  | JBool bool
  | JNum rat
  | JNonFinite
  | JStr string
  | JArr "js list"
  | JObj "(string \<times> js) list"

text \<open>\<open>o.key\<close> of an object; a missing key (and a key of something that is no object) is undefined.\<close>

fun js_field :: "string \<Rightarrow> js \<Rightarrow> js" where
  "js_field k (JObj kvs) = (case map_of kvs k of None \<Rightarrow> JUndef | Some v \<Rightarrow> v)"
| "js_field k _ = JUndef"

text \<open>
  \<open>Number(s)\<close> of a string: white space is trimmed, the empty string is 0, otherwise a decimal literal
  with an optional sign, fraction and exponent, or an unsigned hexadecimal, octal or binary literal.
  \<open>None\<close> stands for NaN and the infinities: every caller in this program treats them alike
  (\<open>Number.isFinite\<close>).
\<close>

definition unsigned_decimal :: "string \<Rightarrow> (rat \<times> string) option" where
  "unsigned_decimal s =
     (let ip = takeWhile is_digit s; r1 = dropWhile is_digit s in
      (case r1 of
         CHR ''.'' # r2 \<Rightarrow>
           (let fp = takeWhile is_digit r2; r3 = dropWhile is_digit r2 in
            if ip = [] \<and> fp = [] then None
            else Some (of_nat (nat_of_digits 0 (ip @ fp)) / 10 ^ length fp, r3))
       | _ \<Rightarrow> (if ip = [] then None else Some (of_nat (nat_of_digits 0 ip), r1))))"

definition exponent_of :: "string \<Rightarrow> int option" where
  "exponent_of s =
     (case s of
        [] \<Rightarrow> Some 0
      | c # r \<Rightarrow>
          (if c = CHR ''e'' \<or> c = CHR ''E'' then
             (let neg = (case r of x # _ \<Rightarrow> x = CHR ''-'' | [] \<Rightarrow> False);
                  ds = (case r of x # r' \<Rightarrow> (if x = CHR ''-'' \<or> x = CHR ''+'' then r' else r) | [] \<Rightarrow> r) in
              if ds = [] \<or> \<not> list_all is_digit ds then None
              else Some ((if neg then -1 else 1) * int (nat_of_digits 0 ds)))
           else None))"

definition signed_decimal :: "string \<Rightarrow> rat option" where
  "signed_decimal s =
     (let neg = (case s of x # _ \<Rightarrow> x = CHR ''-'' | [] \<Rightarrow> False);
          body = (case s of x # r \<Rightarrow> (if x = CHR ''-'' \<or> x = CHR ''+'' then r else s) | [] \<Rightarrow> s) in
      (case unsigned_decimal body of
         None \<Rightarrow> None
       | Some (m, rest) \<Rightarrow>
           (case exponent_of rest of
              None \<Rightarrow> None
            | Some e \<Rightarrow>
                Some ((if neg then -1 else 1) * (if 0 \<le> e then m * 10 ^ nat e else m / 10 ^ nat (- e))))))"

definition radix_digit :: "char \<Rightarrow> nat" where
  "radix_digit c =
     (let n = (of_char c :: nat) in
      if is_digit c then n - 48
      else if 97 \<le> n \<and> n \<le> 102 then n - 87
      else if 65 \<le> n \<and> n \<le> 70 then n - 55 else 99)"

definition radix_literal :: "nat \<Rightarrow> string \<Rightarrow> rat option" where
  "radix_literal b ds =
     (if ds = [] \<or> \<not> list_all (\<lambda>c. radix_digit c < b) ds then None
      else Some (of_nat (foldl (\<lambda>acc c. b * acc + radix_digit c) 0 ds)))"

text \<open>A literal that rounds beyond the largest double is an infinity.\<close>

definition finite_double :: "rat \<Rightarrow> rat option" where
  "finite_double v = (if \<bar>v\<bar> < 2 ^ 1024 - 2 ^ 970 then Some v else None)"

definition number_of_string :: "string \<Rightarrow> rat option" where
  "number_of_string raw =
     (let s = js_trim raw in
      if s = [] then Some 0
      else Option.bind
        (if take 2 s = ''0x'' \<or> take 2 s = ''0X'' then radix_literal 16 (drop 2 s)
         else if take 2 s = ''0o'' \<or> take 2 s = ''0O'' then radix_literal 8 (drop 2 s)
         else if take 2 s = ''0b'' \<or> take 2 s = ''0B'' then radix_literal 2 (drop 2 s)
         else signed_decimal s) finite_double)"

text \<open>\<open>Number(v)\<close>, \<open>None\<close> for a result that is not finite.\<close>

fun js_number :: "js \<Rightarrow> rat option" where
  "js_number JUndef = None"
| "js_number JNull = Some 0"
| "js_number (JBool b) = Some (if b then 1 else 0)"
| "js_number (JNum r) = Some r"
| "js_number JNonFinite = None"
| "js_number (JStr s) = number_of_string s"
| "js_number (JArr []) = Some 0"
| "js_number (JArr [x]) =
     (case x of JStr s \<Rightarrow> number_of_string s | JNum r \<Rightarrow> Some r | JNull \<Rightarrow> Some 0 | JUndef \<Rightarrow> Some 0
      | JArr vs \<Rightarrow> js_number (JArr vs) | _ \<Rightarrow> None)"
| "js_number (JArr (x # y # vs)) = None"
| "js_number (JObj kvs) = None"

text \<open>\<open>typeof v === "string" ? v : ""\<close>.\<close>

fun str_or_empty :: "js \<Rightarrow> string" where
  "str_or_empty (JStr s) = s"
| "str_or_empty _ = []"

fun is_string :: "js \<Rightarrow> bool" where
  "is_string (JStr s) = True"
| "is_string _ = False"

fun is_object :: "js \<Rightarrow> bool" where
  "is_object (JObj kvs) = True"
| "is_object _ = False"

text \<open>\<open>v && typeof v === "object"\<close>: arrays are objects too.\<close>

fun is_object_or_array :: "js \<Rightarrow> bool" where
  "is_object_or_array (JObj kvs) = True"
| "is_object_or_array (JArr vs) = True"
| "is_object_or_array _ = False"

fun arr_or_nil :: "js \<Rightarrow> js list" where
  "arr_or_nil (JArr vs) = vs"
| "arr_or_nil _ = []"

section \<open>Lists\<close>

text \<open>A stable sort by a strict order, as \<open>Array.prototype.sort\<close> is: equal elements keep their order.\<close>

fun insert_stable :: "('a \<Rightarrow> 'a \<Rightarrow> bool) \<Rightarrow> 'a \<Rightarrow> 'a list \<Rightarrow> 'a list" where
  "insert_stable lt x [] = [x]"
| "insert_stable lt x (y # ys) =
     (if lt y x then y # insert_stable lt x ys else x # y # ys)"

fun sort_stable :: "('a \<Rightarrow> 'a \<Rightarrow> bool) \<Rightarrow> 'a list \<Rightarrow> 'a list" where
  "sort_stable lt [] = []"
| "sort_stable lt (x # xs) = insert_stable lt x (sort_stable lt xs)"

lemma mset_insert_stable: "mset (insert_stable lt x xs) = add_mset x (mset xs)"
  by (induction xs) auto

lemma mset_sort_stable [simp]: "mset (sort_stable lt xs) = mset xs"
  by (induction xs) (auto simp: mset_insert_stable)

lemma set_sort_stable [simp]: "set (sort_stable lt xs) = set xs"
  by (metis mset_sort_stable set_mset_mset)

lemma length_sort_stable [simp]: "length (sort_stable lt xs) = length xs"
  by (metis mset_sort_stable size_mset)

lemma distinct_sort_stable [simp]: "distinct (sort_stable lt xs) = distinct xs"
  by (metis mset_eq_imp_distinct_iff mset_sort_stable)

text \<open>A comparison that is transitive and total in the negated sense sorts the list.\<close>

lemma sorted_insert_stable:
  assumes asym: "\<And>a b. lt a b \<Longrightarrow> \<not> lt b a"
    and trans: "\<And>a b c. \<not> lt b a \<Longrightarrow> \<not> lt c b \<Longrightarrow> \<not> lt c a"
    and s: "sorted_wrt (\<lambda>a b. \<not> lt b a) xs"
  shows "sorted_wrt (\<lambda>a b. \<not> lt b a) (insert_stable lt x xs)"
  using s
proof (induction xs)
  case (Cons y ys)
  have "set (insert_stable lt x ys) = insert x (set ys)"
    by (metis mset_insert_stable set_mset_add_mset_insert set_mset_mset)
  note set_ins = this
  show ?case
  proof (cases "lt y x")
    case True
    with Cons set_ins asym show ?thesis by auto
  next
    case False
    have "\<not> lt z x" if "z \<in> set ys" for z
      by (rule trans [where b = y]) (use that False Cons.prems in auto)
    with Cons.prems False show ?thesis by simp
  qed
qed simp

lemma sorted_sort_stable:
  assumes "\<And>a b. lt a b \<Longrightarrow> \<not> lt b a"
    and "\<And>a b c. \<not> lt b a \<Longrightarrow> \<not> lt c b \<Longrightarrow> \<not> lt c a"
  shows "sorted_wrt (\<lambda>a b. \<not> lt b a) (sort_stable lt xs)"
proof (induction xs)
  case (Cons x xs)
  have "sorted_wrt (\<lambda>a b. \<not> lt b a) (insert_stable lt x (sort_stable lt xs))"
    by (rule sorted_insert_stable [OF assms Cons.IH])
  then show ?case by simp
qed simp

text \<open>\<open>s.slice(0, n)\<close> for a length limit \<open>n\<close>; the second equation computes without counting to \<open>n\<close>.\<close>

definition slice_to :: "int \<Rightarrow> 'a list \<Rightarrow> 'a list" where
  "slice_to n xs = take (nat n) xs"

lemma slice_to_code [code]: "slice_to n xs = (if int (length xs) \<le> n then xs else take (nat n) xs)"
  by (auto simp: slice_to_def)

lemma length_slice_to: "length (slice_to n xs) \<le> nat n"
  by (simp add: slice_to_def)

lemma slice_to_all [simp]: "int (length xs) \<le> n \<Longrightarrow> slice_to n xs = xs"
  by (simp add: slice_to_code)

text \<open>\<open>xs.slice(-n)\<close>.\<close>

definition last_n :: "nat \<Rightarrow> 'a list \<Rightarrow> 'a list" where
  "last_n n xs = drop (length xs - n) xs"

definition round_half_up :: "'a::floor_ceiling \<Rightarrow> int" where
  "round_half_up x = \<lfloor>x + 1 / 2\<rfloor>"

lemma floor_numeral_div [simp]:
  "\<lfloor>numeral a / numeral b :: 'a::floor_ceiling\<rfloor> = numeral a div numeral b"
  "\<lfloor>1 / numeral b :: 'a::floor_ceiling\<rfloor> = 1 div numeral b"
  using floor_divide_of_int_eq [of "numeral a" "numeral b", where ?'a = 'a]
    floor_divide_of_int_eq [of 1 "numeral b", where ?'a = 'a] by simp_all

text \<open>\<open>Number(x.toFixed(f))\<close>: the nearest decimal, a half away from zero.\<close>

definition to_fixed :: "nat \<Rightarrow> 'a::floor_ceiling \<Rightarrow> 'a" where
  "to_fixed f x =
     (if x < 0 then - (of_int \<lfloor>- x * 10 ^ f + 1 / 2\<rfloor> / 10 ^ f) else of_int \<lfloor>x * 10 ^ f + 1 / 2\<rfloor> / 10 ^ f)"

lemma to_fixed_mono_nonneg:
  fixes x y :: "'a::floor_ceiling"
  assumes "0 \<le> x" "x \<le> y"
  shows "to_fixed f x \<le> to_fixed f y"
proof -
  have "x * 10 ^ f + 1 / 2 \<le> y * 10 ^ f + 1 / 2" using assms by (simp add: mult_right_mono)
  then have "\<lfloor>x * 10 ^ f + 1 / 2\<rfloor> \<le> \<lfloor>y * 10 ^ f + 1 / 2\<rfloor>" by (rule floor_mono)
  with assms show ?thesis by (simp add: to_fixed_def divide_right_mono)
qed

lemma to_fixed_of_int: "0 \<le> n \<Longrightarrow> to_fixed f (of_int n) = (of_int n :: 'a::floor_ceiling)"
proof -
  assume "0 \<le> n"
  have "(of_int n :: 'a) * 10 ^ f + 1 / 2 = of_int (n * 10 ^ f) + 1 / 2" by simp
  also have "\<lfloor>(of_int (n * 10 ^ f) :: 'a) + 1 / 2\<rfloor> = n * 10 ^ f"
  proof -
    have "\<lfloor>1 / 2 :: 'a\<rfloor> = 0" by (rule floor_unique) simp_all
    with floor_add_int [of "1 / 2 :: 'a" "n * 10 ^ f"] show ?thesis by (simp only: add_0_left add.commute)
  qed
  finally show ?thesis using \<open>0 \<le> n\<close> by (simp add: to_fixed_def)
qed

lemma to_fixed_zero_one [simp]: "to_fixed f 0 = (0 :: 'a::floor_ceiling)" "to_fixed f 1 = (1 :: 'a::floor_ceiling)"
  using to_fixed_of_int [of 0 f] to_fixed_of_int [of 1 f] by simp_all

lemma to_fixed_unit: "0 \<le> x \<Longrightarrow> x \<le> 1 \<Longrightarrow> 0 \<le> to_fixed f x \<and> to_fixed f x \<le> 1"
  for x :: "'a::floor_ceiling"
  using to_fixed_mono_nonneg [of 0 x f] to_fixed_mono_nonneg [of x 1 f]
    to_fixed_of_int [of 0 f] to_fixed_of_int [of 1 f] by simp

text \<open>
  Characters outside the Latin-1 range that the texts of the program use are written with unused codes: the
  ellipsis (U+2026) as 0x85 and the em dash (U+2014) as 0x97.
\<close>

definition ellipsis :: string where
  "ellipsis = [CHR 0x85]"

definition em_dash :: string where
  "em_dash = [CHR 0x97]"

end
