(* ===== verification/Table.thy ===== *)
theory Table
  imports Prelude
begin

text \<open>
  Rows under a primary key.  Most components of the program keep their state in a SQLite table
  that they write with \<open>INSERT ... ON CONFLICT(key) DO UPDATE\<close> and read with
  \<open>SELECT ... WHERE key = ?\<close>.  A table is the list of its rows in insertion order; the locale
  \<open>keyed_store\<close> is the contract the components rely on (what a read returns after a write), and
  every component interprets it on its own read and write.
\<close>

section \<open>Tables as lists of rows\<close>

definition row_of :: "('r \<Rightarrow> 'k) \<Rightarrow> 'k \<Rightarrow> 'r list \<Rightarrow> 'r option" where
  "row_of key k rows = find (\<lambda>r. key r = k) rows"

fun upsert :: "('r \<Rightarrow> 'k) \<Rightarrow> 'r \<Rightarrow> 'r list \<Rightarrow> 'r list" where
  "upsert key r [] = [r]"
| "upsert key r (x # xs) = (if key x = key r then r # xs else x # upsert key r xs)"

definition delete_key :: "('r \<Rightarrow> 'k) \<Rightarrow> 'k \<Rightarrow> 'r list \<Rightarrow> 'r list" where
  "delete_key key k rows = filter (\<lambda>r. key r \<noteq> k) rows"

definition unique_keys :: "('r \<Rightarrow> 'k) \<Rightarrow> 'r list \<Rightarrow> bool" where
  "unique_keys key rows = distinct (map key rows)"

lemma row_of_Nil [simp]: "row_of key k [] = None"
  by (simp add: row_of_def)

lemma row_of_Cons [simp]:
  "row_of key k (x # xs) = (if key x = k then Some x else row_of key k xs)"
  by (simp add: row_of_def)

lemma row_of_upsert [simp]:
  "row_of key k (upsert key r rows) = (if k = key r then Some r else row_of key k rows)"
  by (induction rows) auto

lemma row_of_SomeD: "row_of key k rows = Some r \<Longrightarrow> r \<in> set rows \<and> key r = k"
  by (induction rows) (auto split: if_splits)

lemma row_of_None_iff: "row_of key k rows = None \<longleftrightarrow> k \<notin> key ` set rows"
  by (induction rows) auto

lemma unique_keys_Nil [simp]: "unique_keys key []"
  by (simp add: unique_keys_def)

lemma unique_keys_Cons [simp]:
  "unique_keys key (x # xs) \<longleftrightarrow> key x \<notin> key ` set xs \<and> unique_keys key xs"
  by (simp add: unique_keys_def)

lemma row_of_eq_Some_iff:
  "unique_keys key rows \<Longrightarrow> row_of key k rows = Some r \<longleftrightarrow> r \<in> set rows \<and> key r = k"
  by (induction rows) auto

lemma filter_row_of:
  "unique_keys key rows \<Longrightarrow> row_of key k rows = Some r \<Longrightarrow> filter (\<lambda>x. key x = k) rows = [r]"
proof (induction rows)
  case (Cons x xs)
  have "filter (\<lambda>y. key y = k) xs = []" if "key x = k"
    using Cons.prems(1) that by (fastforce simp: filter_empty_conv image_iff unique_keys_def)
  with Cons show ?case by (auto split: if_splits)
qed simp

lemma keys_upsert [simp]: "key ` set (upsert key r rows) = insert (key r) (key ` set rows)"
  by (induction rows) auto

lemma unique_keys_upsert [simp]: "unique_keys key rows \<Longrightarrow> unique_keys key (upsert key r rows)"
proof (induction rows)
  case (Cons x xs)
  have "key ` set (upsert key r xs) = insert (key r) (key ` set xs)"
    by (rule keys_upsert)
  with Cons show ?case by auto
qed simp

lemma upsert_same [simp]: "row_of key (key r) rows = Some r \<Longrightarrow> upsert key r rows = rows"
  by (induction rows) (auto split: if_splits)

lemma set_upsert:
  "unique_keys key rows \<Longrightarrow> set (upsert key r rows) = insert r {x \<in> set rows. key x \<noteq> key r}"
  by (induction rows) (auto simp: image_iff)

lemma set_upsert_subset: "set (upsert key r rows) \<subseteq> insert r (set rows)"
  by (induction rows) auto

lemma upsert_new: "key r \<notin> key ` set rows \<Longrightarrow> upsert key r rows = rows @ [r]"
  by (induction rows) auto

text \<open>Rows changed in place, and a row added at the end.\<close>

lemma row_of_map_keep:
  "(\<And>r. key (f r) = key r) \<Longrightarrow> row_of key k (map f rows) = map_option f (row_of key k rows)"
  by (induction rows) auto

lemma unique_keys_map_keep: "(\<And>r. key (f r) = key r) \<Longrightarrow> unique_keys key (map f rows) = unique_keys key rows"
  by (simp add: unique_keys_def comp_def)

lemma row_of_append: "row_of key k (xs @ ys) = (case row_of key k xs of None \<Rightarrow> row_of key k ys | Some r \<Rightarrow> Some r)"
  by (induction xs) auto

text \<open>How many rows satisfy a condition after a write.\<close>

lemma filter_upsert_old:
  assumes "unique_keys key rows" and "row_of key (key r) rows = Some old"
  shows "length (filter P (upsert key r rows)) + (if P old then 1 else 0)
       = length (filter P rows) + (if P r then 1 else 0)"
  using assms by (induction rows) (auto split: if_splits)

lemma filter_upsert_new:
  assumes "key r \<notin> key ` set rows"
  shows "length (filter P (upsert key r rows)) = length (filter P rows) + (if P r then 1 else 0)"
  using assms by (simp add: upsert_new)

lemma length_filter_upsert_le:
  "length (filter P (upsert key r rows)) \<le> Suc (length (filter P rows))"
  by (induction rows) auto

lemma length_filter_upsert_not:
  "\<not> P r \<Longrightarrow> length (filter P (upsert key r rows)) \<le> length (filter P rows)"
  by (induction rows) auto

lemma row_of_delete_key [simp]:
  "row_of key k (delete_key key k' rows) = (if k = k' then None else row_of key k rows)"
  by (induction rows) (auto simp: delete_key_def)

lemma unique_keys_filter [simp]: "unique_keys key rows \<Longrightarrow> unique_keys key (filter P rows)"
  by (induction rows) auto

lemma unique_keys_delete_key [simp]:
  "unique_keys key rows \<Longrightarrow> unique_keys key (delete_key key k rows)"
  by (simp add: delete_key_def)

section \<open>The contract of a keyed table\<close>

text \<open>
  \<open>norm\<close> is what a write stores of the row it is given (the work queue keeps the last fifty notes
  and stamps the row; most tables store it as it is).
\<close>

locale keyed_store =
  fixes find_row :: "'s \<Rightarrow> 'k \<Rightarrow> 'r option"
    and put :: "'s \<Rightarrow> 'r \<Rightarrow> 's"
    and key :: "'r \<Rightarrow> 'k"
    and norm :: "'r \<Rightarrow> 'r"
  assumes key_norm: "key (norm r) = key r"
    and find_key: "find_row s k = Some r \<Longrightarrow> key r = k"
    and find_put_same: "find_row (put s r) (key r) = Some (norm r)"
    and find_put_other: "k \<noteq> key r \<Longrightarrow> find_row (put s r) k = find_row s k"
begin

lemma find_put: "find_row (put s r) k = (if k = key r then Some (norm r) else find_row s k)"
  by (simp add: find_put_same find_put_other)

lemma dom_put: "dom (find_row (put s r)) = insert (key r) (dom (find_row s))"
  by (auto simp: find_put dom_def)

lemma put_last_wins: "key r = key r' \<Longrightarrow> find_row (put (put s r) r') k = find_row (put s r') k"
  by (simp add: find_put)

lemma put_commute:
  "key r \<noteq> key r' \<Longrightarrow> find_row (put (put s r) r') k = find_row (put (put s r') r) k"
  by (simp add: find_put)

lemma dom_fold_put: "dom (find_row (fold (\<lambda>r s. put s r) rs s)) = key ` set rs \<union> dom (find_row s)"
  by (induction rs arbitrary: s) (auto simp: dom_put)

lemma fold_put_other:
  "k \<notin> key ` set rs \<Longrightarrow> find_row (fold (\<lambda>r s. put s r) rs s) k = find_row s k"
  by (induction rs arbitrary: s) (auto simp: find_put)

lemma fold_put_mem:
  "distinct (map key rs) \<Longrightarrow> r \<in> set rs \<Longrightarrow>
   find_row (fold (\<lambda>r s. put s r) rs s) (key r) = Some (norm r)"
  by (induction rs arbitrary: s) (auto simp: find_put fold_put_other)

end

locale keyed_store_delete = keyed_store +
  fixes del :: "'s \<Rightarrow> 'k \<Rightarrow> 's"
  assumes find_del: "find_row (del s k) k' = (if k' = k then None else find_row s k')"
begin

lemma dom_del: "dom (find_row (del s k)) = dom (find_row s) - {k}"
  by (auto simp: find_del dom_def)

lemma del_put: "find_row (del (put s r) (key r)) k = find_row (del s (key r)) k"
  by (simp add: find_del find_put)

lemma put_del: "find_row (put (del s (key r)) r) k = find_row (put s r) k"
  by (simp add: find_del find_put)

end

end
