(* ===== verification/WQ_Text.thy ===== *)
theory WQ_Text
  imports Table
begin

text \<open>
  The text and path helpers of the work queue (src/web/workQueue.ts): the concurrency clamp, the
  cleaning of text fields, the working directory a brief names, when two working directories
  overlap, and the terms a task is compared by.  \<open>node:fs\<close> is a parameter: the record \<open>fsys\<close> gives
  the home directory, the process's directory and which paths are existing directories
  (\<open>existsSync(p) && statSync(p).isDirectory()\<close>, where a throw is a no).
\<close>

record fsys =
  fs_home :: string
  fs_cwd :: string
  fs_is_dir :: "string \<Rightarrow> bool"

section \<open>Clamping and cleaning\<close>

definition MAX_CONCURRENCY :: int where "MAX_CONCURRENCY = 300"
definition DEFAULT_CONCURRENCY :: int where "DEFAULT_CONCURRENCY = 300"

definition clamp_concurrency :: "js \<Rightarrow> int" where
  "clamp_concurrency v =
     (case js_number v of
        None \<Rightarrow> DEFAULT_CONCURRENCY
      | Some r \<Rightarrow> max 1 (min MAX_CONCURRENCY \<lfloor>r\<rfloor>))"

definition clean :: "js \<Rightarrow> int \<Rightarrow> string" where
  "clean v mx = slice_to mx (js_trim (crlf_to_lf (str_or_empty v)))"

definition one_line :: "js \<Rightarrow> int \<Rightarrow> string" where
  "one_line v mx = slice_to mx (collapse_ws (clean v (mx * 2)))"

lemma clamp_concurrency_range: "1 \<le> clamp_concurrency v \<and> clamp_concurrency v \<le> 300"
  by (simp add: clamp_concurrency_def DEFAULT_CONCURRENCY_def MAX_CONCURRENCY_def split: option.split)

lemma length_clean: "length (clean v mx) \<le> nat mx"
  by (simp add: clean_def length_slice_to)

lemma length_one_line: "length (one_line v mx) \<le> nat mx"
  by (simp add: one_line_def length_slice_to)

lemma js_ws_space [simp]: "js_ws (CHR '' '')"
  by (simp add: js_ws_def)

lemma collapse_ws_only_spaces: "c \<in> set (collapse_ws s) \<Longrightarrow> js_ws c \<Longrightarrow> c = CHR '' ''"
  by (induction s rule: collapse_ws.induct) (auto split: if_splits)

lemma one_line_only_spaces: "c \<in> set (one_line v mx) \<Longrightarrow> js_ws c \<Longrightarrow> c = CHR '' ''"
  unfolding one_line_def slice_to_def by (meson collapse_ws_only_spaces in_set_takeD)

section \<open>Paths\<close>

text \<open>\<open>path.resolve\<close>: an absolute path as it is, another one against a directory, normalised.\<close>

fun resolve_segments :: "string list \<Rightarrow> string list \<Rightarrow> string list" where
  "resolve_segments acc [] = acc"
| "resolve_segments acc (s # ss) =
     (if s = [] \<or> s = ''.'' then resolve_segments acc ss
      else if s = ''..'' then resolve_segments (butlast acc) ss
      else resolve_segments (acc @ [s]) ss)"

definition path_resolve :: "string \<Rightarrow> string \<Rightarrow> string" where
  "path_resolve base p =
     (let full = (if prefix ''/'' p then p else base @ ''/'' @ p)
      in CHR ''/'' # join ''/'' (resolve_segments [] (split_char CHR ''/'' full)))"

definition is_slash :: "char \<Rightarrow> bool" where
  "is_slash c = (c = CHR ''/'' \<or> c = CHR 0x5C)"

fun last_segment :: "string \<Rightarrow> string" where
  "last_segment s = rev (takeWhile (\<lambda>c. \<not> is_slash c) (rev s))"

definition workspace_from_cwd :: "string \<Rightarrow> string \<Rightarrow> string" where
  "workspace_from_cwd home cwd =
     (let clean_path = rev (dropWhile is_slash (rev cwd)) in
      if clean_path = [] \<or> clean_path = ''/'' \<or> clean_path = ''/tmp'' \<or> clean_path = home
      then ''General''
      else (let seg = last_segment clean_path in if seg = [] then ''General'' else seg))"

definition expand_cwd :: "fsys \<Rightarrow> string \<Rightarrow> string \<Rightarrow> string" where
  "expand_cwd fs raw fallback =
     (let p = js_trim raw in
      if p = [] then fallback
      else (let dir = (if p = ''~'' then fs_home fs
                       else if prefix ''~/'' p then path_resolve (fs_home fs) (drop 2 p)
                       else path_resolve (fs_cwd fs) p)
            in if fs_is_dir fs dir then dir else fallback))"

definition path_head :: "char \<Rightarrow> bool" where
  "path_head c = (c = CHR ''~'' \<or> c = CHR ''/'')"

definition path_char :: "char \<Rightarrow> bool" where
  "path_char c = (\<not> js_ws c \<and> c \<notin> {CHR 0x22, CHR 0x27, CHR 0x60, CHR '')'', CHR '','', CHR '';''})"

definition path_delim :: "char \<Rightarrow> bool" where
  "path_delim c = (js_ws c \<or> c \<in> {CHR 0x22, CHR 0x27, CHR 0x60, CHR ''('', CHR '':'', CHR ''=''})"

text \<open>The captures of the global match, in order; \<open>at_start\<close> is the anchor \<open>^\<close>.\<close>

lemma length_dropWhile_tl: "length (dropWhile P (tl xs)) \<le> length xs"
  by (rule le_trans [OF length_dropWhile_le]) simp

function path_matches :: "bool \<Rightarrow> string \<Rightarrow> string list" where
  "path_matches at_start [] = []"
| "path_matches at_start (c # r) =
     (if at_start \<and> path_head c
      then (c # takeWhile path_char r) # path_matches False (dropWhile path_char r)
      else if path_delim c \<and> r \<noteq> [] \<and> path_head (hd r)
      then (hd r # takeWhile path_char (tl r)) # path_matches False (dropWhile path_char (tl r))
      else path_matches False r)"
  by pat_completeness auto
termination
  by (relation "measure (\<lambda>(b, s). length s)")
     (auto simp: less_Suc_eq_le length_dropWhile_le length_dropWhile_tl)

definition dir_candidate :: "fsys \<Rightarrow> string \<Rightarrow> string" where
  "dir_candidate fs m =
     (let p = rev (dropWhile (\<lambda>c. c = CHR ''.'' \<or> c = CHR '':'') (rev m)) in
      if p = ''~'' then fs_home fs
      else if prefix ''~/'' p then path_resolve (fs_home fs) (drop 2 p) else p)"

definition dir_in :: "fsys \<Rightarrow> string \<Rightarrow> string" where
  "dir_in fs text =
     (case find (\<lambda>d. 1 < length d \<and> fs_is_dir fs d) (map (dir_candidate fs) (path_matches True text)) of
        None \<Rightarrow> [] | Some d \<Rightarrow> d)"

lemma expand_cwd_dir: "expand_cwd fs raw fallback = fallback \<or> fs_is_dir fs (expand_cwd fs raw fallback)"
  by (simp add: expand_cwd_def Let_def)

lemma dir_in_dir: "dir_in fs text = [] \<or> fs_is_dir fs (dir_in fs text)"
  by (auto simp: dir_in_def find_Some_iff split: option.split)

lemma workspace_from_cwd_nonempty: "workspace_from_cwd home cwd \<noteq> []"
  by (simp add: workspace_from_cwd_def Let_def)

section \<open>Overlapping directories\<close>

definition norm_dir :: "string \<Rightarrow> string" where
  "norm_dir p = (if suffix ''/'' p \<and> 1 < length p then butlast p else p)"

definition broad_dir :: "string \<Rightarrow> string \<Rightarrow> bool" where
  "broad_dir home p = (p = ''/'' \<or> p = norm_dir home \<or> p = ''/tmp'')"

definition overlaps :: "string \<Rightarrow> string \<Rightarrow> string \<Rightarrow> bool" where
  "overlaps home a b =
     (if a = [] \<or> b = [] then False
      else (let x = norm_dir a; y = norm_dir b in
        if broad_dir home x \<or> broad_dir home y then False
        else x = y \<or> prefix (y @ ''/'') x \<or> prefix (x @ ''/'') y))"

lemma overlaps_sym: "overlaps home a b = overlaps home b a"
  by (auto simp: overlaps_def Let_def)

lemma overlaps_refl_iff: "overlaps home a a \<longleftrightarrow> a \<noteq> [] \<and> \<not> broad_dir home (norm_dir a)"
  by (simp add: overlaps_def Let_def)

lemma split_char_nonempty: "split_char c s \<noteq> []"
  by (cases s) (auto split: list.splits)

lemma split_char_inject: "split_char c x = split_char c y \<longleftrightarrow> x = y"
proof (induction x arbitrary: y)
  case Nil
  then show ?case
    by (cases y) (auto split: list.splits simp: split_char_nonempty)
next
  case (Cons a x)
  show ?case
  proof (cases y)
    case Nil
    then show ?thesis by (auto split: list.splits simp: split_char_nonempty)
  next
    case (Cons b z)
    with Cons.IH [of z] show ?thesis
      using split_char_nonempty [of c x] split_char_nonempty [of c z]
      by (auto split: list.splits)
  qed
qed

text \<open>The components of one path begin the components of another exactly when it is that path or a directory above it.\<close>

lemma prefix_split_char:
  "prefix (split_char c y) (split_char c x) \<longleftrightarrow> x = y \<or> prefix (y @ [c]) x"
proof (induction y arbitrary: x)
  case Nil
  show ?case
  proof (cases x)
    case (Cons a z)
    then show ?thesis
      using split_char_nonempty [of c z] by (auto split: list.splits)
  qed simp
next
  case (Cons a y)
  show ?case
  proof (cases x)
    case Nil
    then show ?thesis
      using split_char_nonempty [of c y] by (auto split: list.splits)
  next
    case (Cons b z)
    with Cons.IH [of z] show ?thesis
      using split_char_nonempty [of c y] split_char_nonempty [of c z]
      by (auto split: list.splits)
  qed
qed

definition dir_components :: "string \<Rightarrow> string list" where
  "dir_components p = split_char CHR ''/'' (norm_dir p)"

lemma overlaps_iff_components:
  "overlaps home a b \<longleftrightarrow>
     a \<noteq> [] \<and> b \<noteq> [] \<and> \<not> broad_dir home (norm_dir a) \<and> \<not> broad_dir home (norm_dir b) \<and>
     (prefix (dir_components a) (dir_components b) \<or> prefix (dir_components b) (dir_components a))"
  by (auto simp: overlaps_def dir_components_def Let_def prefix_split_char)

end
