(* ===== verification/Similarity.thy ===== *)
theory Similarity
  imports WQ_Text
begin

text \<open>
  How close two tasks are (src/web/workQueue.ts, \<open>terms\<close> and \<open>similarity\<close>): TF-IDF weights over
  the query and the documents, and the cosine of the two weight vectors.  The doubles are exact
  reals here, so the order of a sum does not matter; \<open>Math.log\<close> is \<^const>\<open>ln\<close>.
  The lemmas: every weight is nonnegative, a score is between 0 and 1, it is 0 for texts
  with no term in common and 1 for texts with the same terms.
\<close>

section \<open>Terms\<close>

text \<open>
  \<open>normalize("NFD")\<close> and dropping the combining marks: on Latin-1 a letter with a mark becomes
  its base letter, and nothing else decomposes.
\<close>

definition unaccent :: "char \<Rightarrow> char" where
  "unaccent c = (let n = (of_char c :: nat) in
     if 192 \<le> n \<and> n \<le> 197 then CHR ''A'' else if n = 199 then CHR ''C''
     else if 200 \<le> n \<and> n \<le> 203 then CHR ''E'' else if 204 \<le> n \<and> n \<le> 207 then CHR ''I''
     else if n = 209 then CHR ''N'' else if 210 \<le> n \<and> n \<le> 214 then CHR ''O''
     else if 217 \<le> n \<and> n \<le> 220 then CHR ''U'' else if n = 221 then CHR ''Y''
     else if 224 \<le> n \<and> n \<le> 229 then CHR ''a'' else if n = 231 then CHR ''c''
     else if 232 \<le> n \<and> n \<le> 235 then CHR ''e'' else if 236 \<le> n \<and> n \<le> 239 then CHR ''i''
     else if n = 241 then CHR ''n'' else if 242 \<le> n \<and> n \<le> 246 then CHR ''o''
     else if 249 \<le> n \<and> n \<le> 252 then CHR ''u'' else if n = 253 \<or> n = 255 then CHR ''y'' else c)"

definition STOP :: "string list" where
  "STOP = split_char CHR '' '' ''the and for with that this from into your you are was were will have has had not but all any can our out use using una uno unos unas los las del con por para que como esta este esto son ser sea hay sus mas pero sin sobre entre cada todo toda todos todas lo le les se su al el la de en y o a es un''"

definition term_char :: "char \<Rightarrow> bool" where
  "term_char c = (is_lower_az c \<or> is_digit c \<or> c = CHR ''_'')"

definition terms :: "string \<Rightarrow> string list" where
  "terms text =
     filter (\<lambda>t. 3 \<le> length t \<and> t \<notin> set STOP)
       (split_runs (\<lambda>c. \<not> term_char c) (js_lower (map unaccent text)))"

lemma split_runs_fields:
  "f \<in> set (split_runs P s) \<Longrightarrow> c \<in> set f \<Longrightarrow> \<not> P c"
proof (induction P s arbitrary: f rule: split_runs.induct)
  case (2 P x xs)
  show ?case
  proof (cases "P x")
    case True
    with 2 show ?thesis by auto
  next
    case False
    with 2 show ?thesis by (cases "split_runs P xs") (auto, blast+)
  qed
qed simp

lemma terms_chars: "t \<in> set (terms text) \<Longrightarrow> c \<in> set t \<Longrightarrow> term_char c"
  using split_runs_fields by (fastforce simp: terms_def)

section \<open>Cosine similarity\<close>

definition doc_freq :: "string list list \<Rightarrow> string \<Rightarrow> nat" where
  "doc_freq docs t = length (filter (\<lambda>d. t \<in> set d) docs)"

text \<open>The logarithm and the root have no code equations: a run that compares no texts needs none.\<close>

declare raw_ln_real_def [code del]
declare root_def [code del]

definition weight :: "string list list \<Rightarrow> string list \<Rightarrow> string \<Rightarrow> real" where
  "weight docs ts t =
     (if t \<in> set ts
      then (1 + ln (real (count_list ts t))) * ln (1 + real (length docs) / real (doc_freq docs t))
      else 0)"

definition vec_norm :: "string list list \<Rightarrow> string list \<Rightarrow> real" where
  "vec_norm docs ts =
     (let n = sqrt (\<Sum>t\<leftarrow>remdups ts. weight docs ts t * weight docs ts t) in if n = 0 then 1 else n)"

definition dot_product :: "string list list \<Rightarrow> string list \<Rightarrow> string list \<Rightarrow> real" where
  "dot_product docs q d = (\<Sum>t\<leftarrow>remdups q. weight docs q t * weight docs d t)"

definition cosine :: "string list list \<Rightarrow> string list \<Rightarrow> string list \<Rightarrow> real" where
  "cosine docs q d = dot_product docs q d / (vec_norm docs q * vec_norm docs d)"

definition similarity :: "string \<Rightarrow> string list \<Rightarrow> real list" where
  "similarity query docs =
     (let q = terms query; ds = map terms docs in map (cosine (q # ds) q) ds)"

lemma length_similarity [simp]: "length (similarity query docs) = length docs"
  by (simp add: similarity_def Let_def)

lemma count_list_pos: "t \<in> set ts \<Longrightarrow> 1 \<le> count_list ts t"
  using count_list_0_iff [of ts t] by linarith

lemma doc_freq_pos: "d \<in> set docs \<Longrightarrow> t \<in> set d \<Longrightarrow> 0 < doc_freq docs t"
  by (auto simp: doc_freq_def filter_empty_conv)

lemma weight_pos:
  assumes "t \<in> set d" and "d \<in> set docs"
  shows "0 < weight docs d t"
proof -
  have "0 < real (length docs) / real (doc_freq docs t)"
    using assms doc_freq_pos by (auto intro!: divide_pos_pos simp: length_pos_if_in_set)
  moreover have "0 \<le> ln (real (count_list d t))"
    using count_list_pos [OF assms(1)] by simp
  ultimately show ?thesis
    using assms(1) by (simp add: weight_def)
qed

lemma weight_nonneg: "d \<in> set docs \<Longrightarrow> 0 \<le> weight docs d t"
  using weight_pos [of t d docs] by (cases "t \<in> set d") (auto simp: weight_def less_imp_le)

definition vec_sq :: "string list list \<Rightarrow> string list \<Rightarrow> real" where
  "vec_sq docs ts = (\<Sum>t\<in>set ts. (weight docs ts t)\<^sup>2)"

lemma vec_norm_alt: "vec_norm docs ts = (if vec_sq docs ts = 0 then 1 else sqrt (vec_sq docs ts))"
  by (simp add: vec_norm_def vec_sq_def Let_def sum_list_distinct_conv_sum_set power2_eq_square)

lemma vec_sq_nonneg: "0 \<le> vec_sq docs ts"
  by (simp add: vec_sq_def sum_nonneg)

lemma vec_norm_pos: "0 < vec_norm docs ts"
  using vec_sq_nonneg [of docs ts] by (auto simp: vec_norm_alt)

lemma vec_sq_extend:
  assumes "set ts \<subseteq> A" and "finite A"
  shows "vec_sq docs ts = (\<Sum>t\<in>A. (weight docs ts t)\<^sup>2)"
  unfolding vec_sq_def using assms
  by (intro sum.mono_neutral_left) (auto simp: weight_def)

lemma dot_product_extend:
  assumes "set q \<subseteq> A" and "finite A"
  shows "dot_product docs q d = (\<Sum>t\<in>A. weight docs q t * weight docs d t)"
proof -
  have "dot_product docs q d = (\<Sum>t\<in>set q. weight docs q t * weight docs d t)"
    by (simp add: dot_product_def sum_list_distinct_conv_sum_set)
  also have "\<dots> = (\<Sum>t\<in>A. weight docs q t * weight docs d t)"
    using assms by (intro sum.mono_neutral_left) (auto simp: weight_def)
  finally show ?thesis .
qed

lemma dot_product_nonneg:
  "q \<in> set docs \<Longrightarrow> d \<in> set docs \<Longrightarrow> 0 \<le> dot_product docs q d"
  by (auto simp: dot_product_def intro!: sum_list_nonneg mult_nonneg_nonneg weight_nonneg)

text \<open>Cauchy-Schwarz: the dot product is at most the product of the norms.\<close>

lemma scaled_product_le:
  fixes x y a b :: real
  assumes "0 < a" "0 < b"
  shows "2 * (x * y) \<le> (b / a) * x\<^sup>2 + (a / b) * y\<^sup>2"
proof -
  have "0 \<le> (b * x - a * y)\<^sup>2 / (a * b)"
    using assms by simp
  also have "\<dots> = (b / a) * x\<^sup>2 + (a / b) * y\<^sup>2 - 2 * (x * y)"
    using assms by (simp add: power2_eq_square field_simps)
  finally show ?thesis by simp
qed

lemma sum_product_le:
  fixes x y :: "'a \<Rightarrow> real"
  assumes "0 < sqrt (\<Sum>t\<in>A. (x t)\<^sup>2)" "0 < sqrt (\<Sum>t\<in>A. (y t)\<^sup>2)"
  shows "(\<Sum>t\<in>A. x t * y t) \<le> sqrt (\<Sum>t\<in>A. (x t)\<^sup>2) * sqrt (\<Sum>t\<in>A. (y t)\<^sup>2)"
proof -
  define a where "a = sqrt (\<Sum>t\<in>A. (x t)\<^sup>2)"
  define b where "b = sqrt (\<Sum>t\<in>A. (y t)\<^sup>2)"
  have ab: "0 < a" "0 < b" using assms by (auto simp: a_def b_def)
  have sq: "(\<Sum>t\<in>A. (x t)\<^sup>2) = a * a" "(\<Sum>t\<in>A. (y t)\<^sup>2) = b * b"
    by (auto simp: a_def b_def sum_nonneg)
  have "2 * (\<Sum>t\<in>A. x t * y t) = (\<Sum>t\<in>A. 2 * (x t * y t))"
    by (simp add: sum_distrib_left)
  also have "\<dots> \<le> (\<Sum>t\<in>A. (b / a) * (x t)\<^sup>2 + (a / b) * (y t)\<^sup>2)"
    by (intro sum_mono scaled_product_le ab)
  also have "\<dots> = (b / a) * (a * a) + (a / b) * (b * b)"
    by (simp only: sum.distrib sq [symmetric] sum_distrib_left [symmetric])
  also have "\<dots> = 2 * (a * b)"
    using ab by simp
  finally show ?thesis by (simp add: a_def b_def)
qed

lemma dot_product_le:
  assumes "q \<in> set docs" "d \<in> set docs"
  shows "dot_product docs q d \<le> vec_norm docs q * vec_norm docs d"
proof -
  let ?A = "set q \<union> set d"
  have dot: "dot_product docs q d = (\<Sum>t\<in>?A. weight docs q t * weight docs d t)"
    by (rule dot_product_extend) auto
  have sq: "vec_sq docs q = (\<Sum>t\<in>?A. (weight docs q t)\<^sup>2)"
    "vec_sq docs d = (\<Sum>t\<in>?A. (weight docs d t)\<^sup>2)"
    by (auto intro: vec_sq_extend)
  show ?thesis
  proof (cases "vec_sq docs q = 0 \<or> vec_sq docs d = 0")
    case True
    then have "\<forall>t\<in>?A. weight docs q t * weight docs d t = 0"
      using sq by (auto simp: sum_nonneg_eq_0_iff)
    then have "dot_product docs q d = 0"
      unfolding dot by (rule sum.neutral)
    then show ?thesis
      using vec_norm_pos [of docs q] vec_norm_pos [of docs d] by simp
  next
    case False
    then have "0 < sqrt (vec_sq docs q)" "0 < sqrt (vec_sq docs d)"
      using vec_sq_nonneg [of docs q] vec_sq_nonneg [of docs d] by auto
    then show ?thesis
      using False sum_product_le [of "weight docs q" ?A "weight docs d"]
      by (simp add: dot sq vec_norm_alt)
  qed
qed

lemma cosine_bounds:
  assumes "q \<in> set docs" "d \<in> set docs"
  shows "0 \<le> cosine docs q d \<and> cosine docs q d \<le> 1"
  using dot_product_le [OF assms] dot_product_nonneg [OF assms]
    vec_norm_pos [of docs q] vec_norm_pos [of docs d]
  by (simp add: cosine_def divide_le_eq_1 mult_pos_pos less_imp_le)

lemma similarity_bounds: "s \<in> set (similarity query docs) \<Longrightarrow> 0 \<le> s \<and> s \<le> 1"
  by (auto simp: similarity_def Let_def cosine_bounds)

lemma weight_same_terms:
  "mset q = mset d \<Longrightarrow> weight docs q t = weight docs d t"
  by (metis count_mset mset_eq_setD weight_def)

lemma cosine_same_terms:
  assumes "mset q = mset d" and "d \<noteq> []" and "d \<in> set docs"
  shows "cosine docs q d = 1"
proof -
  have sets: "set q = set d" by (rule mset_eq_setD [OF assms(1)])
  obtain t where "t \<in> set d" using assms(2) by (cases d) auto
  then have pos: "0 < vec_sq docs d"
    unfolding vec_sq_def using weight_pos [OF _ assms(3), of t]
    by (intro sum_pos2 [of "set d" t]) auto
  have same: "vec_sq docs q = vec_sq docs d"
    by (simp add: vec_sq_def sets weight_same_terms [OF assms(1)])
  have "dot_product docs q d = vec_sq docs d"
    using dot_product_extend [of q "set d"] sets
    by (simp add: vec_sq_def weight_same_terms [OF assms(1)] power2_eq_square)
  with pos same show ?thesis
    by (simp add: cosine_def vec_norm_alt)
qed

lemma cosine_disjoint: "set q \<inter> set d = {} \<Longrightarrow> cosine docs q d = 0"
proof -
  assume dis: "set q \<inter> set d = {}"
  have "dot_product docs q d = (\<Sum>t\<in>set q. weight docs q t * weight docs d t)"
    by (rule dot_product_extend) auto
  also have "\<dots> = 0"
    using dis by (intro sum.neutral) (auto simp: weight_def)
  finally show ?thesis by (simp add: cosine_def)
qed

lemma similarity_nth:
  "i < length docs \<Longrightarrow>
   similarity query docs ! i = cosine (terms query # map terms docs) (terms query) (terms (docs ! i))"
  by (simp add: similarity_def Let_def)

end
