(* ===== verification/WorkQueue.thy ===== *)
theory WorkQueue
  imports Similarity
begin

text \<open>
  The work queue behind the one chat (src/web/workQueue.ts, class \<open>WorkQueue\<close>): the task rows, the
  scheduler \<open>pump\<close>, the start and the end of a worker, and the operations on one task.

  A task is a row of the table \<open>queue_tasks\<close>; the record \<open>queue\<close> holds the rows, the meta table, the
  scheduler's flags, the humans waited for, and the calls made to the session layer
  (\<open>WorkerHost\<close>) in order.  What the queue asks of its surroundings is the record \<open>queue_env\<close>: the
  clock (one reading per operation), the settings, the file system and the answers of the session layer.
  A JSON column is read back as it was written.  The listener \<open>onChange\<close> only broadcasts, so it has no
  effect here, except that \<open>e_rounds\<close> says how many times \<open>pump\<close> was called again while it was pumping.
\<close>

section \<open>Data\<close>

datatype queue_status = Queued | Running | TaskDone | TaskError | Cancelled

datatype note_from = FromWorker | FromDispatcher | FromQueue

record queue_note =
  n_at :: int
  n_from :: note_from
  n_text :: string

record browser_ask =
  b_tab :: string
  b_message :: string
  b_since :: int

record queue_task =
  t_id :: string
  t_seq :: nat
  t_title :: string
  t_description :: string
  t_prompt :: string
  t_workspace :: string
  t_cwd :: string
  t_model :: string
  t_status :: queue_status
  t_session :: string
  t_result :: string
  t_created :: int
  t_started :: int
  t_finished :: int
  t_updated :: int
  t_redirects :: "string list"
  t_redirectsSeen :: nat
  t_redirectsAtStart :: nat
  t_related :: "(string \<times> real) list"
  t_notes :: "queue_note list"
  t_attempts :: nat
  t_workSeconds :: rat
  t_browser :: "browser_ask option"

datatype host_call =
    StartWorker string string
  | ContinueWorker string string
  | MessageWorker string string
  | StopWorker string
  | SaveCard string string string
  | WorkerSettled string queue_status

record queue =
  q_rows :: "queue_task list"
  q_meta :: "string \<Rightarrow> string option"
  q_starting :: "string list"
  q_pumping :: bool
  q_again :: bool
  q_waiting :: "(string \<times> nat) list"
  q_waits :: nat
  q_resolved :: "(nat \<times> string) list"
  q_calls :: "host_call list"

record queue_env =
  e_now :: int
  e_concurrency :: int
  e_exclusive :: bool
  e_model :: string
  e_default_cwd :: string
  e_fs :: fsys
  e_running :: "string \<Rightarrow> bool"
  e_result :: "string \<Rightarrow> string \<times> bool"
  e_rounds :: nat

definition empty_queue :: queue where
  "empty_queue = \<lparr>q_rows = [], q_meta = Map.empty, q_starting = [], q_pumping = False, q_again = False,
     q_waiting = [], q_waits = 0, q_resolved = [], q_calls = []\<rparr>"

definition RESULT_MAX :: int where "RESULT_MAX = 6000"
definition PROMPT_MAX :: int where "PROMPT_MAX = 40000"

fun status_text :: "queue_status \<Rightarrow> string" where
  "status_text Queued = ''queued''"
| "status_text Running = ''running''"
| "status_text TaskDone = ''done''"
| "status_text TaskError = ''error''"
| "status_text Cancelled = ''cancelled''"

definition queue_note_of :: "queue_env \<Rightarrow> string \<Rightarrow> queue_note" where
  "queue_note_of e s = \<lparr>n_at = e_now e, n_from = FromQueue, n_text = s\<rparr>"

section \<open>Reading and writing rows\<close>

definition from_row :: "queue_env \<Rightarrow> queue_task \<Rightarrow> queue_task" where
  "from_row e r =
     (if t_workspace r = [] then r\<lparr>t_workspace := workspace_from_cwd (fs_home (e_fs e)) (t_cwd r)\<rparr> else r)"

definition get_row :: "queue \<Rightarrow> string \<Rightarrow> queue_task option" where
  "get_row q i = row_of t_id i (q_rows q)"

definition get_task :: "queue_env \<Rightarrow> queue \<Rightarrow> string \<Rightarrow> queue_task option" where
  "get_task e q i = map_option (from_row e) (get_row q i)"

definition by_session :: "queue_env \<Rightarrow> queue \<Rightarrow> string \<Rightarrow> queue_task option" where
  "by_session e q sid =
     (if sid = [] then None
      else map_option (from_row e) (find (\<lambda>r. t_session r = sid) (q_rows q)))"

definition list_tasks :: "queue_env \<Rightarrow> queue \<Rightarrow> queue_task list" where
  "list_tasks e q = map (from_row e) (rev (sort_key t_seq (q_rows q)))"

definition changed_since :: "queue_env \<Rightarrow> queue \<Rightarrow> int \<Rightarrow> queue_task list" where
  "changed_since e q since =
     map (from_row e) (sort_key t_updated (filter (\<lambda>r. since \<le> t_updated r) (q_rows q)))"

definition count_status :: "queue \<Rightarrow> queue_status \<Rightarrow> nat" where
  "count_status q st = length (filter (\<lambda>r. t_status r = st) (q_rows q))"

definition meta_value :: "queue \<Rightarrow> string \<Rightarrow> string" where
  "meta_value q k = (case q_meta q k of None \<Rightarrow> [] | Some v \<Rightarrow> v)"

definition set_meta :: "string \<Rightarrow> string \<Rightarrow> queue \<Rightarrow> queue" where
  "set_meta k v q = q\<lparr>q_meta := (q_meta q)(k \<mapsto> v)\<rparr>"

text \<open>
  \<open>#save\<close>: the change stamp grows even when the clock does not, and a row keeps the last fifty notes.
  The conflict clause leaves \<open>seq\<close> and \<open>created_at\<close>, which no caller changes.
\<close>

definition stored_task :: "queue_env \<Rightarrow> queue_task \<Rightarrow> queue_task" where
  "stored_task e t = t\<lparr>t_updated := max (e_now e) (t_updated t + 1), t_notes := last_n 50 (t_notes t)\<rparr>"

definition save_task :: "queue_env \<Rightarrow> queue_task \<Rightarrow> queue \<Rightarrow> queue" where
  "save_task e t q = q\<lparr>q_rows := upsert t_id (stored_task e t) (q_rows q)\<rparr>"

definition host_does :: "host_call \<Rightarrow> queue \<Rightarrow> queue" where
  "host_does c q = q\<lparr>q_calls := q_calls q @ [c]\<rparr>"

definition next_seq :: "queue \<Rightarrow> nat" where
  "next_seq q = Suc (fold max (map t_seq (q_rows q)) 0)"

section \<open>Scheduling\<close>

definition redirect_mark :: string where
  "redirect_mark = ''[redirect from the dispatcher] ''"

definition resume_message :: "string list \<Rightarrow> string" where
  "resume_message unseen =
     (if unseen \<noteq> [] then join (nl @ nl) (map (\<lambda>r. redirect_mark @ r) unseen)
      else ''[the server restarted while you worked] Continue the task where you left off and finish it.'')"

definition start_brief :: "queue_task \<Rightarrow> string" where
  "start_brief t =
     (if t_redirects t \<noteq> []
      then t_prompt t @ nl @ nl @ ''Additional requirements added after the task was written:'' @ nl
             @ join nl (map (\<lambda>r. ''- '' @ r) (t_redirects t))
      else t_prompt t)"

definition started_task :: "queue_env \<Rightarrow> queue_task \<Rightarrow> queue_task" where
  "started_task e t = t\<lparr>t_status := Running, t_started := e_now e, t_finished := 0,
     t_attempts := Suc (t_attempts t), t_redirectsSeen := length (t_redirects t),
     t_redirectsAtStart := length (t_redirects t)\<rparr>"

definition start_call :: "queue_task \<Rightarrow> host_call" where
  "start_call t =
     (if t_session t \<noteq> [] \<and> 1 < Suc (t_attempts t)
      then ContinueWorker (t_session t) (resume_message (drop (t_redirectsSeen t) (t_redirects t)))
      else StartWorker (t_id t) (start_brief t))"

text \<open>\<open>#start\<close> up to its \<open>await\<close>: the row says running before the worker is asked for.\<close>

definition start_begin :: "queue_env \<Rightarrow> queue_task \<Rightarrow> queue \<Rightarrow> queue" where
  "start_begin e t q =
     (let q1 = q\<lparr>q_starting := t_id t # q_starting q\<rparr>;
          q2 = save_task e (started_task e t) q1;
          q3 = q2\<lparr>q_starting := removeAll (t_id t) (q_starting q2)\<rparr>
      in host_does (start_call t) q3)"

fun pump_rows :: "queue_env \<Rightarrow> int \<Rightarrow> string list \<Rightarrow> queue_task list \<Rightarrow> queue \<Rightarrow> queue" where
  "pump_rows e slots busy [] q = q"
| "pump_rows e slots busy (row # rows) q =
     (if slots \<le> 0 then q
      else (let t = from_row e row in
        if t_id t \<in> set (q_starting q) then pump_rows e slots busy rows q
        else if e_exclusive e \<and> list_ex (\<lambda>c. overlaps (fs_home (e_fs e)) c (t_cwd t)) busy
        then pump_rows e slots busy rows q
        else pump_rows e (slots - 1) (busy @ [t_cwd t]) rows (start_begin e t q)))"

definition free_slots :: "queue_env \<Rightarrow> queue \<Rightarrow> int" where
  "free_slots e q = e_concurrency e - int (count_status q Running) - int (length (q_starting q))"

definition pump_pass :: "queue_env \<Rightarrow> queue \<Rightarrow> queue" where
  "pump_pass e q =
     pump_rows e (free_slots e q)
       (map t_cwd (filter (\<lambda>r. t_status r = Running) (q_rows q)))
       (sort_key t_seq (filter (\<lambda>r. t_status r = Queued) (q_rows q))) q"

text \<open>The \<open>do ... while (again)\<close> loop; the last argument counts the calls that arrive while it runs.\<close>

fun pump_loop :: "queue_env \<Rightarrow> nat \<Rightarrow> queue \<Rightarrow> queue" where
  "pump_loop e n q =
     (if free_slots e q \<le> 0 then q
      else (let q' = pump_pass e q in (case n of 0 \<Rightarrow> q' | Suc m \<Rightarrow> pump_loop e m q')))"

declare pump_loop.simps [simp del]

definition pump :: "queue_env \<Rightarrow> queue \<Rightarrow> queue" where
  "pump e q =
     (if q_pumping q then q\<lparr>q_again := True\<rparr>
      else (pump_loop e (e_rounds e) (q\<lparr>q_pumping := True, q_again := False\<rparr>))
             \<lparr>q_pumping := False, q_again := False\<rparr>)"

definition resize :: "queue_env \<Rightarrow> queue \<Rightarrow> queue" where
  "resize e q = pump e q"

section \<open>The end of a worker\<close>

datatype exit_status = ExitDone | ExitError | ExitInterrupted

definition worked_seconds :: "queue_env \<Rightarrow> queue_task \<Rightarrow> rat" where
  "worked_seconds e t = t_workSeconds t + max 0 (of_int (e_now e - t_started t) / 1000)"

definition settled_task :: "queue_env \<Rightarrow> exit_status \<Rightarrow> queue_task \<Rightarrow> queue_task" where
  "settled_task e st t =
     (let (text, ok) = e_result e (t_session t);
          res = slice_to RESULT_MAX text
      in t\<lparr>t_workSeconds := worked_seconds e t, t_finished := e_now e,
           t_status := (if st = ExitDone \<and> ok then TaskDone else TaskError),
           t_result := (if st = ExitInterrupted \<and> res = [] then ''interrupted'' else res)\<rparr>)"

definition worker_exited :: "queue_env \<Rightarrow> string \<Rightarrow> exit_status \<Rightarrow> queue \<Rightarrow> queue" where
  "worker_exited e sid st q =
     (case by_session e q sid of
        None \<Rightarrow> q
      | Some t \<Rightarrow>
          (if t_status t \<noteq> Running then q
           else (let t' = settled_task e st t in
             pump e (host_does (WorkerSettled (t_id t) (t_status t')) (save_task e t' q)))))"

text \<open>
  \<open>#start\<close> after its \<open>await\<close>: the worker could not be started (\<open>failure\<close>), or its session is \<open>sid\<close>.
  The row is read again, because the task may have been cancelled or redirected in between.
\<close>

definition start_settle :: "queue_env \<Rightarrow> string \<Rightarrow> string \<Rightarrow> string \<Rightarrow> queue \<Rightarrow> queue" where
  "start_settle e i sid failure q =
     (case get_task e q i of
        None \<Rightarrow> q
      | Some t \<Rightarrow>
          (if failure \<noteq> [] then
             (if t_status t = Running
              then pump e (save_task e (t\<lparr>t_status := TaskError, t_finished := e_now e,
                     t_result := ''could not start the worker: '' @ failure\<rparr>) q)
              else q)
           else
             (let q1 = (if sid \<noteq> [] \<and> t_session t \<noteq> sid
                        then host_does (SaveCard sid (t_title t) (t_description t))
                               (save_task e (t\<lparr>t_session := sid\<rparr>) q)
                        else q)
              in if t_status t = Cancelled \<and> sid \<noteq> [] then host_does (StopWorker sid) q1
                 else if t_status t = Running \<and> sid \<noteq> [] \<and> \<not> e_running e sid
                 then worker_exited e sid (if snd (e_result e sid) then ExitDone else ExitError) q1
                 else q1)))"

definition requeue :: "queue_env \<Rightarrow> string \<Rightarrow> string \<Rightarrow> queue \<Rightarrow> queue" where
  "requeue e i why q =
     (case get_task e q i of
        None \<Rightarrow> q
      | Some t \<Rightarrow>
          pump e (save_task e (t\<lparr>t_workSeconds := worked_seconds e t, t_status := Queued,
                    t_notes := t_notes t @ [queue_note_of e why]\<rparr>) q))"

definition recovered_task :: "queue_env \<Rightarrow> queue_task \<Rightarrow> queue_task" where
  "recovered_task e t =
     t\<lparr>t_status := Queued, t_redirectsSeen := min (t_redirectsSeen t) (t_redirectsAtStart t),
       t_notes := t_notes t @ [queue_note_of e
         ''the server restarted while this task ran: it continues its session'']\<rparr>"

definition recover :: "queue_env \<Rightarrow> queue \<Rightarrow> queue" where
  "recover e q =
     pump e (fold (\<lambda>row q. save_task e (recovered_task e (from_row e row)) q)
               (filter (\<lambda>r. t_status r = Running) (q_rows q)) q)"

section \<open>Operations on one task\<close>

text \<open>
  \<open>redirect\<close> answers synchronously (it awaits nothing).  A queued task's brief grows; a running worker
  is messaged; anything else is opened and queued again.
\<close>

definition redirect :: "queue_env \<Rightarrow> string \<Rightarrow> js \<Rightarrow> queue \<Rightarrow> queue \<times> bool \<times> string" where
  "redirect e i message q =
     (let text = clean message 8000 in
      case get_task e q (js_trim i) of
        None \<Rightarrow> (q, False, ''no task '' @ i)
      | Some t0 \<Rightarrow>
          (if text = [] then (q, False, ''a redirect needs a message'')
           else
             (let t = t0\<lparr>t_redirects := t_redirects t0 @ [text],
                         t_notes := t_notes t0 @ [\<lparr>n_at = e_now e, n_from = FromDispatcher,
                                                   n_text = ''redirected: '' @ slice_to 300 text\<rparr>]\<rparr>
              in if t_status t = Queued
                 then (save_task e t q, True,
                       t_id t @ '' is still queued: the redirect is added to its brief.'')
                 else if t_status t = Running \<and> t_session t \<noteq> [] \<and> e_running e (t_session t)
                 then (save_task e (t\<lparr>t_redirectsSeen := length (t_redirects t)\<rparr>)
                         (host_does (MessageWorker (t_session t) (redirect_mark @ text)) q), True,
                       t_id t @ '' is running: its agent reads the redirect before its next step.'')
                 else (pump e (save_task e (t\<lparr>t_status := Queued, t_finished := 0\<rparr>) q), True,
                       t_id t @ '' re-opened with the redirect and queued again.''))))"

definition cancel :: "queue_env \<Rightarrow> string \<Rightarrow> queue \<Rightarrow> queue \<times> bool \<times> string" where
  "cancel e i q =
     (case get_task e q (js_trim i) of
        None \<Rightarrow> (q, False, ''no task '' @ i)
      | Some t \<Rightarrow>
          (if t_status t \<noteq> Queued \<and> t_status t \<noteq> Running
           then (q, False, t_id t @ '' is already '' @ status_text (t_status t))
           else
             (let q1 = save_task e (t\<lparr>t_status := Cancelled, t_finished := e_now e,
                         t_notes := t_notes t @ [queue_note_of e ''cancelled'']\<rparr>) q;
                  q2 = (if t_status t = Running \<and> t_session t \<noteq> []
                        then host_does (StopWorker (t_session t)) q1 else q1)
              in (pump e q2, True, t_id t @ '' cancelled.''))))"

definition session_gone :: "queue_env \<Rightarrow> string \<Rightarrow> string \<Rightarrow> queue \<Rightarrow> queue" where
  "session_gone e sid why q =
     (case by_session e q sid of
        None \<Rightarrow> q
      | Some t \<Rightarrow>
          (if t_status t \<noteq> Running \<and> t_status t \<noteq> Queued then q
           else pump e (save_task e (t\<lparr>t_status := Cancelled, t_finished := e_now e,
                  t_result := (if t_result t = [] then ''cancelled: '' @ why else t_result t),
                  t_notes := t_notes t @ [queue_note_of e (''cancelled: '' @ why)]\<rparr>) q)))"

definition set_model :: "queue_env \<Rightarrow> string \<Rightarrow> string \<Rightarrow> string \<Rightarrow> queue \<Rightarrow> queue" where
  "set_model e i model why q =
     (case get_task e q i of
        None \<Rightarrow> q
      | Some t \<Rightarrow>
          (if t_model t = model then q
           else save_task e (t\<lparr>t_model := model, t_notes := t_notes t @ [queue_note_of e why]\<rparr>) q))"

definition ask_human :: "queue_env \<Rightarrow> string \<Rightarrow> string \<Rightarrow> js \<Rightarrow> queue \<Rightarrow> queue \<times> bool \<times> string" where
  "ask_human e i tab message q =
     (case get_task e q i of
        None \<Rightarrow> (q, False, ''no task '' @ i)
      | Some t \<Rightarrow>
          (let text = clean message 2000 in
           if text = [] then (q, False, ''say what the human should do'')
           else (save_task e (t\<lparr>t_notes := t_notes t @ [\<lparr>n_at = e_now e, n_from = FromWorker,
                     n_text = ''needs you in the browser (tab '' @ tab @ ''): '' @ text\<rparr>],
                   t_browser := Some \<lparr>b_tab = tab, b_message = text, b_since = e_now e\<rparr>\<rparr>) q,
                 True, ''the human was asked'')))"

text \<open>
  \<open>humanDone\<close> registers one callback per task, here a number; \<open>human_finish\<close> is that callback.  A
  callback that is no longer the registered one does nothing.
\<close>

definition human_finish :: "queue_env \<Rightarrow> string \<Rightarrow> nat \<Rightarrow> string \<Rightarrow> queue \<Rightarrow> queue" where
  "human_finish e i w how q =
     (if map_of (q_waiting q) i \<noteq> Some w then q
      else
        (let q1 = q\<lparr>q_waiting := filter (\<lambda>p. fst p \<noteq> i) (q_waiting q)\<rparr>;
             q2 = (case get_task e q1 i of
                     None \<Rightarrow> q1
                   | Some t \<Rightarrow>
                       (if t_browser t = None then q1
                        else save_task e (t\<lparr>t_browser := None,
                               t_notes := t_notes t @ [queue_note_of e
                                 (if how = ''done'' then ''the human finished in the browser''
                                  else ''the human did not answer in time'')]\<rparr>) q1))
         in q2\<lparr>q_resolved := q_resolved q2 @ [(w, how)]\<rparr>))"

definition human_done :: "queue_env \<Rightarrow> string \<Rightarrow> rat \<Rightarrow> queue \<Rightarrow> queue \<times> nat" where
  "human_done e i seconds q =
     (let w = q_waits q;
          q1 = q\<lparr>q_waiting := (i, w) # filter (\<lambda>p. fst p \<noteq> i) (q_waiting q), q_waits := Suc w\<rparr>
      in (if 0 < seconds then q1 else human_finish e i w ''not-waited'' q1, w))"

definition resolve_human :: "queue_env \<Rightarrow> string \<Rightarrow> queue \<Rightarrow> queue \<times> bool" where
  "resolve_human e i q =
     (let fin = map_of (q_waiting q) i;
          q1 = (case fin of None \<Rightarrow> q | Some w \<Rightarrow> human_finish e i w ''done'' q);
          t = get_task e q1 i;
          q2 = (case t of
                  None \<Rightarrow> q1
                | Some t' \<Rightarrow> (if t_browser t' \<noteq> None \<and> fin = None
                             then save_task e (t'\<lparr>t_browser := None\<rparr>) q1 else q1))
      in (q2, fin \<noteq> None \<or> t \<noteq> None))"

definition update_card :: "queue_env \<Rightarrow> string \<Rightarrow> js \<Rightarrow> queue \<Rightarrow> queue \<times> bool \<times> string" where
  "update_card e i description q =
     (case get_task e q i of
        None \<Rightarrow> (q, False, ''no task '' @ i)
      | Some t \<Rightarrow>
          (let d = one_line description 400 in
           if d = [] then (q, False, ''description is empty'')
           else (let q1 = save_task e (t\<lparr>t_description := d\<rparr>) q
                 in (if t_session t \<noteq> [] then host_does (SaveCard (t_session t) (t_title t) d) q1 else q1,
                     True, ''card updated''))))"

definition notify :: "queue_env \<Rightarrow> string \<Rightarrow> js \<Rightarrow> queue \<Rightarrow> queue \<times> bool \<times> string" where
  "notify e i message q =
     (case get_task e q i of
        None \<Rightarrow> (q, False, ''no task '' @ i)
      | Some t \<Rightarrow>
          (let text = clean message 2000 in
           if text = [] then (q, False, ''message is empty'')
           else (save_task e (t\<lparr>t_notes := t_notes t @ [\<lparr>n_at = e_now e, n_from = FromWorker,
                     n_text = text\<rparr>]\<rparr>) q, True, ''the dispatcher was notified'')))"

end
