(* ===== verification/WorkQueueCreate.thy ===== *)
theory WorkQueueCreate
  imports WorkQueue
begin

text \<open>
  How the dispatcher adds work (src/web/workQueue.ts, \<open>relatedTo\<close> and \<open>create\<close>): the tasks a text is
  close to, the checks a call has to pass, the duplicate gate, and the rows it makes.
  \<open>create\<close> returns the queue and either the created tasks or the refusal.
\<close>

section \<open>Related tasks\<close>

definition RELATED_WINDOW :: nat where "RELATED_WINDOW = 500"
definition RELATED_SCORE :: real where "RELATED_SCORE = 15 / 100"
definition DUPLICATE_SCORE :: real where "DUPLICATE_SCORE = 72 / 100"

definition active_task :: "queue_task \<Rightarrow> bool" where
  "active_task t = (t_status t = Queued \<or> t_status t = Running)"

definition doc_of :: "queue_task \<Rightarrow> string" where
  "doc_of t = t_title t @ '' '' @ t_description t @ '' '' @ slice_to 4000 (t_prompt t)"

definition related_window :: "queue_task list \<Rightarrow> queue_task list" where
  "related_window among =
     (if RELATED_WINDOW < length among
      then (let act = filter active_task among;
                recent = take (RELATED_WINDOW - length act)
                           (sort_stable (\<lambda>a b. t_seq b < t_seq a) (filter (\<lambda>t. \<not> active_task t) among))
            in act @ recent)
      else among)"

definition related_to :: "string \<Rightarrow> queue_task list \<Rightarrow> (queue_task \<times> real) list" where
  "related_to text among0 =
     (let among = related_window among0 in
      if among = [] \<or> terms text = [] then []
      else sort_stable (\<lambda>a b. snd b < snd a)
             (filter (\<lambda>r. RELATED_SCORE \<le> snd r)
               (map (\<lambda>(t, s). (t, of_int (round_half_up (s * 100)) / 100))
                 (zip among (similarity text (map doc_of among))))))"

lemma related_to_code [code]:
  "related_to text among0 =
     (case related_window among0 of [] \<Rightarrow> []
      | t # ts \<Rightarrow> (case terms text of [] \<Rightarrow> []
        | w # ws \<Rightarrow> sort_stable (\<lambda>a b. snd b < snd a)
             (filter (\<lambda>r. RELATED_SCORE \<le> snd r)
               (map (\<lambda>(t, s). (t, of_int (round_half_up (s * 100)) / 100))
                 (zip (t # ts) (similarity text (map doc_of (t # ts))))))))"
  by (simp add: related_to_def Let_def split: list.split)

section \<open>The specifications of a call\<close>

record task_spec =
  s_title :: string
  s_description :: string
  s_prompt :: string
  s_cwd :: string
  s_workspace :: string
  s_disjoint :: bool

datatype create_result =
    Created "queue_task list" string
  | Refused string "string option"

text \<open>\<open>s.split(pat).join(rep)\<close> for a nonempty \<open>pat\<close>.\<close>

function replace_all :: "string \<Rightarrow> string \<Rightarrow> string \<Rightarrow> string" where
  "replace_all pat rep [] = []"
| "replace_all pat rep (c # s) =
     (if pat \<noteq> [] \<and> prefix pat (c # s) then rep @ replace_all pat rep (drop (length pat) (c # s))
      else c # replace_all pat rep s)"
  by pat_completeness auto
termination
  by (relation "measure (\<lambda>(p, r, s). length s)") auto

definition brief_of :: "bool \<Rightarrow> string \<Rightarrow> js \<Rightarrow> string" where
  "brief_of single message s =
     (let own = replace_all ''@MESSAGE'' message (js_trim (str_or_empty (js_field ''prompt'' s)));
          notes = js_trim (str_or_empty (js_field ''notes'' s))
      in if single
         then join (nl @ nl) (filter (\<lambda>x. x \<noteq> [])
                [message, if own \<noteq> [] \<and> own \<noteq> message then ''Dispatcher notes:'' @ nl @ own else [], notes])
         else if notes \<noteq> [] then own @ nl @ nl @ notes else own)"

definition spec_of :: "queue_env \<Rightarrow> nat \<Rightarrow> bool \<Rightarrow> string \<Rightarrow> js \<Rightarrow> task_spec" where
  "spec_of e nraw single message s =
     (let brief = brief_of single message s;
          named = dir_in (e_fs e) brief
      in \<lparr>s_title = one_line (js_field ''title'' s) 80,
          s_description = one_line (js_field ''description'' s) 400,
          s_prompt = clean (JStr brief) PROMPT_MAX,
          s_cwd = expand_cwd (e_fs e)
            (if is_string (js_field ''cwd'' s) then str_or_empty (js_field ''cwd'' s)
             else if named \<noteq> [] then named
             else if nraw = 1 then dir_in (e_fs e) message else [])
            (e_default_cwd e),
          s_workspace = one_line (js_field ''workspace'' s) 48,
          s_disjoint = (js_field ''allow_overlap'' s = JBool False)\<rparr>)"

definition query_of :: "task_spec \<Rightarrow> string" where
  "query_of s = s_title s @ '' '' @ s_description s @ '' '' @ s_prompt s"

text \<open>The first pair (in the order of the two loops) whose directories overlap.\<close>

fun first_overlap :: "string \<Rightarrow> nat \<Rightarrow> task_spec list \<Rightarrow> (nat \<times> nat) option" where
  "first_overlap home i [] = None"
| "first_overlap home i (s # ss) =
     (case find (\<lambda>j. overlaps home (s_cwd s) (s_cwd (ss ! j))) [0..<length ss] of
        Some j \<Rightarrow> Some (i, Suc (i + j))
      | None \<Rightarrow> first_overlap home (Suc i) ss)"

fun duplicate_hit :: "queue_task list \<Rightarrow> task_spec list \<Rightarrow> (task_spec \<times> queue_task \<times> real) option" where
  "duplicate_hit act [] = None"
| "duplicate_hit act (s # ss) =
     (case related_to (query_of s) act of
        [] \<Rightarrow> duplicate_hit act ss
      | (t, sc) # _ \<Rightarrow> (if DUPLICATE_SCORE \<le> sc then Some (s, t, sc) else duplicate_hit act ss))"

definition new_task :: "queue_env \<Rightarrow> nat \<Rightarrow> (string \<times> real) list \<Rightarrow> task_spec \<Rightarrow> queue_task" where
  "new_task e seq related s =
     \<lparr>t_id = CHR ''t'' # show_nat seq, t_seq = seq, t_title = s_title s,
      t_description = s_description s, t_prompt = s_prompt s,
      t_workspace = (if s_workspace s = [] then workspace_from_cwd (fs_home (e_fs e)) (s_cwd s) else s_workspace s),
      t_cwd = s_cwd s, t_model = e_model e, t_status = Queued, t_session = [], t_result = [],
      t_created = e_now e, t_started = 0, t_finished = 0, t_updated = e_now e, t_redirects = [],
      t_redirectsSeen = 0, t_redirectsAtStart = 0, t_related = related, t_notes = [],
      t_attempts = 0, t_workSeconds = 0, t_browser = None\<rparr>"

fun make_tasks :: "queue_env \<Rightarrow> queue_task list \<Rightarrow> queue_task list \<Rightarrow> nat \<Rightarrow> task_spec list \<Rightarrow> queue
    \<Rightarrow> queue_task list \<times> queue" where
  "make_tasks e existing made seq [] q = (made, q)"
| "make_tasks e existing made seq (s # ss) q =
     (let related = map (\<lambda>(t, sc). (t_id t, sc)) (take 5 (related_to (query_of s) (existing @ made)));
          t = new_task e seq related s
      in make_tasks e existing (made @ [t]) (Suc seq) ss (save_task e t q))"

definition created_line :: "queue_env \<Rightarrow> queue \<Rightarrow> queue_task \<Rightarrow> string" where
  "created_line e q t =
     t_id t @ '' '' @ [CHR 0x22] @ t_title t @ [CHR 0x22] @ '' '' @
     (case get_task e q (t_id t) of None \<Rightarrow> ''queued'' | Some u \<Rightarrow> status_text (t_status u)) @
     (if t_related t \<noteq> [] then '' (related: '' @ join '', '' (map fst (t_related t)) @ '')'' else [])"

definition created_text :: "queue_env \<Rightarrow> queue \<Rightarrow> queue_task list \<Rightarrow> string" where
  "created_text e q made =
     join nl (map (created_line e q) made) @ nl @ ''Queue: '' @ show_nat (count_status q Running) @
     '' running, '' @ show_nat (count_status q Queued) @ '' waiting (max '' @ show_int (e_concurrency e) @ '' at once).''"

section \<open>The checks and the call\<close>

text \<open>The refusals that look at the call alone, in the code's order.\<close>

definition spec_refusal :: "queue_env \<Rightarrow> js list \<Rightarrow> task_spec list \<Rightarrow> string option" where
  "spec_refusal e raw specs =
     (case find (\<lambda>i. s_prompt (specs ! i) = [] \<or> s_title (specs ! i) = []) [0..<length specs] of
        Some i \<Rightarrow> Some (''task '' @ show_nat (Suc i) @
                        '' needs a title and a prompt (only a single task may omit its prompt)'')
      | None \<Rightarrow>
          (if 1 < length specs \<and> list_ex (\<lambda>s. js_trim (str_or_empty (js_field ''prompt'' s)) = []) raw
           then Some ''with several tasks, each one needs its own prompt''
           else if 100 < length specs then Some ''at most 100 tasks per call''
           else if 1 < length specs \<and> list_all s_disjoint specs
           then (case first_overlap (fs_home (e_fs e)) 0 specs of
                   None \<Rightarrow> None
                 | Some (i, j) \<Rightarrow>
                     Some (''independent tasks '' @ show_nat (Suc i) @ '' and '' @ show_nat (Suc j) @
                       '' have overlapping working directories ('' @ s_cwd (specs ! i) @ '' / '' @ s_cwd (specs ! j) @
                       ''). Create ONE task for the whole request instead of serializing several cold starts, or assign disjoint part directories for fan-out.''))
           else None))"

text \<open>A score has two decimals: \<open>String(score)\<close> drops the trailing zeros.\<close>

definition score_text :: "real \<Rightarrow> string" where
  "score_text sc =
     (let n = nat (round_half_up (sc * 100)) in
      if n mod 100 = 0 then show_nat (n div 100)
      else show_nat (n div 100) @ ''.'' @
        (if n mod 10 = 0 then show_nat (n mod 100 div 10)
         else show_nat (n mod 100 div 10) @ show_nat (n mod 10)))"

definition duplicate_text :: "task_spec \<Rightarrow> queue_task \<Rightarrow> real \<Rightarrow> string" where
  "duplicate_text s t sc =
     ''Not created: '' @ [CHR 0x22] @ s_title s @ [CHR 0x22] @ '' looks like active task '' @ t_id t @
     '' ('' @ [CHR 0x22] @ t_title t @ [CHR 0x22] @ '', '' @ status_text (t_status t) @ '', similarity '' @ score_text sc @
     ''). Use task_redirect on '' @ t_id t @
     '' to add this to it, or call task_create again with new_task: true if it is genuinely different work.''"

definition create_specs :: "queue_env \<Rightarrow> bool \<Rightarrow> task_spec list \<Rightarrow> queue \<Rightarrow> queue \<times> create_result" where
  "create_specs e force specs q =
     (let existing = list_tasks e q; act = filter active_task existing in
      case (if force then None else duplicate_hit act specs) of
        Some (s, t, sc) \<Rightarrow> (q, Refused (duplicate_text s t sc) (Some (t_id t)))
      | None \<Rightarrow>
          (let (made, q1) = make_tasks e existing [] (next_seq q) specs q;
               q2 = pump e q1
           in (q2, Created made (created_text e q2 made))))"

definition create :: "queue_env \<Rightarrow> js \<Rightarrow> string \<Rightarrow> queue \<Rightarrow> queue \<times> create_result" where
  "create e spec message q =
     (let listed = arr_or_nil (js_field ''tasks'' spec) in
      if list_ex (\<lambda>t. \<not> is_object t) listed
      then (q, Refused ''every entry of `tasks` must be an object {title, description, prompt}'' None)
      else
        (let raw = (if listed \<noteq> [] then listed else [spec]);
             single = (length raw = 1 \<and> js_trim message \<noteq> []);
             specs = map (spec_of e (length raw) single message) raw
         in case spec_refusal e raw specs of
              Some text \<Rightarrow> (q, Refused text None)
            | None \<Rightarrow> create_specs e (js_field ''new_task'' spec = JBool True) specs q))"

section \<open>Lemmas\<close>

lemma related_to_sorted:
  "sorted_wrt (\<lambda>a b. snd b \<le> snd a) (related_to text among)"
proof -
  have "sorted_wrt (\<lambda>a b. \<not> snd a < snd b) (sort_stable (\<lambda>a b. snd b < snd a) xs)"
    for xs :: "(queue_task \<times> real) list"
    using sorted_sort_stable [of "\<lambda>a b. snd b < snd (a :: queue_task \<times> real)" xs] by auto
  then show ?thesis
    by (auto simp: related_to_def Let_def not_less)
qed

lemma related_to_mem:
  assumes "t \<in> set (related_window among)" "terms text \<noteq> []"
    and "mset (terms text) = mset (terms (doc_of t))"
  shows "(t, 1) \<in> set (related_to text among)"
proof -
  let ?w = "related_window among"
  let ?s = "similarity text (map doc_of ?w)"
  obtain i where i: "i < length ?w" "?w ! i = t"
    using assms(1) by (metis in_set_conv_nth)
  have "?s ! i = 1"
    using i assms by (subst similarity_nth) (auto intro!: cosine_same_terms)
  with i have "(t, 1) \<in> set (zip ?w ?s)"
    by (metis (no_types, lifting) length_map length_similarity length_zip min.idem nth_mem nth_zip)
  then have "(t, 1) \<in> (\<lambda>(t, s). (t, real_of_int (round_half_up (s * 100)) / 100)) ` set (zip ?w ?s)"
    by (rule image_eqI [rotated]) (simp add: round_half_up_def)
  then show ?thesis
    using assms(1,2) by (auto simp: related_to_def Let_def RELATED_SCORE_def)
qed

lemma active_in_window:
  "t \<in> set among \<Longrightarrow> active_task t \<Longrightarrow> t \<in> set (related_window among)"
  by (simp add: related_window_def Let_def)

lemma duplicate_hit_found:
  assumes "s \<in> set specs" "u \<in> set act" "active_task u" "terms (query_of s) \<noteq> []"
    and "mset (terms (query_of s)) = mset (terms (doc_of u))"
  shows "duplicate_hit act specs \<noteq> None"
  using assms(1)
proof (induction specs)
  case (Cons a specs)
  show ?case
  proof (cases "a = s")
    case True
    have mem: "(u, 1) \<in> set (related_to (query_of s) act)"
      by (rule related_to_mem [OF active_in_window [OF assms(2,3)] assms(4,5)])
    then obtain t sc rest where eq: "related_to (query_of s) act = (t, sc) # rest"
      by (cases "related_to (query_of s) act") auto
    have "1 \<le> sc"
      using related_to_sorted [of "query_of s" act] mem by (auto simp: eq)
    with True eq show ?thesis by (simp add: DUPLICATE_SCORE_def)
  next
    case False
    with Cons show ?thesis by (auto split: list.splits)
  qed
qed simp

lemma duplicate_hit_SomeD:
  "duplicate_hit act specs = Some (s, t, sc) \<Longrightarrow> s \<in> set specs \<and> DUPLICATE_SCORE \<le> sc \<and> (\<exists>r. related_to (query_of s) act = (t, sc) # r)"
  by (induction specs) (auto split: list.splits if_splits)

lemma first_overlap_NoneD:
  "first_overlap home k specs = None \<Longrightarrow> i < j \<Longrightarrow> j < length specs \<Longrightarrow>
   \<not> overlaps home (s_cwd (specs ! i)) (s_cwd (specs ! j))"
proof (induction specs arbitrary: k i j)
  case (Cons s ss)
  then have none: "find (\<lambda>j. overlaps home (s_cwd s) (s_cwd (ss ! j))) [0..<length ss] = None"
    and rest: "first_overlap home (Suc k) ss = None"
    by (auto split: option.splits)
  obtain j' where j: "j = Suc j'" using Cons.prems(2) by (cases j) auto
  show ?case
  proof (cases i)
    case 0
    with none Cons.prems j show ?thesis by (auto simp: find_None_iff)
  next
    case (Suc i')
    with Cons.IH [OF rest, of i' j'] Cons.prems j show ?thesis by simp
  qed
qed simp

end
