(* ===== verification/WorkQueueSched.thy ===== *)
theory WorkQueueSched
  imports WorkQueueCreate
begin

text \<open>
  Lemmas about the scheduler: what starting one task changes, what one pass of \<open>pump\<close> starts and
  leaves, and the same for \<open>pump\<close>.  \<open>queue_wf\<close> is the well-formedness every operation keeps: one row per
  id, ids made from the sequence number, no start half done, no pump running.
\<close>

section \<open>Fields a row keeps\<close>

lemma from_row_fields [simp]:
  "t_id (from_row e r) = t_id r" "t_seq (from_row e r) = t_seq r" "t_cwd (from_row e r) = t_cwd r"
  "t_status (from_row e r) = t_status r" "t_session (from_row e r) = t_session r"
  "t_redirects (from_row e r) = t_redirects r" "t_redirectsSeen (from_row e r) = t_redirectsSeen r"
  "t_redirectsAtStart (from_row e r) = t_redirectsAtStart r" "t_attempts (from_row e r) = t_attempts r"
  "t_title (from_row e r) = t_title r" "t_description (from_row e r) = t_description r"
  "t_prompt (from_row e r) = t_prompt r" "t_result (from_row e r) = t_result r"
  "t_notes (from_row e r) = t_notes r" "t_browser (from_row e r) = t_browser r"
  "t_model (from_row e r) = t_model r" "t_started (from_row e r) = t_started r"
  by (simp_all add: from_row_def)

lemma stored_task_fields [simp]:
  "t_id (stored_task e t) = t_id t" "t_seq (stored_task e t) = t_seq t" "t_cwd (stored_task e t) = t_cwd t"
  "t_status (stored_task e t) = t_status t" "t_session (stored_task e t) = t_session t"
  "t_redirects (stored_task e t) = t_redirects t" "t_redirectsSeen (stored_task e t) = t_redirectsSeen t"
  "t_redirectsAtStart (stored_task e t) = t_redirectsAtStart t" "t_attempts (stored_task e t) = t_attempts t"
  "t_result (stored_task e t) = t_result t" "t_browser (stored_task e t) = t_browser t"
  "t_workspace (stored_task e t) = t_workspace t" "t_model (stored_task e t) = t_model t"
  "t_description (stored_task e t) = t_description t"
  by (simp_all add: stored_task_def)

lemma started_task_fields [simp]:
  "t_id (started_task e t) = t_id t" "t_seq (started_task e t) = t_seq t" "t_cwd (started_task e t) = t_cwd t"
  "t_status (started_task e t) = Running" "t_session (started_task e t) = t_session t"
  "t_redirects (started_task e t) = t_redirects t"
  "t_redirectsSeen (started_task e t) = length (t_redirects t)"
  "t_attempts (started_task e t) = Suc (t_attempts t)"
  by (simp_all add: started_task_def)

lemma save_task_frame [simp]:
  "q_starting (save_task e t q) = q_starting q" "q_pumping (save_task e t q) = q_pumping q"
  "q_again (save_task e t q) = q_again q" "q_calls (save_task e t q) = q_calls q"
  "q_meta (save_task e t q) = q_meta q" "q_waiting (save_task e t q) = q_waiting q"
  "q_resolved (save_task e t q) = q_resolved q"
  by (simp_all add: save_task_def)

lemma host_does_frame [simp]:
  "q_rows (host_does c q) = q_rows q" "q_starting (host_does c q) = q_starting q"
  "q_pumping (host_does c q) = q_pumping q" "q_calls (host_does c q) = q_calls q @ [c]"
  by (simp_all add: host_does_def)

lemma get_row_cong [simp]: "get_row (host_does c q) i = get_row q i"
  by (simp add: get_row_def)

lemma get_row_save [simp]:
  "get_row (save_task e t q) i = (if i = t_id t then Some (stored_task e t) else get_row q i)"
  by (simp add: get_row_def save_task_def)

text \<open>The table of tasks is a keyed store: \<open>get\<close> after \<open>#save\<close>.\<close>

interpretation task_store: keyed_store get_row "\<lambda>q t. save_task e t q" t_id "stored_task e" for e
proof
  show "get_row q k = Some r \<Longrightarrow> t_id r = k" for q k r
    by (auto simp: get_row_def dest: row_of_SomeD)
qed auto

lemma get_row_SomeD: "get_row q i = Some r \<Longrightarrow> r \<in> set (q_rows q) \<and> t_id r = i"
  by (auto simp: get_row_def dest: row_of_SomeD)

lemma get_task_SomeE:
  assumes "get_task e q i = Some t"
  obtains r where "get_row q i = Some r" "t = from_row e r" "t_id r = i"
  using assms get_row_SomeD by (auto simp: get_task_def)

section \<open>Well-formed queues\<close>

definition queue_wf :: "queue \<Rightarrow> bool" where
  "queue_wf q \<longleftrightarrow>
     unique_keys t_id (q_rows q) \<and> list_all (\<lambda>r. t_id r = CHR ''t'' # show_nat (t_seq r)) (q_rows q) \<and>
     q_starting q = [] \<and> \<not> q_pumping q"

lemma get_row_iff:
  "unique_keys t_id (q_rows q) \<Longrightarrow> get_row q i = Some r \<longleftrightarrow> r \<in> set (q_rows q) \<and> t_id r = i"
  by (simp add: get_row_def row_of_eq_Some_iff)

lemma queue_wf_get_row: "queue_wf q \<Longrightarrow> r \<in> set (q_rows q) \<Longrightarrow> get_row q (t_id r) = Some r"
  by (simp add: queue_wf_def get_row_iff)

lemma by_session_SomeE:
  assumes "by_session e q sid = Some t" "queue_wf q"
  obtains r where "get_row q (t_id r) = Some r" "t = from_row e r" "t_session r = sid" "sid \<noteq> []"
proof -
  from assms(1) obtain r where r: "find (\<lambda>r. t_session r = sid) (q_rows q) = Some r" "sid \<noteq> []"
      "t = from_row e r"
    by (auto simp: by_session_def split: if_splits)
  then have "r \<in> set (q_rows q)" "t_session r = sid"
    by (auto simp: find_Some_iff)
  with r queue_wf_get_row [OF assms(2)] show ?thesis
    by (intro that) auto
qed

lemma next_seq_Max: "next_seq q = Suc (Max (insert 0 (t_seq ` set (q_rows q))))"
  by (simp add: next_seq_def Max.set_eq_fold flip: set_map list.set(2))

lemma next_seq_fresh: "r \<in> set (q_rows q) \<Longrightarrow> t_seq r < next_seq q"
  by (simp add: next_seq_Max less_Suc_eq_le)

lemma queue_wf_new_id:
  assumes "queue_wf q" "t_id t = CHR ''t'' # show_nat (next_seq q)"
  shows "t_id t \<notin> t_id ` set (q_rows q)"
proof
  assume "t_id t \<in> t_id ` set (q_rows q)"
  then obtain r where r: "r \<in> set (q_rows q)" "t_id r = t_id t" by auto
  with assms have "t_seq r = next_seq q"
    by (auto simp: queue_wf_def list_all_iff)
  with next_seq_fresh [OF r(1)] show False by simp
qed

section \<open>Running tasks\<close>

abbreviation running_count :: "queue \<Rightarrow> nat" where
  "running_count q \<equiv> count_status q Running"

definition run_cwds :: "queue \<Rightarrow> string set" where
  "run_cwds q = t_cwd ` {r \<in> set (q_rows q). t_status r = Running}"

text \<open>No two running tasks work in overlapping directories.\<close>

definition dirs_exclusive :: "string \<Rightarrow> queue \<Rightarrow> bool" where
  "dirs_exclusive home q \<longleftrightarrow>
     (\<forall>r \<in> set (q_rows q). \<forall>u \<in> set (q_rows q).
        t_status r = Running \<and> t_status u = Running \<and> t_id r \<noteq> t_id u \<longrightarrow>
        \<not> overlaps home (t_cwd r) (t_cwd u))"

definition startable :: "queue \<Rightarrow> queue_task \<Rightarrow> bool" where
  "startable q r \<longleftrightarrow> get_row q (t_id r) = Some r \<and> t_status r = Queued"

lemma start_begin_rows:
  "q_rows (start_begin e t q) = upsert t_id (stored_task e (started_task e t)) (q_rows q)"
  by (simp add: start_begin_def Let_def save_task_def host_does_def)

lemma start_begin_frame [simp]:
  "q_starting q = [] \<Longrightarrow> q_starting (start_begin e t q) = []"
  "q_pumping (start_begin e t q) = q_pumping q" "q_again (start_begin e t q) = q_again q"
  "q_calls (start_begin e t q) = q_calls q @ [start_call t]"
  by (simp_all add: start_begin_def Let_def save_task_def host_does_def)

lemma started_row_changes [simp]:
  "t_status r = Queued \<Longrightarrow> stored_task e (started_task e (from_row e r)) \<noteq> r"
  by (metis queue_status.distinct(1) started_task_fields(4) stored_task_fields(4))

lemma get_row_start_begin:
  "get_row (start_begin e t q) i =
     (if i = t_id t then Some (stored_task e (started_task e t)) else get_row q i)"
  by (simp add: get_row_def start_begin_rows)

lemma start_begin_unique:
  "unique_keys t_id (q_rows q) \<Longrightarrow> unique_keys t_id (q_rows (start_begin e t q))"
  by (simp add: start_begin_rows)

lemma start_begin_running_count:
  assumes "unique_keys t_id (q_rows q)" "startable q r"
  shows "running_count (start_begin e (from_row e r) q) = Suc (running_count q)"
  using filter_upsert_old [of t_id "q_rows q" "stored_task e (started_task e (from_row e r))" r
      "\<lambda>r. t_status r = Running"] assms
  by (simp add: count_status_def start_begin_rows startable_def get_row_def)

lemma start_begin_set:
  assumes "unique_keys t_id (q_rows q)"
  shows "set (q_rows (start_begin e (from_row e r) q)) =
    insert (stored_task e (started_task e (from_row e r))) {x \<in> set (q_rows q). t_id x \<noteq> t_id r}"
  using set_upsert [OF assms, of "stored_task e (started_task e (from_row e r))"]
  by (simp add: start_begin_rows)

lemma startable_unique_row:
  assumes "unique_keys t_id (q_rows q)" "startable q r" "x \<in> set (q_rows q)" "t_id x = t_id r"
  shows "x = r"
proof -
  have "get_row q (t_id r) = Some x"
    using assms by (simp add: get_row_iff)
  with assms(2) show ?thesis by (simp add: startable_def)
qed

lemma start_begin_run_cwds:
  assumes u: "unique_keys t_id (q_rows q)" and s: "startable q r"
  shows "run_cwds (start_begin e (from_row e r) q) = insert (t_cwd r) (run_cwds q)"
proof -
  have "x \<in> set (q_rows q) \<and> t_id x \<noteq> t_id r" if "x \<in> set (q_rows q)" "t_status x = Running" for x
    using startable_unique_row [OF u s that(1)] that s by (auto simp: startable_def)
  then have "{x \<in> set (q_rows (start_begin e (from_row e r) q)). t_status x = Running} =
      insert (stored_task e (started_task e (from_row e r))) {x \<in> set (q_rows q). t_status x = Running}"
    by (auto simp: start_begin_set [OF u])
  then show ?thesis by (simp add: run_cwds_def)
qed

lemma start_begin_startable:
  "startable q r' \<Longrightarrow> t_id r' \<noteq> t_id r \<Longrightarrow> startable (start_begin e (from_row e r) q) r'"
  by (simp add: startable_def get_row_start_begin)

lemma start_begin_dirs:
  assumes u: "unique_keys t_id (q_rows q)" and s: "startable q r"
    and ex: "dirs_exclusive home q"
    and free: "\<And>c. c \<in> run_cwds q \<Longrightarrow> \<not> overlaps home c (t_cwd r)"
  shows "dirs_exclusive home (start_begin e (from_row e r) q)"
proof -
  have free': "\<not> overlaps home (t_cwd x) (t_cwd r) \<and> \<not> overlaps home (t_cwd r) (t_cwd x)"
    if "x \<in> set (q_rows q)" "t_status x = Running" for x
    using free [of "t_cwd x"] that overlaps_sym by (auto simp: run_cwds_def)
  show ?thesis
    using ex free' unfolding dirs_exclusive_def start_begin_set [OF u] by auto
qed

section \<open>One pass\<close>

text \<open>What \<open>pump_rows\<close> starts from: the rows it is given are queued, and \<open>busy\<close> is the directories in use.\<close>

definition pass_ready :: "queue \<Rightarrow> string list \<Rightarrow> queue_task list \<Rightarrow> bool" where
  "pass_ready q busy rows \<longleftrightarrow>
     unique_keys t_id (q_rows q) \<and> q_starting q = [] \<and> set busy = run_cwds q \<and>
     (\<forall>r \<in> set rows. startable q r) \<and> distinct (map t_id rows)"

lemma pass_ready_Cons:
  assumes "pass_ready q busy (r # rows)"
  shows "pass_ready q busy rows" "startable q r" "unique_keys t_id (q_rows q)" "q_starting q = []"
    "pass_ready (start_begin e (from_row e r) q) (busy @ [t_cwd r]) rows"
proof -
  have u: "unique_keys t_id (q_rows q)" and s: "startable q r"
    using assms by (auto simp: pass_ready_def)
  then show "unique_keys t_id (q_rows q)" "startable q r" by auto
  show "pass_ready q busy rows" "q_starting q = []"
    using assms by (auto simp: pass_ready_def)
  have "startable (start_begin e (from_row e r) q) x" if "x \<in> set rows" for x
    using that assms by (intro start_begin_startable) (auto simp: pass_ready_def image_iff)
  then show "pass_ready (start_begin e (from_row e r) q) (busy @ [t_cwd r]) rows"
    using assms start_begin_run_cwds [OF u s] start_begin_unique [OF u]
    by (auto simp: pass_ready_def)
qed

text \<open>The case analysis of the loop body, as an induction rule: stop, skip a row, start a row.\<close>

lemma pump_rows_induct [consumes 1, case_names stop skip begin_row]:
  assumes ready: "pass_ready q busy rows"
    and "\<And>slots busy rows q. pass_ready q busy rows \<Longrightarrow> rows = [] \<or> slots \<le> 0 \<Longrightarrow>
       pump_rows e slots busy rows q = q \<Longrightarrow> P slots busy rows q"
    and "\<And>slots busy r rows q. pass_ready q busy (r # rows) \<Longrightarrow> 0 < slots \<Longrightarrow>
       e_exclusive e \<and> (\<exists>c \<in> run_cwds q. overlaps (fs_home (e_fs e)) c (t_cwd r)) \<Longrightarrow>
       pump_rows e slots busy (r # rows) q = pump_rows e slots busy rows q \<Longrightarrow>
       P slots busy rows q \<Longrightarrow> P slots busy (r # rows) q"
    and "\<And>slots busy r rows q. pass_ready q busy (r # rows) \<Longrightarrow> 0 < slots \<Longrightarrow>
       \<not> (e_exclusive e \<and> (\<exists>c \<in> run_cwds q. overlaps (fs_home (e_fs e)) c (t_cwd r))) \<Longrightarrow>
       pump_rows e slots busy (r # rows) q =
         pump_rows e (slots - 1) (busy @ [t_cwd r]) rows (start_begin e (from_row e r) q) \<Longrightarrow>
       P (slots - 1) (busy @ [t_cwd r]) rows (start_begin e (from_row e r) q) \<Longrightarrow>
       P slots busy (r # rows) q"
  shows "P slots busy rows q"
  using ready
proof (induction rows arbitrary: slots busy q)
  case Nil
  then show ?case using assms(2) by simp
next
  case (Cons r rows)
  note rd = pass_ready_Cons [OF Cons.prems]
  have busy: "list_ex (\<lambda>c. overlaps (fs_home (e_fs e)) c (t_cwd r)) busy \<longleftrightarrow>
      (\<exists>c \<in> run_cwds q. overlaps (fs_home (e_fs e)) c (t_cwd r))"
    using Cons.prems by (auto simp: list_ex_iff pass_ready_def)
  show ?case
  proof (cases "slots \<le> 0")
    case True
    then show ?thesis using assms(2) Cons.prems by simp
  next
    case slots: False
    show ?thesis
    proof (cases "e_exclusive e \<and> (\<exists>c \<in> run_cwds q. overlaps (fs_home (e_fs e)) c (t_cwd r))")
      case True
      then have "pump_rows e slots busy (r # rows) q = pump_rows e slots busy rows q"
        using slots rd(4) busy by (subst pump_rows.simps) (simp add: Let_def)
      with slots True Cons.IH [OF rd(1)] Cons.prems assms(3) show ?thesis by simp
    next
      case False
      then have "pump_rows e slots busy (r # rows) q =
          pump_rows e (slots - 1) (busy @ [t_cwd r]) rows (start_begin e (from_row e r) q)"
        using slots rd(4) busy by (subst pump_rows.simps) (auto simp: Let_def)
      with slots False Cons.IH [OF rd(5)] Cons.prems assms(4) show ?thesis by simp
    qed
  qed
qed

declare pump_rows.simps(2) [simp del]

text \<open>What a pass changes: nothing, or it starts one of the rows it was given.\<close>

lemma pump_rows_row:
  assumes "pass_ready q busy rows"
  shows "get_row (pump_rows e slots busy rows q) i = get_row q i \<or>
    (\<exists>r \<in> set rows. t_id r = i \<and>
       get_row (pump_rows e slots busy rows q) i = Some (stored_task e (started_task e (from_row e r))))"
  using assms
proof (induction slots busy rows q rule: pump_rows_induct [where e = e])
  case (begin_row slots busy r rows q)
  from begin_row.IH show ?case
    by (auto simp: begin_row.hyps(4) get_row_start_begin)
qed auto

lemma pump_rows_other:
  assumes "pass_ready q busy rows" "i \<notin> t_id ` set rows"
  shows "get_row (pump_rows e slots busy rows q) i = get_row q i"
  using pump_rows_row [OF assms(1), of e slots i] assms(2) by auto

lemma pump_rows_frame:
  assumes "pass_ready q busy rows"
  shows "unique_keys t_id (q_rows (pump_rows e slots busy rows q)) \<and>
    q_starting (pump_rows e slots busy rows q) = [] \<and>
    q_pumping (pump_rows e slots busy rows q) = q_pumping q \<and>
    running_count q \<le> running_count (pump_rows e slots busy rows q) \<and>
    int (running_count (pump_rows e slots busy rows q)) \<le> int (running_count q) + max 0 slots \<and>
    run_cwds q \<subseteq> run_cwds (pump_rows e slots busy rows q) \<and>
    run_cwds (pump_rows e slots busy rows q) \<subseteq> run_cwds q \<union> t_cwd ` set rows"
  using assms
proof (induction slots busy rows q rule: pump_rows_induct [where e = e])
  case (begin_row slots busy r rows q)
  note rd = pass_ready_Cons [OF begin_row.hyps(1)]
  show ?case
    using begin_row.hyps(2,4) begin_row.IH start_begin_running_count [OF rd(3,2), of e] start_begin_run_cwds [OF rd(3,2), of e]
    by auto
qed (auto simp: pass_ready_def)

lemma pump_rows_dirs:
  assumes "pass_ready q busy rows" "e_exclusive e" "dirs_exclusive (fs_home (e_fs e)) q"
  shows "dirs_exclusive (fs_home (e_fs e)) (pump_rows e slots busy rows q)"
  using assms
proof (induction slots busy rows q rule: pump_rows_induct [where e = e])
  case (begin_row slots busy r rows q)
  note rd = pass_ready_Cons [OF begin_row.hyps(1)]
  have "dirs_exclusive (fs_home (e_fs e)) (start_begin e (from_row e r) q)"
    using begin_row.hyps begin_row.prems by (intro start_begin_dirs [OF rd(3,2)]) auto
  with begin_row show ?case by simp
qed auto

text \<open>A task that a pass leaves in the queue waits for a slot or for a directory in use.\<close>

definition blocked :: "queue_env \<Rightarrow> queue \<Rightarrow> queue_task \<Rightarrow> bool" where
  "blocked e q r \<longleftrightarrow> e_exclusive e \<and> (\<exists>c \<in> run_cwds q. overlaps (fs_home (e_fs e)) c (t_cwd r))"

lemma pump_rows_left:
  assumes "pass_ready q busy rows" "r \<in> set rows" "get_row (pump_rows e slots busy rows q) (t_id r) = get_row q (t_id r)"
  shows "int (running_count q) + slots \<le> int (running_count (pump_rows e slots busy rows q)) \<or>
    blocked e (pump_rows e slots busy rows q) r"
  using assms
proof (induction slots busy rows q rule: pump_rows_induct [where e = e])
  case (skip slots busy r' rows q)
  have mono: "run_cwds q \<subseteq> run_cwds (pump_rows e slots busy rows q)"
    using pump_rows_frame [OF pass_ready_Cons(1) [OF skip.hyps(1)]] by blast
  show ?case
  proof (cases "r = r'")
    case True
    with skip.hyps(3,4) mono show ?thesis by (auto simp: blocked_def)
  next
    case False
    with skip.IH skip.hyps(4) skip.prems show ?thesis by auto
  qed
next
  case (begin_row slots busy r' rows q)
  note rd = pass_ready_Cons [OF begin_row.hyps(1)]
  have new: "t_id r' \<notin> t_id ` set rows" using begin_row.hyps(1) by (auto simp: pass_ready_def)
  have "r \<noteq> r'"
  proof
    assume "r = r'"
    with pump_rows_other [OF rd(5) new, where e = e and slots = "slots - 1"] begin_row.hyps(4) begin_row.prems(2) rd(2)
    show False by (auto simp: get_row_start_begin startable_def)
  qed
  with begin_row.prems(1) have mem: "r \<in> set rows" by auto
  with new have "t_id r \<noteq> t_id r'" by (auto simp: image_iff)
  with begin_row.IH [OF mem] begin_row.hyps(4) begin_row.prems(2) start_begin_running_count [OF rd(3,2), of e]
  show ?case by (auto simp: get_row_start_begin)
qed auto

text \<open>A pass starts tasks in the order it is given them: one that is passed over is blocked.\<close>

definition left_behind :: "queue \<Rightarrow> queue \<Rightarrow> queue_task \<Rightarrow> bool" where
  "left_behind q q' r \<longleftrightarrow> get_row q' (t_id r) = get_row q (t_id r)"

lemma pump_rows_order:
  assumes "pass_ready q busy rows"
  shows "sorted_wrt (\<lambda>r1 r2. left_behind q (pump_rows e slots busy rows q) r1 \<and>
      \<not> left_behind q (pump_rows e slots busy rows q) r2 \<longrightarrow>
      blocked e (pump_rows e slots busy rows q) r1) rows"
  using assms
proof (induction slots busy rows q rule: pump_rows_induct [where e = e])
  case (stop slots busy rows q)
  then show ?case by (auto simp: left_behind_def sorted_wrt_iff_nth_less)
next
  case (skip slots busy r rows q)
  have "run_cwds q \<subseteq> run_cwds (pump_rows e slots busy rows q)"
    using pump_rows_frame [OF pass_ready_Cons(1) [OF skip.hyps(1)]] by blast
  with skip.hyps(3,4) have "blocked e (pump_rows e slots busy rows q) r"
    by (auto simp: blocked_def)
  with skip.IH skip.hyps(4) show ?case by simp
next
  case (begin_row slots busy r rows q)
  note rd = pass_ready_Cons [OF begin_row.hyps(1)]
  let ?q1 = "start_begin e (from_row e r) q"
  let ?q' = "pump_rows e (slots - 1) (busy @ [t_cwd r]) rows ?q1"
  have new: "t_id r \<notin> t_id ` set rows" using begin_row.hyps(1) by (auto simp: pass_ready_def)
  have "\<not> left_behind q ?q' r"
    using pump_rows_other [OF rd(5) new, where e = e and slots = "slots - 1"] rd(2)
    by (auto simp: left_behind_def get_row_start_begin startable_def)
  moreover have "left_behind q ?q' x = left_behind ?q1 ?q' x" if "x \<in> set rows" for x
    using that new by (auto simp: left_behind_def get_row_start_begin image_iff)
  ultimately show ?case
    using begin_row.IH begin_row.hyps(4) by (auto intro: sorted_wrt_mono_rel [rotated])
qed

section \<open>The pump\<close>

text \<open>What the pump may do to the table: start queued rows, at most as many as there are slots.\<close>

definition pump_effect :: "queue_env \<Rightarrow> queue \<Rightarrow> queue \<Rightarrow> bool" where
  "pump_effect e q q' \<longleftrightarrow>
     unique_keys t_id (q_rows q') \<and> q_starting q' = [] \<and>
     (\<forall>i. get_row q' i = get_row q i \<or>
        (\<exists>r. get_row q i = Some r \<and> t_status r = Queued \<and>
             get_row q' i = Some (stored_task e (started_task e (from_row e r))))) \<and>
     running_count q \<le> running_count q' \<and>
     int (running_count q') \<le> max (int (running_count q)) (e_concurrency e)"

lemma pump_effect_row:
  assumes "pump_effect e q q'"
  obtains "get_row q' i = get_row q i"
  | r where "get_row q i = Some r" "t_status r = Queued"
      "get_row q' i = Some (stored_task e (started_task e (from_row e r)))"
  using assms unfolding pump_effect_def by blast

lemma pump_effect_refl:
  "unique_keys t_id (q_rows q) \<Longrightarrow> q_starting q = [] \<Longrightarrow> pump_effect e q q"
  by (simp add: pump_effect_def)

lemma pump_effect_trans:
  assumes "pump_effect e q1 q2" "pump_effect e q2 q3"
  shows "pump_effect e q1 q3"
proof -
  have "get_row q3 i = get_row q1 i \<or>
      (\<exists>r. get_row q1 i = Some r \<and> t_status r = Queued \<and>
        get_row q3 i = Some (stored_task e (started_task e (from_row e r))))" for i
  proof (rule pump_effect_row [OF assms(2), of i])
    assume "get_row q3 i = get_row q2 i"
    then show ?thesis by (cases rule: pump_effect_row [OF assms(1), of i]) auto
  next
    fix r assume "get_row q2 i = Some r" "t_status r = Queued"
      "get_row q3 i = Some (stored_task e (started_task e (from_row e r)))"
    then show ?thesis by (cases rule: pump_effect_row [OF assms(1), of i]) auto
  qed
  moreover have "int (running_count q3) \<le> max (int (running_count q1)) (e_concurrency e)"
    using assms unfolding pump_effect_def by linarith
  ultimately show ?thesis using assms by (simp add: pump_effect_def)
qed

lemma pass_ready_init:
  assumes "unique_keys t_id (q_rows q)" "q_starting q = []"
  shows "pass_ready q (map t_cwd (filter (\<lambda>r. t_status r = Running) (q_rows q)))
    (sort_key t_seq (filter (\<lambda>r. t_status r = Queued) (q_rows q)))"
proof -
  have "distinct (map t_id (sort_key t_seq xs)) = distinct (map t_id xs)"
    for xs :: "queue_task list"
    by (simp add: distinct_map)
  with assms show ?thesis
    by (auto simp: pass_ready_def run_cwds_def startable_def get_row_iff unique_keys_def distinct_map_filter)
qed

lemma pump_pass_effect:
  assumes u: "unique_keys t_id (q_rows q)" and s: "q_starting q = []"
  shows "pump_effect e q (pump_pass e q)"
proof -
  note rd = pass_ready_init [OF u s]
  have fs: "free_slots e q = e_concurrency e - int (running_count q)"
    by (simp add: free_slots_def s)
  have "get_row (pump_pass e q) i = get_row q i \<or>
      (\<exists>r. get_row q i = Some r \<and> t_status r = Queued \<and>
           get_row (pump_pass e q) i = Some (stored_task e (started_task e (from_row e r))))" for i
    using pump_rows_row [OF rd, of e "free_slots e q" i] u
    by (auto simp: pump_pass_def get_row_iff)
  then show ?thesis
    using pump_rows_frame [OF rd, of e "free_slots e q"] fs
    by (auto simp: pump_effect_def pump_pass_def)
qed

lemma pump_pass_pumping:
  assumes "unique_keys t_id (q_rows q)" "q_starting q = []"
  shows "q_pumping (pump_pass e q) = q_pumping q"
  using pump_rows_frame [OF pass_ready_init [OF assms], of e "free_slots e q"]
  by (simp add: pump_pass_def)

lemma pump_pass_dirs:
  assumes "unique_keys t_id (q_rows q)" "q_starting q = []"
    and "e_exclusive e" "dirs_exclusive (fs_home (e_fs e)) q"
  shows "dirs_exclusive (fs_home (e_fs e)) (pump_pass e q)"
  unfolding pump_pass_def by (rule pump_rows_dirs [OF pass_ready_init [OF assms(1,2)] assms(3,4)])

text \<open>After a pass a queued task waits for a slot or for a directory.\<close>

definition no_idle_slot :: "queue_env \<Rightarrow> queue \<Rightarrow> bool" where
  "no_idle_slot e q \<longleftrightarrow>
     e_concurrency e \<le> int (running_count q) \<or>
     (\<forall>r \<in> set (q_rows q). t_status r = Queued \<longrightarrow> blocked e q r)"

lemma pump_pass_no_idle:
  assumes u: "unique_keys t_id (q_rows q)" and s: "q_starting q = []"
  shows "no_idle_slot e (pump_pass e q)"
proof (cases "e_concurrency e \<le> int (running_count (pump_pass e q))")
  case False
  note rd = pass_ready_init [OF u s]
  have fs: "free_slots e q = e_concurrency e - int (running_count q)"
    by (simp add: free_slots_def s)
  have "blocked e (pump_pass e q) r"
    if r: "r \<in> set (q_rows (pump_pass e q))" "t_status r = Queued" for r
  proof -
    have eff: "pump_effect e q (pump_pass e q)" by (rule pump_pass_effect [OF u s])
    then have row: "get_row (pump_pass e q) (t_id r) = Some r"
      using r by (simp add: pump_effect_def get_row_iff)
    have same: "get_row (pump_pass e q) (t_id r) = get_row q (t_id r)"
      using row r(2) by (cases rule: pump_effect_row [OF eff, of "t_id r"]) auto
    with row have "r \<in> set (q_rows q)"
      by (auto dest: get_row_SomeD)
    with r pump_rows_left [OF rd, of r e "free_slots e q"] same False fs
    show ?thesis by (auto simp: pump_pass_def)
  qed
  then show ?thesis by (simp add: no_idle_slot_def)
qed (simp add: no_idle_slot_def)

lemma pump_loop_spec:
  assumes "unique_keys t_id (q_rows q)" "q_starting q = []"
  shows "pump_effect e q (pump_loop e n q) \<and> q_pumping (pump_loop e n q) = q_pumping q \<and>
    no_idle_slot e (pump_loop e n q) \<and>
    (e_exclusive e \<and> dirs_exclusive (fs_home (e_fs e)) q \<longrightarrow>
       dirs_exclusive (fs_home (e_fs e)) (pump_loop e n q))"
  using assms
proof (induction e n q rule: pump_loop.induct)
  case (1 e n q)
  show ?case
  proof (cases "free_slots e q \<le> 0")
    case True
    with "1.prems" show ?thesis
      by (subst (1 2 3 4) pump_loop.simps) (auto simp: pump_effect_refl no_idle_slot_def free_slots_def)
  next
    case False
    let ?q' = "pump_pass e q"
    have eff: "pump_effect e q ?q'" by (rule pump_pass_effect [OF "1.prems"])
    note facts = eff pump_pass_no_idle [OF "1.prems", of e] pump_pass_pumping [OF "1.prems", of e]
      pump_pass_dirs [OF "1.prems", of e]
    show ?thesis
    proof (cases n)
      case 0
      with False facts show ?thesis by (subst (1 2 3 4) pump_loop.simps) (simp add: Let_def)
    next
      case (Suc m)
      have core: "unique_keys t_id (q_rows ?q')" "q_starting ?q' = []"
        using eff by (auto simp: pump_effect_def)
      have eq: "pump_loop e n q = pump_loop e m ?q'"
        using False Suc by (subst pump_loop.simps) (simp add: Let_def)
      show ?thesis
        using "1.IH" [OF False refl Suc core] facts pump_effect_trans [OF eff] by (simp add: eq)
    qed
  qed
qed

lemma pump_cong_rows:
  "q_rows q' = q_rows q \<Longrightarrow> q_starting q' = q_starting q \<Longrightarrow>
   pump_effect e q q'' = pump_effect e q' q''"
  by (simp add: pump_effect_def get_row_def count_status_def)

lemma pump_not_pumping:
  "\<not> q_pumping q \<Longrightarrow>
   pump e q = (pump_loop e (e_rounds e) (q\<lparr>q_pumping := True, q_again := False\<rparr>))
                \<lparr>q_pumping := False, q_again := False\<rparr>"
  by (simp add: pump_def)

lemma flags_irrelevant [simp]:
  "pump_effect e (q\<lparr>q_pumping := a, q_again := b\<rparr>) q' = pump_effect e q q'"
  "pump_effect e q (q'\<lparr>q_pumping := a, q_again := b\<rparr>) = pump_effect e q q'"
  "no_idle_slot e (q\<lparr>q_pumping := a, q_again := b\<rparr>) = no_idle_slot e q"
  "dirs_exclusive home (q\<lparr>q_pumping := a, q_again := b\<rparr>) = dirs_exclusive home q"
  by (simp_all add: pump_effect_def no_idle_slot_def dirs_exclusive_def get_row_def count_status_def
      blocked_def run_cwds_def)

lemma pump_spec:
  assumes "queue_wf q"
  shows "pump_effect e q (pump e q) \<and> \<not> q_pumping (pump e q) \<and> no_idle_slot e (pump e q) \<and>
    (e_exclusive e \<and> dirs_exclusive (fs_home (e_fs e)) q \<longrightarrow>
       dirs_exclusive (fs_home (e_fs e)) (pump e q))"
proof -
  have "unique_keys t_id (q_rows (q\<lparr>q_pumping := True, q_again := False\<rparr>))"
    "q_starting (q\<lparr>q_pumping := True, q_again := False\<rparr>) = []" "\<not> q_pumping q"
    using assms by (auto simp: queue_wf_def)
  from pump_loop_spec [OF this(1,2), of e "e_rounds e"] this(3) show ?thesis
    by (simp add: pump_not_pumping)
qed

lemma pump_effect_wf:
  assumes "queue_wf q" "pump_effect e q q'" "\<not> q_pumping q'"
  shows "queue_wf q'"
proof -
  have "t_id r = CHR ''t'' # show_nat (t_seq r)" if "r \<in> set (q_rows q')" for r
  proof -
    have row: "get_row q' (t_id r) = Some r"
      using that assms(2) by (simp add: pump_effect_def get_row_iff)
    obtain r0 where "get_row q (t_id r) = Some r0" "t_seq r0 = t_seq r"
      using row by (cases rule: pump_effect_row [OF assms(2), of "t_id r"]) auto
    then have "r0 \<in> set (q_rows q)" "t_id r0 = t_id r"
      by (auto dest: get_row_SomeD)
    with assms(1) \<open>t_seq r0 = t_seq r\<close> show ?thesis
      by (auto simp: queue_wf_def list_all_iff)
  qed
  with assms(2,3) show ?thesis
    by (simp add: queue_wf_def pump_effect_def list_all_iff)
qed

lemma queue_wf_pump [inv_intros]: "queue_wf q \<Longrightarrow> queue_wf (pump e q)"
  using pump_spec pump_effect_wf by blast

end
