(* ===== verification/WorkQueueSteps.thy ===== *)
theory WorkQueueSteps
  imports WorkQueueSched
begin

text \<open>
  Everything that can happen to the queue, as one step function over events: the tool calls of the
  dispatcher and of the workers, the end of an asynchronous start, the exit of a worker, the buttons of
  the panel, a restart.  Between two events the settings and the surroundings may be anything that
  the predicate on \<open>queue_env\<close> allows, so a sequence of events is an interleaving of all of them.

  The locale \<open>queue_property\<close> is the contract of an invariant: it looks at the rows only, an ordinary save
  keeps it (\<open>tame\<close>: the task exists, keeps its place and does not start running), a new queued row keeps it,
  and \<open>pump\<close> keeps it.  Inside it every operation is proved to keep the invariant, once; it is interpreted for
  well-formedness, for the bound on running workers, for the exclusive directories and for the books
  of redirects.
\<close>

section \<open>Events\<close>

datatype queue_event =
    EvCreate js string
  | EvRedirect string js
  | EvCancel string
  | EvSessionGone string string
  | EvSetModel string string string
  | EvAskHuman string string js
  | EvHumanDone string rat
  | EvHumanFinish string nat string
  | EvResolveHuman string
  | EvUpdate string js
  | EvNotify string js
  | EvStartSettled string string string
  | EvExited string exit_status
  | EvRequeue string string
  | EvRecover
  | EvResize
  | EvSetMeta string string

fun handle :: "queue_env \<Rightarrow> queue_event \<Rightarrow> queue \<Rightarrow> queue" where
  "handle e (EvCreate spec message) q = fst (create e spec message q)"
| "handle e (EvRedirect i message) q = fst (redirect e i message q)"
| "handle e (EvCancel i) q = fst (cancel e i q)"
| "handle e (EvSessionGone sid why) q = session_gone e sid why q"
| "handle e (EvSetModel i model why) q = set_model e i model why q"
| "handle e (EvAskHuman i tab message) q = fst (ask_human e i tab message q)"
| "handle e (EvHumanDone i seconds) q = fst (human_done e i seconds q)"
| "handle e (EvHumanFinish i w how) q = human_finish e i w how q"
| "handle e (EvResolveHuman i) q = fst (resolve_human e i q)"
| "handle e (EvUpdate i description) q = fst (update_card e i description q)"
| "handle e (EvNotify i message) q = fst (notify e i message q)"
| "handle e (EvStartSettled i sid failure) q = start_settle e i sid failure q"
| "handle e (EvExited sid st) q = worker_exited e sid st q"
| "handle e (EvRequeue i why) q = requeue e i why q"
| "handle e EvRecover q = recover e q"
| "handle e EvResize q = resize e q"
| "handle e (EvSetMeta k v) q = set_meta k v q"

fun run_events :: "(queue_env \<times> queue_event) list \<Rightarrow> queue \<Rightarrow> queue" where
  "run_events [] q = q"
| "run_events ((e, ev) # evs) q = run_events evs (handle e ev q)"

inductive queue_reach :: "(queue_env \<Rightarrow> bool) \<Rightarrow> queue \<Rightarrow> bool" for env_ok where
  reach_empty: "queue_reach env_ok empty_queue"
| reach_step: "queue_reach env_ok q \<Longrightarrow> env_ok e \<Longrightarrow> queue_reach env_ok (handle e ev q)"

lemma queue_reach_run:
  "queue_reach env_ok q \<Longrightarrow> list_all (\<lambda>(e, ev). env_ok e) evs \<Longrightarrow> queue_reach env_ok (run_events evs q)"
  by (induction evs q rule: run_events.induct) (auto intro: reach_step)

section \<open>Ordinary saves\<close>

definition tame :: "queue \<Rightarrow> queue_task \<Rightarrow> bool" where
  "tame q t \<longleftrightarrow>
     (\<exists>r. get_row q (t_id t) = Some r \<and> t_seq t = t_seq r \<and> t_cwd t = t_cwd r \<and>
          t_attempts t = t_attempts r \<and> prefix (t_redirects r) (t_redirects t) \<and>
          (t_redirectsSeen r \<le> length (t_redirects r) \<longrightarrow> t_redirectsSeen t \<le> length (t_redirects t)) \<and>
          (t_status t = Running \<longrightarrow> t_status r = Running))"

definition fresh_task :: "queue \<Rightarrow> queue_task \<Rightarrow> bool" where
  "fresh_task q t \<longleftrightarrow>
     t_seq t = next_seq q \<and> t_id t = CHR ''t'' # show_nat (next_seq q) \<and> t_status t = Queued \<and>
     t_redirects t = [] \<and> t_redirectsSeen t = 0 \<and> t_attempts t = 0"

lemma tame_from_row:
  assumes "get_row q i = Some r"
    and "t_id t = i" "t_seq t = t_seq r" "t_cwd t = t_cwd r" "t_attempts t = t_attempts r"
    and "prefix (t_redirects r) (t_redirects t)"
    and "t_redirectsSeen r \<le> length (t_redirects r) \<Longrightarrow> t_redirectsSeen t \<le> length (t_redirects t)"
    and "t_status t = Running \<Longrightarrow> t_status r = Running"
  shows "tame q t"
  using assms by (auto simp: tame_def)

text \<open>The rows, the starts under way and the pump flag are all an invariant may look at.\<close>

definition same_rows :: "queue \<Rightarrow> queue \<Rightarrow> bool" where
  "same_rows q q' \<longleftrightarrow> q_rows q' = q_rows q \<and> q_starting q' = q_starting q \<and> q_pumping q' = q_pumping q"

lemma same_rows_simps [simp]:
  "same_rows q q" "same_rows q (host_does c q)" "same_rows q (set_meta k v q)"
  "same_rows q (q\<lparr>q_waiting := ws\<rparr>)" "same_rows q (q\<lparr>q_waiting := ws, q_waits := n\<rparr>)"
  "same_rows q (q\<lparr>q_resolved := rs\<rparr>)"
  by (simp_all add: same_rows_def set_meta_def)

section \<open>Invariants of the queue\<close>

lemma save_host_commute: "save_task e t (host_does c q) = host_does c (save_task e t q)"
  by (simp add: save_task_def host_does_def)

locale queue_property =
  fixes env_ok :: "queue_env \<Rightarrow> bool"
    and ok :: "queue \<Rightarrow> bool"
  assumes ok_wf: "ok q \<Longrightarrow> queue_wf q"
    and ok_empty: "ok empty_queue"
    and ok_frame: "ok q \<Longrightarrow> same_rows q q' \<Longrightarrow> ok q'"
    and ok_tame: "ok q \<Longrightarrow> tame q t \<Longrightarrow> ok (save_task e t q)"
    and ok_fresh: "ok q \<Longrightarrow> fresh_task q t \<Longrightarrow> ok (save_task e t q)"
    and ok_pump: "env_ok e \<Longrightarrow> ok q \<Longrightarrow> ok (pump e q)"
begin

lemma ok_host [simp]: "ok q \<Longrightarrow> ok (host_does c q)"
  by (erule ok_frame) simp

lemma ok_save_get:
  assumes "ok q" "get_task e q i = Some t"
    and "t_id t' = t_id t" "t_seq t' = t_seq t" "t_cwd t' = t_cwd t" "t_attempts t' = t_attempts t"
    and "prefix (t_redirects t) (t_redirects t')"
    and "t_redirectsSeen t \<le> length (t_redirects t) \<Longrightarrow> t_redirectsSeen t' \<le> length (t_redirects t')"
    and "t_status t' = Running \<Longrightarrow> t_status t = Running"
  shows "ok (save_task e' t' q)"
proof -
  from assms(2) obtain r where "get_row q i = Some r" "t = from_row e r" "t_id r = i"
    by (rule get_task_SomeE)
  with assms show ?thesis by (intro ok_tame) (auto simp: tame_def)
qed

lemma ok_save_session:
  assumes "ok q" "by_session e q sid = Some t"
    and "t_id t' = t_id t" "t_seq t' = t_seq t" "t_cwd t' = t_cwd t" "t_attempts t' = t_attempts t"
    and "prefix (t_redirects t) (t_redirects t')"
    and "t_redirectsSeen t \<le> length (t_redirects t) \<Longrightarrow> t_redirectsSeen t' \<le> length (t_redirects t')"
    and "t_status t' = Running \<Longrightarrow> t_status t = Running"
  shows "ok (save_task e' t' q)"
proof -
  from assms(2) ok_wf [OF assms(1)]
  obtain r where "get_row q (t_id r) = Some r" "t = from_row e r"
    by (rule by_session_SomeE)
  with assms show ?thesis by (intro ok_tame) (auto simp: tame_def)
qed

lemma ok_set_model: "ok q \<Longrightarrow> ok (set_model e i model why q)"
  by (auto simp: set_model_def split: option.split intro: ok_save_get)

lemma ok_ask_human: "ok q \<Longrightarrow> ok (fst (ask_human e i tab message q))"
  by (auto simp: ask_human_def Let_def split: option.split intro: ok_save_get)

lemma ok_update_card: "ok q \<Longrightarrow> ok (fst (update_card e i d q))"
  by (auto simp: update_card_def Let_def split: option.split intro!: ok_host intro: ok_save_get)

lemma ok_notify: "ok q \<Longrightarrow> ok (fst (notify e i message q))"
  by (auto simp: notify_def Let_def split: option.split intro: ok_save_get)

lemma ok_human_finish:
  assumes "ok q"
  shows "ok (human_finish e i w how q)"
proof -
  let ?q1 = "q\<lparr>q_waiting := filter (\<lambda>p. fst p \<noteq> i) (q_waiting q)\<rparr>"
  have ok1: "ok ?q1" by (rule ok_frame [OF assms]) simp
  have fin: "ok (q2\<lparr>q_resolved := rs\<rparr>)" if "ok q2" for q2 rs
    by (rule ok_frame [OF that]) simp
  show ?thesis
    using assms ok1
    by (auto simp: human_finish_def Let_def split: option.split intro!: fin intro: ok_save_get [OF ok1])
qed

lemma ok_human_done: "ok q \<Longrightarrow> ok (fst (human_done e i seconds q))"
proof -
  assume "ok q"
  then have "ok (q\<lparr>q_waiting := ws, q_waits := n\<rparr>)" for ws n
    by (rule ok_frame) simp
  then show ?thesis by (simp add: human_done_def Let_def ok_human_finish)
qed

lemma ok_resolve_human: "ok q \<Longrightarrow> ok (fst (resolve_human e i q))"
  by (auto simp: resolve_human_def Let_def split: option.split intro: ok_save_get ok_human_finish)

lemma ok_redirect:
  assumes "env_ok e" "ok q"
  shows "ok (fst (redirect e i message q))"
  using assms
  by (auto simp: redirect_def Let_def save_host_commute split: option.split
      intro!: ok_pump ok_host intro: ok_save_get)

lemma ok_cancel:
  assumes "env_ok e" "ok q"
  shows "ok (fst (cancel e i q))"
  using assms by (auto simp: cancel_def Let_def split: option.split intro!: ok_pump ok_host intro: ok_save_get)

lemma ok_session_gone:
  assumes "env_ok e" "ok q"
  shows "ok (session_gone e sid why q)"
  using assms by (auto simp: session_gone_def split: option.split intro!: ok_pump intro: ok_save_session)

lemma settled_task_fields:
  "t_id (settled_task e st t) = t_id t" "t_seq (settled_task e st t) = t_seq t"
  "t_cwd (settled_task e st t) = t_cwd t" "t_attempts (settled_task e st t) = t_attempts t"
  "t_redirects (settled_task e st t) = t_redirects t"
  "t_redirectsSeen (settled_task e st t) = t_redirectsSeen t"
  "t_status (settled_task e st t) \<noteq> Running"
  by (auto simp: settled_task_def Let_def split: prod.split)

lemma ok_worker_exited:
  assumes "env_ok e" "ok q"
  shows "ok (worker_exited e sid st q)"
  using assms
  by (auto simp: worker_exited_def Let_def settled_task_fields split: option.split
      intro!: ok_pump ok_host intro: ok_save_session)

lemma ok_requeue:
  assumes "env_ok e" "ok q"
  shows "ok (requeue e i why q)"
  using assms by (auto simp: requeue_def split: option.split intro!: ok_pump intro: ok_save_get)

lemma ok_start_settle:
  assumes "env_ok e" "ok q"
  shows "ok (start_settle e i sid failure q)"
proof (cases "get_task e q i")
  case (Some t)
  have saved: "ok (save_task e (t\<lparr>t_session := sid\<rparr>) q)"
    by (rule ok_save_get [OF assms(2) Some]) auto
  have failed: "ok (save_task e (t\<lparr>t_status := TaskError, t_finished := n, t_result := s\<rparr>) q)" for n s
    by (rule ok_save_get [OF assms(2) Some]) auto
  show ?thesis
    using assms saved failed
    by (auto simp: start_settle_def Some Let_def intro: ok_pump ok_worker_exited)
qed (simp add: start_settle_def assms)

lemma ok_recover_fold:
  assumes "ok q" "distinct (map t_id rows)" "\<And>r. r \<in> set rows \<Longrightarrow> get_row q (t_id r) = Some r"
  shows "ok (fold (\<lambda>row q. save_task e (recovered_task e (from_row e row)) q) rows q)"
  using assms
proof (induction rows arbitrary: q)
  case (Cons r rows)
  have rec: "t_id (recovered_task e (from_row e r)) = t_id r" for r
    by (simp add: recovered_task_def)
  have "tame q (recovered_task e (from_row e r))"
    using Cons.prems(3) [of r] by (auto simp: tame_def recovered_task_def)
  then have "ok (save_task e (recovered_task e (from_row e r)) q)"
    by (rule ok_tame [OF Cons.prems(1)])
  moreover have "get_row (save_task e (recovered_task e (from_row e r)) q) (t_id x) = Some x"
    if "x \<in> set rows" for x
    using that Cons.prems(2) Cons.prems(3) [of x] by (auto simp: rec image_iff)
  ultimately show ?case using Cons.IH Cons.prems(2) by simp
qed simp

lemma ok_recover:
  assumes "env_ok e" "ok q"
  shows "ok (recover e q)"
proof -
  have "unique_keys t_id (q_rows q)"
    using ok_wf [OF assms(2)] by (simp add: queue_wf_def)
  then have "distinct (map t_id (filter (\<lambda>r. t_status r = Running) (q_rows q)))"
    "\<And>r. r \<in> set (filter (\<lambda>r. t_status r = Running) (q_rows q)) \<Longrightarrow> get_row q (t_id r) = Some r"
    by (auto simp: get_row_iff unique_keys_def distinct_map_filter)
  then show ?thesis
    unfolding recover_def using assms by (intro ok_pump ok_recover_fold) auto
qed

lemma next_seq_save:
  assumes "ok q" "fresh_task q t"
  shows "next_seq (save_task e t q) = Suc (next_seq q)"
proof -
  have "t_id t \<notin> t_id ` set (q_rows q)"
    using assms(2) by (intro queue_wf_new_id [OF ok_wf [OF assms(1)]]) (simp add: fresh_task_def)
  then have "q_rows (save_task e t q) = q_rows q @ [stored_task e t]"
    by (simp add: save_task_def upsert_new)
  with assms(2) show ?thesis
    by (simp add: next_seq_def fresh_task_def max_def)
qed

lemma ok_make_tasks:
  "ok q \<Longrightarrow> seq = next_seq q \<Longrightarrow> ok (snd (make_tasks e existing made seq specs q))"
proof (induction e existing made seq specs q rule: make_tasks.induct)
  case (2 e existing made seq s ss q)
  have "fresh_task q (new_task e seq related s)" for related
    using 2 by (simp add: fresh_task_def new_task_def)
  then show ?case
    using 2 by (simp add: Let_def ok_fresh next_seq_save)
qed simp

lemma ok_create:
  assumes "env_ok e" "ok q"
  shows "ok (fst (create e spec message q))"
proof -
  have "ok (fst (create_specs e force specs q))" for force specs
    using assms ok_make_tasks [OF assms(2) refl, of e "list_tasks e q" "[]" specs]
    by (auto simp: create_specs_def Let_def split: option.split prod.split intro: ok_pump)
  then show ?thesis
    using assms by (auto simp: create_def Let_def split: option.split)
qed

lemma ok_handle:
  assumes "env_ok e" "ok q"
  shows "ok (handle e ev q)"
proof (cases ev)
  case (EvSetMeta k v)
  have "ok (set_meta k v q)" by (rule ok_frame [OF assms(2)]) simp
  with EvSetMeta show ?thesis by simp
qed (simp_all add: assms ok_create ok_redirect ok_cancel ok_session_gone ok_set_model ok_ask_human
      ok_human_done ok_human_finish ok_resolve_human ok_update_card ok_notify ok_start_settle
      ok_worker_exited ok_requeue ok_recover resize_def ok_pump)

lemma ok_reach: "queue_reach env_ok q \<Longrightarrow> ok q"
  by (induction rule: queue_reach.induct) (auto intro: ok_empty ok_handle)

end

end
