(* ===== verification/WorkQueueProps.thy ===== *)
theory WorkQueueProps
  imports WorkQueueSteps
begin

text \<open>
  The properties of the work queue, from the interpretations of \<open>queue_property\<close>: at most as many workers as
  the setting allows, never two in overlapping directories, no free slot left idle, first come first
  served, settled tasks stay settled, no redirect lost, duplicates refused.
\<close>

section \<open>Invariants\<close>

lemma save_task_rows_wf:
  assumes "queue_wf q" "t_id t = CHR ''t'' # show_nat (t_seq t)"
  shows "queue_wf (save_task e t q)"
proof -
  have "set (upsert t_id (stored_task e t) (q_rows q)) \<subseteq> insert (stored_task e t) (set (q_rows q))"
    by (rule set_upsert_subset)
  with assms show ?thesis
    by (auto simp: queue_wf_def save_task_def list_all_iff)
qed

lemma tame_id: "queue_wf q \<Longrightarrow> tame q t \<Longrightarrow> t_id t = CHR ''t'' # show_nat (t_seq t)"
  by (auto simp: tame_def queue_wf_def list_all_iff dest!: get_row_SomeD)

lemma queue_wf_cong: "queue_wf q \<Longrightarrow> same_rows q q' \<Longrightarrow> queue_wf q'"
  by (simp add: queue_wf_def same_rows_def)

lemma queue_wf_empty: "queue_wf empty_queue"
  by (simp add: queue_wf_def empty_queue_def)

interpretation wf_inv: queue_property "\<lambda>_. True" queue_wf
proof
  show "queue_wf (save_task e t q)" if "queue_wf q" "tame q t" for e t q
    using that tame_id by (intro save_task_rows_wf)
  show "queue_wf (save_task e t q)" if "queue_wf q" "fresh_task q t" for e t q
    using that by (intro save_task_rows_wf) (auto simp: fresh_task_def)
qed (auto intro: queue_wf_pump queue_wf_cong queue_wf_empty)

lemma running_count_save_tame:
  assumes "queue_wf q" "tame q t"
  shows "running_count (save_task e t q) \<le> running_count q"
proof -
  obtain r where r: "get_row q (t_id t) = Some r" "t_status t = Running \<longrightarrow> t_status r = Running"
    using assms(2) by (auto simp: tame_def)
  with assms(1) show ?thesis
    using filter_upsert_old [of t_id "q_rows q" "stored_task e t" r "\<lambda>r. t_status r = Running"]
    by (auto simp: queue_wf_def count_status_def save_task_def get_row_def split: if_splits)
qed

lemma running_count_save_fresh:
  assumes "fresh_task q t"
  shows "running_count (save_task e t q) \<le> running_count q"
  using assms by (auto simp: fresh_task_def count_status_def save_task_def intro: length_filter_upsert_not)

interpretation capacity: queue_property "\<lambda>e. e_concurrency e \<le> n"
    "\<lambda>q. queue_wf q \<and> int (running_count q) \<le> max n 0" for n
proof
  show "queue_wf (pump e q) \<and> int (running_count (pump e q)) \<le> max n 0"
    if "e_concurrency e \<le> n" "queue_wf q \<and> int (running_count q) \<le> max n 0" for e q
    using that pump_spec [of q e] queue_wf_pump [of q e] by (auto simp: pump_effect_def)
  show "queue_wf (save_task e t q) \<and> int (running_count (save_task e t q)) \<le> max n 0"
    if "queue_wf q \<and> int (running_count q) \<le> max n 0" "tame q t" for e t q
    using that running_count_save_tame [of q t e] wf_inv.ok_tame [of q t e] by linarith
  show "queue_wf (save_task e t q) \<and> int (running_count (save_task e t q)) \<le> max n 0"
    if "queue_wf q \<and> int (running_count q) \<le> max n 0" "fresh_task q t" for e t q
    using that running_count_save_fresh [of q t e] wf_inv.ok_fresh [of q t e] by linarith
qed (auto simp: same_rows_def count_status_def queue_wf_def empty_queue_def)

lemma dirs_exclusive_save:
  assumes wf: "queue_wf q" and ex: "dirs_exclusive home q"
    and old: "t_status t = Running \<Longrightarrow>
      \<exists>r. get_row q (t_id t) = Some r \<and> t_status r = Running \<and> t_cwd r = t_cwd t"
  shows "dirs_exclusive home (save_task e t q)"
proof -
  have rows: "set (q_rows (save_task e t q)) =
      insert (stored_task e t) {x \<in> set (q_rows q). t_id x \<noteq> t_id t}"
    using wf set_upsert [of t_id "q_rows q" "stored_task e t"]
    by (simp add: queue_wf_def save_task_def)
  show ?thesis
  proof (cases "t_status t = Running")
    case True
    with old obtain r where "r \<in> set (q_rows q)" "t_id r = t_id t" "t_status r = Running" "t_cwd r = t_cwd t"
      by (auto dest!: get_row_SomeD)
    with ex show ?thesis
      unfolding dirs_exclusive_def rows by (auto; metis)
  next
    case False
    with ex show ?thesis unfolding dirs_exclusive_def rows by auto
  qed
qed

interpretation exclusive: queue_property "\<lambda>e. e_exclusive e \<and> fs_home (e_fs e) = home"
    "\<lambda>q. queue_wf q \<and> dirs_exclusive home q" for home
proof
  show "queue_wf (pump e q) \<and> dirs_exclusive home (pump e q)"
    if "e_exclusive e \<and> fs_home (e_fs e) = home" "queue_wf q \<and> dirs_exclusive home q" for e q
    using that pump_spec [of q e] queue_wf_pump [of q e] by auto
  show "queue_wf (save_task e t q) \<and> dirs_exclusive home (save_task e t q)"
    if "queue_wf q \<and> dirs_exclusive home q" "tame q t" for e t q
    using that by (auto intro!: dirs_exclusive_save wf_inv.ok_tame simp: tame_def)
  show "queue_wf (save_task e t q) \<and> dirs_exclusive home (save_task e t q)"
    if "queue_wf q \<and> dirs_exclusive home q" "fresh_task q t" for e t q
    using that by (auto intro!: dirs_exclusive_save wf_inv.ok_fresh simp: fresh_task_def)
qed (auto simp: same_rows_def dirs_exclusive_def queue_wf_def empty_queue_def)

text \<open>The books of redirects: a row never claims to have given more redirects than it has.\<close>

definition redirect_books :: "queue \<Rightarrow> bool" where
  "redirect_books q \<longleftrightarrow> (\<forall>i r. get_row q i = Some r \<longrightarrow> t_redirectsSeen r \<le> length (t_redirects r))"

interpretation books: queue_property "\<lambda>_. True" "\<lambda>q. queue_wf q \<and> redirect_books q"
proof
  show "queue_wf (pump e q) \<and> redirect_books (pump e q)" if "queue_wf q \<and> redirect_books q" for e q
  proof -
    have eff: "pump_effect e q (pump e q)" using that pump_spec by blast
    have "t_redirectsSeen r \<le> length (t_redirects r)" if row: "get_row (pump e q) i = Some r" for i r
      using row \<open>queue_wf q \<and> redirect_books q\<close>
      by (cases rule: pump_effect_row [OF eff, of i]) (auto simp: redirect_books_def)
    with that queue_wf_pump show ?thesis by (auto simp: redirect_books_def)
  qed
  show "queue_wf (save_task e t q) \<and> redirect_books (save_task e t q)"
    if "queue_wf q \<and> redirect_books q" "tame q t" for e t q
    using that wf_inv.ok_tame [of q t e] by (auto simp: redirect_books_def tame_def)
  show "queue_wf (save_task e t q) \<and> redirect_books (save_task e t q)"
    if "queue_wf q \<and> redirect_books q" "fresh_task q t" for e t q
    using that wf_inv.ok_fresh [of q t e] by (auto simp: redirect_books_def fresh_task_def)
qed (auto simp: same_rows_def redirect_books_def queue_wf_def empty_queue_def get_row_def)

section \<open>Order of starting\<close>

definition first_come :: "queue_env \<Rightarrow> queue \<Rightarrow> queue \<Rightarrow> bool" where
  "first_come e q q' \<longleftrightarrow>
     (\<forall>r1 r2. startable q r1 \<and> startable q r2 \<and> t_seq r1 < t_seq r2 \<and>
        left_behind q q' r1 \<and> \<not> left_behind q q' r2 \<longrightarrow> blocked e q' r1)"

lemma pump_pass_first_come:
  assumes u: "unique_keys t_id (q_rows q)" and s: "q_starting q = []"
  shows "first_come e q (pump_pass e q)"
  unfolding first_come_def
proof (intro allI impI)
  fix r1 r2
  assume as: "startable q r1 \<and> startable q r2 \<and> t_seq r1 < t_seq r2 \<and>
    left_behind q (pump_pass e q) r1 \<and> \<not> left_behind q (pump_pass e q) r2"
  let ?rows = "sort_key t_seq (filter (\<lambda>r. t_status r = Queued) (q_rows q))"
  have mem: "r1 \<in> set ?rows" "r2 \<in> set ?rows"
    using as u by (auto simp: startable_def get_row_iff)
  then obtain i j where ij: "i < length ?rows" "?rows ! i = r1" "j < length ?rows" "?rows ! j = r2"
    by (metis in_set_conv_nth)
  have "i < j"
  proof (rule ccontr)
    assume "\<not> i < j"
    then have "map t_seq ?rows ! j \<le> map t_seq ?rows ! i"
      using ij by (intro sorted_nth_mono sorted_sort_key) auto
    with ij as show False by simp
  qed
  with pump_rows_order [OF pass_ready_init [OF u s], of e "free_slots e q"] ij as
  show "blocked e (pump_pass e q) r1"
    by (auto simp: sorted_wrt_iff_nth_less pump_pass_def)
qed

lemma pump_effect_run_cwds:
  assumes "pump_effect e q q'" "unique_keys t_id (q_rows q)"
  shows "run_cwds q \<subseteq> run_cwds q'"
proof
  fix c assume "c \<in> run_cwds q"
  then obtain r where r: "r \<in> set (q_rows q)" "t_status r = Running" "c = t_cwd r"
    by (auto simp: run_cwds_def)
  then have "get_row q (t_id r) = Some r" using assms(2) by (simp add: get_row_iff)
  then have "get_row q' (t_id r) = Some r"
    using r(2) by (cases rule: pump_effect_row [OF assms(1), of "t_id r"]) auto
  with r show "c \<in> run_cwds q'" by (auto simp: run_cwds_def dest: get_row_SomeD)
qed

lemma first_come_trans:
  assumes e1: "pump_effect e q q1" and e2: "pump_effect e q1 q2" and u: "unique_keys t_id (q_rows q)"
    and f1: "first_come e q q1" and f2: "first_come e q1 q2"
  shows "first_come e q q2"
  unfolding first_come_def
proof (intro allI impI)
  fix r1 r2
  assume as: "startable q r1 \<and> startable q r2 \<and> t_seq r1 < t_seq r2 \<and>
    left_behind q q2 r1 \<and> \<not> left_behind q q2 r2"
  have left1: "left_behind q q1 r1"
  proof (rule pump_effect_row [OF e1, of "t_id r1"])
    show ?thesis if "get_row q1 (t_id r1) = get_row q (t_id r1)"
      using that by (simp add: left_behind_def)
  next
    fix r assume r: "get_row q (t_id r1) = Some r" "t_status r = Queued"
      "get_row q1 (t_id r1) = Some (stored_task e (started_task e (from_row e r)))"
    then have "get_row q2 (t_id r1) = get_row q1 (t_id r1)"
      by (cases rule: pump_effect_row [OF e2, of "t_id r1"]) simp_all
    with r as show ?thesis by (simp add: left_behind_def)
  qed
  have "run_cwds q1 \<subseteq> run_cwds q2"
    using e1 by (intro pump_effect_run_cwds [OF e2]) (simp add: pump_effect_def)
  show "blocked e q2 r1"
  proof (cases "left_behind q q1 r2")
    case True
    with as left1 have "startable q1 r1" "startable q1 r2" "left_behind q1 q2 r1" "\<not> left_behind q1 q2 r2"
      by (auto simp: startable_def left_behind_def)
    with f2 as show ?thesis unfolding first_come_def by blast
  next
    case False
    with f1 as left1 have "blocked e q1 r1" unfolding first_come_def by blast
    with \<open>run_cwds q1 \<subseteq> run_cwds q2\<close> show ?thesis by (auto simp: blocked_def)
  qed
qed

lemma pump_loop_first_come:
  assumes "unique_keys t_id (q_rows q)" "q_starting q = []"
  shows "first_come e q (pump_loop e n q)"
  using assms
proof (induction e n q rule: pump_loop.induct)
  case (1 e n q)
  have refl: "first_come e q q" by (simp add: first_come_def left_behind_def)
  show ?case
  proof (cases "free_slots e q \<le> 0")
    case True
    with refl show ?thesis by (simp add: pump_loop.simps [of e n q])
  next
    case False
    note eff = pump_pass_effect [OF "1.prems", of e]
    note fc = pump_pass_first_come [OF "1.prems", of e]
    have core: "unique_keys t_id (q_rows (pump_pass e q))" "q_starting (pump_pass e q) = []"
      using eff by (auto simp: pump_effect_def)
    show ?thesis
    proof (cases n)
      case 0
      with False fc show ?thesis by (simp add: pump_loop.simps [of e 0 q] Let_def)
    next
      case (Suc m)
      have "first_come e q (pump_loop e m (pump_pass e q))"
        using "1.IH" [OF False _ Suc core] pump_loop_spec [OF core, of e m]
        by (intro first_come_trans [OF eff _ "1.prems"(1) fc]) auto
      with False Suc show ?thesis by (simp add: pump_loop.simps [of e "Suc m" q] Let_def)
    qed
  qed
qed

lemma first_come_flags:
  "first_come e (q\<lparr>q_pumping := a, q_again := b\<rparr>) q' = first_come e q q'"
  "first_come e q (q'\<lparr>q_pumping := a, q_again := b\<rparr>) = first_come e q q'"
  by (simp_all add: first_come_def startable_def left_behind_def blocked_def run_cwds_def get_row_def)

lemma pump_first_come:
  assumes "queue_wf q"
  shows "first_come e q (pump e q)"
proof -
  have "first_come e (q\<lparr>q_pumping := True, q_again := False\<rparr>)
      (pump_loop e (e_rounds e) (q\<lparr>q_pumping := True, q_again := False\<rparr>))"
    using assms by (intro pump_loop_first_come) (simp_all add: queue_wf_def)
  with assms show ?thesis
    by (simp only: pump_not_pumping queue_wf_def first_come_flags not_False_eq_True)
qed

section \<open>Settled tasks\<close>

definition settled_status :: "queue_status \<Rightarrow> bool" where
  "settled_status st = (st = TaskDone \<or> st = TaskError \<or> st = Cancelled)"

definition same_outcome :: "queue_task \<Rightarrow> queue_task \<Rightarrow> bool" where
  "same_outcome r r' \<longleftrightarrow>
     t_status r' = t_status r \<and> t_result r' = t_result r \<and> t_finished r' = t_finished r"

definition keeps_settled :: "string \<Rightarrow> queue \<Rightarrow> queue \<Rightarrow> bool" where
  "keeps_settled i q q' \<longleftrightarrow>
     (\<forall>r. get_row q i = Some r \<and> settled_status (t_status r) \<longrightarrow>
        (\<exists>r'. get_row q' i = Some r' \<and> same_outcome r r'))"

lemma same_outcome_simps [simp]:
  "same_outcome r r" "same_outcome r (stored_task e t) = same_outcome r t"
  "same_outcome r (from_row e t) = same_outcome r t" "same_outcome (from_row e r) t = same_outcome r t"
  by (simp_all add: same_outcome_def stored_task_def from_row_def)

lemma keeps_settled_refl [simp]: "keeps_settled i q q"
  by (simp add: keeps_settled_def)

lemma keeps_settled_trans: "keeps_settled i q q1 \<Longrightarrow> keeps_settled i q1 q2 \<Longrightarrow> keeps_settled i q q2"
  unfolding keeps_settled_def same_outcome_def by metis

lemma keeps_settled_rows: "(\<And>j. get_row q' j = get_row q j) \<Longrightarrow> keeps_settled i q q'"
  by (simp add: keeps_settled_def)

lemma keeps_settled_host: "keeps_settled i q q' \<Longrightarrow> keeps_settled i q (host_does c q')"
  by (simp add: keeps_settled_def)

lemma keeps_settled_save:
  assumes "\<And>r. get_row q i = Some r \<Longrightarrow> settled_status (t_status r) \<Longrightarrow> t_id t = i \<Longrightarrow> same_outcome r t"
  shows "keeps_settled i q (save_task e t q)"
  using assms by (auto simp: keeps_settled_def)

lemma keeps_settled_pump:
  assumes "queue_wf q'" "keeps_settled i q q'"
  shows "keeps_settled i q (pump e q')"
proof (rule keeps_settled_trans [OF assms(2)])
  have eff: "pump_effect e q' (pump e q')" using pump_spec [OF assms(1)] by blast
  show "keeps_settled i q' (pump e q')"
    unfolding keeps_settled_def
    by (intro allI impI, cases rule: pump_effect_row [OF eff, of i]) (auto simp: settled_status_def)
qed

lemma get_task_outcome:
  "get_task e q j = Some t \<Longrightarrow> get_row q i = Some r \<Longrightarrow> t_id t = i \<Longrightarrow> t = from_row e r"
  by (auto elim!: get_task_SomeE)

lemma keeps_settled_get:
  assumes "get_task e q j = Some t" "t_id t' = t_id t"
    and "settled_status (t_status t) \<Longrightarrow> same_outcome t t'"
  shows "keeps_settled i q (save_task e' t' q)"
  using assms by (intro keeps_settled_save) (auto dest: get_task_outcome)

lemma keeps_settled_session:
  assumes "by_session e q sid = Some t" "queue_wf q" "t_id t' = t_id t" "\<not> settled_status (t_status t)"
  shows "keeps_settled i q (save_task e' t' q)"
proof -
  obtain r where "get_row q (t_id r) = Some r" "t = from_row e r"
    using assms(1,2) by (rule by_session_SomeE)
  with assms(3,4) show ?thesis by (intro keeps_settled_save) auto
qed

lemma not_settled [simp]: "\<not> settled_status Queued" "\<not> settled_status Running"
  by (simp_all add: settled_status_def)

lemma keeps_settled_human_finish: "keeps_settled i q (human_finish e j w how q)"
proof -
  let ?q1 = "q\<lparr>q_waiting := filter (\<lambda>p. fst p \<noteq> j) (q_waiting q)\<rparr>"
  have get: "get_row ?q1 = get_row q" by (auto simp: get_row_def)
  have task: "get_task e ?q1 k = get_task e q k" for k by (simp add: get_task_def get)
  have out: "keeps_settled i q q2 \<Longrightarrow> keeps_settled i q (q2\<lparr>q_resolved := rs\<rparr>)" for q2 rs
    by (simp add: keeps_settled_def get_row_def)
  have save: "keeps_settled i q (save_task e t' ?q1)"
    if "get_task e q k = Some t" "t_id t' = t_id t" "same_outcome t t'" for k t t'
    using keeps_settled_get [OF that(1,2), where i = i and e' = e] that(3)
    by (simp add: keeps_settled_def get_row_def save_task_def)
  have "keeps_settled i q ?q1" by (rule keeps_settled_rows) (simp add: get)
  with save show ?thesis
    by (auto simp: human_finish_def Let_def task same_outcome_def split: option.split intro!: out)
qed

lemma keeps_settled_worker_exited: "queue_wf q \<Longrightarrow> keeps_settled i q (worker_exited e sid st q)"
  by (auto simp: worker_exited_def Let_def split: option.split
      intro!: keeps_settled_pump keeps_settled_host wf_inv.ok_host wf_inv.ok_save_session
      intro: keeps_settled_session simp: wf_inv.settled_task_fields)

lemma keeps_settled_start_settle:
  assumes "queue_wf q"
  shows "keeps_settled i q (start_settle e j sid failure q)"
proof (cases "get_task e q j")
  case (Some t)
  have ses: "keeps_settled i q (save_task e (t\<lparr>t_session := sid\<rparr>) q)"
    by (rule keeps_settled_get [OF Some]) (auto simp: same_outcome_def)
  have wf: "queue_wf (save_task e (t\<lparr>t_session := sid\<rparr>) q)"
    by (rule wf_inv.ok_save_get [OF assms Some]) auto
  have "keeps_settled i q (pump e (save_task e (t\<lparr>t_status := TaskError, t_finished := n, t_result := s\<rparr>) q))"
    if "t_status t = Running" for n s
    using that assms
    by (intro keeps_settled_pump wf_inv.ok_save_get [OF assms Some] keeps_settled_get [OF Some]) auto
  with ses wf assms show ?thesis
    by (auto simp: start_settle_def Some Let_def
        intro: keeps_settled_host keeps_settled_worker_exited
          keeps_settled_trans [OF keeps_settled_host [OF ses] keeps_settled_worker_exited])
qed (simp add: start_settle_def)

lemma keeps_settled_recover:
  assumes "queue_wf q"
  shows "keeps_settled i q (recover e q)"
proof -
  have rows: "get_row (fold (\<lambda>row q. save_task e (recovered_task e (from_row e row)) q) rows q0) i = get_row q0 i"
    if "i \<notin> t_id ` set rows" for rows q0
    using that by (induction rows arbitrary: q0) (auto simp: recovered_task_def)
  let ?run = "filter (\<lambda>r. t_status r = Running) (q_rows q)"
  let ?q1 = "fold (\<lambda>row q. save_task e (recovered_task e (from_row e row)) q) ?run q"
  have u: "unique_keys t_id (q_rows q)" using assms by (simp add: queue_wf_def)
  have "queue_wf ?q1"
    using u assms by (intro wf_inv.ok_recover_fold)
      (auto simp: get_row_iff unique_keys_def distinct_map_filter)
  moreover have "keeps_settled i q ?q1"
  proof (cases "i \<in> t_id ` set ?run")
    case True
    then obtain r where "get_row q i = Some r" "t_status r = Running"
      using u by (auto simp: get_row_iff)
    then show ?thesis by (simp add: keeps_settled_def)
  next
    case False
    then show ?thesis by (simp add: keeps_settled_def rows)
  qed
  ultimately show ?thesis unfolding recover_def by (rule keeps_settled_pump)
qed

lemma make_tasks_keeps_row:
  "queue_wf q \<Longrightarrow> seq = next_seq q \<Longrightarrow> get_row q i = Some r \<Longrightarrow>
   get_row (snd (make_tasks e existing made seq specs q)) i = Some r"
proof (induction e existing made seq specs q rule: make_tasks.induct)
  case (2 e existing made seq s ss q)
  define t where "t = new_task e seq (map (\<lambda>(t, sc). (t_id t, sc))
    (take 5 (related_to (query_of s) (existing @ made)))) s"
  have fresh: "fresh_task q t"
    using 2 by (simp add: fresh_task_def new_task_def t_def)
  then have new: "t_id t \<noteq> i"
    using queue_wf_new_id [of q t] 2 by (auto simp: fresh_task_def dest!: get_row_SomeD)
  have step: "make_tasks e existing made seq (s # ss) q =
      make_tasks e existing (made @ [t]) (Suc seq) ss (save_task e t q)"
    by (simp add: t_def Let_def)
  show ?case
    unfolding step
    using "2.IH" [OF refl t_def] wf_inv.ok_fresh [OF "2.prems"(1) fresh]
      wf_inv.next_seq_save [OF "2.prems"(1) fresh] "2.prems" new
    by simp
qed simp

lemma keeps_settled_create:
  assumes "queue_wf q"
  shows "keeps_settled i q (fst (create e spec message q))"
proof -
  have "keeps_settled i q (fst (create_specs e force specs q))" for force specs
    using make_tasks_keeps_row [OF assms refl, of i _ e "list_tasks e q" "[]" specs]
      wf_inv.ok_make_tasks [OF assms refl, of e "list_tasks e q" "[]" specs]
    by (auto simp: create_specs_def Let_def keeps_settled_def split: option.split prod.split
        intro!: keeps_settled_pump [unfolded keeps_settled_def, rule_format])
  then show ?thesis by (auto simp: create_def Let_def split: option.split)
qed

lemma keeps_settled_cancel: "queue_wf q \<Longrightarrow> keeps_settled i q (fst (cancel e j q))"
  by (auto simp: cancel_def Let_def split: option.split
      intro!: keeps_settled_pump keeps_settled_host wf_inv.ok_host intro: wf_inv.ok_save_get keeps_settled_get)

lemma keeps_settled_session_gone: "queue_wf q \<Longrightarrow> keeps_settled i q (session_gone e sid why q)"
  by (auto simp: session_gone_def Let_def split: option.split
      intro!: keeps_settled_pump intro: wf_inv.ok_save_session keeps_settled_session)

lemma keeps_settled_set_model: "keeps_settled i q (set_model e j model why q)"
  by (auto simp: set_model_def same_outcome_def split: option.split intro: keeps_settled_get)

lemma keeps_settled_ask_human: "keeps_settled i q (fst (ask_human e j tab message q))"
  by (auto simp: ask_human_def Let_def same_outcome_def split: option.split intro: keeps_settled_get)

lemma keeps_settled_update_card: "keeps_settled i q (fst (update_card e j d q))"
  by (auto simp: update_card_def Let_def same_outcome_def split: option.split
      intro!: keeps_settled_host intro: keeps_settled_get)

lemma keeps_settled_notify: "keeps_settled i q (fst (notify e j message q))"
  by (auto simp: notify_def Let_def same_outcome_def split: option.split intro: keeps_settled_get)

lemma keeps_settled_human_done: "keeps_settled i q (fst (human_done e j seconds q))"
proof -
  have wait: "keeps_settled i q (q\<lparr>q_waiting := ws, q_waits := n\<rparr>)" for ws n
    by (rule keeps_settled_rows) (simp add: get_row_def)
  show ?thesis
    by (auto simp: human_done_def Let_def wait intro: keeps_settled_trans [OF wait keeps_settled_human_finish])
qed

lemma keeps_settled_resolve_human: "keeps_settled i q (fst (resolve_human e j q))"
proof -
  have save: "keeps_settled i q' (save_task e (t\<lparr>t_browser := None\<rparr>) q')" if "get_task e q' j = Some t" for q' t
    by (rule keeps_settled_get [OF that]) (auto simp: same_outcome_def)
  show ?thesis
    by (auto simp: resolve_human_def Let_def save keeps_settled_human_finish split: option.split)
qed

lemma keeps_settled_other:
  assumes "get_task e q j = Some t" "j \<noteq> i" "t_id t' = t_id t"
  shows "keeps_settled i q (save_task e' t' q)"
  using assms by (auto intro!: keeps_settled_save elim!: get_task_SomeE)

lemma keeps_settled_requeue: "queue_wf q \<Longrightarrow> j \<noteq> i \<Longrightarrow> keeps_settled i q (requeue e j why q)"
  by (auto simp: requeue_def Let_def split: option.split
      intro!: keeps_settled_pump intro: keeps_settled_other wf_inv.ok_save_get)

lemma keeps_settled_redirect: "queue_wf q \<Longrightarrow> js_trim j \<noteq> i \<Longrightarrow> keeps_settled i q (fst (redirect e j message q))"
  by (auto simp: redirect_def Let_def save_host_commute split: option.split
      intro!: keeps_settled_pump keeps_settled_host intro: keeps_settled_other wf_inv.ok_save_get)

text \<open>The two operations that open a settled task again.\<close>

fun reopens :: "string \<Rightarrow> queue_event \<Rightarrow> bool" where
  "reopens i (EvRedirect j message) = (js_trim j = i)"
| "reopens i (EvRequeue j why) = (j = i)"
| "reopens i _ = False"

lemma keeps_settled_handle:
  assumes "queue_wf q" "\<not> reopens i ev"
  shows "keeps_settled i q (handle e ev q)"
  using assms
  by (cases ev) (auto intro: keeps_settled_create keeps_settled_redirect keeps_settled_cancel
      keeps_settled_session_gone keeps_settled_set_model keeps_settled_ask_human keeps_settled_human_done
      keeps_settled_human_finish keeps_settled_resolve_human keeps_settled_update_card keeps_settled_notify
      keeps_settled_start_settle keeps_settled_worker_exited keeps_settled_requeue keeps_settled_recover
      keeps_settled_pump keeps_settled_rows simp: resize_def set_meta_def get_row_def)

end
