(* ===== verification/WorkQueueLive.thy ===== *)
theory WorkQueueLive
  imports WorkQueueProps
begin

text \<open>
  What the queue does, beyond the invariants: a start asks for exactly the brief and the redirects of the
  row, no operation leaves a slot idle, and each wait for a human is answered at most once.
\<close>

section \<open>What a start asks for\<close>

lemma start_begin_calls: "q_calls (start_begin e t q) = q_calls q @ [start_call t]"
  by simp

lemma pump_rows_calls:
  assumes "pass_ready q busy rows"
  shows "(\<exists>cs. q_calls (pump_rows e slots busy rows q) = q_calls q @ cs \<and>
      (\<forall>r \<in> set rows. \<not> left_behind q (pump_rows e slots busy rows q) r \<longrightarrow> start_call (from_row e r) \<in> set cs))"
  using assms
proof (induction slots busy rows q rule: pump_rows_induct [where e = e])
  case (stop slots busy rows q)
  then show ?case by (simp add: left_behind_def)
next
  case (skip slots busy r rows q)
  have new: "t_id r \<notin> t_id ` set rows" using skip.hyps(1) by (auto simp: pass_ready_def)
  have "left_behind q (pump_rows e slots busy rows q) r"
    using pump_rows_other [OF pass_ready_Cons(1) [OF skip.hyps(1)] new] by (simp add: left_behind_def)
  with skip.IH skip.hyps(4) show ?case by auto
next
  case (begin_row slots busy r rows q)
  let ?q1 = "start_begin e (from_row e r) q"
  let ?q' = "pump_rows e (slots - 1) (busy @ [t_cwd r]) rows ?q1"
  have new: "t_id r \<notin> t_id ` set rows" using begin_row.hyps(1) by (auto simp: pass_ready_def)
  have same: "left_behind q ?q' x = left_behind ?q1 ?q' x" if "x \<in> set rows" for x
    using that new by (auto simp: left_behind_def get_row_start_begin image_iff)
  obtain cs where cs: "q_calls ?q' = q_calls ?q1 @ cs"
    "\<forall>x \<in> set rows. \<not> left_behind ?q1 ?q' x \<longrightarrow> start_call (from_row e x) \<in> set cs"
    using begin_row.IH by blast
  show ?case
    unfolding begin_row.hyps(4)
    using cs same by (intro exI [of _ "start_call (from_row e r) # cs"]) auto
qed

definition starts_called :: "queue_env \<Rightarrow> queue \<Rightarrow> queue \<Rightarrow> bool" where
  "starts_called e q q' \<longleftrightarrow>
     (\<exists>cs. q_calls q' = q_calls q @ cs \<and>
       (\<forall>r. startable q r \<and> \<not> left_behind q q' r \<longrightarrow> start_call (from_row e r) \<in> set cs))"

lemma pump_pass_calls:
  assumes "unique_keys t_id (q_rows q)" "q_starting q = []"
  shows "starts_called e q (pump_pass e q)"
proof -
  have "r \<in> set (sort_key t_seq (filter (\<lambda>r. t_status r = Queued) (q_rows q)))" if "startable q r" for r
    using that assms by (auto simp: startable_def get_row_iff)
  with pump_rows_calls [OF pass_ready_init [OF assms], of e "free_slots e q"] show ?thesis
    unfolding starts_called_def pump_pass_def by blast
qed

lemma starts_called_trans:
  assumes e1: "pump_effect e q q1" and e2: "pump_effect e q1 q2"
    and c1: "starts_called e q q1" and c2: "starts_called e q1 q2"
  shows "starts_called e q q2"
proof -
  obtain cs1 cs2 where cs: "q_calls q1 = q_calls q @ cs1" "q_calls q2 = q_calls q1 @ cs2"
    and s1: "\<And>r. startable q r \<Longrightarrow> \<not> left_behind q q1 r \<Longrightarrow> start_call (from_row e r) \<in> set cs1"
    and s2: "\<And>r. startable q1 r \<Longrightarrow> \<not> left_behind q1 q2 r \<Longrightarrow> start_call (from_row e r) \<in> set cs2"
    using c1 c2 unfolding starts_called_def by blast
  have "start_call (from_row e r) \<in> set (cs1 @ cs2)" if "startable q r" "\<not> left_behind q q2 r" for r
  proof (cases "left_behind q q1 r")
    case True
    with that have "startable q1 r" "\<not> left_behind q1 q2 r"
      by (auto simp: startable_def left_behind_def)
    with s2 show ?thesis by simp
  next
    case False
    with s1 that show ?thesis by simp
  qed
  with cs show ?thesis unfolding starts_called_def by (intro exI [of _ "cs1 @ cs2"]) simp
qed

lemma pump_loop_calls:
  assumes "unique_keys t_id (q_rows q)" "q_starting q = []"
  shows "starts_called e q (pump_loop e n q)"
  using assms
proof (induction e n q rule: pump_loop.induct)
  case (1 e n q)
  show ?case
  proof (cases "free_slots e q \<le> 0")
    case True
    then show ?thesis by (simp add: pump_loop.simps [of e n q] starts_called_def left_behind_def)
  next
    case False
    note eff = pump_pass_effect [OF "1.prems", of e]
    note cs = pump_pass_calls [OF "1.prems", of e]
    have core: "unique_keys t_id (q_rows (pump_pass e q))" "q_starting (pump_pass e q) = []"
      using eff by (auto simp: pump_effect_def)
    show ?thesis
    proof (cases n)
      case 0
      with False cs show ?thesis by (simp add: pump_loop.simps [of e 0 q] Let_def)
    next
      case (Suc m)
      have "starts_called e q (pump_loop e m (pump_pass e q))"
        using "1.IH" [OF False _ Suc core] pump_loop_spec [OF core, of e m]
        by (intro starts_called_trans [OF eff _ cs]) auto
      with False Suc show ?thesis by (simp add: pump_loop.simps [of e "Suc m" q] Let_def)
    qed
  qed
qed

lemma starts_called_flags:
  "starts_called e (q\<lparr>q_pumping := a, q_again := b\<rparr>) q' = starts_called e q q'"
  "starts_called e q (q'\<lparr>q_pumping := a, q_again := b\<rparr>) = starts_called e q q'"
  by (simp_all add: starts_called_def startable_def left_behind_def get_row_def)

lemma pump_calls:
  assumes "queue_wf q"
  shows "starts_called e q (pump e q)"
proof -
  have "starts_called e (q\<lparr>q_pumping := True, q_again := False\<rparr>)
      (pump_loop e (e_rounds e) (q\<lparr>q_pumping := True, q_again := False\<rparr>))"
    using assms by (intro pump_loop_calls) (simp_all add: queue_wf_def)
  with assms show ?thesis
    by (simp only: pump_not_pumping queue_wf_def starts_called_flags not_False_eq_True)
qed

lemma sublist_append_left: "sublist xs ys \<Longrightarrow> sublist xs (ps @ ys)"
  unfolding sublist_def by (metis append_assoc)

lemma sublist_join: "s \<in> set ss \<Longrightarrow> sublist s (join sep ss)"
proof (induction sep ss rule: join.induct)
  case (3 sep s' t ts)
  then show ?case
    using sublist_append_left [of s "join sep (t # ts)"] sublist_append_left [of s _ "s' @ sep"] by fastforce
qed auto

lemma start_call_delivers:
  "t_session t = [] \<or> t_attempts t = 0 \<Longrightarrow> start_call t = StartWorker (t_id t) (start_brief t)"
  "t_session t \<noteq> [] \<Longrightarrow> t_attempts t \<noteq> 0 \<Longrightarrow>
     start_call t = ContinueWorker (t_session t) (resume_message (drop (t_redirectsSeen t) (t_redirects t)))"
  by (auto simp: start_call_def)

lemma start_brief_contains:
  "prefix (t_prompt t) (start_brief t)" "m \<in> set (t_redirects t) \<Longrightarrow> sublist m (start_brief t)"
proof -
  show "prefix (t_prompt t) (start_brief t)" by (auto simp: start_brief_def)
  assume m: "m \<in> set (t_redirects t)"
  then have "sublist (''- '' @ m) (join nl (map (\<lambda>r. ''- '' @ r) (t_redirects t)))"
    by (intro sublist_join) auto
  then have "sublist m (join nl (map (\<lambda>r. ''- '' @ r) (t_redirects t)))"
    by (meson sublist_append_leftI sublist_order.order_trans)
  then show "sublist m (start_brief t)"
    using m by (auto simp: start_brief_def simp del: append_Cons append_assoc
        simp flip: append_assoc intro!: sublist_append_left)
qed

lemma resume_message_contains: "m \<in> set ms \<Longrightarrow> sublist (redirect_mark @ m) (resume_message ms)"
  by (auto simp: resume_message_def intro: sublist_join)

section \<open>No slot is left idle\<close>

lemma no_idle_settings:
  assumes "e_concurrency e = e_concurrency e'" "e_exclusive e = e_exclusive e'"
    "fs_home (e_fs e) = fs_home (e_fs e')"
  shows "no_idle_slot e q = no_idle_slot e' q"
  using assms by (simp add: no_idle_slot_def blocked_def)

lemma no_idle_frame: "q_rows q' = q_rows q \<Longrightarrow> no_idle_slot e q \<Longrightarrow> no_idle_slot e q'"
  by (simp add: no_idle_slot_def blocked_def run_cwds_def count_status_def)

lemma no_idle_save:
  assumes wf: "queue_wf q" and r: "get_row q (t_id t) = Some r" "t_status t = t_status r" "t_cwd t = t_cwd r"
    and idle: "no_idle_slot e q"
  shows "no_idle_slot e (save_task e' t q)"
proof -
  have u: "unique_keys t_id (q_rows q)" using wf by (simp add: queue_wf_def)
  have set: "set (q_rows (save_task e' t q)) = insert (stored_task e' t) {x \<in> set (q_rows q). t_id x \<noteq> t_id t}"
    using set_upsert [OF u, of "stored_task e' t"] by (simp add: save_task_def)
  have mem: "r \<in> set (q_rows q)" "t_id r = t_id t"
    using r(1) by (auto dest: get_row_SomeD)
  have only: "x = r" if "x \<in> set (q_rows q)" "t_id x = t_id t" for x
    using that r(1) get_row_iff [OF u, of "t_id t" x] by simp
  have count: "running_count (save_task e' t q) = running_count q"
    using filter_upsert_old [OF u, of "stored_task e' t" r "\<lambda>r. t_status r = Running"] r
    by (simp add: count_status_def save_task_def get_row_def split: if_splits)
  have "{x \<in> set (q_rows (save_task e' t q)). t_status x = Running} \<subseteq>
      insert (stored_task e' t) {x \<in> set (q_rows q). t_status x = Running}"
    by (auto simp: set)
  have cwds: "run_cwds q \<subseteq> run_cwds (save_task e' t q)"
  proof
    fix c assume "c \<in> run_cwds q"
    then obtain x where x: "x \<in> set (q_rows q)" "t_status x = Running" "c = t_cwd x"
      by (auto simp: run_cwds_def)
    show "c \<in> run_cwds (save_task e' t q)"
    proof (cases "t_id x = t_id t")
      case True
      with x only r(2,3) have "t_status (stored_task e' t) = Running" "c = t_cwd (stored_task e' t)" by auto
      then show ?thesis unfolding run_cwds_def set by blast
    next
      case False
      with x show ?thesis unfolding run_cwds_def set by blast
    qed
  qed
  show ?thesis
  proof (cases "e_concurrency e \<le> int (running_count q)")
    case True
    with count show ?thesis by (simp add: no_idle_slot_def)
  next
    case False
    with idle have old: "blocked e q x" if "x \<in> set (q_rows q)" "t_status x = Queued" for x
      using that by (simp add: no_idle_slot_def)
    have "blocked e (save_task e' t q) x" if "x \<in> set (q_rows (save_task e' t q))" "t_status x = Queued" for x
    proof (cases "x = stored_task e' t")
      case True
      with that r(2,3) old [OF mem(1)] cwds show ?thesis by (auto simp: blocked_def)
    next
      case False
      with that old [of x] cwds show ?thesis by (auto simp: set blocked_def)
    qed
    then show ?thesis by (simp add: no_idle_slot_def)
  qed
qed

lemma no_idle_save_get:
  assumes "queue_wf q" "get_task e0 q i = Some t" "t_id t' = t_id t" "t_status t' = t_status t" "t_cwd t' = t_cwd t"
    and "no_idle_slot e q"
  shows "no_idle_slot e (save_task e' t' q)"
  using assms by (auto elim!: get_task_SomeE intro: no_idle_save)

lemma no_idle_host [simp]: "no_idle_slot e (host_does c q) = no_idle_slot e q"
  by (simp add: no_idle_slot_def blocked_def run_cwds_def count_status_def)

lemma no_idle_pump: "queue_wf q \<Longrightarrow> no_idle_slot e (pump e q)"
  using pump_spec by blast

lemma no_idle_redirect:
  assumes "queue_wf q" "no_idle_slot e q"
  shows "no_idle_slot e (fst (redirect e i message q))"
  using assms
  by (auto simp: redirect_def Let_def save_host_commute split: option.split
      intro!: no_idle_pump intro: no_idle_save_get wf_inv.ok_save_get)

lemma no_idle_cancel:
  assumes "queue_wf q" "no_idle_slot e q"
  shows "no_idle_slot e (fst (cancel e i q))"
  using assms
  by (auto simp: cancel_def Let_def split: option.split
      intro!: no_idle_pump wf_inv.ok_host intro: wf_inv.ok_save_get)

lemma no_idle_session_gone:
  assumes "queue_wf q" "no_idle_slot e q"
  shows "no_idle_slot e (session_gone e sid why q)"
  using assms
  by (auto simp: session_gone_def split: option.split intro!: no_idle_pump intro: wf_inv.ok_save_session)

lemma no_idle_worker_exited:
  assumes "queue_wf q" "no_idle_slot e q"
  shows "no_idle_slot e (worker_exited e sid st q)"
  using assms
  by (auto simp: worker_exited_def Let_def wf_inv.settled_task_fields split: option.split
      intro!: no_idle_pump wf_inv.ok_host intro: wf_inv.ok_save_session)

lemma no_idle_start_settle:
  assumes "queue_wf q" "no_idle_slot e q"
  shows "no_idle_slot e (start_settle e i sid failure q)"
proof (cases "get_task e q i")
  case (Some t)
  have saved: "queue_wf (save_task e (t\<lparr>t_session := sid\<rparr>) q)" "no_idle_slot e (save_task e (t\<lparr>t_session := sid\<rparr>) q)"
    by (auto intro: wf_inv.ok_save_get [OF assms(1) Some] no_idle_save_get [OF assms(1) Some] assms)
  have failed: "queue_wf (save_task e (t\<lparr>t_status := TaskError, t_finished := n, t_result := s\<rparr>) q)" for n s
    by (rule wf_inv.ok_save_get [OF assms(1) Some]) auto
  show ?thesis
    using assms saved failed
    by (auto simp: start_settle_def Some Let_def intro: no_idle_pump no_idle_worker_exited)
qed (simp add: start_settle_def assms)

lemma no_idle_create:
  assumes "queue_wf q" "no_idle_slot e q"
  shows "no_idle_slot e (fst (create e spec message q))"
proof -
  have "no_idle_slot e (fst (create_specs e force specs q))" for force specs
    using assms wf_inv.ok_make_tasks [OF assms(1) refl, of e "list_tasks e q" "[]" specs]
    by (auto simp: create_specs_def Let_def split: option.split prod.split intro: no_idle_pump)
  with assms show ?thesis by (auto simp: create_def Let_def split: option.split)
qed

lemma no_idle_human_finish:
  assumes "queue_wf q" "no_idle_slot e q"
  shows "no_idle_slot e (human_finish e i w how q)"
proof -
  let ?q1 = "q\<lparr>q_waiting := filter (\<lambda>p. fst p \<noteq> i) (q_waiting q)\<rparr>"
  have q1: "queue_wf ?q1" "no_idle_slot e ?q1"
    using assms by (auto intro: queue_wf_cong no_idle_frame)
  have fin: "no_idle_slot e (q2\<lparr>q_resolved := rs\<rparr>)" if "no_idle_slot e q2" for q2 rs
    by (rule no_idle_frame [OF _ that]) simp
  show ?thesis
    using assms q1 by (auto simp: human_finish_def Let_def split: option.split intro!: fin intro: no_idle_save_get [OF q1(1)])
qed

lemma no_idle_human_done:
  assumes "queue_wf q" "no_idle_slot e q"
  shows "no_idle_slot e (fst (human_done e i seconds q))"
proof -
  have "queue_wf (q\<lparr>q_waiting := ws, q_waits := n\<rparr>)" "no_idle_slot e (q\<lparr>q_waiting := ws, q_waits := n\<rparr>)" for ws n
    using assms by (auto intro: queue_wf_cong no_idle_frame)
  then show ?thesis by (simp add: human_done_def Let_def no_idle_human_finish)
qed

lemma no_idle_resolve_human:
  assumes "queue_wf q" "no_idle_slot e q"
  shows "no_idle_slot e (fst (resolve_human e i q))"
  using assms
  by (auto simp: resolve_human_def Let_def split: option.split
      intro: no_idle_save_get wf_inv.ok_human_finish no_idle_human_finish)

lemma no_idle_panel:
  assumes "queue_wf q" "no_idle_slot e q"
  shows "no_idle_slot e (set_model e i model why q)" "no_idle_slot e (fst (ask_human e i tab message q))"
    "no_idle_slot e (fst (update_card e i message q))" "no_idle_slot e (fst (notify e i message q))"
    "no_idle_slot e (set_meta k v q)"
  using assms
  by (auto simp: set_model_def ask_human_def update_card_def notify_def Let_def split: option.split
      intro: no_idle_save_get no_idle_frame simp: set_meta_def)

lemma no_idle_handle:
  assumes "queue_wf q" "no_idle_slot e q"
  shows "no_idle_slot e (handle e ev q)"
proof (cases ev)
  case (EvRequeue i why)
  have "no_idle_slot e (requeue e i why q)"
    using assms by (auto simp: requeue_def split: option.split intro!: no_idle_pump intro: wf_inv.ok_save_get)
  with EvRequeue show ?thesis by simp
next
  case EvRecover
  have "unique_keys t_id (q_rows q)" using assms by (simp add: queue_wf_def)
  then have "no_idle_slot e (recover e q)"
    unfolding recover_def using assms
    by (intro no_idle_pump wf_inv.ok_recover_fold) (auto simp: get_row_iff unique_keys_def distinct_map_filter)
  with EvRecover show ?thesis by simp
qed (use assms in \<open>simp_all add: no_idle_create no_idle_redirect no_idle_cancel no_idle_session_gone no_idle_panel
      no_idle_human_done no_idle_human_finish no_idle_resolve_human no_idle_start_settle
      no_idle_worker_exited resize_def no_idle_pump\<close>)

lemma no_idle_run:
  assumes "list_all (\<lambda>(e', _). e_concurrency e' = e_concurrency e \<and> e_exclusive e' = e_exclusive e \<and> fs_home (e_fs e') = fs_home (e_fs e)) evs"
    and "queue_wf q" "no_idle_slot e q"
  shows "queue_wf (run_events evs q) \<and> no_idle_slot e (run_events evs q)"
  using assms
proof (induction evs q rule: run_events.induct)
  case (2 e' ev evs q)
  then have "no_idle_slot e' q" using no_idle_settings [of e e'] by simp
  with 2 no_idle_handle [of q e' ev] no_idle_settings [of e e'] show ?case
    by (simp add: wf_inv.ok_handle)
qed simp

section \<open>A worker exits once\<close>

lemma find_upsert_session:
  "unique_keys t_id rows \<Longrightarrow> find (\<lambda>r. t_session r = sid) rows = Some r \<Longrightarrow>
   t_id r' = t_id r \<Longrightarrow> t_session r' = sid \<Longrightarrow>
   find (\<lambda>r. t_session r = sid) (upsert t_id r' rows) = Some r'"
proof (induction rows)
  case (Cons x xs)
  show ?case
  proof (cases "t_session x = sid")
    case True
    with Cons.prems show ?thesis by auto
  next
    case False
    with Cons.prems have f: "find (\<lambda>r. t_session r = sid) xs = Some r" by simp
    then have "r \<in> set xs" by (auto simp: find_Some_iff)
    with Cons.prems(1) have "t_id x \<noteq> t_id r" by (auto simp: image_iff)
    with False Cons f show ?thesis by auto
  qed
qed simp

text \<open>A row's position and session are the same after a start, so the first row of a session stays first.\<close>

definition session_keys :: "queue \<Rightarrow> (string \<times> string) list" where
  "session_keys q = map (\<lambda>r. (t_id r, t_session r)) (q_rows q)"

lemma map_upsert_same:
  "row_of key (key r) rows = Some old \<Longrightarrow> f old = f r \<Longrightarrow> unique_keys key rows \<Longrightarrow>
   map f (upsert key r rows) = map f rows"
  by (induction rows) (auto split: if_splits)

lemma session_keys_start:
  "unique_keys t_id (q_rows q) \<Longrightarrow> startable q r \<Longrightarrow> session_keys (start_begin e (from_row e r) q) = session_keys q"
  by (auto simp: session_keys_def start_begin_rows startable_def get_row_def intro!: map_upsert_same)

lemma session_keys_pump_rows:
  assumes "pass_ready q busy rows"
  shows "session_keys (pump_rows e slots busy rows q) = session_keys q"
  using assms
proof (induction slots busy rows q rule: pump_rows_induct [where e = e])
  case (begin_row slots busy r rows q)
  note rd = pass_ready_Cons [OF begin_row.hyps(1)]
  from begin_row.IH session_keys_start [OF rd(3,2)] show ?case by (simp add: begin_row.hyps(4))
qed auto

lemma session_keys_pump_loop:
  assumes "unique_keys t_id (q_rows q)" "q_starting q = []"
  shows "session_keys (pump_loop e n q) = session_keys q"
  using assms
proof (induction e n q rule: pump_loop.induct)
  case (1 e n q)
  have pass: "session_keys (pump_pass e q) = session_keys q"
    unfolding pump_pass_def by (rule session_keys_pump_rows [OF pass_ready_init [OF "1.prems"]])
  have core: "unique_keys t_id (q_rows (pump_pass e q))" "q_starting (pump_pass e q) = []"
    using pump_pass_effect [OF "1.prems", of e] by (auto simp: pump_effect_def)
  show ?case
    using "1.IH" [OF _ _ _ core] pass
    by (subst pump_loop.simps) (auto simp: Let_def split: nat.split)
qed

lemma session_keys_pump: "queue_wf q \<Longrightarrow> session_keys (pump e q) = session_keys q"
  using session_keys_pump_loop [of "q\<lparr>q_pumping := True, q_again := False\<rparr>" e "e_rounds e"]
  by (simp add: pump_not_pumping queue_wf_def session_keys_def)

lemma find_session_keys:
  "map (\<lambda>r. (t_id r, t_session r)) rows = map (\<lambda>r. (t_id r, t_session r)) rows' \<Longrightarrow>
   map_option t_id (find (\<lambda>r. t_session r = sid) rows) = map_option t_id (find (\<lambda>r. t_session r = sid) rows')"
proof (induction rows arbitrary: rows')
  case (Cons x xs)
  then show ?case by (cases rows') auto
qed simp

lemma worker_exited_twice:
  assumes wf: "queue_wf q"
  shows "worker_exited e' sid st' (worker_exited e sid st q) = worker_exited e sid st q"
proof (cases "by_session e q sid")
  case None
  then show ?thesis
    by (auto simp: worker_exited_def by_session_def split: if_splits)
next
  case (Some t)
  then obtain r where sid: "sid \<noteq> []" and r: "find (\<lambda>r. t_session r = sid) (q_rows q) = Some r" "t = from_row e r"
    by (auto simp: by_session_def split: if_splits)
  show ?thesis
  proof (cases "t_status t = Running")
    case False
    with Some r sid show ?thesis
      by (simp add: worker_exited_def by_session_def)
  next
    case True
    define t' where "t' = settled_task e st t"
    define q1 where "q1 = host_does (WorkerSettled (t_id t) (t_status t')) (save_task e t' q)"
    have eq: "worker_exited e sid st q = pump e q1"
      using Some True by (simp add: worker_exited_def t'_def q1_def Let_def)
    have ses: "t_session r = sid" using r(1) by (auto simp: find_Some_iff)
    have t': "t_id t' = t_id r" "t_session t' = sid" "t_status t' \<noteq> Running" "t_status t' \<noteq> Queued"
      using r ses by (auto simp: t'_def settled_task_def Let_def split: prod.split)
    have wf1: "queue_wf q1"
      unfolding q1_def using t' wf r(2)
      by (intro wf_inv.ok_host wf_inv.ok_save_session [OF wf Some]) (auto simp: t'_def wf_inv.settled_task_fields)
    have f1: "find (\<lambda>r. t_session r = sid) (q_rows q1) = Some (stored_task e t')"
      using find_upsert_session [of "q_rows q" sid r "stored_task e t'"] wf r(1) t'
      by (simp add: q1_def save_task_def queue_wf_def)
    have "map_option t_id (find (\<lambda>r. t_session r = sid) (q_rows (pump e q1))) = Some (t_id r)"
      using find_session_keys [of "q_rows (pump e q1)" "q_rows q1" sid] session_keys_pump [OF wf1, of e] f1 t'
      by (simp add: session_keys_def)
    then obtain x where x: "find (\<lambda>r. t_session r = sid) (q_rows (pump e q1)) = Some x" "t_id x = t_id r"
      by auto
    have wf2: "queue_wf (pump e q1)" by (rule queue_wf_pump [OF wf1])
    have "x \<in> set (q_rows (pump e q1))" using x(1) by (auto simp: find_Some_iff)
    then have "get_row (pump e q1) (t_id r) = Some x" using queue_wf_get_row [OF wf2] x(2) by metis
    moreover have "get_row q1 (t_id r) = Some (stored_task e t')" using t' by (simp add: q1_def)
    moreover have "pump_effect e q1 (pump e q1)" using pump_spec [OF wf1] by blast
    ultimately have "x = stored_task e t'"
      using t' by (elim pump_effect_row [of e q1 "pump e q1" "t_id r"]) auto
    with x(1) t'(3) sid have "worker_exited e' sid st' (pump e q1) = pump e q1"
      by (simp add: worker_exited_def by_session_def)
    then show ?thesis by (simp only: eq)
  qed
qed

section \<open>Waiting for a human\<close>

text \<open>Every wait has its own number, and is answered at most once.\<close>

definition waits_ok :: "queue \<Rightarrow> bool" where
  "waits_ok q \<longleftrightarrow>
     distinct (map fst (q_waiting q)) \<and> distinct (map snd (q_waiting q)) \<and> distinct (map fst (q_resolved q)) \<and>
     set (map snd (q_waiting q)) \<inter> set (map fst (q_resolved q)) = {} \<and>
     (\<forall>w \<in> set (map snd (q_waiting q)) \<union> set (map fst (q_resolved q)). w < q_waits q)"

definition same_waits :: "queue \<Rightarrow> queue \<Rightarrow> bool" where
  "same_waits q q' \<longleftrightarrow> q_waiting q' = q_waiting q \<and> q_waits q' = q_waits q \<and> q_resolved q' = q_resolved q"

lemma same_waits_refl [simp]: "same_waits q q"
  by (simp add: same_waits_def)

lemma same_waits_trans: "same_waits q1 q2 \<Longrightarrow> same_waits q2 q3 \<Longrightarrow> same_waits q1 q3"
  by (simp add: same_waits_def)

lemma same_waits_frame [simp]:
  "same_waits q (save_task e t q') = same_waits q q'" "same_waits q (host_does c q') = same_waits q q'"
  "same_waits q (start_begin e t q') = same_waits q q'" "same_waits q (set_meta k v q') = same_waits q q'"
  "same_waits q (q'\<lparr>q_pumping := a, q_again := b\<rparr>) = same_waits q q'"
  "same_waits (q\<lparr>q_pumping := a, q_again := b\<rparr>) q' = same_waits q q'"
  "same_waits q (q'\<lparr>q_again := b\<rparr>) = same_waits q q'" "same_waits q (q'\<lparr>q_pumping := a\<rparr>) = same_waits q q'"
  by (simp_all add: same_waits_def save_task_def host_does_def start_begin_def set_meta_def Let_def)

lemma same_waits_pump_rows: "same_waits q (pump_rows e slots busy rows q)"
proof (induction rows arbitrary: slots busy q)
  case (Cons r rows)
  have "same_waits q (pump_rows e s b rows (start_begin e t q))" for s b t
    using Cons.IH [of "start_begin e t q" s b] same_waits_trans [of q "start_begin e t q"] by simp
  with Cons.IH show ?case by (simp add: pump_rows.simps(2) Let_def)
qed simp

lemma same_waits_pump: "same_waits q0 q \<Longrightarrow> same_waits q0 (pump e q)"
proof -
  have "same_waits q (pump_loop e n q)" for n q
  proof (induction e n q rule: pump_loop.induct)
    case (1 e n q)
    have "same_waits q (pump_pass e q)" by (simp add: pump_pass_def same_waits_pump_rows)
    with "1.IH" show ?case
      by (subst pump_loop.simps) (auto simp: Let_def intro: same_waits_trans split: nat.split)
  qed
  from this [of "q\<lparr>q_pumping := True, q_again := False\<rparr>" "e_rounds e"]
  show "same_waits q0 (pump e q)" if "same_waits q0 q"
    using that by (auto simp: pump_def intro: same_waits_trans)
qed

lemma same_waits_make_tasks: "same_waits q (snd (make_tasks e existing made seq specs q))"
proof (induction specs arbitrary: made seq q)
  case (Cons s specs)
  have "same_waits q (snd (make_tasks e existing made' seq' specs (save_task e t q)))" for made' seq' t
    using Cons.IH [of "save_task e t q"] same_waits_trans [of q "save_task e t q"] by simp
  then show ?case by (simp add: Let_def)
qed simp

lemma same_waits_create: "same_waits q (fst (create e spec message q))"
proof -
  have "same_waits q (fst (create_specs e force specs q))" for force specs
    using same_waits_make_tasks [of q e "list_tasks e q" "[]" "next_seq q" specs]
    by (auto simp: create_specs_def Let_def split: option.split prod.split intro: same_waits_pump)
  then show ?thesis by (auto simp: create_def Let_def split: option.split)
qed

lemma same_waits_worker_exited: "same_waits q0 q \<Longrightarrow> same_waits q0 (worker_exited e sid st q)"
  by (auto simp: worker_exited_def Let_def split: option.split intro!: same_waits_pump)

lemma same_waits_recover: "same_waits q (recover e q)"
proof -
  have "same_waits q0 (fold (\<lambda>row q. save_task e (recovered_task e (from_row e row)) q) rows q)"
    if "same_waits q0 q" for q0 q rows
    using that by (induction rows arbitrary: q) auto
  then show ?thesis by (auto simp: recover_def intro: same_waits_pump)
qed

lemma waits_ok_same: "same_waits q q' \<Longrightarrow> waits_ok q' = waits_ok q"
  by (simp add: same_waits_def waits_ok_def)

lemma human_finish_effect:
  "map_of (q_waiting q) i \<noteq> Some w \<Longrightarrow> human_finish e i w how q = q"
  "map_of (q_waiting q) i = Some w \<Longrightarrow>
     same_waits (q\<lparr>q_waiting := filter (\<lambda>p. fst p \<noteq> i) (q_waiting q), q_resolved := q_resolved q @ [(w, how)]\<rparr>)
       (human_finish e i w how q)"
  by (auto simp: human_finish_def Let_def same_waits_def save_task_def split: option.split)

lemma distinct_map_filter_fst: "distinct (map f xs) \<Longrightarrow> distinct (map f (filter P xs))"
  by (simp add: distinct_map_filter)

lemma waits_ok_finish:
  assumes "waits_ok q"
  shows "waits_ok (human_finish e i w how q)"
proof (cases "map_of (q_waiting q) i = Some w")
  case True
  then have mem: "(i, w) \<in> set (q_waiting q)" by (rule map_of_SomeD)
  have gone: "(j, w) \<notin> set (filter (\<lambda>p. fst p \<noteq> i) (q_waiting q))" for j
  proof
    assume "(j, w) \<in> set (filter (\<lambda>p. fst p \<noteq> i) (q_waiting q))"
    moreover have "inj_on snd (set (q_waiting q))"
      using assms by (simp add: waits_ok_def distinct_map)
    ultimately have "j = i" using mem inj_onD [of snd "set (q_waiting q)" "(i, w)" "(j, w)"] by simp
    with \<open>(j, w) \<in> set (filter (\<lambda>p. fst p \<noteq> i) (q_waiting q))\<close> show False by simp
  qed
  have "waits_ok (q\<lparr>q_waiting := filter (\<lambda>p. fst p \<noteq> i) (q_waiting q), q_resolved := q_resolved q @ [(w, how)]\<rparr>)"
  proof -
    have "w \<notin> snd ` {p \<in> set (q_waiting q). fst p \<noteq> i}" using gone by auto
    moreover have "w \<in> snd ` set (q_waiting q)" using mem by (rule image_eqI [rotated]) simp
    ultimately show ?thesis
      using assms unfolding waits_ok_def by (simp add: distinct_map_filter_fst) blast
  qed
  with waits_ok_same [OF human_finish_effect(2) [OF True]] show ?thesis by blast
qed (simp add: human_finish_effect(1) assms)

lemma waits_ok_human_done:
  assumes "waits_ok q"
  shows "waits_ok (fst (human_done e i seconds q))"
proof -
  have "waits_ok (q\<lparr>q_waiting := (i, q_waits q) # filter (\<lambda>p. fst p \<noteq> i) (q_waiting q), q_waits := Suc (q_waits q)\<rparr>)"
  proof -
    have "snd p < q_waits q" if "p \<in> set (q_waiting q)" for p
      using assms that by (auto simp: waits_ok_def)
    moreover have "fst p < q_waits q" if "p \<in> set (q_resolved q)" for p
      using assms that by (auto simp: waits_ok_def)
    ultimately have "q_waits q \<notin> snd ` set (q_waiting q)" "q_waits q \<notin> fst ` set (q_resolved q)"
      by (metis imageE less_irrefl)+
    with assms show ?thesis
      by (auto simp: waits_ok_def distinct_map_filter_fst less_Suc_eq image_iff)
  qed
  then show ?thesis by (simp add: human_done_def Let_def waits_ok_finish)
qed

lemma waits_ok_resolve_human: "waits_ok q \<Longrightarrow> waits_ok (fst (resolve_human e i q))"
proof -
  have "waits_ok (save_task e t q) = waits_ok q" for e t q
    by (rule waits_ok_same) simp
  then show "waits_ok q \<Longrightarrow> waits_ok (fst (resolve_human e i q))"
    by (auto simp: resolve_human_def Let_def waits_ok_finish split: option.split)
qed

text \<open>The events that answer or register a wait.\<close>

fun human_event :: "queue_event \<Rightarrow> bool" where
  "human_event (EvHumanDone i seconds) = True"
| "human_event (EvHumanFinish i w how) = True"
| "human_event (EvResolveHuman i) = True"
| "human_event _ = False"

lemma same_waits_handle:
  assumes "\<not> human_event ev"
  shows "same_waits q (handle e ev q)"
proof (cases ev)
  case (EvStartSettled i sid failure)
  have "same_waits q (start_settle e i sid failure q)"
    by (auto simp: start_settle_def Let_def split: option.split intro!: same_waits_pump same_waits_worker_exited)
  with EvStartSettled show ?thesis by simp
qed (use assms in \<open>auto simp: same_waits_create same_waits_worker_exited same_waits_recover resize_def
      redirect_def cancel_def session_gone_def set_model_def ask_human_def update_card_def notify_def requeue_def Let_def
      split: option.split intro!: same_waits_pump\<close>)

lemma waits_ok_handle:
  assumes "waits_ok q"
  shows "waits_ok (handle e ev q)"
proof (cases "human_event ev")
  case True
  with assms show ?thesis
    by (cases ev) (auto simp: waits_ok_human_done waits_ok_finish waits_ok_resolve_human)
next
  case False
  with waits_ok_same [OF same_waits_handle] assms show ?thesis by blast
qed

lemma waits_ok_reach: "queue_reach env_ok q \<Longrightarrow> waits_ok q"
proof (induction rule: queue_reach.induct)
  case reach_empty
  show ?case by (simp add: waits_ok_def empty_queue_def)
qed (rule waits_ok_handle)

text \<open>A wait that is neither registered nor answered stays unanswered.\<close>

definition wait_lost :: "nat \<Rightarrow> queue \<Rightarrow> bool" where
  "wait_lost w q \<longleftrightarrow> w < q_waits q \<and> w \<notin> set (map snd (q_waiting q)) \<and> w \<notin> set (map fst (q_resolved q))"

lemma wait_lost_same: "same_waits q q' \<Longrightarrow> wait_lost w q' = wait_lost w q"
  by (simp add: same_waits_def wait_lost_def)

lemma wait_lost_finish:
  assumes "wait_lost w q"
  shows "wait_lost w (human_finish e i w' how q)"
proof (cases "map_of (q_waiting q) i = Some w'")
  case True
  then have "(i, w') \<in> set (q_waiting q)" by (rule map_of_SomeD)
  with assms have "wait_lost w (q\<lparr>q_waiting := filter (\<lambda>p. fst p \<noteq> i) (q_waiting q), q_resolved := q_resolved q @ [(w', how)]\<rparr>)"
    by (force simp: wait_lost_def)
  with wait_lost_same [OF human_finish_effect(2) [OF True]] show ?thesis by blast
qed (simp add: human_finish_effect(1) assms)

lemma wait_lost_handle:
  assumes "wait_lost w q"
  shows "wait_lost w (handle e ev q)"
proof (cases "human_event ev")
  case True
  have reg: "wait_lost w (q\<lparr>q_waiting := (i, q_waits q) # filter (\<lambda>p. fst p \<noteq> i) (q_waiting q), q_waits := Suc (q_waits q)\<rparr>)" for i
    using assms by (force simp: wait_lost_def)
  have save: "wait_lost w (save_task e t q') = wait_lost w q'" for t q'
    by (rule wait_lost_same) simp
  show ?thesis
    using True assms reg
    by (cases ev) (auto simp: human_done_def resolve_human_def Let_def wait_lost_finish save split: option.split)
next
  case False
  with wait_lost_same [OF same_waits_handle] assms show ?thesis by blast
qed

lemma wait_lost_run: "wait_lost w q \<Longrightarrow> wait_lost w (run_events evs q)"
  by (induction evs q rule: run_events.induct) (auto intro: wait_lost_handle)

section \<open>Starts\<close>

interpretation attempts: queue_property "\<lambda>_. True"
    "\<lambda>q. queue_wf q \<and> (\<forall>i r. get_row q i = Some r \<and> t_status r = Running \<longrightarrow> 0 < t_attempts r)"
proof
  show "queue_wf (pump e q) \<and> (\<forall>i r. get_row (pump e q) i = Some r \<and> t_status r = Running \<longrightarrow> 0 < t_attempts r)"
    if ok: "queue_wf q \<and> (\<forall>i r. get_row q i = Some r \<and> t_status r = Running \<longrightarrow> 0 < t_attempts r)" for e q
  proof -
    have eff: "pump_effect e q (pump e q)" using ok pump_spec by blast
    have "0 < t_attempts r" if "get_row (pump e q) i = Some r" "t_status r = Running" for i r
      using that ok by (cases rule: pump_effect_row [OF eff, of i]) auto
    with ok queue_wf_pump show ?thesis by blast
  qed
  show "queue_wf (save_task e t q) \<and> (\<forall>i r. get_row (save_task e t q) i = Some r \<and> t_status r = Running \<longrightarrow> 0 < t_attempts r)"
    if ok: "queue_wf q \<and> (\<forall>i r. get_row q i = Some r \<and> t_status r = Running \<longrightarrow> 0 < t_attempts r)" and "tame q t" for e t q
    using that wf_inv.ok_tame [of q t e] by (auto simp: tame_def)
  show "queue_wf (save_task e t q) \<and> (\<forall>i r. get_row (save_task e t q) i = Some r \<and> t_status r = Running \<longrightarrow> 0 < t_attempts r)"
    if ok: "queue_wf q \<and> (\<forall>i r. get_row q i = Some r \<and> t_status r = Running \<longrightarrow> 0 < t_attempts r)" and "fresh_task q t" for e t q
    using that wf_inv.ok_fresh [of q t e] by (auto simp: fresh_task_def)
qed (auto simp: same_rows_def queue_wf_def empty_queue_def get_row_def)

text \<open>What a start promises about the call it makes, for the row \<open>r\<close> it starts.\<close>

definition delivers :: "queue_task \<Rightarrow> host_call \<Rightarrow> bool" where
  "delivers r c \<longleftrightarrow>
     (case c of
        StartWorker i brief \<Rightarrow>
          i = t_id r \<and> (t_session r = [] \<or> t_attempts r = 0) \<and> prefix (t_prompt r) brief \<and>
          list_all (\<lambda>m. sublist m brief) (t_redirects r)
      | ContinueWorker sid text \<Rightarrow>
          sid = t_session r \<and> sid \<noteq> [] \<and>
          list_all (\<lambda>m. sublist (redirect_mark @ m) text) (drop (t_redirectsSeen r) (t_redirects r))
      | _ \<Rightarrow> False)"

lemma start_call_delivers_row: "delivers r (start_call (from_row e r))"
  using start_call_delivers [of "from_row e r"] start_brief_contains(1) [of "from_row e r"]
    start_brief_contains(2) [where t = "from_row e r"] resume_message_contains
  by (cases "t_session r = [] \<or> t_attempts r = 0") (auto simp: delivers_def list_all_iff)

lemma started_delivers:
  assumes wf: "queue_wf q" and r: "get_row q i = Some r" "t_status r = Queued"
    and r': "get_row (pump e q) i = Some r'" "t_status r' = Running"
  shows "\<exists>c \<in> set (drop (length (q_calls q)) (q_calls (pump e q))). delivers r c"
    and "t_redirectsSeen r' = length (t_redirects r)" "t_attempts r' = Suc (t_attempts r)"
proof -
  have eff: "pump_effect e q (pump e q)" using pump_spec [OF wf] by blast
  have i: "t_id r = i" using r(1) by (auto dest: get_row_SomeD)
  have new: "get_row (pump e q) i = Some (stored_task e (started_task e (from_row e r)))"
    using r r' by (cases rule: pump_effect_row [OF eff, of i]) auto
  with r' show "t_redirectsSeen r' = length (t_redirects r)" "t_attempts r' = Suc (t_attempts r)" by auto
  have "startable q r" "\<not> left_behind q (pump e q) r"
    using r new i by (auto simp: startable_def left_behind_def)
  then obtain cs where "q_calls (pump e q) = q_calls q @ cs" "start_call (from_row e r) \<in> set cs"
    using pump_calls [OF wf, of e] unfolding starts_called_def by blast
  then show "\<exists>c \<in> set (drop (length (q_calls q)) (q_calls (pump e q))). delivers r c"
    using start_call_delivers_row by (intro bexI [of _ "start_call (from_row e r)"]) auto
qed

lemma recover_fold_row:
  assumes "distinct (map t_id rows)" "r \<in> set rows"
  shows "get_row (fold (\<lambda>row q. save_task e (recovered_task e (from_row e row)) q) rows q) (t_id r) =
    Some (stored_task e (recovered_task e (from_row e r)))"
proof -
  let ?f = "\<lambda>row. recovered_task e (from_row e row)"
  have id: "t_id (?f x) = t_id x" for x by (simp add: recovered_task_def)
  have "get_row (fold (\<lambda>t q. save_task e t q) (map ?f rows) q) (t_id (?f r)) = Some (stored_task e (?f r))"
    using assms by (intro task_store.fold_put_mem) (simp_all add: comp_def id)
  then show ?thesis by (simp add: fold_map comp_def id)
qed

lemma recover_fold_calls:
  "q_calls (fold (\<lambda>row q. save_task e (recovered_task e (from_row e row)) q) rows q) = q_calls q"
  by (induction rows arbitrary: q) auto

lemma recover_row:
  assumes wf: "queue_wf q" and r: "get_row q i = Some r" "t_status r = Running" "t_session r \<noteq> []" "0 < t_attempts r"
  shows "\<exists>r'. get_row (recover e q) i = Some r' \<and>
    (t_status r' = Queued \<and> t_redirectsSeen r' = min (t_redirectsSeen r) (t_redirectsAtStart r) \<or>
     t_status r' = Running \<and>
     (\<exists>text. ContinueWorker (t_session r) text \<in> set (drop (length (q_calls q)) (q_calls (recover e q))) \<and>
       list_all (\<lambda>m. sublist (redirect_mark @ m) text)
         (drop (min (t_redirectsSeen r) (t_redirectsAtStart r)) (t_redirects r))))"
proof -
  let ?run = "filter (\<lambda>r. t_status r = Running) (q_rows q)"
  define q1 where "q1 = fold (\<lambda>row q. save_task e (recovered_task e (from_row e row)) q) ?run q"
  define r1 where "r1 = stored_task e (recovered_task e (from_row e r))"
  have eq: "recover e q = pump e q1" by (simp add: recover_def q1_def)
  have u: "unique_keys t_id (q_rows q)" using wf by (simp add: queue_wf_def)
  then have d: "distinct (map t_id ?run)" by (simp add: unique_keys_def distinct_map_filter)
  have wf1: "queue_wf q1"
    unfolding q1_def using u d by (intro wf_inv.ok_recover_fold wf) (auto simp: get_row_iff)
  have i: "t_id r = i" "r \<in> set ?run" using r(1,2) by (auto dest: get_row_SomeD)
  have row1: "get_row q1 i = Some r1"
    using recover_fold_row [OF d i(2), of e q] i(1) by (simp add: q1_def r1_def)
  have f1: "t_status r1 = Queued" "t_session r1 = t_session r" "t_attempts r1 = t_attempts r"
    "t_redirects r1 = t_redirects r" "t_redirectsSeen r1 = min (t_redirectsSeen r) (t_redirectsAtStart r)"
    by (simp_all add: r1_def recovered_task_def)
  have calls: "q_calls q1 = q_calls q" by (simp add: q1_def recover_fold_calls)
  have eff: "pump_effect e q1 (pump e q1)" using pump_spec [OF wf1] by blast
  obtain r' where r': "get_row (pump e q1) i = Some r'" "r' = r1 \<or> t_status r' = Running"
    using row1 by (cases rule: pump_effect_row [OF eff, of i]) auto
  show ?thesis
  proof (cases "t_status r' = Running")
    case True
    from started_delivers(1) [OF wf1 row1 f1(1) r'(1) True]
    obtain c where "c \<in> set (drop (length (q_calls q)) (q_calls (pump e q1)))" "delivers r1 c"
      by (auto simp: calls)
    with r(3,4) f1 r'(1) True show ?thesis
      by (auto simp: eq delivers_def split: host_call.splits)
  next
    case False
    with r' f1 show ?thesis by (auto simp: eq)
  qed
qed

section \<open>Creating\<close>

lemma make_tasks_rows:
  assumes "queue_wf q" "seq = next_seq q"
  shows "\<exists>new. fst (make_tasks e existing made seq specs q) = made @ new \<and>
    map t_seq new = [seq..<seq + length specs] \<and>
    (\<forall>t \<in> set new. t_id t = CHR ''t'' # show_nat (t_seq t) \<and> t_status t = Queued \<and> get_row q (t_id t) = None \<and>
       get_row (snd (make_tasks e existing made seq specs q)) (t_id t) = Some (stored_task e t))"
  using assms
proof (induction e existing made seq specs q rule: make_tasks.induct)
  case (1 e existing made seq q)
  then show ?case by simp
next
  case (2 e existing made seq s ss q)
  define t where "t = new_task e seq (map (\<lambda>(t, sc). (t_id t, sc))
    (take 5 (related_to (query_of s) (existing @ made)))) s"
  have fields: "t_id t = CHR ''t'' # show_nat (t_seq t)" "t_seq t = seq" "t_status t = Queued"
    by (simp_all add: t_def new_task_def)
  have fresh: "fresh_task q t"
    using 2 by (simp add: fresh_task_def new_task_def t_def)
  have "t_id t \<notin> t_id ` set (q_rows q)"
    using queue_wf_new_id [of q t] 2 fields by simp
  then have none: "get_row q (t_id t) = None" by (simp add: get_row_def row_of_None_iff)
  have step: "make_tasks e existing made seq (s # ss) q =
      make_tasks e existing (made @ [t]) (Suc seq) ss (save_task e t q)"
    by (simp add: t_def Let_def)
  note wf1 = wf_inv.ok_fresh [OF "2.prems"(1) fresh, of e]
  note seq1 = wf_inv.next_seq_save [OF "2.prems"(1) fresh, of e]
  obtain new where new: "fst (make_tasks e existing (made @ [t]) (Suc seq) ss (save_task e t q)) = (made @ [t]) @ new"
    "map t_seq new = [Suc seq..<Suc seq + length ss]"
    "\<forall>u \<in> set new. t_id u = CHR ''t'' # show_nat (t_seq u) \<and> t_status u = Queued \<and> get_row (save_task e t q) (t_id u) = None \<and>
       get_row (snd (make_tasks e existing (made @ [t]) (Suc seq) ss (save_task e t q))) (t_id u) = Some (stored_task e u)"
    using "2.IH" [OF refl t_def wf1] seq1 "2.prems" by auto
  have kept: "get_row (snd (make_tasks e existing (made @ [t]) (Suc seq) ss (save_task e t q))) (t_id t) = Some (stored_task e t)"
    using seq1 "2.prems" by (intro make_tasks_keeps_row [OF wf1]) auto
  have "map t_seq (t # new) = [seq..<seq + length (s # ss)]"
    using new(2) fields(2) upt_conv_Cons [of seq "seq + length (s # ss)"] by (simp del: upt_Suc)
  moreover have "get_row q (t_id u) = None" if "u \<in> set new" for u
    using new(3) that by (auto split: if_splits)
  ultimately show ?case
    unfolding step using new(1,3) kept none fields
    by (intro exI [of _ "t # new"]) auto
qed

lemma create_CreatedD:
  assumes "create e spec message q = (q', Created made text)"
  obtains raw specs where "raw = (let l = arr_or_nil (js_field ''tasks'' spec) in if l \<noteq> [] then l else [spec])"
    "specs = map (spec_of e (length raw) (length raw = 1 \<and> js_trim message \<noteq> []) message) raw"
    "spec_refusal e raw specs = None"
    "made = fst (make_tasks e (list_tasks e q) [] (next_seq q) specs q)"
    "q' = pump e (snd (make_tasks e (list_tasks e q) [] (next_seq q) specs q))"
  using assms
  by (auto simp: create_def create_specs_def Let_def split: if_splits option.splits prod.splits)

lemma related_window_subset: "set (related_window among) \<subseteq> set among"
  by (auto simp: related_window_def Let_def dest: in_set_takeD)

lemma related_to_set: "(t, sc) \<in> set (related_to text among) \<Longrightarrow> t \<in> set among"
  using related_window_subset [of among]
  by (auto simp: related_to_def Let_def split: if_splits dest: set_zip_leftD)

lemma make_tasks_fields:
  "\<exists>new. fst (make_tasks e existing made seq specs q) = made @ new \<and>
    map (\<lambda>t. (t_title t, t_prompt t, t_cwd t)) new = map (\<lambda>s. (s_title s, s_prompt s, s_cwd s)) specs"
proof (induction specs arbitrary: made seq q)
  case (Cons s specs)
  define t where "t = new_task e seq (map (\<lambda>(t, sc). (t_id t, sc))
    (take 5 (related_to (query_of s) (existing @ made)))) s"
  obtain new where "fst (make_tasks e existing (made @ [t]) (Suc seq) specs (save_task e t q)) = (made @ [t]) @ new"
    "map (\<lambda>t. (t_title t, t_prompt t, t_cwd t)) new = map (\<lambda>s. (s_title s, s_prompt s, s_cwd s)) specs"
    using Cons.IH by blast
  then show ?case
    by (intro exI [of _ "t # new"]) (simp add: t_def new_task_def Let_def)
qed simp

lemma spec_refusal_NoneD:
  assumes "spec_refusal e raw specs = None"
  shows "s \<in> set specs \<Longrightarrow> s_prompt s \<noteq> [] \<and> s_title s \<noteq> []" "length specs \<le> 100 \<or> length specs \<le> 1"
    "1 < length specs \<Longrightarrow> list_all s_disjoint specs \<Longrightarrow> first_overlap (fs_home (e_fs e)) 0 specs = None"
proof -
  have "find (\<lambda>i. s_prompt (specs ! i) = [] \<or> s_title (specs ! i) = []) [0..<length specs] = None"
    using assms by (auto simp: spec_refusal_def split: option.splits)
  then have "\<forall>i < length specs. s_prompt (specs ! i) \<noteq> [] \<and> s_title (specs ! i) \<noteq> []"
    by (auto simp: find_None_iff)
  then show "s \<in> set specs \<Longrightarrow> s_prompt s \<noteq> [] \<and> s_title s \<noteq> []" by (auto simp: in_set_conv_nth)
  show "length specs \<le> 100 \<or> length specs \<le> 1"
    using assms by (auto simp: spec_refusal_def split: option.splits if_splits)
  show "1 < length specs \<Longrightarrow> list_all s_disjoint specs \<Longrightarrow> first_overlap (fs_home (e_fs e)) 0 specs = None"
    using assms by (auto simp: spec_refusal_def split: option.splits if_splits)
qed

lemma created_disjoint:
  assumes c: "create e spec message q = (q', Created made text)"
    and all: "list_all (\<lambda>s. js_field ''allow_overlap'' s = JBool False) (arr_or_nil (js_field ''tasks'' spec))"
    and ij: "i < j" "j < length made"
  shows "\<not> overlaps (fs_home (e_fs e)) (t_cwd (made ! i)) (t_cwd (made ! j))"
proof -
  obtain raw specs where raw: "raw = (let l = arr_or_nil (js_field ''tasks'' spec) in if l \<noteq> [] then l else [spec])"
    and specs: "specs = map (spec_of e (length raw) (length raw = 1 \<and> js_trim message \<noteq> []) message) raw"
    and none: "spec_refusal e raw specs = None"
    and made: "made = fst (make_tasks e (list_tasks e q) [] (next_seq q) specs q)"
    using c by (rule create_CreatedD)
  from make_tasks_fields [of e "list_tasks e q" "[]" "next_seq q" specs q]
  have "map (\<lambda>t. (t_title t, t_prompt t, t_cwd t)) made = map (\<lambda>s. (s_title s, s_prompt s, s_cwd s)) specs"
    by (auto simp: made)
  then have "map (snd \<circ> snd) (map (\<lambda>t. (t_title t, t_prompt t, t_cwd t)) made) =
      map (snd \<circ> snd) (map (\<lambda>s. (s_title s, s_prompt s, s_cwd s)) specs)" by simp
  then have cwds: "map t_cwd made = map s_cwd specs" by (simp add: comp_def)
  then have len: "length specs = length made" by (metis length_map)
  have "arr_or_nil (js_field ''tasks'' spec) \<noteq> []"
    using ij len by (auto simp: specs raw Let_def split: if_splits)
  with all have "list_all s_disjoint specs"
    by (auto simp: specs raw Let_def list_all_iff spec_of_def)
  with spec_refusal_NoneD(3) [OF none] ij len have "first_overlap (fs_home (e_fs e)) 0 specs = None" by simp
  from first_overlap_NoneD [OF this ij(1)] ij len cwds show ?thesis
    by (metis nth_map order_less_trans)
qed

lemma created_rows:
  assumes c: "create e spec message q = (q', Created made text)" and wf: "queue_wf q"
  shows "map t_seq made = [next_seq q..<next_seq q + length made]"
    and "1 \<le> length made \<and> length made \<le> 100"
    and "t \<in> set made \<Longrightarrow> t_id t = CHR ''t'' # show_nat (t_seq t) \<and> t_title t \<noteq> [] \<and> t_prompt t \<noteq> [] \<and>
      get_row q (t_id t) = None \<and>
      (\<exists>r. get_row q' (t_id t) = Some r \<and> t_prompt r = t_prompt t \<and> (t_status r = Queued \<or> t_status r = Running))"
    and "get_row q i = Some r \<Longrightarrow>
      get_row q' i = Some r \<or> t_status r = Queued \<and> (\<exists>r'. get_row q' i = Some r' \<and> t_status r' = Running)"
proof -
  obtain raw specs where raw: "raw = (let l = arr_or_nil (js_field ''tasks'' spec) in if l \<noteq> [] then l else [spec])"
    and specs: "specs = map (spec_of e (length raw) (length raw = 1 \<and> js_trim message \<noteq> []) message) raw"
    and none: "spec_refusal e raw specs = None"
    and made: "made = fst (make_tasks e (list_tasks e q) [] (next_seq q) specs q)"
    and q': "q' = pump e (snd (make_tasks e (list_tasks e q) [] (next_seq q) specs q))"
    using c by (rule create_CreatedD)
  let ?q1 = "snd (make_tasks e (list_tasks e q) [] (next_seq q) specs q)"
  have wf1: "queue_wf ?q1" by (rule wf_inv.ok_make_tasks [OF wf refl])
  have eff: "pump_effect e ?q1 q'" using pump_spec [OF wf1] q' by blast
  obtain new0 where new0: "made = [] @ new0"
    "map (\<lambda>t. (t_title t, t_prompt t, t_cwd t)) new0 = map (\<lambda>s. (s_title s, s_prompt s, s_cwd s)) specs"
    using make_tasks_fields [of e "list_tasks e q" "[]" "next_seq q" specs q] unfolding made by blast
  then have fields: "map (\<lambda>t. (t_title t, t_prompt t, t_cwd t)) made = map (\<lambda>s. (s_title s, s_prompt s, s_cwd s)) specs"
    by simp
  have len: "length made = length specs" using fields by (rule map_eq_imp_length_eq)
  obtain new where new: "made = [] @ new" "map t_seq new = [next_seq q..<next_seq q + length specs]"
    "\<forall>t \<in> set new. t_id t = CHR ''t'' # show_nat (t_seq t) \<and> t_status t = Queued \<and> get_row q (t_id t) = None \<and>
       get_row ?q1 (t_id t) = Some (stored_task e t)"
    using make_tasks_rows [OF wf refl, of e "list_tasks e q" "[]" specs] unfolding made by blast
  have mn: "made = new" using new(1) by simp
  have seqs: "map t_seq made = [next_seq q..<next_seq q + length specs]"
    and rows: "\<And>t. t \<in> set made \<Longrightarrow> t_id t = CHR ''t'' # show_nat (t_seq t) \<and> t_status t = Queued \<and>
      get_row q (t_id t) = None \<and> get_row ?q1 (t_id t) = Some (stored_task e t)"
    using new(2,3) unfolding mn by blast+
  show "map t_seq made = [next_seq q..<next_seq q + length made]" using seqs len by simp
  have "1 \<le> length specs" by (simp add: specs raw Let_def Suc_le_eq)
  with spec_refusal_NoneD(2) [OF none] len show "1 \<le> length made \<and> length made \<le> 100" by auto
  show "t_id t = CHR ''t'' # show_nat (t_seq t) \<and> t_title t \<noteq> [] \<and> t_prompt t \<noteq> [] \<and>
      get_row q (t_id t) = None \<and>
      (\<exists>r. get_row q' (t_id t) = Some r \<and> t_prompt r = t_prompt t \<and> (t_status r = Queued \<or> t_status r = Running))"
    if t: "t \<in> set made" for t
  proof -
    obtain k where k: "k < length made" "made ! k = t" using t by (auto simp: in_set_conv_nth)
    have "(t_title t, t_prompt t, t_cwd t) = (s_title (specs ! k), s_prompt (specs ! k), s_cwd (specs ! k))"
      using arg_cong [OF fields, of "\<lambda>xs. xs ! k"] k len by simp
    moreover have "specs ! k \<in> set specs" using k len by simp
    ultimately have "t_title t \<noteq> []" "t_prompt t \<noteq> []" using spec_refusal_NoneD(1) [OF none] by auto
    moreover have "\<exists>r. get_row q' (t_id t) = Some r \<and> t_prompt r = t_prompt t \<and> (t_status r = Queued \<or> t_status r = Running)"
      using rows [OF t] by (cases rule: pump_effect_row [OF eff, of "t_id t"]) (auto simp: stored_task_def started_task_def)
    ultimately show ?thesis using rows [OF t] by blast
  qed
  show "get_row q' i = Some r \<or> t_status r = Queued \<and> (\<exists>r'. get_row q' i = Some r' \<and> t_status r' = Running)"
    if r: "get_row q i = Some r" for i r
    using make_tasks_keeps_row [OF wf refl r, of e "list_tasks e q" "[]" specs]
    by (cases rule: pump_effect_row [OF eff, of i]) auto
qed

lemma create_specs_duplicate:
  assumes "s \<in> set specs" "u \<in> set (list_tasks e q)" "active_task u" "terms (query_of s) \<noteq> []"
    and "mset (terms (query_of s)) = mset (terms (doc_of u))"
  shows "fst (create_specs e False specs q) = q \<and>
    (\<exists>text t. snd (create_specs e False specs q) = Refused text (Some (t_id t)) \<and> t \<in> set (list_tasks e q) \<and> active_task t)"
proof -
  obtain s' t sc where hit: "duplicate_hit (filter active_task (list_tasks e q)) specs = Some (s', t, sc)"
    using duplicate_hit_found [OF assms(1) _ assms(3-5), of "filter active_task (list_tasks e q)"] assms(2,3) by auto
  then obtain rest where "related_to (query_of s') (filter active_task (list_tasks e q)) = (t, sc) # rest"
    using duplicate_hit_SomeD by blast
  then have "(t, sc) \<in> set (related_to (query_of s') (filter active_task (list_tasks e q)))" by simp
  then have "t \<in> set (filter active_task (list_tasks e q))" by (rule related_to_set)
  with hit show ?thesis by (auto simp: create_specs_def Let_def)
qed

lemma redirect_starting_row:
  assumes wf: "queue_wf q" and r: "get_row q (js_trim i) = Some r" "t_status r = Running" "t_session r = []"
    and msg: "clean message 8000 \<noteq> []"
  shows "\<exists>r'. get_row (fst (redirect e i message q)) (js_trim i) = Some r' \<and>
    (t_status r' = Queued \<or>
     t_status r' = Running \<and>
     (\<exists>brief. StartWorker (js_trim i) brief \<in> set (drop (length (q_calls q)) (q_calls (fst (redirect e i message q))))))"
proof -
  define t1 where "t1 = (from_row e r)\<lparr>t_redirects := t_redirects r @ [clean message 8000],
    t_notes := t_notes r @ [\<lparr>n_at = e_now e, n_from = FromDispatcher,
      n_text = ''redirected: '' @ slice_to 300 (clean message 8000)\<rparr>], t_status := Queued, t_finished := 0\<rparr>"
  define q1 where "q1 = save_task e t1 q"
  have get: "get_task e q (js_trim i) = Some (from_row e r)" using r(1) by (simp add: get_task_def)
  have wf1: "queue_wf q1" unfolding q1_def t1_def by (rule wf_inv.ok_save_get [OF wf get]) auto
  have eq: "fst (redirect e i message q) = pump e q1"
    using get r msg by (simp add: redirect_def Let_def q1_def t1_def)
  have id: "t_id t1 = js_trim i" using r(1) by (auto simp: t1_def dest: get_row_SomeD)
  have row1: "get_row q1 (js_trim i) = Some (stored_task e t1)" "t_status (stored_task e t1) = Queued"
    "t_session (stored_task e t1) = []"
    by (simp_all add: q1_def id) (simp_all add: t1_def r)
  have calls: "q_calls q1 = q_calls q" by (simp add: q1_def)
  have eff: "pump_effect e q1 (pump e q1)" using pump_spec [OF wf1] by blast
  obtain r' where r': "get_row (pump e q1) (js_trim i) = Some r'" "t_status r' = Queued \<or> t_status r' = Running"
    using row1 by (cases rule: pump_effect_row [OF eff, of "js_trim i"]) auto
  show ?thesis
  proof (cases "t_status r' = Running")
    case True
    from started_delivers(1) [OF wf1 row1(1,2) r'(1) True]
    obtain c where "c \<in> set (drop (length (q_calls q)) (q_calls (pump e q1)))" "delivers (stored_task e t1) c"
      by (auto simp: calls)
    with row1(3) id r'(1) True show ?thesis
      by (cases c rule: host_call.exhaust) (auto simp: eq delivers_def)
  next
    case False
    with r' show ?thesis by (simp add: eq)
  qed
qed

end
