(* ===== verification/WorkQueueClaims.thy ===== *)
theory WorkQueueClaims
  imports WorkQueueLive
begin

text \<open>
  The properties of the work queue (src/web/workQueue.ts), each with a concrete run that shows its
  hypotheses can hold.  The runs use the settings \<open>ex_env\<close> and calls of \<open>task_create\<close> whose texts are
  short, so that they evaluate.
\<close>

section \<open>Runs\<close>

definition ex_env :: "int \<Rightarrow> queue_env" where
  "ex_env n = \<lparr>e_now = 1000, e_concurrency = n, e_exclusive = True, e_model = ''m'',
     e_default_cwd = ''/h'', e_fs = \<lparr>fs_home = ''/h'', fs_cwd = ''/h'', fs_is_dir = \<lambda>_. True\<rparr>,
     e_running = (\<lambda>_. True), e_result = (\<lambda>_. (''ok'', True)), e_rounds = 1\<rparr>"

definition ex_task :: "string \<Rightarrow> js" where
  "ex_task dir = JObj [(''title'', JStr ''a''), (''prompt'', JStr ''b''), (''cwd'', JStr dir)]"

definition ex_create :: queue_event where
  "ex_create = EvCreate (JObj [(''tasks'', JArr [ex_task ''/w'', ex_task ''/w/x'', ex_task ''/v''])]) []"

definition ex_queue :: queue where
  "ex_queue = run_events [(ex_env 2, ex_create)] empty_queue"

lemma ex_queue_reach: "env_ok (ex_env 2) \<Longrightarrow> queue_reach env_ok ex_queue"
  unfolding ex_queue_def by (intro queue_reach_run reach_empty) simp

lemma ex_queue_running: "count_status ex_queue Running = 2"
  by code_simp

lemma ex_queue_rows:
  "map_option (\<lambda>r. (t_cwd r, t_status r)) (get_row ex_queue ''t1'') = Some (''/w'', Running)"
  "map_option (\<lambda>r. (t_cwd r, t_status r)) (get_row ex_queue ''t3'') = Some (''/v'', Running)"
  by code_simp+

text \<open>The same call with one slot, and its worker's session.\<close>

definition ex_stopped :: queue where
  "ex_stopped = run_events [(ex_env 1, ex_create), (ex_env 1, EvStartSettled ''t1'' ''s1'' [])] empty_queue"

lemma ex_stopped_reach: "env_ok (ex_env 1) \<Longrightarrow> queue_reach env_ok ex_stopped"
  unfolding ex_stopped_def by (intro queue_reach_run reach_empty) simp

lemma ex_stopped_rows:
  "map_option (\<lambda>r. (t_cwd r, t_status r, t_seq r)) (get_row ex_stopped ''t2'') = Some (''/w/x'', Queued, 2)"
  "map_option (\<lambda>r. (t_status r, t_seq r)) (get_row ex_stopped ''t3'') = Some (Queued, 3)"
  "get_row (pump (ex_env 2) ex_stopped) ''t2'' = get_row ex_stopped ''t2''"
  "map_option t_status (get_row (pump (ex_env 2) ex_stopped) ''t3'') = Some Running"
  by code_simp+

lemma ex_stopped_started: "get_row (pump (ex_env 2) ex_stopped) ''t3'' \<noteq> get_row ex_stopped ''t3''"
  using ex_stopped_rows(2,4) by auto

definition ex_done :: queue where
  "ex_done = worker_exited (ex_env 1) ''s1'' ExitDone ex_stopped"

lemma ex_done_reach: "queue_reach (\<lambda>_. True) ex_done"
  using reach_step [of "\<lambda>_. True" ex_stopped "ex_env 1" "EvExited ''s1'' ExitDone"] ex_stopped_reach
  by (simp add: ex_done_def)

lemma ex_done_row:
  "map_option (\<lambda>r. (t_status r, t_result r)) (get_row ex_done ''t1'') = Some (TaskDone, ''ok'')"
  by code_simp

definition ex_redirected :: queue where
  "ex_redirected = handle (ex_env 1) (EvRedirect ''t3'' (JStr ''use x'')) ex_stopped"

lemma ex_redirected_reach: "queue_reach (\<lambda>_. True) ex_redirected"
  unfolding ex_redirected_def by (intro reach_step ex_stopped_reach) simp_all

lemma ex_redirected_rows:
  "map_option (\<lambda>r. (t_status r, t_redirects r, t_session r)) (get_row ex_redirected ''t3'') = Some (Queued, [''use x''], [])"
  "map_option t_status (get_row (pump (ex_env 2) ex_redirected) ''t3'') = Some Running"
  by code_simp+

text \<open>A queue with one task whose text has terms, the specification of the same work, and a fan-out of two.\<close>

definition ex_login_task :: js where
  "ex_login_task = JObj [(''title'', JStr ''fix''), (''prompt'', JStr ''login page''), (''cwd'', JStr ''/w'')]"

definition ex_login :: queue where
  "ex_login = handle (ex_env 2) (EvCreate ex_login_task []) empty_queue"

definition ex_spec :: task_spec where
  "ex_spec = spec_of (ex_env 2) 1 False [] ex_login_task"

definition ex_fan :: js where
  "ex_fan = JObj [(''tasks'', JArr (map (\<lambda>d. JObj [(''title'', JStr ''a''), (''prompt'', JStr ''b''),
     (''cwd'', JStr d), (''allow_overlap'', JBool False)]) [''/w'', ''/v'']))]"

lemma ex_login_reach: "queue_reach (\<lambda>_. True) ex_login"
  unfolding ex_login_def by (intro reach_step reach_empty) simp

definition ex_waited :: queue where
  "ex_waited = run_events [(ex_env 2, EvHumanDone ''t1'' 60), (ex_env 2, EvResolveHuman ''t1''),
     (ex_env 2, EvHumanFinish ''t1'' 0 ''timeout'')] empty_queue"

lemma ex_waited_reach: "queue_reach (\<lambda>_. True) ex_waited"
  unfolding ex_waited_def by (intro queue_reach_run reach_empty) simp

section \<open>Capacity and directories\<close>

text \<open>
  C1: however the operations, the settling starts and the exits interleave, at most as many tasks
  run as the setting ever allowed.
\<close>

theorem concurrency_bound:
  assumes "queue_reach (\<lambda>e. e_concurrency e \<le> n) q" "0 \<le> n"
  shows "int (count_status q Running) \<le> n"
  using capacity.ok_reach [OF assms(1)] assms(2) by simp

theorem concurrency_bound_witness:
  "int (count_status ex_queue Running) \<le> 2 \<and> count_status ex_queue Running = 2"
  using concurrency_bound [of 2 ex_queue] ex_queue_reach [of "\<lambda>e. e_concurrency e \<le> 2"] ex_queue_running
  by (simp add: ex_env_def)

text \<open>
  C2: while exclusive directories are on, two running tasks never work in directories where one is or
  contains the other, in every reachable queue.
\<close>

theorem exclusive_directories:
  assumes "queue_reach (\<lambda>e. e_exclusive e \<and> fs_home (e_fs e) = home) q"
    and "get_row q i = Some r" "get_row q j = Some u" "i \<noteq> j"
    and "t_status r = Running" "t_status u = Running"
  shows "\<not> overlaps home (t_cwd r) (t_cwd u)"
proof -
  have "r \<in> set (q_rows q)" "t_id r = i" "u \<in> set (q_rows q)" "t_id u = j"
    using assms(2,3) by (auto dest: get_row_SomeD)
  with exclusive.ok_reach [OF assms(1)] assms(4-6) show ?thesis
    unfolding dirs_exclusive_def by blast
qed

theorem exclusive_directories_witness:
  "\<not> overlaps ''/h'' ''/w'' ''/v'' \<and> overlaps ''/h'' ''/w'' ''/w/x''"
proof -
  obtain r u where "get_row ex_queue ''t1'' = Some r" "t_cwd r = ''/w''" "t_status r = Running"
    "get_row ex_queue ''t3'' = Some u" "t_cwd u = ''/v''" "t_status u = Running"
    using ex_queue_rows by auto
  with exclusive_directories [of "''/h''" ex_queue "''t1''" r "''t3''" u]
    ex_queue_reach [of "\<lambda>e. e_exclusive e \<and> fs_home (e_fs e) = ''/h''"]
  have "\<not> overlaps ''/h'' ''/w'' ''/v''" by (simp add: ex_env_def)
  then show ?thesis by code_simp
qed

text \<open>
  C3: the scheduler is work conserving.  Whatever the settings were before: from the moment the queue is pumped with the
  settings that hold now, as saving the settings does, after every
  further operation under these settings either all slots are in use or every queued task waits for a directory that a
  running task uses.
\<close>

theorem no_slot_left_idle:
  fixes e :: queue_env
  assumes "queue_reach (\<lambda>_. True) q0"
    and "list_all (\<lambda>(e', _). e_concurrency e' = e_concurrency e \<and> e_exclusive e' = e_exclusive e \<and> fs_home (e_fs e') = fs_home (e_fs e)) evs"
    and "q = run_events evs (resize e q0)"
    and "int (count_status q Running) < e_concurrency e"
    and "get_row q i = Some r" "t_status r = Queued"
  shows "e_exclusive e \<and> (\<exists>j u. get_row q j = Some u \<and> t_status u = Running \<and>
    overlaps (fs_home (e_fs e)) (t_cwd u) (t_cwd r))"
proof -
  have "queue_wf q \<and> no_idle_slot e q" unfolding assms(3)
    by (rule no_idle_run [OF assms(2)]) (simp_all add: resize_def no_idle_pump wf_inv.ok_pump wf_inv.ok_reach [OF assms(1)])
  then have wf: "queue_wf q" and idle: "no_idle_slot e q" by auto
  have "r \<in> set (q_rows q)" using assms(5) by (auto dest: get_row_SomeD)
  with idle assms(4,6) have "blocked e q r" by (auto simp: no_idle_slot_def)
  then obtain u where "e_exclusive e" "u \<in> set (q_rows q)" "t_status u = Running"
    "overlaps (fs_home (e_fs e)) (t_cwd u) (t_cwd r)"
    by (auto simp: blocked_def run_cwds_def)
  with queue_wf_get_row [OF wf] show ?thesis by blast
qed

text \<open>One slot while the tasks are created, then three: the second task starts, the third waits for its directory.\<close>

definition ex_raised :: queue where
  "ex_raised = run_events [(ex_env 3, EvSetMeta ''k'' ''v'')] (resize (ex_env 3) (run_events [(ex_env 1, ex_create)] empty_queue))"

lemma ex_raised_rows:
  "count_status ex_raised Running = 2"
  "map_option (\<lambda>r. (t_cwd r, t_status r)) (get_row ex_raised ''t2'') = Some (''/w/x'', Queued)"
  by code_simp+

theorem no_slot_left_idle_witness:
  "\<exists>j u. get_row ex_raised j = Some u \<and> t_status u = Running \<and> overlaps ''/h'' (t_cwd u) ''/w/x''"
proof -
  have q0: "queue_reach (\<lambda>_. True) (run_events [(ex_env 1, ex_create)] empty_queue)"
    by (intro queue_reach_run reach_empty) simp
  obtain r where r: "get_row ex_raised ''t2'' = Some r" "t_cwd r = ''/w/x''" "t_status r = Queued"
    using ex_raised_rows(2) by auto
  have "int (count_status ex_raised Running) < e_concurrency (ex_env 3)" using ex_raised_rows(1) by (simp add: ex_env_def)
  from no_slot_left_idle [OF q0 _ ex_raised_def this r(1,3)] r(2) show ?thesis by (simp add: ex_env_def)
qed

text \<open>
  C4: queued tasks start in the order they were created.  When \<open>pump\<close> starts a task and leaves an older queued
  one, the older one waits for a directory in use.
\<close>

theorem first_come_first_served:
  assumes "queue_reach (\<lambda>_. True) q"
    and "get_row q i = Some r" "t_status r = Queued" "get_row (pump e q) i = Some r"
    and "get_row q j = Some u" "t_status u = Queued" "get_row (pump e q) j \<noteq> Some u"
    and "t_seq r < t_seq u"
  shows "e_exclusive e \<and> (\<exists>c \<in> run_cwds (pump e q). overlaps (fs_home (e_fs e)) c (t_cwd r))"
proof -
  have "t_id r = i" "t_id u = j" using assms(2,5) by (auto dest: get_row_SomeD)
  with assms have "startable q r" "startable q u" "left_behind q (pump e q) r" "\<not> left_behind q (pump e q) u"
    by (auto simp: startable_def left_behind_def)
  with pump_first_come [OF wf_inv.ok_reach [OF assms(1)], of e] assms(8) show ?thesis
    unfolding first_come_def blocked_def by blast
qed

theorem first_come_first_served_witness:
  "\<exists>c \<in> run_cwds (pump (ex_env 2) ex_stopped). overlaps ''/h'' c ''/w/x''"
proof -
  obtain r u where "get_row ex_stopped ''t2'' = Some r" "t_status r = Queued" "t_cwd r = ''/w/x''" "t_seq r = 2"
    "get_row (pump (ex_env 2) ex_stopped) ''t2'' = Some r"
    "get_row ex_stopped ''t3'' = Some u" "t_status u = Queued" "t_seq u = 3"
    "get_row (pump (ex_env 2) ex_stopped) ''t3'' \<noteq> Some u"
    using ex_stopped_rows(1-3) ex_stopped_started by auto
  with first_come_first_served [of ex_stopped "''t2''" r "ex_env 2" "''t3''" u] ex_stopped_reach
  show ?thesis by (simp add: ex_env_def)
qed

section \<open>The life of a task\<close>

text \<open>
  C5: a settled task (done, failed, cancelled) keeps its status, its result and its finish time under every
  event but a redirect or a requeue of that task.
\<close>

theorem settled_stays_settled:
  assumes "queue_reach env_ok q" "get_row q i = Some r"
    and "t_status r = TaskDone \<or> t_status r = TaskError \<or> t_status r = Cancelled"
    and "\<not> reopens i ev"
  shows "\<exists>r'. get_row (handle e ev q) i = Some r' \<and> t_status r' = t_status r \<and>
    t_result r' = t_result r \<and> t_finished r' = t_finished r"
proof -
  have "queue_wf q" using assms(1) by (induction rule: queue_reach.induct) (auto intro: queue_wf_empty wf_inv.ok_handle)
  from keeps_settled_handle [OF this assms(4), of e] assms(2,3) show ?thesis
    by (auto simp: keeps_settled_def settled_status_def same_outcome_def)
qed

theorem settled_stays_settled_witness:
  "\<exists>r'. get_row (handle (ex_env 2) EvRecover ex_done) ''t1'' = Some r' \<and> t_status r' = TaskDone \<and> t_result r' = ''ok''"
proof -
  obtain r where "get_row ex_done ''t1'' = Some r" "t_status r = TaskDone" "t_result r = ''ok''"
    using ex_done_row by auto
  with settled_stays_settled [of "\<lambda>_. True" ex_done "''t1''" r EvRecover "ex_env 2"] ex_done_reach
  show ?thesis by auto
qed

text \<open>
  no redirect is lost at a start.  When \<open>pump\<close> starts a task, it asks for a new worker whose brief begins with
  the task's prompt and holds every redirect, or it continues the task's own session with every redirect
  the worker has not seen; and it marks all of them as given.
\<close>

theorem start_delivers_redirects:
  assumes "queue_reach (\<lambda>_. True) q" "get_row q i = Some r" "t_status r = Queued"
    and "get_row (pump e q) i = Some r'" "t_status r' = Running"
  shows "(\<exists>c \<in> set (drop (length (q_calls q)) (q_calls (pump e q))).
      case c of
        StartWorker j brief \<Rightarrow> j = i \<and> prefix (t_prompt r) brief \<and> list_all (\<lambda>m. sublist m brief) (t_redirects r)
      | ContinueWorker sid text \<Rightarrow> sid = t_session r \<and> sid \<noteq> [] \<and>
          list_all (\<lambda>m. sublist (redirect_mark @ m) text) (drop (t_redirectsSeen r) (t_redirects r))
      | _ \<Rightarrow> False) \<and> t_redirectsSeen r' = length (t_redirects r)"
proof -
  have wf: "queue_wf q" by (rule wf_inv.ok_reach [OF assms(1)])
  have "t_id r = i" using assms(2) by (auto dest: get_row_SomeD)
  obtain c where c: "c \<in> set (drop (length (q_calls q)) (q_calls (pump e q)))" "delivers r c"
    using started_delivers(1) [OF wf assms(2-5)] by blast
  show ?thesis
    using c(2) \<open>t_id r = i\<close>
    by (intro conjI bexI [OF _ c(1)] started_delivers(2) [OF wf assms(2-5)]) (cases c; simp add: delivers_def)
qed

theorem start_delivers_redirects_witness:
  "\<exists>brief. StartWorker ''t3'' brief \<in> set (q_calls (pump (ex_env 2) ex_redirected)) \<and> sublist ''use x'' brief"
proof -
  obtain r r' where rows: "get_row ex_redirected ''t3'' = Some r" "t_status r = Queued" "t_redirects r = [''use x'']"
    "t_session r = []" "get_row (pump (ex_env 2) ex_redirected) ''t3'' = Some r'" "t_status r' = Running"
    using ex_redirected_rows by auto
  from start_delivers_redirects [OF ex_redirected_reach rows(1,2,5,6)]
  obtain c where c: "c \<in> set (drop (length (q_calls ex_redirected)) (q_calls (pump (ex_env 2) ex_redirected)))"
    "case c of
        StartWorker j brief \<Rightarrow> j = ''t3'' \<and> prefix (t_prompt r) brief \<and> list_all (\<lambda>m. sublist m brief) (t_redirects r)
      | ContinueWorker sid text \<Rightarrow> sid = t_session r \<and> sid \<noteq> [] \<and>
          list_all (\<lambda>m. sublist (redirect_mark @ m) text) (drop (t_redirectsSeen r) (t_redirects r))
      | _ \<Rightarrow> False"
    by blast
  then show ?thesis using rows(3,4) by (cases c rule: host_call.exhaust) (auto dest: in_set_dropD)
qed

text \<open>
  a redirect of an unknown task or without a message is refused and changes nothing; any other is added to
  the task, which is then queued or running, and a worker that runs is messaged with it.
\<close>

theorem redirect_spec:
  assumes "queue_reach (\<lambda>_. True) q"
  shows "let j = js_trim i; text = clean message 8000; (q', ok, answer) = redirect e i message q in
    (ok \<longleftrightarrow> get_row q j \<noteq> None \<and> text \<noteq> []) \<and> (\<not> ok \<longrightarrow> q' = q) \<and>
    (ok \<longrightarrow> (\<exists>r r'. get_row q j = Some r \<and> get_row q' j = Some r' \<and> t_redirects r' = t_redirects r @ [text] \<and>
       (t_status r' = Queued \<or> t_status r' = Running) \<and>
       (t_status r = Running \<and> t_session r \<noteq> [] \<and> e_running e (t_session r) \<longrightarrow>
          t_status r' = Running \<and> q_calls q' = q_calls q @ [MessageWorker (t_session r) (redirect_mark @ text)])))"
proof (cases "get_task e q (js_trim i)")
  case None
  then have "get_row q (js_trim i) = None" by (simp add: get_task_def)
  with None show ?thesis by (simp add: redirect_def Let_def)
next
  case (Some t)
  then obtain r where r: "get_row q (js_trim i) = Some r" "t = from_row e r" "t_id r = js_trim i"
    by (rule get_task_SomeE)
  define t1 where "t1 = t\<lparr>t_redirects := t_redirects t @ [clean message 8000],
    t_notes := t_notes t @ [\<lparr>n_at = e_now e, n_from = FromDispatcher,
      n_text = ''redirected: '' @ slice_to 300 (clean message 8000)\<rparr>]\<rparr>"
  define q1 where "q1 = save_task e (t1\<lparr>t_status := Queued, t_finished := 0\<rparr>) q"
  have wf: "queue_wf q" by (rule wf_inv.ok_reach [OF assms])
  have wf1: "queue_wf q1"
    unfolding q1_def t1_def by (rule wf_inv.ok_save_get [OF wf Some]) auto
  have "get_row q1 (js_trim i) = Some (stored_task e (t1\<lparr>t_status := Queued, t_finished := 0\<rparr>))"
    using r by (simp add: q1_def t1_def)
  then have pumped: "\<exists>r'. get_row (pump e q1) (js_trim i) = Some r' \<and> t_redirects r' = t_redirects r @ [clean message 8000] \<and>
      (t_status r' = Queued \<or> t_status r' = Running)"
    using pump_spec [OF wf1, of e] r
    by (elim conjE pump_effect_row [of e q1 "pump e q1" "js_trim i"]) (auto simp: t1_def)
  show ?thesis
    using Some r pumped
    by (auto simp: redirect_def Let_def q1_def t1_def)
qed

theorem redirect_spec_witness:
  "snd (redirect (ex_env 2) ''t3'' (JStr ''use x'') ex_stopped) =
     (True, ''t3 is still queued: the redirect is added to its brief.'') \<and>
   (\<exists>r'. get_row (fst (redirect (ex_env 2) ''t3'' (JStr ''use x'') ex_stopped)) ''t3'' = Some r' \<and>
      t_redirects r' = [''use x''])"
proof -
  have run: "snd (redirect (ex_env 2) ''t3'' (JStr ''use x'') ex_stopped) =
     (True, ''t3 is still queued: the redirect is added to its brief.'')" "js_trim ''t3'' = ''t3''"
    "clean (JStr ''use x'') 8000 = ''use x''"
    "map_option t_redirects (get_row ex_stopped ''t3'') = Some []"
    by code_simp+
  with redirect_spec [of ex_stopped "''t3''" "JStr ''use x''" "ex_env 2"] ex_stopped_reach
  show ?thesis by (auto simp: Let_def split: prod.splits)
qed

text \<open>
  a restart continues the interrupted work.  A running task that has a session is, after \<open>recover\<close>, queued with
  the redirects of its last run marked as not given, or running again in its own session, with a message
  that holds all of those redirects.
\<close>

theorem recover_continues:
  assumes "queue_reach (\<lambda>_. True) q" "get_row q i = Some r" "t_status r = Running" "t_session r \<noteq> []"
  shows "\<exists>r'. get_row (recover e q) i = Some r' \<and>
    (t_status r' = Queued \<and> t_redirectsSeen r' = min (t_redirectsSeen r) (t_redirectsAtStart r) \<or>
     t_status r' = Running \<and>
     (\<exists>text. ContinueWorker (t_session r) text \<in> set (drop (length (q_calls q)) (q_calls (recover e q))) \<and>
       list_all (\<lambda>m. sublist (redirect_mark @ m) text)
         (drop (min (t_redirectsSeen r) (t_redirectsAtStart r)) (t_redirects r))))"
  using attempts.ok_reach [OF assms(1)] assms(2-4) by (intro recover_row) auto

theorem recover_continues_witness:
  "\<exists>text. ContinueWorker ''s1'' text \<in> set (q_calls (recover (ex_env 1) ex_stopped))"
proof -
  have run: "map_option (\<lambda>r. (t_status r, t_session r)) (get_row ex_stopped ''t1'') = Some (Running, ''s1'')"
    "map_option t_status (get_row (recover (ex_env 1) ex_stopped) ''t1'') = Some Running"
    by code_simp+
  then obtain r where "get_row ex_stopped ''t1'' = Some r" "t_status r = Running" "t_session r = ''s1''" by auto
  with recover_continues [of ex_stopped "''t1''" r "ex_env 1"] ex_stopped_reach run(2)
  show ?thesis by (auto dest: in_set_dropD)
qed

text \<open>
  a worker's exit counts once.  A second report of the same session's exit, with any status and at any
  later time, changes nothing.
\<close>

theorem worker_exits_once:
  assumes "queue_reach (\<lambda>_. True) q"
  shows "worker_exited e' sid st' (worker_exited e sid st q) = worker_exited e sid st q"
  by (rule worker_exited_twice [OF wf_inv.ok_reach [OF assms]])

theorem worker_exits_once_witness:
  "worker_exited (ex_env 2) ''s1'' ExitError ex_done = ex_done \<and> ex_done \<noteq> ex_stopped"
proof -
  have "worker_exited (ex_env 2) ''s1'' ExitError ex_done = ex_done"
    using worker_exits_once [of ex_stopped "ex_env 2" "''s1''" ExitError "ex_env 1" ExitDone] ex_stopped_reach
    by (simp add: ex_done_def)
  moreover have "map_option t_status (get_row ex_stopped ''t1'') = Some Running" by code_simp
  ultimately show ?thesis using ex_done_row by auto
qed

text \<open>
  the dispatcher cannot give the same work twice.  Unless the call says \<open>new_task: true\<close>, a task whose text has the
  same terms as an active task is refused: nothing changes, and the answer names an active task.
\<close>

theorem duplicate_refused:
  assumes "s \<in> set specs" "u \<in> set (list_tasks e q)" "active_task u" "terms (query_of s) \<noteq> []"
    and "mset (terms (query_of s)) = mset (terms (doc_of u))"
  shows "fst (create_specs e False specs q) = q \<and>
    (\<exists>text t. snd (create_specs e False specs q) = Refused text (Some (t_id t)) \<and>
       t \<in> set (list_tasks e q) \<and> active_task t)"
  by (rule create_specs_duplicate [OF assms])

theorem duplicate_refused_witness:
  "fst (create_specs (ex_env 2) False [ex_spec] ex_login) = ex_login \<and>
   (\<exists>text i. snd (create_specs (ex_env 2) False [ex_spec] ex_login) = Refused text (Some i))"
proof -
  have run: "map active_task (list_tasks (ex_env 2) ex_login) = [True]"
    "map (\<lambda>u. terms (doc_of u)) (list_tasks (ex_env 2) ex_login) = [[''fix'', ''login'', ''page'']]"
    "terms (query_of ex_spec) = [''fix'', ''login'', ''page'']"
    by code_simp+
  then obtain u where "u \<in> set (list_tasks (ex_env 2) ex_login)" "active_task u"
    "terms (doc_of u) = [''fix'', ''login'', ''page'']"
    by auto
  with duplicate_refused [of ex_spec "[ex_spec]" u "ex_env 2" ex_login] run(3) show ?thesis by auto
qed

text \<open>
  an independent fan-out is disjoint.  When every task of a call says \<open>allow_overlap: false\<close> and the call is
  accepted, no two of its tasks have overlapping directories.
\<close>

theorem fan_out_disjoint:
  assumes "create e spec message q = (q', Created made text)"
    and "list_all (\<lambda>s. js_field ''allow_overlap'' s = JBool False) (arr_or_nil (js_field ''tasks'' spec))"
    and "i < j" "j < length made"
  shows "\<not> overlaps (fs_home (e_fs e)) (t_cwd (made ! i)) (t_cwd (made ! j))"
  by (rule created_disjoint [OF assms])

theorem fan_out_disjoint_witness:
  "\<exists>q' made text. create (ex_env 2) ex_fan [] empty_queue = (q', Created made text) \<and>
     \<not> overlaps ''/h'' (t_cwd (made ! 0)) (t_cwd (made ! 1)) \<and> t_cwd (made ! 0) = ''/w'' \<and> t_cwd (made ! 1) = ''/v''"
proof -
  have ran: "case snd (create (ex_env 2) ex_fan [] empty_queue) of
      Created made text \<Rightarrow> map t_cwd made = [''/w'', ''/v''] | Refused text d \<Rightarrow> False"
    "list_all (\<lambda>s. js_field ''allow_overlap'' s = JBool False) (arr_or_nil (js_field ''tasks'' ex_fan))"
    by code_simp+
  obtain q' res where c: "create (ex_env 2) ex_fan [] empty_queue = (q', res)" by fastforce
  with ran(1) obtain made ans where made: "res = Created made ans" "map t_cwd made = [''/w'', ''/v'']"
    by (cases res) auto
  then have "t_cwd (made ! 0) = ''/w''" "t_cwd (made ! 1) = ''/v''" "1 < length made" by auto
  with fan_out_disjoint [OF c [unfolded made(1)] ran(2), of 0 1] c made(1) show ?thesis
    by (auto simp: ex_env_def)
qed

text \<open>
  what an accepted call makes: between one and a hundred tasks with fresh consecutive ids, each with a
  title and a prompt, each on the queue or already running; every task that was there is as it was, or it was
  queued and runs now.
\<close>

theorem created_tasks:
  assumes "queue_reach (\<lambda>_. True) q" "create e spec message q = (q', Created made text)"
  shows "map t_seq made = [next_seq q..<next_seq q + length made] \<and> 1 \<le> length made \<and> length made \<le> 100 \<and>
    (\<forall>t \<in> set made. t_id t = CHR ''t'' # show_nat (t_seq t) \<and> t_title t \<noteq> [] \<and> t_prompt t \<noteq> [] \<and>
       get_row q (t_id t) = None \<and>
       (\<exists>r. get_row q' (t_id t) = Some r \<and> t_prompt r = t_prompt t \<and> (t_status r = Queued \<or> t_status r = Running))) \<and>
    (\<forall>i r. get_row q i = Some r \<longrightarrow>
       get_row q' i = Some r \<or> t_status r = Queued \<and> (\<exists>r'. get_row q' i = Some r' \<and> t_status r' = Running))"
  using created_rows [OF assms(2) wf_inv.ok_reach [OF assms(1)]] by blast

theorem created_tasks_witness:
  "\<exists>q' made text. create (ex_env 2) ex_fan [] ex_login = (q', Created made text) \<and> map t_seq made = [2, 3]"
proof -
  have ran: "case snd (create (ex_env 2) ex_fan [] ex_login) of
      Created made text \<Rightarrow> length made = 2 | Refused text d \<Rightarrow> False"
    "next_seq ex_login = 2"
    by code_simp+
  obtain q' res where c: "create (ex_env 2) ex_fan [] ex_login = (q', res)" by fastforce
  with ran(1) obtain made ans where made: "res = Created made ans" "length made = 2"
    by (cases res) auto
  with created_tasks [OF ex_login_reach c [unfolded made(1)]] c ran(2) show ?thesis
    by (simp add: numeral_2_eq_2 numeral_3_eq_3)
qed

section \<open>Waiting for a human, and two flaws\<close>

text \<open>C6: every wait for a human is answered at most once.\<close>

theorem human_answered_once:
  assumes "queue_reach (\<lambda>_. True) q"
  shows "distinct (map fst (q_resolved q)) \<and> set (map snd (q_waiting q)) \<inter> set (map fst (q_resolved q)) = {}"
  using waits_ok_reach [OF assms] by (simp add: waits_ok_def)

theorem human_answered_once_witness:
  "distinct (map fst (q_resolved ex_waited)) \<and> q_resolved ex_waited = [(0, ''done'')]"
proof -
  have "q_resolved ex_waited = [(0, ''done'')]" by code_simp
  with human_answered_once [OF ex_waited_reach] show ?thesis by simp
qed

text \<open>
  a wait that is replaced is never answered.  When \<open>humanDone\<close> is called again for a task that is waited for, the
  first caller's promise is not settled by anything that happens afterwards, not even by its own timeout.
\<close>

theorem replaced_wait_never_answered:
  assumes "queue_reach (\<lambda>_. True) q" "0 < s" "0 < s'"
    and "human_done e i s q = (q1, w)" "human_done e' i s' q1 = (q2, w')"
  shows "w \<notin> set (map fst (q_resolved (run_events evs q2)))"
proof -
  have ok: "waits_ok q" by (rule waits_ok_reach [OF assms(1)])
  have w: "w = q_waits q" "q_waits q2 = Suc (Suc w)" "w' = Suc w"
    "q_waiting q2 = (i, Suc w) # filter (\<lambda>p. fst p \<noteq> i) (q_waiting q)" "q_resolved q2 = q_resolved q"
    using assms(2-5) by (auto simp: human_done_def Let_def)
  have "x < w" if "x \<in> set (map snd (q_waiting q)) \<union> set (map fst (q_resolved q))" for x
    using ok that by (simp add: waits_ok_def w(1))
  then have "wait_lost w q2"
    unfolding wait_lost_def w by auto
  from wait_lost_run [OF this, of evs] show ?thesis by (simp add: wait_lost_def)
qed

theorem replaced_wait_never_answered_witness:
  "0 \<notin> set (map fst (q_resolved (run_events [(ex_env 2, EvHumanFinish ''t1'' 0 ''timeout''), (ex_env 2, EvResolveHuman ''t1'')]
     (fst (human_done (ex_env 2) ''t1'' 60 (fst (human_done (ex_env 2) ''t1'' 60 empty_queue)))))))"
proof -
  have "human_done (ex_env 2) ''t1'' 60 empty_queue = (fst (human_done (ex_env 2) ''t1'' 60 empty_queue), 0)"
    by (simp add: human_done_def Let_def empty_queue_def)
  moreover have "human_done (ex_env 2) ''t1'' 60 q = (fst (human_done (ex_env 2) ''t1'' 60 q), q_waits q)" for q
    by (simp add: human_done_def Let_def)
  ultimately show ?thesis
    using replaced_wait_never_answered [OF reach_empty, of 60 60 "ex_env 2" "''t1''"] by (metis zero_less_numeral)
qed

text \<open>
  a redirect of a task whose worker is still starting (it runs, and its session is not known yet) starts a
  second worker for it, or queues it while the first worker works on.
\<close>

theorem redirect_while_starting:
  assumes "queue_reach (\<lambda>_. True) q" "get_row q (js_trim i) = Some r" "t_status r = Running" "t_session r = []"
    and "clean message 8000 \<noteq> []"
  shows "\<exists>r'. get_row (fst (redirect e i message q)) (js_trim i) = Some r' \<and>
    (t_status r' = Queued \<or>
     t_status r' = Running \<and>
     (\<exists>brief. StartWorker (js_trim i) brief \<in> set (drop (length (q_calls q)) (q_calls (fst (redirect e i message q))))))"
  by (rule redirect_starting_row [OF wf_inv.ok_reach [OF assms(1)] assms(2-5)])

theorem redirect_while_starting_witness:
  "\<exists>brief. StartWorker ''t1'' ''b'' \<in> set (q_calls ex_queue) \<and>
     StartWorker ''t1'' brief \<in> set (drop (length (q_calls ex_queue))
       (q_calls (fst (redirect (ex_env 2) ''t1'' (JStr ''use x'') ex_queue))))"
proof -
  have run: "map_option (\<lambda>r. (t_status r, t_session r)) (get_row ex_queue ''t1'') = Some (Running, [])"
    "map_option t_status (get_row (fst (redirect (ex_env 2) ''t1'' (JStr ''use x'') ex_queue)) ''t1'') = Some Running"
    "js_trim ''t1'' = ''t1''" "clean (JStr ''use x'') 8000 = ''use x''"
    "StartWorker ''t1'' ''b'' \<in> set (q_calls ex_queue)"
    by code_simp+
  from run(1) obtain r where r: "get_row ex_queue (js_trim ''t1'') = Some r" "t_status r = Running" "t_session r = []"
    by (auto simp: run(3))
  have "clean (JStr ''use x'') 8000 \<noteq> []" by (simp add: run(4))
  from redirect_while_starting [OF ex_queue_reach r this, of "ex_env 2"] run(2,5) show ?thesis
    by (auto simp: run(3))
qed

section \<open>Directories and texts\<close>

text \<open>
  two directories overlap exactly when the path components of one begin those of the other; the root, the
  home directory and /tmp overlap nothing.
\<close>

theorem overlap_is_component_prefix:
  "overlaps home a b \<longleftrightarrow>
     a \<noteq> [] \<and> b \<noteq> [] \<and> \<not> broad_dir home (norm_dir a) \<and> \<not> broad_dir home (norm_dir b) \<and>
     (prefix (dir_components a) (dir_components b) \<or> prefix (dir_components b) (dir_components a))"
  by (rule overlaps_iff_components)

text \<open>
  the similarity of a text to a document is between 0 and 1; it is 1 when both have the same terms, as often,
  and 0 when they share none.
\<close>

theorem similarity_score:
  assumes "i < length docs"
  shows "0 \<le> similarity query docs ! i \<and> similarity query docs ! i \<le> 1 \<and>
    (mset (terms query) = mset (terms (docs ! i)) \<and> terms query \<noteq> [] \<longrightarrow> similarity query docs ! i = 1) \<and>
    (set (terms query) \<inter> set (terms (docs ! i)) = {} \<longrightarrow> similarity query docs ! i = 0)"
proof -
  let ?ds = "terms query # map terms docs"
  have mem: "similarity query docs ! i \<in> set (similarity query docs)" using assms by simp
  have "similarity query docs ! i = 1" if "mset (terms query) = mset (terms (docs ! i))" "terms query \<noteq> []"
  proof -
    have "terms (docs ! i) \<noteq> []" using that by auto
    moreover have "terms (docs ! i) \<in> set ?ds" using assms by simp
    ultimately show ?thesis
      unfolding similarity_nth [OF assms] by (rule cosine_same_terms [OF that(1)])
  qed
  moreover have "similarity query docs ! i = 0" if "set (terms query) \<inter> set (terms (docs ! i)) = {}"
    unfolding similarity_nth [OF assms] by (rule cosine_disjoint [OF that])
  ultimately show ?thesis using similarity_bounds [OF mem] by blast
qed

theorem similarity_score_witness:
  "similarity ''fix the login page'' [''page: login, fix'', ''other''] ! 0 = 1 \<and>
   similarity ''fix the login page'' [''page: login, fix'', ''other''] ! 1 = 0"
proof -
  have "terms ''fix the login page'' = [''fix'', ''login'', ''page'']"
    "terms ''page: login, fix'' = [''page'', ''login'', ''fix'']" "terms ''other'' = [''other'']"
    by code_simp+
  with similarity_score [of 0 "[''page: login, fix'', ''other'']" "''fix the login page''"]
    similarity_score [of 1 "[''page: login, fix'', ''other'']" "''fix the login page''"]
  show ?thesis by simp
qed

end
