(* ===== verification/Regex.thy ===== *)
theory Regex
  imports Prelude
begin

text \<open>
  The regular expressions of the program, as data: character classes, sequences, ordered alternatives,
  greedy bounded repetition, the word boundary.  A match yields the ends in the order a backtracking matcher
  tries them, as pairs of the text before (reversed) and the text after; \<open>re_all\<close> is the global
  leftmost search of \<open>matchAll\<close> and \<open>re_test\<close> is \<open>test\<close>.
\<close>

datatype re =
    Cls "char \<Rightarrow> bool"
  | Eps
  | Seq re re
  | Alt re re
  | Rep nat re
  | Boundary

definition word_char :: "char \<Rightarrow> bool" where
  "word_char c = (is_digit c \<or> is_lower_az c \<or> is_upper_az c \<or> c = CHR ''_'')"

definition at_boundary :: "string \<Rightarrow> string \<Rightarrow> bool" where
  "at_boundary b s =
     ((case b of [] \<Rightarrow> False | c # _ \<Rightarrow> word_char c) \<noteq> (case s of [] \<Rightarrow> False | c # _ \<Rightarrow> word_char c))"

text \<open>Up to \<open>n\<close> iterations, greedy: an iteration that matches nothing is not repeated.\<close>

primrec iterate :: "nat \<Rightarrow> (string \<Rightarrow> string \<Rightarrow> (string \<times> string) list) \<Rightarrow> string \<Rightarrow> string
    \<Rightarrow> (string \<times> string) list" where
  "iterate 0 f b s = [(b, s)]"
| "iterate (Suc n) f b s =
     concat (map (\<lambda>(b', s'). if length s' = length s then [] else iterate n f b' s') (f b s)) @ [(b, s)]"

primrec re_ends :: "re \<Rightarrow> string \<Rightarrow> string \<Rightarrow> (string \<times> string) list" where
  "re_ends (Cls P) b s = (case s of [] \<Rightarrow> [] | c # r \<Rightarrow> (if P c then [(c # b, r)] else []))"
| "re_ends Eps b s = [(b, s)]"
| "re_ends (Seq x y) b s = concat (map (\<lambda>(b', s'). re_ends y b' s') (re_ends x b s))"
| "re_ends (Alt x y) b s = re_ends x b s @ re_ends y b s"
| "re_ends (Rep n x) b s = iterate n (re_ends x) b s"
| "re_ends Boundary b s = (if at_boundary b s then [(b, s)] else [])"

fun re_search :: "re \<Rightarrow> string \<Rightarrow> string \<Rightarrow> bool" where
  "re_search r b s = (re_ends r b s \<noteq> [] \<or> (case s of [] \<Rightarrow> False | c # s' \<Rightarrow> re_search r (c # b) s'))"

declare re_search.simps [simp del]

definition re_test :: "re \<Rightarrow> string \<Rightarrow> bool" where
  "re_test r s = re_search r [] s"

text \<open>\<open>skip\<close> counts the characters of the last match that are still to be passed over.\<close>

fun re_scan :: "re \<Rightarrow> nat \<Rightarrow> string \<Rightarrow> string \<Rightarrow> string list" where
  "re_scan r skip b [] = []"
| "re_scan r skip b (c # s) =
     (if 0 < skip then re_scan r (skip - 1) (c # b) s
      else (case re_ends r b (c # s) of
              [] \<Rightarrow> re_scan r 0 (c # b) s
            | (b', s') # _ \<Rightarrow>
                (let n = length (c # s) - length s'
                 in take n (c # s) # re_scan r (n - 1) (c # b) s)))"

definition re_all :: "re \<Rightarrow> string \<Rightarrow> string list" where
  "re_all r s = re_scan r 0 [] s"

section \<open>Writing expressions\<close>

definition lit :: "string \<Rightarrow> re" where
  "lit s = foldr (\<lambda>c r. Seq (Cls (\<lambda>x. x = c)) r) s Eps"

text \<open>A literal under the flag \<open>i\<close>.\<close>

definition lit_i :: "string \<Rightarrow> re" where
  "lit_i s = foldr (\<lambda>c r. Seq (Cls (\<lambda>x. char_lower x = char_lower c)) r) s Eps"

definition re_opt :: "re \<Rightarrow> re" where
  "re_opt r = Rep 1 r"

definition re_any :: "re list \<Rightarrow> re" where
  "re_any rs = (case rs of [] \<Rightarrow> Cls (\<lambda>_. False) | r # rs' \<Rightarrow> foldl Alt r rs')"

definition re_seq :: "re list \<Rightarrow> re" where
  "re_seq rs = foldr Seq rs Eps"

definition dot :: re where
  "dot = Cls (\<lambda>c. c \<noteq> CHR 0x0A \<and> c \<noteq> CHR 0x0D)"

definition digit :: re where
  "digit = Cls is_digit"

section \<open>Lemmas\<close>

text \<open>Every end splits the same text.\<close>

definition same_text :: "string \<Rightarrow> string \<Rightarrow> string \<times> string \<Rightarrow> bool" where
  "same_text b s e \<longleftrightarrow> (\<exists>m. s = m @ snd e \<and> fst e = rev m @ b)"

lemma same_text_refl: "same_text b s (b, s)"
  by (simp add: same_text_def)

lemma same_text_trans:
  "same_text b' s' e \<Longrightarrow> same_text b s (b', s') \<Longrightarrow> same_text b s e"
  by (auto simp: same_text_def)

lemma iterate_same_text:
  assumes "\<And>b s e. e \<in> set (f b s) \<Longrightarrow> same_text b s e"
  shows "e \<in> set (iterate n f b s) \<Longrightarrow> same_text b s e"
proof (induction n arbitrary: b s)
  case 0
  then show ?case by (simp add: same_text_refl)
next
  case (Suc n)
  then consider "e = (b, s)" | b' s' where "(b', s') \<in> set (f b s)" "e \<in> set (iterate n f b' s')"
    by (auto split: if_splits)
  then show ?case
  proof cases
    case 2
    then show ?thesis by (intro same_text_trans [OF Suc.IH assms])
  qed (simp add: same_text_refl)
qed

lemma re_ends_same_text: "e \<in> set (re_ends r b s) \<Longrightarrow> same_text b s e"
proof (induction r arbitrary: b s e)
  case (Cls P)
  then show ?case by (auto simp: same_text_def split: list.splits if_splits)
next
  case (Seq x y)
  from Seq.prems obtain b' s' where "(b', s') \<in> set (re_ends x b s)" "e \<in> set (re_ends y b' s')" by auto
  then show ?case by (intro same_text_trans [OF Seq.IH(2) Seq.IH(1)])
next
  case (Rep n x)
  then show ?case using iterate_same_text [of "re_ends x"] by auto
qed (auto simp: same_text_refl split: if_splits)

text \<open>A literal matches exactly where the text begins with it.\<close>

lemma lit_ends: "re_ends (lit w) b s = (if prefix w s then [(rev w @ b, drop (length w) s)] else [])"
proof (induction w arbitrary: b s)
  case Nil
  then show ?case by (simp add: lit_def)
next
  case (Cons c w)
  have "lit (c # w) = Seq (Cls (\<lambda>x. x = c)) (lit w)" by (simp add: lit_def)
  with Cons show ?case by (cases s) auto
qed

lemma re_search_iff:
  "re_search r b s \<longleftrightarrow> (\<exists>pre post. s = pre @ post \<and> re_ends r (rev pre @ b) post \<noteq> [])"
proof (induction s arbitrary: b)
  case Nil
  then show ?case by (subst re_search.simps) simp
next
  case (Cons c s)
  note IH = Cons.IH
  show ?case
  proof
    assume "re_search r b (c # s)"
    then consider "re_ends r b (c # s) \<noteq> []" | "re_search r (c # b) s"
      by (subst (asm) re_search.simps) auto
    then show "\<exists>pre post. c # s = pre @ post \<and> re_ends r (rev pre @ b) post \<noteq> []"
    proof cases
      case 1
      then show ?thesis by (intro exI [of _ "[]"] exI [of _ "c # s"]) simp
    next
      case 2
      with Cons.IH obtain pre post where "s = pre @ post" "re_ends r (rev pre @ c # b) post \<noteq> []" by auto
      then show ?thesis by (intro exI [of _ "c # pre"] exI [of _ post]) simp
    qed
  next
    assume "\<exists>pre post. c # s = pre @ post \<and> re_ends r (rev pre @ b) post \<noteq> []"
    then obtain pre post where e: "c # s = pre @ post" "re_ends r (rev pre @ b) post \<noteq> []" by blast
    show "re_search r b (c # s)"
    proof (cases pre)
      case Nil
      with e show ?thesis by (subst re_search.simps) simp
    next
      case (Cons d pre')
      with e have "s = pre' @ post" "re_ends r (rev pre' @ c # b) post \<noteq> []" by auto
      then have "re_search r (c # b) s" unfolding IH by blast
      then show ?thesis by (subst re_search.simps) simp
    qed
  qed
qed

lemma re_test_lit: "re_test (lit w) s \<longleftrightarrow> sublist w s"
  by (auto simp: re_test_def re_search_iff lit_ends sublist_def prefix_def)

lemma re_test_any: "re_test (re_any rs) s \<longleftrightarrow> (\<exists>r \<in> set rs. re_test r s)"
proof -
  have "re_ends (foldl Alt r rs') b t = concat (map (\<lambda>r. re_ends r b t) (r # rs'))" for r rs' b t
    by (induction rs' arbitrary: r) simp_all
  then have "re_ends (re_any rs) b t \<noteq> [] \<longleftrightarrow> (\<exists>r \<in> set rs. re_ends r b t \<noteq> [])" for b t
    by (auto simp: re_any_def split: list.splits)
  then show ?thesis by (auto simp: re_test_def re_search_iff)
qed

lemma re_scan_sublist: "m \<in> set (re_scan r skip b s) \<Longrightarrow> sublist m s"
proof (induction r skip b s rule: re_scan.induct)
  case (2 r skip b c s)
  have mono: "sublist m s \<Longrightarrow> sublist m (c # s)" by (simp add: sublist_Cons_right)
  from 2 mono show ?case
    by (auto simp: Let_def sublist_take split: if_splits list.splits prod.splits)
qed simp

end
