(* ===== verification/Catalog.thy ===== *)
theory Catalog
  imports Table Regex
begin

text \<open>
  The router's candidates (src/router/candidates.ts): the model catalog as it is parsed from the JSON file, the
  models the saved connections can call, and the pool of candidates.  The file, its cache and \<open>JSON.parse\<close>
  are outside: a catalog is parsed from an untyped value.  A number nobody sourced is \<^const>\<open>None\<close>.
\<close>

section \<open>Data\<close>

record context_tier =
  ct_maxTokens :: "int option"
  ct_label :: string

record candidate =
  c_id :: string
  c_provider :: string
  c_apiModelId :: string
  c_displayName :: string
  c_index :: "rat option"
  c_indexSource :: string
  c_price :: "(rat \<times> rat) option"
  c_context :: context_tier
  c_available :: bool
  c_unknowns :: "string list"

record catalog_model =
  cm_modelId :: string
  cm_provider :: string
  cm_priceIn :: "rat option"
  cm_priceOut :: "rat option"
  cm_index :: "rat option"
  cm_indexSource :: string
  cm_contextTier :: string
  cm_displayName :: string

record provider_rule =
  pr_httpStatus :: "rat option"
  pr_key :: string
  pr_label :: string
  pr_providers :: "string list"
  pr_retry :: string
  pr_action :: string
  pr_meaning :: "string option"

record model_catalog =
  mc_loaded :: bool
  mc_models :: "catalog_model list"
  mc_providers :: "(string \<times> string \<times> string) list"
  mc_rules :: "provider_rule list"

record connection =
  cn_prefix :: string
  cn_models :: "string list"

definition EMPTY_CATALOG :: model_catalog where
  "EMPTY_CATALOG = \<lparr>mc_loaded = False, mc_models = [], mc_providers = [], mc_rules = []\<rparr>"

section \<open>Fields\<close>

fun is_unknown :: "js \<Rightarrow> bool" where
  "is_unknown (JNum r) = False"
| "is_unknown _ = True"

fun numeric :: "js \<Rightarrow> rat option" where
  "numeric (JNum r) = Some r"
| "numeric (JStr s) = (if js_trim s \<noteq> [] then js_number (JStr s) else None)"
| "numeric _ = None"

text \<open>
  \<open>/(\d+(?:\.\d+)?)\s*([kKmM])\b/.exec\<close>: the number and its unit at the leftmost place.  A shorter number or less
  white space never helps the match, so no backtracking is needed.
\<close>

definition tier_unit :: "char \<Rightarrow> bool" where
  "tier_unit c = (c = CHR ''k'' \<or> c = CHR ''K'' \<or> c = CHR ''m'' \<or> c = CHR ''M'')"

definition unit_at :: "string \<Rightarrow> char option" where
  "unit_at s =
     (case dropWhile js_ws s of
        u # r \<Rightarrow> (if tier_unit u \<and> (case r of [] \<Rightarrow> True | c # _ \<Rightarrow> \<not> word_char c) then Some u else None)
      | [] \<Rightarrow> None)"

definition tier_at :: "string \<Rightarrow> (rat \<times> char) option" where
  "tier_at s =
     (let ip = takeWhile is_digit s; r = dropWhile is_digit s;
          whole = map_option (\<lambda>u. (of_nat (nat_of_digits 0 ip), u)) (unit_at r)
      in if ip = [] then None
         else (case r of
           CHR ''.'' # r1 \<Rightarrow>
             (let fp = takeWhile is_digit r1; r2 = dropWhile is_digit r1 in
              if fp = [] then whole
              else (case unit_at r2 of
                      Some u \<Rightarrow> Some (of_nat (nat_of_digits 0 (ip @ fp)) / 10 ^ length fp, u)
                    | None \<Rightarrow> whole))
         | _ \<Rightarrow> whole))"

fun tier_search :: "string \<Rightarrow> (rat \<times> char) option" where
  "tier_search [] = None"
| "tier_search (c # s) = (case tier_at (c # s) of Some k \<Rightarrow> Some k | None \<Rightarrow> tier_search s)"

definition parse_context_tier :: "string \<Rightarrow> context_tier" where
  "parse_context_tier raw =
     (let label = js_trim raw in
      if label = [] then \<lparr>ct_maxTokens = None, ct_label = ''desconocido''\<rparr>
      else (case tier_search label of
              None \<Rightarrow> \<lparr>ct_maxTokens = None, ct_label = label\<rparr>
            | Some (base, u) \<Rightarrow>
                (if base \<le> 0 then \<lparr>ct_maxTokens = None, ct_label = label\<rparr>
                 else \<lparr>ct_maxTokens = Some (round_half_up (base *
                          (if u = CHR ''k'' \<or> u = CHR ''K'' then 1000 else 1000000))),
                        ct_label = label\<rparr>)))"

definition char_upper :: "char \<Rightarrow> char" where
  "char_upper c = (let n = (of_char c :: nat) in
     if (97 \<le> n \<and> n \<le> 122) \<or> (224 \<le> n \<and> n \<le> 254 \<and> n \<noteq> 247) then char_of (n - 32) else c)"

definition display_name_of :: "string \<Rightarrow> string" where
  "display_name_of i =
     (let bare = after_last CHR ''/'' i;
          parts = filter (\<lambda>p. p \<noteq> []) (concat (map (split_char CHR ''_'') (split_char CHR ''-'' bare)))
      in join '' '' (map (\<lambda>p. if is_digit (hd p) then p else map char_upper p) parts))"

section \<open>Parsing the catalog\<close>

definition parse_model :: "string \<Rightarrow> js \<Rightarrow> catalog_model option" where
  "parse_model pfx model =
     (if \<not> is_object_or_array model then None
      else
        (let modelId = str_or_empty (js_field ''modelId'' model); idx = js_field ''intelligenceIndex'' model in
         if modelId = [] then None
         else Some \<lparr>cm_modelId = modelId, cm_provider = pfx,
           cm_priceIn = (if idx = JUndef then None else numeric (js_field ''priceIn'' model)),
           cm_priceOut = (if idx = JUndef then None else numeric (js_field ''priceOut'' model)),
           cm_index = (if is_object_or_array idx then numeric (js_field ''value'' idx) else numeric idx),
           cm_indexSource = (if is_object_or_array idx then str_or_empty (js_field ''source'' idx) else []),
           cm_contextTier = str_or_empty (js_field ''contextTier'' model),
           cm_displayName = display_name_of modelId\<rparr>))"

definition parse_provider :: "js \<Rightarrow> ((string \<times> string \<times> string) \<times> catalog_model list) option" where
  "parse_provider entry =
     (if \<not> is_object_or_array entry then None
      else
        (let pfx = (if is_string (js_field ''prefix'' entry) then str_or_empty (js_field ''prefix'' entry)
                    else str_or_empty (js_field ''provider'' entry))
         in if pfx = [] then None
            else Some ((pfx,
                (if is_string (js_field ''displayName'' entry) then str_or_empty (js_field ''displayName'' entry) else pfx),
                str_or_empty (js_field ''billing'' entry)),
              List.map_filter (parse_model pfx) (arr_or_nil (js_field ''models'' entry)))))"

text \<open>\<open>String(status)\<close> of a numeric status: the catalog's are whole numbers.\<close>

definition show_status :: "rat \<Rightarrow> string" where
  "show_status r = show_int \<lfloor>r\<rfloor>"

definition parse_rule :: "js \<Rightarrow> provider_rule option" where
  "parse_rule row =
     (if \<not> is_object_or_array row then None
      else
        (let status = numeric (js_field ''httpStatus'' row); label = str_or_empty (js_field ''label'' row);
             raw = str_or_empty (js_field ''httpStatus'' row);
             shown = (case status of None \<Rightarrow> ''null'' | Some r \<Rightarrow> show_status r)
         in if status = None \<and> raw = [] \<and> label = [] then None
            else Some \<lparr>pr_httpStatus = status,
              pr_key = (if status = None then (if raw \<noteq> [] then raw else label) else shown),
              pr_label = (if label \<noteq> [] then label else if raw \<noteq> [] then raw else shown),
              pr_providers = map str_or_empty (filter is_string (arr_or_nil (js_field ''providers'' row))),
              pr_retry = str_or_empty (js_field ''retry'' row),
              pr_action = str_or_empty (js_field ''action'' row),
              pr_meaning = (if is_string (js_field ''meaning'' row)
                            then Some (str_or_empty (js_field ''meaning'' row)) else None)\<rparr>))"

definition parse_catalog :: "js \<Rightarrow> model_catalog" where
  "parse_catalog raw =
     (if \<not> is_object_or_array raw then EMPTY_CATALOG
      else
        (let ps = List.map_filter parse_provider (arr_or_nil (js_field ''providers'' raw));
             models = concat (map snd ps)
         in \<lparr>mc_loaded = (models \<noteq> []), mc_models = models, mc_providers = map fst ps,
             mc_rules = List.map_filter parse_rule (arr_or_nil (js_field ''errorFallbackRules'' raw))\<rparr>))"

text \<open>
  \<open>loadCatalog\<close>: the cache is keyed by the path and valid for one stamp (modification time and size); \<open>stat\<close> and reading
  the file are arguments.  A file that cannot be read or parsed is an empty catalog.
\<close>

type_synonym catalog_cache = "(string \<times> string \<times> model_catalog) list"

definition load_catalog :: "catalog_cache \<Rightarrow> string \<Rightarrow> string option \<Rightarrow> js option \<Rightarrow> catalog_cache \<times> model_catalog" where
  "load_catalog cache path stamp file =
     (case stamp of
        None \<Rightarrow> (cache, EMPTY_CATALOG)
      | Some st \<Rightarrow>
          (let parsed = (case file of None \<Rightarrow> EMPTY_CATALOG | Some raw \<Rightarrow> parse_catalog raw) in
           case map_of cache path of
             Some (st', catalog) \<Rightarrow> (if st' = st then (cache, catalog) else (upsert fst (path, st, parsed) cache, parsed))
           | None \<Rightarrow> (upsert fst (path, st, parsed) cache, parsed)))"

section \<open>The pool\<close>

definition qualified_id :: "connection \<Rightarrow> string \<Rightarrow> string" where
  "qualified_id cn m = (if CHR ''/'' \<in> set m then m else cn_prefix cn @ ''/'' @ m)"

text \<open>The keys of the map, in order; the first connection that has a model is the one kept.\<close>

definition connected_model_ids :: "connection list \<Rightarrow> (string \<times> connection) list" where
  "connected_model_ids cs =
     fold (\<lambda>(k, cn) out. if map_of out k = None then out @ [(k, cn)] else out)
       (concat (map (\<lambda>cn. map (\<lambda>m. (qualified_id cn m, cn)) (cn_models cn)) cs)) []"

definition candidate_of :: "(string \<Rightarrow> bool) \<Rightarrow> catalog_model \<Rightarrow> candidate" where
  "candidate_of callable row =
     (let price = (case (cm_priceIn row, cm_priceOut row) of (Some i, Some p) \<Rightarrow> Some (i, p) | _ \<Rightarrow> None);
          tier = parse_context_tier (cm_contextTier row);
          api = drop (Suc (length (cm_provider row))) (cm_modelId row)
      in \<lparr>c_id = cm_modelId row, c_provider = cm_provider row,
          c_apiModelId = (if api = [] then cm_modelId row else api),
          c_displayName = cm_displayName row, c_index = cm_index row, c_indexSource = cm_indexSource row,
          c_price = price, c_context = tier, c_available = callable (cm_modelId row),
          c_unknowns = (if price = None then [''price''] else []) @
            (if cm_index row = None then [''intelligenceIndex''] else []) @
            (if ct_maxTokens tier = None then [''contextTier''] else [])\<rparr>)"

fun pool_of :: "(string \<Rightarrow> bool) \<Rightarrow> string list \<Rightarrow> catalog_model list \<Rightarrow> candidate list" where
  "pool_of callable seen [] = []"
| "pool_of callable seen (row # rows) =
     (if cm_modelId row \<in> set seen then pool_of callable seen rows
      else candidate_of callable row # pool_of callable (cm_modelId row # seen) rows)"

definition build_candidates :: "model_catalog \<Rightarrow> bool \<Rightarrow> connection list \<Rightarrow> candidate list" where
  "build_candidates catalog catalogOnly cs =
     (let ids = (if catalogOnly then [] else connected_model_ids cs)
      in pool_of (\<lambda>i. map_of ids i \<noteq> None) [] (mc_models catalog))"

section \<open>Lemmas\<close>

lemma candidate_of_id [simp]: "c_id (candidate_of callable row) = cm_modelId row"
  by (simp add: candidate_of_def Let_def)

lemma pool_of_ids: "c_id ` set (pool_of callable seen rows) = cm_modelId ` set rows - set seen"
  by (induction callable seen rows rule: pool_of.induct) auto

lemma pool_of_distinct: "distinct (map c_id (pool_of callable seen rows))"
proof (induction callable seen rows rule: pool_of.induct)
  case (2 callable seen row rows)
  then show ?case
    using pool_of_ids [of callable "cm_modelId row # seen" rows] by auto
qed simp

lemma pool_of_first:
  "c \<in> set (pool_of callable seen rows) \<Longrightarrow>
   \<exists>row. find (\<lambda>row. cm_modelId row = c_id c) rows = Some row \<and> c = candidate_of callable row"
proof (induction callable seen rows rule: pool_of.induct)
  case (2 callable seen row rows)
  show ?case
  proof (cases "cm_modelId row \<in> set seen")
    case True
    with 2 have mem: "c \<in> set (pool_of callable seen rows)" by simp
    then have "c_id c \<in> cm_modelId ` set rows - set seen"
      using pool_of_ids [of callable seen rows] by blast
    with True have "cm_modelId row \<noteq> c_id c" by auto
    with "2.IH"(1) [OF True mem] show ?thesis by simp
  next
    case False
    show ?thesis
    proof (cases "c = candidate_of callable row")
      case True
      then show ?thesis by simp
    next
      case neq: False
      with 2 False have mem: "c \<in> set (pool_of callable (cm_modelId row # seen) rows)" by simp
      then have "c_id c \<in> cm_modelId ` set rows - set (cm_modelId row # seen)"
        using pool_of_ids [of callable "cm_modelId row # seen" rows] by blast
      then have "cm_modelId row \<noteq> c_id c" by auto
      with "2.IH"(2) [OF False mem] show ?thesis by simp
    qed
  qed
qed simp

lemma connected_fold_dom:
  "dom (map_of (fold (\<lambda>(k, cn) out. if map_of out k = None then out @ [(k, cn)] else out) kcs out)) =
    fst ` set kcs \<union> dom (map_of out)"
proof (induction kcs arbitrary: out)
  case (Cons kc kcs)
  obtain k cn where kc: "kc = (k, cn)" by (cases kc)
  show ?case
    using Cons.IH [of "if map_of out k = None then out @ [(k, cn)] else out"]
    by (auto simp: kc dom_def image_iff split: if_splits)
qed simp

lemma connected_model_ids_dom:
  "map_of (connected_model_ids cs) i \<noteq> None \<longleftrightarrow> (\<exists>cn \<in> set cs. \<exists>m \<in> set (cn_models cn). i = qualified_id cn m)"
proof -
  have "map_of (connected_model_ids cs) i \<noteq> None \<longleftrightarrow> i \<in> dom (map_of (connected_model_ids cs))" by auto
  also have "\<dots> \<longleftrightarrow> i \<in> fst ` set (concat (map (\<lambda>cn. map (\<lambda>m. (qualified_id cn m, cn)) (cn_models cn)) cs))"
    unfolding connected_model_ids_def connected_fold_dom by simp
  also have "\<dots> \<longleftrightarrow> (\<exists>cn \<in> set cs. \<exists>m \<in> set (cn_models cn). i = qualified_id cn m)"
    by (auto simp: image_iff)
  finally show ?thesis .
qed

section \<open>Properties\<close>

text \<open>
  the pool has one candidate for each model id of the catalog, made from its first row; it is available exactly
  when a saved connection lists that id, its price is known only when both prices are, and the unknowns
  name exactly what is missing.
\<close>

theorem pool_is_the_catalog:
  "distinct (map c_id (build_candidates cat catalogOnly cs)) \<and>
   c_id ` set (build_candidates cat catalogOnly cs) = cm_modelId ` set (mc_models cat) \<and>
   (c \<in> set (build_candidates cat catalogOnly cs) \<longrightarrow>
      (c_available c \<longleftrightarrow> \<not> catalogOnly \<and> (\<exists>cn \<in> set cs. \<exists>m \<in> set (cn_models cn). c_id c = qualified_id cn m)) \<and>
      (\<exists>row. find (\<lambda>row. cm_modelId row = c_id c) (mc_models cat) = Some row \<and> c_index c = cm_index row \<and>
         (c_price c = None \<longleftrightarrow> cm_priceIn row = None \<or> cm_priceOut row = None)) \<and>
      (''price'' \<in> set (c_unknowns c) \<longleftrightarrow> c_price c = None) \<and>
      (''intelligenceIndex'' \<in> set (c_unknowns c) \<longleftrightarrow> c_index c = None) \<and>
      (''contextTier'' \<in> set (c_unknowns c) \<longleftrightarrow> ct_maxTokens (c_context c) = None))"
proof -
  let ?ids = "if catalogOnly then [] else connected_model_ids cs"
  let ?con = "\<lambda>i. map_of ?ids i \<noteq> None"
  have pool: "build_candidates cat catalogOnly cs = pool_of ?con [] (mc_models cat)"
    by (simp add: build_candidates_def Let_def)
  have con: "?con i \<longleftrightarrow> \<not> catalogOnly \<and> (\<exists>cn \<in> set cs. \<exists>m \<in> set (cn_models cn). i = qualified_id cn m)" for i
    using connected_model_ids_dom [of cs i] by (cases catalogOnly) auto
  have ids: "c_id ` set (build_candidates cat catalogOnly cs) = cm_modelId ` set (mc_models cat)"
    unfolding pool pool_of_ids by simp
  have "(c_available c \<longleftrightarrow> \<not> catalogOnly \<and> (\<exists>cn \<in> set cs. \<exists>m \<in> set (cn_models cn). c_id c = qualified_id cn m)) \<and>
      (\<exists>row. find (\<lambda>row. cm_modelId row = c_id c) (mc_models cat) = Some row \<and> c_index c = cm_index row \<and>
         (c_price c = None \<longleftrightarrow> cm_priceIn row = None \<or> cm_priceOut row = None)) \<and>
      (''price'' \<in> set (c_unknowns c) \<longleftrightarrow> c_price c = None) \<and>
      (''intelligenceIndex'' \<in> set (c_unknowns c) \<longleftrightarrow> c_index c = None) \<and>
      (''contextTier'' \<in> set (c_unknowns c) \<longleftrightarrow> ct_maxTokens (c_context c) = None)"
    if mem: "c \<in> set (build_candidates cat catalogOnly cs)"
  proof -
    obtain row where row: "find (\<lambda>row. cm_modelId row = c_id c) (mc_models cat) = Some row" "c = candidate_of ?con row"
      using pool_of_first [OF mem [unfolded pool]] by blast
    have avail: "c_available c \<longleftrightarrow> ?con (c_id c)" by (simp add: row(2) candidate_of_def Let_def)
    have price: "c_price c = None \<longleftrightarrow> cm_priceIn row = None \<or> cm_priceOut row = None" "c_index c = cm_index row"
      by (auto simp: row(2) candidate_of_def Let_def split: option.splits)
    have unknowns: "''price'' \<in> set (c_unknowns c) \<longleftrightarrow> c_price c = None"
      "''intelligenceIndex'' \<in> set (c_unknowns c) \<longleftrightarrow> c_index c = None"
      "''contextTier'' \<in> set (c_unknowns c) \<longleftrightarrow> ct_maxTokens (c_context c) = None"
      by (auto simp: row(2) candidate_of_def Let_def)
    have "c_available c \<longleftrightarrow> \<not> catalogOnly \<and> (\<exists>cn \<in> set cs. \<exists>m \<in> set (cn_models cn). c_id c = qualified_id cn m)"
      using avail by (simp only: con)
    then show ?thesis by (intro conjI exI [of _ row] row(1) price unknowns)
  qed
  moreover have "distinct (map c_id (build_candidates cat catalogOnly cs))"
    unfolding pool by (rule pool_of_distinct)
  ultimately show ?thesis using ids by (intro conjI impI) simp_all
qed

definition ex_catalog :: js where
  "ex_catalog = JObj [(''providers'', JArr [JObj [(''prefix'', JStr ''zai''), (''models'', JArr [
     JObj [(''modelId'', JStr ''zai/a''), (''intelligenceIndex'', JNum 40), (''priceIn'', JNum 1), (''priceOut'', JNum 3),
       (''contextTier'', JStr ''200K tokens'')],
     JObj [(''modelId'', JStr ''zai/a''), (''intelligenceIndex'', JNum 10)],
     JObj [(''modelId'', JStr ''zai/b''), (''priceIn'', JNum 1), (''priceOut'', JNum 3)]])]])]"

theorem pool_is_the_catalog_witness:
  "map (\<lambda>c. (c_id c, c_available c, c_index c, c_unknowns c))
     (build_candidates (parse_catalog ex_catalog) False [\<lparr>cn_prefix = ''zai'', cn_models = [''a'']\<rparr>]) =
     [(''zai/a'', True, Some 40, []), (''zai/b'', False, None, [''price'', ''intelligenceIndex'', ''contextTier''])] \<and>
   distinct (map c_id (build_candidates (parse_catalog ex_catalog) False [\<lparr>cn_prefix = ''zai'', cn_models = [''a'']\<rparr>]))"
proof -
  have "map (\<lambda>c. (c_id c, c_available c, c_index c, c_unknowns c))
     (build_candidates (parse_catalog ex_catalog) False [\<lparr>cn_prefix = ''zai'', cn_models = [''a'']\<rparr>]) =
     [(''zai/a'', True, Some 40, []), (''zai/b'', False, None, [''price'', ''intelligenceIndex'', ''contextTier''])]"
    by code_simp
  with pool_is_the_catalog [of "parse_catalog ex_catalog" False "[\<lparr>cn_prefix = ''zai'', cn_models = [''a'']\<rparr>]"]
  show ?thesis by blast
qed

text \<open>
  a catalog row that has prices but no \<open>intelligenceIndex\<close> key loses its prices, so its candidate counts as one
  whose price nobody sourced.
\<close>

theorem price_lost_without_index:
  assumes "parse_model pfx model = Some row" "js_field ''intelligenceIndex'' model = JUndef"
  shows "cm_priceIn row = None \<and> cm_priceOut row = None \<and> c_price (candidate_of callable row) = None \<and>
    ''price'' \<in> set (c_unknowns (candidate_of callable row))"
  using assms by (auto simp: parse_model_def candidate_of_def Let_def split: if_splits)

theorem price_lost_without_index_witness:
  "\<exists>row. parse_model ''zai'' (JObj [(''modelId'', JStr ''zai/b''), (''priceIn'', JNum 1), (''priceOut'', JNum 3)]) = Some row \<and>
     cm_priceIn row = None \<and> cm_priceOut row = None"
proof -
  obtain row where "parse_model ''zai'' (JObj [(''modelId'', JStr ''zai/b''), (''priceIn'', JNum 1), (''priceOut'', JNum 3)]) = Some row"
    by (simp add: parse_model_def Let_def)
  with price_lost_without_index [OF this] show ?thesis by simp
qed

end
