(* ===== verification/Breaker.thy ===== *)
theory Breaker
  imports Table Regex
begin

text \<open>
  The router's circuit breaker (src/router/breaker.ts): one row per model in the table \<open>breakers\<close>, whether a
  model may be used at a time, a failure that opens its circuit, a success that closes it, an operator's
  reset, and the classification of what a provider said.  A time is a number of milliseconds.

  The abstract view of a model's circuit is its streak: how many failures it had since the last success
  or reset, and the last of them.  \<open>breaker_refines\<close> says that the table shows exactly that.
\<close>

section \<open>Data\<close>

datatype breaker_reason =
    RateLimited | QuotaExhausted | PaymentRequired | ServerError | Timeout | EmptyContent | Auth | UnknownReason

datatype breaker_state = Closed | Open | HalfOpen

record breaker_row =
  k_model :: string
  k_state :: breaker_state
  k_openUntil :: int
  k_failures :: nat
  k_reason :: breaker_reason
  k_detail :: string
  k_lastFailureAt :: int
  k_openedAt :: int

record breaker_status =
  bs_model :: string
  bs_state :: breaker_state
  bs_blocked :: bool
  bs_reason :: breaker_reason
  bs_detail :: string
  bs_failures :: nat
  bs_retryAt :: int

type_synonym breakers = "breaker_row list"

definition COOLDOWN_MS :: "int list" where
  "COOLDOWN_MS = [60000, 300000, 900000, 1800000, 3600000]"

definition PERMANENT :: "breaker_reason list" where
  "PERMANENT = [Auth]"

text \<open>\<open>text\<close>: control characters become spaces, and the length is bounded.\<close>

definition clean_text :: "string \<Rightarrow> string" where
  "clean_text s = slice_to 256 (map (\<lambda>c. if is_control c \<or> c = CHR 0x7F then CHR '' '' else c) s)"

section \<open>Operations\<close>

definition breaker_row_of :: "breakers \<Rightarrow> string \<Rightarrow> breaker_row option" where
  "breaker_row_of b m = row_of k_model m b"

definition breaker_status :: "breakers \<Rightarrow> string \<Rightarrow> int \<Rightarrow> breaker_status" where
  "breaker_status b m now =
     (let res = (\<lambda>st bl re de fa ra. \<lparr>bs_model = m, bs_state = st, bs_blocked = bl, bs_reason = re,
                   bs_detail = de, bs_failures = fa, bs_retryAt = ra\<rparr>)
      in case breaker_row_of b m of
           None \<Rightarrow> res Closed False UnknownReason [] 0 0
         | Some r \<Rightarrow>
             (let re = k_reason r; de = clean_text (k_detail r); fa = k_failures r in
              if k_state r = Closed then res Closed False re de fa 0
              else if k_openUntil r = 0 then res Open True re de fa 0
              else if now < k_openUntil r then res Open True re de fa (k_openUntil r)
              else res HalfOpen False re de fa 0))"

definition cooldown :: "nat \<Rightarrow> int" where
  "cooldown failures = COOLDOWN_MS ! (min failures (length COOLDOWN_MS) - 1)"

definition put_breaker :: "breakers \<Rightarrow> breaker_row \<Rightarrow> breakers" where
  "put_breaker b r = upsert k_model r b"

definition trip :: "breakers \<Rightarrow> string \<Rightarrow> breaker_reason \<Rightarrow> string \<Rightarrow> int \<Rightarrow> breakers \<times> breaker_status" where
  "trip b m reason detail now =
     (let failures = Suc (bs_failures (breaker_status b m now));
          until = (if reason \<in> set PERMANENT then 0 else now + cooldown failures)
      in (put_breaker b \<lparr>k_model = m, k_state = Open, k_openUntil = until, k_failures = failures,
            k_reason = reason, k_detail = clean_text detail, k_lastFailureAt = now, k_openedAt = now\<rparr>,
          \<lparr>bs_model = m, bs_state = Open, bs_blocked = True, bs_reason = reason, bs_detail = detail,
           bs_failures = failures, bs_retryAt = until\<rparr>))"

text \<open>\<open>close\<close> keeps the times of the last failure of a row that exists.\<close>

definition close_breaker :: "breakers \<Rightarrow> string \<Rightarrow> breakers" where
  "close_breaker b m =
     (let (lf, oa) = (case breaker_row_of b m of None \<Rightarrow> (0, 0) | Some r \<Rightarrow> (k_lastFailureAt r, k_openedAt r))
      in put_breaker b \<lparr>k_model = m, k_state = Closed, k_openUntil = 0, k_failures = 0,
           k_reason = UnknownReason, k_detail = [], k_lastFailureAt = lf, k_openedAt = oa\<rparr>)"

definition drop_breaker :: "breakers \<Rightarrow> string \<Rightarrow> breakers" where
  "drop_breaker b m = delete_key k_model m b"

definition reset_breaker :: "breakers \<Rightarrow> string \<Rightarrow> breakers \<times> bool" where
  "reset_breaker b m = (drop_breaker b m, breaker_row_of b m \<noteq> None)"

definition list_breakers :: "breakers \<Rightarrow> int \<Rightarrow> breaker_status list" where
  "list_breakers b now =
     map (\<lambda>r. breaker_status b (clean_text (k_model r)) now)
       (sort_stable (\<lambda>x y. k_openedAt y < k_openedAt x) b)"

section \<open>Classification\<close>

record failure =
  f_status :: "int option"
  f_message :: "string option"
  f_empty :: bool

definition word :: "string \<Rightarrow> re" where
  "word s = re_seq [Boundary, lit s, Boundary]"

definition TRANSPORT :: re where
  "TRANSPORT = re_any (map lit [''abort'', ''timeout'', ''timed out'', ''etimedout'', ''deadline'',
     ''socket hang up'', ''network'', ''fetch failed''])"

definition RATE :: re where
  "RATE = re_any [re_seq [lit ''rate'', re_opt dot, lit ''limit''], lit ''too many requests'', word ''429'']"

definition PAYMENT :: re where
  "PAYMENT = re_any [re_seq [lit ''insufficient '', re_any [lit ''credits'', lit ''funds'', lit ''balance'']],
     word ''402'', lit ''payment required'']"

definition QUOTA :: re where
  "QUOTA = re_any [lit ''quota'', lit ''exhausted'', lit ''rate window'', word ''403'']"

definition SERVER :: re where
  "SERVER = re_any [re_seq [lit ''5'', digit, digit, Boundary], lit ''internal server'', lit ''bad gateway'',
     lit ''service unavailable'', lit ''gateway timeout'', lit ''overloaded'']"

definition SLOW :: re where
  "SLOW = re_any [re_seq [lit ''time'', re_opt (lit ''d''), re_opt (lit '' ''), lit ''out''], lit ''abort'']"

definition classify_failure :: "failure \<Rightarrow> breaker_reason" where
  "classify_failure e =
     (let status = f_status e;
          message = js_lower (case f_message e of None \<Rightarrow> [] | Some s \<Rightarrow> s)
      in if f_empty e then EmptyContent
         else if status = Some 429 then RateLimited
         else if status = Some 402 then PaymentRequired
         else if status = Some 403 then QuotaExhausted
         else if status = Some 401 then Auth
         else if (case status of None \<Rightarrow> False | Some s \<Rightarrow> 500 \<le> s \<and> s \<le> 599) then ServerError
         else if (status = None \<or> status = Some 408) \<and> re_test TRANSPORT message then Timeout
         else if re_test RATE message then RateLimited
         else if re_test PAYMENT message then PaymentRequired
         else if re_test QUOTA message then QuotaExhausted
         else if re_test SERVER message then ServerError
         else if re_test SLOW message then Timeout
         else UnknownReason)"

fun reason_label :: "breaker_reason \<Rightarrow> string" where
  "reason_label RateLimited = ''429 rate limited''"
| "reason_label QuotaExhausted = ''403 quota window exhausted''"
| "reason_label PaymentRequired = ''402 insufficient credits''"
| "reason_label ServerError = ''5xx server error''"
| "reason_label Timeout = ''timeout''"
| "reason_label EmptyContent = ''empty content (null reply)''"
| "reason_label Auth = ''401 auth/permission''"
| "reason_label UnknownReason = ''unknown failure''"

section \<open>The table\<close>

interpretation breaker_store: keyed_store_delete breaker_row_of put_breaker k_model id drop_breaker
proof
  show "breaker_row_of s k = Some r \<Longrightarrow> k_model r = k" for s k r
    by (auto simp: breaker_row_of_def dest: row_of_SomeD)
qed (simp_all add: breaker_row_of_def put_breaker_def drop_breaker_def)

lemma clean_text_idem [simp]: "clean_text (clean_text s) = clean_text s"
  by (auto simp: clean_text_def slice_to_def take_map is_control_def)

lemma cooldown_pos: "0 < cooldown n"
proof -
  have "COOLDOWN_MS ! i \<in> set COOLDOWN_MS" if "i < length COOLDOWN_MS" for i using that by (rule nth_mem)
  moreover have "min n (length COOLDOWN_MS) - 1 < length COOLDOWN_MS" by (simp add: COOLDOWN_MS_def)
  ultimately have "cooldown n \<in> set COOLDOWN_MS" unfolding cooldown_def by blast
  then show ?thesis by (auto simp: COOLDOWN_MS_def)
qed

lemma trip_blocks: "bs_blocked (breaker_status (fst (trip b m re d now)) m now)"
  using cooldown_pos [of "Suc (bs_failures (breaker_status b m now))"]
  by (simp add: breaker_status_def trip_def Let_def breaker_store.find_put)

lemma breaker_status_other:
  "m' \<noteq> m \<Longrightarrow> breaker_status (fst (trip b m re d t)) m' now = breaker_status b m' now"
  "m' \<noteq> m \<Longrightarrow> breaker_status (close_breaker b m) m' now = breaker_status b m' now"
  "m' \<noteq> m \<Longrightarrow> breaker_status (fst (reset_breaker b m)) m' now = breaker_status b m' now"
  by (simp_all add: breaker_status_def trip_def close_breaker_def reset_breaker_def Let_def
      breaker_store.find_put breaker_store.find_del split: prod.split)

section \<open>Streaks\<close>

datatype breaker_event =
    Trip string breaker_reason string int
  | Close string
  | Reset string

fun breaker_step :: "breaker_event \<Rightarrow> breakers \<Rightarrow> breakers" where
  "breaker_step (Trip m re d t) b = fst (trip b m re d t)"
| "breaker_step (Close m) b = close_breaker b m"
| "breaker_step (Reset m) b = fst (reset_breaker b m)"

type_synonym streak = "nat \<times> (breaker_reason \<times> string \<times> int) option"

fun streak_step :: "string \<Rightarrow> breaker_event \<Rightarrow> streak \<Rightarrow> streak" where
  "streak_step m (Trip m' re d t) s = (if m' = m then (Suc (fst s), Some (re, d, t)) else s)"
| "streak_step m (Close m') s = (if m' = m then (0, None) else s)"
| "streak_step m (Reset m') s = (if m' = m then (0, None) else s)"

definition streak_of :: "string \<Rightarrow> breaker_event list \<Rightarrow> streak" where
  "streak_of m evs = fold (streak_step m) evs (0, None)"

definition streak_status :: "string \<Rightarrow> streak \<Rightarrow> int \<Rightarrow> breaker_status" where
  "streak_status m s now =
     (case s of
        (n, None) \<Rightarrow> \<lparr>bs_model = m, bs_state = Closed, bs_blocked = False, bs_reason = UnknownReason,
          bs_detail = [], bs_failures = 0, bs_retryAt = 0\<rparr>
      | (n, Some (re, d, t)) \<Rightarrow>
          (let base = \<lparr>bs_model = m, bs_state = Open, bs_blocked = True, bs_reason = re,
                 bs_detail = clean_text d, bs_failures = n, bs_retryAt = 0\<rparr>
           in if re = Auth then base
              else if now < t + cooldown n then base\<lparr>bs_retryAt := t + cooldown n\<rparr>
              else base\<lparr>bs_state := HalfOpen, bs_blocked := False\<rparr>))"

definition trip_time :: "breaker_event \<Rightarrow> int" where
  "trip_time ev = (case ev of Trip m re d t \<Rightarrow> t | _ \<Rightarrow> 0)"

text \<open>The row of a model, as its streak says; the times of a closed row do not show in its status.\<close>

definition row_shows :: "string \<Rightarrow> breakers \<Rightarrow> streak \<Rightarrow> bool" where
  "row_shows m b s \<longleftrightarrow>
     (case s of
        (n, None) \<Rightarrow> n = 0 \<and> (case breaker_row_of b m of None \<Rightarrow> True
          | Some r \<Rightarrow> k_state r = Closed \<and> k_failures r = 0 \<and> k_reason r = UnknownReason \<and> k_detail r = [])
      | (n, Some (re, d, t)) \<Rightarrow> (\<exists>r. breaker_row_of b m = Some r \<and> k_state r = Open \<and> k_failures r = n \<and>
          k_reason r = re \<and> k_detail r = clean_text d \<and>
          k_openUntil r = (if re = Auth then 0 else t + cooldown n) \<and> 0 < t + cooldown n))"

lemma clean_text_Nil [simp]: "clean_text [] = []"
  by (simp add: clean_text_def slice_to_def)

lemma row_shows_status: "row_shows m b s \<Longrightarrow> breaker_status b m now = streak_status m s now"
  by (auto simp: row_shows_def breaker_status_def streak_status_def Let_def split: prod.splits option.splits)

lemma row_shows_other: "breaker_row_of b' m = breaker_row_of b m \<Longrightarrow> row_shows m b s \<Longrightarrow> row_shows m b' s"
  by (simp only: row_shows_def)

lemma row_shows_step:
  assumes "row_shows m b s" "0 \<le> trip_time ev"
  shows "row_shows m (breaker_step ev b) (streak_step m ev s)"
proof (cases ev)
  case (Trip m' re d t)
  show ?thesis
  proof (cases "m' = m")
    case True
    have "bs_failures (breaker_status b m t) = fst s"
      using assms(1) by (auto simp: row_shows_status streak_status_def Let_def row_shows_def split: prod.splits option.splits)
    moreover have "0 < t + cooldown (Suc (fst s))" using assms(2) Trip cooldown_pos [of "Suc (fst s)"] by (simp add: trip_time_def)
    ultimately show ?thesis
      using True Trip by (simp add: row_shows_def trip_def Let_def breaker_store.find_put PERMANENT_def)
  next
    case False
    then have "breaker_row_of (breaker_step ev b) m = breaker_row_of b m"
      by (simp add: Trip trip_def Let_def breaker_store.find_put)
    from row_shows_other [OF this assms(1)] False Trip show ?thesis by simp
  qed
next
  case (Close m')
  show ?thesis
  proof (cases "m' = m")
    case True
    with Close show ?thesis
      by (simp add: row_shows_def close_breaker_def Let_def breaker_store.find_put split: prod.split)
  next
    case False
    then have "breaker_row_of (breaker_step ev b) m = breaker_row_of b m"
      by (simp add: Close close_breaker_def Let_def breaker_store.find_put split: prod.split)
    from row_shows_other [OF this assms(1)] False Close show ?thesis by simp
  qed
next
  case (Reset m')
  show ?thesis
  proof (cases "m' = m")
    case True
    with Reset show ?thesis by (simp add: row_shows_def reset_breaker_def breaker_store.find_del)
  next
    case False
    then have "breaker_row_of (breaker_step ev b) m = breaker_row_of b m"
      by (simp add: Reset reset_breaker_def breaker_store.find_del)
    from row_shows_other [OF this assms(1)] False Reset show ?thesis by simp
  qed
qed

lemma row_shows_fold:
  assumes "list_all (\<lambda>ev. 0 \<le> trip_time ev) evs" "row_shows m b s"
  shows "row_shows m (fold breaker_step evs b) (fold (streak_step m) evs s)"
  using assms
proof (induction evs arbitrary: b s)
  case (Cons ev evs)
  then show ?case using row_shows_step [of m b s ev] by simp
qed simp

lemma row_shows_empty: "row_shows m [] (0, None)"
  by (simp add: row_shows_def breaker_row_of_def)

lemma streak_append:
  "fold (streak_step m) (map (\<lambda>(re, d, t). Trip m re d t) fs) (n, x) =
    (n + length fs, if fs = [] then x else Some (last fs))"
  by (induction fs arbitrary: n x) auto

section \<open>Properties\<close>

text \<open>
  C7: the table shows each model's streak.  After any sequence of failures, successes and resets of any
  models (at times from 0 on), the status of a model is closed when it has not failed since its last success
  or reset; otherwise it is blocked until the last failure plus the cooldown of the number of failures in
  a row (for ever, when the last one is a revoked key), and then one probe is allowed.
\<close>

theorem breaker_refines:
  assumes "list_all (\<lambda>ev. 0 \<le> trip_time ev) evs"
  shows "breaker_status (fold breaker_step evs []) m now = streak_status m (streak_of m evs) now"
  using row_shows_status [OF row_shows_fold [OF assms row_shows_empty]] by (simp add: streak_of_def)

theorem breaker_refines_witness:
  "bs_retryAt (breaker_status (fold breaker_step [Trip ''a'' RateLimited [] 0, Trip ''b'' Auth [] 5, Trip ''a'' Timeout [] 10] []) ''a'' 20)
     = 300010 \<and>
   bs_blocked (breaker_status (fold breaker_step [Trip ''a'' RateLimited [] 0, Close ''a''] []) ''a'' 20) = False"
  using breaker_refines [of "[Trip ''a'' RateLimited [] 0, Trip ''b'' Auth [] 5, Trip ''a'' Timeout [] 10]" "''a''" 20]
    breaker_refines [of "[Trip ''a'' RateLimited [] 0, Close ''a'']" "''a''" 20]
  by (simp add: trip_time_def streak_of_def streak_status_def Let_def cooldown_def COOLDOWN_MS_def)

text \<open>
  failures in a row escalate.  A model that fails \<open>n\<close> times in a row without a success or a reset is
  out, after the last failure at \<open>t\<close>, until exactly \<open>t\<close> plus the \<open>n\<close>-th cooldown (the last one is the ceiling),
  unless its key was revoked, and is then allowed one probe; a success ends the streak at once.
\<close>

theorem trips_escalate:
  assumes "fs \<noteq> []" "last fs = (re, d, t)" "re \<noteq> Auth"
    and "list_all (\<lambda>(re, d, t). 0 \<le> t) fs"
  shows "(bs_blocked (breaker_status (fold breaker_step (map (\<lambda>(re, d, t). Trip m re d t) fs) []) m now) \<longleftrightarrow>
      now < t + COOLDOWN_MS ! (min (length fs) 5 - 1)) \<and>
    \<not> bs_blocked (breaker_status (fold breaker_step (map (\<lambda>(re, d, t). Trip m re d t) fs @ [Close m]) []) m now)"
proof -
  have ok: "list_all (\<lambda>ev. 0 \<le> trip_time ev) (map (\<lambda>(re, d, t). Trip m re d t) fs)"
    using assms(4) by (auto simp: list_all_iff trip_time_def)
  note shown = row_shows_fold [OF ok row_shows_empty, of m]
  have len: "length COOLDOWN_MS = 5" by (simp add: COOLDOWN_MS_def)
  have "bs_blocked (breaker_status (fold breaker_step (map (\<lambda>(re, d, t). Trip m re d t) fs) []) m now) \<longleftrightarrow>
      now < t + COOLDOWN_MS ! (min (length fs) 5 - 1)"
    using assms(1-3)
    by (simp add: row_shows_status [OF shown] streak_append streak_status_def Let_def cooldown_def len)
  moreover have "\<not> bs_blocked (breaker_status (fold breaker_step (map (\<lambda>(re, d, t). Trip m re d t) fs @ [Close m]) []) m now)"
    using row_shows_step [OF shown, of "Close m"]
    by (simp add: trip_time_def row_shows_status [of m _ "(0, None)"] streak_status_def)
  ultimately show ?thesis by blast
qed

theorem trips_escalate_witness:
  "bs_blocked (breaker_status (fold breaker_step (map (\<lambda>(re, d, t). Trip ''a'' re d t) (replicate 7 (Timeout, [], 100))) []) ''a'' 3600099) \<and>
   \<not> bs_blocked (breaker_status (fold breaker_step (map (\<lambda>(re, d, t). Trip ''a'' re d t) (replicate 7 (Timeout, [], 100))) []) ''a'' 3600100)"
  using trips_escalate [of "replicate 7 (Timeout, [], 100)" Timeout "[]" 100 "''a''" 3600099]
    trips_escalate [of "replicate 7 (Timeout, [], 100)" Timeout "[]" 100 "''a''" 3600100]
  by (simp add: COOLDOWN_MS_def list_all_iff del: map_replicate)

text \<open>
  a revoked key blocks a model whatever the time, until a success, a reset or another failure of that
  model; but one more failure of another kind puts it on a timer, after which it is allowed again.
\<close>

theorem auth_block_lost:
  assumes "0 \<le> t" "0 \<le> t'" "re \<noteq> Auth"
  shows "bs_blocked (breaker_status (breaker_step (Trip m Auth d t) b) m now) \<and>
    \<not> bs_blocked (breaker_status (breaker_step (Trip m re d' t') (breaker_step (Trip m Auth d t) b)) m (t' + 3600000))"
proof
  show "bs_blocked (breaker_status (breaker_step (Trip m Auth d t) b) m now)"
    by (simp add: trip_def Let_def breaker_status_def breaker_store.find_put PERMANENT_def)
  have "cooldown n \<le> 3600000" for n
  proof -
    have "min n 5 - 1 < 5" by simp
    then have "min n 5 - 1 \<in> {0, 1, 2, 3, 4}" by auto
    then show ?thesis by (auto simp: cooldown_def COOLDOWN_MS_def)
  qed
  moreover have "t' + cooldown n \<noteq> 0" for n using cooldown_pos [of n] assms(2) by linarith
  ultimately show "\<not> bs_blocked (breaker_status (breaker_step (Trip m re d' t') (breaker_step (Trip m Auth d t) b)) m (t' + 3600000))"
    using assms(3) by (simp add: trip_def Let_def breaker_status_def breaker_store.find_put PERMANENT_def not_less)
qed

theorem auth_block_lost_witness:
  "bs_state (breaker_status (breaker_step (Trip ''a'' Timeout [] 10) (breaker_step (Trip ''a'' Auth [] 0) [])) ''a'' 3600010) = HalfOpen \<and>
   \<not> bs_blocked (breaker_status (breaker_step (Trip ''a'' Timeout [] 10) (breaker_step (Trip ''a'' Auth [] 0) [])) ''a'' 3600010)"
proof -
  have "bs_state (breaker_status (breaker_step (Trip ''a'' Timeout [] 10) (breaker_step (Trip ''a'' Auth [] 0) [])) ''a'' 3600010) = HalfOpen"
    by code_simp
  with auth_block_lost [of 0 10 Timeout "''a''" "[]" "[]" _ "[]"] show ?thesis by simp
qed

text \<open>
  the failure a provider reports is classified by its status first; a text that names a rate limit is a rate
  limit when no status says otherwise, and an empty answer is one whatever the status and the text.
\<close>

theorem classify_by_status:
  "(f_empty e \<longrightarrow> classify_failure e = EmptyContent) \<and>
   (\<not> f_empty e \<longrightarrow>
      (classify_failure e = Auth \<longleftrightarrow> f_status e = Some 401) \<and>
      (\<forall>s. f_status e = Some s \<and> 500 \<le> s \<and> s \<le> 599 \<longrightarrow> classify_failure e = ServerError) \<and>
      (\<forall>msg. f_status e = None \<and> f_message e = Some msg \<and> sublist ''too many requests'' (js_lower msg) \<and>
         \<not> re_test TRANSPORT (js_lower msg) \<longrightarrow> classify_failure e = RateLimited))"
proof -
  have auth: "classify_failure e = Auth \<longleftrightarrow> f_status e = Some 401" if "\<not> f_empty e"
    using that by (simp add: classify_failure_def Let_def)
  have server: "classify_failure e = ServerError" if "\<not> f_empty e" "f_status e = Some s" "500 \<le> s" "s \<le> 599" for s
    using that by (simp add: classify_failure_def Let_def)
  have rate: "classify_failure e = RateLimited"
    if "\<not> f_empty e" "f_status e = None" "f_message e = Some msg" "sublist ''too many requests'' (js_lower msg)"
      "\<not> re_test TRANSPORT (js_lower msg)" for msg
    using that by (simp add: classify_failure_def Let_def RATE_def re_test_any re_test_lit)
  have "f_empty e \<Longrightarrow> classify_failure e = EmptyContent" by (simp add: classify_failure_def Let_def)
  with auth server rate show ?thesis by blast
qed

theorem classify_by_status_witness:
  "classify_failure \<lparr>f_status = None, f_message = Some ''Too Many Requests'', f_empty = False\<rparr> = RateLimited \<and>
   classify_failure \<lparr>f_status = Some 503, f_message = None, f_empty = False\<rparr> = ServerError"
proof -
  have "js_lower ''Too Many Requests'' = ''too many requests''" "\<not> re_test TRANSPORT ''too many requests''"
    by code_simp+
  with classify_by_status [of "\<lparr>f_status = None, f_message = Some ''Too Many Requests'', f_empty = False\<rparr>"]
    classify_by_status [of "\<lparr>f_status = Some 503, f_message = None, f_empty = False\<rparr>"]
  show ?thesis by simp
qed

end
