(* ===== verification/Scoring.thy ===== *)
theory Scoring
  imports Catalog Breaker
begin

text \<open>
  The router's scores and its ranking (src/router/scoring.ts).  The numbers are rational, and \<open>toFixed\<close> rounds
  to the nearest decimal (a half away from zero).  The comparison of ids (\<open>localeCompare\<close>) is an argument.
  What a candidate's score was made of (\<open>why\<close>, \<open>excluded\<close>) is kept as data instead of sentences.
  An \<open>avgLatencyMs\<close> is positive or absent in the pool; the code normalises any value.
\<close>

section \<open>Data\<close>

datatype complexity = Trivial | Standard | Hard

record usage_signal =
  u_provider :: string
  u_model :: string
  u_calls :: nat
  u_errors :: nat
  u_latency :: "rat option"
  u_cost :: "rat option"
  u_lastUsedAt :: "int option"

record weights =
  w_intelligence :: rat
  w_price :: rat
  w_quota :: rat
  w_latency :: rat
  w_complexity :: rat
  w_laya :: rat

datatype why =
    IndexUnknown
  | IndexIs rat
  | PriceUnknown
  | PriceIs rat
  | LayaP rat
  | ProbeAllowed
  | LatencyIs rat
  | ErrorsInWindow nat
  | CircuitOpen breaker_reason

datatype exclusion = NoConnection | OpenUntil int

record terms_of =
  tm_intelligence :: "rat option"
  tm_price :: "rat option"
  tm_quota :: "rat option"
  tm_latency :: "rat option"
  tm_complexity :: "rat option"
  tm_laya :: "rat option"

record scored =
  sc_candidate :: candidate
  sc_score :: rat
  sc_terms :: terms_of
  sc_why :: "why list"
  sc_excluded :: "exclusion option"

definition DEFAULT_WEIGHTS :: weights where
  "DEFAULT_WEIGHTS = \<lparr>w_intelligence = 34 / 100, w_price = 18 / 100, w_quota = 14 / 100, w_latency = 8 / 100,
     w_complexity = 26 / 100, w_laya = 55 / 100\<rparr>"

section \<open>Terms\<close>

definition blended_price :: "candidate \<Rightarrow> rat option" where
  "blended_price c = map_option (\<lambda>(i, p). (i * 3 + p) / 4) (c_price c)"

definition empty_terms :: terms_of where
  "empty_terms = \<lparr>tm_intelligence = None, tm_price = None, tm_quota = None, tm_latency = None,
     tm_complexity = None, tm_laya = None\<rparr>"

definition normalise :: "rat option \<Rightarrow> rat list \<Rightarrow> bool \<Rightarrow> rat option" where
  "normalise value values invert =
     (case value of
        None \<Rightarrow> None
      | Some v \<Rightarrow>
          (if values = [] then None
           else
             (let lo = foldl min (hd values) (tl values); hi = foldl max (hd values) (tl values) in
              if hi = lo then Some (1 / 2)
              else (let scaled = (v - lo) / (hi - lo)
                    in Some (to_fixed 4 (if invert then 1 - scaled else scaled))))))"

definition complexity_fit :: "rat option \<Rightarrow> complexity \<Rightarrow> rat list \<Rightarrow> rat option" where
  "complexity_fit idx complexity pool =
     (case idx of
        None \<Rightarrow> None
      | Some i \<Rightarrow>
          (if pool = [] then None
           else
             (let s = sort pool; n = length s;
                  median = s ! (n div 2); lo = s ! (n * 15 div 100); hi = s ! (n * 85 div 100);
                  span = max (hi - lo) (1 / 1000000);
                  position = min 1 (max 0 ((i - lo) / span))
              in Some (case complexity of
                   Hard \<Rightarrow> (if i < median then max 0 (position * (35 / 100)) else 35 / 100 + 65 / 100 * position)
                 | Trivial \<Rightarrow> 1 - position * (8 / 10)
                 | Standard \<Rightarrow> 35 / 100 + 5 / 10 * position))))"

definition reliability :: "usage_signal option \<Rightarrow> rat option" where
  "reliability sig =
     (case sig of
        None \<Rightarrow> None
      | Some s \<Rightarrow> (if u_calls s = 0 then None
                   else Some (to_fixed 4 (max 0 (1 - of_nat (u_errors s) / of_nat (u_calls s))))))"

definition laya_margin :: "(string \<times> rat) list option \<Rightarrow> rat" where
  "laya_margin probabilities =
     (case probabilities of
        None \<Rightarrow> 0
      | Some ps \<Rightarrow>
          (if length ps < 2 then 0
           else (let s = sort_stable (\<lambda>a b. b < a) (map snd ps)
                 in to_fixed 4 (max 0 (min 1 (s ! 0 - s ! 1))))))"

definition quota_term :: "usage_signal \<Rightarrow> rat" where
  "quota_term s =
     to_fixed 4 (max (15 / 100)
       (1 - of_nat (u_errors s) / of_nat (max (u_calls s) 1) * (6 / 10) - (if 0 < u_calls s then 5 / 100 else 0)))"

text \<open>\<open>add\<close>: the weighted terms that are known, as the sum and the weight used.\<close>

definition weigh :: "(rat option \<times> rat) list \<Rightarrow> rat \<times> rat" where
  "weigh ts = fold (\<lambda>(t, w) (s, u). case t of None \<Rightarrow> (s, u) | Some x \<Rightarrow> (s + x * w, u + w)) ts (0, 0)"

definition average :: "(rat option \<times> rat) list \<Rightarrow> rat" where
  "average ts = (let (s, u) = weigh ts in if 0 < u then s / u else 0)"

section \<open>Scoring\<close>

record score_input =
  si_candidates :: "candidate list"
  si_complexity :: complexity
  si_usage :: "usage_signal list"
  si_breakers :: "string \<Rightarrow> breaker_status option"
  si_laya :: "(string \<times> rat) list option"
  si_weights :: weights

definition signal_of :: "score_input \<Rightarrow> candidate \<Rightarrow> usage_signal option" where
  "signal_of inp c = map_of (rev (map (\<lambda>r. (u_model r, r)) (si_usage inp))) (c_id c)"

definition prices_of :: "score_input \<Rightarrow> rat list" where
  "prices_of inp = List.map_filter blended_price (si_candidates inp)"

definition indexes_of :: "score_input \<Rightarrow> rat list" where
  "indexes_of inp = List.map_filter c_index (si_candidates inp)"

definition latencies_of :: "score_input \<Rightarrow> rat list" where
  "latencies_of inp = filter (\<lambda>l. 0 < l) (List.map_filter u_latency (si_usage inp))"

definition latency_of :: "usage_signal option \<Rightarrow> rat option" where
  "latency_of sig = Option.bind sig u_latency"

definition score_terms :: "score_input \<Rightarrow> candidate \<Rightarrow> terms_of" where
  "score_terms inp c =
     (let sig = signal_of inp c in
      \<lparr>tm_intelligence = c_index c, tm_price = blended_price c, tm_quota = map_option quota_term sig,
       tm_latency = latency_of sig,
       tm_complexity = complexity_fit (c_index c) (si_complexity inp) (indexes_of inp),
       tm_laya = Option.bind (si_laya inp) (\<lambda>ps. map_of ps (c_id c))\<rparr>)"

definition weighted_terms :: "score_input \<Rightarrow> candidate \<Rightarrow> (rat option \<times> rat) list" where
  "weighted_terms inp c =
     (let sig = signal_of inp c; tm = score_terms inp c; w = si_weights inp;
          nReliability = normalise (reliability sig) [0, 1] False;
          nQuota = map_option (\<lambda>q. to_fixed 4 ((q + (case nReliability of None \<Rightarrow> 1 / 2 | Some r \<Rightarrow> r)) / 2)) (tm_quota tm)
      in [(normalise (c_index c) (indexes_of inp) False, w_intelligence w),
          (normalise (blended_price c) (prices_of inp) True, w_price w),
          (nQuota, w_quota w),
          (normalise (latency_of sig) (latencies_of inp) True, w_latency w),
          (tm_complexity tm, w_complexity w)])"

definition total_score :: "score_input \<Rightarrow> candidate \<Rightarrow> rat" where
  "total_score inp c =
     (let s = average (weighted_terms inp c); margin = laya_margin (si_laya inp)
      in to_fixed 6 (case tm_laya (score_terms inp c) of
           None \<Rightarrow> s
         | Some p \<Rightarrow> (if 0 < margin then s * (1 - margin) + p * margin else s)))"

definition why_of :: "score_input \<Rightarrow> candidate \<Rightarrow> why list" where
  "why_of inp c =
     (let sig = signal_of inp c; tm = score_terms inp c in
      [case c_index c of None \<Rightarrow> IndexUnknown | Some i \<Rightarrow> IndexIs i,
       case blended_price c of None \<Rightarrow> PriceUnknown | Some p \<Rightarrow> PriceIs p] @
      (case tm_laya tm of None \<Rightarrow> [] | Some p \<Rightarrow> [LayaP p]) @
      (case si_breakers inp (c_id c) of None \<Rightarrow> []
        | Some b \<Rightarrow> (if bs_state b = HalfOpen then [ProbeAllowed] else [])) @
      (case latency_of sig of None \<Rightarrow> [] | Some l \<Rightarrow> (if l = 0 then [] else [LatencyIs l])) @
      (case sig of None \<Rightarrow> [] | Some s \<Rightarrow> (if u_errors s = 0 then [] else [ErrorsInWindow (u_errors s)])))"

definition score_one :: "score_input \<Rightarrow> candidate \<Rightarrow> scored" where
  "score_one inp c =
     (if \<not> c_available c
      then \<lparr>sc_candidate = c, sc_score = -1, sc_terms = empty_terms, sc_why = [], sc_excluded = Some NoConnection\<rparr>
      else (case si_breakers inp (c_id c) of
              Some b \<Rightarrow>
                (if bs_blocked b
                 then \<lparr>sc_candidate = c, sc_score = -1, sc_terms = empty_terms,
                       sc_why = [CircuitOpen (bs_reason b)], sc_excluded = Some (OpenUntil (bs_retryAt b))\<rparr>
                 else \<lparr>sc_candidate = c, sc_score = total_score inp c, sc_terms = score_terms inp c,
                       sc_why = why_of inp c, sc_excluded = None\<rparr>)
            | None \<Rightarrow> \<lparr>sc_candidate = c, sc_score = total_score inp c, sc_terms = score_terms inp c,
                       sc_why = why_of inp c, sc_excluded = None\<rparr>))"

definition score_candidates :: "score_input \<Rightarrow> scored list" where
  "score_candidates inp = map (score_one inp) (si_candidates inp)"

section \<open>Ranking\<close>

text \<open>
  The comparison function of the sort; \<open>collate\<close> is \<open>localeCompare\<close>.  The order of excluded candidates with
  different reasons is the engine's: the comparison says 1 both ways.
\<close>

definition rank_cmp :: "(string \<Rightarrow> string \<Rightarrow> int) \<Rightarrow> scored \<Rightarrow> scored \<Rightarrow> int" where
  "rank_cmp collate a b =
     (let ai = (case c_index (sc_candidate a) of None \<Rightarrow> -1 | Some i \<Rightarrow> i);
          bi = (case c_index (sc_candidate b) of None \<Rightarrow> -1 | Some i \<Rightarrow> i);
          ap = blended_price (sc_candidate a); bp = blended_price (sc_candidate b)
      in if sc_excluded a \<noteq> sc_excluded b then (if sc_excluded a = None then -1 else 1)
         else if sc_score b \<noteq> sc_score a then (if sc_score b < sc_score a then -1 else 1)
         else if bi \<noteq> ai then (if bi < ai then -1 else 1)
         else if ap \<noteq> bp
         then (case (ap, bp) of (Some x, Some y) \<Rightarrow> (if x < y then -1 else 1) | (Some x, None) \<Rightarrow> -1 | _ \<Rightarrow> 1)
         else collate (c_id (sc_candidate a)) (c_id (sc_candidate b)))"

definition rank_before :: "(string \<Rightarrow> string \<Rightarrow> int) \<Rightarrow> scored \<Rightarrow> scored \<Rightarrow> bool" where
  "rank_before collate a b = (rank_cmp collate a b < 0)"

definition rank :: "(string \<Rightarrow> string \<Rightarrow> int) \<Rightarrow> scored list \<Rightarrow> scored list" where
  "rank collate xs = sort_stable (rank_before collate) xs"

definition deterministic_order :: "(string \<Rightarrow> string \<Rightarrow> int) \<Rightarrow> scored list \<Rightarrow> scored list" where
  "deterministic_order collate xs = rank collate xs"

section \<open>Rounding and normalising\<close>

lemma foldl_min_le: "foldl min a xs \<le> a \<and> (x \<in> set xs \<longrightarrow> foldl min a xs \<le> x)" for a :: "'a::linorder"
proof (induction xs arbitrary: a)
  case (Cons y ys)
  have "foldl min (min a y) ys \<le> min a y" "x \<in> set ys \<longrightarrow> foldl min (min a y) ys \<le> x"
    using Cons.IH [of "min a y"] by auto
  then show ?case by auto
qed simp

lemma foldl_max_ge: "a \<le> foldl max a xs \<and> (x \<in> set xs \<longrightarrow> x \<le> foldl max a xs)" for a :: "'a::linorder"
proof (induction xs arbitrary: a)
  case (Cons y ys)
  have "max a y \<le> foldl max (max a y) ys" "x \<in> set ys \<longrightarrow> x \<le> foldl max (max a y) ys"
    using Cons.IH [of "max a y"] by auto
  then show ?case by auto
qed simp

lemma normalise_unit:
  assumes "normalise (Some v) vals iv = Some x" "v \<in> set vals"
  shows "0 \<le> x \<and> x \<le> 1"
proof -
  let ?lo = "foldl min (hd vals) (tl vals)" and ?hi = "foldl max (hd vals) (tl vals)"
  have mem: "v = hd vals \<or> v \<in> set (tl vals)" using assms(2) by (cases vals) auto
  have v: "?lo \<le> v" "v \<le> ?hi"
    using foldl_min_le [of "hd vals" "tl vals" v] foldl_max_ge [of "hd vals" "tl vals" v] mem by auto
  show ?thesis
  proof (cases "?hi = ?lo")
    case True
    with assms show ?thesis by (cases vals) (auto simp: normalise_def Let_def)
  next
    case False
    with v have "0 < ?hi - ?lo" by linarith
    then have "0 \<le> (v - ?lo) / (?hi - ?lo)" "(v - ?lo) / (?hi - ?lo) \<le> 1"
      using v by (auto simp: field_simps)
    with assms False show ?thesis
      using to_fixed_unit [of "(v - ?lo) / (?hi - ?lo)" 4] to_fixed_unit [of "1 - (v - ?lo) / (?hi - ?lo)" 4]
      by (cases vals) (auto simp: normalise_def Let_def split: if_splits)
  qed
qed

section \<open>The range of a score\<close>

definition unit :: "rat \<Rightarrow> bool" where
  "unit x \<longleftrightarrow> 0 \<le> x \<and> x \<le> 1"

lemma unit_mix: "unit x \<Longrightarrow> unit y \<Longrightarrow> unit m \<Longrightarrow> unit (x * (1 - m) + y * m)"
proof -
  assume u: "unit x" "unit y" "unit m"
  then have "x * (1 - m) \<le> 1 * (1 - m)" "y * m \<le> 1 * m"
    using mult_right_mono [of x 1 "1 - m"] mult_right_mono [of y 1 m] by (simp_all add: unit_def)
  with u show ?thesis by (auto simp: unit_def)
qed

lemma weigh_unit:
  assumes "list_all (\<lambda>(t, w). 0 \<le> w \<and> pred_option unit t) ts" "0 \<le> s" "s \<le> u"
  shows "case fold (\<lambda>(t, w) (s, u). case t of None \<Rightarrow> (s, u) | Some x \<Rightarrow> (s + x * w, u + w)) ts (s, u) of
    (s', u') \<Rightarrow> 0 \<le> s' \<and> s' \<le> u'"
  using assms
proof (induction ts arbitrary: s u)
  case (Cons tw ts)
  obtain t w where tw: "tw = (t, w)" by (cases tw)
  show ?case
  proof (cases t)
    case None
    with Cons tw show ?thesis by simp
  next
    case (Some x)
    with Cons.prems tw have "0 \<le> x * w" "x * w \<le> 1 * w"
      using mult_right_mono [of x 1 w] by (simp_all add: unit_def)
    with Cons.IH [of "s + x * w" "u + w"] Cons.prems Some tw show ?thesis by simp
  qed
qed simp

lemma average_unit: "list_all (\<lambda>(t, w). 0 \<le> w \<and> pred_option unit t) ts \<Longrightarrow> unit (average ts)"
  using weigh_unit [of ts 0 0]
  by (auto simp: average_def weigh_def unit_def Let_def split: prod.splits)

lemma laya_margin_unit: "unit (laya_margin ps)"
  by (auto simp: laya_margin_def unit_def Let_def split: option.split intro!: conjunct1 [OF to_fixed_unit] conjunct2 [OF to_fixed_unit])

lemma complexity_unit:
  assumes "complexity_fit idx cx pool = Some x"
  shows "unit x"
proof -
  have cases3: "unit (case cx of Hard \<Rightarrow> (if i then max 0 (p * (35 / 100)) else 35 / 100 + 65 / 100 * p)
      | Trivial \<Rightarrow> 1 - p * (8 / 10) | Standard \<Rightarrow> 35 / 100 + 5 / 10 * p)" if "unit p" for p :: rat and i
    using that by (cases cx) (auto simp: unit_def)
  have "unit (min 1 (max 0 p))" for p :: rat by (simp add: unit_def)
  note unit_case = cases3 [OF this]
  obtain i where "idx = Some i" "pool \<noteq> []"
    using assms by (cases idx) (auto simp: complexity_fit_def split: if_splits)
  with assms unit_case show ?thesis
    by (simp only: complexity_fit_def option.case if_False Let_def option.inject) blast
qed

lemma quota_unit: "unit (quota_term s)"
proof -
  define x :: rat where "x = of_nat (u_errors s) / of_nat (max (u_calls s) 1) * (6 / 10)"
  have "0 \<le> x" by (simp add: x_def)
  then have "0 \<le> max (15 / 100) (1 - x - (if 0 < u_calls s then 5 / 100 else 0))"
    "max (15 / 100) (1 - x - (if 0 < u_calls s then 5 / 100 else 0)) \<le> 1"
    by simp_all
  then show ?thesis
    unfolding quota_term_def unit_def x_def by (rule to_fixed_unit)
qed

lemma reliability_unit: "reliability sig = Some r \<Longrightarrow> unit r"
  unfolding reliability_def unit_def
  by (auto split: option.splits if_splits intro!: conjunct1 [OF to_fixed_unit] conjunct2 [OF to_fixed_unit])

lemma normalise_reliability: "normalise (Some r) [0, 1] False = Some (to_fixed 4 r)"
  by (simp add: normalise_def)

lemma map_filter_mem: "x \<in> set xs \<Longrightarrow> f x = Some y \<Longrightarrow> y \<in> set (List.map_filter f xs)"
  by (induction xs) (auto simp: List.map_filter_simps split: option.split)

definition signals_ok :: "score_input \<Rightarrow> bool" where
  "signals_ok inp \<longleftrightarrow>
     (\<forall>s \<in> set (si_usage inp). \<forall>l. u_latency s = Some l \<longrightarrow> 0 < l) \<and>
     (\<forall>ps \<in> set_option (si_laya inp). \<forall>p \<in> snd ` set ps. unit p) \<and>
     0 \<le> w_intelligence (si_weights inp) \<and> 0 \<le> w_price (si_weights inp) \<and> 0 \<le> w_quota (si_weights inp) \<and>
     0 \<le> w_latency (si_weights inp) \<and> 0 \<le> w_complexity (si_weights inp)"

lemma weighted_terms_unit:
  assumes ok: "signals_ok inp" and c: "c \<in> set (si_candidates inp)"
  shows "list_all (\<lambda>(t, w). 0 \<le> w \<and> pred_option unit t) (weighted_terms inp c)"
proof -
  have idx: "pred_option unit (normalise (c_index c) (indexes_of inp) False)"
  proof (cases "c_index c")
    case (Some i)
    then have "i \<in> set (indexes_of inp)" using map_filter_mem [OF c] by (simp add: indexes_of_def)
    with Some normalise_unit [of i "indexes_of inp" False] show ?thesis
      by (cases "normalise (Some i) (indexes_of inp) False") (auto simp: unit_def)
  qed (simp add: normalise_def)
  have price: "pred_option unit (normalise (blended_price c) (prices_of inp) True)"
  proof (cases "blended_price c")
    case (Some i)
    then have "i \<in> set (prices_of inp)" using map_filter_mem [OF c] by (simp add: prices_of_def)
    with Some normalise_unit [of i "prices_of inp" True] show ?thesis
      by (cases "normalise (Some i) (prices_of inp) True") (auto simp: unit_def)
  qed (simp add: normalise_def)
  have lat: "pred_option unit (normalise (latency_of (signal_of inp c)) (latencies_of inp) True)"
  proof (cases "latency_of (signal_of inp c)")
    case (Some l)
    then obtain s where s: "signal_of inp c = Some s" "u_latency s = Some l" by (auto simp: latency_of_def bind_eq_Some_conv)
    then have mem: "s \<in> set (si_usage inp)" by (auto simp: signal_of_def dest!: map_of_SomeD)
    with s ok have "0 < l" by (auto simp: signals_ok_def)
    with map_filter_mem [of s _ u_latency, OF mem s(2)] have "l \<in> set (latencies_of inp)" by (simp add: latencies_of_def)
    with Some normalise_unit [of l "latencies_of inp" True] show ?thesis
      by (cases "normalise (Some l) (latencies_of inp) True") (auto simp: unit_def)
  qed (simp add: normalise_def)
  have cx: "pred_option unit (complexity_fit (c_index c) (si_complexity inp) (indexes_of inp))"
    using complexity_unit by (cases "complexity_fit (c_index c) (si_complexity inp) (indexes_of inp)") auto
  have quota: "unit (to_fixed 4 ((quota_term s + (case normalise (reliability sig) [0, 1] False of None \<Rightarrow> 1 / 2 | Some r \<Rightarrow> r)) / 2))"
    for s sig
  proof -
    have "unit (case normalise (reliability sig) [0, 1] False of None \<Rightarrow> 1 / 2 | Some r \<Rightarrow> r)"
    proof (cases "reliability sig")
      case (Some r)
      with reliability_unit [OF Some] to_fixed_unit [of r 4] show ?thesis
        by (simp add: normalise_reliability unit_def)
    qed (simp add: normalise_def unit_def)
    with quota_unit [of s] show ?thesis unfolding unit_def by (intro to_fixed_unit) auto
  qed
  show ?thesis
    using ok idx price lat cx quota
    by (auto simp: weighted_terms_def score_terms_def Let_def signals_ok_def option.pred_map comp_def option.pred_True
        split: option.split)
qed

lemma total_score_unit:
  assumes ok: "signals_ok inp" and c: "c \<in> set (si_candidates inp)"
  shows "0 \<le> total_score inp c \<and> total_score inp c \<le> 1"
proof -
  have av: "unit (average (weighted_terms inp c))" by (rule average_unit [OF weighted_terms_unit [OF assms]])
  have "unit p" if laya: "tm_laya (score_terms inp c) = Some p" for p
  proof -
    obtain ps where ps: "si_laya inp = Some ps" "map_of ps (c_id c) = Some p"
      using laya by (cases "si_laya inp") (auto simp: score_terms_def Let_def)
    have "p \<in> snd ` set ps" using map_of_SomeD [OF ps(2)] by force
    with ok ps(1) show ?thesis by (auto simp: signals_ok_def)
  qed
  with av laya_margin_unit unit_mix show ?thesis
    unfolding total_score_def Let_def
    by (intro to_fixed_unit) (auto simp: unit_def split: option.split)
qed

section \<open>The order of the ranking\<close>

text \<open>A strict order up to ties, and such orders taken one after the other.\<close>

definition weak_order :: "('a \<Rightarrow> 'a \<Rightarrow> bool) \<Rightarrow> bool" where
  "weak_order lt \<longleftrightarrow>
     (\<forall>a b. lt a b \<longrightarrow> \<not> lt b a) \<and> (\<forall>a b c. \<not> lt b a \<and> \<not> lt c b \<longrightarrow> \<not> lt c a)"

definition then_by :: "('a \<Rightarrow> 'a \<Rightarrow> bool) \<Rightarrow> ('a \<Rightarrow> 'a \<Rightarrow> bool) \<Rightarrow> 'a \<Rightarrow> 'a \<Rightarrow> bool" where
  "then_by lt1 lt2 a b = (lt1 a b \<or> \<not> lt1 b a \<and> lt2 a b)"

lemma weak_order_key: "weak_order (\<lambda>a b. f a < f b)" for f :: "'a \<Rightarrow> 'b::linorder"
  by (auto simp: weak_order_def)

lemma weak_order_key_down: "weak_order (\<lambda>a b. f b < f a)" for f :: "'a \<Rightarrow> 'b::linorder"
  by (auto simp: weak_order_def)

lemma weak_order_then: "weak_order lt1 \<Longrightarrow> weak_order lt2 \<Longrightarrow> weak_order (then_by lt1 lt2)"
  unfolding weak_order_def then_by_def by meson

definition orders :: "(string \<Rightarrow> string \<Rightarrow> int) \<Rightarrow> bool" where
  "orders collate \<longleftrightarrow> weak_order (\<lambda>a b. collate a b < 0)"

definition index_key :: "scored \<Rightarrow> rat" where
  "index_key a = (case c_index (sc_candidate a) of None \<Rightarrow> -1 | Some i \<Rightarrow> i)"

definition price_key :: "scored \<Rightarrow> rat" where
  "price_key a = (case blended_price (sc_candidate a) of None \<Rightarrow> 0 | Some p \<Rightarrow> p)"

definition better :: "(string \<Rightarrow> string \<Rightarrow> int) \<Rightarrow> scored \<Rightarrow> scored \<Rightarrow> bool" where
  "better collate =
     then_by (\<lambda>a b. sc_score b < sc_score a)
       (then_by (\<lambda>a b. index_key b < index_key a)
         (then_by (\<lambda>a b. (blended_price (sc_candidate a) = None) < (blended_price (sc_candidate b) = None))
           (then_by (\<lambda>a b. price_key a < price_key b)
             (\<lambda>a b. collate (c_id (sc_candidate a)) (c_id (sc_candidate b)) < 0))))"

lemma weak_order_ids:
  "orders collate \<Longrightarrow> weak_order (\<lambda>a b. collate (c_id (sc_candidate a)) (c_id (sc_candidate b)) < 0)"
  unfolding orders_def weak_order_def by blast

lemma weak_order_better: "orders collate \<Longrightarrow> weak_order (better collate)"
  unfolding better_def
  by (rule weak_order_then, rule weak_order_key_down, rule weak_order_then, rule weak_order_key_down,
      rule weak_order_then, rule weak_order_key, rule weak_order_then, rule weak_order_key, rule weak_order_ids)

lemma rank_before_better:
  "sc_excluded a = None \<Longrightarrow> sc_excluded b = None \<Longrightarrow> rank_before collate a b = better collate a b"
  by (cases "blended_price (sc_candidate a)"; cases "blended_price (sc_candidate b)")
    (auto simp: rank_before_def rank_cmp_def better_def then_by_def Let_def index_key_def price_key_def)

lemma rank_before_excluded:
  "sc_excluded a = None \<Longrightarrow> sc_excluded b \<noteq> None \<Longrightarrow> rank_before collate a b"
  "sc_excluded a \<noteq> None \<Longrightarrow> sc_excluded b = None \<Longrightarrow> \<not> rank_before collate a b"
  by (auto simp: rank_before_def rank_cmp_def Let_def)

lemma insert_stable_split:
  assumes "\<forall>a \<in> set xs. sc_excluded a = None" "\<forall>a \<in> set ys. sc_excluded a \<noteq> None"
  shows "insert_stable (rank_before collate) x (xs @ ys) =
    (if sc_excluded x = None then insert_stable (rank_before collate) x xs @ ys
     else xs @ insert_stable (rank_before collate) x ys)"
  using assms
proof (induction xs)
  case Nil
  then show ?case by (cases ys) (auto simp: rank_before_excluded)
next
  case (Cons a xs)
  then show ?case by (auto simp: rank_before_excluded)
qed

lemma insert_stable_set: "set (insert_stable lt x xs) = insert x (set xs)"
  by (induction xs) auto

lemma rank_split:
  "rank collate xs =
     sort_stable (rank_before collate) (filter (\<lambda>a. sc_excluded a = None) xs) @
     sort_stable (rank_before collate) (filter (\<lambda>a. sc_excluded a \<noteq> None) xs)"
proof (induction xs)
  case (Cons x xs)
  then show ?case
    unfolding rank_def by (simp add: insert_stable_split)
qed (simp add: rank_def)

lemma insert_stable_cong:
  "\<forall>a \<in> set xs. f a x = g a x \<Longrightarrow> insert_stable f x xs = insert_stable g x xs"
  by (induction xs) auto

lemma sort_stable_cong:
  "\<forall>a \<in> set xs. \<forall>b \<in> set xs. f a b = g a b \<Longrightarrow> sort_stable f xs = sort_stable g xs"
proof (induction xs)
  case (Cons x xs)
  then have "sort_stable f xs = sort_stable g xs" by simp
  moreover have "insert_stable f x (sort_stable g xs) = insert_stable g x (sort_stable g xs)"
    using Cons.prems by (intro insert_stable_cong) auto
  ultimately show ?case by simp
qed simp

lemma rank_survivors:
  "rank collate xs =
     sort_stable (better collate) (filter (\<lambda>a. sc_excluded a = None) xs) @
     sort_stable (rank_before collate) (filter (\<lambda>a. sc_excluded a \<noteq> None) xs)"
  unfolding rank_split using sort_stable_cong [of "filter (\<lambda>a. sc_excluded a = None) xs" "rank_before collate" "better collate"]
  by (simp add: rank_before_better)

lemma sorted_better:
  assumes "orders collate"
  shows "sorted_wrt (\<lambda>a b. \<not> better collate b a) (sort_stable (better collate) xs)"
proof (rule sorted_sort_stable)
  show "\<not> better collate b a" if "better collate a b" for a b
    using weak_order_better [OF assms] that unfolding weak_order_def by blast
  show "\<not> better collate c a" if "\<not> better collate b a" "\<not> better collate c b" for a b c
    using weak_order_better [OF assms] that unfolding weak_order_def by blast
qed

lemma not_better:
  "\<not> better collate b a \<Longrightarrow> sc_score b \<le> sc_score a \<and>
    (sc_score a = sc_score b \<longrightarrow> index_key b \<le> index_key a \<and>
      (index_key a = index_key b \<longrightarrow> (blended_price (sc_candidate a) = None \<longrightarrow> blended_price (sc_candidate b) = None) \<and>
        (blended_price (sc_candidate b) \<noteq> None \<longrightarrow> price_key a \<le> price_key b \<and>
          (price_key a = price_key b \<longrightarrow> \<not> collate (c_id (sc_candidate b)) (c_id (sc_candidate a)) < 0))))"
  by (auto simp: better_def then_by_def)

text \<open>Two excluded candidates with different reasons: the comparison says that each comes after the other.\<close>

lemma rank_cmp_inconsistent:
  "sc_excluded a = Some x \<Longrightarrow> sc_excluded b = Some y \<Longrightarrow> x \<noteq> y \<Longrightarrow> rank_cmp collate a b = 1 \<and> rank_cmp collate b a = 1"
  by (simp add: rank_cmp_def Let_def)

text \<open>Candidates with the same score, index and price are ordered by id, however fast they are.\<close>

lemma rank_ignores_latency:
  "sc_excluded a = None \<Longrightarrow> sc_excluded b = None \<Longrightarrow> sc_score a = sc_score b \<Longrightarrow>
   c_index (sc_candidate a) = c_index (sc_candidate b) \<Longrightarrow> c_price (sc_candidate a) = c_price (sc_candidate b) \<Longrightarrow>
   rank_cmp collate (a\<lparr>sc_terms := tm\<rparr>) b = collate (c_id (sc_candidate a)) (c_id (sc_candidate b))"
  by (simp add: rank_cmp_def Let_def blended_price_def)

lemma rank_before_score:
  "sc_excluded a = None \<Longrightarrow> sc_excluded b = None \<Longrightarrow> sc_score a \<noteq> sc_score b \<Longrightarrow>
   rank_before collate a b = (sc_score b < sc_score a)"
  by (simp add: rank_before_def rank_cmp_def Let_def)

lemma mset_rank [simp]: "mset (rank collate xs) = mset xs"
  by (simp add: rank_def)

lemma set_rank [simp]: "set (rank collate xs) = set xs"
  by (simp add: rank_def)

text \<open>The winner: the first candidate of the ranking that is not excluded.\<close>

lemma winner_Some:
  assumes "orders collate" "find (\<lambda>a. sc_excluded a = None) (rank collate xs) = Some w"
  shows "w \<in> set xs" "sc_excluded w = None" "\<forall>a \<in> set xs. sc_excluded a = None \<longrightarrow> \<not> better collate a w"
proof -
  let ?s = "sort_stable (better collate) (filter (\<lambda>a. sc_excluded a = None) xs)"
  show "w \<in> set xs" "sc_excluded w = None"
    using assms(2) by (auto simp: find_Some_iff dest!: nth_mem)
  have none: "find (\<lambda>a. sc_excluded a = None) (sort_stable (rank_before collate) (filter (\<lambda>a. sc_excluded a \<noteq> None) xs)) = None"
    by (auto simp: find_None_iff)
  have "?s \<noteq> []"
  proof
    assume "?s = []"
    with assms(2) none show False by (simp add: rank_survivors)
  qed
  then obtain a rest where a: "?s = a # rest" by (cases ?s) auto
  then have "a \<in> set ?s" by simp
  then have "sc_excluded a = None" by simp
  with assms(2) a have "a = w" by (simp add: rank_survivors)
  with a have s: "?s = w # rest" by simp
  have srt: "sorted_wrt (\<lambda>a b. \<not> better collate b a) (w # rest)"
    using sorted_better [OF assms(1), of "filter (\<lambda>a. sc_excluded a = None) xs"] s by simp
  have irrefl: "\<not> better collate w w" using weak_order_better [OF assms(1)] unfolding weak_order_def by blast
  show "\<forall>a \<in> set xs. sc_excluded a = None \<longrightarrow> \<not> better collate a w"
  proof (intro ballI impI)
    fix a assume "a \<in> set xs" "sc_excluded a = None"
    then have "a \<in> set ?s" by simp
    with s srt irrefl show "\<not> better collate a w" by auto
  qed
qed

lemma better_score: "sc_score b < sc_score a \<Longrightarrow> better collate a b"
  by (simp add: better_def then_by_def)

lemma winner_None_iff:
  "find (\<lambda>a. sc_excluded a = None) (rank collate xs) = None \<longleftrightarrow> (\<forall>a \<in> set xs. sc_excluded a \<noteq> None)"
  by (auto simp: find_None_iff)

lemma score_one_survivor:
  "sc_excluded (score_one inp c) = None \<longleftrightarrow> c_available c \<and> \<not> (case si_breakers inp (c_id c) of None \<Rightarrow> False | Some b \<Rightarrow> bs_blocked b)"
  by (simp add: score_one_def split: option.split)

lemma score_one_score:
  "sc_excluded (score_one inp c) = None \<Longrightarrow> sc_score (score_one inp c) = total_score inp c"
  "sc_excluded (score_one inp c) \<noteq> None \<Longrightarrow> sc_score (score_one inp c) = -1"
  by (auto simp: score_one_def split: option.splits if_splits)

lemma score_one_candidate [simp]: "sc_candidate (score_one inp c) = c"
  by (simp add: score_one_def split: option.split)

lemma orders_not_less: "orders (\<lambda>a b. if length a < length b then -1 else 1)"
  unfolding orders_def weak_order_def by (auto split: if_splits)

section \<open>Properties\<close>

text \<open>
  C8: scoring keeps the candidates and their order and excludes exactly those that no connection can call or whose
  circuit is blocked, with the score -1.  When the weights are not negative, no recorded latency is 0 and what Laya
  reports are probabilities, each other candidate has a score from 0 to 1.
\<close>

theorem scores_in_range:
  "map sc_candidate (score_candidates inp) = si_candidates inp \<and>
   (\<forall>s \<in> set (score_candidates inp).
      (sc_excluded s = None \<longleftrightarrow> c_available (sc_candidate s) \<and>
         \<not> (case si_breakers inp (c_id (sc_candidate s)) of None \<Rightarrow> False | Some b \<Rightarrow> bs_blocked b)) \<and>
      (sc_excluded s \<noteq> None \<longrightarrow> sc_score s = -1) \<and>
      (signals_ok inp \<and> sc_excluded s = None \<longrightarrow> 0 \<le> sc_score s \<and> sc_score s \<le> 1))"
proof -
  have "(sc_excluded (score_one inp c) \<noteq> None \<longrightarrow> sc_score (score_one inp c) = -1) \<and>
      (signals_ok inp \<and> sc_excluded (score_one inp c) = None \<longrightarrow> 0 \<le> sc_score (score_one inp c) \<and> sc_score (score_one inp c) \<le> 1)"
    if "c \<in> set (si_candidates inp)" for c
    using total_score_unit [OF _ that] score_one_score [of inp c] by simp
  then show ?thesis by (simp add: score_candidates_def comp_def score_one_survivor del: not_None_eq)
qed

definition ex_candidate :: "string \<Rightarrow> rat option \<Rightarrow> (rat \<times> rat) option \<Rightarrow> candidate" where
  "ex_candidate i x pr = \<lparr>c_id = i, c_provider = ''p'', c_apiModelId = i, c_displayName = i, c_index = x, c_indexSource = [],
     c_price = pr, c_context = \<lparr>ct_maxTokens = None, ct_label = []\<rparr>, c_available = True, c_unknowns = []\<rparr>"

definition ex_scoring :: score_input where
  "ex_scoring = \<lparr>si_candidates = [ex_candidate ''top'' (Some 60) (Some (3, 15)), ex_candidate ''low'' (Some 10) (Some (1, 2)),
      ex_candidate ''new'' None None],
    si_complexity = Standard,
    si_usage = [\<lparr>u_provider = ''p'', u_model = ''new'', u_calls = 1, u_errors = 0, u_latency = None, u_cost = None,
      u_lastUsedAt = None\<rparr>],
    si_breakers = (\<lambda>m. None), si_laya = None, si_weights = DEFAULT_WEIGHTS\<rparr>"

lemma ex_candidates:
  "si_candidates ex_scoring = [ex_candidate ''top'' (Some 60) (Some (3, 15)), ex_candidate ''low'' (Some 10) (Some (1, 2)),
      ex_candidate ''new'' None None]"
  "si_breakers ex_scoring = (\<lambda>m. None)"
  by (simp_all add: ex_scoring_def)

lemma ex_scores:
  "total_score ex_scoring (ex_candidate ''top'' (Some 60) (Some (3, 15))) = 719231 / 1000000"
  "total_score ex_scoring (ex_candidate ''low'' (Some 10) (Some (1, 2))) = 347436 / 1000000"
  "total_score ex_scoring (ex_candidate ''new'' None None) = 975 / 1000"
  by (simp_all add: total_score_def average_def weigh_def weighted_terms_def score_terms_def Let_def ex_scoring_def
      DEFAULT_WEIGHTS_def signal_of_def indexes_of_def prices_of_def latencies_of_def latency_of_def ex_candidate_def
      blended_price_def normalise_def complexity_fit_def quota_term_def reliability_def laya_margin_def to_fixed_def
      List.map_filter_simps)

lemma ex_runs:
  "sc_excluded (score_one ex_scoring (ex_candidate i x pr)) = None"
  "sc_score (score_one ex_scoring (ex_candidate i x pr)) = total_score ex_scoring (ex_candidate i x pr)"
  "c_id (ex_candidate i x pr) = i"
  by (simp_all add: score_one_def ex_candidates ex_candidate_def)

lemma ex_scoring_ok: "signals_ok ex_scoring"
  by (simp add: signals_ok_def ex_scoring_def DEFAULT_WEIGHTS_def)

theorem scores_in_range_witness:
  "map sc_candidate (score_candidates ex_scoring) = si_candidates ex_scoring \<and>
   list_all (\<lambda>s. 0 \<le> sc_score s \<and> sc_score s \<le> 1) (score_candidates ex_scoring)"
proof -
  have "\<forall>s \<in> set (score_candidates ex_scoring). sc_excluded s = None"
    by (simp add: score_candidates_def ex_scoring_def score_one_def ex_candidate_def)
  with scores_in_range [of ex_scoring] ex_scoring_ok show ?thesis by (auto simp: list_all_iff)
qed

text \<open>
  A recorded latency of 0 is left out of the range that latencies are scaled by, but is scaled itself: beside two others
  of 100 and 110 milliseconds it lifts a score above 1.
\<close>

definition ex_instant :: score_input where
  "ex_instant = ex_scoring\<lparr>si_candidates := [ex_candidate ''new'' None None],
     si_usage := map (\<lambda>(m, l). \<lparr>u_provider = ''p'', u_model = m, u_calls = 1, u_errors = 0, u_latency = Some l, u_cost = None, u_lastUsedAt = None\<rparr>)
       [(''new'', 0), (''a'', 100), (''b'', 110)]\<rparr>"

lemma latency_zero_scores_above_one: "1 < total_score ex_instant (ex_candidate ''new'' None None)"
  by (simp add: total_score_def average_def weigh_def weighted_terms_def score_terms_def Let_def ex_scoring_def ex_instant_def
      DEFAULT_WEIGHTS_def signal_of_def indexes_of_def prices_of_def latencies_of_def latency_of_def ex_candidate_def
      blended_price_def normalise_def complexity_fit_def quota_term_def reliability_def laya_margin_def to_fixed_def
      List.map_filter_simps)

text \<open>
  the ranking is a permutation in which every candidate that can run comes before every excluded one, and the
  ones that can run are in descending order: by score, then index (unknown last), then price (unknown last), then id.
\<close>

theorem rank_best_first:
  assumes "orders collate"
  shows "mset (rank collate xs) = mset xs \<and>
    (\<exists>ran out. rank collate xs = ran @ out \<and> (\<forall>a \<in> set ran. sc_excluded a = None) \<and> (\<forall>a \<in> set out. sc_excluded a \<noteq> None) \<and>
       sorted_wrt (\<lambda>a b. sc_score b \<le> sc_score a \<and>
         (sc_score a = sc_score b \<longrightarrow> index_key b \<le> index_key a \<and>
           (index_key a = index_key b \<longrightarrow> (blended_price (sc_candidate a) = None \<longrightarrow> blended_price (sc_candidate b) = None) \<and>
             (blended_price (sc_candidate b) \<noteq> None \<longrightarrow> price_key a \<le> price_key b \<and>
               (price_key a = price_key b \<longrightarrow> \<not> collate (c_id (sc_candidate b)) (c_id (sc_candidate a)) < 0))))) ran)"
proof -
  let ?ran = "sort_stable (better collate) (filter (\<lambda>a. sc_excluded a = None) xs)"
  have "sorted_wrt (\<lambda>a b. sc_score b \<le> sc_score a \<and>
         (sc_score a = sc_score b \<longrightarrow> index_key b \<le> index_key a \<and>
           (index_key a = index_key b \<longrightarrow> (blended_price (sc_candidate a) = None \<longrightarrow> blended_price (sc_candidate b) = None) \<and>
             (blended_price (sc_candidate b) \<noteq> None \<longrightarrow> price_key a \<le> price_key b \<and>
               (price_key a = price_key b \<longrightarrow> \<not> collate (c_id (sc_candidate b)) (c_id (sc_candidate a)) < 0))))) ?ran"
    by (rule sorted_wrt_mono_rel [OF _ sorted_better [OF assms]]) (rule not_better)
  then show ?thesis
    by (intro conjI mset_rank exI [of _ ?ran] exI [of _ "sort_stable (rank_before collate) (filter (\<lambda>a. sc_excluded a \<noteq> None) xs)"]
        rank_survivors) auto
qed

theorem rank_best_first_witness:
  "map (\<lambda>s. c_id (sc_candidate s)) (rank (\<lambda>a b. if length a < length b then -1 else 1) (score_candidates ex_scoring)) =
     [''new'', ''top'', ''low''] \<and>
   mset (rank (\<lambda>a b. if length a < length b then -1 else 1) (score_candidates ex_scoring)) = mset (score_candidates ex_scoring)"
proof -
  have "map (\<lambda>s. c_id (sc_candidate s)) (rank (\<lambda>a b. if length a < length b then -1 else 1) (score_candidates ex_scoring)) =
     [''new'', ''top'', ''low'']"
    by (simp add: rank_def rank_before_score score_candidates_def ex_candidates ex_runs ex_scores)
  with rank_best_first [OF orders_not_less, of "score_candidates ex_scoring"] show ?thesis by blast
qed

text \<open>
  a candidate with neither an index nor a price that answered at least once without an error, and was not
  timed, scores 0.975 whatever the task and the rest of the pool: the weights it has no term for drop out of the average.
\<close>

theorem unsourced_model_score:
  assumes "c_index c = None" "c_price c = None" "si_laya inp = None" "0 < w_quota (si_weights inp)"
    and "signal_of inp c = Some s" "0 < u_calls s" "u_errors s = 0" "u_latency s = None"
  shows "total_score inp c = 975 / 1000"
proof -
  have "to_fixed 4 (19 / 20) = (19 / 20 :: rat)" "to_fixed 6 (39 / 40) = (39 / 40 :: rat)"
    "to_fixed 4 (39 / 40) = (39 / 40 :: rat)" by (simp_all add: to_fixed_def)
  note r = this
  have q: "quota_term s = 95 / 100" using assms r by (simp add: quota_term_def)
  have rel: "normalise (reliability (Some s)) [0, 1] False = Some 1"
    using assms by (simp add: reliability_def normalise_reliability)
  have av: "average (weighted_terms inp c) = 975 / 1000"
    using assms(1-5) assms(8)
    by (simp add: r q rel weighted_terms_def score_terms_def Let_def average_def weigh_def normalise_def [of None]
        complexity_fit_def latency_of_def blended_price_def)
  show ?thesis using assms(3) by (simp add: av r total_score_def score_terms_def Let_def)
qed

theorem unsourced_model_score_witness:
  "total_score ex_scoring (ex_candidate ''new'' None None) = 975 / 1000 \<and>
   total_score ex_scoring (ex_candidate ''top'' (Some 60) (Some (3, 15))) < 8 / 10"
proof -
  have "total_score ex_scoring (ex_candidate ''new'' None None) = 975 / 1000"
    by (rule unsourced_model_score [where s = "hd (si_usage ex_scoring)"])
      (simp_all add: ex_scoring_def ex_candidate_def signal_of_def DEFAULT_WEIGHTS_def)
  moreover have "total_score ex_scoring (ex_candidate ''top'' (Some 60) (Some (3, 15))) < 8 / 10" by (simp add: ex_scores)
  ultimately show ?thesis by blast
qed

end
