(* ===== verification/Task.thy ===== *)
theory Task
  imports Scoring
begin

text \<open>
  What kind of work a task is (src/router/task.ts): the words that say trivial, standard or hard, the size of the
  prompt, and the class and hardness that follow; and the sub-task of a running agent, read from its messages.
  The scores are real numbers (\<open>Math.exp\<close>, \<open>Math.tanh\<close>).  \<open>JSON.stringify\<close> and \<open>String\<close> of a value that is no
  string are arguments.
\<close>

section \<open>The evidence\<close>

definition words :: "re list \<Rightarrow> re" where
  "words rs = re_seq [Boundary, re_any rs, Boundary]"

definition TRIVIAL :: re where
  "TRIVIAL = words
     [lit_i ''typo'', lit_i ''rename'', lit_i ''renombrar'', lit_i ''bump'', lit_i ''whitespace'', lit_i ''comment out'',
      lit_i ''lint'', lit_i ''format'', lit_i ''prettier'',
      re_seq [lit_i ''add '', re_opt (lit_i ''a ''), re_any [lit_i ''comment'', lit_i ''docstring'']],
      re_seq [lit_i ''list '', re_opt (lit_i ''the ''), lit_i ''file'', re_opt (lit_i ''s'')],
      lit_i ''read the file'', lit_i ''show me'', lit_i ''count'', lit_i ''version bump'', lit_i ''changelog'']"

definition STANDARD :: re where
  "STANDARD = words (map lit_i
     [''fix'', ''bug'', ''test'', ''add'', ''implement'', ''refactor'', ''update'', ''handle'', ''parse'', ''validate'',
      ''migrate data'', ''endpoint'', ''api'', ''pull request'', ''integration''])"

definition HARD :: re where
  "HARD = words
     [lit_i ''architect'', lit_i ''architecture'', lit_i ''race condition'', lit_i ''deadlock'', lit_i ''concurrency'',
      lit_i ''distributed'', lit_i ''consensus'', lit_i ''algorithm'',
      re_seq [lit_i ''performance '', re_any [lit_i ''regression'', lit_i ''profil'']],
      lit_i ''memory leak'', lit_i ''root cause'',
      re_seq [lit_i ''security '', re_any [lit_i ''vulnerab'', lit_i ''audit'']],
      lit_i ''crypto'', lit_i ''cryptograph'',
      re_seq [lit_i ''refactor '', Rep 20 dot, re_any [lit_i ''across'', lit_i ''module'', lit_i ''layer'']],
      lit_i ''end-to-end'', re_seq [lit_i ''design '', re_any [lit_i ''a'', lit_i ''the'']],
      lit_i ''redesign'', lit_i ''rewrite'',
      re_seq [lit_i ''migration '', re_any [lit_i ''plan'', lit_i ''strategy'']],
      lit_i ''interview'', re_seq [lit_i ''production '', re_any [lit_i ''outage'', lit_i ''incident'']]]"

text \<open>\<open>new Set\<close>: the matches in lower case, each once, in the order of their first occurrence.\<close>

definition hits_of :: "re \<Rightarrow> string \<Rightarrow> string list" where
  "hits_of r s = rev (remdups (rev (map js_lower (re_all r s))))"

definition evidence :: "real \<Rightarrow> string list \<Rightarrow> real" where
  "evidence weight hits = (if hits = [] then 0 else weight * (1 - exp (- real (length hits))))"

definition signal_text :: "string \<Rightarrow> string list \<Rightarrow> string list" where
  "signal_text level hits = (if hits = [] then [] else [level @ '':'' @ join '','' (take 4 hits)])"

definition estimate_tokens :: "string \<Rightarrow> int" where
  "estimate_tokens s = max 1 (round_half_up (of_nat (length s) / 4 :: rat))"

definition summarize :: "string \<Rightarrow> int \<Rightarrow> string" where
  "summarize task limit =
     (let line = js_trim (collapse_ws task)
      in if int (length line) \<le> limit then line else slice_to (limit - 1) line @ ellipsis)"

section \<open>The profile\<close>

record task_profile =
  tp_complexity :: complexity
  tp_score :: real
  tp_tokens :: int
  tp_signals :: "string list"
  tp_summary :: string

text \<open>The scores of the three classes, as (trivial, standard, hard).\<close>

definition class_scores :: "string \<Rightarrow> real \<times> real \<times> real" where
  "class_scores s =
     (let tokens = estimate_tokens s
      in (evidence 2 (hits_of TRIVIAL s),
          evidence 1 (hits_of STANDARD s) + (if \<not> 4000 < tokens \<and> 1500 < tokens then 1 / 2 else 0),
          evidence (5 / 2) (hits_of HARD s) + (if 4000 < tokens then 1 else 0)))"

definition class_of :: "real \<Rightarrow> real \<Rightarrow> real \<Rightarrow> complexity" where
  "class_of trivial standard hard =
     (if standard < hard \<and> trivial < hard then Hard
      else if standard < trivial \<and> hard < trivial then Trivial else Standard)"

definition hardness :: "real \<Rightarrow> real \<Rightarrow> real" where
  "hardness trivial hard = min 1 (max 0 (to_fixed 3 (1 / 2 + 1 / 2 * tanh ((hard - trivial) / (hard + trivial + 1)))))"

definition profile_task :: "string \<Rightarrow> task_profile" where
  "profile_task s =
     (let (trivial, standard, hard) = class_scores s; tokens = estimate_tokens s
      in \<lparr>tp_complexity = class_of trivial standard hard, tp_score = hardness trivial hard, tp_tokens = tokens,
          tp_signals = signal_text ''trivial'' (hits_of TRIVIAL s) @ signal_text ''standard'' (hits_of STANDARD s) @
            signal_text ''hard'' (hits_of HARD s) @
            (if 4000 < tokens then [''long-context''] else if 1500 < tokens then [''medium-context''] else []),
          tp_summary = summarize s 400\<rparr>)"

section \<open>Sub-tasks\<close>

record message =
  mg_role :: string
  mg_content :: js
  mg_extra :: js

datatype phase = Starting | Declared | Inferred

definition stated_of :: "message \<Rightarrow> string" where
  "stated_of m =
     (if is_string (js_field ''task'' (mg_extra m)) then str_or_empty (js_field ''task'' (mg_extra m))
      else str_or_empty (js_field ''subtask'' (mg_extra m)))"

definition states_task :: "message \<Rightarrow> bool" where
  "states_task m \<longleftrightarrow> mg_role m = ''assistant'' \<and> js_trim (stated_of m) \<noteq> []"

text \<open>The newest assistant message among the last four that states a task, with its index.\<close>

definition declared_task :: "message list \<Rightarrow> (nat \<times> message) option" where
  "declared_task ms =
     find (\<lambda>(i, m). mg_role m = ''assistant'' \<and> js_trim (stated_of m) \<noteq> [])
       (rev (drop (length ms - 4) (enumerate 0 ms)))"

definition text_of :: "(js \<Rightarrow> string) \<Rightarrow> js \<Rightarrow> string" where
  "text_of show_value v = (case v of JStr s \<Rightarrow> s | JUndef \<Rightarrow> [] | JNull \<Rightarrow> [] | _ \<Rightarrow> show_value v)"

definition content_text :: "(js \<Rightarrow> string) \<Rightarrow> js \<Rightarrow> string" where
  "content_text stringify v =
     (case v of JStr s \<Rightarrow> s | JUndef \<Rightarrow> stringify (JStr []) | JNull \<Rightarrow> stringify (JStr []) | _ \<Rightarrow> stringify v)"

definition user_task :: "(js \<Rightarrow> string) \<Rightarrow> message list \<Rightarrow> string" where
  "user_task stringify ms =
     (case find (\<lambda>m. mg_role m = ''user'') (rev ms) of None \<Rightarrow> [] | Some m \<Rightarrow> content_text stringify (mg_content m))"

definition commands_of :: "(js \<Rightarrow> string) \<Rightarrow> message \<Rightarrow> string list" where
  "commands_of show_value m =
     map (\<lambda>a. if is_object_or_array a then text_of show_value (js_field ''command'' a) else [])
       (arr_or_nil (js_field ''actions'' (mg_extra m)))"

definition profile_subtask :: "(js \<Rightarrow> string) \<Rightarrow> (js \<Rightarrow> string) \<Rightarrow> message list \<Rightarrow> task_profile \<times> nat \<times> phase" where
  "profile_subtask stringify show_value ms =
     (if ms = [] then (profile_task [], 0, Starting)
      else (case declared_task ms of
              Some (i, m) \<Rightarrow> (profile_task (stated_of m), i, Declared)
            | None \<Rightarrow>
                (profile_task (user_task stringify ms @ nl @
                   join nl (concat (map (commands_of show_value) (drop (length ms - 6) ms)))),
                 length ms, Inferred)))"

section \<open>Lemmas\<close>

lemma evidence_nonneg: "0 \<le> w \<Longrightarrow> 0 \<le> evidence w hits"
  by (simp add: evidence_def)

lemma evidence_pos: "0 < w \<Longrightarrow> hits \<noteq> [] \<Longrightarrow> 0 < evidence w hits"
  by (simp add: evidence_def)

lemma evidence_Nil [simp]: "evidence w [] = 0"
  by (simp add: evidence_def)

lemma class_scores_nonneg:
  "class_scores s = (t, st, h) \<Longrightarrow> 0 \<le> t \<and> 0 \<le> st \<and> 0 \<le> h"
  by (auto simp: class_scores_def Let_def evidence_nonneg)

lemma hardness_unit: "0 \<le> hardness t h \<and> hardness t h \<le> 1"
  by (simp add: hardness_def)

lemma tanh_share: "0 \<le> 1 / 2 + 1 / 2 * tanh x" for x :: real
  using tanh_real_bounds [of x] by simp

lemma to_fixed_half: "to_fixed 3 (1 / 2 :: real) = 1 / 2"
  by (simp add: to_fixed_def)

lemma hardness_half:
  assumes "0 \<le> t" "0 \<le> h"
  shows "t \<le> h \<Longrightarrow> 1 / 2 \<le> hardness t h" and "h \<le> t \<Longrightarrow> hardness t h \<le> 1 / 2"
proof -
  show "1 / 2 \<le> hardness t h" if "t \<le> h"
  proof -
    have "0 \<le> tanh ((h - t) / (h + t + 1))" using assms that by simp
    then have "1 / 2 \<le> to_fixed 3 (1 / 2 + 1 / 2 * tanh ((h - t) / (h + t + 1)))"
      using to_fixed_mono_nonneg [of "1 / 2" "1 / 2 + 1 / 2 * tanh ((h - t) / (h + t + 1))" 3]
      by (simp add: to_fixed_half)
    then show ?thesis by (simp add: hardness_def)
  qed
  show "hardness t h \<le> 1 / 2" if "h \<le> t"
  proof -
    have "(h - t) / (h + t + 1) \<le> 0" using assms that by (simp add: divide_nonpos_pos)
    then have "tanh ((h - t) / (h + t + 1)) \<le> 0" by simp
    then have "to_fixed 3 (1 / 2 + 1 / 2 * tanh ((h - t) / (h + t + 1))) \<le> 1 / 2"
      using to_fixed_mono_nonneg [of "1 / 2 + 1 / 2 * tanh ((h - t) / (h + t + 1))" "1 / 2" 3] tanh_share
      by (simp add: to_fixed_half)
    then show ?thesis by (simp add: hardness_def)
  qed
qed

lemma estimate_tokens_pos: "1 \<le> estimate_tokens s"
  by (simp add: estimate_tokens_def)

lemma summarize_bound: "1 \<le> limit \<Longrightarrow> int (length (summarize s limit)) \<le> limit"
  by (auto simp: summarize_def Let_def slice_to_def ellipsis_def)

lemma hits_of_Nil_iff: "hits_of r s = [] \<longleftrightarrow> re_all r s = []"
  by (simp add: hits_of_def)

lemma profile_simps:
  assumes "class_scores s = (t, st, h)"
  shows "tp_complexity (profile_task s) = class_of t st h" "tp_score (profile_task s) = hardness t h"
    "tp_tokens (profile_task s) = estimate_tokens s" "tp_summary (profile_task s) = summarize s 400"
  using assms by (simp_all add: profile_task_def Let_def)

lemma no_signals:
  assumes "tp_signals (profile_task s) = []"
  shows "class_scores s = (0, 0, 0)"
  using assms
  by (auto simp: profile_task_def signal_text_def class_scores_def Let_def split: prod.splits if_splits)

lemma declared_task_alt:
  "declared_task ms = find (\<lambda>(i, m). states_task m) (rev (drop (length ms - 4) (enumerate 0 ms)))"
  by (simp add: declared_task_def states_task_def case_prod_beta')

text \<open>The newest message that states a task is found, wherever it is among the last four.\<close>

lemma declared_task_last:
  assumes "length post \<le> 3" "states_task m" "\<forall>x \<in> set post. \<not> states_task x"
  shows "declared_task (pre @ m # post) = Some (length pre, m)"
proof -
  let ?es = "enumerate 0 pre @ (length pre, m) # enumerate (Suc (length pre)) post"
  have e: "enumerate 0 (pre @ m # post) = ?es" by (simp add: enumerate_append_eq)
  have "length (pre @ m # post) - 4 \<le> length (enumerate 0 pre)" using assms(1) by simp
  then have "drop (length (pre @ m # post) - 4) ?es =
      drop (length (pre @ m # post) - 4) (enumerate 0 pre) @ (length pre, m) # enumerate (Suc (length pre)) post"
    by simp
  moreover have "find (\<lambda>(i, m). states_task m) (rev (enumerate (Suc (length pre)) post)) = None"
    using assms(3) by (auto simp: find_None_iff in_set_enumerate_eq)
  moreover have "find P (xs @ ys) = (case find P xs of None \<Rightarrow> find P ys | Some x \<Rightarrow> Some x)" for P :: "nat \<times> message \<Rightarrow> bool" and xs ys
    by (induction xs) auto
  ultimately show ?thesis using assms(2) by (simp only: declared_task_alt e) simp
qed

lemma find_mem: "find P xs = Some x \<Longrightarrow> x \<in> set xs \<and> P x"
  by (induction xs) (auto split: if_splits)

lemma declared_task_newest:
  assumes "declared_task ms = Some (i, m)"
  shows "i < length ms \<and> length ms \<le> i + 4 \<and> states_task (ms ! i) \<and> ms ! i = m \<and>
    (\<forall>j \<in> {i<..<length ms}. \<not> states_task (ms ! j))"
proof -
  have "(i, m) \<in> set (drop (length ms - 4) (enumerate 0 ms))" "states_task m"
    using find_mem [OF assms [unfolded declared_task_alt]] by auto
  then obtain k where k: "k < length ms - (length ms - 4)" "(i, m) = drop (length ms - 4) (enumerate 0 ms) ! k"
    by (auto simp: in_set_conv_nth)
  then have i: "i = length ms - 4 + k" "m = ms ! i" by (simp_all add: nth_enumerate_eq)
  define g where "g = (GREATEST j. j < length ms \<and> states_task (ms ! j))"
  have ok: "i < length ms \<and> states_task (ms ! i)" using k(1) i \<open>states_task m\<close> by simp
  have g: "g < length ms \<and> states_task (ms ! g)" 
    unfolding g_def by (rule GreatestI_nat [where b = "length ms" and P = "\<lambda>j. j < length ms \<and> states_task (ms ! j)", OF ok]) simp
  have max: "j \<le> g" if "j < length ms" "states_task (ms ! j)" for j
    unfolding g_def by (rule Greatest_le_nat [where b = "length ms"]) (use that in auto)
  have post: "\<forall>x \<in> set (drop (Suc g) ms). \<not> states_task x"
  proof
    fix x assume "x \<in> set (drop (Suc g) ms)"
    then obtain j where "j < length ms - Suc g" "x = ms ! (Suc g + j)" by (auto simp: in_set_conv_nth)
    then have "Suc g + j < length ms" by simp
    with \<open>x = ms ! (Suc g + j)\<close> max [of "Suc g + j"] show "\<not> states_task x" by auto
  qed
  have "i \<le> g" using max ok by blast
  with i k(1) have "length (drop (Suc g) ms) \<le> 3" by simp
  from declared_task_last [OF this conjunct2 [OF g] post, of "take g ms"] g
  have "declared_task ms = Some (g, ms ! g)" by (simp add: id_take_nth_drop [symmetric])
  with assms have "i = g" by simp
  moreover have "\<forall>j \<in> {g<..<length ms}. \<not> states_task (ms ! j)" using max by force
  ultimately show ?thesis using ok i k(1) by auto
qed

section \<open>Properties\<close>

text \<open>
  a task's profile.  Its hardness is from 0 to 1, it counts at least one token and its summary has at most 400
  characters.  A task with no signal is a standard one with the neutral hardness 0.5; a hard one is never below it
  and a trivial one never above; when all its words are of the class hard (or trivial, in a short prompt), that is the class.
\<close>

theorem profile_task_classes:
  "0 \<le> tp_score (profile_task s) \<and> tp_score (profile_task s) \<le> 1 \<and> 1 \<le> tp_tokens (profile_task s) \<and>
   length (tp_summary (profile_task s)) \<le> 400 \<and>
   (tp_signals (profile_task s) = [] \<longrightarrow> tp_complexity (profile_task s) = Standard \<and> tp_score (profile_task s) = 1 / 2) \<and>
   (tp_complexity (profile_task s) = Hard \<longrightarrow> 1 / 2 \<le> tp_score (profile_task s)) \<and>
   (tp_complexity (profile_task s) = Trivial \<longrightarrow> tp_score (profile_task s) \<le> 1 / 2) \<and>
   (hits_of TRIVIAL s = [] \<and> hits_of STANDARD s = [] \<and> hits_of HARD s \<noteq> [] \<and>
     (tp_tokens (profile_task s) \<le> 1500 \<or> 4000 < tp_tokens (profile_task s)) \<longrightarrow> tp_complexity (profile_task s) = Hard) \<and>
   (hits_of TRIVIAL s \<noteq> [] \<and> hits_of STANDARD s = [] \<and> hits_of HARD s = [] \<and>
     tp_tokens (profile_task s) \<le> 1500 \<longrightarrow> tp_complexity (profile_task s) = Trivial)"
proof -
  obtain t st h where c: "class_scores s = (t, st, h)" by (cases "class_scores s")
  note p = profile_simps [OF c] and nn = class_scores_nonneg [OF c]
  have len: "length (summarize s 400) \<le> 400" using summarize_bound [of 400 s] by simp
  have none: "tp_signals (profile_task s) = [] \<longrightarrow> class_of t st h = Standard \<and> hardness t h = 1 / 2"
    using no_signals [of s] c by (auto simp: class_of_def hardness_def to_fixed_half)
  have hard: "class_of t st h = Hard \<longrightarrow> 1 / 2 \<le> hardness t h" and
    triv: "class_of t st h = Trivial \<longrightarrow> hardness t h \<le> 1 / 2"
    using hardness_half [of t h] nn by (auto simp: class_of_def split: if_splits)
  have only_hard: "class_of t st h = Hard" if "hits_of TRIVIAL s = []" "hits_of STANDARD s = []" "hits_of HARD s \<noteq> []"
    "estimate_tokens s \<le> 1500 \<or> 4000 < estimate_tokens s"
    using c that evidence_pos [of "5 / 2" "hits_of HARD s"] by (auto simp: class_scores_def Let_def class_of_def)
  have only_triv: "class_of t st h = Trivial" if "hits_of TRIVIAL s \<noteq> []" "hits_of STANDARD s = []" "hits_of HARD s = []"
    "estimate_tokens s \<le> 1500"
    using c that evidence_pos [of 2 "hits_of TRIVIAL s"] by (auto simp: class_scores_def Let_def class_of_def)
  show ?thesis
    unfolding p using hardness_unit [of t h] estimate_tokens_pos [of s] len none hard triv only_hard only_triv by blast
qed

theorem profile_task_classes_witness:
  "tp_complexity (profile_task ''find the deadlock'') = Hard \<and> 1 / 2 \<le> tp_score (profile_task ''find the deadlock'') \<and>
   tp_complexity (profile_task ''hello'') = Standard \<and> tp_score (profile_task ''hello'') = 1 / 2"
proof -
  have h: "hits_of TRIVIAL ''find the deadlock'' = []" "hits_of STANDARD ''find the deadlock'' = []"
    "hits_of HARD ''find the deadlock'' = [''deadlock'']" by code_simp+
  have n: "hits_of TRIVIAL ''hello'' = []" "hits_of STANDARD ''hello'' = []" "hits_of HARD ''hello'' = []" by code_simp+
  have tok: "estimate_tokens ''find the deadlock'' = 4" "estimate_tokens ''hello'' = 1"
    by (simp_all add: estimate_tokens_def round_half_up_def)
  have "tp_tokens (profile_task ''find the deadlock'') = 4" by (simp add: profile_task_def Let_def tok split: prod.split)
  moreover have "tp_signals (profile_task ''hello'') = []"
    by (simp add: profile_task_def Let_def tok n signal_text_def split: prod.split)
  ultimately show ?thesis
    using profile_task_classes [of "''find the deadlock''"] profile_task_classes [of "''hello''"] h by simp
qed

text \<open>
  the sub-task of an agent is the one declared at message \<open>i\<close> exactly when \<open>i\<close> is among the last four messages,
  an assistant's message, states a task, and is the newest such message; the profile is then the one of the stated
  words alone.
\<close>

theorem subtask_is_declared:
  "(\<exists>p. profile_subtask stringify show_value ms = (p, i, Declared)) \<longleftrightarrow>
     i < length ms \<and> length ms \<le> i + 4 \<and> states_task (ms ! i) \<and> (\<forall>j \<in> {i<..<length ms}. \<not> states_task (ms ! j)) \<and>
     profile_subtask stringify show_value ms = (profile_task (stated_of (ms ! i)), i, Declared)"
proof
  assume "\<exists>p. profile_subtask stringify show_value ms = (p, i, Declared)"
  then obtain m where d: "declared_task ms = Some (i, m)"
    by (auto simp: profile_subtask_def split: if_splits option.splits)
  from declared_task_newest [OF d] d show "i < length ms \<and> length ms \<le> i + 4 \<and> states_task (ms ! i) \<and>
      (\<forall>j \<in> {i<..<length ms}. \<not> states_task (ms ! j)) \<and>
      profile_subtask stringify show_value ms = (profile_task (stated_of (ms ! i)), i, Declared)"
    by (auto simp: profile_subtask_def declared_task_def)
qed auto

theorem subtask_is_declared_witness:
  "\<exists>p. profile_subtask (\<lambda>v. []) (\<lambda>v. []) [\<lparr>mg_role = ''assistant'', mg_content = JNull, mg_extra = JObj [(''task'', JStr ''fix it'')]\<rparr>]
     = (p, 0, Declared)"
  by (subst subtask_is_declared) (simp add: states_task_def stated_of_def js_trim_def trim_end_def trim_start_def js_ws_def
      profile_subtask_def declared_task_def)

end
