(* ===== verification/LayaClient.thy ===== *)
theory LayaClient
  imports Prelude
begin

text \<open>
  The client of the decision model (src/router/laya.ts): reading a reply into typed answers, and the call that never
  throws.  The network is an argument: the outcome of the request.  The text of an error the engine words itself, and
  the latency of the call, are left out.
\<close>

section \<open>Answers\<close>

datatype laya_answer =
    ChoiceAnswer string "(string \<times> rat) list" rat
  | NoulAnswer rat rat
  | ScoreAnswer rat rat

datatype laya_error =
    InvalidJson
  | NullPayload
  | NoProbabilities string
  | NoNoul string
  | NoScore string
  | NoAnswers

fun finite_number :: "js \<Rightarrow> rat option" where
  "finite_number (JNum r) = Some r"
| "finite_number _ = None"

text \<open>\<open>Object.entries(v ?? {})\<close>; the entries of a text are characters, which no caller uses.\<close>

fun entries :: "js \<Rightarrow> (string \<times> js) list" where
  "entries (JObj kvs) = kvs"
| "entries (JArr vs) = zip (map show_nat [0..<length vs]) vs"
| "entries _ = []"

definition probability_entries :: "js \<Rightarrow> (string \<times> rat) list" where
  "probability_entries v =
     List.map_filter (\<lambda>(k, p). case finite_number p of None \<Rightarrow> None | Some r \<Rightarrow> (if 0 \<le> r \<and> r \<le> 1 then Some (k, r) else None))
       (entries v)"

text \<open>An entry of \<open>answers\<close>: an error, an answer, or nothing to keep.\<close>

definition parse_answer :: "string \<Rightarrow> js \<Rightarrow> laya_error + laya_answer option" where
  "parse_answer key v =
     (if \<not> is_object_or_array v then Inr None
      else
        (let confidence = (case finite_number (js_field ''confidence'' v) of None \<Rightarrow> 0 | Some c \<Rightarrow> c);
             kind = js_field ''type'' v
         in if kind = JStr ''choice'' then
              (let ps = probability_entries (js_field ''probabilities'' v);
                   choice = js_field ''choice'' v
               in if ps = [] then Inl (NoProbabilities key)
                  else Inr (Some (ChoiceAnswer (if is_string choice then str_or_empty choice else fst (hd ps)) ps confidence)))
            else if kind = JStr ''noul'' then
              (case finite_number (js_field ''noul'' v) of
                 None \<Rightarrow> Inl (NoNoul key)
               | Some p \<Rightarrow> (if p < 0 \<or> 1 < p then Inl (NoNoul key) else Inr (Some (NoulAnswer p confidence))))
            else if kind = JStr ''score'' then
              (case finite_number (js_field ''score'' v) of
                 None \<Rightarrow> Inl (NoScore key)
               | Some s \<Rightarrow> Inr (Some (ScoreAnswer s confidence)))
            else Inr None))"

fun parse_answers :: "(string \<times> js) list \<Rightarrow> laya_error + (string \<times> laya_answer) list" where
  "parse_answers [] = Inr []"
| "parse_answers ((key, v) # kvs) =
     (case parse_answer key v of
        Inl e \<Rightarrow> Inl e
      | Inr a \<Rightarrow>
          (case parse_answers kvs of
             Inl e \<Rightarrow> Inl e
           | Inr as \<Rightarrow> Inr ((case a of None \<Rightarrow> [] | Some x \<Rightarrow> [(key, x)]) @ as)))"

record laya_reply =
  ly_answers :: "(string \<times> laya_answer) list"
  ly_checkpoint :: string
  ly_truncated :: bool

text \<open>\<open>parseLayaResponse\<close>, from what \<open>JSON.parse\<close> makes of the text.\<close>

definition parse_laya :: "js option \<Rightarrow> laya_error + laya_reply" where
  "parse_laya parsed =
     (case parsed of
        None \<Rightarrow> Inl InvalidJson
      | Some payload \<Rightarrow>
          (if payload = JNull then Inl NullPayload
           else
             (let usage = js_field ''usage'' payload;
                  truncated = (js_field ''truncated'' usage = JBool True \<or>
                    arr_or_nil (js_field ''truncated_questions'' usage) \<noteq> [])
              in case parse_answers (entries (js_field ''answers'' payload)) of
                   Inl e \<Rightarrow> Inl e
                 | Inr as \<Rightarrow>
                     (if as = [] then Inl NoAnswers
                      else Inr \<lparr>ly_answers = as,
                        ly_checkpoint = str_or_empty (js_field ''model'' (js_field ''routing'' payload)),
                        ly_truncated = truncated\<rparr>))))"

section \<open>The call\<close>

datatype laya_reason =
    NoReason
  | NotConsulted
  | OfflineMode
  | BadUrl string
  | HttpStatus int
  | TooLong
  | BadReply laya_error
  | TruncatedEvidence
  | TimedOut
  | TransportError string

record laya_result =
  lr_ok :: bool
  lr_answers :: "(string \<times> laya_answer) list"
  lr_checkpoint :: string
  lr_reason :: laya_reason

text \<open>What \<open>fetch\<close> and reading its body come to: a status with the body's length and parse, an abort, or an error.\<close>

datatype fetch_outcome =
    Reply int int "js option"
  | Aborted
  | Failed string

type_synonym environment = "string \<Rightarrow> string option"

definition laya_url :: "environment \<Rightarrow> string" where
  "laya_url env =
     (let configured = js_trim (case env ''MINITUI_LAYA_URL'' of Some u \<Rightarrow> u | None \<Rightarrow>
            (case env ''MINI_AGENT_GOAL_ORACLE_URL'' of Some u \<Rightarrow> u | None \<Rightarrow> []))
      in if configured = [] then ''http://127.0.0.1:8102/v1/systemone'' else configured)"

definition laya_checkpoint :: "environment \<Rightarrow> string" where
  "laya_checkpoint env =
     (case env ''MINITUI_LAYA_MODEL'' of
        None \<Rightarrow> ''laya-multilingual''
      | Some m \<Rightarrow> (if js_trim m = [] then ''laya-multilingual'' else js_trim m))"

definition ask_laya :: "string \<Rightarrow> string \<Rightarrow> fetch_outcome \<Rightarrow> laya_result" where
  "ask_laya url checkpoint outcome =
     (let failed = (\<lambda>r. \<lparr>lr_ok = False, lr_answers = [], lr_checkpoint = checkpoint, lr_reason = r\<rparr>)
      in if \<not> (prefix ''http://'' url \<or> prefix ''https://'' url) then failed (BadUrl (take 80 url))
         else (case outcome of
             Aborted \<Rightarrow> failed TimedOut
           | Failed msg \<Rightarrow> failed (TransportError (take 160 msg))
           | Reply status len parsed \<Rightarrow>
               (if \<not> (200 \<le> status \<and> status \<le> 299) then failed (HttpStatus status)
                else if 512000 < len then failed TooLong
                else (case parse_laya parsed of
                    Inl e \<Rightarrow> failed (BadReply e)
                  | Inr r \<Rightarrow>
                      (if ly_truncated r then failed TruncatedEvidence
                       else \<lparr>lr_ok = True, lr_answers = ly_answers r,
                         lr_checkpoint = (if ly_checkpoint r = [] then checkpoint else ly_checkpoint r),
                         lr_reason = NoReason\<rparr>)))))"

section \<open>What an answer is worth\<close>

definition probability :: "rat \<Rightarrow> bool" where
  "probability p \<longleftrightarrow> 0 \<le> p \<and> p \<le> 1"

fun answer_ok :: "laya_answer \<Rightarrow> bool" where
  "answer_ok (ChoiceAnswer c ps conf) \<longleftrightarrow> ps \<noteq> [] \<and> list_all (\<lambda>(k, p). probability p) ps"
| "answer_ok (NoulAnswer p conf) \<longleftrightarrow> probability p"
| "answer_ok (ScoreAnswer s conf) \<longleftrightarrow> True"

lemma probabilityI: "0 \<le> p \<Longrightarrow> p \<le> 1 \<Longrightarrow> probability p"
  by (simp add: probability_def)

lemma probability_entries_ok: "list_all (\<lambda>(k, p). probability p) (probability_entries v)"
  by (auto simp: probability_entries_def list_all_iff List.map_filter_def probability_def split: option.splits if_splits)

lemma parse_answer_ok: "parse_answer key v = Inr (Some a) \<Longrightarrow> answer_ok a"
  by (auto simp: parse_answer_def Let_def probability_entries_ok not_less intro: probabilityI split: if_splits option.splits)

lemma parse_answers_ok: "parse_answers kvs = Inr as \<Longrightarrow> list_all (\<lambda>(k, a). answer_ok a) as"
proof (induction kvs arbitrary: as)
  case (Cons kv kvs)
  then show ?case
    by (cases kv) (auto dest: parse_answer_ok split: sum.splits option.splits)
qed simp

lemma parse_laya_ok:
  "parse_laya parsed = Inr r \<Longrightarrow> ly_answers r \<noteq> [] \<and> list_all (\<lambda>(k, a). answer_ok a) (ly_answers r)"
  by (auto simp: parse_laya_def Let_def dest: parse_answers_ok split: option.splits if_splits sum.splits)

lemma ask_laya_ok:
  "lr_ok (ask_laya url cp out) \<Longrightarrow> lr_answers (ask_laya url cp out) \<noteq> [] \<and>
     list_all (\<lambda>(k, a). answer_ok a) (lr_answers (ask_laya url cp out))"
  by (auto simp: ask_laya_def Let_def dest: parse_laya_ok split: fetch_outcome.splits if_splits sum.splits)

text \<open>
  The contract the router relies on: what a client of the decision model reports when it says that it answered.
\<close>

locale decision_model =
  fixes ask :: "'a \<Rightarrow> laya_result"
  assumes ask_ok: "lr_ok (ask x) \<Longrightarrow> list_all (\<lambda>(k, a). answer_ok a) (lr_answers (ask x))"
begin

lemma choice_probabilities:
  assumes "lr_ok (ask x)" "map_of (lr_answers (ask x)) key = Some (ChoiceAnswer c ps conf)" "map_of ps k = Some p"
  shows "probability p"
proof -
  have "(key, ChoiceAnswer c ps conf) \<in> set (lr_answers (ask x))" using assms(2) by (rule map_of_SomeD)
  with ask_ok [OF assms(1)] have "answer_ok (ChoiceAnswer c ps conf)"
    unfolding list_all_iff by fast
  moreover have "(k, p) \<in> set ps" using assms(3) by (rule map_of_SomeD)
  ultimately show ?thesis by (auto simp: list_all_iff)
qed

end

interpretation laya_client: decision_model "\<lambda>(url, cp, out). ask_laya url cp out"
  by unfold_locales (auto dest: ask_laya_ok)

section \<open>Properties\<close>

text \<open>
  a reply counts as an answer only when the request went to an http address and came back with a 2xx status, at
  most 512,000 characters, a readable payload and no truncation; then there is an answer, and every probability in it
  is between 0 and 1.  In every other case nothing is reported and the reason says why.
\<close>

theorem laya_answers_usable:
  "(lr_ok (ask_laya url cp out) \<longleftrightarrow>
     (prefix ''http://'' url \<or> prefix ''https://'' url) \<and>
     (\<exists>status len parsed r. out = Reply status len parsed \<and> 200 \<le> status \<and> status \<le> 299 \<and> len \<le> 512000 \<and>
        parse_laya parsed = Inr r \<and> \<not> ly_truncated r)) \<and>
   (lr_ok (ask_laya url cp out) \<longrightarrow> lr_answers (ask_laya url cp out) \<noteq> [] \<and>
     list_all (\<lambda>(k, a). answer_ok a) (lr_answers (ask_laya url cp out))) \<and>
   (\<not> lr_ok (ask_laya url cp out) \<longrightarrow> lr_answers (ask_laya url cp out) = [] \<and> lr_reason (ask_laya url cp out) \<noteq> NoReason)"
  using ask_laya_ok [of url cp out]
  by (auto simp: ask_laya_def Let_def split: fetch_outcome.splits sum.splits)

definition ex_reply :: js where
  "ex_reply = JObj [(''answers'', JObj [(''model_fit'', JObj [(''type'', JStr ''choice''), (''choice'', JStr ''m0''),
     (''probabilities'', JObj [(''m0'', JNum (8 / 10)), (''m1'', JNum (2 / 10)), (''m2'', JNum 7)])])])]"

lemma ex_reply_parsed:
  "parse_laya (Some ex_reply) = Inr \<lparr>ly_answers = [(''model_fit'', ChoiceAnswer ''m0'' [(''m0'', 8 / 10), (''m1'', 2 / 10)] 0)],
     ly_checkpoint = [], ly_truncated = False\<rparr>"
  by (simp add: parse_laya_def ex_reply_def parse_answer_def probability_entries_def List.map_filter_simps)

theorem laya_answers_usable_witness:
  "lr_ok (ask_laya (laya_url (\<lambda>k. None)) ''c'' (Reply 200 100 (Some ex_reply))) \<and>
   \<not> lr_ok (ask_laya (laya_url (\<lambda>k. None)) ''c'' (Reply 500 100 (Some ex_reply)))"
  using laya_answers_usable [of "laya_url (\<lambda>k. None)" "''c''" "Reply 200 100 (Some ex_reply)"]
    laya_answers_usable [of "laya_url (\<lambda>k. None)" "''c''" "Reply 500 100 (Some ex_reply)"]
  by (simp add: ex_reply_parsed laya_url_def Let_def js_trim_def trim_start_def trim_end_def)

end
