(* ===== verification/Router.thy ===== *)
theory Router
  imports Task LayaClient
begin

text \<open>
  The model router (src/router/index.ts) and its audit trail (src/router/audit.ts): which model runs a task, why, what
  is written down, and what happens after a model failed.  The decision model is a function of the request it is sent;
  the pool and the usage of the last day are read before.  A reason is kept as data instead of a sentence.
  Every audit write succeeds; a ranking is read back as it was written.
\<close>

section \<open>Data\<close>

datatype level = TaskLevel | DelegateLevel | SubtaskLevel

datatype source = ByLaya | ByPolicy | ByHand | ByFallback

datatype route_reason =
    ManualPin
  | NoConnections
  | NoCatalog
  | AllBlocked
  | LayaDecided "string option" "rat option" "why list"
  | LayaUndecided "string option" "why list"
  | LayaOverruled "string option" "string option" "why list"
  | LayaUnavailable laya_reason "why list"
  | AfterFailure string breaker_reason route_reason

record decision =
  rd_model :: string
  rd_level :: level
  rd_source :: source
  rd_reason :: route_reason
  rd_layaProbability :: "rat option"
  rd_layaConfidence :: "rat option"
  rd_checkpoint :: string
  rd_layaReason :: laya_reason
  rd_profile :: task_profile
  rd_candidates :: "scored list"
  rd_auditId :: nat
  rd_empty :: bool

record route_request =
  rq_level :: level
  rq_task :: string
  rq_pinned :: string
  rq_allow :: "string list"
  rq_offline :: bool
  rq_from :: string

text \<open>The text of an option (\<open>criteria\<close>), as data.\<close>

record option_text =
  ot_name :: string
  ot_provider :: string
  ot_index :: "rat option"
  ot_price :: "(rat \<times> rat) option"

text \<open>\<open>RouterDeps\<close> and the clock; \<open>ro_injected\<close> says that \<open>deps.ask\<close> is given.\<close>

record router_env =
  ro_now :: int
  ro_clock :: int
  ro_candidates :: "candidate list"
  ro_usage :: "usage_signal list"
  ro_ask :: "string \<times> (string \<times> option_text) list \<Rightarrow> laya_result"
  ro_injected :: bool
  ro_offline :: bool
  ro_collate :: "string \<Rightarrow> string \<Rightarrow> int"

section \<open>The audit trail\<close>

record ranking_row =
  rr_model :: string
  rr_score :: rat
  rr_terms :: terms_of
  rr_why :: "why list"
  rr_excluded :: "exclusion option"

record audit_row =
  au_id :: nat
  au_at :: int
  au_level :: level
  au_source :: source
  au_chosen :: string
  au_reason :: route_reason
  au_layaProbability :: "rat option"
  au_layaConfidence :: "rat option"
  au_checkpoint :: string
  au_layaReason :: laya_reason
  au_complexity :: complexity
  au_task :: string
  au_candidates :: nat
  au_ranking :: "ranking_row list"
  au_from :: string
  au_fallbackReason :: "breaker_reason option"

text \<open>The rows in the order they were inserted, and the next id.\<close>

record audit_log =
  al_rows :: "audit_row list"
  al_next :: nat

definition audit_clean :: "int \<Rightarrow> string \<Rightarrow> string" where
  "audit_clean n s = slice_to n (map (\<lambda>c. if is_control c \<or> c = CHR 0x7F then CHR '' '' else c) s)"

definition audit_record :: "audit_log \<Rightarrow> audit_row \<Rightarrow> audit_log \<times> nat" where
  "audit_record trail d =
     (trail\<lparr>al_rows := al_rows trail @ [d\<lparr>au_id := al_next trail, au_chosen := audit_clean 200 (au_chosen d),
        au_checkpoint := audit_clean 64 (au_checkpoint d), au_task := audit_clean 600 (au_task d),
        au_from := audit_clean 200 (au_from d)\<rparr>], al_next := Suc (al_next trail)\<rparr>, al_next trail)"

definition audit_recent :: "audit_log \<Rightarrow> int \<Rightarrow> level option \<Rightarrow> audit_row list" where
  "audit_recent trail limit lev =
     slice_to (min (max limit 1) 500)
       (sort_stable (\<lambda>x y. au_at y < au_at x \<or> au_at x = au_at y \<and> au_id y < au_id x)
         (case lev of None \<Rightarrow> al_rows trail | Some l \<Rightarrow> filter (\<lambda>r. au_level r = l) (al_rows trail)))"

text \<open>Per chosen model: how often it was chosen, and how often as a fallback.\<close>

definition audit_counts :: "audit_log \<Rightarrow> int \<Rightarrow> (string \<times> nat \<times> nat) list" where
  "audit_counts trail since =
     (let rows = filter (\<lambda>r. since \<le> au_at r) (al_rows trail)
      in map (\<lambda>m. (m, length (filter (\<lambda>r. au_chosen r = m \<and> au_source r \<noteq> ByFallback) rows),
                     length (filter (\<lambda>r. au_chosen r = m \<and> au_source r = ByFallback) rows)))
           (remdups (map au_chosen rows)))"

definition audit_prune :: "audit_log \<Rightarrow> int \<Rightarrow> audit_log \<times> nat" where
  "audit_prune trail before =
     (trail\<lparr>al_rows := filter (\<lambda>r. \<not> au_at r < before) (al_rows trail)\<rparr>,
      length (filter (\<lambda>r. au_at r < before) (al_rows trail)))"

section \<open>Usage\<close>

record usage_call =
  uc_at :: int
  uc_model :: string
  uc_provider :: string
  uc_ok :: bool
  uc_latency :: "rat option"
  uc_cost :: "rat option"

definition sum_known :: "rat option list \<Rightarrow> rat option" where
  "sum_known xs = (case List.map_filter id xs of [] \<Rightarrow> None | ys \<Rightarrow> Some (sum_list ys))"

text \<open>\<open>GROUP BY model\<close>: with a single \<open>MAX(at)\<close> the bare column \<open>provider\<close> is that of the row with the latest time.\<close>

definition usage_of_model :: "usage_call list \<Rightarrow> string \<Rightarrow> usage_signal" where
  "usage_of_model rows m =
     (let mine = filter (\<lambda>r. uc_model r = m) rows;
          last = foldl (\<lambda>a r. if uc_at a < uc_at r then r else a) (hd mine) (tl mine);
          timed = List.map_filter uc_latency mine
      in \<lparr>u_provider = uc_provider last, u_model = m, u_calls = length mine,
          u_errors = length (filter (\<lambda>r. \<not> uc_ok r) mine),
          u_latency = (if timed = [] then None else Some (of_int (round_half_up (sum_list timed / of_nat (length timed))))),
          u_cost = sum_known (map uc_cost mine), u_lastUsedAt = Some (uc_at last)\<rparr>)"

definition read_usage_signals :: "usage_call list \<Rightarrow> int \<Rightarrow> int \<Rightarrow> usage_signal list" where
  "read_usage_signals calls window now =
     (let rows = filter (\<lambda>r. now - window \<le> uc_at r) calls
      in map (usage_of_model rows) (remdups (map uc_model rows)))"

section \<open>Asking the decision model\<close>

definition option_key :: "nat \<Rightarrow> string" where
  "option_key i = CHR ''m'' # show_nat i"

definition cheaper :: "scored \<Rightarrow> scored \<Rightarrow> bool" where
  "cheaper a b =
     (case (c_price (sc_candidate a), c_price (sc_candidate b)) of
        (Some (x, _), Some (y, _)) \<Rightarrow> x < y | (Some _, None) \<Rightarrow> True | _ \<Rightarrow> False)"

definition laya_options :: "(string \<Rightarrow> string \<Rightarrow> int) \<Rightarrow> scored list \<Rightarrow> scored list" where
  "laya_options collate candidates =
     (let ranked = filter (\<lambda>r. sc_excluded r = None) (rank collate candidates);
          best = take 8 ranked; cheapest = take 4 (sort_stable cheaper ranked)
      in take 12 (fold (upsert (\<lambda>r. c_id (sc_candidate r))) (best @ cheapest) []))"

definition laya_question :: "(string \<Rightarrow> string \<Rightarrow> int) \<Rightarrow> scored list \<Rightarrow> (string \<times> option_text) list \<times> string list" where
  "laya_question collate candidates =
     (let picked = laya_options collate candidates
      in (map (\<lambda>(i, r). (option_key i, \<lparr>ot_name = c_displayName (sc_candidate r), ot_provider = c_provider (sc_candidate r),
            ot_index = c_index (sc_candidate r), ot_price = c_price (sc_candidate r)\<rparr>)) (enumerate 0 picked),
          map (\<lambda>r. c_id (sc_candidate r)) picked))"

definition laya_probabilities :: "(string \<Rightarrow> string \<Rightarrow> int) \<Rightarrow> laya_result \<Rightarrow> scored list \<Rightarrow> (string \<times> rat) list option" where
  "laya_probabilities collate result candidates =
     (case map_of (lr_answers result) ''model_fit'' of
        Some (ChoiceAnswer choice ps conf) \<Rightarrow>
          (let (criteria, keys) = laya_question collate candidates;
               out = fold (\<lambda>(i, model) out.
                   if map_of criteria (option_key i) = None then out
                   else (case map_of ps (option_key i) of None \<Rightarrow> out | Some p \<Rightarrow> upsert fst (model, p) out))
                 (enumerate 0 keys) []
           in if out = [] then None else Some out)
      | _ \<Rightarrow> None)"

fun complexity_name :: "complexity \<Rightarrow> string" where
  "complexity_name Trivial = ''trivial''"
| "complexity_name Standard = ''standard''"
| "complexity_name Hard = ''hard''"

definition build_state :: "string \<Rightarrow> task_profile \<Rightarrow> string" where
  "build_state task profile =
     join nl ([''task: '' @ tp_summary profile, ''complexity: '' @ complexity_name (tp_complexity profile),
        ''estimated_prompt_tokens: '' @ show_int (tp_tokens profile)] @
       (if tp_signals profile = [] then [] else [''signals: '' @ join '' | '' (tp_signals profile)]))"

section \<open>Routing\<close>

record router_state =
  rs_breakers :: breakers
  rs_audit :: audit_log

definition finish :: "router_env \<Rightarrow> string \<Rightarrow> breaker_reason option \<Rightarrow> router_state \<Rightarrow> decision \<Rightarrow> router_state \<times> decision" where
  "finish env from_model fallbackReason st d =
     (let row = \<lparr>au_id = 0, au_at = ro_clock env, au_level = rd_level d, au_source = rd_source d,
            au_chosen = (if rd_model d = [] then ''(none)'' else rd_model d), au_reason = rd_reason d,
            au_layaProbability = rd_layaProbability d, au_layaConfidence = rd_layaConfidence d,
            au_checkpoint = rd_checkpoint d, au_layaReason = rd_layaReason d,
            au_complexity = tp_complexity (rd_profile d), au_task = tp_summary (rd_profile d),
            au_candidates = length (rd_candidates d),
            au_ranking = map (\<lambda>r. \<lparr>rr_model = c_id (sc_candidate r), rr_score = sc_score r, rr_terms = sc_terms r,
                rr_why = sc_why r, rr_excluded = sc_excluded r\<rparr>) (take 12 (rd_candidates d)),
            au_from = from_model, au_fallbackReason = fallbackReason\<rparr>;
          (trail, i) = audit_record (rs_audit st) row
      in (st\<lparr>rs_audit := trail\<rparr>, d\<lparr>rd_auditId := i\<rparr>))"

definition allowed :: "route_request \<Rightarrow> candidate \<Rightarrow> bool" where
  "allowed rq c \<longleftrightarrow> rq_allow rq = [] \<or> c_id c \<in> set (rq_allow rq) \<or> c_provider c \<in> set (rq_allow rq)"

definition route_profile :: "route_request \<Rightarrow> task_profile" where
  "route_profile rq =
     (if rq_level rq = SubtaskLevel \<and> rq_task rq = [] then fst (profile_subtask (\<lambda>v. []) (\<lambda>v. []) [])
      else profile_task (rq_task rq))"

definition route_pool :: "router_env \<Rightarrow> route_request \<Rightarrow> candidate list" where
  "route_pool env rq = filter (allowed rq) (ro_candidates env)"

definition route_connected :: "router_env \<Rightarrow> route_request \<Rightarrow> candidate list" where
  "route_connected env rq = filter c_available (route_pool env rq)"

definition breaker_map :: "breakers \<Rightarrow> candidate list \<Rightarrow> int \<Rightarrow> string \<Rightarrow> breaker_status option" where
  "breaker_map b candidates now m = (if m \<in> c_id ` set candidates then Some (breaker_status b m now) else None)"

definition route_scoring :: "router_env \<Rightarrow> route_request \<Rightarrow> router_state \<Rightarrow> (string \<times> rat) list option \<Rightarrow> score_input" where
  "route_scoring env rq st laya =
     \<lparr>si_candidates = route_connected env rq, si_complexity = tp_complexity (route_profile rq), si_usage = ro_usage env,
      si_breakers = breaker_map (rs_breakers st) (route_pool env rq) (ro_now env), si_laya = laya,
      si_weights = DEFAULT_WEIGHTS\<rparr>"

text \<open>What the decision model says: its result, when it was asked, and its probabilities, when it answered.\<close>

definition consult :: "router_env \<Rightarrow> route_request \<Rightarrow> router_state \<Rightarrow> laya_result option \<times> (string \<times> rat) list option" where
  "consult env rq st =
     (if \<not> rq_offline rq \<and> (ro_injected env \<or> \<not> ro_offline env)
      then (let preliminary = rank (ro_collate env) (score_candidates (route_scoring env rq st None));
                result = ro_ask env (build_state (rq_task rq) (route_profile rq), fst (laya_question (ro_collate env) preliminary))
            in (Some result, if lr_ok result then laya_probabilities (ro_collate env) result preliminary else None))
      else (None, None))"

definition laya_pick :: "(string \<times> rat) list option \<Rightarrow> string option" where
  "laya_pick ps =
     (case ps of
        None \<Rightarrow> None
      | Some es \<Rightarrow> (if 0 < laya_margin ps then Some (fst (hd (sort_stable (\<lambda>a b. snd b < snd a) es))) else None))"

definition answer_confidence :: "laya_answer \<Rightarrow> rat" where
  "answer_confidence a = (case a of ChoiceAnswer c ps k \<Rightarrow> k | NoulAnswer p k \<Rightarrow> k | ScoreAnswer s k \<Rightarrow> k)"

definition route_answer :: "laya_result option \<Rightarrow> laya_answer option" where
  "route_answer result = Option.bind result (\<lambda>r. map_of (lr_answers r) ''model_fit'')"

definition answer_choice :: "laya_answer option \<Rightarrow> string option" where
  "answer_choice a = (case a of Some (ChoiceAnswer c ps k) \<Rightarrow> Some c | _ \<Rightarrow> None)"

definition empty_decision :: "route_request \<Rightarrow> decision" where
  "empty_decision rq = \<lparr>rd_model = [], rd_level = rq_level rq, rd_source = ByPolicy, rd_reason = NoConnections,
     rd_layaProbability = None, rd_layaConfidence = None, rd_checkpoint = [], rd_layaReason = NoReason,
     rd_profile = route_profile rq, rd_candidates = [], rd_auditId = 0, rd_empty = True\<rparr>"

definition best_decision ::
    "route_request \<Rightarrow> laya_result option \<Rightarrow> (string \<times> rat) list option \<Rightarrow> scored list \<Rightarrow> scored \<Rightarrow> decision" where
  "best_decision rq result probs ranked best =
     (let model = c_id (sc_candidate best); pick = laya_pick probs;
          winnerLaya = Option.bind probs (\<lambda>ps. map_of ps model);
          src = (if pick = Some model then ByLaya else ByPolicy);
          answer = route_answer result; choice = answer_choice answer
      in (empty_decision rq)\<lparr>rd_model := model, rd_source := src,
           rd_reason := (if src = ByLaya then LayaDecided choice winnerLaya (sc_why best)
             else if probs \<noteq> None then (if laya_margin probs \<le> 0 then LayaUndecided choice (sc_why best)
               else LayaOverruled choice pick (sc_why best))
             else LayaUnavailable (case result of None \<Rightarrow> NotConsulted | Some r \<Rightarrow> lr_reason r) (sc_why best)),
           rd_layaProbability := winnerLaya, rd_layaConfidence := map_option answer_confidence answer,
           rd_checkpoint := (case result of None \<Rightarrow> [] | Some r \<Rightarrow> lr_checkpoint r),
           rd_layaReason := (if probs \<noteq> None then NoReason
             else case result of None \<Rightarrow> OfflineMode | Some r \<Rightarrow> lr_reason r),
           rd_candidates := ranked, rd_empty := False\<rparr>)"

definition route :: "router_env \<Rightarrow> route_request \<Rightarrow> router_state \<Rightarrow> router_state \<times> decision" where
  "route env rq st =
     (let pinned = js_trim (rq_pinned rq) in
      if pinned \<noteq> [] then
        finish env (rq_from rq) None st
          ((empty_decision rq)\<lparr>rd_model := pinned, rd_source := ByHand, rd_reason := ManualPin, rd_empty := False\<rparr>)
      else if route_connected env rq = [] then
        finish env (rq_from rq) None st
          ((empty_decision rq)\<lparr>rd_reason := (if route_pool env rq = [] then NoCatalog else NoConnections)\<rparr>)
      else
        (let (result, probs) = consult env rq st;
             ranked = (if probs \<noteq> None then rank else deterministic_order) (ro_collate env)
               (score_candidates (route_scoring env rq st probs))
         in case find (\<lambda>r. sc_excluded r = None) ranked of
              None \<Rightarrow>
                finish env (rq_from rq) None st
                  ((empty_decision rq)\<lparr>rd_reason := AllBlocked,
                    rd_checkpoint := (case result of None \<Rightarrow> [] | Some r \<Rightarrow> lr_checkpoint r),
                    rd_layaReason := (case result of None \<Rightarrow> NoReason | Some r \<Rightarrow> lr_reason r),
                    rd_candidates := ranked\<rparr>)
            | Some best \<Rightarrow> finish env (rq_from rq) None st (best_decision rq result probs ranked best)))"

definition fallback :: "router_env \<Rightarrow> route_request \<Rightarrow> string \<Rightarrow> failure \<Rightarrow> router_state \<Rightarrow> router_state \<times> decision" where
  "fallback env rq failedModel failure st =
     (let reason = classify_failure failure;
          (b, status) = trip (rs_breakers st) failedModel reason (case f_message failure of None \<Rightarrow> [] | Some m \<Rightarrow> m) (ro_now env);
          (st1, d) = route env (rq\<lparr>rq_from := failedModel\<rparr>) (st\<lparr>rs_breakers := b\<rparr>);
          d1 = d\<lparr>rd_source := (if rd_model d = [] then rd_source d else ByFallback),
             rd_reason := AfterFailure failedModel reason (rd_reason d)\<rparr>;
          (st2, d2) = finish env failedModel (Some reason) st1 (d1\<lparr>rd_source := ByFallback\<rparr>)
      in (st2, d1\<lparr>rd_auditId := rd_auditId d2\<rparr>))"

definition succeed :: "string \<Rightarrow> router_state \<Rightarrow> router_state" where
  "succeed m st = st\<lparr>rs_breakers := close_breaker (rs_breakers st) m\<rparr>"

record router_status =
  ro_enabled :: bool
  ro_pool :: nat
  ro_connected :: nat
  ro_catalogLoaded :: bool
  ro_catalogModels :: nat
  ro_unknownIndex :: nat
  ro_breakers :: "breaker_status list"
  ro_decisions24h :: nat
  ro_fallbacks24h :: nat

definition router_status_of :: "router_env \<Rightarrow> bool \<Rightarrow> model_catalog \<Rightarrow> router_state \<Rightarrow> router_status" where
  "router_status_of env enabled catalog st =
     (let counts = audit_counts (rs_audit st) (ro_now env - 86400000)
      in \<lparr>ro_enabled = enabled, ro_pool = length (ro_candidates env),
          ro_connected = length (filter c_available (ro_candidates env)), ro_catalogLoaded = mc_loaded catalog,
          ro_catalogModels = length (mc_models catalog),
          ro_unknownIndex = length (filter (\<lambda>m. cm_index m = None) (mc_models catalog)),
          ro_breakers = list_breakers (rs_breakers st) (ro_now env),
          ro_decisions24h = sum_list (map (\<lambda>(m, n, f). n + f) counts),
          ro_fallbacks24h = sum_list (map (\<lambda>(m, n, f). f) counts)\<rparr>)"

section \<open>Lemmas\<close>

lemma finish_simps [simp]:
  "rd_model (snd (finish env f r st d)) = rd_model d" "rd_source (snd (finish env f r st d)) = rd_source d"
  "rd_reason (snd (finish env f r st d)) = rd_reason d" "rd_empty (snd (finish env f r st d)) = rd_empty d"
  "rd_candidates (snd (finish env f r st d)) = rd_candidates d"
  "rd_layaProbability (snd (finish env f r st d)) = rd_layaProbability d"
  "rs_breakers (fst (finish env f r st d)) = rs_breakers st"
  by (simp_all add: finish_def audit_record_def Let_def)

lemma empty_decision_simps [simp]:
  "rd_model (empty_decision rq) = []" "rd_empty (empty_decision rq)" "rd_source (empty_decision rq) = ByPolicy"
  "rd_candidates (empty_decision rq) = []" "rd_layaProbability (empty_decision rq) = None"
  by (simp_all add: empty_decision_def)

lemma best_decision_simps [simp]:
  "rd_model (best_decision rq result probs ranked best) = c_id (sc_candidate best)"
  "\<not> rd_empty (best_decision rq result probs ranked best)"
  "rd_candidates (best_decision rq result probs ranked best) = ranked"
  "rd_layaProbability (best_decision rq result probs ranked best) = Option.bind probs (\<lambda>ps. map_of ps (c_id (sc_candidate best)))"
  "rd_source (best_decision rq result probs ranked best) = ByLaya \<longleftrightarrow> laya_pick probs = Some (c_id (sc_candidate best))"
  by (simp_all add: best_decision_def Let_def)

text \<open>A model the router may choose: in the pool, allowed, connected, and its circuit lets a call through.\<close>

definition runnable :: "router_env \<Rightarrow> route_request \<Rightarrow> breakers \<Rightarrow> candidate \<Rightarrow> bool" where
  "runnable env rq b c \<longleftrightarrow> c \<in> set (ro_candidates env) \<and> allowed rq c \<and> c_available c \<and>
     \<not> bs_blocked (breaker_status b (c_id c) (ro_now env))"

abbreviation route_scores :: "router_env \<Rightarrow> route_request \<Rightarrow> router_state \<Rightarrow> scored list" where
  "route_scores env rq st \<equiv> score_candidates (route_scoring env rq st (snd (consult env rq st)))"

text \<open>The three ways a request without a pin ends.\<close>

lemma route_cases:
  assumes "js_trim (rq_pinned rq) = []"
  obtains (unconnected) "route_connected env rq = []" "rd_empty (snd (route env rq st))" "rd_model (snd (route env rq st)) = []"
      "rd_candidates (snd (route env rq st)) = []" "rd_source (snd (route env rq st)) = ByPolicy"
    | (blocked) "route_connected env rq \<noteq> []" "rd_empty (snd (route env rq st))" "rd_model (snd (route env rq st)) = []"
      "rd_candidates (snd (route env rq st)) = rank (ro_collate env) (route_scores env rq st)"
      "\<forall>s \<in> set (route_scores env rq st). sc_excluded s \<noteq> None" "rd_source (snd (route env rq st)) = ByPolicy"
    | (best) w where "find (\<lambda>r. sc_excluded r = None) (rank (ro_collate env) (route_scores env rq st)) = Some w"
      "snd (route env rq st) = snd (finish env (rq_from rq) None st
         (best_decision rq (fst (consult env rq st)) (snd (consult env rq st)) (rank (ro_collate env) (route_scores env rq st)) w))"
      "rd_candidates (snd (route env rq st)) = rank (ro_collate env) (route_scores env rq st)"
proof (cases "route_connected env rq = []")
  case True
  with assms show ?thesis by (intro unconnected) (simp_all add: route_def)
next
  case False
  obtain result probs where c: "consult env rq st = (result, probs)" by (cases "consult env rq st")
  let ?ranked = "rank (ro_collate env) (score_candidates (route_scoring env rq st probs))"
  have det: "deterministic_order = rank" by (intro ext) (simp add: deterministic_order_def)
  have r: "route env rq st = (case find (\<lambda>r. sc_excluded r = None) ?ranked of
      None \<Rightarrow> finish env (rq_from rq) None st
        ((empty_decision rq)\<lparr>rd_reason := AllBlocked, rd_checkpoint := (case result of None \<Rightarrow> [] | Some r \<Rightarrow> lr_checkpoint r),
          rd_layaReason := (case result of None \<Rightarrow> NoReason | Some r \<Rightarrow> lr_reason r), rd_candidates := ?ranked\<rparr>)
    | Some best \<Rightarrow> finish env (rq_from rq) None st (best_decision rq result probs ?ranked best))"
    using assms False unfolding route_def det if_cancel c by (simp add: Let_def)
  show ?thesis
  proof (cases "find (\<lambda>r. sc_excluded r = None) ?ranked")
    case None
    moreover from None have "\<forall>s \<in> set (route_scores env rq st). sc_excluded s \<noteq> None" by (simp add: winner_None_iff c)
    ultimately show ?thesis using False by (intro blocked) (simp_all add: r c)
  next
    case (Some w)
    then show ?thesis by (intro best [of w]) (simp_all add: r c)
  qed
qed

lemma route_finish: "\<exists>d. route env rq st = finish env (rq_from rq) None st d"
  unfolding route_def Let_def by (auto split: prod.split option.split)

lemma route_survivor:
  assumes "s \<in> set (score_candidates (route_scoring env rq st probs))"
  shows "sc_candidate s \<in> set (route_connected env rq) \<and>
    (sc_excluded s = None \<longleftrightarrow> runnable env rq (rs_breakers st) (sc_candidate s))"
proof -
  obtain c where c: "c \<in> set (route_connected env rq)" "s = score_one (route_scoring env rq st probs) c"
    using assms by (auto simp: score_candidates_def route_scoring_def)
  then have "c_id c \<in> c_id ` set (route_pool env rq)" by (auto simp: route_connected_def)
  with c show ?thesis
    by (auto simp: score_one_survivor route_scoring_def breaker_map_def runnable_def route_connected_def route_pool_def)
qed

lemma route_survivors_all:
  assumes "runnable env rq (rs_breakers st) c"
  shows "\<exists>s \<in> set (score_candidates (route_scoring env rq st probs)). sc_candidate s = c \<and> sc_excluded s = None"
proof -
  have "c \<in> set (route_connected env rq)" using assms by (auto simp: runnable_def route_connected_def route_pool_def)
  then have m: "score_one (route_scoring env rq st probs) c \<in> set (score_candidates (route_scoring env rq st probs))"
    by (simp add: score_candidates_def route_scoring_def)
  from route_survivor [OF m] assms show ?thesis by (intro bexI [OF _ m]) simp
qed

text \<open>When a pick exists, it is the single most probable option.\<close>

lemma map_sort_stable: "map f (sort_stable (\<lambda>a b. lt (f a) (f b)) xs) = sort_stable lt (map f xs)"
proof -
  have "map f (insert_stable (\<lambda>a b. lt (f a) (f b)) x ys) = insert_stable lt (f x) (map f ys)" for x ys
    by (induction ys) auto
  then show ?thesis by (induction xs) auto
qed

lemma laya_pick_top:
  assumes "laya_pick (Some es) = Some m" "unique_keys fst es"
  shows "\<exists>p. map_of es m = Some p \<and> 2 \<le> length es \<and> (\<forall>(k, q) \<in> set es. k \<noteq> m \<longrightarrow> q < p)"
proof -
  let ?srt = "sort_stable (\<lambda>a b. snd b < snd a) es"
  have margin: "0 < laya_margin (Some es)" and m: "m = fst (hd ?srt)"
    using assms(1) by (auto simp: laya_pick_def split: if_splits)
  have len: "2 \<le> length es" using margin by (auto simp: laya_margin_def split: if_splits)
  then have "2 \<le> length ?srt" by simp
  then obtain e0 e1 rest where srt: "?srt = e0 # e1 # rest"
    by (cases ?srt; cases "tl ?srt") auto
  have vals: "sort_stable (\<lambda>a b. b < a) (map snd es) = snd e0 # snd e1 # map snd rest"
    using map_sort_stable [of snd "\<lambda>a b. b < a" es] by (simp add: srt)
  have gap: "snd e1 < snd e0"
  proof (rule ccontr)
    assume "\<not> snd e1 < snd e0"
    then have "max 0 (min 1 (snd e0 - snd e1)) = 0" by auto
    with margin len show False by (simp add: laya_margin_def vals)
  qed
  have "sorted_wrt (\<lambda>a b. \<not> snd a < snd b) ?srt" by (rule sorted_sort_stable) auto
  then have below: "\<forall>e \<in> set rest. snd e \<le> snd e1" by (auto simp: srt)
  have set: "set es = {e0, e1} \<union> set rest" using set_sort_stable [of "\<lambda>a b. snd b < snd a" es] by (simp only: srt) auto
  have "map_of es (fst e0) = Some (snd e0)"
    using assms(2) set by (intro map_of_is_SomeI) (auto simp: unique_keys_def)
  moreover have "m = fst e0" using m by (simp add: srt)
  moreover have "q < snd e0" if "(k, q) \<in> set es" "k \<noteq> fst e0" for k q
  proof -
    have "(k, q) = e1 \<or> (k, q) \<in> set rest" using that set by auto
    with gap below show ?thesis by force
  qed
  ultimately show ?thesis using len by auto
qed

lemma laya_probabilities_unique: "laya_probabilities collate result cs = Some es \<Longrightarrow> unique_keys fst es"
proof -
  have "unique_keys fst out \<Longrightarrow> unique_keys fst (fold (\<lambda>(i, model) out.
      if map_of criteria (option_key i) = None then out
      else (case map_of ps (option_key i) of None \<Rightarrow> out | Some p \<Rightarrow> upsert fst (model, p) out)) ks out)"
    for criteria :: "(string \<times> option_text) list" and ps :: "(string \<times> rat) list" and ks :: "(nat \<times> string) list"
      and out :: "(string \<times> rat) list"
    by (induction ks arbitrary: out) (auto split: option.split)
  then show "laya_probabilities collate result cs = Some es \<Longrightarrow> unique_keys fst es"
    by (auto simp: laya_probabilities_def Let_def split: option.splits laya_answer.splits prod.splits if_splits)
qed

lemma consult_unique: "snd (consult env rq st) = Some es \<Longrightarrow> unique_keys fst es"
  by (auto simp: consult_def Let_def dest: laya_probabilities_unique split: if_splits)

lemma route_runnable:
  assumes "orders (ro_collate env)" "js_trim (rq_pinned rq) = []"
  shows "rd_empty (snd (route env rq st)) \<and> rd_model (snd (route env rq st)) = [] \<or>
    (\<exists>c. runnable env rq (rs_breakers st) c \<and> c_id c = rd_model (snd (route env rq st)))"
  using assms(2)
proof (cases rule: route_cases [where env = env and st = st, case_names unconnected blocked best])
  case (best w)
  note win = winner_Some [OF assms(1) best(1)]
  from route_survivor [OF win(1)] win(2) best(2) show ?thesis by (intro disjI2 exI [of _ "sc_candidate w"]) simp
qed simp_all

section \<open>Properties\<close>

text \<open>
  C9: a request without a pin gets a model exactly when some allowed, connected model has a circuit that lets it
  through; the model is such a one, and no other such model scores higher.  Otherwise the decision is empty.
\<close>

theorem route_picks_best:
  assumes "orders (ro_collate env)" "js_trim (rq_pinned rq) = []"
  shows "(rd_empty (snd (route env rq st)) \<longleftrightarrow> (\<forall>c. \<not> runnable env rq (rs_breakers st) c)) \<and>
    (if rd_empty (snd (route env rq st)) then rd_model (snd (route env rq st)) = []
     else \<exists>w \<in> set (rd_candidates (snd (route env rq st))).
       runnable env rq (rs_breakers st) (sc_candidate w) \<and> rd_model (snd (route env rq st)) = c_id (sc_candidate w) \<and>
       (\<forall>c. runnable env rq (rs_breakers st) c \<longrightarrow>
          (\<exists>s \<in> set (rd_candidates (snd (route env rq st))). sc_candidate s = c \<and> sc_score s \<le> sc_score w)))"
  using assms(2)
proof (cases rule: route_cases [where env = env and st = st, case_names unconnected blocked best])
  case unconnected
  then have "\<not> runnable env rq (rs_breakers st) c" for c
    by (auto simp: runnable_def route_connected_def route_pool_def filter_empty_conv)
  with unconnected show ?thesis by simp
next
  case blocked
  have "\<not> runnable env rq (rs_breakers st) c" for c
    using route_survivors_all [of env rq st c "snd (consult env rq st)"] blocked(5) by auto
  with blocked show ?thesis by simp
next
  case (best w)
  note win = winner_Some [OF assms(1) best(1)]
  have run: "runnable env rq (rs_breakers st) (sc_candidate w)"
    using route_survivor [OF win(1)] win(2) by simp
  have "\<exists>s \<in> set (route_scores env rq st). sc_candidate s = c \<and> sc_score s \<le> sc_score w"
    if r: "runnable env rq (rs_breakers st) c" for c
  proof -
    obtain s where s: "s \<in> set (route_scores env rq st)" "sc_candidate s = c" "sc_excluded s = None"
      using route_survivors_all [OF r] by blast
    then have "\<not> sc_score w < sc_score s" using win(3) better_score by blast
    with s show ?thesis by (intro bexI [OF _ s(1)]) simp
  qed
  with run win(1) best show ?thesis by auto
qed

definition ex_env :: "bool \<Rightarrow> router_env" where
  "ex_env offline = \<lparr>ro_now = 1000, ro_clock = 1000,
     ro_candidates = [ex_candidate ''top'' None (Some (3, 15)), ex_candidate ''low'' None (Some (1, 2))],
     ro_usage = [], ro_ask = (\<lambda>x. ask_laya ''http://l'' ''c'' (Reply 200 100 (Some ex_reply))),
     ro_injected = False, ro_offline = offline, ro_collate = (\<lambda>a b. if length a < length b then -1 else 1)\<rparr>"

definition ex_request :: "string \<Rightarrow> route_request" where
  "ex_request pin = \<lparr>rq_level = TaskLevel, rq_task = ''hello'', rq_pinned = pin, rq_allow = [], rq_offline = False, rq_from = []\<rparr>"

definition ex_router :: router_state where
  "ex_router = \<lparr>rs_breakers = [], rs_audit = \<lparr>al_rows = [], al_next = 1\<rparr>\<rparr>"

lemma ex_env_orders: "orders (ro_collate (ex_env off))"
  by (simp add: ex_env_def orders_not_less)

lemma ex_unpinned [simp]: "js_trim (rq_pinned (ex_request [])) = []"
  by (simp add: ex_request_def js_trim_def trim_end_def trim_start_def)

lemma ex_runnable: "runnable (ex_env off) (ex_request pin) [] (ex_candidate ''top'' None (Some (3, 15)))"
  by (simp add: runnable_def ex_env_def allowed_def ex_request_def ex_candidate_def breaker_status_def breaker_row_of_def)

theorem route_picks_best_witness:
  "\<not> rd_empty (snd (route (ex_env True) (ex_request []) ex_router))"
  using route_picks_best [OF ex_env_orders ex_unpinned, of True ex_router] ex_runnable [of True "[]"]
  by (auto simp: ex_router_def)

text \<open>
  a decision is put down to the decision model only when it named the model the single most probable of at least
  two options; the recorded probability is the one it gave.
\<close>

theorem laya_decides_only_its_pick:
  assumes "js_trim (rq_pinned rq) = []" "rd_source (snd (route env rq st)) = ByLaya"
  shows "\<exists>ps p. snd (consult env rq st) = Some ps \<and> 2 \<le> length ps \<and>
    map_of ps (rd_model (snd (route env rq st))) = Some p \<and> rd_layaProbability (snd (route env rq st)) = Some p \<and>
    (\<forall>(k, q) \<in> set ps. k \<noteq> rd_model (snd (route env rq st)) \<longrightarrow> q < p)"
  using assms(1)
proof (cases rule: route_cases [where env = env and st = st, case_names unconnected blocked best])
  case (best w)
  with assms(2) have pick: "laya_pick (snd (consult env rq st)) = Some (c_id (sc_candidate w))" by simp
  then obtain ps where ps: "snd (consult env rq st) = Some ps" by (cases "snd (consult env rq st)") (auto simp: laya_pick_def)
  from laya_pick_top [of ps "c_id (sc_candidate w)"] pick ps consult_unique [OF ps] best(2) show ?thesis by auto
qed (use assms(2) in auto)

lemma ex_consult_parts:
  "c_id (ex_candidate i x pr) = i" "c_index (ex_candidate i x pr) = x" "c_price (ex_candidate i x pr) = pr"
  "c_available (ex_candidate i x pr)"
  by (simp_all add: ex_candidate_def)

lemma ex_route_scores:
  "total_score (route_scoring (ex_env False) (ex_request []) ex_router None) (ex_candidate ''top'' None (Some (3, 15))) = 0"
  "total_score (route_scoring (ex_env False) (ex_request []) ex_router None) (ex_candidate ''low'' None (Some (1, 2))) = 1"
  "total_score (route_scoring (ex_env False) (ex_request []) ex_router (Some [(''low'', 4 / 5), (''top'', 1 / 5)]))
     (ex_candidate ''top'' None (Some (3, 15))) = 12 / 100"
  "total_score (route_scoring (ex_env False) (ex_request []) ex_router (Some [(''low'', 4 / 5), (''top'', 1 / 5)]))
     (ex_candidate ''low'' None (Some (1, 2))) = 88 / 100"
  by (simp_all add: total_score_def average_def weigh_def weighted_terms_def score_terms_def Let_def route_scoring_def
      route_connected_def route_pool_def ex_env_def ex_request_def allowed_def ex_consult_parts
      DEFAULT_WEIGHTS_def signal_of_def indexes_of_def prices_of_def latencies_of_def latency_of_def
      blended_price_def normalise_def complexity_fit_def reliability_def laya_margin_def to_fixed_def
      List.map_filter_simps)

lemma ex_score_one:
  "i \<in> {''top'', ''low''} \<Longrightarrow> sc_excluded (score_one (route_scoring (ex_env off) (ex_request []) ex_router laya) (ex_candidate i x pr)) = None"
  "i \<in> {''top'', ''low''} \<Longrightarrow> sc_score (score_one (route_scoring (ex_env off) (ex_request []) ex_router laya) (ex_candidate i x pr)) =
     total_score (route_scoring (ex_env off) (ex_request []) ex_router laya) (ex_candidate i x pr)"
  by (auto simp: score_one_def ex_consult_parts route_scoring_def breaker_map_def ex_router_def breaker_status_def
      breaker_row_of_def split: option.split)

lemma ex_si_candidates:
  "si_candidates (route_scoring (ex_env off) (ex_request []) ex_router laya) =
     [ex_candidate ''top'' None (Some (3, 15)), ex_candidate ''low'' None (Some (1, 2))]"
  by (simp add: route_scoring_def route_connected_def route_pool_def ex_env_def allowed_def ex_request_def ex_consult_parts)

lemma ex_ranking:
  "rank collate (score_candidates (route_scoring (ex_env False) (ex_request []) ex_router None)) =
     map (score_one (route_scoring (ex_env False) (ex_request []) ex_router None))
       [ex_candidate ''low'' None (Some (1, 2)), ex_candidate ''top'' None (Some (3, 15))]"
  "rank collate (score_candidates (route_scoring (ex_env False) (ex_request []) ex_router (Some [(''low'', 4 / 5), (''top'', 1 / 5)]))) =
     map (score_one (route_scoring (ex_env False) (ex_request []) ex_router (Some [(''low'', 4 / 5), (''top'', 1 / 5)])))
       [ex_candidate ''low'' None (Some (1, 2)), ex_candidate ''top'' None (Some (3, 15))]"
  by (simp_all add: rank_def rank_before_score score_candidates_def ex_si_candidates ex_score_one ex_route_scores)

lemma ex_consult: "snd (consult (ex_env False) (ex_request []) ex_router) = Some [(''low'', 4 / 5), (''top'', 1 / 5)]"
proof -
  let ?pre = "rank (ro_collate (ex_env False)) (score_candidates (route_scoring (ex_env False) (ex_request []) ex_router None))"
  have cheap: "\<not> cheaper (score_one inp (ex_candidate ''top'' None (Some (3, 15)))) (score_one inp (ex_candidate ''low'' None (Some (1, 2))))"
    for inp by (simp add: cheaper_def ex_consult_parts)
  have opts: "laya_options (ro_collate (ex_env False)) ?pre =
      map (score_one (route_scoring (ex_env False) (ex_request []) ex_router None))
        [ex_candidate ''low'' None (Some (1, 2)), ex_candidate ''top'' None (Some (3, 15))]"
    unfolding laya_options_def Let_def ex_ranking
    by (simp add: rank_def rank_before_score ex_score_one ex_route_scores cheap ex_consult_parts)
  have zero: "show_nat 0 = ''0''" "show_nat (Suc 0) = ''1''" by code_simp+
  have "laya_probabilities (ro_collate (ex_env False)) (ask_laya ''http://l'' ''c'' (Reply 200 100 (Some ex_reply))) ?pre =
      Some [(''low'', 4 / 5), (''top'', 1 / 5)]"
    by (simp add: laya_probabilities_def laya_question_def opts ask_laya_def ex_reply_parsed ex_consult_parts option_key_def
        zero)
  then show ?thesis
    by (simp add: consult_def ex_request_def ex_env_def Let_def ask_laya_def ex_reply_parsed)
qed

theorem laya_decides_only_its_pick_witness:
  "rd_source (snd (route (ex_env False) (ex_request []) ex_router)) = ByLaya \<and>
   rd_layaProbability (snd (route (ex_env False) (ex_request []) ex_router)) = Some (4 / 5)"
proof -
  let ?inp = "route_scoring (ex_env False) (ex_request []) ex_router (Some [(''low'', 4 / 5), (''top'', 1 / 5)])"
  have conn: "route_connected (ex_env False) (ex_request []) \<noteq> []"
    using ex_si_candidates [of False None] by (simp add: route_scoring_def)
  have pick: "laya_pick (Some [(''low'', 4 / 5), (''top'', 1 / 5)]) = Some ''low''"
    by (simp add: laya_pick_def laya_margin_def to_fixed_def)
  have src: "rd_source (snd (route (ex_env False) (ex_request []) ex_router)) = ByLaya \<and>
      rd_model (snd (route (ex_env False) (ex_request []) ex_router)) = ''low''"
    using ex_unpinned
  proof (cases rule: route_cases [where env = "ex_env False" and st = ex_router, case_names unconnected blocked best])
    case unconnected
    with conn show ?thesis by simp
  next
    case blocked
    then show ?thesis
      using ex_ranking(2) set_rank [of "ro_collate (ex_env False)" "score_candidates ?inp"] ex_score_one
      by (simp add: ex_consult score_candidates_def ex_si_candidates)
  next
    case (best w)
    then have "w = score_one ?inp (ex_candidate ''low'' None (Some (1, 2)))"
      by (simp add: ex_consult ex_ranking ex_score_one)
    with best pick show ?thesis by (simp add: ex_consult ex_consult_parts)
  qed
  with laya_decides_only_its_pick [OF ex_unpinned, of "ex_env False" ex_router] ex_consult show ?thesis by auto
qed

lemma fallback_decision:
  "rd_model (snd (fallback env rq m f st)) =
     rd_model (snd (route env (rq\<lparr>rq_from := m\<rparr>)
       (st\<lparr>rs_breakers := fst (trip (rs_breakers st) m (classify_failure f) (case f_message f of None \<Rightarrow> [] | Some d \<Rightarrow> d) (ro_now env))\<rparr>)))"
  "rd_empty (snd (fallback env rq m f st)) =
     rd_empty (snd (route env (rq\<lparr>rq_from := m\<rparr>)
       (st\<lparr>rs_breakers := fst (trip (rs_breakers st) m (classify_failure f) (case f_message f of None \<Rightarrow> [] | Some d \<Rightarrow> d) (ro_now env))\<rparr>)))"
  by (simp_all add: fallback_def Let_def split: prod.split)

text \<open>
  after a failure, a request without a pin is never answered with the model that failed, and a model it is
  answered with could have been chosen before the failure too.
\<close>

theorem fallback_avoids_the_failed_model:
  assumes "orders (ro_collate env)" "js_trim (rq_pinned rq) = []" "m \<noteq> []"
  shows "rd_model (snd (fallback env rq m f st)) \<noteq> m \<and>
    (rd_empty (snd (fallback env rq m f st)) \<or>
     (\<exists>c. runnable env rq (rs_breakers st) c \<and> c_id c = rd_model (snd (fallback env rq m f st))))"
proof -
  let ?b = "fst (trip (rs_breakers st) m (classify_failure f) (case f_message f of None \<Rightarrow> [] | Some d \<Rightarrow> d) (ro_now env))"
  let ?rq = "rq\<lparr>rq_from := m\<rparr>" and ?st = "st\<lparr>rs_breakers := ?b\<rparr>"
  have other: "runnable env ?rq ?b c \<Longrightarrow> c_id c \<noteq> m \<and> runnable env rq (rs_breakers st) c" for c
    using trip_blocks breaker_status_other(1) [of "c_id c" m]
    by (cases "c_id c = m") (auto simp: runnable_def allowed_def)
  have "rd_empty (snd (route env ?rq ?st)) \<and> rd_model (snd (route env ?rq ?st)) = [] \<or>
      (\<exists>c. runnable env ?rq ?b c \<and> c_id c = rd_model (snd (route env ?rq ?st)))"
    using route_runnable [OF assms(1), of ?rq ?st] assms(2) by simp
  with other assms(3) show ?thesis unfolding fallback_decision by auto
qed

definition ex_failure :: failure where
  "ex_failure = \<lparr>f_status = Some 500, f_message = None, f_empty = False\<rparr>"

theorem fallback_avoids_the_failed_model_witness:
  "rd_model (snd (fallback (ex_env True) (ex_request []) ''low'' ex_failure ex_router)) \<noteq> ''low''"
  using fallback_avoids_the_failed_model [OF ex_env_orders ex_unpinned, of "''low''" True ex_failure ex_router] by simp

text \<open>
  a pinned request is answered with the pin after a failure too, whichever model failed: the pin comes before
  the circuit that the failure has just opened, so a pinned model that failed is handed back.
\<close>

theorem fallback_returns_the_pin:
  assumes "js_trim (rq_pinned rq) \<noteq> []"
  shows "rd_model (snd (fallback env rq m f st)) = js_trim (rq_pinned rq) \<and>
    rd_source (snd (fallback env rq m f st)) = ByFallback \<and>
    bs_blocked (breaker_status (rs_breakers (fst (fallback env rq m f st))) m (ro_now env))"
proof -
  obtain b s where b: "trip (rs_breakers st) m (classify_failure f) (case f_message f of None \<Rightarrow> [] | Some d \<Rightarrow> d) (ro_now env) = (b, s)"
    by fastforce
  then have "bs_blocked (breaker_status b m (ro_now env))" using trip_blocks by (metis fst_conv)
  with assms show ?thesis by (simp add: fallback_def b route_def finish_def audit_record_def Let_def)
qed

theorem fallback_returns_the_pin_witness:
  "rd_model (snd (fallback (ex_env True) (ex_request ''low'') ''low'' ex_failure ex_router)) = ''low'' \<and>
   bs_blocked (breaker_status (rs_breakers (fst (fallback (ex_env True) (ex_request ''low'') ''low'' ex_failure ex_router))) ''low'' 1000)"
proof -
  have "js_trim (rq_pinned (ex_request ''low'')) = ''low''"
    by (simp add: ex_request_def js_trim_def trim_end_def trim_start_def js_ws_def)
  with fallback_returns_the_pin [of "ex_request ''low''" "ex_env True" "''low''" ex_failure ex_router] show ?thesis
    by (simp add: ex_env_def)
qed

text \<open>
  every decision is on the trail.  Routing leaves the circuits and the earlier rows alone and adds one row, with
  the decision's id, its model (or \<open>(none)\<close>), its source and reason and the first twelve of its candidates; a fallback adds
  a second row that names the failed model and the classified failure.
\<close>

theorem decisions_are_audited:
  "rs_breakers (fst (route env rq st)) = rs_breakers st \<and>
   (\<exists>row. al_rows (rs_audit (fst (route env rq st))) = al_rows (rs_audit st) @ [row] \<and>
      au_id row = al_next (rs_audit st) \<and> rd_auditId (snd (route env rq st)) = au_id row \<and>
      au_chosen row = audit_clean 200 (if rd_model (snd (route env rq st)) = [] then ''(none)'' else rd_model (snd (route env rq st))) \<and>
      au_source row = rd_source (snd (route env rq st)) \<and> au_reason row = rd_reason (snd (route env rq st)) \<and>
      map rr_model (au_ranking row) = map (\<lambda>s. c_id (sc_candidate s)) (take 12 (rd_candidates (snd (route env rq st))))) \<and>
   (\<exists>row1 row2. al_rows (rs_audit (fst (fallback env rq m f st))) = al_rows (rs_audit st) @ [row1, row2] \<and>
      au_source row2 = ByFallback \<and> au_from row2 = audit_clean 200 m \<and>
      au_fallbackReason row2 = Some (classify_failure f) \<and> rd_auditId (snd (fallback env rq m f st)) = au_id row2 \<and>
      au_id row2 = Suc (au_id row1))"
proof -
  obtain d where d: "route env rq st = finish env (rq_from rq) None st d" using route_finish by blast
  obtain b s where b: "trip (rs_breakers st) m (classify_failure f) (case f_message f of None \<Rightarrow> [] | Some d \<Rightarrow> d) (ro_now env) = (b, s)"
    by fastforce
  obtain d' where d': "route env (rq\<lparr>rq_from := m\<rparr>) (st\<lparr>rs_breakers := b\<rparr>) =
      finish env m None (st\<lparr>rs_breakers := b\<rparr>) d'"
    using route_finish [of env "rq\<lparr>rq_from := m\<rparr>"] by auto
  show ?thesis
    unfolding fallback_def b d Let_def split_conv d' by (simp add: finish_def audit_record_def Let_def)
qed

end
