(* ===== verification/Panes.thy ===== *)
theory Panes
  imports Table Regex
begin

text \<open>
  The pane layout of the web client (web/src/lib/panes.ts): a binary tree of panes, splitting and closing a pane,
  dragging a divider, the room a split needs, and reading a stored layout back.  Numbers are rational.  Where the code
  compares by reference to tell whether a subtree changed, the operation returns \<^const>\<open>None\<close> for the same object.
\<close>

section \<open>Trees\<close>

datatype dir = Row | Col

datatype node =
    Pane string
  | Split string dir rat node node

definition MAX_PANES :: nat where
  "MAX_PANES = 12"

definition MIN_RATIO :: rat where
  "MIN_RATIO = 15 / 100"

text \<open>\<^const>\<open>None\<close> stands for a number that is not finite.\<close>

definition clamp_ratio :: "rat option \<Rightarrow> rat" where
  "clamp_ratio r = (case r of None \<Rightarrow> 1 / 2 | Some x \<Rightarrow> min (1 - MIN_RATIO) (max MIN_RATIO x))"

fun leaves :: "node \<Rightarrow> string list" where
  "leaves (Pane i) = [i]"
| "leaves (Split i d r a b) = leaves a @ leaves b"

definition count_panes :: "node \<Rightarrow> nat" where
  "count_panes t = length (leaves t)"

text \<open>\<open>{ ...node, a, b }\<close> when one of the parts is a new object.\<close>

definition rebuilt :: "(node \<Rightarrow> node \<Rightarrow> node) \<Rightarrow> node \<Rightarrow> node \<Rightarrow> node option \<Rightarrow> node option \<Rightarrow> node option" where
  "rebuilt mk a b a' b' =
     (case (a', b') of
        (None, None) \<Rightarrow> None
      | (Some x, _) \<Rightarrow> Some (mk x b)
      | (None, Some y) \<Rightarrow> Some (mk a y))"

fun split_new :: "node \<Rightarrow> string \<Rightarrow> dir \<Rightarrow> string \<Rightarrow> string \<Rightarrow> node option" where
  "split_new (Pane i) target d fresh sid =
     (if i = target then Some (Split sid d (1 / 2) (Pane i) (Pane fresh)) else None)"
| "split_new (Split i e r a b) target d fresh sid =
     (let a' = split_new a target d fresh sid
      in rebuilt (Split i e r) a b a' (if a' = None then split_new b target d fresh sid else None))"

definition split_pane :: "node \<Rightarrow> string \<Rightarrow> dir \<Rightarrow> string \<Rightarrow> string \<Rightarrow> node" where
  "split_pane t target d fresh sid = (case split_new t target d fresh sid of None \<Rightarrow> t | Some u \<Rightarrow> u)"

fun remove_new :: "node \<Rightarrow> string \<Rightarrow> node option" where
  "remove_new (Pane i) target = None"
| "remove_new (Split i d r a b) target =
     (if a = Pane target then Some b
      else if b = Pane target then Some a
      else (let a' = remove_new a target
            in rebuilt (Split i d r) a b a' (if a' = None then remove_new b target else None)))"

definition remove_pane :: "node \<Rightarrow> string \<Rightarrow> node" where
  "remove_pane t target = (case remove_new t target of None \<Rightarrow> t | Some u \<Rightarrow> u)"

fun set_ratio_new :: "node \<Rightarrow> string \<Rightarrow> rat option \<Rightarrow> node option" where
  "set_ratio_new (Pane i) sid x = None"
| "set_ratio_new (Split i d r a b) sid x =
     (if i = sid then Some (Split i d (clamp_ratio x) a b)
      else (let a' = set_ratio_new a sid x
            in rebuilt (Split i d r) a b a' (if a' = None then set_ratio_new b sid x else None)))"

definition set_ratio :: "node \<Rightarrow> string \<Rightarrow> rat option \<Rightarrow> node" where
  "set_ratio t sid x = (case set_ratio_new t sid x of None \<Rightarrow> t | Some u \<Rightarrow> u)"

definition neighbour :: "node \<Rightarrow> string \<Rightarrow> string option" where
  "neighbour t closing =
     (let ids = leaves t in
      case index_of closing ids of
        None \<Rightarrow> None
      | Some i \<Rightarrow>
          (if length ids < 2 then None
           else if 0 < i then Some (ids ! (i - 1))
           else if i + 1 < length ids then Some (ids ! (i + 1)) else None))"

section \<open>Sizes\<close>

fun size_of :: "node \<Rightarrow> string \<Rightarrow> rat \<Rightarrow> rat \<Rightarrow> (rat \<times> rat) option" where
  "size_of (Pane i) target w h = (if i = target then Some (w, h) else None)"
| "size_of (Split i d r a b) target w h =
     (let aw = (if d = Row then w * r else w); ah = (if d = Col then h * r else h) in
      case size_of a target aw ah of
        Some s \<Rightarrow> Some s
      | None \<Rightarrow> size_of b target (if d = Row then w - aw else w) (if d = Col then h - ah else h))"

definition room_to_split :: "node \<Rightarrow> string \<Rightarrow> dir \<Rightarrow> rat \<Rightarrow> rat \<Rightarrow> rat \<times> rat \<Rightarrow> bool" where
  "room_to_split t target d w h minimum =
     (case size_of t target w h of
        None \<Rightarrow> False
      | Some (sw, sh) \<Rightarrow> (if d = Row then fst minimum \<le> sw / 2 else snd minimum \<le> sh / 2))"

section \<open>Stored layouts\<close>

definition id_char :: "char \<Rightarrow> bool" where
  "id_char c = (word_char c \<or> c = CHR ''-'')"

definition id_ok :: "string \<Rightarrow> bool" where
  "id_ok s = (1 \<le> length s \<and> length s \<le> 64 \<and> list_all id_char s)"

definition node_id :: "js \<Rightarrow> string option" where
  "node_id v = (case v of JStr s \<Rightarrow> (if id_ok s then Some s else None) | _ \<Rightarrow> None)"

definition dir_of :: "js \<Rightarrow> dir option" where
  "dir_of v = (if v = JStr ''row'' then Some Row else if v = JStr ''col'' then Some Col else None)"

fun ratio_of :: "js \<Rightarrow> rat option option" where
  "ratio_of (JNum r) = Some (Some r)"
| "ratio_of JNonFinite = Some None"
| "ratio_of _ = None"

text \<open>\<open>walk\<close>: the ids seen so far go in and come out.\<close>

function walk :: "js \<Rightarrow> nat \<Rightarrow> string list \<Rightarrow> string list \<times> node option" where
  "walk n depth seen =
     (if \<not> is_object_or_array n \<or> MAX_PANES + 4 < depth then (seen, None)
      else (case node_id (js_field ''id'' n) of
          None \<Rightarrow> (seen, None)
        | Some i \<Rightarrow>
            (if i \<in> set seen then (seen, None)
             else if js_field ''kind'' n = JStr ''pane'' then (i # seen, Some (Pane i))
             else if js_field ''kind'' n \<noteq> JStr ''split'' then (i # seen, None)
             else (case (dir_of (js_field ''dir'' n), ratio_of (js_field ''ratio'' n)) of
                 (Some d, Some r) \<Rightarrow>
                   (case walk (js_field ''a'' n) (depth + 1) (i # seen) of
                      (seen1, None) \<Rightarrow> (seen1, None)
                    | (seen1, Some a) \<Rightarrow>
                        (case walk (js_field ''b'' n) (depth + 1) seen1 of
                           (seen2, None) \<Rightarrow> (seen2, None)
                         | (seen2, Some b) \<Rightarrow> (seen2, Some (Split i d (clamp_ratio r) a b))))
               | _ \<Rightarrow> (i # seen, None)))))"
  by pat_completeness auto

termination by (relation "measure (\<lambda>(n, depth, seen). MAX_PANES + 5 - depth)") auto

declare walk.simps [simp del]

definition restore :: "js \<Rightarrow> node option" where
  "restore raw =
     (case snd (walk raw 0 []) of
        None \<Rightarrow> None
      | Some t \<Rightarrow> (if count_panes t \<le> MAX_PANES then Some t else None))"

text \<open>What \<open>JSON.stringify\<close> keeps of a tree.\<close>

fun to_js :: "node \<Rightarrow> js" where
  "to_js (Pane i) = JObj [(''kind'', JStr ''pane''), (''id'', JStr i)]"
| "to_js (Split i d r a b) =
     JObj [(''kind'', JStr ''split''), (''id'', JStr i), (''dir'', JStr (if d = Row then ''row'' else ''col'')),
       (''ratio'', JNum r), (''a'', to_js a), (''b'', to_js b)]"

section \<open>Well-formed trees\<close>

fun ids :: "node \<Rightarrow> string list" where
  "ids (Pane i) = [i]"
| "ids (Split i d r a b) = i # ids a @ ids b"

fun ratios_ok :: "node \<Rightarrow> bool" where
  "ratios_ok (Pane i) \<longleftrightarrow> True"
| "ratios_ok (Split i d r a b) \<longleftrightarrow> MIN_RATIO \<le> r \<and> r \<le> 1 - MIN_RATIO \<and> ratios_ok a \<and> ratios_ok b"

definition tree_ok :: "node \<Rightarrow> bool" where
  "tree_ok t \<longleftrightarrow> distinct (ids t) \<and> list_all id_ok (ids t) \<and> ratios_ok t"

fun tree_depth :: "node \<Rightarrow> nat" where
  "tree_depth (Pane i) = 0"
| "tree_depth (Split i d r a b) = Suc (max (tree_depth a) (tree_depth b))"

lemma clamp_ratio_bounds [simp]: "MIN_RATIO \<le> clamp_ratio x \<and> clamp_ratio x \<le> 1 - MIN_RATIO"
  by (auto simp: clamp_ratio_def MIN_RATIO_def split: option.split)

lemma clamp_ratio_id: "MIN_RATIO \<le> r \<Longrightarrow> r \<le> 1 - MIN_RATIO \<Longrightarrow> clamp_ratio (Some r) = r"
  by (simp add: clamp_ratio_def)

lemma leaves_ids: "set (leaves t) \<subseteq> set (ids t)"
  by (induction t) auto

lemma leaves_nonempty [simp]: "leaves t \<noteq> []"
  by (induction t) auto

lemma distinct_leaves: "distinct (ids t) \<Longrightarrow> distinct (leaves t)"
proof (induction t)
  case (Split i d r a b)
  then show ?case using leaves_ids [of a] leaves_ids [of b] by auto
qed simp

lemma depth_lt_count: "tree_depth t < count_panes t"
  by (induction t) (auto simp: count_panes_def)

text \<open>Splitting.\<close>

lemma split_new_None: "split_new t x d f s = None \<longleftrightarrow> x \<notin> set (leaves t)"
  by (induction t) (auto simp: Let_def rebuilt_def split: option.splits)

lemma split_new_Some:
  assumes "split_new t x d f s = Some u" "distinct (leaves t)"
  shows "\<exists>xs ys. leaves t = xs @ x # ys \<and> leaves u = xs @ x # f # ys"
    and "set (ids u) = insert s (insert f (set (ids t)))"
    and "ratios_ok t \<Longrightarrow> ratios_ok u" and "length (ids u) = length (ids t) + 2"
proof -
  have "(\<exists>xs ys. leaves t = xs @ x # ys \<and> leaves u = xs @ x # f # ys) \<and>
      set (ids u) = insert s (insert f (set (ids t))) \<and> (ratios_ok t \<longrightarrow> ratios_ok u) \<and> length (ids u) = length (ids t) + 2"
    using assms
  proof (induction t arbitrary: u)
    case (Pane i)
    then show ?case
      by (auto simp: MIN_RATIO_def split: if_splits intro!: exI [of _ "[]"])
  next
    case (Split i e r a b)
    show ?case
    proof (cases "split_new a x d f s")
      case None
      with Split.prems obtain b' where b': "split_new b x d f s = Some b'" "u = Split i e r a b'"
        by (auto simp: rebuilt_def split: option.splits)
      with Split.IH(2) [of b'] Split.prems obtain xs ys where "leaves b = xs @ x # ys" "leaves b' = xs @ x # f # ys" by auto
      then have "leaves (Split i e r a b) = (leaves a @ xs) @ x # ys" "leaves u = (leaves a @ xs) @ x # f # ys"
        using b'(2) by simp_all
      moreover have "set (ids u) = insert s (insert f (set (ids (Split i e r a b))))"
        "ratios_ok (Split i e r a b) \<longrightarrow> ratios_ok u" "length (ids u) = length (ids (Split i e r a b)) + 2"
        using Split.IH(2) [of b'] Split.prems b' by auto
      ultimately show ?thesis by blast
    next
      case (Some a')
      with Split.prems have u: "u = Split i e r a' b" by (auto simp: rebuilt_def)
      with Split.IH(1) [OF Some] Split.prems obtain xs ys where "leaves a = xs @ x # ys" "leaves a' = xs @ x # f # ys" by auto
      then have "leaves (Split i e r a b) = xs @ x # (ys @ leaves b)" "leaves u = xs @ x # f # (ys @ leaves b)"
        using u by simp_all
      moreover have "set (ids u) = insert s (insert f (set (ids (Split i e r a b))))"
        "ratios_ok (Split i e r a b) \<longrightarrow> ratios_ok u" "length (ids u) = length (ids (Split i e r a b)) + 2"
        using Split.IH(1) [OF Some] Split.prems u by auto
      ultimately show ?thesis by blast
    qed
  qed
  then show "\<exists>xs ys. leaves t = xs @ x # ys \<and> leaves u = xs @ x # f # ys"
    and "set (ids u) = insert s (insert f (set (ids t)))"
    and "ratios_ok t \<Longrightarrow> ratios_ok u" and "length (ids u) = length (ids t) + 2" by blast+
qed

text \<open>Closing.\<close>

lemma remove_new_None: "remove_new t x = None \<longleftrightarrow> x \<notin> set (leaves t) \<or> (\<exists>i. t = Pane i)"
proof (induction t)
  case (Split i d r a b)
  then show ?case by (cases a; cases b) (auto simp: Let_def rebuilt_def split: option.splits)
qed simp

lemma remove_new_Some:
  assumes "remove_new t x = Some u" "distinct (ids t)"
  shows "leaves u = filter (\<lambda>y. y \<noteq> x) (leaves t) \<and> distinct (ids u) \<and> set (ids u) \<subseteq> set (ids t) \<and> (ratios_ok t \<longrightarrow> ratios_ok u)"
  using assms
proof (induction t arbitrary: u)
  case (Split i d r a b)
  have keep: "x \<notin> set (leaves c) \<Longrightarrow> filter (\<lambda>y. y \<noteq> x) (leaves c) = leaves c" for c by (auto simp: filter_id_conv)
  have disj: "set (leaves a) \<inter> set (leaves b) = {}" using Split.prems(2) leaves_ids [of a] leaves_ids [of b] by auto
  consider (left) "a = Pane x" "u = b" | (right) "a \<noteq> Pane x" "b = Pane x" "u = a"
    | (in_a) a' where "remove_new a x = Some a'" "u = Split i d r a' b"
    | (in_b) b' where "remove_new a x = None" "a \<noteq> Pane x" "remove_new b x = Some b'" "u = Split i d r a b'"
    using Split.prems(1) by (auto simp: Let_def rebuilt_def split: if_splits option.splits)
  then show ?case
  proof cases
    case left
    with disj keep [of b] Split.prems(2) show ?thesis by auto
  next
    case right
    with disj keep [of a] Split.prems(2) show ?thesis by auto
  next
    case in_a
    then have "x \<in> set (leaves a)" using remove_new_None [of a x] by auto
    with disj have "filter (\<lambda>y. y \<noteq> x) (leaves b) = leaves b" by (intro keep) auto
    with Split.IH(1) [OF in_a(1)] Split.prems(2) in_a(2) show ?thesis by auto
  next
    case in_b
    then have "x \<in> set (leaves b)" using remove_new_None [of b x] by auto
    with disj have "filter (\<lambda>y. y \<noteq> x) (leaves a) = leaves a" by (intro keep) auto
    with Split.IH(2) [OF in_b(3)] Split.prems(2) in_b(4) show ?thesis by auto
  qed
qed simp

text \<open>Dragging a divider.\<close>

lemma set_ratio_new_Some:
  "set_ratio_new t s x = Some u \<Longrightarrow> leaves u = leaves t \<and> ids u = ids t \<and> (ratios_ok t \<longrightarrow> ratios_ok u)"
proof (induction t arbitrary: u)
  case (Split i d r a b)
  then show ?case by (auto simp: Let_def rebuilt_def split: if_splits option.splits)
qed simp

lemma index_of_Some: "index_of x xs = Some i \<Longrightarrow> i < length xs \<and> xs ! i = x"
  by (induction xs arbitrary: i) (auto split: if_splits)

lemma neighbour_mem:
  assumes "neighbour t x = Some y" "distinct (leaves t)"
  shows "y \<in> set (leaves t) \<and> y \<noteq> x \<and> x \<in> set (leaves t) \<and> 2 \<le> length (leaves t)"
proof -
  obtain i where i: "index_of x (leaves t) = Some i" "2 \<le> length (leaves t)"
    "y = (if 0 < i then leaves t ! (i - 1) else leaves t ! (i + 1))" "0 < i \<or> i + 1 < length (leaves t)"
    using assms(1) by (auto simp: neighbour_def Let_def split: option.splits if_splits)
  note n = index_of_Some [OF i(1)]
  have "y \<noteq> leaves t ! i"
    using i n assms(2) by (auto simp: nth_eq_iff_index_eq)
  with i n show ?thesis by auto
qed

text \<open>Sizes.\<close>

lemma size_of_None: "size_of t x w h = None \<longleftrightarrow> x \<notin> set (leaves t)"
proof (induction t arbitrary: w h)
  case (Split i d r a b)
  note a = Split.IH(1) [of "if d = Row then w * r else w" "if d = Col then h * r else h"]
  show ?case
  proof (cases "size_of a x (if d = Row then w * r else w) (if d = Col then h * r else h)")
    case None
    with a Split.IH(2) show ?thesis by (simp add: Let_def)
  next
    case (Some s)
    then have "x \<in> set (leaves a)" using a by simp
    with Some show ?thesis by (simp add: Let_def)
  qed
qed simp

lemma size_of_split:
  assumes "size_of t x w h = Some (sw, sh)" "f \<notin> set (leaves t)" "split_new t x d f s = Some u" "f \<noteq> x"
  shows "size_of u x w h = Some (if d = Row then (sw / 2, sh) else (sw, sh / 2)) \<and>
    size_of u f w h = Some (if d = Row then (sw / 2, sh) else (sw, sh / 2))"
  using assms
proof (induction t arbitrary: u w h)
  case (Pane i)
  then show ?case by (cases d) (auto split: if_splits)
next
  case (Split i e r a b)
  let ?aw = "if e = Row then w * r else w" and ?ah = "if e = Col then h * r else h"
  show ?case
  proof (cases "split_new a x d f s")
    case None
    then have xa: "size_of a x ?aw ?ah = None" by (simp add: size_of_None split_new_None)
    have fa: "size_of a f ?aw ?ah = None" using Split.prems(2) by (simp add: size_of_None)
    from None Split.prems(3) obtain b' where b': "split_new b x d f s = Some b'" "u = Split i e r a b'"
      by (auto simp: Let_def rebuilt_def split: option.splits)
    have "size_of b x (if e = Row then w - ?aw else w) (if e = Col then h - ?ah else h) = Some (sw, sh)"
      using Split.prems(1) xa by (simp add: Let_def)
    from Split.IH(2) [OF this _ b'(1) Split.prems(4)] Split.prems(2) xa fa b'(2) show ?thesis by (simp add: Let_def)
  next
    case (Some a')
    then have u: "u = Split i e r a' b" using Split.prems(3) by (auto simp: Let_def rebuilt_def)
    have "x \<in> set (leaves a)" using Some split_new_None [of a x d f s] by auto
    then have "size_of a x ?aw ?ah = Some (sw, sh)"
      using Split.prems(1) size_of_None [of a x ?aw ?ah] by (cases "size_of a x ?aw ?ah") (auto simp: Let_def)
    from Split.IH(1) [OF this _ Some Split.prems(4)] Split.prems(2) u show ?thesis by (simp add: Let_def)
  qed
qed

text \<open>Reading a layout back.\<close>

lemma node_id_ok: "node_id v = Some i \<Longrightarrow> id_ok i"
  by (auto simp: node_id_def split: js.splits if_splits)

lemma walk_ok:
  "walk n depth seen = (seen', Some t) \<Longrightarrow>
   tree_ok t \<and> set (ids t) \<inter> set seen = {} \<and> set seen' = set (ids t) \<union> set seen"
proof (induction n depth seen arbitrary: seen' t rule: walk.induct)
  case (1 n depth seen)
  note prems = "1.prems" [unfolded walk.simps [of n depth seen]]
  from prems obtain i where i: "is_object_or_array n" "\<not> MAX_PANES + 4 < depth" "node_id (js_field ''id'' n) = Some i" "i \<notin> set seen"
    by (auto split: if_splits option.splits)
  show ?case
  proof (cases "js_field ''kind'' n = JStr ''pane''")
    case True
    with prems i show ?thesis by (auto simp: tree_ok_def node_id_ok)
  next
    case False
    with prems i obtain d r seen1 a b where
      d: "js_field ''kind'' n = JStr ''split''" "dir_of (js_field ''dir'' n) = Some d" "ratio_of (js_field ''ratio'' n) = Some r"
        "walk (js_field ''a'' n) (depth + 1) (i # seen) = (seen1, Some a)"
        "walk (js_field ''b'' n) (depth + 1) seen1 = (seen', Some b)" "t = Split i d (clamp_ratio r) a b"
      by (auto split: if_splits option.splits prod.splits)
    have a: "tree_ok a \<and> set (ids a) \<inter> set (i # seen) = {} \<and> set seen1 = set (ids a) \<union> set (i # seen)"
      by (rule "1.IH"(1)) (use i d False in auto)
    have b: "tree_ok b \<and> set (ids b) \<inter> set seen1 = {} \<and> set seen' = set (ids b) \<union> set seen1"
      by (rule "1.IH"(2)) (use i d False in auto)
    from a b d(6) node_id_ok [OF i(3)] i(4) show ?thesis by (auto simp: tree_ok_def)
  qed
qed

lemma walk_to_js:
  "tree_ok t \<Longrightarrow> set (ids t) \<inter> set seen = {} \<Longrightarrow> depth + tree_depth t \<le> MAX_PANES + 4 \<Longrightarrow>
   \<exists>seen'. walk (to_js t) depth seen = (seen', Some t) \<and> set seen' = set (ids t) \<union> set seen"
proof (induction t arbitrary: depth seen)
  case (Pane i)
  then show ?case by (subst walk.simps) (auto simp: node_id_def tree_ok_def)
next
  case (Split i d r a b)
  from Split.prems have ok: "tree_ok a" "tree_ok b" "id_ok i" "i \<notin> set seen" "i \<notin> set (ids a) \<union> set (ids b)"
    "set (ids a) \<inter> set (ids b) = {}" "clamp_ratio (Some r) = r"
    by (auto simp: tree_ok_def clamp_ratio_id)
  have "set (ids a) \<inter> set (i # seen) = {}" "depth + 1 + tree_depth a \<le> MAX_PANES + 4"
    using Split.prems ok by auto
  from Split.IH(1) [OF ok(1) this] obtain seen1 where
    a: "walk (to_js a) (depth + 1) (i # seen) = (seen1, Some a)" "set seen1 = set (ids a) \<union> set (i # seen)" by blast
  have "set (ids b) \<inter> set seen1 = {}" "depth + 1 + tree_depth b \<le> MAX_PANES + 4"
    using Split.prems ok a(2) by auto
  from Split.IH(2) [OF ok(2) this] obtain seen2 where
    b: "walk (to_js b) (depth + 1) seen1 = (seen2, Some b)" "set seen2 = set (ids b) \<union> set seen1" by blast
  have "walk (to_js (Split i d r a b)) depth seen = (seen2, Some (Split i d r a b))"
    using Split.prems(3) ok a b by (subst walk.simps) (cases d; simp add: node_id_def dir_of_def)
  with a(2) b(2) show ?case by auto
qed

section \<open>Properties\<close>

text \<open>
  C10: a stored layout.  What \<open>restore\<close> accepts, whatever was stored, is a well-formed tree (distinct usable ids,
  ratios in range) of at most twelve panes; and every such tree that was stored is restored as it was.
\<close>

theorem restore_roundtrip:
  "(restore raw = Some t \<longrightarrow> tree_ok t \<and> count_panes t \<le> MAX_PANES) \<and>
   (tree_ok t \<and> count_panes t \<le> MAX_PANES \<longrightarrow> restore (to_js t) = Some t)"
proof (intro conjI impI)
  assume "restore raw = Some t"
  then have w: "snd (walk raw 0 []) = Some t" "count_panes t \<le> MAX_PANES"
    by (auto simp: restore_def split: option.splits if_splits)
  then obtain seen where "walk raw 0 [] = (seen, Some t)" by (cases "walk raw 0 []") auto
  from walk_ok [OF this] w(2) show "tree_ok t" "count_panes t \<le> MAX_PANES" by simp_all
next
  assume t: "tree_ok t \<and> count_panes t \<le> MAX_PANES"
  then have "0 + tree_depth t \<le> MAX_PANES + 4" using depth_lt_count [of t] by simp
  from walk_to_js [OF _ _ this, of "[]"] t show "restore (to_js t) = Some t" by (auto simp: restore_def)
qed

definition ex_tree :: node where
  "ex_tree = Split ''s1'' Row (1 / 2) (Pane ''p1'') (Split ''s2'' Col (1 / 4) (Pane ''p2'') (Pane ''p3''))"

lemma ex_tree_ok: "tree_ok ex_tree"
  by (simp add: tree_ok_def ex_tree_def id_ok_def id_char_def word_char_def is_digit_def is_lower_az_def MIN_RATIO_def)

theorem restore_roundtrip_witness:
  "restore (to_js ex_tree) = Some ex_tree \<and> restore (JObj [(''kind'', JStr ''pane''), (''id'', JStr ''a b'')]) \<noteq> Some (Pane ''a b'')"
  using restore_roundtrip [of "JObj [(''kind'', JStr ''pane''), (''id'', JStr ''a b'')]" "Pane ''a b''"]
    restore_roundtrip [of JNull ex_tree] ex_tree_ok
  by (auto simp: count_panes_def ex_tree_def MAX_PANES_def tree_ok_def id_ok_def id_char_def word_char_def is_digit_def
      is_lower_az_def is_upper_az_def)

text \<open>
  C11: splitting, closing and dragging keep a tree well-formed.  A split puts the new pane right after the one it
  splits; closing takes out that pane and keeps the others in order; a divider changes no pane; and the pane to focus
  after closing is one that stays.
\<close>

theorem pane_operations:
  assumes "tree_ok t" "x \<in> set (leaves t)"
  shows "(id_ok f \<and> id_ok s \<and> f \<noteq> s \<and> f \<notin> set (ids t) \<and> s \<notin> set (ids t) \<longrightarrow>
      tree_ok (split_pane t x d f s) \<and>
      (\<exists>xs ys. leaves t = xs @ x # ys \<and> leaves (split_pane t x d f s) = xs @ x # f # ys)) \<and>
    tree_ok (remove_pane t x) \<and>
    leaves (remove_pane t x) = (if 2 \<le> count_panes t then filter (\<lambda>y. y \<noteq> x) (leaves t) else leaves t) \<and>
    tree_ok (set_ratio t s r) \<and> leaves (set_ratio t s r) = leaves t \<and>
    (neighbour t x = Some y \<longrightarrow> y \<in> set (leaves (remove_pane t x)))"
proof -
  have ok: "distinct (ids t)" "list_all id_ok (ids t)" "ratios_ok t" using assms(1) by (simp_all add: tree_ok_def)
  note dl = distinct_leaves [OF ok(1)]
  have split: "tree_ok (split_pane t x d f s) \<and>
      (\<exists>xs ys. leaves t = xs @ x # ys \<and> leaves (split_pane t x d f s) = xs @ x # f # ys)"
    if new: "id_ok f" "id_ok s" "f \<noteq> s" "f \<notin> set (ids t)" "s \<notin> set (ids t)"
  proof -
    from assms(2) obtain u where u: "split_new t x d f s = Some u" using split_new_None [of t x d f s] by auto
    note n = split_new_Some [OF u dl]
    have "card (set (ids u)) = length (ids u)"
      using new ok(1) n(2,4) by (simp add: distinct_card)
    then have "distinct (ids u)" by (rule card_distinct)
    with n(1,2) n(3) [OF ok(3)] ok new u show ?thesis by (auto simp: tree_ok_def split_pane_def list_all_iff)
  qed
  have remove: "tree_ok (remove_pane t x) \<and>
      leaves (remove_pane t x) = (if 2 \<le> count_panes t then filter (\<lambda>y. y \<noteq> x) (leaves t) else leaves t)"
  proof (cases "remove_new t x")
    case None
    with assms(2) remove_new_None [of t x] obtain i where "t = Pane i" by auto
    with None assms(1) show ?thesis by (simp add: remove_pane_def count_panes_def)
  next
    case (Some u)
    have "2 \<le> count_panes t"
    proof (cases t)
      case (Split i e q a b)
      then show ?thesis using leaves_nonempty [of a] leaves_nonempty [of b]
        by (cases "leaves a"; cases "leaves b") (auto simp: count_panes_def)
    qed (use Some in simp)
    with remove_new_Some [OF Some ok(1)] Some ok show ?thesis by (auto simp: remove_pane_def tree_ok_def list_all_iff)
  qed
  have ratio: "tree_ok (set_ratio t s r) \<and> leaves (set_ratio t s r) = leaves t"
    using ok set_ratio_new_Some [of t s r]
    by (cases "set_ratio_new t s r") (auto simp: set_ratio_def tree_ok_def)
  have "y \<in> set (leaves (remove_pane t x))" if n: "neighbour t x = Some y"
    using neighbour_mem [OF n dl] remove by (simp add: count_panes_def)
  with split remove ratio show ?thesis by blast
qed

theorem pane_operations_witness:
  "leaves (remove_pane ex_tree ''p2'') = [''p1'', ''p3''] \<and> tree_ok (split_pane ex_tree ''p2'' Row ''p9'' ''s9'')"
proof -
  have new: "id_ok ''p9''" "id_ok ''s9''" "''p9'' \<notin> set (ids ex_tree)" "''s9'' \<notin> set (ids ex_tree)"
    by (simp_all add: id_ok_def id_char_def word_char_def is_digit_def is_lower_az_def ex_tree_def)
  have "''p2'' \<in> set (leaves ex_tree)" by (simp add: ex_tree_def)
  from pane_operations [OF ex_tree_ok this, of "''p9''" "''s9''" Row None "''p1''"] new
  show ?thesis by (simp add: ex_tree_def count_panes_def)
qed

text \<open>
  when there is room to split a pane, both halves have at least the smallest size allowed after the split.
\<close>

theorem split_leaves_room:
  assumes "room_to_split t x d w h m" "f \<notin> set (leaves t)"
  shows "\<exists>s1 s2. size_of (split_pane t x d f s) x w h = Some s1 \<and> size_of (split_pane t x d f s) f w h = Some s2 \<and>
    s1 = s2 \<and> (if d = Row then fst m \<le> fst s1 else snd m \<le> snd s1)"
proof -
  obtain sw sh where sz: "size_of t x w h = Some (sw, sh)" "if d = Row then fst m \<le> sw / 2 else snd m \<le> sh / 2"
    using assms(1) by (auto simp: room_to_split_def split: option.splits if_splits)
  then have x: "x \<in> set (leaves t)" using size_of_None [of t x w h] by auto
  then obtain u where u: "split_new t x d f s = Some u" using split_new_None [of t x d f s] by auto
  have "f \<noteq> x" using x assms(2) by auto
  from size_of_split [OF sz(1) assms(2) u this] sz(2) u show ?thesis by (cases d) (auto simp: split_pane_def)
qed

theorem split_leaves_room_witness:
  "size_of (split_pane ex_tree ''p3'' Row ''p9'' ''s9'') ''p9'' 800 600 = Some (200, 450)"
proof -
  have "room_to_split ex_tree ''p3'' Row 800 600 (200, 100)" by (simp add: room_to_split_def ex_tree_def)
  from split_leaves_room [OF this, of "''p9''" "''s9''"]
  obtain s where "size_of (split_pane ex_tree ''p3'' Row ''p9'' ''s9'') ''p9'' 800 600 = Some s"
    by (auto simp: ex_tree_def)
  then show ?thesis by (simp add: ex_tree_def split_pane_def rebuilt_def)
qed

end
