(* ===== verification/PaneLayout.thy ===== *)
theory PaneLayout
  imports Panes
begin

text \<open>
  Rearranging panes (web/src/lib/paneLayout.ts): where every pane is, the pane next to one in a direction, trading
  places, and the even layouts.  Sizes are rational; \<open>Math.round\<close> is written out.
\<close>

section \<open>Rectangles\<close>

datatype move_dir = ToLeft | ToRight | ToUp | ToDown

datatype shape = RowShape | ColShape | Grid

record rect =
  rc_x :: rat
  rc_y :: rat
  rc_w :: rat
  rc_h :: rat

text \<open>The entries of the map, in the order they were set.\<close>

fun rects :: "node \<Rightarrow> rat \<Rightarrow> rat \<Rightarrow> rat \<Rightarrow> rat \<Rightarrow> (string \<times> rect) list \<Rightarrow> (string \<times> rect) list" where
  "rects (Pane i) w h x y out = upsert fst (i, \<lparr>rc_x = x, rc_y = y, rc_w = w, rc_h = h\<rparr>) out"
| "rects (Split i d r a b) w h x y out =
     (if d = Row then
        (let aw = of_int (round_half_up (w * r)) in rects b (w - aw) h (x + aw) y (rects a aw h x y out))
      else
        (let ah = of_int (round_half_up (h * r)) in rects b w (h - ah) x (y + ah) (rects a w ah x y out)))"

definition beyond :: "rect \<Rightarrow> rect \<Rightarrow> move_dir \<Rightarrow> rat" where
  "beyond from to d =
     (case d of
        ToLeft \<Rightarrow> rc_x from - (rc_x to + rc_w to)
      | ToRight \<Rightarrow> rc_x to - (rc_x from + rc_w from)
      | ToUp \<Rightarrow> rc_y from - (rc_y to + rc_h to)
      | ToDown \<Rightarrow> rc_y to - (rc_y from + rc_h from))"

definition facing :: "rect \<Rightarrow> rect \<Rightarrow> move_dir \<Rightarrow> rat" where
  "facing from to d =
     (if d = ToLeft \<or> d = ToRight
      then min (rc_y from + rc_h from) (rc_y to + rc_h to) - max (rc_y from) (rc_y to)
      else min (rc_x from + rc_w from) (rc_x to + rc_w to) - max (rc_x from) (rc_x to))"

definition SLACK :: rat where
  "SLACK = 3 / 2"

text \<open>The loop over the map: the best pane so far and its gap (\<^const>\<open>None\<close> is infinity).\<close>

fun nearest :: "string \<Rightarrow> rect \<Rightarrow> move_dir \<Rightarrow> (string \<times> rect) list \<Rightarrow> (string \<times> rat) option \<Rightarrow> (string \<times> rat) option" where
  "nearest me from d [] best = best"
| "nearest me from d ((i, r) # rs) best =
     nearest me from d rs
       (if i = me then best
        else (let gap = beyond from r d in
          if gap < - SLACK \<or> facing from r d \<le> 0 then best
          else (case best of
              None \<Rightarrow> Some (i, gap)
            | Some (j, g) \<Rightarrow> (if gap < g then Some (i, gap) else best))))"

definition neighbour_of :: "node \<Rightarrow> string \<Rightarrow> move_dir \<Rightarrow> rat \<Rightarrow> rat \<Rightarrow> string option" where
  "neighbour_of t me d w h =
     (let rs = rects t w h 0 0 [] in
      case map_of rs me of
        None \<Rightarrow> None
      | Some from \<Rightarrow> map_option fst (nearest me from d rs None))"

section \<open>Trading places\<close>

fun has_pane :: "node \<Rightarrow> string \<Rightarrow> bool" where
  "has_pane (Pane i) x = (i = x)"
| "has_pane (Split i d r a b) x = (has_pane a x \<or> has_pane b x)"

fun swap_walk :: "string \<Rightarrow> string \<Rightarrow> node \<Rightarrow> node" where
  "swap_walk x y (Pane i) = (if i = x then Pane y else if i = y then Pane x else Pane i)"
| "swap_walk x y (Split i d r a b) = Split i d r (swap_walk x y a) (swap_walk x y b)"

definition swap_panes :: "node \<Rightarrow> string \<Rightarrow> string \<Rightarrow> node" where
  "swap_panes t x y = (if x = y \<or> \<not> has_pane t x \<or> \<not> has_pane t y then t else swap_walk x y t)"

definition move_pane :: "node \<Rightarrow> string \<Rightarrow> move_dir \<Rightarrow> rat \<Rightarrow> rat \<Rightarrow> node" where
  "move_pane t me d w h = (case neighbour_of t me d w h of None \<Rightarrow> t | Some other \<Rightarrow> swap_panes t me other)"

definition can_move :: "node \<Rightarrow> string \<Rightarrow> move_dir \<Rightarrow> rat \<Rightarrow> rat \<Rightarrow> bool" where
  "can_move t me d w h = (neighbour_of t me d w h \<noteq> None)"

section \<open>Even layouts\<close>

text \<open>\<open>build\<close> is never called without nodes.\<close>

function build :: "node list \<Rightarrow> dir \<Rightarrow> node" where
  "build [] d = Pane []"
| "build [t] d = t"
| "build (t # u # ts) d =
     (let nodes = t # u # ts; n = length nodes; left = n div 2
      in Split (''l'' @ drop 1 (hd (leaves (nodes ! left))) @ ''-'' @ show_nat n) d (of_nat left / of_nat n)
           (build (take left nodes) d) (build (drop left nodes) d))"
  by pat_completeness auto

termination by (relation "measure (\<lambda>(ts, d). length ts)") auto

declare build.simps(3) [simp del]

function chunks :: "nat \<Rightarrow> 'a list \<Rightarrow> 'a list list" where
  "chunks n xs = (if xs = [] then [] else if n = 0 then [xs] else take n xs # chunks n (drop n xs))"
  by pat_completeness auto

termination by (relation "measure (\<lambda>(n, xs). length xs)") auto

declare chunks.simps [simp del]

text \<open>\<open>Math.ceil(Math.sqrt(n))\<close>.\<close>

definition ceil_sqrt :: "nat \<Rightarrow> nat" where
  "ceil_sqrt n = hd (filter (\<lambda>k. n \<le> k * k) [0..<Suc n])"

definition preset :: "string list \<Rightarrow> shape \<Rightarrow> node option" where
  "preset xs s =
     (case xs of
        [] \<Rightarrow> None
      | [i] \<Rightarrow> Some (Pane i)
      | _ \<Rightarrow>
          (if s \<noteq> Grid then Some (build (map Pane xs) (if s = RowShape then Row else Col))
           else (let rows = map (map Pane) (chunks (ceil_sqrt (length xs)) xs)
                 in if length rows = 1 then Some (build (hd rows) Row)
                    else Some (build (map (\<lambda>row. build row Row) rows) Col))))"

section \<open>Lemmas\<close>

lemma has_pane_leaves [simp]: "has_pane t x \<longleftrightarrow> x \<in> set (leaves t)"
  by (induction t) auto

definition swapped :: "string \<Rightarrow> string \<Rightarrow> string \<Rightarrow> string" where
  "swapped x y i = (if i = x then y else if i = y then x else i)"

lemma swapped_swapped [simp]: "swapped x y (swapped x y i) = i"
  by (auto simp: swapped_def)

lemma swap_walk_leaves [simp]: "leaves (swap_walk x y t) = map (swapped x y) (leaves t)"
  by (induction t) (auto simp: swapped_def)

lemma swap_walk_twice [simp]: "swap_walk x y (swap_walk x y t) = t"
  by (induction t) auto

lemma swap_walk_size: "size_of (swap_walk x y t) i w h = size_of t (swapped x y i) w h"
proof (induction t arbitrary: w h)
  case (Pane j)
  then show ?case by (auto simp: swapped_def)
next
  case (Split j d r a b)
  then show ?case by (simp add: Let_def split: option.split)
qed

lemma nearest_spec:
  assumes "nearest me from d rs best = Some (i, g)"
  shows "best = Some (i, g) \<or>
    (\<exists>r. (i, r) \<in> set rs \<and> i \<noteq> me \<and> g = beyond from r d \<and> - SLACK \<le> g \<and> 0 < facing from r d)"
    and "\<forall>(j, r) \<in> set rs. j \<noteq> me \<longrightarrow> - SLACK \<le> beyond from r d \<longrightarrow> 0 < facing from r d \<longrightarrow> g \<le> beyond from r d"
    and "\<forall>j e. best = Some (j, e) \<longrightarrow> g \<le> e"
proof -
  have "(best = Some (i, g) \<or>
      (\<exists>r. (i, r) \<in> set rs \<and> i \<noteq> me \<and> g = beyond from r d \<and> - SLACK \<le> g \<and> 0 < facing from r d)) \<and>
    (\<forall>(j, r) \<in> set rs. j \<noteq> me \<longrightarrow> - SLACK \<le> beyond from r d \<longrightarrow> 0 < facing from r d \<longrightarrow> g \<le> beyond from r d) \<and>
    (\<forall>j e. best = Some (j, e) \<longrightarrow> g \<le> e)"
    using assms
  proof (induction rs arbitrary: best)
    case (Cons jr rs)
    obtain j r where jr: "jr = (j, r)" by (cases jr)
    let ?best = "if j = me then best
        else (let gap = beyond from r d in
          if gap < - SLACK \<or> facing from r d \<le> 0 then best
          else (case best of None \<Rightarrow> Some (j, gap) | Some (k, e) \<Rightarrow> (if gap < e then Some (j, gap) else best)))"
    from Cons.prems have "nearest me from d rs ?best = Some (i, g)" by (simp add: jr)
    note IH = Cons.IH [OF this]
    show ?case
    proof (cases "j = me \<or> beyond from r d < - SLACK \<or> facing from r d \<le> 0")
      case True
      then have b: "?best = best" by (auto simp: Let_def)
      note I = IH [unfolded b]
      from I True show ?thesis unfolding jr by auto
    next
      case False
      show ?thesis
      proof (cases "\<exists>k e. best = Some (k, e) \<and> e \<le> beyond from r d")
        case True
        then obtain k e where k: "best = Some (k, e)" "e \<le> beyond from r d" by blast
        then have b: "?best = best" using False by (auto simp: Let_def)
        note I = IH [unfolded b]
        have "g \<le> e" using I k(1) by blast
        with k(2) have "g \<le> beyond from r d" by simp
        with I show ?thesis unfolding jr by (intro conjI) auto
      next
        case other: False
        then have b: "?best = Some (j, beyond from r d)" using False by (auto simp: Let_def split: option.split)
        note I = IH [unfolded b]
        have g: "g \<le> beyond from r d" using I by blast
        have k: "\<forall>k e. best = Some (k, e) \<longrightarrow> g \<le> e" using other g by force
        have "\<exists>r'. (i, r') \<in> set (jr # rs) \<and> i \<noteq> me \<and> g = beyond from r' d \<and> - SLACK \<le> g \<and> 0 < facing from r' d"
        proof (cases "i = j \<and> g = beyond from r d")
          case True
          with False show ?thesis by (intro exI [of _ r]) (auto simp: jr)
        next
          case False
          with I obtain r' where "(i, r') \<in> set rs" "i \<noteq> me" "g = beyond from r' d" "- SLACK \<le> g" "0 < facing from r' d"
            by auto
          then show ?thesis by (intro exI [of _ r']) simp
        qed
        with I g k show ?thesis unfolding jr by (intro conjI) (blast, simp, blast)
      qed
    qed
  qed simp
  then show "best = Some (i, g) \<or>
    (\<exists>r. (i, r) \<in> set rs \<and> i \<noteq> me \<and> g = beyond from r d \<and> - SLACK \<le> g \<and> 0 < facing from r d)"
    and "\<forall>(j, r) \<in> set rs. j \<noteq> me \<longrightarrow> - SLACK \<le> beyond from r d \<longrightarrow> 0 < facing from r d \<longrightarrow> g \<le> beyond from r d"
    and "\<forall>j e. best = Some (j, e) \<longrightarrow> g \<le> e" by blast+
qed

lemma rects_keys: "fst ` set (rects t w h x y out) = set (leaves t) \<union> fst ` set out"
  by (induction t arbitrary: w h x y out) (auto simp: Let_def)

lemma chunks_concat [simp]: "concat (chunks n xs) = xs"
  by (induction n xs rule: chunks.induct) (subst chunks.simps, simp)

lemma chunks_nonempty: "r \<in> set (chunks n xs) \<Longrightarrow> r \<noteq> []"
proof (induction n xs rule: chunks.induct)
  case (1 n xs)
  from "1.prems" show ?case
    by (subst (asm) chunks.simps) (auto split: if_splits dest: "1.IH")
qed

lemma build_leaves: "ts \<noteq> [] \<Longrightarrow> leaves (build ts d) = concat (map leaves ts)"
proof (induction ts d rule: build.induct)
  case (3 t u ts d)
  let ?ts = "t # u # ts" and ?n = "length (t # u # ts) div 2"
  have "take ?n ?ts \<noteq> []" "drop ?n ?ts \<noteq> []" by auto
  with 3 have "leaves (build (take ?n ?ts) d) = concat (map leaves (take ?n ?ts))"
    "leaves (build (drop ?n ?ts) d) = concat (map leaves (drop ?n ?ts))" by simp_all
  then have "leaves (build ?ts d) = concat (map leaves (take ?n ?ts)) @ concat (map leaves (drop ?n ?ts))"
    by (simp only: build.simps Let_def leaves.simps)
  then show ?case by (simp only: concat_append [symmetric] map_append [symmetric] append_take_drop_id)
qed simp_all

lemma build_ratios: "ts \<noteq> [] \<Longrightarrow> \<forall>t \<in> set ts. ratios_ok t \<Longrightarrow> ratios_ok (build ts d)"
proof (induction ts d rule: build.induct)
  case (3 t u ts d)
  let ?ts = "t # u # ts" and ?l = "length (t # u # ts) div 2"
  have ne: "take ?l ?ts \<noteq> []" "drop ?l ?ts \<noteq> []" by auto
  have "ratios_ok (build (take ?l ?ts) d)"
    using "3.prems"(2) set_take_subset [of ?l ?ts] by (intro "3.IH"(1) [OF refl refl refl ne(1)]) blast
  moreover have "ratios_ok (build (drop ?l ?ts) d)"
    using "3.prems"(2) set_drop_subset [of ?l ?ts] by (intro "3.IH"(2) [OF refl refl refl ne(2)]) blast
  moreover have "MIN_RATIO \<le> (of_nat ?l :: rat) / of_nat (length ?ts)" "(of_nat ?l :: rat) / of_nat (length ?ts) \<le> 1 - MIN_RATIO"
  proof -
    have n: "length ?ts \<le> 3 * ?l" "2 * ?l \<le> length ?ts" by auto
    have "(of_nat (length ?ts) :: rat) \<le> of_nat (3 * ?l)" "(of_nat (2 * ?l) :: rat) \<le> of_nat (length ?ts)"
      using n by (simp_all only: of_nat_le_iff)
    then have q: "(of_nat (length ?ts) :: rat) \<le> 3 * of_nat ?l" "2 * (of_nat ?l :: rat) \<le> of_nat (length ?ts)" by simp_all
    have pos: "0 < (of_nat (length ?ts) :: rat)" by simp
    have "15 / 100 * n \<le> a" if "n \<le> 3 * a" "0 < n" for a n :: rat using that by linarith
    with q pos show "MIN_RATIO \<le> (of_nat ?l :: rat) / of_nat (length ?ts)"
      unfolding MIN_RATIO_def pos_le_divide_eq [OF pos] by blast
    have "a \<le> (1 - 15 / 100) * n" if "2 * a \<le> n" "0 < n" for a n :: rat
      using that by (simp add: field_simps)
    with q pos show "(of_nat ?l :: rat) / of_nat (length ?ts) \<le> 1 - MIN_RATIO"
      unfolding MIN_RATIO_def pos_divide_le_eq [OF pos] by blast
  qed
  ultimately show ?case by (simp only: build.simps Let_def ratios_ok.simps)
qed simp_all

text \<open>Every node of an even row has the same width, and keeps its height.\<close>

lemma build_even:
  "distinct (concat (map leaves ts)) \<Longrightarrow> j < length ts \<Longrightarrow> x \<in> set (leaves (ts ! j)) \<Longrightarrow>
   size_of (build ts d) x w h =
     size_of (ts ! j) x (if d = Row then w / of_nat (length ts) else w) (if d = Col then h / of_nat (length ts) else h)"
proof (induction ts d arbitrary: j w h rule: build.induct)
  case (3 t u ts d)
  define ns where "ns = t # u # ts"
  define n where "n = length ns"
  define l where "l = n div 2"
  have l: "0 < l" "l < n" by (simp_all add: l_def n_def ns_def)
  have b: "build ns d = Split (''l'' @ drop 1 (hd (leaves (ns ! l))) @ ''-'' @ show_nat n) d (of_nat l / of_nat n)
      (build (take l ns) d) (build (drop l ns) d)"
    unfolding ns_def l_def n_def by (simp only: build.simps Let_def)
  have dist: "distinct (concat (map leaves (take l ns)))" "distinct (concat (map leaves (drop l ns)))"
    "set (concat (map leaves (take l ns))) \<inter> set (concat (map leaves (drop l ns))) = {}"
    using "3.prems"(1) unfolding ns_def [symmetric]
    by (metis append_take_drop_id concat_append distinct_append map_append)+
  have nz: "(of_nat n :: rat) \<noteq> 0" "(of_nat l :: rat) \<noteq> 0" "(of_nat (n - l) :: rat) \<noteq> 0" using l by simp_all
  have left: "w * (of_nat l / of_nat n) / of_nat l = w / of_nat n" for w :: rat using nz by simp
  have "of_nat (n - l) = (of_nat n :: rat) - of_nat l" using l by (simp add: of_nat_diff)
  then have right: "(w - w * of_nat l / of_nat n) / of_nat (n - l) = w / of_nat n" for w :: rat
    using nz by (simp add: field_simps)
  have lens: "length (take l ns) = l" "length (drop l ns) = n - l" "length ns = n" "min n l = l" using l by (simp_all add: n_def)
  have dn: "d = Row \<or> d = Col" by (cases d) auto
  show ?case
  proof (cases "j < l")
    case True
    have j: "j < length (take l ns)" "x \<in> set (leaves (take l ns ! j))" using True lens "3.prems"(3) by (simp_all add: ns_def)
    note IH = "3.IH"(1) [OF refl refl refl, folded ns_def, folded n_def, folded l_def, OF dist(1) j]
    have "size_of (build (take l ns) d) x (if d = Row then w * (of_nat l / of_nat n) else w) (if d = Col then h * (of_nat l / of_nat n) else h)
        = size_of (ns ! j) x (if d = Row then w / of_nat n else w) (if d = Col then h / of_nat n else h)"
      using True dn by (auto simp: IH lens left)
    moreover obtain s where "size_of (ns ! j) x (if d = Row then w / of_nat n else w) (if d = Col then h / of_nat n else h) = Some s"
      using size_of_None [of "ns ! j" x] "3.prems"(3) unfolding ns_def by (metis not_Some_eq)
    ultimately show ?thesis unfolding ns_def [symmetric] n_def [symmetric] b by (simp only: size_of.simps Let_def option.case)
  next
    case False
    have j: "j - l < length (drop l ns)" "x \<in> set (leaves (drop l ns ! (j - l)))"
      using False lens "3.prems"(2,3) by (simp_all add: ns_def n_def)
    note IH = "3.IH"(2) [OF refl refl refl, folded ns_def, folded n_def, folded l_def, OF dist(2) j]
    have "x \<in> set (concat (map leaves (drop l ns)))" using j nth_mem [OF j(1)] by auto
    with dist(3) have "x \<notin> set (concat (map leaves (take l ns)))" by blast
    moreover have "take l ns \<noteq> []" using l by (auto simp: n_def)
    ultimately have none: "size_of (build (take l ns) d) x a c = None" for a c
      by (simp add: size_of_None build_leaves)
    have "drop l ns ! (j - l) = ns ! j" using False by (simp add: l_def n_def)
    then have "size_of (build (drop l ns) d) x (if d = Row then w - (if d = Row then w * (of_nat l / of_nat n) else w) else w)
        (if d = Col then h - (if d = Col then h * (of_nat l / of_nat n) else h) else h)
        = size_of (ns ! j) x (if d = Row then w / of_nat n else w) (if d = Col then h / of_nat n else h)"
      using dn by (auto simp: IH lens right)
    with none show ?thesis unfolding ns_def [symmetric] n_def [symmetric] b by (simp only: size_of.simps Let_def option.case)
  qed
qed simp_all

section \<open>Properties\<close>

text \<open>
  an even layout holds exactly the panes given, in their order, with every ratio in range.  In a row all panes
  have the same width and the full height, in a column the other way round, and in a grid all rows have the same height.
\<close>

theorem preset_is_even:
  assumes "xs \<noteq> []" "distinct xs"
  shows "\<exists>t. preset xs s = Some t \<and> leaves t = xs \<and> ratios_ok t \<and>
    (\<forall>x \<in> set xs. \<exists>sw sh. size_of t x w h = Some (sw, sh) \<and>
       (case s of RowShape \<Rightarrow> sw = w / of_nat (length xs) \<and> sh = h
        | ColShape \<Rightarrow> sw = w \<and> sh = h / of_nat (length xs)
        | Grid \<Rightarrow> sh = h / of_nat (length (chunks (ceil_sqrt (length xs)) xs))))"
proof -
  have panes: "concat (map leaves (map Pane ys)) = ys" for ys by (induction ys) auto
  have row: "leaves (build (map Pane ys) d) = ys \<and> ratios_ok (build (map Pane ys) d) \<and>
      (\<forall>x \<in> set ys. size_of (build (map Pane ys) d) x w h =
        Some (if d = Row then w / of_nat (length ys) else w, if d = Col then h / of_nat (length ys) else h))"
    if ys: "ys \<noteq> []" "distinct ys" for ys d w h
  proof -
    have "size_of (build (map Pane ys) d) x w h =
        Some (if d = Row then w / of_nat (length ys) else w, if d = Col then h / of_nat (length ys) else h)" if "x \<in> set ys" for x
    proof -
      obtain j where j: "j < length ys" "x = ys ! j" using \<open>x \<in> set ys\<close> by (auto simp: in_set_conv_nth)
      with build_even [of "map Pane ys" j x d w h] ys panes [of ys] show ?thesis by simp
    qed
    moreover have "leaves (build (map Pane ys) d) = ys" using build_leaves [of "map Pane ys" d] ys(1) panes [of ys] by simp
    moreover have "ratios_ok (build (map Pane ys) d)" using build_ratios [of "map Pane ys" d] ys(1) by auto
    ultimately show ?thesis by blast
  qed
  show ?thesis
  proof (cases xs)
    case (Cons i rest)
    show ?thesis
    proof (cases rest)
      case Nil
      have "ceil_sqrt 1 = 1" "chunks 1 [i] = [[i]]" by (simp_all add: ceil_sqrt_def chunks.simps)
      with Cons Nil show ?thesis by (cases s) (auto simp: preset_def)
    next
      case (Cons k rest')
      show ?thesis
      proof (cases "s = Grid")
        case False
        then have "preset xs s = Some (build (map Pane xs) (if s = RowShape then Row else Col))"
          using \<open>xs = i # rest\<close> Cons by (simp add: preset_def)
        with row [OF assms, of "if s = RowShape then Row else Col"] False show ?thesis by (cases s) auto
      next
        case grid: True
        define cs where "cs = chunks (ceil_sqrt (length xs)) xs"
        have cat: "concat cs = xs" by (simp add: cs_def)
        have ne: "cs \<noteq> []" "\<forall>c \<in> set cs. c \<noteq> []" using cat assms(1) chunks_nonempty unfolding cs_def by force+
        have dc: "\<forall>c \<in> set cs. distinct c" using assms(2) cat by (metis distinct_concat_iff)
        have p: "preset xs s = (if length cs = 1 then Some (build (map Pane (hd cs)) Row)
            else Some (build (map (\<lambda>c. build (map Pane c) Row) cs) Col))"
          using \<open>xs = i # rest\<close> Cons grid ne(1) by (simp add: preset_def cs_def Let_def comp_def hd_map)
        show ?thesis
        proof (cases "length cs = 1")
          case True
          with cat have "hd cs = xs" by (cases cs) auto
          with p True row [OF assms, of Row] grid show ?thesis by (auto simp: cs_def [symmetric])
        next
          case False
          let ?rows = "map (\<lambda>c. build (map Pane c) Row) cs"
          have each: "leaves (build (map Pane c) Row) = c" "ratios_ok (build (map Pane c) Row)" if "c \<in> set cs" for c
            using row [of c Row] ne(2) dc that by blast+
          have rl: "map leaves ?rows = cs" by (simp add: comp_def each map_idI)
          have "leaves (build ?rows Col) = xs" using build_leaves [of ?rows Col] ne(1) rl cat by simp
          moreover have "ratios_ok (build ?rows Col)" using build_ratios [of ?rows Col] ne(1) each(2) by auto
          moreover have "\<exists>sw. size_of (build ?rows Col) x w h = Some (sw, h / of_nat (length cs))" if "x \<in> set xs" for x
          proof -
            from \<open>x \<in> set xs\<close> have "x \<in> set (concat cs)" by (simp only: cat)
            then obtain c where "c \<in> set cs" "x \<in> set c" by auto
            then obtain j where j: "j < length cs" "x \<in> set (cs ! j)" by (metis in_set_conv_nth)
            then have c: "cs ! j \<noteq> []" "distinct (cs ! j)" using ne(2) dc by auto
            have "size_of (build ?rows Col) x w h = size_of (?rows ! j) x w (h / of_nat (length cs))"
              using build_even [of ?rows j x Col w h] rl cat assms(2) j row [OF c, of Row] by simp
            with j row [OF c, of Row] show ?thesis by simp
          qed
          ultimately show ?thesis using p False grid by (auto simp: cs_def [symmetric])
        qed
      qed
    qed
  qed (use assms in simp)
qed

theorem preset_is_even_witness:
  "\<exists>t. preset [''p1'', ''p2'', ''p3''] RowShape = Some t \<and> size_of t ''p2'' 900 600 = Some (300, 600)"
  using preset_is_even [of "[''p1'', ''p2'', ''p3'']" RowShape 900 600] by auto

text \<open>
  moving a pane.  It trades places with the pane it moves towards: that pane faces it, lies on that side (within
  the slack), is the nearest such one, and afterwards each has the other's size; every other pane keeps its own, the
  order of the rest is kept and the same trade again gives the tree back.
\<close>

theorem move_trades_places:
  assumes "neighbour_of t me d w h = Some other" "distinct (leaves t)"
  shows "move_pane t me d w h = swap_walk me other t \<and> other \<in> set (leaves t) \<and> other \<noteq> me \<and>
    (\<exists>from r. map_of (rects t w h 0 0 []) me = Some from \<and> (other, r) \<in> set (rects t w h 0 0 []) \<and>
       - SLACK \<le> beyond from r d \<and> 0 < facing from r d \<and>
       (\<forall>(j, q) \<in> set (rects t w h 0 0 []). j \<noteq> me \<and> - SLACK \<le> beyond from q d \<and> 0 < facing from q d \<longrightarrow>
          beyond from r d \<le> beyond from q d)) \<and>
    leaves (move_pane t me d w h) = map (swapped me other) (leaves t) \<and>
    (\<forall>i. size_of (move_pane t me d w h) i w h = size_of t (swapped me other i) w h) \<and>
    swap_panes (move_pane t me d w h) me other = t"
proof -
  obtain fr g where fr: "map_of (rects t w h 0 0 []) me = Some fr"
    and near: "nearest me fr d (rects t w h 0 0 []) None = Some (other, g)"
    using assms(1) by (auto simp: neighbour_of_def Let_def split: option.splits)
  note n = nearest_spec [OF near]
  then obtain r where r: "(other, r) \<in> set (rects t w h 0 0 [])" "other \<noteq> me" "g = beyond fr r d" "- SLACK \<le> g" "0 < facing fr r d"
    by auto
  have "other \<in> fst ` set (rects t w h 0 0 [])" "me \<in> fst ` set (rects t w h 0 0 [])"
    using r(1) map_of_SomeD [OF fr] by force+
  then have mem: "other \<in> set (leaves t)" "me \<in> set (leaves t)" by (simp_all add: rects_keys)
  then have mv: "move_pane t me d w h = swap_walk me other t"
    using assms(1) r(2) by (simp add: move_pane_def swap_panes_def)
  have "me \<in> set (leaves (swap_walk me other t))" "other \<in> set (leaves (swap_walk me other t))"
    using mem by (force simp: swapped_def image_iff)+
  then have undo: "swap_panes (swap_walk me other t) me other = t" using r(2) by (simp add: swap_panes_def)
  have "\<exists>from r. map_of (rects t w h 0 0 []) me = Some from \<and> (other, r) \<in> set (rects t w h 0 0 []) \<and>
       - SLACK \<le> beyond from r d \<and> 0 < facing from r d \<and>
       (\<forall>(j, q) \<in> set (rects t w h 0 0 []). j \<noteq> me \<and> - SLACK \<le> beyond from q d \<and> 0 < facing from q d \<longrightarrow>
          beyond from r d \<le> beyond from q d)"
    using n(2) r by (intro exI [of _ fr] exI [of _ r] conjI fr) auto
  with mv mem(1) r(2) undo show ?thesis by (simp add: swap_walk_size)
qed

theorem move_trades_places_witness:
  "leaves (move_pane ex_tree ''p2'' ToLeft 800 600) = [''p2'', ''p1'', ''p3'']"
proof -
  have rs: "rects ex_tree 800 600 0 0 [] =
      [(''p1'', \<lparr>rc_x = 0, rc_y = 0, rc_w = 400, rc_h = 600\<rparr>), (''p2'', \<lparr>rc_x = 400, rc_y = 0, rc_w = 400, rc_h = 150\<rparr>),
       (''p3'', \<lparr>rc_x = 400, rc_y = 150, rc_w = 400, rc_h = 450\<rparr>)]"
    by (simp add: ex_tree_def round_half_up_def)
  have "neighbour_of ex_tree ''p2'' ToLeft 800 600 = Some ''p1''"
    by (simp add: neighbour_of_def rs beyond_def facing_def SLACK_def)
  from move_trades_places [OF this] show ?thesis by (simp add: ex_tree_def swapped_def)
qed

end
