(* ===== verification/Inbox.thy ===== *)
theory Inbox
  imports Table Regex
begin

text \<open>
  The channel inbox (src/channels/inbox.ts, src/channels/senderName.ts): the operator's bindings of threads to
  sessions, the messages accepted from approved senders, their transcripts, and the checkpoints of the consumers that
  take them over.  A table is the list of its rows in insertion order.  The size of a message as JSON and the clock are
  arguments; a message is read back from its column as it was written.
\<close>

section \<open>Data\<close>

record attachment =
  at_id :: string
  at_kind :: string
  at_mime :: "string option"
  at_ref :: "string option"
  at_transcript :: "string option"
  at_state :: "string option"

record inbound =
  im_channel :: string
  im_account :: string
  im_thread :: string
  im_messageId :: string
  im_sender :: string
  im_senderName :: "string option"
  im_sentAt :: rat
  im_text :: string
  im_replyTo :: "string option"
  im_mentions :: "string list option"
  im_attachments :: "attachment list"
  im_fromMe :: "bool option"

record ack_binding =
  ak_reaction :: "string option"
  ak_delay :: "rat option"

type_synonym thread_route = "string \<times> string \<times> string"

record binding =
  bd_route :: thread_route
  bd_session :: string
  bd_project :: string
  bd_allowed :: "string list"
  bd_policy :: string
  bd_model :: string
  bd_ack :: "ack_binding option"

text \<open>The row of a binding: its ack as the JSON value that is stored (\<^const>\<open>None\<close> is the empty string).\<close>

record binding_row =
  br_route :: thread_route
  br_session :: string
  br_project :: string
  br_allowed :: "string list"
  br_policy :: string
  br_model :: string
  br_ack :: "js option"

record inbox_row =
  ix_seq :: nat
  ix_message :: inbound
  ix_original :: inbound
  ix_session :: string
  ix_project :: string
  ix_received :: int

record update_row =
  up_seq :: nat
  up_inbox :: nat
  up_attachment :: string
  up_state :: string
  up_at :: int

record inbox =
  ix_bindings :: "binding_row list"
  ix_rows :: "inbox_row list"
  ix_next :: nat
  ix_updates :: "update_row list"
  ix_nextUpdate :: nat
  ix_consumers :: "(string \<times> nat) list"
  ix_own :: "(string \<times> int) list"
  ix_sends :: "string list option"

datatype inbox_error =
    InvalidRoute | InvalidPolicy | InvalidModel | InvalidBinding | InvalidAckReaction | InvalidAckDelay
  | InvalidSender | UnboundRoute | AllowlistBounds | InvalidMessage | InvalidAttachmentMetadata | InvalidAttachment
  | PayloadTooLarge | UnapprovedSender | IdentifierReused | InvalidTranscript | MissingMessage | MissingAttachment
  | AlreadyResolved | TranscriptTooLarge | InvalidCursor | InvalidConsumer | InvalidAcknowledgement
  | StaleAcknowledgement | WrongDelivery | InvalidOwnSend | InvalidSession | InvalidLimit

section \<open>Checks\<close>

text \<open>\<open>Buffer.byteLength\<close>: a character from 128 on takes two bytes.\<close>

definition byte_length :: "string \<Rightarrow> nat" where
  "byte_length s = sum_list (map (\<lambda>c. if (of_char c :: nat) < 128 then 1 else 2) s)"

definition bounded :: "nat \<Rightarrow> string \<Rightarrow> bool" where
  "bounded limit s = (s \<noteq> [] \<and> byte_length s \<le> limit \<and> \<not> list_ex is_control s)"

definition safe_integer :: "rat \<Rightarrow> bool" where
  "safe_integer r = (r = of_int \<lfloor>r\<rfloor> \<and> \<bar>r\<bar> \<le> 2 ^ 53 - 1)"

definition CHANNELS :: "string list" where
  "CHANNELS = [''gmail'', ''whatsapp'', ''apple-messages'']"

definition POLICIES :: "string list" where
  "POLICIES = [[], ''mentions'', ''all'']"

definition route_ok :: "thread_route \<Rightarrow> bool" where
  "route_ok r = (case r of (channel, account, thread) \<Rightarrow> channel \<in> set CHANNELS \<and> bounded 256 account \<and> bounded 256 thread)"

definition model_char :: "char \<Rightarrow> bool" where
  "model_char c = (is_lower_az c \<or> is_upper_az c \<or> is_digit c \<or> c = CHR ''.'' \<or> c = CHR ''_'' \<or> c = CHR ''-'')"

text \<open>\<open>checkModel\<close>: the provider has no slash, so the first slash ends it.\<close>

definition model_ok :: "string \<Rightarrow> bool" where
  "model_ok m =
     (let provider = takeWhile (\<lambda>c. c \<noteq> CHR ''/'') m; rest = dropWhile (\<lambda>c. c \<noteq> CHR ''/'') m
      in m = [] \<or>
         (rest \<noteq> [] \<and> 1 \<le> length provider \<and> length provider \<le> 64 \<and> list_all model_char provider \<and>
          1 \<le> length (tl rest) \<and> length (tl rest) \<le> 190 \<and>
          list_all (\<lambda>c. model_char c \<or> c = CHR '':'' \<or> c = CHR ''/'') (tl rest)))"

definition NAME_MAX :: int where
  "NAME_MAX = 64"

definition clean_sender_name :: "string option \<Rightarrow> string option" where
  "clean_sender_name raw =
     (case raw of
        None \<Rightarrow> None
      | Some s \<Rightarrow>
          (if list_ex (\<lambda>c. is_control c \<or> c = CHR 0x7F) s then None
           else (let trimmed = js_trim s in
             if trimmed = [] then None
             else if 512 < byte_length trimmed then None
             else Some (slice_to NAME_MAX trimmed))))"

text \<open>\<open>jid.replace(/@.*$/, "")\<close>: the dot matches no line break.\<close>

fun strip_domain :: "string \<Rightarrow> string" where
  "strip_domain [] = []"
| "strip_domain (c # cs) =
     (if c = CHR ''@'' \<and> list_all (\<lambda>d. d \<noteq> CHR 0x0A \<and> d \<noteq> CHR 0x0D) cs then [] else c # strip_domain cs)"

definition sender_display_name :: "string \<Rightarrow> string option \<Rightarrow> string" where
  "sender_display_name jid raw =
     (case clean_sender_name raw of
        Some name \<Rightarrow> name
      | None \<Rightarrow> (let lname = strip_domain jid in if lname = [] then slice_to NAME_MAX jid else lname))"

section \<open>Bindings\<close>

definition reaction_ok :: "string \<Rightarrow> bool" where
  "reaction_ok s = (length s \<le> 8 \<and> \<not> list_ex is_control s)"

definition delay_ok :: "rat \<Rightarrow> bool" where
  "delay_ok d = (safe_integer d \<and> 0 \<le> d \<and> d \<le> 120000)"

definition encode_ack :: "ack_binding option \<Rightarrow> inbox_error + js option" where
  "encode_ack a =
     (case a of
        None \<Rightarrow> Inr None
      | Some k \<Rightarrow>
          (if pred_option (\<lambda>s. \<not> reaction_ok s) (ak_reaction k) \<and> ak_reaction k \<noteq> None then Inl InvalidAckReaction
           else if pred_option (\<lambda>d. \<not> delay_ok d) (ak_delay k) \<and> ak_delay k \<noteq> None then Inl InvalidAckDelay
           else if ak_reaction k = None \<and> ak_delay k = None then Inr None
           else Inr (Some (JObj
             ((case ak_reaction k of None \<Rightarrow> [] | Some s \<Rightarrow> [(''reaction'', JStr s)]) @
              (case ak_delay k of None \<Rightarrow> [] | Some d \<Rightarrow> [(''delayMs'', JNum d)]))))))"

definition decode_ack :: "js option \<Rightarrow> ack_binding option" where
  "decode_ack raw =
     (case raw of
        None \<Rightarrow> None
      | Some v \<Rightarrow>
          (let reaction = (case js_field ''reaction'' v of JStr s \<Rightarrow> (if reaction_ok s then Some s else None) | _ \<Rightarrow> None);
               delay = (case js_field ''delayMs'' v of JNum d \<Rightarrow> (if delay_ok d then Some d else None) | _ \<Rightarrow> None)
           in if \<not> is_object_or_array v \<or> reaction = None \<and> delay = None then None
              else Some \<lparr>ak_reaction = reaction, ak_delay = delay\<rparr>))"

definition find_binding :: "inbox \<Rightarrow> thread_route \<Rightarrow> binding_row option" where
  "find_binding st r = row_of br_route r (ix_bindings st)"

definition put_binding :: "inbox \<Rightarrow> binding_row \<Rightarrow> inbox" where
  "put_binding st b = st\<lparr>ix_bindings := upsert br_route b (ix_bindings st)\<rparr>"

definition drop_binding :: "inbox \<Rightarrow> thread_route \<Rightarrow> inbox" where
  "drop_binding st r = st\<lparr>ix_bindings := delete_key br_route r (ix_bindings st)\<rparr>"

definition bind_thread :: "inbox \<Rightarrow> binding \<Rightarrow> inbox_error + inbox" where
  "bind_thread st b =
     (if \<not> route_ok (bd_route b) then Inl InvalidRoute
      else if bd_policy b \<notin> set POLICIES then Inl InvalidPolicy
      else if \<not> model_ok (bd_model b) then Inl InvalidModel
      else if \<not> bounded 256 (bd_session b) \<or> \<not> bounded 256 (bd_project b) \<or> bd_allowed b = [] \<or>
        100 < length (bd_allowed b) \<or> \<not> list_all (bounded 256) (bd_allowed b) then Inl InvalidBinding
      else (case encode_ack (bd_ack b) of
          Inl e \<Rightarrow> Inl e
        | Inr ack \<Rightarrow> Inr (put_binding st \<lparr>br_route = bd_route b, br_session = bd_session b, br_project = bd_project b,
            br_allowed = bd_allowed b, br_policy = bd_policy b, br_model = bd_model b, br_ack = ack\<rparr>)))"

definition binding_of :: "binding_row \<Rightarrow> binding" where
  "binding_of r = \<lparr>bd_route = br_route r, bd_session = br_session r, bd_project = br_project r, bd_allowed = br_allowed r,
     bd_policy = br_policy r, bd_model = br_model r, bd_ack = decode_ack (br_ack r)\<rparr>"

definition binding_for :: "inbox \<Rightarrow> thread_route \<Rightarrow> inbox_error + binding option" where
  "binding_for st r = (if \<not> route_ok r then Inl InvalidRoute else Inr (map_option binding_of (find_binding st r)))"

definition unbind_thread :: "inbox \<Rightarrow> thread_route \<Rightarrow> inbox_error + (inbox \<times> bool)" where
  "unbind_thread st r = (if \<not> route_ok r then Inl InvalidRoute else Inr (drop_binding st r, find_binding st r \<noteq> None))"

definition allow_sender :: "inbox \<Rightarrow> thread_route \<Rightarrow> string \<Rightarrow> bool \<Rightarrow> inbox_error + inbox" where
  "allow_sender st r sender add =
     (if \<not> route_ok r then Inl InvalidRoute
      else if \<not> bounded 256 sender then Inl InvalidSender
      else (case find_binding st r of
          None \<Rightarrow> Inl UnboundRoute
        | Some b \<Rightarrow>
            (let known = rev (remdups (rev (br_allowed b)));
                 senders = (if add then (if sender \<in> set known then known else known @ [sender]) else removeAll sender known)
             in if senders = [] \<or> 100 < length senders then Inl AllowlistBounds
                else Inr (put_binding st (b\<lparr>br_allowed := senders\<rparr>)))))"

text \<open>The order of texts by code units.\<close>

fun str_less :: "string \<Rightarrow> string \<Rightarrow> bool" where
  "str_less [] t = (t \<noteq> [])"
| "str_less (c # s) [] = False"
| "str_less (c # s) (d # t) =
     ((of_char c :: nat) < of_char d \<or> c = d \<and> str_less s t)"

definition list_bindings :: "inbox \<Rightarrow> string option \<Rightarrow> binding list" where
  "list_bindings st account =
     map binding_of (sort_stable
       (\<lambda>x y. str_less (fst (snd (br_route x))) (fst (snd (br_route y))) \<or>
          fst (snd (br_route x)) = fst (snd (br_route y)) \<and> str_less (snd (snd (br_route x))) (snd (snd (br_route y))))
       (filter (\<lambda>b. case account of None \<Rightarrow> True | Some a \<Rightarrow> fst (snd (br_route b)) = a) (ix_bindings st)))"

definition bindings_for_session :: "inbox \<Rightarrow> string \<Rightarrow> string \<Rightarrow> nat \<Rightarrow> inbox_error + binding list" where
  "bindings_for_session st session channel limit =
     (if \<not> bounded 256 session then Inl InvalidSession
      else Inr (take limit (filter (\<lambda>b. fst (bd_route b) = channel \<and> bd_session b = session) (list_bindings st None))))"

section \<open>Messages\<close>

definition message_route :: "inbound \<Rightarrow> thread_route" where
  "message_route m = (im_channel m, im_account m, im_thread m)"

text \<open>\<open>v && !p(v)\<close> of an optional text: an absent or empty one passes.\<close>

definition unless_empty :: "(string \<Rightarrow> bool) \<Rightarrow> string option \<Rightarrow> bool" where
  "unless_empty p v = (case v of None \<Rightarrow> True | Some s \<Rightarrow> s = [] \<or> p s)"

fun check_attachments :: "attachment list \<Rightarrow> inbox_error option" where
  "check_attachments [] = None"
| "check_attachments (a # as) =
     (if \<not> unless_empty (bounded 128) (at_mime a) \<or>
         \<not> unless_empty (\<lambda>s. s \<in> {''pending'', ''complete'', ''uncertain'', ''failed''}) (at_state a)
      then Some InvalidAttachmentMetadata
      else if \<not> bounded 256 (at_id a) \<or> at_kind a \<notin> {''image'', ''audio'', ''document''} \<or>
         \<not> unless_empty (\<lambda>s. byte_length s \<le> 2048) (at_ref a) \<or>
         \<not> unless_empty (\<lambda>s. byte_length s \<le> 64000) (at_transcript a)
      then Some InvalidAttachment
      else check_attachments as)"

definition checked_message :: "inbound \<Rightarrow> inbox_error + inbound" where
  "checked_message m =
     (if \<not> route_ok (message_route m) then Inl InvalidRoute
      else if \<not> bounded 256 (im_messageId m) \<or> \<not> bounded 256 (im_sender m) \<or> \<not> safe_integer (im_sentAt m) \<or> im_sentAt m < 0 \<or>
        64000 < byte_length (im_text m) \<or> 16 < length (im_attachments m) \<or> \<not> unless_empty (bounded 256) (im_replyTo m)
      then Inl InvalidMessage
      else (case check_attachments (im_attachments m) of
          Some e \<Rightarrow> Inl e
        | None \<Rightarrow> Inr (if im_senderName m \<noteq> None \<and> clean_sender_name (im_senderName m) = None
                       then m\<lparr>im_senderName := None\<rparr> else m)))"

definition mentions_key :: "inbound \<Rightarrow> string list" where
  "mentions_key m = sort_stable str_less (case im_mentions m of None \<Rightarrow> [] | Some xs \<Rightarrow> xs)"

definition same_content :: "inbound \<Rightarrow> inbound \<Rightarrow> bool" where
  "same_content p m \<longleftrightarrow>
     message_route p = message_route m \<and> im_messageId p = im_messageId m \<and> im_sender p = im_sender m \<and>
     im_text p = im_text m \<and> im_replyTo p = im_replyTo m \<and> im_attachments p = im_attachments m \<and>
     mentions_key p = mentions_key m"

record accepted =
  ac_seq :: nat
  ac_duplicate :: bool
  ac_session :: string
  ac_project :: string

definition row_key :: "inbox_row \<Rightarrow> thread_route \<times> string" where
  "row_key r = (message_route (ix_original r), im_messageId (ix_original r))"

definition accept :: "(inbound \<Rightarrow> nat) \<Rightarrow> int \<Rightarrow> inbox \<Rightarrow> inbound \<Rightarrow> inbox_error + (inbox \<times> accepted)" where
  "accept json_bytes now st raw =
     (case checked_message raw of
        Inl e \<Rightarrow> Inl e
      | Inr m \<Rightarrow>
          (if 256000 < json_bytes m then Inl PayloadTooLarge
           else (case find_binding st (message_route m) of
               None \<Rightarrow> Inl UnapprovedSender
             | Some b \<Rightarrow>
                 (if im_sender m \<notin> set (br_allowed b) then Inl UnapprovedSender
                  else (case row_of row_key (message_route m, im_messageId m) (ix_rows st) of
                      Some old \<Rightarrow>
                        (if \<not> same_content (ix_original old) m then Inl IdentifierReused
                         else Inr (st, \<lparr>ac_seq = ix_seq old, ac_duplicate = True, ac_session = ix_session old,
                                ac_project = ix_project old\<rparr>))
                    | None \<Rightarrow>
                        Inr (st\<lparr>ix_rows := ix_rows st @ [\<lparr>ix_seq = ix_next st, ix_message = m, ix_original = m,
                               ix_session = br_session b, ix_project = br_project b, ix_received = now\<rparr>],
                             ix_next := Suc (ix_next st)\<rparr>,
                           \<lparr>ac_seq = ix_next st, ac_duplicate = False, ac_session = br_session b,
                            ac_project = br_project b\<rparr>))))))"

definition is_audio :: "string \<Rightarrow> attachment \<Rightarrow> bool" where
  "is_audio i a = (at_id a = i \<and> at_kind a = ''audio'')"

fun update_first :: "('a \<Rightarrow> bool) \<Rightarrow> ('a \<Rightarrow> 'a) \<Rightarrow> 'a list \<Rightarrow> 'a list" where
  "update_first P f [] = []"
| "update_first P f (x # xs) = (if P x then f x # xs else x # update_first P f xs)"

definition transcript ::
    "(inbound \<Rightarrow> nat) \<Rightarrow> int \<Rightarrow> inbox \<Rightarrow> nat \<Rightarrow> string \<Rightarrow> string \<Rightarrow> string \<Rightarrow> inbox_error + inbox" where
  "transcript json_bytes now st seq i txt state =
     (if seq = 0 \<or> 2 ^ 53 \<le> seq \<or> \<not> bounded 256 i \<or> 64000 < byte_length txt \<or>
         state \<notin> {''complete'', ''uncertain'', ''failed''} then Inl InvalidTranscript
      else (case row_of ix_seq seq (ix_rows st) of
          None \<Rightarrow> Inl MissingMessage
        | Some row \<Rightarrow>
            (case find (is_audio i) (im_attachments (ix_message row)) of
               None \<Rightarrow> Inl MissingAttachment
             | Some a \<Rightarrow>
                 (if at_state a \<noteq> Some ''pending'' then Inl AlreadyResolved
                  else (let m = (ix_message row)\<lparr>im_attachments :=
                            update_first (is_audio i) (\<lambda>a. a\<lparr>at_transcript := Some txt, at_state := Some state\<rparr>)
                              (im_attachments (ix_message row))\<rparr>
                        in if 256000 < json_bytes m then Inl TranscriptTooLarge
                           else Inr (st\<lparr>ix_rows := map (\<lambda>r. if ix_seq r = seq then r\<lparr>ix_message := m\<rparr> else r) (ix_rows st),
                               ix_updates := ix_updates st @ [\<lparr>up_seq = ix_nextUpdate st, up_inbox = seq, up_attachment = i,
                                 up_state = state, up_at = now\<rparr>],
                               ix_nextUpdate := Suc (ix_nextUpdate st)\<rparr>))))))"

definition limit_ok :: "nat \<Rightarrow> bool" where
  "limit_ok limit = (1 \<le> limit \<and> limit \<le> 1000)"

definition read_inbox :: "inbox \<Rightarrow> nat \<Rightarrow> nat \<Rightarrow> inbox_error + inbox_row list" where
  "read_inbox st after limit =
     (if 2 ^ 53 \<le> after \<or> \<not> limit_ok limit then Inl InvalidCursor
      else Inr (take limit (filter (\<lambda>r. after < ix_seq r) (ix_rows st))))"

definition thread_texts :: "inbox \<Rightarrow> string \<Rightarrow> string \<Rightarrow> nat \<Rightarrow> inbox_error + string list" where
  "thread_texts st account thread limit =
     (if limit < 1 \<or> 100 < limit then Inl InvalidLimit
      else Inr (filter (\<lambda>t. js_trim t \<noteq> []) (map (\<lambda>r. im_text (ix_message r))
        (take limit (rev (filter (\<lambda>r. message_route (ix_original r) = (''whatsapp'', account, thread)) (ix_rows st)))))))"

definition read_updates :: "inbox \<Rightarrow> nat \<Rightarrow> nat \<Rightarrow> inbox_error + (update_row \<times> inbox_row) list" where
  "read_updates st after limit =
     (if 2 ^ 53 \<le> after \<or> \<not> limit_ok limit then Inl InvalidCursor
      else Inr (take limit (List.map_filter
        (\<lambda>u. map_option (\<lambda>r. (u, r)) (row_of ix_seq (up_inbox u) (ix_rows st)))
        (filter (\<lambda>u. after < up_seq u) (ix_updates st)))))"

section \<open>Consumers\<close>

definition checkpoint :: "inbox \<Rightarrow> string \<Rightarrow> nat option" where
  "checkpoint st c = map_option snd (row_of fst c (ix_consumers st))"

definition put_checkpoint :: "inbox \<Rightarrow> string \<times> nat \<Rightarrow> inbox" where
  "put_checkpoint st p = st\<lparr>ix_consumers := upsert fst p (ix_consumers st)\<rparr>"

definition cursor_of :: "inbox \<Rightarrow> string \<Rightarrow> nat" where
  "cursor_of st c = (case checkpoint st c of None \<Rightarrow> 0 | Some n \<Rightarrow> n)"

definition pending :: "inbox \<Rightarrow> string \<Rightarrow> nat \<Rightarrow> inbox_error + (nat \<times> inbox_row list)" where
  "pending st c limit =
     (if \<not> bounded 256 c \<or> \<not> limit_ok limit then Inl InvalidConsumer
      else (case read_inbox st (cursor_of st c) limit of Inl e \<Rightarrow> Inl e | Inr ms \<Rightarrow> Inr (cursor_of st c, ms)))"

record delivery =
  dl_seq :: nat
  dl_session :: string
  dl_project :: string

definition next_row :: "inbox \<Rightarrow> nat \<Rightarrow> inbox_row option" where
  "next_row st after = find (\<lambda>r. after < ix_seq r) (ix_rows st)"

definition acknowledge :: "inbox \<Rightarrow> string \<Rightarrow> nat \<Rightarrow> delivery \<Rightarrow> inbox_error + inbox" where
  "acknowledge st c expected d =
     (if \<not> bounded 256 c \<or> 2 ^ 53 \<le> expected \<or> 2 ^ 53 \<le> dl_seq d \<or> dl_seq d \<le> expected \<or>
         \<not> bounded 256 (dl_session d) \<or> \<not> bounded 256 (dl_project d) then Inl InvalidAcknowledgement
      else if cursor_of st c \<noteq> expected then Inl StaleAcknowledgement
      else (case next_row st expected of
          None \<Rightarrow> Inl WrongDelivery
        | Some r \<Rightarrow>
            (if ix_seq r \<noteq> dl_seq d \<or> ix_session r \<noteq> dl_session d \<or> ix_project r \<noteq> dl_project d then Inl WrongDelivery
             else Inr (put_checkpoint st (c, dl_seq d)))))"

definition newest :: "inbox \<Rightarrow> nat" where
  "newest st = foldl max 0 (map ix_seq (ix_rows st))"

definition sync :: "inbox \<Rightarrow> string \<Rightarrow> inbox_error + (inbox \<times> nat)" where
  "sync st c =
     (if \<not> bounded 256 c then Inl InvalidConsumer
      else (case checkpoint st c of
          Some n \<Rightarrow> Inr (st, n)
        | None \<Rightarrow> Inr (put_checkpoint st (c, newest st), newest st)))"

section \<open>Own sends\<close>

definition register_own_send :: "int \<Rightarrow> inbox \<Rightarrow> string \<Rightarrow> inbox_error + inbox" where
  "register_own_send now st i =
     (if \<not> bounded 256 i then Inl InvalidOwnSend
      else (let own = (if row_of fst i (ix_own st) = None then ix_own st @ [(i, now)] else ix_own st)
            in Inr (st\<lparr>ix_own := filter (\<lambda>p. \<not> snd p < now - 604800000) own\<rparr>)))"

text \<open>\<^const>\<open>None\<close> when no process has made the table of sent replies yet: the statement that reads both tables then fails.\<close>

definition is_own_send :: "inbox \<Rightarrow> string \<Rightarrow> bool" where
  "is_own_send st i =
     (if i = [] \<or> 256 < length i then False else 
      (case ix_sends st of None \<Rightarrow> False | Some ids \<Rightarrow> i \<in> set ids \<or> row_of fst i (ix_own st) \<noteq> None))"

section \<open>Runs\<close>

text \<open>What can happen to the inbox, in any order; an operation that is refused leaves it as it was.\<close>

datatype event =
    Bind binding
  | Unbind thread_route
  | Allow thread_route string bool
  | Accept inbound
  | Transcript nat string string string
  | Acknowledge string nat delivery
  | Sync string
  | OwnSend string

definition EMPTY_INBOX :: inbox where
  "EMPTY_INBOX = \<lparr>ix_bindings = [], ix_rows = [], ix_next = 1, ix_updates = [], ix_nextUpdate = 1, ix_consumers = [],
     ix_own = [], ix_sends = None\<rparr>"

fun handle_event :: "(inbound \<Rightarrow> nat) \<Rightarrow> int \<Rightarrow> inbox \<Rightarrow> event \<Rightarrow> inbox_error + inbox" where
  "handle_event jb now st (Bind b) = bind_thread st b"
| "handle_event jb now st (Unbind r) = map_sum id fst (unbind_thread st r)"
| "handle_event jb now st (Allow r sender add) = allow_sender st r sender add"
| "handle_event jb now st (Accept m) = map_sum id fst (accept jb now st m)"
| "handle_event jb now st (Transcript seq i txt state) = transcript jb now st seq i txt state"
| "handle_event jb now st (Acknowledge c expected d) = acknowledge st c expected d"
| "handle_event jb now st (Sync c) = map_sum id fst (sync st c)"
| "handle_event jb now st (OwnSend i) = register_own_send now st i"

fun step :: "(inbound \<Rightarrow> nat) \<Rightarrow> inbox \<Rightarrow> int \<times> event \<Rightarrow> inbox" where
  "step jb st (now, ev) = (case handle_event jb now st ev of Inl e \<Rightarrow> st | Inr st' \<Rightarrow> st')"

definition run :: "(inbound \<Rightarrow> nat) \<Rightarrow> inbox \<Rightarrow> (int \<times> event) list \<Rightarrow> inbox" where
  "run jb st evs = foldl (step jb) st evs"

lemma run_Nil [simp]: "run jb st [] = st"
  by (simp add: run_def)

lemma run_Cons [simp]: "run jb st (ev # evs) = run jb (step jb st ev) evs"
  by (simp add: run_def)

section \<open>The bindings and the checkpoints as tables\<close>

interpretation bindings: keyed_store_delete find_binding put_binding br_route "\<lambda>b. b" drop_binding
  by unfold_locales (auto simp: find_binding_def put_binding_def drop_binding_def dest: row_of_SomeD)

definition checkpoint_row :: "inbox \<Rightarrow> string \<Rightarrow> (string \<times> nat) option" where
  "checkpoint_row st c = row_of fst c (ix_consumers st)"

interpretation checkpoints: keyed_store checkpoint_row put_checkpoint fst "\<lambda>p. p"
  by unfold_locales (auto simp: checkpoint_row_def put_checkpoint_def dest: row_of_SomeD)

lemma checkpoint_put [simp]: "checkpoint (put_checkpoint st p) c = (if c = fst p then Some (snd p) else checkpoint st c)"
  using checkpoints.find_put [of st p c] by (simp add: checkpoint_def checkpoint_row_def)

section \<open>What an operation changes\<close>

text \<open>The part of a row that never changes.\<close>

definition frozen :: "inbox_row \<Rightarrow> nat \<times> inbound \<times> string \<times> string \<times> int" where
  "frozen r = (ix_seq r, ix_original r, ix_session r, ix_project r, ix_received r)"

definition inbox_log :: "inbox \<Rightarrow> (nat \<times> inbound \<times> string \<times> string \<times> int) list" where
  "inbox_log st = map frozen (ix_rows st)"

lemma map_frozen_cong: "map frozen xs = map frozen ys \<Longrightarrow> (\<And>r. f r = g (frozen r)) \<Longrightarrow> map f xs = map f ys"
proof -
  assume "map frozen xs = map frozen ys" and f: "\<And>r. f r = g (frozen r)"
  then have "map g (map frozen xs) = map g (map frozen ys)" by simp
  then show ?thesis by (simp add: comp_def f [symmetric])
qed

lemma put_binding_frame [simp]:
  "ix_rows (put_binding st b) = ix_rows st" "ix_next (put_binding st b) = ix_next st"
  "ix_consumers (put_binding st b) = ix_consumers st" "ix_updates (put_binding st b) = ix_updates st"
  "ix_rows (drop_binding st r) = ix_rows st" "ix_next (drop_binding st r) = ix_next st"
  "ix_consumers (drop_binding st r) = ix_consumers st" "ix_updates (drop_binding st r) = ix_updates st"
  "ix_rows (put_checkpoint st p) = ix_rows st" "ix_next (put_checkpoint st p) = ix_next st"
  "ix_updates (put_checkpoint st p) = ix_updates st"
  by (simp_all add: put_binding_def drop_binding_def put_checkpoint_def)

lemma accept_cases:
  assumes "accept jb now st raw = Inr (st', a)"
  obtains (redelivered) m b old where "checked_message raw = Inr m" "find_binding st (message_route m) = Some b"
      "im_sender m \<in> set (br_allowed b)" "row_of row_key (message_route m, im_messageId m) (ix_rows st) = Some old"
      "same_content (ix_original old) m" "st' = st"
      "a = \<lparr>ac_seq = ix_seq old, ac_duplicate = True, ac_session = ix_session old, ac_project = ix_project old\<rparr>"
  | (new) m b where "checked_message raw = Inr m" "find_binding st (message_route m) = Some b"
      "im_sender m \<in> set (br_allowed b)" "row_of row_key (message_route m, im_messageId m) (ix_rows st) = None"
      "st' = st\<lparr>ix_rows := ix_rows st @ [\<lparr>ix_seq = ix_next st, ix_message = m, ix_original = m,
         ix_session = br_session b, ix_project = br_project b, ix_received = now\<rparr>], ix_next := Suc (ix_next st)\<rparr>"
      "a = \<lparr>ac_seq = ix_next st, ac_duplicate = False, ac_session = br_session b, ac_project = br_project b\<rparr>"
proof -
  obtain m where m: "checked_message raw = Inr m" using assms by (cases "checked_message raw") (simp_all add: accept_def)
  obtain b where b: "find_binding st (message_route m) = Some b" "im_sender m \<in> set (br_allowed b)"
    using assms by (simp add: accept_def m split: if_splits option.splits)
  show ?thesis
  proof (cases "row_of row_key (message_route m, im_messageId m) (ix_rows st)")
    case None
    show ?thesis by (rule new [OF m b None]) (use assms in \<open>simp_all add: accept_def m b None split: if_splits\<close>)
  next
    case (Some old)
    show ?thesis by (rule redelivered [OF m b Some]) (use assms in \<open>simp_all add: accept_def m b Some split: if_splits\<close>)
  qed
qed

lemma checked_message_keys:
  "checked_message raw = Inr m \<Longrightarrow> message_route m = message_route raw \<and> im_messageId m = im_messageId raw \<and>
     im_sender m = im_sender raw \<and> im_text m = im_text raw \<and> im_replyTo m = im_replyTo raw \<and>
     im_attachments m = im_attachments raw \<and> im_mentions m = im_mentions raw"
  by (auto simp: checked_message_def message_route_def split: if_splits option.splits)

lemma acknowledge_cases:
  assumes "acknowledge st c n d = Inr st'"
  obtains r where "st' = put_checkpoint st (c, dl_seq d)" "next_row st n = Some r" "cursor_of st c = n" "n < dl_seq d"
    "d = \<lparr>dl_seq = ix_seq r, dl_session = ix_session r, dl_project = ix_project r\<rparr>"
proof -
  obtain r where r: "next_row st n = Some r" using assms by (simp add: acknowledge_def split: if_splits option.splits)
  show ?thesis by (rule that [OF _ r]) (use assms in \<open>simp_all add: acknowledge_def r split: if_splits\<close>)
qed

lemma transcript_frame:
  assumes "transcript jb now st seq i txt state = Inr st'"
  shows "inbox_log st' = inbox_log st \<and> ix_next st' = ix_next st \<and> ix_consumers st' = ix_consumers st"
proof -
  obtain r a where "row_of ix_seq seq (ix_rows st) = Some r" "find (is_audio i) (im_attachments (ix_message r)) = Some a"
    using assms by (simp add: transcript_def split: if_splits option.splits)
  with assms show ?thesis
    by (auto simp: transcript_def Let_def inbox_log_def frozen_def split: if_splits)
qed

lemma allow_sender_frame:
  assumes "allow_sender st r sender add = Inr st'"
  shows "ix_rows st' = ix_rows st \<and> ix_next st' = ix_next st \<and> ix_consumers st' = ix_consumers st \<and> ix_updates st' = ix_updates st"
proof -
  obtain b where "find_binding st r = Some b" using assms by (simp add: allow_sender_def split: if_splits option.splits)
  with assms show ?thesis by (auto simp: allow_sender_def Let_def split: if_splits)
qed

lemma bind_thread_frame:
  assumes "bind_thread st b = Inr st'"
  shows "ix_rows st' = ix_rows st \<and> ix_next st' = ix_next st \<and> ix_consumers st' = ix_consumers st \<and> ix_updates st' = ix_updates st"
proof (cases "encode_ack (bd_ack b)")
  case (Inr ack)
  with assms show ?thesis by (auto simp: bind_thread_def split: if_splits)
qed (use assms in \<open>simp add: bind_thread_def split: if_splits\<close>)

text \<open>The log only grows, at its end, by a message whose identifier is new.\<close>

lemma handle_log:
  assumes "handle_event jb now st ev = Inr st'"
  shows "inbox_log st' = inbox_log st \<and> ix_next st' = ix_next st \<or>
    (\<exists>m p q. inbox_log st' = inbox_log st @ [(ix_next st, m, p, q, now)] \<and> ix_next st' = Suc (ix_next st) \<and>
       row_of row_key (message_route m, im_messageId m) (ix_rows st) = None)"
proof (cases ev)
  case (Bind b)
  with assms bind_thread_frame [of st b st'] show ?thesis by (simp add: inbox_log_def)
next
  case (Unbind r)
  with assms show ?thesis by (auto simp: unbind_thread_def inbox_log_def split: if_splits)
next
  case (Allow r sender add)
  with assms allow_sender_frame [of st r sender add st'] show ?thesis by (simp add: inbox_log_def)
next
  case (Accept m)
  with assms obtain a where "accept jb now st m = Inr (st', a)" by (cases "accept jb now st m") auto
  then show ?thesis by (cases rule: accept_cases) (auto simp: inbox_log_def frozen_def)
next
  case (Transcript seq i t state)
  with assms transcript_frame [of jb now st seq i t state st'] show ?thesis by simp
next
  case (Acknowledge c n d)
  with assms have "acknowledge st c n d = Inr st'" by simp
  then show ?thesis by (cases rule: acknowledge_cases) (simp add: inbox_log_def)
next
  case (Sync c)
  with assms show ?thesis by (auto simp: sync_def inbox_log_def split: if_splits option.splits)
next
  case (OwnSend i)
  with assms show ?thesis by (auto simp: register_own_send_def inbox_log_def Let_def split: if_splits)
qed

text \<open>Only an acknowledgement and the first sync of a consumer write its checkpoint.\<close>

lemma handle_checkpoint:
  assumes "handle_event jb now st ev = Inr st'"
  shows "checkpoint st' c =
    (case ev of
       Acknowledge c' n d \<Rightarrow> (if c = c' then Some (dl_seq d) else checkpoint st c)
     | Sync c' \<Rightarrow> (if c = c' \<and> checkpoint st c = None then Some (newest st) else checkpoint st c)
     | _ \<Rightarrow> checkpoint st c)"
proof (cases ev)
  case (Bind b)
  with assms bind_thread_frame [of st b st'] show ?thesis by (simp add: checkpoint_def)
next
  case (Unbind r)
  with assms show ?thesis by (auto simp: unbind_thread_def checkpoint_def split: if_splits)
next
  case (Allow r sender add)
  with assms allow_sender_frame [of st r sender add st'] show ?thesis by (simp add: checkpoint_def)
next
  case (Accept m)
  with assms obtain a where "accept jb now st m = Inr (st', a)" by (cases "accept jb now st m") auto
  then show ?thesis using Accept by (cases rule: accept_cases) (simp_all add: checkpoint_def)
next
  case (Transcript seq i t state)
  with assms transcript_frame [of jb now st seq i t state st'] show ?thesis by (simp add: checkpoint_def)
next
  case (Acknowledge c' n d)
  with assms have "acknowledge st c' n d = Inr st'" by simp
  then show ?thesis using Acknowledge by (cases rule: acknowledge_cases) simp
next
  case (Sync c')
  with assms show ?thesis by (cases "checkpoint st c'") (auto simp: sync_def split: if_splits)
next
  case (OwnSend i)
  with assms show ?thesis by (auto simp: register_own_send_def checkpoint_def Let_def split: if_splits)
qed

section \<open>The invariant\<close>

definition inbox_ok :: "inbox \<Rightarrow> bool" where
  "inbox_ok st \<longleftrightarrow> sorted_wrt (<) (map ix_seq (ix_rows st)) \<and> (\<forall>r \<in> set (ix_rows st). 0 < ix_seq r \<and> ix_seq r < ix_next st) \<and>
     unique_keys row_key (ix_rows st) \<and> 0 < ix_next st \<and> (\<forall>c n. checkpoint st c = Some n \<longrightarrow> n < ix_next st)"

text \<open>The invariant of the rows, on the log.\<close>

definition log_ok :: "(nat \<times> inbound \<times> string \<times> string \<times> int) list \<Rightarrow> nat \<Rightarrow> bool" where
  "log_ok l n \<longleftrightarrow> sorted_wrt (<) (map fst l) \<and> (\<forall>e \<in> set l. 0 < fst e \<and> fst e < n) \<and>
     distinct (map (\<lambda>e. (message_route (fst (snd e)), im_messageId (fst (snd e)))) l) \<and> 0 < n"

lemma inbox_ok_log:
  "inbox_ok st \<longleftrightarrow> log_ok (inbox_log st) (ix_next st) \<and> (\<forall>c n. checkpoint st c = Some n \<longrightarrow> n < ix_next st)"
  by (auto simp: inbox_ok_def log_ok_def inbox_log_def frozen_def unique_keys_def row_key_def [abs_def] comp_def)

lemma row_key_log:
  "row_key ` set (ix_rows st) = (\<lambda>e. (message_route (fst (snd e)), im_messageId (fst (snd e)))) ` set (inbox_log st)"
  by (auto simp: inbox_log_def frozen_def row_key_def image_image)

lemma log_ok_snoc:
  "log_ok l n \<Longrightarrow> (message_route m, im_messageId m) \<notin> (\<lambda>e. (message_route (fst (snd e)), im_messageId (fst (snd e)))) ` set l \<Longrightarrow>
   log_ok (l @ [(n, m, x)]) (Suc n)"
  by (fastforce simp: log_ok_def sorted_wrt_append)

lemma newest_less: "inbox_ok st \<Longrightarrow> newest st < ix_next st"
proof -
  assume ok: "inbox_ok st"
  have "foldl max k xs < b" if "k < b" "\<forall>x \<in> set xs. x < b" for k b :: nat and xs
    using that by (induction xs arbitrary: k) auto
  from this [of 0 "ix_next st" "map ix_seq (ix_rows st)"] ok show ?thesis by (simp add: newest_def inbox_ok_def)
qed

lemma next_row_mem: "next_row st n = Some r \<Longrightarrow> r \<in> set (ix_rows st) \<and> n < ix_seq r"
  unfolding next_row_def find_Some_iff by force

lemma handle_ok [inv_intros]:
  assumes "handle_event jb now st ev = Inr st'" "inbox_ok st"
  shows "inbox_ok st'"
proof -
  have next_le: "ix_next st \<le> ix_next st'" and l: "log_ok (inbox_log st') (ix_next st')"
    using handle_log [OF assms(1)] assms(2) log_ok_snoc by (auto simp: inbox_ok_log row_of_None_iff row_key_log)
  have old: "n < ix_next st'" if "checkpoint st c = Some n" for c n
    using assms(2) that next_le by (meson inbox_ok_def less_le_trans)
  have "n < ix_next st'" if c: "checkpoint st' c = Some n" for c n
  proof (cases ev)
    case (Acknowledge c' k d)
    with assms(1) have "acknowledge st c' k d = Inr st'" by simp
    then have "dl_seq d < ix_next st"
      by (cases rule: acknowledge_cases) (use assms(2) next_row_mem [of st k] in \<open>auto simp: inbox_ok_def\<close>)
    with c handle_checkpoint [OF assms(1), of c] next_le Acknowledge old [of c n] show ?thesis
      by (auto split: if_splits)
  qed (use c handle_checkpoint [OF assms(1), of c] next_le newest_less [OF assms(2)] old [of c n] in
      \<open>auto split: if_splits\<close>)
  with l show ?thesis by (simp add: inbox_ok_log)
qed

lemma step_ok [inv_intros]: "inbox_ok st \<Longrightarrow> inbox_ok (step jb st ev)"
  by (cases ev) (auto split: sum.split intro: handle_ok)

lemma run_ok [inv_intros]: "inbox_ok st \<Longrightarrow> inbox_ok (run jb st evs)"
  by (induction evs arbitrary: st) (auto intro: step_ok)

lemma empty_ok [simp]: "inbox_ok EMPTY_INBOX"
  by (simp add: inbox_ok_def EMPTY_INBOX_def checkpoint_def)

section \<open>Lemmas for the properties\<close>

lemma run_log: "\<exists>l. inbox_log (run jb st evs) = inbox_log st @ l"
proof (induction evs arbitrary: st)
  case (Cons ev evs)
  obtain now e where ev: "ev = (now, e)" by (cases ev)
  have "\<exists>l. inbox_log (step jb st ev) = inbox_log st @ l"
    using handle_log [of jb now st e] by (auto simp: ev split: sum.split)
  with Cons [of "step jb st ev"] show ?case by auto
qed simp

definition log_key :: "nat \<times> inbound \<times> string \<times> string \<times> int \<Rightarrow> thread_route \<times> string" where
  "log_key e = (message_route (fst (snd e)), im_messageId (fst (snd e)))"

lemma row_of_log: "map_option frozen (row_of row_key k (ix_rows st)) = find (\<lambda>e. log_key e = k) (inbox_log st)"
proof -
  have "map_option frozen (row_of row_key k rows) = find (\<lambda>e. log_key e = k) (map frozen rows)" for rows
    by (induction rows) (simp_all add: frozen_def log_key_def row_key_def)
  then show ?thesis by (simp add: inbox_log_def)
qed

lemma find_append: "find P (xs @ ys) = (case find P xs of None \<Rightarrow> find P ys | Some x \<Rightarrow> Some x)"
  by (induction xs) auto

lemma row_of_run:
  assumes "row_of row_key k (ix_rows st) = Some r"
  shows "\<exists>q. row_of row_key k (ix_rows (run jb st evs)) = Some q \<and> frozen q = frozen r"
proof -
  obtain l where l: "inbox_log (run jb st evs) = inbox_log st @ l" using run_log by blast
  have "find (\<lambda>e. log_key e = k) (inbox_log st) = Some (frozen r)"
    using row_of_log [of k st] assms by simp
  then have "map_option frozen (row_of row_key k (ix_rows (run jb st evs))) = Some (frozen r)"
    by (simp add: row_of_log l find_append)
  then show ?thesis by auto
qed

text \<open>After an acceptance the row is there.\<close>

lemma accept_row:
  assumes "accept jb now st raw = Inr (st1, a)"
  obtains r m b where "checked_message raw = Inr m" "find_binding st (message_route raw) = Some b" "im_sender raw \<in> set (br_allowed b)"
    "row_of row_key (message_route raw, im_messageId raw) (ix_rows st1) = Some r" "same_content (ix_original r) m"
    "ix_seq r = ac_seq a" "ix_session r = ac_session a" "ix_project r = ac_project a"
    "ac_duplicate a \<longrightarrow> st1 = st"
    "\<not> ac_duplicate a \<longrightarrow> ix_rows st1 = ix_rows st @ [r] \<and> ix_original r = m \<and> ix_seq r = ix_next st \<and>
       ix_session r = br_session b \<and> ix_project r = br_project b"
  using assms
proof (cases rule: accept_cases)
  case (redelivered m b old)
  with checked_message_keys [of raw m] show ?thesis by (intro that [of m b old]) simp_all
next
  case (new m b)
  let ?r = "\<lparr>ix_seq = ix_next st, ix_message = m, ix_original = m, ix_session = br_session b, ix_project = br_project b, ix_received = now\<rparr>"
  have "row_of row_key (message_route m, im_messageId m) (ix_rows st1) = Some ?r"
    using new(4) by (simp add: new(5) row_of_def find_append row_key_def)
  with new checked_message_keys [OF new(1)] show ?thesis
    by (intro that [of m b ?r]) (simp_all add: same_content_def)
qed

fun acknowledged :: "(inbound \<Rightarrow> nat) \<Rightarrow> string \<Rightarrow> inbox \<Rightarrow> (int \<times> event) list \<Rightarrow> delivery list" where
  "acknowledged jb c st [] = []"
| "acknowledged jb c st ((now, ev) # evs) =
     (case (ev, handle_event jb now st ev) of
        (Acknowledge c' n d, Inr st') \<Rightarrow> (if c' = c then [d] else [])
      | _ \<Rightarrow> []) @ acknowledged jb c (step jb st (now, ev)) evs"

definition delivery_of :: "nat \<times> inbound \<times> string \<times> string \<times> int \<Rightarrow> delivery" where
  "delivery_of e = (case e of (seq, m, session, project, t) \<Rightarrow> \<lparr>dl_seq = seq, dl_session = session, dl_project = project\<rparr>)"

text \<open>The next entry of a list in increasing order is the first one of an interval.\<close>

lemma filter_next:
  fixes f :: "'a \<Rightarrow> nat"
  assumes "sorted_wrt (<) (map f l)" "find (\<lambda>x. k < f x) l = Some x" "f x \<le> b"
  shows "filter (\<lambda>y. k < f y \<and> f y \<le> b) l = x # filter (\<lambda>y. f x < f y \<and> f y \<le> b) l"
  using assms
proof (induction l)
  case (Cons y l)
  show ?case
  proof (cases "k < f y")
    case True
    with Cons.prems have "x = y" "\<forall>z \<in> set l. f y < f z" by auto
    then have "filter (\<lambda>z. k < f z \<and> f z \<le> b) l = filter (\<lambda>z. f y < f z \<and> f z \<le> b) l"
      using True by (intro filter_cong) auto
    with True \<open>x = y\<close> Cons.prems(3) show ?thesis by simp
  next
    case False
    with Cons have "filter (\<lambda>z. k < f z \<and> f z \<le> b) l = x # filter (\<lambda>z. f x < f z \<and> f z \<le> b) l" by simp
    moreover have "k < f x" using Cons.prems(2) by (metis (mono_tags) find_Some_iff)
    ultimately show ?thesis using False by simp
  qed
qed simp

lemma next_row_log: "map_option frozen (next_row st n) = find (\<lambda>e. n < fst e) (inbox_log st)"
proof -
  have "map_option frozen (find (\<lambda>r. n < ix_seq r) rows) = find (\<lambda>e. n < fst e) (map frozen rows)" for rows
    by (induction rows) (simp_all add: frozen_def)
  then show ?thesis by (simp add: inbox_log_def next_row_def)
qed

text \<open>One event, for a consumer that has a checkpoint or does not sync.\<close>

lemma handle_cursor:
  assumes "handle_event jb now st ev = Inr st'" "inbox_ok st" "checkpoint st c \<noteq> None \<or> ev \<noteq> Sync c"
  shows "(\<exists>n d e. ev = Acknowledge c n d \<and> find (\<lambda>e. cursor_of st c < fst e) (inbox_log st) = Some e \<and> d = delivery_of e \<and>
      cursor_of st' c = fst e) \<or>
    (\<nexists>n d. ev = Acknowledge c n d) \<and> cursor_of st' c = cursor_of st c \<and> checkpoint st' c = checkpoint st c"
proof (cases "\<exists>n d. ev = Acknowledge c n d")
  case True
  then obtain n d where ev: "ev = Acknowledge c n d" by blast
  with assms(1) have "acknowledge st c n d = Inr st'" by simp
  then show ?thesis
  proof (cases rule: acknowledge_cases)
    case (1 r)
    have "find (\<lambda>e. cursor_of st c < fst e) (inbox_log st) = Some (frozen r)"
      using 1 next_row_log [of st n] by simp
    moreover have "d = delivery_of (frozen r)" "cursor_of st' c = fst (frozen r)"
      using 1 by (simp_all add: delivery_of_def frozen_def cursor_of_def)
    ultimately show ?thesis using ev by blast
  qed
next
  case False
  with handle_checkpoint [OF assms(1), of c] assms(3) have "checkpoint st' c = checkpoint st c"
    by (cases ev) auto
  with False show ?thesis by (simp add: cursor_of_def)
qed

lemma acknowledged_in_order:
  assumes "inbox_ok st" "checkpoint st c \<noteq> None \<or> (\<forall>now. (now, Sync c) \<notin> set evs)"
  shows "cursor_of st c \<le> cursor_of (run jb st evs) c \<and>
    acknowledged jb c st evs = map delivery_of
      (filter (\<lambda>e. cursor_of st c < fst e \<and> fst e \<le> cursor_of (run jb st evs) c) (inbox_log (run jb st evs)))"
  using assms
proof (induction evs arbitrary: st)
  case (Cons x evs)
  obtain now ev where x: "x = (now, ev)" by (cases x)
  show ?case
  proof (cases "handle_event jb now st ev")
    case (Inl err)
    with Cons show ?thesis by (cases ev) (auto simp: x)
  next
    case (Inr st')
    then have st': "step jb st x = st'" by (simp add: x)
    note ok = handle_ok [OF Inr Cons.prems(1)]
    have sync: "checkpoint st c \<noteq> None \<or> ev \<noteq> Sync c" using Cons.prems(2) by (auto simp: x)
    have keep: "checkpoint st' c \<noteq> None \<or> (\<forall>now. (now, Sync c) \<notin> set evs)"
      using Cons.prems(2) handle_checkpoint [OF Inr, of c] by (auto split: event.splits)
    note IH = Cons.IH [OF ok keep]
    let ?fin = "run jb st' evs"
    from handle_cursor [OF Inr Cons.prems(1) sync] show ?thesis
    proof (elim disjE exE conjE)
      fix n d e
      assume ev: "ev = Acknowledge c n d" and e: "find (\<lambda>e. cursor_of st c < fst e) (inbox_log st) = Some e"
        and d: "d = delivery_of e" and cur: "cursor_of st' c = fst e"
      have lt: "cursor_of st c < fst e" using e by (metis (mono_tags, lifting) find_Some_iff)
      obtain l where "inbox_log (run jb st (x # evs)) = inbox_log st @ l" using run_log by blast
      then have "find (\<lambda>e. cursor_of st c < fst e) (inbox_log ?fin) = Some e"
        using e by (simp add: st' find_append)
      moreover have "sorted_wrt (<) (map fst (inbox_log ?fin))"
        using run_ok [OF ok, of jb evs] by (simp add: inbox_ok_log log_ok_def)
      ultimately have "filter (\<lambda>y. cursor_of st c < fst y \<and> fst y \<le> cursor_of ?fin c) (inbox_log ?fin) =
          e # filter (\<lambda>y. fst e < fst y \<and> fst y \<le> cursor_of ?fin c) (inbox_log ?fin)"
        using IH cur by (intro filter_next) auto
      moreover have "acknowledge st c n d = Inr st'" using Inr ev by simp
      ultimately show ?thesis using IH lt cur by (simp add: x ev d)
    next
      assume "\<nexists>n d. ev = Acknowledge c n d" "cursor_of st' c = cursor_of st c"
      then have "acknowledged jb c st (x # evs) = acknowledged jb c st' evs"
        by (auto simp: x Inr split: event.split)
      with IH \<open>cursor_of st' c = cursor_of st c\<close> show ?thesis by (simp add: st')
    qed
  qed
qed simp

text \<open>A transcript that was resolved stays as it is.\<close>

definition resolved :: "inbox \<Rightarrow> nat \<Rightarrow> string \<Rightarrow> attachment \<Rightarrow> bool" where
  "resolved st seq i a \<longleftrightarrow> at_state a \<noteq> Some ''pending'' \<and>
     (\<exists>r. row_of ix_seq seq (ix_rows st) = Some r \<and> find (is_audio i) (im_attachments (ix_message r)) = Some a)"

lemma find_update_first:
  assumes "\<And>x. P x \<Longrightarrow> P (f x)"
  shows "find P (update_first P f xs) = map_option f (find P xs)"
  using assms by (induction xs) auto

lemma find_update_other:
  assumes "\<And>x. P x \<Longrightarrow> \<not> Q x \<and> \<not> Q (f x)"
  shows "find Q (update_first P f xs) = find Q xs"
  using assms by (induction xs) auto

lemma row_of_map_seq:
  "(\<And>r. ix_seq (f r) = ix_seq r) \<Longrightarrow> row_of ix_seq k (map f rows) = map_option f (row_of ix_seq k rows)"
  by (induction rows) auto

lemma transcript_cases:
  assumes "transcript jb now st seq i txt state = Inr st'"
  obtains r a where "row_of ix_seq seq (ix_rows st) = Some r" "find (is_audio i) (im_attachments (ix_message r)) = Some a"
    "at_state a = Some ''pending''" "state \<noteq> ''pending''"
    "ix_rows st' = map (\<lambda>q. if ix_seq q = seq then q\<lparr>ix_message := (ix_message r)\<lparr>im_attachments :=
       update_first (is_audio i) (\<lambda>a. a\<lparr>at_transcript := Some txt, at_state := Some state\<rparr>) (im_attachments (ix_message r))\<rparr>\<rparr> else q) (ix_rows st)"
    "ix_updates st' = ix_updates st @ [\<lparr>up_seq = ix_nextUpdate st, up_inbox = seq, up_attachment = i, up_state = state, up_at = now\<rparr>]"
proof -
  obtain r a where r: "row_of ix_seq seq (ix_rows st) = Some r" "find (is_audio i) (im_attachments (ix_message r)) = Some a"
    using assms by (simp add: transcript_def split: if_splits option.splits)
  show ?thesis by (rule that [OF r]) (use assms in \<open>auto simp: transcript_def r Let_def split: if_splits\<close>)
qed

lemma transcript_resolves:
  assumes "transcript jb now st seq i txt state = Inr st'"
  shows "\<exists>a. resolved st' seq i a \<and> at_transcript a = Some txt \<and> at_state a = Some state"
  using assms
proof (cases rule: transcript_cases)
  case (1 r a)
  have "find (is_audio i) (update_first (is_audio i) (\<lambda>a. a\<lparr>at_transcript := Some txt, at_state := Some state\<rparr>)
      (im_attachments (ix_message r))) = Some (a\<lparr>at_transcript := Some txt, at_state := Some state\<rparr>)"
    using 1(2) by (subst find_update_first) (simp_all add: is_audio_def)
  with 1 show ?thesis
    by (intro exI [of _ "a\<lparr>at_transcript := Some txt, at_state := Some state\<rparr>"])
      (auto simp: resolved_def row_of_map_seq dest: row_of_SomeD)
qed

lemma transcript_keeps:
  assumes "transcript jb now st seq' j txt state = Inr st'" "resolved st seq i a"
  shows "resolved st' seq i a"
  using assms(1)
proof (cases rule: transcript_cases)
  case (1 r b)
  obtain q where q: "row_of ix_seq seq (ix_rows st) = Some q" "find (is_audio i) (im_attachments (ix_message q)) = Some a"
    "at_state a \<noteq> Some ''pending''" using assms(2) by (auto simp: resolved_def)
  show ?thesis
  proof (cases "seq = seq'")
    case True
    with 1 q have "q = r" "i \<noteq> j" by auto
    then have "find (is_audio i) (update_first (is_audio j) (\<lambda>a. a\<lparr>at_transcript := Some txt, at_state := Some state\<rparr>)
        (im_attachments (ix_message r))) = Some a"
      using q(2) by (subst find_update_other) (auto simp: is_audio_def)
    with True 1 q \<open>q = r\<close> show ?thesis by (auto simp: resolved_def row_of_map_seq dest: row_of_SomeD)
  next
    case False
    with 1 q show ?thesis by (auto simp: resolved_def row_of_map_seq dest: row_of_SomeD)
  qed
qed

lemma handle_resolved:
  assumes "handle_event jb now st ev = Inr st'" "resolved st seq i a"
  shows "resolved st' seq i a"
proof (cases ev)
  case (Bind b)
  with assms bind_thread_frame [of st b st'] show ?thesis by (simp add: resolved_def)
next
  case (Unbind r)
  with assms show ?thesis by (auto simp: unbind_thread_def resolved_def split: if_splits)
next
  case (Allow r sender add)
  with assms allow_sender_frame [of st r sender add st'] show ?thesis by (simp add: resolved_def)
next
  case (Accept m)
  with assms(1) obtain c where "accept jb now st m = Inr (st', c)" by (cases "accept jb now st m") auto
  then show ?thesis using assms(2) by (cases rule: accept_cases) (auto simp: resolved_def row_of_def find_append)
next
  case (Transcript k j t state)
  with assms transcript_keeps show ?thesis by simp
next
  case (Acknowledge c n d)
  with assms(1) have "acknowledge st c n d = Inr st'" by simp
  then show ?thesis using assms(2) by (cases rule: acknowledge_cases) (simp add: resolved_def)
next
  case (Sync c)
  with assms show ?thesis by (auto simp: sync_def resolved_def split: if_splits option.splits)
next
  case (OwnSend k)
  with assms show ?thesis by (auto simp: register_own_send_def resolved_def Let_def split: if_splits)
qed

lemma run_resolved: "resolved st seq i a \<Longrightarrow> resolved (run jb st evs) seq i a"
proof (induction evs arbitrary: st)
  case (Cons x evs)
  obtain now ev where x: "x = (now, ev)" by (cases x)
  show ?case
  proof (cases "handle_event jb now st ev")
    case (Inl e)
    with Cons show ?thesis by (simp add: x)
  next
    case (Inr st')
    from Cons.IH [OF handle_resolved [OF Inr Cons.prems]] Inr show ?thesis by (simp add: x)
  qed
qed simp

text \<open>An own send that is registered is recognised only once the table of sent replies exists.\<close>

lemma own_send_unknown_without_ledger:
  "ix_sends st = None \<Longrightarrow> register_own_send now st i = Inr st' \<Longrightarrow> \<not> is_own_send st' i"
  by (auto simp: register_own_send_def is_own_send_def Let_def split: if_splits)

lemma own_send_known:
  assumes "ix_sends st = Some ids" "register_own_send now st i = Inr st'" "row_of fst i (ix_own st) = None" "length i \<le> 256"
  shows "is_own_send st' i"
  using assms
  by (auto simp: register_own_send_def is_own_send_def bounded_def Let_def row_of_None_iff split: if_splits)

text \<open>A stored ack reads back as it was given, except that one that sets nothing reads as none.\<close>

lemma ack_roundtrip:
  "encode_ack a = Inr raw \<Longrightarrow>
   decode_ack raw = (case a of None \<Rightarrow> None | Some k \<Rightarrow> if ak_reaction k = None \<and> ak_delay k = None then None else Some k)"
  by (cases a) (auto simp: encode_ack_def decode_ack_def split: if_splits option.splits)

section \<open>Properties\<close>

text \<open>
  C12: A message is accepted once.  It is accepted only from a sender on the allowlist of the binding of its thread, and
  then one row has its identifier, with the content given; a new row gets the next number and the session and
  project the thread is bound to.  Whatever happens afterwards (the thread is bound to another session, transcripts
  arrive, other messages come in), a message with the same identifier is refused or answered with that same row, its
  session and project, and changes nothing.
\<close>

theorem accepted_once:
  assumes "accept jb now (run jb EMPTY_INBOX before) raw = Inr (st1, a)"
  shows "(\<exists>b. find_binding (run jb EMPTY_INBOX before) (message_route raw) = Some b \<and> im_sender raw \<in> set (br_allowed b) \<and>
       (if ac_duplicate a then st1 = run jb EMPTY_INBOX before
        else ac_seq a = ix_next (run jb EMPTY_INBOX before) \<and> ac_session a = br_session b \<and> ac_project a = br_project b \<and>
          (\<exists>r. ix_rows st1 = ix_rows (run jb EMPTY_INBOX before) @ [r] \<and> checked_message raw = Inr (ix_original r)))) \<and>
    (\<exists>r. filter (\<lambda>r. row_key r = (message_route raw, im_messageId raw)) (ix_rows st1) = [r] \<and> ix_seq r = ac_seq a \<and>
       (\<exists>m. checked_message raw = Inr m \<and> same_content (ix_original r) m)) \<and>
    (message_route again = message_route raw \<and> im_messageId again = im_messageId raw \<and>
     accept jb later (run jb st1 evs) again = Inr (st2, a') \<longrightarrow>
       st2 = run jb st1 evs \<and> a' = \<lparr>ac_seq = ac_seq a, ac_duplicate = True, ac_session = ac_session a, ac_project = ac_project a\<rparr>)"
proof -
  have "st1 = step jb (run jb EMPTY_INBOX before) (now, Accept raw)" using assms by simp
  then have "inbox_ok st1" by (simp only: run_ok step_ok empty_ok)
  then have uniq: "unique_keys row_key (ix_rows st1)" by (simp add: inbox_ok_def)
  obtain r m b where r: "checked_message raw = Inr m" "find_binding (run jb EMPTY_INBOX before) (message_route raw) = Some b"
    "im_sender raw \<in> set (br_allowed b)" "row_of row_key (message_route raw, im_messageId raw) (ix_rows st1) = Some r"
    "same_content (ix_original r) m" "ix_seq r = ac_seq a" "ix_session r = ac_session a" "ix_project r = ac_project a"
    "ac_duplicate a \<longrightarrow> st1 = run jb EMPTY_INBOX before"
    "\<not> ac_duplicate a \<longrightarrow> ix_rows st1 = ix_rows (run jb EMPTY_INBOX before) @ [r] \<and> ix_original r = m \<and>
       ix_seq r = ix_next (run jb EMPTY_INBOX before) \<and> ix_session r = br_session b \<and> ix_project r = br_project b"
    by (rule accept_row [OF assms])
  have one: "filter (\<lambda>r. row_key r = (message_route raw, im_messageId raw)) (ix_rows st1) = [r]"
    by (rule filter_row_of [OF uniq r(4)])
  have "st2 = run jb st1 evs \<and> a' = \<lparr>ac_seq = ac_seq a, ac_duplicate = True, ac_session = ac_session a, ac_project = ac_project a\<rparr>"
    if same: "message_route again = message_route raw" "im_messageId again = im_messageId raw"
      and acc: "accept jb later (run jb st1 evs) again = Inr (st2, a')"
  proof -
    obtain q where q: "row_of row_key (message_route raw, im_messageId raw) (ix_rows (run jb st1 evs)) = Some q" "frozen q = frozen r"
      using row_of_run [OF r(4)] by blast
    from acc show ?thesis
    proof (cases rule: accept_cases)
      case (redelivered m' b' old)
      with checked_message_keys [of again m'] same q have "old = q" by simp
      with redelivered q(2) r(6-8) show ?thesis by (simp add: frozen_def)
    next
      case (new m' b')
      with checked_message_keys [of again m'] same q show ?thesis by simp
    qed
  qed
  with r one show ?thesis by auto
qed

definition ex_route :: thread_route where
  "ex_route = (''whatsapp'', ''a'', ''t'')"

definition ex_binding :: "string \<Rightarrow> binding" where
  "ex_binding session = \<lparr>bd_route = ex_route, bd_session = session, bd_project = ''p'', bd_allowed = [''u''], bd_policy = [],
     bd_model = [], bd_ack = None\<rparr>"

definition ex_message :: "string \<Rightarrow> rat \<Rightarrow> inbound" where
  "ex_message i sent = \<lparr>im_channel = ''whatsapp'', im_account = ''a'', im_thread = ''t'', im_messageId = i, im_sender = ''u'',
     im_senderName = None, im_sentAt = sent, im_text = ''hi'', im_replyTo = None, im_mentions = None, im_attachments = [],
     im_fromMe = None\<rparr>"

definition ex_audio :: attachment where
  "ex_audio = \<lparr>at_id = ''x'', at_kind = ''audio'', at_mime = None, at_ref = None, at_transcript = None, at_state = Some ''pending''\<rparr>"

lemmas inbox_eval = run_def bind_thread_def route_ok_def CHANNELS_def POLICIES_def model_ok_def bounded_def byte_length_def
  is_control_def encode_ack_def put_binding_def find_binding_def accept_def checked_message_def message_route_def
  safe_integer_def unless_empty_def row_key_def same_content_def mentions_key_def EMPTY_INBOX_def

definition ex_before :: "(int \<times> event) list" where
  "ex_before = [(1, Bind (ex_binding ''s1''))]"

lemma ex_accepts:
  "\<exists>st1. accept (\<lambda>m. 100) 2 (run (\<lambda>m. 100) EMPTY_INBOX ex_before) (ex_message ''m1'' 5) =
     Inr (st1, \<lparr>ac_seq = 1, ac_duplicate = False, ac_session = ''s1'', ac_project = ''p''\<rparr>) \<and>
     (\<exists>st2 a. accept (\<lambda>m. 100) 9 (run (\<lambda>m. 100) st1 [(7, Bind (ex_binding ''s2''))]) (ex_message ''m1'' 8) = Inr (st2, a))"
  by (simp add: inbox_eval ex_before_def ex_binding_def ex_message_def ex_route_def)

theorem accepted_once_witness:
  "\<exists>st1 st2. accept (\<lambda>m. 100) 2 (run (\<lambda>m. 100) EMPTY_INBOX ex_before) (ex_message ''m1'' 5) =
     Inr (st1, \<lparr>ac_seq = 1, ac_duplicate = False, ac_session = ''s1'', ac_project = ''p''\<rparr>) \<and>
     accept (\<lambda>m. 100) 9 (run (\<lambda>m. 100) st1 [(7, Bind (ex_binding ''s2''))]) (ex_message ''m1'' 8) =
       Inr (st2, \<lparr>ac_seq = 1, ac_duplicate = True, ac_session = ''s1'', ac_project = ''p''\<rparr>)"
proof -
  obtain st1 st2 a where st1: "accept (\<lambda>m. 100) 2 (run (\<lambda>m. 100) EMPTY_INBOX ex_before) (ex_message ''m1'' 5) =
     Inr (st1, \<lparr>ac_seq = 1, ac_duplicate = False, ac_session = ''s1'', ac_project = ''p''\<rparr>)"
    and st2: "accept (\<lambda>m. 100) 9 (run (\<lambda>m. 100) st1 [(7, Bind (ex_binding ''s2''))]) (ex_message ''m1'' 8) = Inr (st2, a)"
    using ex_accepts by blast
  from accepted_once [OF st1, of "ex_message ''m1'' 8" 9 "[(7, Bind (ex_binding ''s2''))]" st2 a] st1 st2
  show ?thesis by (simp add: ex_message_def message_route_def)
qed

text \<open>
  C13: No message is lost, skipped or delivered out of order.  Once a consumer has a checkpoint (or if it never asks for
  one), what it acknowledges over any run is exactly what was accepted after its cursor up to where its cursor then is, in
  the order it was accepted, each with the session and project it was accepted for.
\<close>

theorem deliveries_in_order:
  assumes "checkpoint (run jb EMPTY_INBOX before) c \<noteq> None \<or> (\<forall>now. (now, Sync c) \<notin> set evs)"
  shows "cursor_of (run jb EMPTY_INBOX before) c \<le> cursor_of (run jb EMPTY_INBOX (before @ evs)) c \<and>
    acknowledged jb c (run jb EMPTY_INBOX before) evs =
      map (\<lambda>r. \<lparr>dl_seq = ix_seq r, dl_session = ix_session r, dl_project = ix_project r\<rparr>)
        (filter (\<lambda>r. cursor_of (run jb EMPTY_INBOX before) c < ix_seq r \<and> ix_seq r \<le> cursor_of (run jb EMPTY_INBOX (before @ evs)) c)
          (ix_rows (run jb EMPTY_INBOX (before @ evs))))"
proof -
  have app: "run jb EMPTY_INBOX (before @ evs) = run jb (run jb EMPTY_INBOX before) evs" by (simp add: run_def)
  have "map delivery_of (filter (\<lambda>e. k < fst e \<and> fst e \<le> n) (map frozen rows)) =
      map (\<lambda>r. \<lparr>dl_seq = ix_seq r, dl_session = ix_session r, dl_project = ix_project r\<rparr>) (filter (\<lambda>r. k < ix_seq r \<and> ix_seq r \<le> n) rows)"
    for k n rows by (induction rows) (auto simp: frozen_def delivery_of_def)
  with acknowledged_in_order [OF run_ok [OF empty_ok] assms] show ?thesis by (simp add: app inbox_log_def)
qed

theorem deliveries_in_order_witness:
  "acknowledged (\<lambda>m. 100) ''c'' (run (\<lambda>m. 100) EMPTY_INBOX (ex_before @ [(1, Sync ''c'')]))
     [(2, Accept (ex_message ''m1'' 5)), (3, Accept (ex_message ''m2'' 5)),
      (4, Acknowledge ''c'' 0 \<lparr>dl_seq = 2, dl_session = ''s1'', dl_project = ''p''\<rparr>),
      (5, Acknowledge ''c'' 0 \<lparr>dl_seq = 1, dl_session = ''s1'', dl_project = ''p''\<rparr>)] =
   [\<lparr>dl_seq = 1, dl_session = ''s1'', dl_project = ''p''\<rparr>]"
proof -
  have "checkpoint (run (\<lambda>m. 100) EMPTY_INBOX (ex_before @ [(1, Sync ''c'')])) ''c'' = Some 0"
    by (simp add: inbox_eval ex_before_def ex_binding_def ex_message_def ex_route_def sync_def checkpoint_def put_checkpoint_def newest_def)
  then show ?thesis
    by (subst deliveries_in_order)
      (simp_all add: inbox_eval ex_before_def ex_binding_def ex_message_def ex_route_def sync_def checkpoint_def put_checkpoint_def
        newest_def acknowledge_def cursor_of_def next_row_def)
qed
text \<open>
  What the operator binds is what is read back.  A binding that is taken is returned for its thread as it was given
  (an ack that sets nothing is none), no other thread's binding changes, and unbinding the thread leaves it with none.
\<close>

theorem binding_roundtrip:
  assumes "bind_thread st b = Inr st'"
  shows "binding_for st' (bd_route b) =
      Inr (Some (b\<lparr>bd_ack := (if bd_ack b = Some \<lparr>ak_reaction = None, ak_delay = None\<rparr> then None else bd_ack b)\<rparr>)) \<and>
    (r \<noteq> bd_route b \<longrightarrow> binding_for st' r = binding_for st r) \<and>
    (\<exists>st2. unbind_thread st' (bd_route b) = Inr (st2, True) \<and> binding_for st2 (bd_route b) = Inr None \<and>
       (r \<noteq> bd_route b \<longrightarrow> binding_for st2 r = binding_for st r))"
proof -
  obtain ack where ack: "encode_ack (bd_ack b) = Inr ack" and route: "route_ok (bd_route b)"
    and st': "st' = put_binding st \<lparr>br_route = bd_route b, br_session = bd_session b, br_project = bd_project b,
      br_allowed = bd_allowed b, br_policy = bd_policy b, br_model = bd_model b, br_ack = ack\<rparr>"
    using assms by (auto simp: bind_thread_def split: if_splits sum.splits)
  have "decode_ack ack = (if bd_ack b = Some \<lparr>ak_reaction = None, ak_delay = None\<rparr> then None else bd_ack b)"
    using ack_roundtrip [OF ack] by (auto split: option.splits)
  then show ?thesis
    using route by (simp add: st' binding_for_def unbind_thread_def bindings.find_put bindings.find_del binding_of_def)
qed

theorem binding_roundtrip_witness:
  "binding_for (run (\<lambda>m. 100) EMPTY_INBOX ex_before) ex_route = Inr (Some (ex_binding ''s1''))"
proof -
  have b: "bind_thread EMPTY_INBOX (ex_binding ''s1'') = Inr (run (\<lambda>m. 100) EMPTY_INBOX ex_before)"
    by (simp add: inbox_eval ex_before_def ex_binding_def ex_message_def ex_route_def)
  from binding_roundtrip [OF b] show ?thesis by (simp add: ex_binding_def)
qed

text \<open>
  A transcript is written once.  An accepted transcript is the text of its audio attachment and adds one update; from
  then on, whatever happens, the attachment keeps that text and state, and another transcript for it is refused.
\<close>

theorem transcript_once:
  assumes "transcript jb now st seq i txt state = Inr st1"
  shows "(\<exists>a r. row_of ix_seq seq (ix_rows (run jb st1 evs)) = Some r \<and> find (is_audio i) (im_attachments (ix_message r)) = Some a \<and>
       at_transcript a = Some txt \<and> at_state a = Some state) \<and>
    (\<exists>u. ix_updates st1 = ix_updates st @ [u] \<and> up_inbox u = seq \<and> up_attachment u = i \<and> up_state u = state) \<and>
    transcript jb later (run jb st1 evs) seq i txt' state' \<in> {Inl AlreadyResolved, Inl InvalidTranscript}"
proof -
  obtain a where a: "resolved st1 seq i a" "at_transcript a = Some txt" "at_state a = Some state"
    using transcript_resolves [OF assms] by blast
  have "\<exists>u. ix_updates st1 = ix_updates st @ [u] \<and> up_inbox u = seq \<and> up_attachment u = i \<and> up_state u = state"
    using assms by (cases rule: transcript_cases) simp
  with run_resolved [OF a(1), of jb evs] a(2,3) show ?thesis by (auto simp: resolved_def transcript_def)
qed

theorem transcript_once_witness:
  "transcript (\<lambda>m. 100) 9 (run (\<lambda>m. 100) (run (\<lambda>m. 100) EMPTY_INBOX (ex_before @
       [(2, Accept ((ex_message ''m1'' 5)\<lparr>im_attachments := [ex_audio]\<rparr>)), (3, Transcript 1 ''x'' ''hello'' ''complete'')]))
       [(4, Unbind ex_route)]) 1 ''x'' ''bye'' ''failed'' \<in> {Inl AlreadyResolved, Inl InvalidTranscript}"
proof -
  let ?st = "run (\<lambda>m. 100) EMPTY_INBOX (ex_before @ [(2, Accept ((ex_message ''m1'' 5)\<lparr>im_attachments := [ex_audio]\<rparr>))])"
  have "\<exists>st1. transcript (\<lambda>m. 100) 3 ?st 1 ''x'' ''hello'' ''complete'' = Inr st1 \<and>
      run (\<lambda>m. 100) EMPTY_INBOX (ex_before @ [(2, Accept ((ex_message ''m1'' 5)\<lparr>im_attachments := [ex_audio]\<rparr>)),
        (3, Transcript 1 ''x'' ''hello'' ''complete'')]) = st1"
    by (simp add: inbox_eval ex_before_def ex_binding_def ex_message_def ex_route_def ex_audio_def transcript_def is_audio_def)
  then obtain st1 where st1: "transcript (\<lambda>m. 100) 3 ?st 1 ''x'' ''hello'' ''complete'' = Inr st1"
    "run (\<lambda>m. 100) EMPTY_INBOX (ex_before @ [(2, Accept ((ex_message ''m1'' 5)\<lparr>im_attachments := [ex_audio]\<rparr>)),
        (3, Transcript 1 ''x'' ''hello'' ''complete'')]) = st1" by blast
  from transcript_once [OF st1(1)] show ?thesis unfolding st1(2) by blast
qed

end
