(* ===== verification/TurnFailure.thy ===== *)
theory TurnFailure
  imports Regex
begin

text \<open>
  What a failed turn tells the user (src/turnFailure.ts): the operator's diagnostics are filtered out of the error
  text, the surviving cause and the exit status are mapped to one of a fixed list of sentences, and the note opens
  with words it can be recognised by.  An absent error or exit status is the empty text.
\<close>

section \<open>Diagnostics\<close>

text \<open>What follows an opening, and whether a word ends there.\<close>

definition after_opening :: "string \<Rightarrow> string \<Rightarrow> string option" where
  "after_opening p s = (if take (length p) s = p then Some (drop (length p) s) else None)"

definition word_ends :: "string \<Rightarrow> bool" where
  "word_ends s = (case s of [] \<Rightarrow> True | c # _ \<Rightarrow> \<not> word_char c)"

text \<open>\<open>TURN_DIAGNOSTIC\<close>: the blanks before an opening are all the blanks there are, for no opening starts with one.\<close>

definition turn_diagnostic :: "string \<Rightarrow> bool" where
  "turn_diagnostic line =
     ((case after_opening ''[turn]'' (trim_start line) of
         Some (c # _) \<Rightarrow> js_ws c
       | _ \<Rightarrow> False) \<or>
      (case after_opening ''WARNING:'' (trim_start line) of
         None \<Rightarrow> False
       | Some rest \<Rightarrow>
           (case after_opening ''the resumed session already held'' (trim_start rest) of
              None \<Rightarrow> False
            | Some rest' \<Rightarrow> word_ends rest')))"

definition is_diagnostic_line :: "string \<Rightarrow> bool" where
  "is_diagnostic_line line =
     (turn_diagnostic line \<or>
      list_ex (\<lambda>opening. case after_opening opening (trim_start line) of None \<Rightarrow> False | Some rest \<Rightarrow> word_ends rest)
        [''copy of this task'', ''copies of this task'', ''collapsed into one''])"

definition strip_turn_diagnostics :: "string \<Rightarrow> string" where
  "strip_turn_diagnostics txt =
     js_trim (join nl (filter (\<lambda>line. \<not> is_diagnostic_line line) (split_char (CHR 0x0A) txt)))"

definition turn_failure_cause :: "string \<Rightarrow> string" where
  "turn_failure_cause err = strip_turn_diagnostics err"

section \<open>Causes\<close>

datatype lang = Es | En

text \<open>A sentence in both languages; the accented letters are written by their codes.\<close>

type_synonym sentence = "string \<times> string"

fun in_lang :: "lang \<Rightarrow> sentence \<Rightarrow> string" where
  "in_lang Es s = fst s"
| "in_lang En s = snd s"

definition TIME_LIMIT :: sentence where
  "TIME_LIMIT = (''el turno super'' @ [CHR 0xF3] @ '' el tiempo l'' @ [CHR 0xED] @ ''mite'', ''the turn ran out of time'')"

definition STEP_LIMIT :: sentence where
  "STEP_LIMIT = (''el turno agot'' @ [CHR 0xF3] @ '' sus l'' @ [CHR 0xED] @ ''mites de pasos o coste'',
     ''the turn used up its step or cost budget'')"

definition whole_word :: "re \<Rightarrow> re" where
  "whole_word r = re_seq [Boundary, r, Boundary]"

definition CAUSES :: "(re \<times> sentence) list" where
  "CAUSES =
    [(lit_i ''TimeExceeded'', TIME_LIMIT),
     (lit_i ''LimitsExceeded'', STEP_LIMIT),
     (re_any [lit_i ''ProviderQuotaError'', whole_word (lit_i ''429''), lit_i ''quota'',
        re_seq [lit_i ''rate'', re_opt dot, lit_i ''limit'']],
      (''el proveedor del modelo no tiene cuota disponible'', ''the model provider is out of quota'')),
     (re_any [lit_i ''ProviderAbortError'', lit_i ''ProviderError'',
        whole_word (re_any (map lit_i [''401'', ''403'', ''404'', ''500'', ''502'', ''503'', ''504''])),
        lit_i ''provider'', re_seq [lit_i ''api'', re_opt dot, lit_i ''key''], lit_i ''unauthorized'',
        lit_i ''connection refused''],
      (''fall'' @ [CHR 0xF3] @ '' el proveedor del modelo'', ''the model provider failed'')),
     (re_any [lit_i ''ContextOverflow'', re_seq [lit_i ''context'', re_opt dot, lit_i ''length''],
        lit_i ''too many tokens''],
      (''la conversaci'' @ [CHR 0xF3] @ ''n creci'' @ [CHR 0xF3] @ '' demasiado para el modelo'',
       ''the conversation outgrew the model'' @ [CHR 0x27] @ ''s context'')),
     (lit_i ''Cancelled'', (''el turno se cancel'' @ [CHR 0xF3], ''the turn was cancelled'')),
     (lit_i ''KeyboardInterrupt'', (''el turno se interrumpi'' @ [CHR 0xF3], ''the turn was interrupted'')),
     (lit_i ''compaction summary failed'',
      (''no se pudo resumir la conversaci'' @ [CHR 0xF3] @ ''n'', ''the conversation could not be compacted''))]"

text \<open>The statuses that end a run without an answer, as they are written without regard to case.\<close>

definition ENDED_WITHOUT_ANSWER :: "(string \<times> sentence) list" where
  "ENDED_WITHOUT_ANSWER = [(''timeexceeded'', TIME_LIMIT), (''limitsexceeded'', STEP_LIMIT)]"

definition describe_turn_failure :: "string \<Rightarrow> string \<Rightarrow> lang \<Rightarrow> string" where
  "describe_turn_failure err exit_status l =
     (let status = js_trim exit_status in
      case map_of ENDED_WITHOUT_ANSWER (js_lower status) of
        Some s \<Rightarrow> in_lang l s
      | None \<Rightarrow>
          (let cause = turn_failure_cause err in
           case find (\<lambda>(r, s). re_test r status \<or> (cause \<noteq> [] \<and> re_test r cause)) CAUSES of
             Some (r, s) \<Rightarrow> in_lang l s
           | None \<Rightarrow> []))"

section \<open>The language of the thread\<close>

definition ES_STRONG :: re where
  "ES_STRONG = Cls (\<lambda>c. c \<in> {CHR 0xBF, CHR 0xA1, CHR 0xF1})"

definition ES_ACCENTS :: "char set" where
  "ES_ACCENTS = {CHR 0xE1, CHR 0xE9, CHR 0xED, CHR 0xF3, CHR 0xFA, CHR 0xFC}"

definition ES_WEAK :: re where
  "ES_WEAK = Alt (Cls (\<lambda>c. char_lower c \<in> ES_ACCENTS))
     (whole_word (re_any (map lit_i [''el'', ''la'', ''los'', ''las'', ''un'', ''una'', ''de'', ''del'', ''que'', ''para'',
        ''con'', ''por'', ''como'', ''pero'', ''m'' @ [CHR 0xE1] @ ''s'', ''est'' @ [CHR 0xE1],
        ''est'' @ [CHR 0xE1] @ ''n'', ''hay'', ''este'', ''esta'', ''esto'', ''mis'', ''tus'', ''su''])))"

definition EN_MARK :: re where
  "EN_MARK = whole_word (re_any (map lit_i [''the'', ''and'', ''please'', ''can'', ''could'', ''would'', ''you'', ''your'',
     ''yours'', ''what'', ''when'', ''where'', ''why'', ''how'', ''check'', ''fix'', ''help'', ''thanks'', ''hello'',
     ''there'', ''this'', ''that'', ''with'', ''for'', ''from'', ''need'', ''want'', ''should'', ''are'', ''does'',
     ''done'', ''error'', ''failed'', ''send'', ''show'', ''tell'']))"

definition reply_language :: "string \<Rightarrow> string list \<Rightarrow> lang" where
  "reply_language txt context =
     (let haystack = join nl (txt # context) in
      if re_test ES_STRONG haystack then Es
      else if length (re_all EN_MARK haystack) \<le> length (re_all ES_WEAK haystack) then Es else En)"

section \<open>The note\<close>

definition NOTE_OPENERS :: sentence where
  "NOTE_OPENERS = (''(no he podido completar esta tarea:'', ''(I could not complete this task:'')"

definition is_turn_failure_note :: "string \<Rightarrow> bool" where
  "is_turn_failure_note txt =
     (after_opening (fst NOTE_OPENERS) (trim_start txt) \<noteq> None \<or> after_opening (snd NOTE_OPENERS) (trim_start txt) \<noteq> None)"

definition turn_failure_note :: "string \<Rightarrow> string \<Rightarrow> lang \<Rightarrow> string" where
  "turn_failure_note err exit_status l =
     (let reason = describe_turn_failure err exit_status l; opener = in_lang l NOTE_OPENERS in
      if reason \<noteq> [] then opener @ '' '' @ reason @ '')'' else butlast opener @ '')'')"

section \<open>Lemmas\<close>

lemma after_opening_append [simp]: "after_opening p (p @ s) = Some s"
  by (simp add: after_opening_def)

definition sentences :: "sentence list" where
  "sentences = map snd CAUSES"

lemma ended_are_sentences: "snd ` set ENDED_WITHOUT_ANSWER \<subseteq> set sentences"
  by (simp add: sentences_def CAUSES_def ENDED_WITHOUT_ANSWER_def)

lemma describe_cases:
  "describe_turn_failure err st l = [] \<or> (\<exists>s \<in> set sentences. describe_turn_failure err st l = in_lang l s)"
proof (cases "map_of ENDED_WITHOUT_ANSWER (js_lower (js_trim st))")
  case (Some s)
  then have "s \<in> set sentences" using ended_are_sentences map_of_SomeD by fastforce
  with Some show ?thesis by (auto simp: describe_turn_failure_def)
next
  case None
  let ?P = "\<lambda>(r, s :: sentence). re_test r (js_trim st) \<or> (turn_failure_cause err \<noteq> [] \<and> re_test r (turn_failure_cause err))"
  show ?thesis
  proof (cases "find ?P CAUSES")
    case (Some p)
    then have "p \<in> set CAUSES" by (metis find_Some_iff nth_mem)
    then have "snd p \<in> set sentences" by (simp add: sentences_def)
    with Some None show ?thesis by (auto simp: describe_turn_failure_def split: prod.splits)
  qed (simp add: describe_turn_failure_def None)
qed

lemma opener_starts [simp]: "trim_start (in_lang l NOTE_OPENERS @ s) = in_lang l NOTE_OPENERS @ s"
  by (cases l) (simp_all add: trim_start_def NOTE_OPENERS_def js_ws_def)

lemma generic_note_starts [simp]: "trim_start (butlast (in_lang l NOTE_OPENERS) @ s) = butlast (in_lang l NOTE_OPENERS) @ s"
  by (cases l) (simp_all add: trim_start_def NOTE_OPENERS_def js_ws_def)

text \<open>The note of a cause that is not mapped closes where the opener has its colon.\<close>

lemma generic_note_unrecognised: "\<not> is_turn_failure_note (butlast (in_lang l NOTE_OPENERS) @ '')'')"
  unfolding is_turn_failure_note_def generic_note_starts
  by (cases l) (simp_all add: NOTE_OPENERS_def after_opening_def)

lemma mapped_note_recognised: "is_turn_failure_note (in_lang l NOTE_OPENERS @ s)"
  unfolding is_turn_failure_note_def opener_starts
  by (cases l) (simp_all only: in_lang.simps after_opening_append, simp_all)

section \<open>Properties\<close>

text \<open>
  The note never carries a line of the log: it is the opener with one of the eight mapped sentences of its language,
  or the generic note.
\<close>

theorem note_is_mapped:
  "turn_failure_note err st l \<in>
     insert (butlast (in_lang l NOTE_OPENERS) @ '')'')
       ((\<lambda>s. in_lang l NOTE_OPENERS @ '' '' @ in_lang l s @ '')'') ` set sentences)"
  using describe_cases [of err st l] by (auto simp: turn_failure_note_def Let_def)

text \<open>
  A failure note is recognised as one exactly when its cause was mapped: the generic note of an unknown cause, which
  is the same text for every turn, passes for a real reply.
\<close>

theorem note_recognised_iff_mapped:
  "is_turn_failure_note (turn_failure_note err st l) \<longleftrightarrow> describe_turn_failure err st l \<noteq> []"
proof (cases "describe_turn_failure err st l = []")
  case True
  then show ?thesis using generic_note_unrecognised [of l] by (simp add: turn_failure_note_def)
next
  case False
  then show ?thesis by (simp add: turn_failure_note_def mapped_note_recognised)
qed

end
