(* ===== verification/Consumer.thy ===== *)
theory Consumer
  imports Inbox TurnFailure
begin

text \<open>
  The channel consumer (src/channels/consumer.ts) with its send ledger (src/channels/evoSend.ts): one pass takes the next
  accepted message from the inbox, runs an agent turn, records the reply, sends it and acknowledges the message.  What
  the outside answers during a pass (the provider's history, the agent's attempts, the send, a stop) is a record given to
  the pass; what the pass does is a list of effects, so that a crash is a prefix of it.  The bridges that edit a reply
  and the chat commands are options of the consumer, as in the code.
\<close>

section \<open>The send ledger\<close>

datatype send_state = Sending | Sent | Uncertain

record send_row =
  sd_seq :: nat
  sd_state :: send_state
  sd_reply :: string
  sd_quoted :: "string option"
  sd_replyId :: "string option"
  sd_attempts :: nat
  sd_at :: int

type_synonym ledger = "send_row list"

definition send_get :: "ledger \<Rightarrow> nat \<Rightarrow> send_row option" where
  "send_get l seq = row_of sd_seq seq l"

definition send_begin :: "int \<Rightarrow> ledger \<Rightarrow> nat \<Rightarrow> string \<Rightarrow> string option \<Rightarrow> ledger" where
  "send_begin now l seq reply quoted =
     upsert sd_seq
       (case send_get l seq of
          None \<Rightarrow> \<lparr>sd_seq = seq, sd_state = Sending, sd_reply = reply, sd_quoted = quoted, sd_replyId = None,
            sd_attempts = 1, sd_at = now\<rparr>
        | Some old \<Rightarrow> old\<lparr>sd_state := Sending, sd_attempts := sd_attempts old + 1, sd_at := now\<rparr>) l"

definition mark_sent :: "int \<Rightarrow> ledger \<Rightarrow> nat \<Rightarrow> string option \<Rightarrow> ledger" where
  "mark_sent now l seq reply_id =
     map (\<lambda>r. if sd_seq r = seq then r\<lparr>sd_state := Sent, sd_replyId := reply_id, sd_at := now\<rparr> else r) l"

definition mark_uncertain :: "int \<Rightarrow> ledger \<Rightarrow> nat \<Rightarrow> ledger" where
  "mark_uncertain now l seq =
     map (\<lambda>r. if sd_seq r = seq then r\<lparr>sd_state := Uncertain, sd_attempts := sd_attempts r + 1, sd_at := now\<rparr> else r) l"

section \<open>The sender\<close>

text \<open>\<open>key.id\<close> of the answer's JSON, when it is there and not empty, and the error text of the call.\<close>

record http_answer =
  ha_status :: nat
  ha_id :: "string option"
  ha_error :: string

datatype send_result = SentAs string | SendUncertain nat string bool

definition send_result_of :: "http_answer \<Rightarrow> send_result" where
  "send_result_of r =
     (case ha_id r of
        Some i \<Rightarrow> (if ha_status r = 201 then SentAs i
                   else SendUncertain (ha_status r) (ha_error r) (400 \<le> ha_status r \<and> ha_status r < 500))
      | None \<Rightarrow> SendUncertain (ha_status r) (ha_error r) (400 \<le> ha_status r \<and> ha_status r < 500))"

record outgoing =
  og_id :: string
  og_text :: string
  og_quoted :: "string option"
  og_ts :: "rat option"

section \<open>Errors\<close>

datatype consumer_error =
    NoSender string
  | CannotVerify string
  | WindowSaturated
  | EmptyWindow
  | MediaFailed string
  | SendFailed nat string
  | InboxFailed inbox_error

section \<open>Evidence of a delivered reply\<close>

definition RECENT_MATCH_WINDOW_S :: rat where
  "RECENT_MATCH_WINDOW_S = 15 * 60"

definition to_seconds :: "rat \<Rightarrow> rat" where
  "to_seconds ts = (if 1000000000000 < ts then ts / 1000 else ts)"

definition recent_text :: "int \<Rightarrow> outgoing \<Rightarrow> bool" where
  "recent_text now m =
     (case og_ts m of None \<Rightarrow> False | Some ts \<Rightarrow> of_int now / 1000 - to_seconds ts < RECENT_MATCH_WINDOW_S)"

text \<open>The test of one message of the history; an empty quoted id counts as none.\<close>

definition is_evidence :: "int \<Rightarrow> string option \<Rightarrow> string \<Rightarrow> outgoing \<Rightarrow> bool" where
  "is_evidence now quoted reply m =
     (let by_text = (\<not> is_turn_failure_note reply \<and> og_text m = reply \<and> recent_text now m) in
      case quoted of
        None \<Rightarrow> by_text
      | Some q \<Rightarrow> (if q = [] then by_text else og_quoted m = Some q \<or> (og_quoted m = None \<and> by_text)))"

text \<open>The first message that passes decides, with its id or with none when its id is empty.\<close>

definition find_delivered_reply ::
    "int \<Rightarrow> nat \<Rightarrow> string + outgoing list \<Rightarrow> string option \<Rightarrow> string \<Rightarrow> consumer_error + string option" where
  "find_delivered_reply now limit history quoted reply =
     (case history of
        Inl e \<Rightarrow> Inl (CannotVerify e)
      | Inr recent \<Rightarrow>
          (if limit \<le> length recent then Inl WindowSaturated
           else if recent = [] then Inl EmptyWindow
           else (case find (is_evidence now quoted reply) recent of
               None \<Rightarrow> Inr None
             | Some m \<Rightarrow> Inr (if og_id m = [] then None else Some (og_id m)))))"

section \<open>The turn\<close>

text \<open>One attempt: what the agent's run reported, or the text of what it threw.\<close>

datatype attempt = Ran int string string string string | Threw string

text \<open>Whether a stop had arrived at the \<open>k\<close>-th time the signal is read.\<close>

definition aborted_at :: "nat option \<Rightarrow> nat \<Rightarrow> bool" where
  "aborted_at stop k = (case stop of None \<Rightarrow> False | Some t \<Rightarrow> t \<le> k)"

datatype turn_outcome = Replied string | Stopped | GaveUp string string string

text \<open>
  The attempts from the \<open>i\<close>-th on, \<open>n\<close> of them left, with the last error, the first error and the first exit status so far:
  the runs that were started and how the turn ended.  An empty text is an absent field.
\<close>

primrec run_attempts ::
    "nat option \<Rightarrow> (nat \<Rightarrow> attempt) \<Rightarrow> nat \<Rightarrow> nat \<Rightarrow> string \<Rightarrow> string \<Rightarrow> string \<Rightarrow> nat \<times> turn_outcome" where
  "run_attempts stop f 0 i last_error first_error first_status = (0, GaveUp last_error first_error first_status)"
| "run_attempts stop f (Suc n) i last_error first_error first_status =
     (if aborted_at stop (2 * i) then (0, Stopped)
      else apfst Suc (case f i of
          Ran code subtype result err status \<Rightarrow>
            (if code = 0 \<and> subtype = ''success'' \<and> js_trim result \<noteq> [] then (0, Replied (js_trim result))
             else if aborted_at stop (2 * i + 1) then (0, Stopped)
             else (let cause = turn_failure_cause err;
                       e = (if cause \<noteq> [] then cause else if status \<noteq> [] then status else ''exit '' @ show_int code)
                   in run_attempts stop f n (Suc i) e
                        (if first_error = [] \<and> err \<noteq> [] then cause else first_error)
                        (if first_status = [] then status else first_status)))
        | Threw e \<Rightarrow>
            (if aborted_at stop (2 * i + 1) then (0, Stopped)
             else run_attempts stop f n (Suc i) e (if first_error = [] then e else first_error) first_status)))"

section \<open>The options of a consumer\<close>

record consumer_config =
  cf_consumer :: string
  cf_sender :: string
  cf_senderFor :: "(string \<Rightarrow> string option) option"
  cf_jids :: "string \<Rightarrow> string option"
  cf_json_bytes :: "inbound \<Rightarrow> nat"
  cf_mirror :: bool
  cf_commands :: "(inbox_row \<Rightarrow> bool) list"
  cf_queue :: "inbox_row \<Rightarrow> string \<Rightarrow> string \<times> bool"
  cf_group :: "inbox_row \<Rightarrow> string \<Rightarrow> string \<times> bool"
  cf_images :: "inbox_row \<Rightarrow> string \<Rightarrow> string \<times> string list"
  cf_voices :: "inbox_row \<Rightarrow> string \<Rightarrow> string \<times> string list"
  cf_media :: bool
  cf_late :: bool
  cf_turn_attempts :: nat

text \<open>What the outside answers in one pass.\<close>

record answers =
  an_now :: int
  an_own :: "string + outgoing list"
  an_check1 :: "string + outgoing list"
  an_check2 :: "string + outgoing list"
  an_media :: "string + (string \<times> string \<times> string) list"
  an_attempts :: "nat \<Rightarrow> attempt"
  an_stop :: "nat option"
  an_send :: http_answer
  an_landed :: "string option"

definition sender_for_account :: "consumer_config \<Rightarrow> string \<Rightarrow> consumer_error + string" where
  "sender_for_account cf account =
     (case cf_senderFor cf of
        None \<Rightarrow> Inr (cf_sender cf)
      | Some f \<Rightarrow> (case f account of Some s \<Rightarrow> Inr s | None \<Rightarrow> Inl (NoSender account)))"

section \<open>The group mention gate\<close>

text \<open>\<open>s.replace(/:.*/, "")\<close>.\<close>

definition drop_device :: "string \<Rightarrow> string" where
  "drop_device s = takeWhile (\<lambda>c. c \<noteq> CHR '':'') s @
     dropWhile (\<lambda>c. c \<noteq> CHR 0x0A \<and> c \<noteq> CHR 0x0D) (dropWhile (\<lambda>c. c \<noteq> CHR '':'') s)"

definition jid_number :: "string \<Rightarrow> string" where
  "jid_number s = takeWhile (\<lambda>c. c \<noteq> CHR ''@'') s"

definition mentions_account :: "string list option \<Rightarrow> string option \<Rightarrow> bool" where
  "mentions_account mentions jids =
     (case (mentions, jids) of
        (Some ms, Some js) \<Rightarrow>
          (let forms = filter (\<lambda>f. f \<noteq> []) (map js_trim (split_char (CHR '','') js)) in
           list_ex (\<lambda>m. let candidate = js_lower (drop_device m) in
             list_ex (\<lambda>form. let needle = js_lower (drop_device form) in
               needle = candidate \<or> jid_number needle = jid_number candidate) forms) ms)
      | _ \<Rightarrow> False)"

definition is_group :: "string \<Rightarrow> bool" where
  "is_group thread = (rev (take 5 (rev thread)) = ''@g.us'')"

definition gated :: "consumer_config \<Rightarrow> binding option \<Rightarrow> inbox_row \<Rightarrow> bool" where
  "gated cf b row =
     ((case b of None \<Rightarrow> True | Some x \<Rightarrow> bd_policy x \<noteq> ''all'') \<and>
      \<not> mentions_account (im_mentions (ix_message row)) (cf_jids cf (im_account (ix_original row))))"

section \<open>Effects\<close>

record post =
  po_seq :: nat
  po_sender :: string
  po_thread :: string
  po_text :: string
  po_quoted :: string
  po_participant :: "string option"

text \<open>
  What a pass does, in order.  \<open>Post\<close> carries the id under which the text landed in the chat, if it landed: the
  consumer does not see it.
\<close>

datatype effect =
    Mirror nat
  | Ack nat delivery
  | After nat
  | Transcribed nat string string string
  | Turn nat
  | MarkLate nat string
  | Begin nat string string
  | Post post "string option"
  | MarkSent nat string
  | MarkUncertain nat
  | Attach nat string string string

record world =
  wd_inbox :: inbox
  wd_ledger :: ledger
  wd_late :: "(nat \<times> string) list"
  wd_trace :: "effect list"

text \<open>The ledger is a table of the inbox's file, which looks up replies in it.\<close>

definition with_ledger :: "ledger \<Rightarrow> world \<Rightarrow> world" where
  "with_ledger l w = w\<lparr>wd_ledger := l, wd_inbox := (wd_inbox w)\<lparr>ix_sends := Some (List.map_filter sd_replyId l)\<rparr>\<rparr>"

definition transcribe :: "(inbound \<Rightarrow> nat) \<Rightarrow> int \<Rightarrow> nat \<Rightarrow> string \<times> string \<times> string \<Rightarrow> inbox \<Rightarrow> inbox" where
  "transcribe jb now seq t ib =
     (case t of (i, txt, state) \<Rightarrow> (case transcript jb now ib seq i txt state of Inl _ \<Rightarrow> ib | Inr ib' \<Rightarrow> ib'))"

fun apply_effect :: "consumer_config \<Rightarrow> int \<Rightarrow> world \<Rightarrow> effect \<Rightarrow> inbox_error + world" where
  "apply_effect cf now w (Ack cursor d) =
     map_sum id (\<lambda>ib. w\<lparr>wd_inbox := ib\<rparr>) (acknowledge (wd_inbox w) (cf_consumer cf) cursor d)"
| "apply_effect cf now w (Transcribed seq i txt state) =
     Inr (w\<lparr>wd_inbox := transcribe (cf_json_bytes cf) now seq (i, txt, state) (wd_inbox w)\<rparr>)"
| "apply_effect cf now w (MarkLate seq i) = Inr (w\<lparr>wd_late := List.insert (seq, i) (wd_late w)\<rparr>)"
| "apply_effect cf now w (Begin seq reply quoted) =
     Inr (with_ledger (send_begin now (wd_ledger w) seq reply (Some quoted)) w)"
| "apply_effect cf now w (MarkSent seq i) = Inr (with_ledger (mark_sent now (wd_ledger w) seq (Some i)) w)"
| "apply_effect cf now w (MarkUncertain seq) = Inr (with_ledger (mark_uncertain now (wd_ledger w) seq) w)"
| "apply_effect cf now w (Mirror seq) = Inr w"
| "apply_effect cf now w (After seq) = Inr w"
| "apply_effect cf now w (Turn seq) = Inr w"
| "apply_effect cf now w (Post p i) = Inr w"
| "apply_effect cf now w (Attach seq sender thread path) = Inr w"

text \<open>Effects in order, recorded as they happen; a refused acknowledgement ends the pass.\<close>

fun play :: "consumer_config \<Rightarrow> int \<Rightarrow> world \<Rightarrow> effect list \<Rightarrow> world \<times> inbox_error option" where
  "play cf now w [] = (w, None)"
| "play cf now w (e # es) =
     (case apply_effect cf now w e of
        Inl err \<Rightarrow> (w, Some err)
      | Inr w' \<Rightarrow> play cf now (w'\<lparr>wd_trace := wd_trace w @ [e]\<rparr>) es)"

section \<open>One message\<close>

definition row_thread :: "inbox_row \<Rightarrow> string" where
  "row_thread row = im_thread (ix_original row)"

definition ack_row :: "nat \<Rightarrow> inbox_row \<Rightarrow> effect" where
  "ack_row cursor row = Ack cursor \<lparr>dl_seq = ix_seq row, dl_session = ix_session row, dl_project = ix_project row\<rparr>"

text \<open>The echo of a send of our own, seen in the history of a group; a history that cannot be read proves nothing.\<close>

definition own_echo :: "answers \<Rightarrow> inbox_row \<Rightarrow> bool" where
  "own_echo an row =
     (im_fromMe (ix_message row) = Some True \<and> is_group (row_thread row) \<and>
      (case an_own an of
         Inl _ \<Rightarrow> False
       | Inr recent \<Rightarrow> length recent < 25 \<and> list_ex (\<lambda>m. og_id m = im_messageId (ix_message row)) recent))"

definition mirror_effects :: "consumer_config \<Rightarrow> inbox_row \<Rightarrow> effect list" where
  "mirror_effects cf row = (if cf_mirror cf then [Mirror (ix_seq row)] else [])"

text \<open>The messages that are acknowledged without a turn: an echo, a chat command, a group message that asks nobody.\<close>

definition silent_effects ::
    "consumer_config \<Rightarrow> answers \<Rightarrow> binding option \<Rightarrow> nat \<Rightarrow> inbox_row \<Rightarrow> effect list option" where
  "silent_effects cf an b cursor row =
     (if own_echo an row then Some [ack_row cursor row]
      else if list_ex (\<lambda>plan. plan row) (cf_commands cf)
      then Some (mirror_effects cf row @ [ack_row cursor row, After (ix_seq row)])
      else if is_group (row_thread row) \<and> gated cf b row then Some (mirror_effects cf row @ [ack_row cursor row])
      else None)"

text \<open>Two looks at the history; only absence in both allows a second send.\<close>

definition check_twice :: "answers \<Rightarrow> send_row \<Rightarrow> consumer_error + string option" where
  "check_twice an entry =
     (let look = (\<lambda>history. find_delivered_reply (an_now an) 50 history (sd_quoted entry) (sd_reply entry)) in
      case look (an_check1 an) of
        Inl e \<Rightarrow> Inl e
      | Inr (Some i) \<Rightarrow> Inr (Some i)
      | Inr None \<Rightarrow> look (an_check2 an))"

definition run_turn :: "consumer_config \<Rightarrow> answers \<Rightarrow> inbox \<Rightarrow> inbox_row \<Rightarrow> nat \<times> (consumer_error + string)" where
  "run_turn cf an ib row =
     (let n = cf_turn_attempts cf in
      apsnd (\<lambda>outcome. case outcome of
          Replied s \<Rightarrow> Inr s
        | Stopped \<Rightarrow> Inr []
        | GaveUp last_error first_error first_status \<Rightarrow>
            (if aborted_at (an_stop an) (2 * Suc n) then Inr []
             else (case thread_texts ib (im_account (ix_original row)) (row_thread row) 12 of
                 Inl e \<Rightarrow> Inl (InboxFailed e)
               | Inr texts \<Rightarrow> Inr (turn_failure_note (if first_error \<noteq> [] then first_error else last_error) first_status
                   (reply_language (im_text (ix_message row)) texts)))))
        (run_attempts (an_stop an) (an_attempts an) n 1 [] [] []))"

text \<open>The reply as it leaves the bridges, with the deferred work, the pictures and the voice notes.\<close>

definition plan_reply ::
    "consumer_config \<Rightarrow> inbox_row \<Rightarrow> string \<Rightarrow> string \<times> bool \<times> string list \<times> string list" where
  "plan_reply cf row turn =
     (let (t1, after1) = cf_queue cf row turn; (t2, after2) = cf_group cf row t1;
          (t3, images) = cf_images cf row t2; (t4, voices) = cf_voices cf row t3
      in (t4, after1 \<or> after2, images, voices))"

definition late_marks :: "consumer_config \<Rightarrow> inbox \<Rightarrow> nat \<Rightarrow> string \<Rightarrow> effect list" where
  "late_marks cf ib seq reply =
     (if \<not> (cf_media cf \<and> cf_late cf) \<or> is_turn_failure_note reply then []
      else (case read_inbox ib (seq - 1) 1 of
          Inr (fresh # _) \<Rightarrow>
            (if ix_seq fresh = seq
             then map (\<lambda>a. MarkLate seq (at_id a))
               (filter (\<lambda>a. at_kind a = ''audio'' \<and> at_state a \<noteq> None \<and> at_state a \<noteq> Some [] \<and> at_state a \<noteq> Some ''pending'')
                 (im_attachments (ix_message fresh)))
             else [])
        | _ \<Rightarrow> []))"

definition send_effects ::
    "answers \<Rightarrow> nat \<Rightarrow> inbox_row \<Rightarrow> string \<Rightarrow> string \<Rightarrow> string \<Rightarrow> string list \<Rightarrow> string list \<Rightarrow> effect list \<times> consumer_error option" where
  "send_effects an cursor row sender reply quoted images voices =
     (let seq = ix_seq row; m = ix_message row;
          p = \<lparr>po_seq = seq, po_sender = sender, po_thread = row_thread row, po_text = reply, po_quoted = quoted,
            po_participant = (if im_sender m = [] then None else Some (im_sender m))\<rparr>
      in case send_result_of (an_send an) of
           SentAs i \<Rightarrow>
             (Post p (an_landed an) # MarkSent seq i # ack_row cursor row #
                map (Attach seq sender (row_thread row)) (images @ voices), None)
         | SendUncertain status err definitive \<Rightarrow>
             ([Post p (an_landed an), MarkUncertain seq], Some (SendFailed seq (take 120 err))))"

text \<open>The first pass over a message: the attachments, the turn, the record of the intent, the send.\<close>

definition turn_effects ::
    "consumer_config \<Rightarrow> answers \<Rightarrow> inbox \<Rightarrow> nat \<Rightarrow> inbox_row \<Rightarrow> string \<Rightarrow> string \<Rightarrow> effect list \<times> consumer_error option" where
  "turn_effects cf an ib cursor row sender quoted =
     (let seq = ix_seq row in
      case (if cf_media cf \<and> im_attachments (ix_message row) \<noteq> [] then an_media an else Inr []) of
        Inl e \<Rightarrow> ([], Some (MediaFailed e))
      | Inr done_ts \<Rightarrow>
          (let before = map (\<lambda>(i, txt, state). Transcribed seq i txt state) done_ts;
               ib' = fold (transcribe (cf_json_bytes cf) (an_now an) seq) done_ts ib;
               (runs, reply) = run_turn cf an ib' row;
               turns = before @ replicate runs (Turn seq)
           in case reply of
                Inl e \<Rightarrow> (turns, Some e)
              | Inr turn \<Rightarrow>
                  (if aborted_at (an_stop an) (2 * Suc (cf_turn_attempts cf) + 1) then (turns, None)
                   else (let (txt, deferred, images, voices) = plan_reply cf row turn in
                     apfst (\<lambda>es. turns @ late_marks cf ib' seq txt @ [Begin seq txt quoted] @
                         (if deferred then [After seq] else []) @ es)
                       (send_effects an cursor row sender txt quoted images voices)))))"

definition process_one ::
    "consumer_config \<Rightarrow> answers \<Rightarrow> world \<Rightarrow> nat \<Rightarrow> inbox_row \<Rightarrow> effect list \<times> consumer_error option" where
  "process_one cf an w cursor row =
     (case sender_for_account cf (im_account (ix_original row)) of
        Inl e \<Rightarrow> ([], Some e)
      | Inr sender \<Rightarrow>
          (case binding_for (wd_inbox w) (''whatsapp'', im_account (ix_original row), row_thread row) of
             Inl e \<Rightarrow> ([], Some (InboxFailed e))
           | Inr b \<Rightarrow>
               (case silent_effects cf an b cursor row of
                  Some es \<Rightarrow> (es, None)
                | None \<Rightarrow>
                    (let m = ix_message row; seq = ix_seq row; entry = send_get (wd_ledger w) seq;
                         own_quote = (case im_replyTo m of Some q \<Rightarrow> q | None \<Rightarrow> im_messageId m)
                     in case entry of
                          None \<Rightarrow> turn_effects cf an (wd_inbox w) cursor row sender own_quote
                        | Some r \<Rightarrow>
                            (let quoted = (case sd_quoted r of Some q \<Rightarrow> q | None \<Rightarrow> own_quote) in
                             if sd_state r = Sent then ([ack_row cursor row], None)
                             else if sd_reply r = [] then turn_effects cf an (wd_inbox w) cursor row sender quoted
                             else (case check_twice an r of
                                 Inl e \<Rightarrow> ([], Some e)
                               | Inr (Some i) \<Rightarrow> ([MarkSent seq i, ack_row cursor row], None)
                               | Inr None \<Rightarrow> send_effects an cursor row sender (sd_reply r) quoted [] []))))))"

section \<open>Passes, crashes and the loop\<close>

text \<open>What a pass of the loop does: nothing while no message is pending.\<close>

definition pass_effects :: "consumer_config \<Rightarrow> answers \<Rightarrow> world \<Rightarrow> effect list \<times> consumer_error option" where
  "pass_effects cf an w =
     (case pending (wd_inbox w) (cf_consumer cf) 1 of
        Inl e \<Rightarrow> ([], Some (InboxFailed e))
      | Inr (cursor, []) \<Rightarrow> ([], None)
      | Inr (cursor, row # _) \<Rightarrow> process_one cf an w cursor row)"

definition consumer_pass :: "consumer_config \<Rightarrow> answers \<Rightarrow> world \<Rightarrow> world \<times> consumer_error option" where
  "consumer_pass cf an w =
     (case pass_effects cf an w of
        (es, err) \<Rightarrow>
          (case play cf (an_now an) w es of
             (w', Some e) \<Rightarrow> (w', Some (InboxFailed e))
           | (w', None) \<Rightarrow> (w', err)))"

text \<open>A process that dies after the first \<open>n\<close> effects of a pass.\<close>

definition crashed_pass :: "consumer_config \<Rightarrow> answers \<Rightarrow> nat \<Rightarrow> world \<Rightarrow> world" where
  "crashed_pass cf an n w = fst (play cf (an_now an) w (take n (fst (pass_effects cf an w))))"

text \<open>\<open>Other\<close> is what the other processes do to the inbox: the receiver, the operator, other consumers.\<close>

datatype world_event = Other int event | Pass answers | Crash answers nat

fun world_step :: "consumer_config \<Rightarrow> world \<Rightarrow> world_event \<Rightarrow> world" where
  "world_step cf w (Other now ev) = w\<lparr>wd_inbox := Inbox.step (cf_json_bytes cf) (wd_inbox w) (now, ev)\<rparr>"
| "world_step cf w (Pass an) = fst (consumer_pass cf an w)"
| "world_step cf w (Crash an n) = crashed_pass cf an n w"

definition world_run :: "consumer_config \<Rightarrow> world \<Rightarrow> world_event list \<Rightarrow> world" where
  "world_run cf w evs = foldl (world_step cf) w evs"

definition start_world :: "inbox \<Rightarrow> world" where
  "start_world ib = \<lparr>wd_inbox = ib\<lparr>ix_sends := Some []\<rparr>, wd_ledger = [], wd_late = [], wd_trace = []\<rparr>"

text \<open>The sleeps of the loop after failed passes, from the current backoff on; \<open>True\<close> is a pass that failed.\<close>

fun backoffs :: "nat \<Rightarrow> nat \<Rightarrow> nat \<Rightarrow> bool list \<Rightarrow> nat list" where
  "backoffs base mx b [] = []"
| "backoffs base mx b (failed # fs) =
     (if failed then b # backoffs base mx (min mx (b * 2)) fs else backoffs base mx base fs)"

end
