(* ===== verification/Outbox.thy ===== *)
theory Outbox
  imports Consumer
begin

text \<open>
  What the channel consumer promises, over every run of passes, crashes and other processes: the send ledger is the
  outbox protocol of each message, a reply is recorded before it is sent, and with an honest history it lands once.
\<close>

section \<open>The outbox\<close>

text \<open>
  What the ledger promises of one message, without its table: the agent runs while nothing is recorded, a reply is
  recorded once, everything sent is that reply with that quote, and nothing happens once it is settled.  An empty text
  in the record is no record: while it stands the agent may run again and what it says is sent, under the recorded quote.
\<close>

datatype phase = Idle | Intended string string | Settled string string

fun open_phase :: "phase \<Rightarrow> bool" where
  "open_phase Idle = True"
| "open_phase (Intended reply quoted) = (reply = [])"
| "open_phase (Settled reply quoted) = False"

fun outbox_step :: "nat \<Rightarrow> phase \<Rightarrow> effect \<Rightarrow> phase option" where
  "outbox_step seq ph (Turn s) = (if s \<noteq> seq \<or> open_phase ph then Some ph else None)"
| "outbox_step seq ph (Begin s reply quoted) =
     (if s \<noteq> seq then Some ph else if ph = Idle then Some (Intended reply quoted) else if open_phase ph then Some ph else None)"
| "outbox_step seq ph (Post p i) =
     (if po_seq p \<noteq> seq then Some ph
      else (case ph of
              Intended reply quoted \<Rightarrow> (if quoted = po_quoted p \<and> (reply = [] \<or> reply = po_text p) then Some ph else None)
            | _ \<Rightarrow> None))"
| "outbox_step seq ph (MarkUncertain s) =
     (if s \<noteq> seq then Some ph else (case ph of Intended _ _ \<Rightarrow> Some ph | _ \<Rightarrow> None))"
| "outbox_step seq ph (MarkSent s i) =
     (if s \<noteq> seq then Some ph else (case ph of Intended reply quoted \<Rightarrow> Some (Settled reply quoted) | _ \<Rightarrow> None))"
| "outbox_step seq ph (Mirror s) = Some ph"
| "outbox_step seq ph (Ack c d) = Some ph"
| "outbox_step seq ph (After s) = Some ph"
| "outbox_step seq ph (Transcribed s i x y) = Some ph"
| "outbox_step seq ph (MarkLate s i) = Some ph"
| "outbox_step seq ph (Attach s x y z) = Some ph"

fun outbox_run :: "nat \<Rightarrow> phase \<Rightarrow> effect list \<Rightarrow> phase option" where
  "outbox_run seq ph [] = Some ph"
| "outbox_run seq ph (e # es) = (case outbox_step seq ph e of None \<Rightarrow> None | Some ph' \<Rightarrow> outbox_run seq ph' es)"

lemma outbox_run_append:
  "outbox_run seq ph (es @ fs) = (case outbox_run seq ph es of None \<Rightarrow> None | Some ph' \<Rightarrow> outbox_run seq ph' fs)"
  by (induction es arbitrary: ph) (auto split: option.split)

text \<open>The phase of a message as the ledger has it.\<close>

definition phase_of :: "ledger \<Rightarrow> nat \<Rightarrow> phase" where
  "phase_of l seq =
     (case send_get l seq of
        None \<Rightarrow> Idle
      | Some r \<Rightarrow>
          (let quoted = (case sd_quoted r of Some q \<Rightarrow> q | None \<Rightarrow> [])
           in if sd_state r = Sent then Settled (sd_reply r) quoted else Intended (sd_reply r) quoted))"

section \<open>The ledger and the effects\<close>

lemma send_get_begin:
  "send_get (send_begin now l s reply quoted) seq =
     (if seq = s then Some (case send_get l s of
        None \<Rightarrow> \<lparr>sd_seq = s, sd_state = Sending, sd_reply = reply, sd_quoted = quoted, sd_replyId = None,
            sd_attempts = 1, sd_at = now\<rparr>
      | Some old \<Rightarrow> old\<lparr>sd_state := Sending, sd_attempts := sd_attempts old + 1, sd_at := now\<rparr>)
      else send_get l seq)"
  by (auto simp: send_begin_def send_get_def dest: row_of_SomeD split: option.split)

lemma send_get_sent:
  "send_get (mark_sent now l s i) seq =
     map_option (\<lambda>r. if seq = s then r\<lparr>sd_state := Sent, sd_replyId := i, sd_at := now\<rparr> else r) (send_get l seq)"
proof -
  have "send_get (mark_sent now l s i) seq =
      map_option (\<lambda>r. if sd_seq r = s then r\<lparr>sd_state := Sent, sd_replyId := i, sd_at := now\<rparr> else r) (send_get l seq)"
    unfolding send_get_def mark_sent_def by (rule row_of_map_keep) simp
  then show ?thesis by (cases "send_get l seq") (auto simp: send_get_def dest: row_of_SomeD)
qed

lemma send_get_uncertain:
  "send_get (mark_uncertain now l s) seq =
     map_option (\<lambda>r. if seq = s then r\<lparr>sd_state := Uncertain, sd_attempts := sd_attempts r + 1, sd_at := now\<rparr> else r)
       (send_get l seq)"
proof -
  have "send_get (mark_uncertain now l s) seq =
      map_option (\<lambda>r. if sd_seq r = s then r\<lparr>sd_state := Uncertain, sd_attempts := sd_attempts r + 1, sd_at := now\<rparr> else r)
        (send_get l seq)"
    unfolding send_get_def mark_uncertain_def by (rule row_of_map_keep) simp
  then show ?thesis by (cases "send_get l seq") (auto simp: send_get_def dest: row_of_SomeD)
qed

text \<open>The laws of a record of intents: the first text of a message stays.\<close>

locale intent_log =
  fixes intent :: "'l \<Rightarrow> nat \<Rightarrow> 'i option"
    and begin_intent :: "nat \<Rightarrow> 'i \<Rightarrow> 'l \<Rightarrow> 'l"
    and settle :: "nat \<Rightarrow> 'l \<Rightarrow> 'l"
    and doubt :: "nat \<Rightarrow> 'l \<Rightarrow> 'l"
  assumes intent_begin: "intent (begin_intent s i l) k = (if k = s \<and> intent l s = None then Some i else intent l k)"
    and intent_settle: "intent (settle s l) k = intent l k"
    and intent_doubt: "intent (doubt s l) k = intent l k"
begin

lemma first_intent_stays: "intent l k = Some i \<Longrightarrow> intent (begin_intent s j l) k = Some i"
  by (auto simp: intent_begin)

lemma intents_grow: "dom (intent l) \<subseteq> dom (intent (begin_intent s j l))"
  by (auto simp: intent_begin dom_def)

end

definition send_intent :: "ledger \<Rightarrow> nat \<Rightarrow> (string \<times> string option) option" where
  "send_intent l seq = map_option (\<lambda>r. (sd_reply r, sd_quoted r)) (send_get l seq)"

interpretation sends: intent_log send_intent "\<lambda>s i l. send_begin now l s (fst i) (snd i)"
  "\<lambda>s l. mark_sent now l s reply_id" "\<lambda>s l. mark_uncertain now l s" for now reply_id
  by unfold_locales
    (auto simp: send_intent_def send_get_begin send_get_sent send_get_uncertain option.map_comp comp_def
      intro!: option.map_cong split: option.splits)

fun ledger_after :: "int \<Rightarrow> ledger \<Rightarrow> effect \<Rightarrow> ledger" where
  "ledger_after now l (Begin s reply quoted) = send_begin now l s reply (Some quoted)"
| "ledger_after now l (MarkSent s i) = mark_sent now l s (Some i)"
| "ledger_after now l (MarkUncertain s) = mark_uncertain now l s"
| "ledger_after now l e = l"

lemma with_ledger_simps [simp]:
  "wd_ledger (with_ledger l w) = l" "wd_trace (with_ledger l w) = wd_trace w"
  "ix_rows (wd_inbox (with_ledger l w)) = ix_rows (wd_inbox w)"
  "ix_consumers (wd_inbox (with_ledger l w)) = ix_consumers (wd_inbox w)"
  by (simp_all add: with_ledger_def)

lemma apply_ledger:
  "apply_effect cf now w e = Inr w' \<Longrightarrow> wd_ledger w' = ledger_after now (wd_ledger w) e"
  by (cases e) (auto simp: map_sum_def split: sum.splits)

text \<open>What may happen in a ledger, and a list of effects that keeps to it.\<close>

fun allowed :: "ledger \<Rightarrow> effect \<Rightarrow> bool" where
  "allowed l (Turn s) = open_phase (phase_of l s)"
| "allowed l (Begin s reply quoted) = open_phase (phase_of l s)"
| "allowed l (Post p i) = (\<exists>reply. phase_of l (po_seq p) = Intended reply (po_quoted p) \<and> (reply = [] \<or> reply = po_text p))"
| "allowed l (MarkSent s i) = (\<exists>reply quoted. phase_of l s = Intended reply quoted)"
| "allowed l (MarkUncertain s) = (\<exists>reply quoted. phase_of l s = Intended reply quoted)"
| "allowed l e = True"

fun allowed_all :: "int \<Rightarrow> ledger \<Rightarrow> effect list \<Rightarrow> bool" where
  "allowed_all now l [] = True"
| "allowed_all now l (e # es) = (allowed l e \<and> allowed_all now (ledger_after now l e) es)"

lemma allowed_append:
  "allowed_all now l (es @ fs) \<longleftrightarrow> allowed_all now l es \<and> allowed_all now (foldl (ledger_after now) l es) fs"
  by (induction es arbitrary: l) auto

lemma allowed_take: "allowed_all now l es \<Longrightarrow> allowed_all now l (take n es)"
  by (metis allowed_append append_take_drop_id)

lemma allowed_outbox:
  assumes "allowed l e"
  shows "outbox_step seq (phase_of l seq) e = Some (phase_of (ledger_after now l e) seq)"
  using assms
  by (cases e) (auto simp: phase_of_def send_get_begin send_get_sent send_get_uncertain Let_def split: option.splits if_splits)

definition ledger_ok :: "ledger \<Rightarrow> bool" where
  "ledger_ok l \<longleftrightarrow> (\<forall>seq r. send_get l seq = Some r \<longrightarrow> sd_quoted r \<noteq> None)"

lemma allowed_ledger_ok: "allowed l e \<Longrightarrow> ledger_ok l \<Longrightarrow> ledger_ok (ledger_after now l e)"
  by (cases e) (auto simp: ledger_ok_def send_get_begin send_get_sent send_get_uncertain split: option.splits if_splits)

text \<open>The invariant: the ledger holds the phase that the trace leads to, for every message.\<close>

definition outbox_ok :: "world \<Rightarrow> bool" where
  "outbox_ok w \<longleftrightarrow> ledger_ok (wd_ledger w) \<and> (\<forall>seq. outbox_run seq Idle (wd_trace w) = Some (phase_of (wd_ledger w) seq))"

lemma play_outbox_ok [inv_intros]:
  "allowed_all now (wd_ledger w) es \<Longrightarrow> outbox_ok w \<Longrightarrow> outbox_ok (fst (play cf now w es))"
proof (induction es arbitrary: w)
  case (Cons e es)
  show ?case
  proof (cases "apply_effect cf now w e")
    case (Inr w')
    let ?w = "w'\<lparr>wd_trace := wd_trace w @ [e]\<rparr>"
    have l: "wd_ledger ?w = ledger_after now (wd_ledger w) e" using apply_ledger [OF Inr] by simp
    have "outbox_ok ?w"
      using Cons.prems allowed_outbox [of "wd_ledger w" e _ now] allowed_ledger_ok [of "wd_ledger w" e now]
      by (simp add: outbox_ok_def outbox_run_append apply_ledger [OF Inr])
    moreover have "allowed_all now (wd_ledger ?w) es" using Cons.prems(1) by (simp add: l)
    ultimately have "outbox_ok (fst (play cf now ?w es))" by (rule Cons.IH [rotated])
    then show ?thesis by (simp add: Inr)
  qed (use Cons.prems in simp)
qed simp

section \<open>A pass keeps to the outbox\<close>

fun neutral :: "effect \<Rightarrow> bool" where
  "neutral (Turn s) = False"
| "neutral (Begin s reply quoted) = False"
| "neutral (Post p i) = False"
| "neutral (MarkSent s i) = False"
| "neutral (MarkUncertain s) = False"
| "neutral e = True"

lemma neutral_allowed: "neutral e \<Longrightarrow> allowed l e \<and> ledger_after now l e = l"
  by (cases e) auto

lemma neutrals_allowed:
  "list_all neutral es \<Longrightarrow> allowed_all now l es \<and> foldl (ledger_after now) l es = l"
  by (induction es) (auto simp: neutral_allowed)

lemma turns_allowed:
  "open_phase (phase_of l s) \<Longrightarrow> allowed_all now l (replicate n (Turn s)) \<and> foldl (ledger_after now) l (replicate n (Turn s)) = l"
  by (induction n) auto

lemma aborted_later: "aborted_at stop j \<Longrightarrow> j \<le> k \<Longrightarrow> aborted_at stop k"
  by (auto simp: aborted_at_def split: option.splits)

lemma run_attempts_stopped:
  "snd (run_attempts stop f n i a b c) = Stopped \<Longrightarrow> aborted_at stop (2 * (i + n))"
proof (induction n arbitrary: i a b c)
  case (Suc n)
  show ?case
  proof (cases "aborted_at stop (2 * i) \<or> aborted_at stop (2 * i + 1)")
    case True
    then show ?thesis by (auto intro: aborted_later)
  next
    case False
    then have "\<exists>a b c. snd (run_attempts stop f n (Suc i) a b c) = Stopped"
      using Suc.prems by (auto simp: Let_def split: attempt.splits if_splits)
    then show ?thesis using Suc.IH [of "Suc i"] by auto
  qed
qed simp

lemma send_allowed:
  assumes "phase_of l (ix_seq row) = Intended r quoted" "r = [] \<or> r = reply"
  shows "allowed_all now l (fst (send_effects an cursor row sender reply quoted images voices))"
proof -
  have after: "list_all neutral (ack_row cursor row # map (Attach (ix_seq row) sender (row_thread row)) (images @ voices))"
    by (simp add: ack_row_def list.pred_map comp_def list.pred_True)
  show ?thesis
    using neutrals_allowed [OF after] assms
    by (cases "send_result_of (an_send an)") (auto simp: send_effects_def Let_def)
qed

lemma late_marks_neutral: "list_all neutral (late_marks cf ib seq reply)"
  by (auto simp: late_marks_def list_all_iff split: sum.splits list.splits)

lemma turn_allowed:
  assumes "phase_of l (ix_seq row) = Idle \<or> phase_of l (ix_seq row) = Intended [] quoted"
  shows "allowed_all now l (fst (turn_effects cf an ib cursor row sender quoted))"
proof (cases "if cf_media cf \<and> im_attachments (ix_message row) \<noteq> [] then an_media an else Inr []")
  case (Inl e)
  then show ?thesis by (simp add: turn_effects_def Let_def)
next
  case (Inr done_ts)
  let ?before = "map (\<lambda>(i, txt, state). Transcribed (ix_seq row) i txt state) done_ts"
  let ?ib = "fold (transcribe (cf_json_bytes cf) (an_now an) (ix_seq row)) done_ts ib"
  obtain runs reply where r: "run_turn cf an ?ib row = (runs, reply)" by (cases "run_turn cf an ?ib row")
  let ?turns = "?before @ replicate runs (Turn (ix_seq row))"
  have free: "open_phase (phase_of l (ix_seq row))" using assms by auto
  have pre_ok: "list_all neutral ?before" by (auto simp: list_all_iff)
  have turns: "allowed_all now l ?turns \<and> foldl (ledger_after now) l ?turns = l"
    using neutrals_allowed [OF pre_ok, of now l] turns_allowed [OF free, of now runs] by (simp add: allowed_append)
  show ?thesis
  proof (cases reply)
    case (Inl e)
    then show ?thesis using turns by (simp add: turn_effects_def Let_def Inr r)
  next
    case turn: (Inr turn)
    obtain said deferred images voices where plan: "plan_reply cf row turn = (said, deferred, images, voices)"
      by (cases "plan_reply cf row turn")
    show ?thesis
    proof (cases "aborted_at (an_stop an) (2 * Suc (cf_turn_attempts cf) + 1)")
      case True
      then show ?thesis using turns by (simp add: turn_effects_def Let_def Inr r turn)
    next
      case False
      let ?l = "send_begin now l (ix_seq row) said (Some quoted)"
      obtain r where "phase_of ?l (ix_seq row) = Intended r quoted" "r = [] \<or> r = said"
        using assms by (auto simp: phase_of_def send_get_begin Let_def split: option.splits if_splits)
      from send_allowed [OF this] neutrals_allowed [OF late_marks_neutral, of now l] turns free
      show ?thesis
        using False by (auto simp: turn_effects_def Let_def Inr r turn plan allowed_append)
    qed
  qed
qed

lemma silent_neutral: "silent_effects cf an b cursor row = Some es \<Longrightarrow> list_all neutral es"
  by (auto simp: silent_effects_def mirror_effects_def ack_row_def split: if_splits)

lemma pass_allowed:
  assumes "ledger_ok (wd_ledger w)"
  shows "allowed_all now (wd_ledger w) (fst (process_one cf an w cursor row))"
proof (cases "sender_for_account cf (im_account (ix_original row))")
  case sender: (Inr sender)
  show ?thesis
  proof (cases "binding_for (wd_inbox w) (''whatsapp'', im_account (ix_original row), row_thread row)")
    case b: (Inr b)
    show ?thesis
    proof (cases "silent_effects cf an b cursor row")
      case None
      note here = process_one_def sender b None Let_def
      show ?thesis
      proof (cases "send_get (wd_ledger w) (ix_seq row)")
        case None
        then have "phase_of (wd_ledger w) (ix_seq row) = Idle" by (simp add: phase_of_def)
        with None turn_allowed [OF disjI1] show ?thesis by (simp add: here)
      next
        case (Some r)
        with assms obtain q where q: "sd_quoted r = Some q" by (auto simp: ledger_ok_def)
        show ?thesis
        proof (cases "sd_state r = Sent")
          case True
          with Some show ?thesis by (simp add: here ack_row_def)
        next
          case False
          then have ph: "phase_of (wd_ledger w) (ix_seq row) = Intended (sd_reply r) q"
            using Some q by (simp add: phase_of_def)
          show ?thesis
          proof (cases "sd_reply r = []")
            case True
            with ph turn_allowed [OF disjI2] Some False q show ?thesis by (simp add: here)
          next
            case ne: False
            show ?thesis
            proof (cases "check_twice an r")
              case (Inr found)
              with Some False ne q send_allowed [OF ph] ph show ?thesis
                by (cases found) (simp_all add: here ack_row_def)
            qed (use Some False ne q in \<open>simp add: here\<close>)
          qed
        qed
      qed
    next
      case (Some es)
      with neutrals_allowed [OF silent_neutral [OF Some]] show ?thesis by (simp add: process_one_def sender b)
    qed
  qed (simp add: process_one_def sender)
qed (simp add: process_one_def)

lemma pass_effects_allowed:
  "outbox_ok w \<Longrightarrow> allowed_all now (wd_ledger w) (fst (pass_effects cf an w))"
  using pass_allowed [of w now cf an]
  by (auto simp: pass_effects_def outbox_ok_def split: sum.splits prod.splits list.splits)

lemma fst_consumer_pass: "fst (consumer_pass cf an w) = fst (play cf (an_now an) w (fst (pass_effects cf an w)))"
  by (auto simp: consumer_pass_def split: prod.splits option.splits)

lemma step_outbox_ok [inv_intros]: "outbox_ok w \<Longrightarrow> outbox_ok (world_step cf w ev)"
  by (cases ev)
    (auto simp: fst_consumer_pass crashed_pass_def outbox_ok_def
       intro!: play_outbox_ok [unfolded outbox_ok_def] pass_effects_allowed [unfolded outbox_ok_def] allowed_take)

lemma run_outbox_ok [inv_intros]: "outbox_ok w \<Longrightarrow> outbox_ok (world_run cf w evs)"
  unfolding world_run_def by (induction evs arbitrary: w) (simp_all add: step_outbox_ok)

lemma start_outbox_ok [simp]: "outbox_ok (start_world ib)"
  by (simp add: outbox_ok_def start_world_def ledger_ok_def phase_of_def send_get_def)

section \<open>Reading the outbox\<close>

lemma outbox_left: "outbox_run seq ph es = Some ph' \<Longrightarrow> ph \<noteq> Idle \<Longrightarrow> ph' \<noteq> Idle"
proof (induction es arbitrary: ph)
  case (Cons e es)
  then obtain ph1 where ph1: "outbox_step seq ph e = Some ph1" "outbox_run seq ph1 es = Some ph'" by (auto split: option.splits)
  have "ph1 \<noteq> Idle" using ph1(1) Cons.prems(2) by (cases e) (auto split: if_splits phase.splits)
  then show ?case using Cons.IH [OF ph1(2)] by simp
qed simp

lemma outbox_begun:
  "outbox_run seq ph es = Some ph' \<Longrightarrow> \<not> open_phase ph \<Longrightarrow>
     Turn seq \<notin> set es \<and> (\<forall>reply quoted. Begin seq reply quoted \<notin> set es)"
proof (induction es arbitrary: ph)
  case (Cons e es)
  then obtain ph1 where ph1: "outbox_step seq ph e = Some ph1" "outbox_run seq ph1 es = Some ph'" by (auto split: option.splits)
  have "\<not> open_phase ph1 \<and> e \<noteq> Turn seq \<and> (\<forall>reply quoted. e \<noteq> Begin seq reply quoted)"
    using ph1(1) Cons.prems(2) by (cases e) (auto split: if_splits phase.splits)
  then show ?case using Cons.IH [OF ph1(2)] by auto
qed simp

text \<open>While a message is not settled, everything sent for it has the recorded quote and was the recorded reply, and the record came first.\<close>

lemma outbox_idle:
  assumes "outbox_run seq Idle es = Some Idle" "Post p i \<in> set es"
  shows "po_seq p \<noteq> seq"
proof
  assume seq: "po_seq p = seq"
  from assms(2) obtain a b where es: "es = a @ Post p i # b" by (auto dest: split_list)
  with assms(1) obtain ph where "outbox_run seq Idle a = Some ph" "outbox_run seq ph (Post p i # b) = Some Idle"
    by (auto simp: outbox_run_append split: option.splits)
  then show False using outbox_left [of seq ph b Idle] seq by (auto split: if_splits phase.splits)
qed

lemma outbox_intended:
  "outbox_run seq ph es = Some (Intended reply quoted) \<Longrightarrow>
     (ph = Intended reply quoted \<or> ph = Idle \<and> Begin seq reply quoted \<in> set es) \<and>
     (\<forall>p i. Post p i \<in> set es \<and> po_seq p = seq \<longrightarrow> (reply \<noteq> [] \<longrightarrow> po_text p = reply) \<and> po_quoted p = quoted)"
proof (induction es arbitrary: ph)
  case (Cons e es)
  then obtain ph1 where ph1: "outbox_step seq ph e = Some ph1" "outbox_run seq ph1 es = Some (Intended reply quoted)"
    by (auto split: option.splits)
  note IH = Cons.IH [OF ph1(2)]
  show ?case
    using ph1(1) IH by (cases e) (auto split: if_splits phase.splits)
qed simp

text \<open>The replies that landed in a chat.\<close>

definition landing :: "effect \<Rightarrow> post option" where
  "landing e = (case e of Post p (Some i) \<Rightarrow> Some p | _ \<Rightarrow> None)"

definition posts :: "effect list \<Rightarrow> post list" where
  "posts es = List.map_filter landing es"

definition landed :: "nat \<Rightarrow> effect list \<Rightarrow> post list" where
  "landed seq es = filter (\<lambda>p. po_seq p = seq) (posts es)"

lemma posts_Nil [simp]: "posts [] = []"
  by (simp add: posts_def map_filter_simps)

lemma posts_Cons: "posts (e # es) = (case landing e of None \<Rightarrow> [] | Some p \<Rightarrow> [p]) @ posts es"
  by (simp add: posts_def map_filter_simps split: option.split)

lemma posts_append [simp]: "posts (es @ fs) = posts es @ posts fs"
  by (induction es) (auto simp: posts_Cons)

lemma set_posts: "p \<in> set (posts es) \<longleftrightarrow> (\<exists>i. Post p (Some i) \<in> set es)"
  by (induction es) (auto simp: posts_Cons landing_def split: effect.splits option.splits)

lemma landed_append [simp]: "landed seq (es @ fs) = landed seq es @ landed seq fs"
  by (simp add: landed_def)

lemma landed_idle: "outbox_run seq Idle es = Some Idle \<Longrightarrow> landed seq es = []"
  using outbox_idle by (fastforce simp: landed_def filter_empty_conv set_posts)

lemma neutral_posts: "list_all neutral es \<Longrightarrow> posts es = []"
proof (induction es)
  case (Cons e es)
  then show ?case by (cases e) (auto simp: posts_Cons landing_def)
qed simp

lemma turns_posts [simp]: "posts (replicate n (Turn s)) = []"
  by (induction n) (auto simp: posts_Cons landing_def)

lemma play_trace: "\<exists>k. wd_trace (fst (play cf now w es)) = wd_trace w @ take k es"
proof (induction es arbitrary: w)
  case (Cons e es)
  show ?case
  proof (cases "apply_effect cf now w e")
    case (Inl err)
    then show ?thesis by (intro exI [of _ 0]) simp
  next
    case (Inr w')
    from Cons.IH [of "w'\<lparr>wd_trace := wd_trace w @ [e]\<rparr>"]
    obtain k where "wd_trace (fst (play cf now (w'\<lparr>wd_trace := wd_trace w @ [e]\<rparr>) es)) = (wd_trace w @ [e]) @ take k es" by auto
    with Inr show ?thesis by (intro exI [of _ "Suc k"]) simp
  qed
qed simp

lemma take_posts: "length (posts es) \<le> 1 \<Longrightarrow> length (posts (take k es)) \<le> 1 \<and> set (posts (take k es)) \<subseteq> set (posts es)"
proof -
  assume l: "length (posts es) \<le> 1"
  have "posts es = posts (take k es) @ posts (drop k es)" by (metis append_take_drop_id posts_append)
  with l show ?thesis by (metis Un_upper1 add_leD1 length_append set_append)
qed

text \<open>What a pass sends: at most one text, of its row, when nothing is recorded or the history showed no trace of it.\<close>

definition sent_for :: "inbox_row \<Rightarrow> string \<Rightarrow> post \<Rightarrow> bool" where
  "sent_for row sender p \<longleftrightarrow> po_seq p = ix_seq row \<and> po_sender p = sender \<and> po_thread p = row_thread row"

lemma send_posts:
  "(\<forall>p \<in> set (posts (fst (send_effects an cursor row sender reply quoted images voices))). sent_for row sender p) \<and>
   length (posts (fst (send_effects an cursor row sender reply quoted images voices))) \<le> 1"
proof -
  have "posts (map (Attach (ix_seq row) sender (row_thread row)) (images @ voices)) = []"
    by (rule neutral_posts) (simp add: list.pred_map comp_def list.pred_True)
  then show ?thesis
    by (cases "send_result_of (an_send an)"; cases "an_landed an")
      (simp_all add: send_effects_def Let_def posts_Cons landing_def ack_row_def sent_for_def)
qed

lemma turn_posts:
  "length (posts (fst (turn_effects cf an ib cursor row sender quoted))) \<le> 1 \<and>
   (\<forall>p \<in> set (posts (fst (turn_effects cf an ib cursor row sender quoted))). sent_for row sender p)"
proof (cases "if cf_media cf \<and> im_attachments (ix_message row) \<noteq> [] then an_media an else Inr []")
  case (Inr done_ts)
  let ?ib = "fold (transcribe (cf_json_bytes cf) (an_now an) (ix_seq row)) done_ts ib"
  obtain runs reply where r: "run_turn cf an ?ib row = (runs, reply)" by (cases "run_turn cf an ?ib row")
  have pre_ok: "posts (map (\<lambda>(i, txt, state). Transcribed (ix_seq row) i txt state) done_ts) = []"
    by (rule neutral_posts) (auto simp: list_all_iff)
  show ?thesis
  proof (cases reply)
    case (Inl e)
    then show ?thesis by (simp add: turn_effects_def Let_def Inr r pre_ok)
  next
    case turn: (Inr turn)
    obtain said deferred images voices where plan: "plan_reply cf row turn = (said, deferred, images, voices)"
      by (cases "plan_reply cf row turn")
    have marks: "posts (late_marks cf ?ib (ix_seq row) said) = []" by (rule neutral_posts [OF late_marks_neutral])
    show ?thesis
      using send_posts [of an cursor row sender said quoted images voices]
      by (auto simp: turn_effects_def Let_def Inr r turn plan pre_ok marks posts_Cons landing_def)
  qed
qed (simp add: turn_effects_def Let_def)

lemma pass_posts:
  fixes cf an w cursor row
  defines "es \<equiv> fst (process_one cf an w cursor row)" and "entry \<equiv> send_get (wd_ledger w) (ix_seq row)"
  assumes "ledger_ok (wd_ledger w)"
  shows "length (posts es) \<le> 1" and "p \<in> set (posts es) \<Longrightarrow>
     (\<exists>sender. sender_for_account cf (im_account (ix_original row)) = Inr sender \<and> sent_for row sender p) \<and>
     (\<forall>r. entry = Some r \<longrightarrow> sd_state r \<noteq> Sent \<and> (sd_reply r \<noteq> [] \<longrightarrow> check_twice an r = Inr None))"
proof -
  have both: "length (posts es) \<le> 1 \<and> (\<forall>p \<in> set (posts es).
     (\<exists>sender. sender_for_account cf (im_account (ix_original row)) = Inr sender \<and> sent_for row sender p) \<and>
     (\<forall>r. entry = Some r \<longrightarrow> sd_state r \<noteq> Sent \<and> (sd_reply r \<noteq> [] \<longrightarrow> check_twice an r = Inr None)))"
  proof (cases "sender_for_account cf (im_account (ix_original row))")
    case sender: (Inr sender)
    show ?thesis
    proof (cases "binding_for (wd_inbox w) (''whatsapp'', im_account (ix_original row), row_thread row)")
      case b: (Inr b)
      show ?thesis
      proof (cases "silent_effects cf an b cursor row")
        case None
        note here = es_def process_one_def sender b None Let_def
        show ?thesis
        proof (cases entry)
          case None
          with turn_posts show ?thesis by (simp add: here entry_def)
        next
          case (Some r)
          show ?thesis
            using Some turn_posts send_posts [of an cursor row sender "sd_reply r" _ "[]" "[]"]
            by (cases "check_twice an r"; cases "sd_state r")
              (auto simp: here entry_def ack_row_def posts_Cons landing_def split: option.splits)
        qed
      next
        case (Some es')
        with neutral_posts [OF silent_neutral [OF Some]] show ?thesis by (simp add: es_def process_one_def sender b)
      qed
    qed (simp add: es_def process_one_def sender)
  qed (simp add: es_def process_one_def)
  then show "length (posts es) \<le> 1" by blast
  show "p \<in> set (posts es) \<Longrightarrow>
     (\<exists>sender. sender_for_account cf (im_account (ix_original row)) = Inr sender \<and> sent_for row sender p) \<and>
     (\<forall>r. entry = Some r \<longrightarrow> sd_state r \<noteq> Sent \<and> (sd_reply r \<noteq> [] \<longrightarrow> check_twice an r = Inr None))"
    using both by blast
qed

section \<open>The inbox of a pass\<close>

lemma inbox_ok_sends [simp]: "inbox_ok (ib\<lparr>ix_sends := x\<rparr>) = inbox_ok ib"
  by (simp add: inbox_ok_def checkpoint_def)

lemma inbox_log_sends [simp]: "inbox_log (ib\<lparr>ix_sends := x\<rparr>) = inbox_log ib"
  by (simp add: inbox_log_def)

lemma transcribe_frame:
  "inbox_log (transcribe jb now seq t ib) = inbox_log ib \<and> (inbox_ok ib \<longrightarrow> inbox_ok (transcribe jb now seq t ib)) \<and>
   ix_consumers (transcribe jb now seq t ib) = ix_consumers ib"
proof -
  obtain i x state where t: "t = (i, x, state)" by (cases t)
  show ?thesis
  proof (cases "transcript jb now ib seq i x state")
    case (Inr ib')
    with transcript_frame [OF Inr] handle_ok [of jb now ib "Transcript seq i x state" ib'] show ?thesis
      by (simp add: transcribe_def t)
  qed (simp add: transcribe_def t)
qed

lemma apply_inbox:
  assumes "apply_effect cf now w e = Inr w'"
  shows "inbox_log (wd_inbox w') = inbox_log (wd_inbox w) \<and> (inbox_ok (wd_inbox w) \<longrightarrow> inbox_ok (wd_inbox w'))"
proof (cases e)
  case (Ack c d)
  with assms obtain ib where ib: "acknowledge (wd_inbox w) (cf_consumer cf) c d = Inr ib" "w' = w\<lparr>wd_inbox := ib\<rparr>"
    by (cases "acknowledge (wd_inbox w) (cf_consumer cf) c d") auto
  have "inbox_log ib = inbox_log (wd_inbox w)"
    using ib(1) by (cases rule: acknowledge_cases) (simp add: inbox_log_def put_checkpoint_def)
  with ib handle_ok [of undefined 0 "wd_inbox w" "Acknowledge (cf_consumer cf) c d" ib] show ?thesis by simp
qed (use assms transcribe_frame in \<open>auto simp: with_ledger_def\<close>)

lemma play_inbox:
  "inbox_log (wd_inbox (fst (play cf now w es))) = inbox_log (wd_inbox w) \<and>
   (inbox_ok (wd_inbox w) \<longrightarrow> inbox_ok (wd_inbox (fst (play cf now w es))))"
proof (induction es arbitrary: w)
  case (Cons e es)
  show ?case
  proof (cases "apply_effect cf now w e")
    case (Inr w')
    with apply_inbox [OF Inr] Cons.IH [of "w'\<lparr>wd_trace := wd_trace w @ [e]\<rparr>"] show ?thesis by simp
  qed simp
qed simp

lemma pending_row:
  assumes "pending ib c n = Inr (cursor, row # rows)"
  shows "cursor = cursor_of ib c \<and> row \<in> set (ix_rows ib) \<and> cursor < ix_seq row \<and> next_row ib cursor = Some row"
proof -
  have h: "cursor = cursor_of ib c \<and> take n (filter (\<lambda>r. cursor < ix_seq r) (ix_rows ib)) = row # rows"
    using assms by (auto simp: pending_def read_inbox_def split: if_splits)
  then obtain rest where f: "filter (\<lambda>r. cursor < ix_seq r) (ix_rows ib) = row # rest"
    by (cases "filter (\<lambda>r. cursor < ix_seq r) (ix_rows ib)"; cases n) auto
  have find: "find P xs = (case filter P xs of [] \<Rightarrow> None | y # _ \<Rightarrow> Some y)" for P and xs :: "inbox_row list"
    by (induction xs) auto
  have "row \<in> set (filter (\<lambda>r. cursor < ix_seq r) (ix_rows ib))" by (simp add: f)
  then have "row \<in> set (ix_rows ib) \<and> cursor < ix_seq row" by simp
  with h f show ?thesis by (simp add: next_row_def find)
qed

section \<open>An honest history\<close>

text \<open>
  What the provider's history is relied on for by the second look: messages have an id, an empty quote is none, and a
  page that is not full shows every reply that has landed in the thread with the quote it was sent with.
\<close>

definition honest_history :: "effect list \<Rightarrow> string \<Rightarrow> string + outgoing list \<Rightarrow> bool" where
  "honest_history trace thread history =
     (case history of
        Inl _ \<Rightarrow> True
      | Inr ms \<Rightarrow>
          list_all (\<lambda>m. og_id m \<noteq> [] \<and> og_quoted m \<noteq> Some []) ms \<and>
          (length ms < 50 \<longrightarrow>
             list_all (\<lambda>p. po_thread p \<noteq> thread \<or> list_ex (\<lambda>m. og_quoted m = Some (po_quoted p)) ms) (posts trace)))"

definition honest_answers :: "consumer_config \<Rightarrow> answers \<Rightarrow> world \<Rightarrow> bool" where
  "honest_answers cf an w =
     (case pending (wd_inbox w) (cf_consumer cf) 1 of
        Inr (_, row # _) \<Rightarrow> honest_history (wd_trace w) (row_thread row) (an_check2 an)
      | _ \<Rightarrow> True)"

fun honest_run :: "consumer_config \<Rightarrow> world \<Rightarrow> world_event list \<Rightarrow> bool" where
  "honest_run cf w [] = True"
| "honest_run cf w (ev # evs) =
     ((case ev of Other _ _ \<Rightarrow> True | Pass an \<Rightarrow> honest_answers cf an w | Crash an _ \<Rightarrow> honest_answers cf an w) \<and>
      honest_run cf (world_step cf w ev) evs)"

lemma check_twice_absent:
  assumes "check_twice an r = Inr None"
  obtains ms where "an_check2 an = Inr ms" "length ms < 50"
    "(\<forall>m \<in> set ms. og_id m \<noteq> []) \<longrightarrow> (\<forall>m \<in> set ms. \<not> is_evidence (an_now an) (sd_quoted r) (sd_reply r) m)"
proof -
  from assms have look: "find_delivered_reply (an_now an) 50 (an_check2 an) (sd_quoted r) (sd_reply r) = Inr None"
    by (auto simp: check_twice_def Let_def split: sum.splits option.splits)
  then obtain ms where ms: "an_check2 an = Inr ms" "length ms < 50"
    by (auto simp: find_delivered_reply_def split: sum.splits if_splits)
  show ?thesis
  proof (rule that [OF ms], cases "find (is_evidence (an_now an) (sd_quoted r) (sd_reply r)) ms")
    case None
    then show "(\<forall>m \<in> set ms. og_id m \<noteq> []) \<longrightarrow> (\<forall>m \<in> set ms. \<not> is_evidence (an_now an) (sd_quoted r) (sd_reply r) m)"
      by (auto simp: find_None_iff)
  next
    case (Some m)
    with look ms have "og_id m = []" by (auto simp: find_delivered_reply_def split: if_splits)
    moreover have "m \<in> set ms" using Some by (metis find_Some_iff nth_mem)
    ultimately show "(\<forall>m \<in> set ms. og_id m \<noteq> []) \<longrightarrow> (\<forall>m \<in> set ms. \<not> is_evidence (an_now an) (sd_quoted r) (sd_reply r) m)"
      by auto
  qed
qed

definition answers_entry :: "consumer_config \<Rightarrow> post \<Rightarrow> nat \<times> inbound \<times> string \<times> string \<times> int \<Rightarrow> bool" where
  "answers_entry cf p e \<longleftrightarrow> fst e = po_seq p \<and> im_thread (fst (snd e)) = po_thread p \<and>
     sender_for_account cf (im_account (fst (snd e))) = Inr (po_sender p)"

text \<open>A message for which an empty reply was recorded.\<close>

definition mute :: "nat \<Rightarrow> effect list \<Rightarrow> bool" where
  "mute seq es \<longleftrightarrow> (\<exists>quoted. Begin seq [] quoted \<in> set es)"

text \<open>Every reply in the trace went to the thread of its message, and no message has two, unless an empty one was recorded.\<close>

definition delivery_ok :: "consumer_config \<Rightarrow> world \<Rightarrow> bool" where
  "delivery_ok cf w \<longleftrightarrow> outbox_ok w \<and> inbox_ok (wd_inbox w) \<and> (\<forall>seq. \<not> mute seq (wd_trace w) \<longrightarrow> length (landed seq (wd_trace w)) \<le> 1) \<and>
     (\<forall>p \<in> set (posts (wd_trace w)). \<exists>e \<in> set (inbox_log (wd_inbox w)). answers_entry cf p e)"

lemma log_of_row: "r \<in> set (ix_rows ib) \<Longrightarrow> frozen r \<in> set (inbox_log ib)"
  by (simp add: inbox_log_def)

lemma landed_before:
  assumes ok: "delivery_ok cf w" and row: "row \<in> set (ix_rows (wd_inbox w))"
    and honest: "honest_history (wd_trace w) (row_thread row) (an_check2 an)"
    and absent: "\<forall>r. send_get (wd_ledger w) (ix_seq row) = Some r \<longrightarrow> sd_reply r \<noteq> [] \<longrightarrow> check_twice an r = Inr None"
    and said: "\<not> mute (ix_seq row) (wd_trace w)"
    and unsettled: "\<forall>r. send_get (wd_ledger w) (ix_seq row) = Some r \<longrightarrow> sd_state r \<noteq> Sent"
  shows "landed (ix_seq row) (wd_trace w) = []"
proof (cases "send_get (wd_ledger w) (ix_seq row)")
  case None
  with ok show ?thesis by (intro landed_idle) (simp add: delivery_ok_def outbox_ok_def phase_of_def)
next
  case (Some r)
  from ok have "ledger_ok (wd_ledger w)" by (simp add: delivery_ok_def outbox_ok_def)
  with Some obtain q where q: "sd_quoted r = Some q" unfolding ledger_ok_def by blast
  from Some q unsettled ok have run: "outbox_run (ix_seq row) Idle (wd_trace w) = Some (Intended (sd_reply r) q)"
    by (simp add: delivery_ok_def outbox_ok_def phase_of_def)
  show ?thesis
  proof (rule ccontr)
    assume "landed (ix_seq row) (wd_trace w) \<noteq> []"
    then obtain p where p: "p \<in> set (posts (wd_trace w))" "po_seq p = ix_seq row"
      by (auto simp: landed_def filter_empty_conv)
    then have quoted: "po_quoted p = q" using outbox_intended [OF run] by (auto simp: set_posts)
    from ok p obtain e where e: "e \<in> set (inbox_log (wd_inbox w))" "fst e = ix_seq row" "im_thread (fst (snd e)) = po_thread p"
      by (fastforce simp: delivery_ok_def answers_entry_def)
    have "distinct (map fst (inbox_log (wd_inbox w)))"
      using ok by (simp add: delivery_ok_def inbox_ok_log log_ok_def strict_sorted_iff)
    with e log_of_row [OF row] have "e = frozen row"
      by (intro inj_onD [of fst "set (inbox_log (wd_inbox w))"]) (simp_all add: distinct_map frozen_def)
    with e have thread: "po_thread p = row_thread row" by (simp add: frozen_def row_thread_def)
    have "sd_reply r \<noteq> []" using outbox_intended [OF run] said by (auto simp: mute_def)
    with absent Some check_twice_absent obtain ms where ms: "an_check2 an = Inr ms" "length ms < 50"
      "(\<forall>m \<in> set ms. og_id m \<noteq> []) \<longrightarrow> (\<forall>m \<in> set ms. \<not> is_evidence (an_now an) (sd_quoted r) (sd_reply r) m)"
      by blast
    from honest ms have ids: "\<forall>m \<in> set ms. og_id m \<noteq> [] \<and> og_quoted m \<noteq> Some []"
      and shown: "list_ex (\<lambda>m. og_quoted m = Some (po_quoted p)) ms"
      using p thread by (auto simp: honest_history_def list_all_iff)
    then obtain m where m: "m \<in> set ms" "og_quoted m = Some q" by (auto simp: list_ex_iff quoted)
    with ids have "q \<noteq> []" by auto
    with m have "is_evidence (an_now an) (sd_quoted r) (sd_reply r) m" by (simp add: is_evidence_def Let_def q)
    with ms ids m show False by auto
  qed
qed

lemma play_delivery:
  assumes ok: "delivery_ok cf w" and allowed: "allowed_all now (wd_ledger w) es"
    and one: "length (posts es) \<le> 1" and row: "row \<in> set (ix_rows (wd_inbox w))"
    and fresh: "\<And>p. p \<in> set (posts es) \<Longrightarrow> sent_for row s p \<and> (\<not> mute (ix_seq row) (wd_trace w) \<longrightarrow> landed (ix_seq row) (wd_trace w) = []) \<and>
      sender_for_account cf (im_account (ix_original row)) = Inr s"
  shows "delivery_ok cf (fst (play cf now w es))"
proof -
  let ?w = "fst (play cf now w es)"
  obtain k where k: "wd_trace ?w = wd_trace w @ take k es" using play_trace by blast
  note part = take_posts [OF one, of k]
  have "length (landed seq (wd_trace ?w)) \<le> 1" if said: "\<not> mute seq (wd_trace ?w)" for seq
  proof (cases "landed seq (take k es) = []")
    case True
    with ok said show ?thesis by (auto simp: k delivery_ok_def mute_def)
  next
    case False
    then obtain p where "p \<in> set (posts (take k es))" "po_seq p = seq" by (auto simp: landed_def filter_empty_conv)
    with part fresh [of p] said have "landed seq (wd_trace w) = []" by (auto simp: sent_for_def k mute_def)
    moreover have "length (landed seq (take k es)) \<le> 1"
      using part by (simp add: landed_def) (meson length_filter_le le_trans)
    ultimately show ?thesis by (simp add: k)
  qed
  moreover have "\<exists>e \<in> set (inbox_log (wd_inbox ?w)). answers_entry cf p e"
    if "p \<in> set (posts (wd_trace ?w))" for p
  proof (cases "p \<in> set (posts (wd_trace w))")
    case True
    with ok play_inbox show ?thesis by (simp add: delivery_ok_def)
  next
    case False
    with that part fresh [of p] have "sent_for row s p" "sender_for_account cf (im_account (ix_original row)) = Inr s"
      by (auto simp: k)
    with log_of_row [OF row] play_inbox show ?thesis
      by (intro bexI [of _ "frozen row"]) (auto simp: sent_for_def frozen_def row_thread_def answers_entry_def)
  qed
  ultimately show ?thesis
    using ok play_outbox_ok [OF allowed, of cf] play_inbox [of cf now w es] by (simp add: delivery_ok_def)
qed

lemma play_part_delivery:
  assumes ok: "delivery_ok cf w" and honest: "honest_answers cf an w"
  shows "delivery_ok cf (fst (play cf now w (take n (fst (pass_effects cf an w)))))"
proof (cases "pending (wd_inbox w) (cf_consumer cf) 1")
  case (Inl e)
  then show ?thesis using ok by (simp add: pass_effects_def)
next
  case (Inr b)
  show ?thesis
  proof (cases "snd b")
    case Nil
    with Inr ok show ?thesis by (cases b) (simp add: pass_effects_def)
  next
    case (Cons row rows)
    with Inr have pend: "pending (wd_inbox w) (cf_consumer cf) 1 = Inr (fst b, row # rows)" by (cases b) simp
    let ?es = "fst (process_one cf an w (fst b) row)"
    have es: "fst (pass_effects cf an w) = ?es" unfolding pass_effects_def pend by simp
    have row: "row \<in> set (ix_rows (wd_inbox w))" using pending_row [OF pend] by blast
    have led: "ledger_ok (wd_ledger w)" using ok by (simp add: delivery_ok_def outbox_ok_def)
    have hist: "honest_history (wd_trace w) (row_thread row) (an_check2 an)"
      using honest unfolding honest_answers_def pend by simp
    note one = pass_posts(1) [OF led, of cf an "fst b" row]
    obtain s where s: "\<And>p. p \<in> set (posts ?es) \<Longrightarrow>
        sent_for row s p \<and> sender_for_account cf (im_account (ix_original row)) = Inr s"
      using pass_posts(2) [OF led, of _ cf an "fst b" row] by (metis sum.inject(2))
    have "landed (ix_seq row) (wd_trace w) = []" if "p \<in> set (posts ?es)" "\<not> mute (ix_seq row) (wd_trace w)" for p
      using landed_before [OF ok row hist _ that(2)] pass_posts(2) [OF led that(1)] by blast
    with s take_posts [OF one, of n] show ?thesis
      unfolding es
      by (intro play_delivery [OF ok _ _ row, of _ _ s]) (auto intro!: allowed_take pass_allowed [OF led])
  qed
qed

lemma world_step_delivery:
  assumes "delivery_ok cf w"
    "case ev of Other _ _ \<Rightarrow> True | Pass an \<Rightarrow> honest_answers cf an w | Crash an _ \<Rightarrow> honest_answers cf an w"
  shows "delivery_ok cf (world_step cf w ev)"
proof (cases ev)
  case (Other now e)
  let ?ib = "Inbox.step (cf_json_bytes cf) (wd_inbox w) (now, e)"
  obtain l where "inbox_log ?ib = inbox_log (wd_inbox w) @ l"
    using run_log [of "cf_json_bytes cf" "wd_inbox w" "[(now, e)]"] by auto
  with assms(1) Other step_ok [of "wd_inbox w"] show ?thesis by (auto simp: delivery_ok_def outbox_ok_def)
next
  case (Pass an)
  with assms play_part_delivery [of cf w an "an_now an" "length (fst (pass_effects cf an w))"] show ?thesis
    by (simp add: fst_consumer_pass)
next
  case (Crash an n)
  with assms play_part_delivery [of cf w an "an_now an" n] show ?thesis by (simp add: crashed_pass_def)
qed

lemma world_run_delivery:
  "delivery_ok cf w \<Longrightarrow> honest_run cf w evs \<Longrightarrow> delivery_ok cf (world_run cf w evs)"
proof (induction evs arbitrary: w)
  case (Cons ev evs)
  with world_step_delivery [of cf w ev] show ?case by (simp add: world_run_def)
qed (simp add: world_run_def)

lemma start_delivery: "inbox_ok ib \<Longrightarrow> delivery_ok cf (start_world ib)"
  using start_outbox_ok [of ib] by (simp add: delivery_ok_def) (simp add: start_world_def landed_def)

end
