(* ===== verification/Delivery.thy ===== *)
theory Delivery
  imports Outbox
begin

text \<open>
  The properties of the channel consumer: what every run of passes, crashes and other processes keeps, what one pass
  does, and the two ways in which the evidence for a delivered reply is wrong.
\<close>

section \<open>Runs\<close>

lemma ledger_after_intent:
  "send_intent l seq = Some i \<Longrightarrow> send_intent (ledger_after now l e) seq = Some i"
  using sends.first_intent_stays [of l seq i now] sends.intent_settle sends.intent_doubt by (cases e) auto

lemma play_intent:
  "send_intent (wd_ledger w) seq = Some i \<Longrightarrow> send_intent (wd_ledger (fst (play cf now w es))) seq = Some i"
proof (induction es arbitrary: w)
  case (Cons e es)
  show ?case
  proof (cases "apply_effect cf now w e")
    case (Inr w')
    with Cons apply_ledger [OF Inr] ledger_after_intent [of "wd_ledger w" seq i now e] show ?thesis by simp
  qed (use Cons.prems in simp)
qed simp

text \<open>
  C20: The send ledger implements the outbox of every message: whatever is interleaved, wherever a pass is cut off and
  whatever the bridges make of a reply, the trace of a message is a trace of the protocol, and the ledger holds the phase
  it leads to.  The protocol: runs of the agent, one recorded intent, sends of that intent, settled; while the recorded
  text is empty the agent may run again, and what it says is sent under the recorded quote.
\<close>

theorem ledger_is_the_outbox:
  "outbox_run seq Idle (wd_trace (world_run cf (start_world ib) evs)) =
    Some (phase_of (wd_ledger (world_run cf (start_world ib) evs)) seq)"
  using run_outbox_ok [OF start_outbox_ok] by (simp add: outbox_ok_def)

text \<open>
  C21: Before a text is sent for a message, an intent with its quote is recorded.  Unless an empty text was recorded (the
  bridges left nothing of a reply), the text that is sent is the recorded one, and after it was sent the agent never
  runs again for that message and no other reply is recorded.
\<close>

theorem intent_before_send:
  assumes "wd_trace (world_run cf (start_world ib) evs) = es @ Post p i # fs"
  shows "(\<exists>reply. Begin (po_seq p) reply (po_quoted p) \<in> set es) \<and>
    (\<not> mute (po_seq p) es \<longrightarrow>
       Begin (po_seq p) (po_text p) (po_quoted p) \<in> set es \<and> Turn (po_seq p) \<notin> set fs \<and>
       (\<forall>reply quoted. Begin (po_seq p) reply quoted \<notin> set fs))"
proof -
  let ?w = "world_run cf (start_world ib) evs"
  have "outbox_ok ?w" by (rule run_outbox_ok [OF start_outbox_ok])
  then have run: "outbox_run (po_seq p) Idle (es @ Post p i # fs) \<noteq> None" by (simp add: outbox_ok_def flip: assms(1))
  then obtain ph where ph: "outbox_run (po_seq p) Idle es = Some ph"
    by (cases "outbox_run (po_seq p) Idle es") (simp_all add: outbox_run_append)
  with run obtain reply where reply: "ph = Intended reply (po_quoted p)" "reply = [] \<or> reply = po_text p"
    and after: "outbox_run (po_seq p) ph fs \<noteq> None"
    by (cases ph) (auto simp: outbox_run_append split: if_splits)
  have b: "Begin (po_seq p) reply (po_quoted p) \<in> set es"
    using outbox_intended [OF ph [unfolded reply(1)]] by blast
  moreover have "reply = po_text p \<and> \<not> open_phase ph" if "\<not> mute (po_seq p) es"
    using b that reply by (auto simp: mute_def)
  moreover obtain ph' where "outbox_run (po_seq p) ph fs = Some ph'" using after by blast
  ultimately show ?thesis using outbox_begun [of "po_seq p" ph fs ph'] by blast
qed

text \<open>
  C22: With a history that shows what has landed, no message gets two replies in its chat, however often the consumer
  crashes, the provider answers wrongly or not at all, and passes are repeated, unless an empty text was recorded for it.
\<close>

theorem no_second_reply:
  assumes "inbox_ok ib" "honest_run cf (start_world ib) evs" "\<not> mute seq (wd_trace (world_run cf (start_world ib) evs))"
  shows "length (landed seq (wd_trace (world_run cf (start_world ib) evs))) \<le> 1"
  using world_run_delivery [OF start_delivery [OF assms(1)] assms(2)] assms(3) by (simp add: delivery_ok_def)

text \<open>
  A reply that landed answers an accepted message: it went to the thread that message came from, through the
  sender configured for the account that received it.
\<close>

theorem reply_from_own_account:
  assumes "inbox_ok ib" "honest_run cf (start_world ib) evs"
    "p \<in> set (posts (wd_trace (world_run cf (start_world ib) evs)))"
  shows "\<exists>r \<in> set (ix_rows (wd_inbox (world_run cf (start_world ib) evs))).
    ix_seq r = po_seq p \<and> row_thread r = po_thread p \<and>
    sender_for_account cf (im_account (ix_original r)) = Inr (po_sender p)"
proof -
  from world_run_delivery [OF start_delivery [OF assms(1)] assms(2)] assms(3) obtain e
    where "e \<in> set (inbox_log (wd_inbox (world_run cf (start_world ib) evs)))" "answers_entry cf p e"
    by (auto simp: delivery_ok_def)
  then show ?thesis by (auto simp: inbox_log_def answers_entry_def frozen_def row_thread_def)
qed

text \<open>
  A recorded reply stays as it was recorded, text and quote, whatever passes, crashes and other processes follow, and
  whatever the bridges say.
\<close>

theorem recorded_reply_stays:
  assumes "send_intent (wd_ledger w) seq = Some i"
  shows "send_intent (wd_ledger (world_run cf w evs)) seq = Some i"
  using assms
proof (induction evs arbitrary: w)
  case (Cons ev evs)
  have "send_intent (wd_ledger (world_step cf w ev)) seq = Some i"
    using Cons.prems play_intent by (cases ev) (simp_all add: fst_consumer_pass crashed_pass_def)
  with Cons.IH show ?case by (simp add: world_run_def)
qed (simp add: world_run_def)

section \<open>One pass\<close>

text \<open>The acknowledgements of a list of effects come when their message is settled.\<close>

fun acks_settled :: "int \<Rightarrow> ledger \<Rightarrow> effect list \<Rightarrow> bool" where
  "acks_settled now l [] = True"
| "acks_settled now l (e # es) =
     ((case e of Ack c d \<Rightarrow> (\<exists>reply quoted. phase_of l (dl_seq d) = Settled reply quoted) | _ \<Rightarrow> True) \<and>
      acks_settled now (ledger_after now l e) es)"

lemma acks_settled_append:
  "acks_settled now l (es @ fs) \<longleftrightarrow> acks_settled now l es \<and> acks_settled now (foldl (ledger_after now) l es) fs"
  by (induction es arbitrary: l) auto

fun no_ack :: "effect \<Rightarrow> bool" where
  "no_ack (Ack c d) = False"
| "no_ack e = True"

lemma no_ack_settled: "list_all no_ack es \<Longrightarrow> acks_settled now l es"
proof (induction es arbitrary: l)
  case (Cons e es)
  then show ?case by (cases e) auto
qed simp

lemma acks_settled_take: "acks_settled now l es \<Longrightarrow> acks_settled now l (take n es)"
  by (metis acks_settled_append append_take_drop_id)

text \<open>An acknowledgement that succeeds moves the cursor to its message; nothing else moves it.\<close>

lemma cursor_frame: "ix_consumers ib' = ix_consumers ib \<Longrightarrow> cursor_of ib' c = cursor_of ib c"
  by (simp add: cursor_of_def checkpoint_def)

lemma apply_no_ack:
  assumes "no_ack e"
  obtains w' where "apply_effect cf now w e = Inr w'" "ix_consumers (wd_inbox w') = ix_consumers (wd_inbox w)"
proof -
  have "\<exists>w'. apply_effect cf now w e = Inr w' \<and> ix_consumers (wd_inbox w') = ix_consumers (wd_inbox w)"
    using assms transcribe_frame by (cases e) (auto simp: with_ledger_def)
  then show ?thesis using that by blast
qed

lemma play_no_ack:
  "list_all no_ack es \<Longrightarrow> snd (play cf now w es) = None \<and>
     ix_consumers (wd_inbox (fst (play cf now w es))) = ix_consumers (wd_inbox w) \<and>
     wd_ledger (fst (play cf now w es)) = foldl (ledger_after now) (wd_ledger w) es \<and>
     wd_trace (fst (play cf now w es)) = wd_trace w @ es"
proof (induction es arbitrary: w)
  case (Cons e es)
  then obtain w' where w': "apply_effect cf now w e = Inr w'" "ix_consumers (wd_inbox w') = ix_consumers (wd_inbox w)"
    by (auto intro: apply_no_ack [of e cf now w])
  with Cons apply_ledger [OF w'(1)] show ?case by simp
qed simp

lemma settled_stays:
  assumes "allowed l e" "phase_of l seq = Settled reply quoted"
  shows "phase_of (ledger_after now l e) seq = Settled reply quoted"
  using allowed_outbox [OF assms(1), of seq now] assms(2) by (cases e) (auto split: if_splits)

lemma play_settled:
  assumes "allowed_all now (wd_ledger w) es" "phase_of (wd_ledger w) seq = Settled reply quoted"
  shows "phase_of (wd_ledger (fst (play cf now w es))) seq = Settled reply quoted"
  using assms
proof (induction es arbitrary: w)
  case (Cons e es)
  show ?case
  proof (cases "apply_effect cf now w e")
    case (Inr w')
    with Cons apply_ledger [OF Inr] settled_stays show ?thesis by simp
  qed (use Cons.prems in simp)
qed simp

lemma play_cursor:
  assumes "allowed_all now (wd_ledger w) es"
    "cursor_of (wd_inbox (fst (play cf now w es))) (cf_consumer cf) \<noteq> cursor_of (wd_inbox w) (cf_consumer cf)"
  shows "\<exists>c d. Ack c d \<in> set es \<and> cursor_of (wd_inbox (fst (play cf now w es))) (cf_consumer cf) = dl_seq d \<and>
    (acks_settled now (wd_ledger w) es \<longrightarrow>
      (\<exists>reply quoted. phase_of (wd_ledger (fst (play cf now w es))) (dl_seq d) = Settled reply quoted))"
  using assms
proof (induction es arbitrary: w)
  case (Cons e es)
  show ?case
  proof (cases "apply_effect cf now w e")
    case (Inr w')
    let ?w = "w'\<lparr>wd_trace := wd_trace w @ [e]\<rparr>"
    let ?fin = "fst (play cf now ?w es)"
    have l: "wd_ledger ?w = ledger_after now (wd_ledger w) e" using apply_ledger [OF Inr] by simp
    show ?thesis
    proof (cases "cursor_of (wd_inbox ?fin) (cf_consumer cf) = cursor_of (wd_inbox ?w) (cf_consumer cf)")
      case False
      with Cons.IH [of ?w] Cons.prems l obtain c d where "Ack c d \<in> set es"
        "cursor_of (wd_inbox ?fin) (cf_consumer cf) = dl_seq d"
        "acks_settled now (wd_ledger ?w) es \<longrightarrow> (\<exists>reply quoted. phase_of (wd_ledger ?fin) (dl_seq d) = Settled reply quoted)"
        by auto
      then show ?thesis using l by (auto simp: Inr)
    next
      case True
      with Cons.prems(2) have "cursor_of (wd_inbox w') (cf_consumer cf) \<noteq> cursor_of (wd_inbox w) (cf_consumer cf)"
        by (simp add: Inr)
      then have "\<not> no_ack e" using Inr by (metis apply_no_ack cursor_frame sum.inject(2))
      then obtain c d where e: "e = Ack c d" by (cases e) auto
      with Inr obtain ib where ib: "acknowledge (wd_inbox w) (cf_consumer cf) c d = Inr ib" "w' = w\<lparr>wd_inbox := ib\<rparr>"
        by (cases "acknowledge (wd_inbox w) (cf_consumer cf) c d") auto
      then have "cursor_of (wd_inbox w') (cf_consumer cf) = dl_seq d"
        by (cases rule: acknowledge_cases) (simp add: cursor_of_def)
      moreover have "\<exists>reply quoted. phase_of (wd_ledger ?fin) (dl_seq d) = Settled reply quoted"
        if "acks_settled now (wd_ledger w) (e # es)"
      proof -
        from that obtain reply quoted where "phase_of (wd_ledger w) (dl_seq d) = Settled reply quoted" by (auto simp: e)
        with play_settled [of now ?w es "dl_seq d" reply quoted cf] Cons.prems(1) ib show ?thesis by (simp add: e)
      qed
      moreover have "fst (play cf now w (e # es)) = ?fin" by (simp add: Inr)
      ultimately show ?thesis using True
        by (intro exI [of _ c] exI [of _ d]) (simp add: e del: acks_settled.simps)
    qed
  qed (use Cons.prems in simp)
qed simp

text \<open>The acknowledgements of a pass are of its row, and of a settled reply when the message is not silent.\<close>

definition row_ack :: "nat \<Rightarrow> inbox_row \<Rightarrow> effect \<Rightarrow> bool" where
  "row_ack cursor row e \<longleftrightarrow> no_ack e \<or> e = ack_row cursor row"

lemma phase_sent:
  "phase_of l seq = Intended reply quoted \<Longrightarrow> phase_of (mark_sent now l seq i) seq = Settled reply quoted"
  by (auto simp: phase_of_def send_get_sent Let_def split: option.splits if_splits)

lemma send_acks:
  assumes "phase_of l (ix_seq row) = Intended r q"
  shows "acks_settled now l (fst (send_effects an cursor row sender reply quoted images voices))"
proof -
  have "list_all no_ack (map (Attach (ix_seq row) sender (row_thread row)) (images @ voices))"
    by (simp add: list.pred_map comp_def list.pred_True)
  from no_ack_settled [OF this] phase_sent [OF assms] show ?thesis
    by (cases "send_result_of (an_send an)") (auto simp: send_effects_def Let_def ack_row_def)
qed

lemma send_row_acks: "list_all (row_ack cursor row) (fst (send_effects an cursor row sender reply quoted images voices))"
  by (cases "send_result_of (an_send an)") (auto simp: send_effects_def Let_def row_ack_def list_all_iff)

lemma late_marks_no_ack: "list_all no_ack (late_marks cf ib seq reply)"
  by (auto simp: late_marks_def list_all_iff split: sum.splits list.splits)

text \<open>The shape of a first pass: what comes before the intent acknowledges nothing and leaves the ledger alone.\<close>

lemma run_turn_answers: "\<exists>k s. run_turn cf an ib row = (k, Inr s)"
proof -
  obtain texts where "thread_texts ib (im_account (ix_original row)) (row_thread row) 12 = Inr texts"
    by (simp add: thread_texts_def)
  then show ?thesis
    by (cases "run_attempts (an_stop an) (an_attempts an) (cf_turn_attempts cf) 1 [] [] []")
      (auto simp: run_turn_def Let_def split: turn_outcome.splits)
qed

lemma turn_shape:
  assumes "turn_effects cf an ib cursor row sender quoted = (es, err)"
  obtains pre where "list_all no_ack pre" "list_all (\<lambda>e. neutral e \<or> e = Turn (ix_seq row)) pre" "es = pre"
      "(\<exists>e. an_media an = Inl e) \<or> aborted_at (an_stop an) (2 * Suc (cf_turn_attempts cf) + 1)"
  | pre said images voices mid where "list_all no_ack pre" "list_all (\<lambda>e. neutral e \<or> e = Turn (ix_seq row)) pre"
      "mid = [] \<or> mid = [After (ix_seq row)]" "err = snd (send_effects an cursor row sender said quoted images voices)"
      "es = pre @ Begin (ix_seq row) said quoted # mid @ fst (send_effects an cursor row sender said quoted images voices)"
proof (cases "if cf_media cf \<and> im_attachments (ix_message row) \<noteq> [] then an_media an else Inr []")
  case (Inl e)
  with assms show ?thesis by (intro that(1) [of "[]"]) (auto simp: turn_effects_def Let_def split: if_splits)
next
  case (Inr done_ts)
  let ?ib = "fold (transcribe (cf_json_bytes cf) (an_now an) (ix_seq row)) done_ts ib"
  obtain runs turn where r: "run_turn cf an ?ib row = (runs, Inr turn)" using run_turn_answers by blast
  let ?turns = "map (\<lambda>(i, x, state). Transcribed (ix_seq row) i x state) done_ts @ replicate runs (Turn (ix_seq row))"
  have quiet: "list_all no_ack ?turns" "list_all (\<lambda>e. neutral e \<or> e = Turn (ix_seq row)) ?turns"
    by (auto simp: list_all_iff)
  show ?thesis
  proof (cases "aborted_at (an_stop an) (2 * Suc (cf_turn_attempts cf) + 1)")
    case True
    with assms quiet show ?thesis
      by (intro that(1) [of ?turns]) (auto simp: turn_effects_def Let_def Inr r)
  next
    case False
    obtain said deferred images voices where plan: "plan_reply cf row turn = (said, deferred, images, voices)"
      by (cases "plan_reply cf row turn")
    obtain fs err' where se: "send_effects an cursor row sender said quoted images voices = (fs, err')"
      by (cases "send_effects an cursor row sender said quoted images voices")
    let ?pre = "?turns @ late_marks cf ?ib (ix_seq row) said"
    have "list_all (\<lambda>e. neutral e \<or> e = Turn (ix_seq row)) (late_marks cf ?ib (ix_seq row) said)"
      using late_marks_neutral by (metis (mono_tags, lifting) list.pred_mono_strong)
    with quiet late_marks_no_ack
    have pre: "list_all no_ack ?pre" "list_all (\<lambda>e. neutral e \<or> e = Turn (ix_seq row)) ?pre" by simp_all
    show ?thesis
      by (rule that(2) [of ?pre "if deferred then [After (ix_seq row)] else []" said images voices])
        (use assms False pre in \<open>auto simp: turn_effects_def Let_def Inr r plan se\<close>)
  qed
qed

lemma quiet_ledger:
  "list_all (\<lambda>e. neutral e \<or> e = Turn s) pre \<Longrightarrow> foldl (ledger_after now) l pre = l"
proof (induction pre)
  case (Cons e pre)
  then show ?case using neutral_allowed [of e l now] by auto
qed simp

lemma turn_acks:
  assumes "open_phase (phase_of l (ix_seq row))"
  shows "acks_settled now l (fst (turn_effects cf an ib cursor row sender quoted)) \<and>
    list_all (row_ack cursor row) (fst (turn_effects cf an ib cursor row sender quoted))"
proof -
  obtain es err where t: "turn_effects cf an ib cursor row sender quoted = (es, err)"
    by (cases "turn_effects cf an ib cursor row sender quoted")
  have weaken: "list_all no_ack xs \<Longrightarrow> list_all (row_ack cursor row) xs" for xs by (auto simp: list_all_iff row_ack_def)
  from t show ?thesis
  proof (cases rule: turn_shape)
    case (1 pre)
    with no_ack_settled weaken t show ?thesis by simp
  next
    case (2 pre said images voices mid)
    obtain r q where "phase_of (send_begin now l (ix_seq row) said (Some quoted)) (ix_seq row) = Intended r q"
      using assms by (auto simp: phase_of_def send_get_begin Let_def split: option.splits if_splits)
    from send_acks [OF this] 2 no_ack_settled [OF 2(1)] weaken [OF 2(1)] quiet_ledger [OF 2(2)] send_row_acks t
    show ?thesis by (auto simp: acks_settled_append row_ack_def)
  qed
qed

lemma pass_acks:
  assumes "ledger_ok (wd_ledger w)"
  shows "list_all (row_ack cursor row) (fst (process_one cf an w cursor row))"
    and "(\<And>b. binding_for (wd_inbox w) (''whatsapp'', im_account (ix_original row), row_thread row) = Inr b \<Longrightarrow>
        silent_effects cf an b cursor row = None) \<Longrightarrow>
      acks_settled now (wd_ledger w) (fst (process_one cf an w cursor row))"
proof -
  have "list_all (row_ack cursor row) (fst (process_one cf an w cursor row)) \<and>
    ((\<forall>b. binding_for (wd_inbox w) (''whatsapp'', im_account (ix_original row), row_thread row) = Inr b \<longrightarrow>
        silent_effects cf an b cursor row = None) \<longrightarrow>
      acks_settled now (wd_ledger w) (fst (process_one cf an w cursor row)))"
  proof (cases "sender_for_account cf (im_account (ix_original row))")
    case sender: (Inr sender)
    show ?thesis
    proof (cases "binding_for (wd_inbox w) (''whatsapp'', im_account (ix_original row), row_thread row)")
      case b: (Inr b)
      show ?thesis
      proof (cases "silent_effects cf an b cursor row")
        case None
        note here = process_one_def sender b None Let_def
        show ?thesis
        proof (cases "send_get (wd_ledger w) (ix_seq row)")
          case None
          then have "open_phase (phase_of (wd_ledger w) (ix_seq row))" by (simp add: phase_of_def)
          with None turn_acks show ?thesis by (simp add: here)
        next
          case (Some r)
          with assms obtain q where q: "sd_quoted r = Some q" by (auto simp: ledger_ok_def)
          show ?thesis
          proof (cases "sd_state r = Sent")
            case True
            with Some show ?thesis by (simp add: here row_ack_def) (simp add: phase_of_def ack_row_def)
          next
            case False
            then have ph: "phase_of (wd_ledger w) (ix_seq row) = Intended (sd_reply r) q"
              using Some q by (simp add: phase_of_def)
            show ?thesis
            proof (cases "sd_reply r = []")
              case True
              with ph have "open_phase (phase_of (wd_ledger w) (ix_seq row))" by simp
              from turn_acks [OF this] True Some False q show ?thesis by (simp add: here)
            next
              case ne: False
              show ?thesis
              proof (cases "check_twice an r")
                case (Inr found)
                with Some False ne q send_acks [OF ph] send_row_acks phase_sent [OF ph] show ?thesis
                  by (cases found) (simp_all add: here row_ack_def, simp add: ack_row_def)
              qed (use Some False ne q in \<open>simp add: here\<close>)
            qed
          qed
        qed
      next
        case (Some es)
        then have "list_all (row_ack cursor row) es"
          by (auto simp: silent_effects_def mirror_effects_def row_ack_def split: if_splits)
        with Some show ?thesis by (simp add: process_one_def sender b)
      qed
    qed (simp add: process_one_def sender)
  qed (simp add: process_one_def)
  then show "list_all (row_ack cursor row) (fst (process_one cf an w cursor row))"
    and "(\<And>b. binding_for (wd_inbox w) (''whatsapp'', im_account (ix_original row), row_thread row) = Inr b \<Longrightarrow>
        silent_effects cf an b cursor row = None) \<Longrightarrow>
      acks_settled now (wd_ledger w) (fst (process_one cf an w cursor row))"
    by blast+
qed

section \<open>A pass that acknowledges\<close>

definition ackable :: "inbox_row \<Rightarrow> bool" where
  "ackable row \<longleftrightarrow> bounded 256 (ix_session row) \<and> bounded 256 (ix_project row) \<and> ix_seq row < 2 ^ 53"

lemma acknowledge_pending:
  assumes pend: "pending ib c n = Inr (cursor, row # rows)" and "ackable row"
    and same: "inbox_log ib' = inbox_log ib" "ix_consumers ib' = ix_consumers ib"
  shows "acknowledge ib' c cursor \<lparr>dl_seq = ix_seq row, dl_session = ix_session row, dl_project = ix_project row\<rparr> =
    Inr (put_checkpoint ib' (c, ix_seq row))"
proof -
  have c: "bounded 256 c" using pend by (auto simp: pending_def split: if_splits)
  have row: "cursor = cursor_of ib c" "cursor < ix_seq row" "next_row ib cursor = Some row" using pending_row [OF pend] by auto
  have "map_option frozen (next_row ib' cursor) = Some (frozen row)"
    using row(3) by (simp add: next_row_log same flip: next_row_log [of ib])
  then obtain row' where "next_row ib' cursor = Some row'" "frozen row' = frozen row" by auto
  moreover from this have "ix_seq row' = ix_seq row" "ix_session row' = ix_session row" "ix_project row' = ix_project row"
    by (auto simp: frozen_def)
  ultimately show ?thesis
    using assms(2) c row cursor_frame [OF same(2), of c] by (simp add: acknowledge_def ackable_def)
qed

lemma play_append:
  "snd (play cf now w es) = None \<Longrightarrow> play cf now w (es @ fs) = play cf now (fst (play cf now w es)) fs"
  by (induction es arbitrary: w) (auto split: sum.splits)

lemma play_acked:
  assumes pend: "pending (wd_inbox w) (cf_consumer cf) n = Inr (cursor, row # rows)" and row: "ackable row"
    and quiet: "list_all no_ack pre" "list_all no_ack post"
  shows "snd (play cf now w (pre @ ack_row cursor row # post)) = None \<and>
    cursor_of (wd_inbox (fst (play cf now w (pre @ ack_row cursor row # post)))) (cf_consumer cf) = ix_seq row"
proof -
  let ?w = "fst (play cf now w pre)"
  note pre = play_no_ack [OF quiet(1), of cf now w]
  have "acknowledge (wd_inbox ?w) (cf_consumer cf) cursor
      \<lparr>dl_seq = ix_seq row, dl_session = ix_session row, dl_project = ix_project row\<rparr> =
    Inr (put_checkpoint (wd_inbox ?w) (cf_consumer cf, ix_seq row))"
    by (rule acknowledge_pending [OF pend row]) (use play_inbox [of cf now w pre] pre in auto)
  then have ack: "apply_effect cf now ?w (ack_row cursor row) =
      Inr (?w\<lparr>wd_inbox := put_checkpoint (wd_inbox ?w) (cf_consumer cf, ix_seq row)\<rparr>)"
    by (simp add: ack_row_def)
  let ?w2 = "?w\<lparr>wd_inbox := put_checkpoint (wd_inbox ?w) (cf_consumer cf, ix_seq row), wd_trace := wd_trace ?w @ [ack_row cursor row]\<rparr>"
  have all: "play cf now w (pre @ ack_row cursor row # post) = play cf now ?w2 post"
    using play_append [OF pre [THEN conjunct1]] by (simp add: ack)
  have "cursor_of (wd_inbox ?w2) (cf_consumer cf) = ix_seq row" by (simp add: cursor_of_def)
  with play_no_ack [OF quiet(2), of cf now ?w2] cursor_frame show ?thesis unfolding all by (metis (no_types, lifting))
qed

lemma pass_process:
  "pending (wd_inbox w) (cf_consumer cf) 1 = Inr (cursor, row # rows) \<Longrightarrow>
     pass_effects cf an w = process_one cf an w cursor row"
  by (simp only: pass_effects_def) simp

lemma pass_acked:
  assumes pend: "pending (wd_inbox w) (cf_consumer cf) 1 = Inr (cursor, row # rows)" and row: "ackable row"
    and es: "process_one cf an w cursor row = (pre @ ack_row cursor row # post, None)"
    and quiet: "list_all no_ack pre" "list_all no_ack post"
  shows "snd (consumer_pass cf an w) = None \<and> cursor_of (wd_inbox (fst (consumer_pass cf an w))) (cf_consumer cf) = ix_seq row"
  using play_acked [OF pend row quiet, of "an_now an"]
  by (auto simp: consumer_pass_def pass_process [OF pend] es split: prod.splits)

text \<open>A send that was answered acknowledges.\<close>

lemma send_answered:
  assumes "send_result_of (an_send an) = SentAs i"
  obtains p post where "send_effects an cursor row sender reply quoted images voices =
      ([Post p (an_landed an), MarkSent (ix_seq row) i] @ ack_row cursor row # post, None)" "list_all no_ack post"
proof (rule that [OF _])
  show "list_all no_ack (map (Attach (ix_seq row) sender (row_thread row)) (images @ voices))"
    by (simp add: list.pred_map comp_def list.pred_True)
qed (simp add: send_effects_def Let_def assms)

lemma turn_answered:
  assumes sent: "send_result_of (an_send an) = SentAs i" and media: "\<exists>ts. an_media an = Inr ts" and stop: "an_stop an = None"
  obtains pre post where "turn_effects cf an ib cursor row sender quoted = (pre @ ack_row cursor row # post, None)"
    "list_all no_ack pre" "list_all no_ack post"
proof -
  obtain es err where t: "turn_effects cf an ib cursor row sender quoted = (es, err)"
    by (cases "turn_effects cf an ib cursor row sender quoted")
  from t show ?thesis
  proof (cases rule: turn_shape)
    case (1 pre)
    with media stop show ?thesis by (auto simp: aborted_at_def)
  next
    case (2 pre said images voices mid)
    obtain p post where s: "send_effects an cursor row sender said quoted images voices =
        ([Post p (an_landed an), MarkSent (ix_seq row) i] @ ack_row cursor row # post, None)" "list_all no_ack post"
      using send_answered [OF sent] by metis
    show ?thesis
      by (rule that [of "pre @ Begin (ix_seq row) said quoted # mid @ [Post p (an_landed an), MarkSent (ix_seq row) i]" post])
        (use 2 s t in auto)
  qed
qed

lemma silent_shape:
  assumes "silent_effects cf an b cursor row = Some es"
  obtains pre post where "es = pre @ ack_row cursor row # post" "list_all no_ack pre" "list_all no_ack post"
proof -
  have "list_all no_ack (mirror_effects cf row)" by (simp add: mirror_effects_def)
  then show ?thesis
    using assms that [of "[]" "[]"] that [of "mirror_effects cf row" "[]"] that [of "mirror_effects cf row" "[After (ix_seq row)]"]
    by (auto simp: silent_effects_def split: if_splits)
qed

lemma process_answered:
  assumes "sender_for_account cf (im_account (ix_original row)) = Inr sender"
    and "binding_for (wd_inbox w) (''whatsapp'', im_account (ix_original row), row_thread row) = Inr b"
    and sent: "send_result_of (an_send an) = SentAs i" and media: "\<exists>ts. an_media an = Inr ts" and stop: "an_stop an = None"
    and evidence: "\<And>r. send_get (wd_ledger w) (ix_seq row) = Some r \<Longrightarrow> sd_state r \<noteq> Sent \<Longrightarrow> sd_reply r \<noteq> [] \<Longrightarrow>
        \<exists>found. check_twice an r = Inr found"
  obtains pre post where "process_one cf an w cursor row = (pre @ ack_row cursor row # post, None)"
    "list_all no_ack pre" "list_all no_ack post"
proof (cases "silent_effects cf an b cursor row")
  case (Some es)
  then obtain pre post where "es = pre @ ack_row cursor row # post" "list_all no_ack pre" "list_all no_ack post"
    by (rule silent_shape)
  with Some assms(1,2) show ?thesis by (intro that [of pre post]) (simp_all add: process_one_def)
next
  case None
  note here = process_one_def assms(1,2) None Let_def
  show ?thesis
  proof (cases "send_get (wd_ledger w) (ix_seq row)")
    case None
    then show ?thesis using turn_answered [OF sent media stop] that by (simp add: here) metis
  next
    case (Some r)
    consider "sd_state r = Sent" | "sd_state r \<noteq> Sent" "sd_reply r = []"
      | j where "sd_state r \<noteq> Sent" "sd_reply r \<noteq> []" "check_twice an r = Inr (Some j)"
      | "sd_state r \<noteq> Sent" "sd_reply r \<noteq> []" "check_twice an r = Inr None"
      using evidence [OF Some] by (metis option.exhaust)
    then show ?thesis
    proof cases
      case 1
      then show ?thesis by (intro that [of "[]" "[]"]) (simp_all add: here Some)
    next
      case 2
      then show ?thesis using turn_answered [OF sent media stop] that by (simp add: here Some) metis
    next
      case (3 j)
      then show ?thesis by (intro that [of "[MarkSent (ix_seq row) j]" "[]"]) (simp_all add: here Some)
    next
      case 4
      then show ?thesis
        using send_answered [OF sent] that [of "[Post _ (an_landed an), MarkSent (ix_seq row) i]"]
        by (simp add: here Some) metis
    qed
  qed
qed

lemma play_neutral_ledger: "list_all neutral es \<Longrightarrow> wd_ledger (fst (play cf now w es)) = wd_ledger w"
proof (induction es arbitrary: w)
  case (Cons e es)
  show ?case
  proof (cases "apply_effect cf now w e")
    case (Inr w')
    with Cons apply_ledger [OF Inr] neutral_allowed [of e "wd_ledger w" now] show ?thesis by simp
  qed simp
qed simp

lemma quiet_posts: "list_all (\<lambda>e. neutral e \<or> e = Turn s) es \<Longrightarrow> posts es = []"
proof (induction es)
  case (Cons e es)
  then show ?case by (cases e) (auto simp: posts_Cons landing_def)
qed simp

lemma stopped_turn:
  assumes "turn_effects cf an ib cursor row sender quoted = (es, err)"
    "aborted_at (an_stop an) (2 * Suc (cf_turn_attempts cf) + 1)" "\<exists>ts. an_media an = Inr ts"
  shows "err = None \<and> list_all no_ack es \<and> list_all (\<lambda>e. neutral e \<or> e = Turn (ix_seq row)) es"
proof -
  have "\<exists>ts. (if cf_media cf \<and> im_attachments (ix_message row) \<noteq> [] then an_media an else Inr []) = Inr ts"
    using assms(3) by (cases "cf_media cf \<and> im_attachments (ix_message row) \<noteq> []") simp_all
  then obtain ts where ts: "(if cf_media cf \<and> im_attachments (ix_message row) \<noteq> [] then an_media an else Inr []) = Inr ts" ..
  let ?ib = "fold (transcribe (cf_json_bytes cf) (an_now an) (ix_seq row)) ts ib"
  obtain runs turn where r: "run_turn cf an ?ib row = (runs, Inr turn)" using run_turn_answers by blast
  show ?thesis
    using assms(1,2) by (auto simp: turn_effects_def Let_def ts r list_all_iff)
qed

section \<open>Properties of a pass\<close>

text \<open>
  C23: A failed send never acknowledges: when a pass, whole or cut off anywhere, moves the cursor, it moves it to the next
  accepted message, which either asks for no reply (an echo of our own, a chat command, a group message that mentions
  nobody) or has its reply recorded as sent.
\<close>

theorem acknowledged_is_settled:
  assumes w: "w = world_run cf (start_world ib) evs" and cursor: "cursor = cursor_of (wd_inbox w) (cf_consumer cf)"
    and w': "w' = world_step cf w ev"
    and "ev = Pass an \<or> ev = Crash an n" "cursor_of (wd_inbox w') (cf_consumer cf) \<noteq> cursor"
  shows "\<exists>row. next_row (wd_inbox w) cursor = Some row \<and> cursor_of (wd_inbox w') (cf_consumer cf) = ix_seq row \<and>
    ((\<exists>b. binding_for (wd_inbox w) (''whatsapp'', im_account (ix_original row), row_thread row) = Inr b \<and>
        silent_effects cf an b cursor row \<noteq> None) \<or>
     (\<exists>r. send_get (wd_ledger w') (ix_seq row) = Some r \<and> sd_state r = Sent))"
proof -
  have ok: "outbox_ok w" unfolding w by (rule run_outbox_ok) simp
  then have led: "ledger_ok (wd_ledger w)" by (simp add: outbox_ok_def)
  obtain m where m: "w' = fst (play cf (an_now an) w (take m (fst (pass_effects cf an w))))"
    using assms(4) by (auto simp: w' fst_consumer_pass crashed_pass_def intro: that [of "length (fst (pass_effects cf an w))"])
  have "fst (pass_effects cf an w) \<noteq> []" using assms(5) m by (auto simp: cursor)
  then obtain c row rows where pend: "pending (wd_inbox w) (cf_consumer cf) 1 = Inr (c, row # rows)"
    by (auto simp: pass_effects_def split: sum.splits prod.splits list.splits)
  with pending_row [OF pend] have c: "c = cursor" and row: "next_row (wd_inbox w) cursor = Some row"
    by (auto simp: cursor)
  let ?es = "fst (process_one cf an w cursor row)"
  have m: "w' = fst (play cf (an_now an) w (take m ?es))" using m pass_process [OF pend] c by simp
  note acks = pass_acks(1) [OF led, of cursor row cf an]
  have allowed: "allowed_all (an_now an) (wd_ledger w) (take m ?es)"
    by (intro allowed_take pass_allowed led)
  from play_cursor [OF allowed] assms(5) m obtain c d where ack: "Ack c d \<in> set (take m ?es)"
    and moved: "cursor_of (wd_inbox w') (cf_consumer cf) = dl_seq d"
    and settled: "acks_settled (an_now an) (wd_ledger w) (take m ?es) \<Longrightarrow>
      \<exists>reply quoted. phase_of (wd_ledger w') (dl_seq d) = Settled reply quoted"
    unfolding cursor by blast
  from acks ack have "row_ack cursor row (Ack c d)" by (auto simp: list_all_iff dest: in_set_takeD)
  then have d: "dl_seq d = ix_seq row" by (auto simp: row_ack_def ack_row_def)
  show ?thesis
  proof (cases "\<exists>b. binding_for (wd_inbox w) (''whatsapp'', im_account (ix_original row), row_thread row) = Inr b \<and>
      silent_effects cf an b cursor row \<noteq> None")
    case True
    with row moved d show ?thesis by auto
  next
    case False
    then have "acks_settled (an_now an) (wd_ledger w) ?es" by (intro pass_acks(2) [OF led]) auto
    from settled [OF acks_settled_take [OF this]] d
    obtain r where "send_get (wd_ledger w') (ix_seq row) = Some r" "sd_state r = Sent"
      by (auto simp: phase_of_def Let_def split: option.splits if_splits)
    with row moved d show ?thesis by auto
  qed
qed

text \<open>
  C24: A pass with a working environment takes its message over: when the sender is configured, the attachments resolve,
  the history can be read if a send is in doubt, and the send is answered, the pass ends without an error and the
  cursor is at the message, on every path (silent, first reply, reply already out, resend).
\<close>

theorem working_pass_acknowledges:
  assumes "pending (wd_inbox w) (cf_consumer cf) 1 = Inr (cursor, row # rows)" "ackable row"
    and "sender_for_account cf (im_account (ix_original row)) = Inr sender"
    and "binding_for (wd_inbox w) (''whatsapp'', im_account (ix_original row), row_thread row) = Inr b"
    and "send_result_of (an_send an) = SentAs i" "\<exists>ts. an_media an = Inr ts" "an_stop an = None"
    and "\<And>r. send_get (wd_ledger w) (ix_seq row) = Some r \<Longrightarrow> sd_state r \<noteq> Sent \<Longrightarrow> sd_reply r \<noteq> [] \<Longrightarrow>
        \<exists>found. check_twice an r = Inr found"
  shows "snd (consumer_pass cf an w) = None \<and> cursor_of (wd_inbox (fst (consumer_pass cf an w))) (cf_consumer cf) = ix_seq row"
proof -
  obtain pre post where "process_one cf an w cursor row = (pre @ ack_row cursor row # post, None)"
    "list_all no_ack pre" "list_all no_ack post"
    by (rule process_answered [OF assms(3-7)]) (use assms(8) in auto)
  then show ?thesis by (rule pass_acked [OF assms(1,2)])
qed

text \<open>
  A group message that mentions nobody, in a thread whose policy is not \<open>all\<close>, is passed over: no agent runs, nothing
  is sent or recorded in the ledger, and the cursor moves on.
\<close>

theorem gated_message_is_passed_over:
  assumes "pending (wd_inbox w) (cf_consumer cf) 1 = Inr (cursor, row # rows)" "ackable row"
    and "sender_for_account cf (im_account (ix_original row)) = Inr sender"
    and "binding_for (wd_inbox w) (''whatsapp'', im_account (ix_original row), row_thread row) = Inr b"
    and "is_group (row_thread row)" "gated cf b row"
  shows "snd (consumer_pass cf an w) = None \<and>
    cursor_of (wd_inbox (fst (consumer_pass cf an w))) (cf_consumer cf) = ix_seq row \<and>
    wd_ledger (fst (consumer_pass cf an w)) = wd_ledger w \<and>
    (\<forall>e \<in> set (fst (pass_effects cf an w)). neutral e)"
proof -
  have "silent_effects cf an b cursor row \<noteq> None" using assms(5,6) by (simp add: silent_effects_def)
  then obtain es where es: "silent_effects cf an b cursor row = Some es" by blast
  then obtain pre post where shape: "es = pre @ ack_row cursor row # post" "list_all no_ack pre" "list_all no_ack post"
    by (rule silent_shape)
  have process: "process_one cf an w cursor row = (es, None)" by (simp add: process_one_def assms(3,4) es)
  with shape have "process_one cf an w cursor row = (pre @ ack_row cursor row # post, None)" by simp
  note acked = pass_acked [OF assms(1,2) this shape(2,3)]
  have quiet: "list_all neutral es" by (rule silent_neutral [OF es])
  have "wd_ledger (fst (play cf (an_now an) w es)) = wd_ledger w"
    by (rule play_neutral_ledger [OF quiet])
  with acked quiet process pass_process [OF assms(1)] show ?thesis by (simp add: fst_consumer_pass list_all_iff)
qed

text \<open>
  C25: A stop that arrives before the turn has ended leaves the message for the next process: nothing is recorded, nothing
  is sent (no failure note either), the cursor stays, and the pass is no error.
\<close>

theorem stop_leaves_the_message:
  assumes "pending (wd_inbox w) (cf_consumer cf) 1 = Inr (cursor, row # rows)"
    and "sender_for_account cf (im_account (ix_original row)) = Inr sender"
    and "binding_for (wd_inbox w) (''whatsapp'', im_account (ix_original row), row_thread row) = Inr b"
    and "silent_effects cf an b cursor row = None" "send_get (wd_ledger w) (ix_seq row) = None"
    and "an_stop an = Some t" "t \<le> 2 * cf_turn_attempts cf + 3" "\<exists>ts. an_media an = Inr ts"
  shows "snd (consumer_pass cf an w) = None \<and> wd_ledger (fst (consumer_pass cf an w)) = wd_ledger w \<and>
    cursor_of (wd_inbox (fst (consumer_pass cf an w))) (cf_consumer cf) = cursor \<and>
    posts (wd_trace (fst (consumer_pass cf an w))) = posts (wd_trace w)"
proof -
  have stop: "aborted_at (an_stop an) (2 * Suc (cf_turn_attempts cf) + 1)" using assms(6,7) by (simp add: aborted_at_def)
  obtain es err where t: "turn_effects cf an (wd_inbox w) cursor row sender
      (case im_replyTo (ix_message row) of Some q \<Rightarrow> q | None \<Rightarrow> im_messageId (ix_message row)) = (es, err)"
    by (cases "turn_effects cf an (wd_inbox w) cursor row sender
      (case im_replyTo (ix_message row) of Some q \<Rightarrow> q | None \<Rightarrow> im_messageId (ix_message row))")
  have quiet: "err = None \<and> list_all no_ack es \<and> list_all (\<lambda>e. neutral e \<or> e = Turn (ix_seq row)) es"
    by (rule stopped_turn [OF t stop assms(8)])
  have process: "process_one cf an w cursor row = (es, err)"
    by (simp add: process_one_def assms(2,3,4,5) Let_def t)
  note played = play_no_ack [OF quiet [THEN conjunct2, THEN conjunct1], of cf "an_now an" w]
  have "posts es = []" using quiet by (auto intro: quiet_posts)
  with played quiet process pass_process [OF assms(1)] pending_row [OF assms(1)] show ?thesis
    by (auto simp: consumer_pass_def quiet_ledger cursor_of_def checkpoint_def split: prod.splits)
qed

section \<open>The loop\<close>

lemma backoffs_failing:
  "backoffs base mx (min mx (base * 2 ^ j)) (replicate n True @ fs) =
     map (\<lambda>k. min mx (base * 2 ^ (j + k))) [0..<n] @ backoffs base mx (min mx (base * 2 ^ (j + n))) fs"
proof (induction n arbitrary: j)
  case (Suc n)
  have "min mx (min mx (base * 2 ^ j) * 2) = min mx (base * 2 ^ Suc j)" by (simp add: min_def)
  with Suc [of "Suc j"] show ?case by (simp add: map_upt_Suc del: upt_Suc)
qed simp

lemma backoffs_bounds:
  "base \<le> b \<Longrightarrow> b \<le> mx \<Longrightarrow> \<forall>x \<in> set (backoffs base mx b fs). base \<le> x \<and> x \<le> mx"
proof (induction fs arbitrary: b)
  case (Cons failed fs)
  have "base \<le> min mx (b * 2)" "min mx (b * 2) \<le> mx" "base \<le> mx" using Cons.prems by simp_all
  with Cons.IH [of "min mx (b * 2)"] Cons.IH [of base] Cons.prems show ?case by simp
qed simp

text \<open>
  The backoff doubles from its base to its limit and never passes it, and a pass that succeeds brings it back to the
  base.
\<close>

theorem backoff_doubles_to_the_limit:
  assumes "base \<le> mx"
  shows "backoffs base mx base (replicate n True @ False # rest) =
      map (\<lambda>k. min mx (base * 2 ^ k)) [0..<n] @ backoffs base mx base rest \<and>
    (\<forall>b \<in> set (backoffs base mx base fs). base \<le> b \<and> b \<le> mx)"
proof
  show "backoffs base mx base (replicate n True @ False # rest) =
      map (\<lambda>k. min mx (base * 2 ^ k)) [0..<n] @ backoffs base mx base rest"
    using backoffs_failing [of base mx 0 n "False # rest"] assms by (simp add: min_absorb2)
  show "\<forall>b \<in> set (backoffs base mx base fs). base \<le> b \<and> b \<le> mx"
    using backoffs_bounds [of base base mx fs] assms by simp
qed

end
