(* ===== verification/DeliveryCases.thy ===== *)
theory DeliveryCases
  imports Delivery
begin

text \<open>
  The two ways in which the evidence for a delivered reply fails, and the properties of \<open>Delivery\<close> on concrete runs:
  a consumer with one agent attempt and no bridges, a message in a thread, a crash, a timeout and a retry.
\<close>

section \<open>A message whose quote was answered before\<close>

text \<open>
  C26: The first message of the history that quotes what the pending reply would quote settles it, whatever its text and
  whoever it answered.  A message that quotes another one is answered with that one's quote, so a second message that
  quotes the same one can be taken for answered by the reply to the first, and its own reply is never sent.
\<close>

theorem any_quote_settles:
  assumes "sender_for_account cf (im_account (ix_original row)) = Inr sender"
    and "binding_for (wd_inbox w) (''whatsapp'', im_account (ix_original row), row_thread row) = Inr b"
    and "silent_effects cf an b cursor row = None"
    and "send_get (wd_ledger w) (ix_seq row) = Some r" "sd_state r \<noteq> Sent" "sd_reply r \<noteq> []" "sd_quoted r = Some q" "q \<noteq> []"
    and "an_check1 an = Inr ms" "length ms < 50" "m \<in> set ms" "og_quoted m = Some q" "\<forall>m \<in> set ms. og_id m \<noteq> []"
  shows "\<exists>i. process_one cf an w cursor row = ([MarkSent (ix_seq row) i, ack_row cursor row], None)"
proof -
  let ?P = "is_evidence (an_now an) (sd_quoted r) (sd_reply r)"
  have "?P m" using assms(7,8,12) by (simp add: is_evidence_def Let_def)
  with assms(11) obtain m' where m': "find ?P ms = Some m'" by (metis find_None_iff option.exhaust)
  then have "m' \<in> set ms" by (metis find_Some_iff nth_mem)
  with assms(9,10,11,13) m' have "check_twice an r = Inr (Some (og_id m'))"
    by (auto simp: check_twice_def Let_def find_delivered_reply_def)
  with assms(1-6) show ?thesis by (simp add: process_one_def Let_def)
qed

section \<open>Examples\<close>

definition ex_row :: "nat \<Rightarrow> string \<Rightarrow> string option \<Rightarrow> string \<Rightarrow> inbox_row" where
  "ex_row seq i reply_to thread =
     (let m = \<lparr>im_channel = ''whatsapp'', im_account = ''bot'', im_thread = thread, im_messageId = i, im_sender = ''ana'',
        im_senderName = None, im_sentAt = 1, im_text = ''hola'', im_replyTo = reply_to, im_mentions = None,
        im_attachments = [], im_fromMe = None\<rparr>
      in \<lparr>ix_seq = seq, ix_message = m, ix_original = m, ix_session = ''s1'', ix_project = ''p1'', ix_received = 0\<rparr>)"

definition ex_world :: "inbox_row list \<Rightarrow> world" where
  "ex_world rows = start_world (EMPTY_INBOX\<lparr>ix_rows := rows, ix_next := Suc (length rows)\<rparr>)"

definition ex_cf :: consumer_config where
  "ex_cf = \<lparr>cf_consumer = ''wa'', cf_sender = ''main'', cf_senderFor = None, cf_jids = (\<lambda>_. None),
     cf_json_bytes = (\<lambda>_. 0), cf_mirror = False, cf_commands = [], cf_queue = (\<lambda>row t. (t, False)),
     cf_group = (\<lambda>row t. (t, False)), cf_images = (\<lambda>row t. (t, [])), cf_voices = (\<lambda>row t. (t, [])),
     cf_media = False, cf_late = False, cf_turn_attempts = 1\<rparr>"

definition ex_answers :: "string \<Rightarrow> outgoing list \<Rightarrow> answers" where
  "ex_answers reply history =
     \<lparr>an_now = 0, an_own = Inr [], an_check1 = Inr history, an_check2 = Inr history, an_media = Inr [],
      an_attempts = (\<lambda>_. Ran 0 ''success'' reply [] []), an_stop = None,
      an_send = \<lparr>ha_status = 201, ha_id = Some ''r1'', ha_error = []\<rparr>, an_landed = Some ''r1''\<rparr>"

text \<open>A reply that lands while the call times out, and the history that shows it.\<close>

definition ex_timeout :: "string \<Rightarrow> answers" where
  "ex_timeout reply = (ex_answers reply [])\<lparr>an_send := \<lparr>ha_status = 0, ha_id = None, ha_error = ''timeout''\<rparr>\<rparr>"

definition ex_shown :: "string \<Rightarrow> string \<Rightarrow> outgoing" where
  "ex_shown reply quoted = \<lparr>og_id = ''r1'', og_text = reply, og_quoted = Some quoted, og_ts = None\<rparr>"

lemmas consumer_eval = ex_row_def ex_world_def ex_cf_def ex_answers_def ex_timeout_def ex_shown_def EMPTY_INBOX_def start_world_def
  pass_effects_def pending_def read_inbox_def limit_ok_def cursor_of_def checkpoint_def row_of_def
  process_one_def sender_for_account_def binding_for_def route_ok_def CHANNELS_def row_thread_def find_binding_def
  silent_effects_def own_echo_def is_group_def send_get_def turn_effects_def run_turn_def plan_reply_def
  late_marks_def send_effects_def send_result_of_def aborted_at_def ack_row_def bounded_def byte_length_def is_control_def
  js_trim_def trim_start_def trim_end_def js_ws_def Let_def
  world_run_def consumer_pass_def crashed_pass_def with_ledger_def acknowledge_def next_row_def put_checkpoint_def
  send_begin_def mark_sent_def mark_uncertain_def check_twice_def find_delivered_reply_def is_evidence_def
  map_filter_simps posts_Cons landing_def landed_def

definition ex_one :: world where
  "ex_one = ex_world [ex_row 1 ''m1'' None ''t1'']"

definition ex_retry :: "world_event list" where
  "ex_retry = [Crash (ex_answers ''hi'' []) 1, Pass (ex_timeout ''hi''), Pass (ex_answers ''hi'' [ex_shown ''hi'' ''m1''])]"

lemma ex_retry_run:
  "wd_trace (world_run ex_cf ex_one ex_retry) = [Turn 1, Turn 1, Begin 1 ''hi'' ''m1'',
     Post \<lparr>po_seq = 1, po_sender = ''main'', po_thread = ''t1'', po_text = ''hi'', po_quoted = ''m1'', po_participant = Some ''ana''\<rparr>
       (Some ''r1''), MarkUncertain 1, MarkSent 1 ''r1'',
     Ack 0 \<lparr>dl_seq = 1, dl_session = ''s1'', dl_project = ''p1''\<rparr>]"
  by (simp add: consumer_eval ex_one_def ex_retry_def)

lemma ex_retry_honest: "honest_run ex_cf ex_one ex_retry"
  by (simp add: consumer_eval ex_one_def ex_retry_def honest_answers_def honest_history_def)

text \<open>
  A reply of which the bridges leave nothing (only markers) is never taken for recorded: while the provider refuses the
  empty text, every pass runs the agent again, and the message is never acknowledged and its pictures never sent.
\<close>

definition ex_pictures :: consumer_config where
  "ex_pictures = ex_cf\<lparr>cf_images := (\<lambda>row t. ([], [t]))\<rparr>"

definition ex_refused :: answers where
  "ex_refused = (ex_answers ''shot'' [])\<lparr>an_send := \<lparr>ha_status = 400, ha_id = None, ha_error = ''empty''\<rparr>, an_landed := None\<rparr>"

definition ex_stuck :: "nat \<Rightarrow> world \<Rightarrow> bool" where
  "ex_stuck n w \<longleftrightarrow> (wd_ledger w = [] \<or> (\<exists>k t. wd_ledger w = [\<lparr>sd_seq = 1, sd_state = Uncertain, sd_reply = [],
      sd_quoted = Some ''m1'', sd_replyId = None, sd_attempts = k, sd_at = t\<rparr>])) \<and>
     wd_inbox w = wd_inbox ex_one \<and> length (filter (\<lambda>e. e = Turn 1) (wd_trace w)) = n \<and>
     list_all (\<lambda>e. \<forall>x y z. e \<noteq> Attach 1 x y z) (wd_trace w)"

lemma ex_stuck_step: "ex_stuck n w \<Longrightarrow> ex_stuck (Suc n) (world_step ex_pictures w (Pass ex_refused))"
  by (auto simp: ex_stuck_def ex_pictures_def ex_refused_def ex_one_def consumer_eval)

theorem empty_reply_runs_again:
  "length (filter (\<lambda>e. e = Turn 1) (wd_trace (world_run ex_pictures ex_one (replicate n (Pass ex_refused))))) = n \<and>
   cursor_of (wd_inbox (world_run ex_pictures ex_one (replicate n (Pass ex_refused)))) ''wa'' = 0"
proof -
  have "ex_stuck (k + n) (world_run ex_pictures w (replicate n (Pass ex_refused)))" if "ex_stuck k w" for k w
    using that
  proof (induction n arbitrary: k w)
    case (Suc n)
    from Suc.IH [OF ex_stuck_step [OF Suc.prems]] show ?case by (simp add: world_run_def)
  qed (simp add: world_run_def)
  moreover have "ex_stuck 0 ex_one" by (simp add: ex_stuck_def ex_one_def consumer_eval)
  ultimately have "ex_stuck n (world_run ex_pictures ex_one (replicate n (Pass ex_refused)))" by force
  then show ?thesis by (simp add: ex_stuck_def ex_one_def consumer_eval)
qed

section \<open>Witnesses\<close>

definition ex_inbox :: inbox where
  "ex_inbox = EMPTY_INBOX\<lparr>ix_rows := [ex_row 1 ''m1'' None ''t1''], ix_next := 2\<rparr>"

lemma ex_one_start: "ex_one = start_world ex_inbox"
  by (simp add: ex_one_def ex_world_def ex_inbox_def numeral_2_eq_2)

lemma ex_inbox_ok: "inbox_ok ex_inbox"
  by (simp add: ex_inbox_def inbox_ok_def EMPTY_INBOX_def ex_row_def Let_def checkpoint_def row_of_def)

definition ex_post :: post where
  "ex_post = \<lparr>po_seq = 1, po_sender = ''main'', po_thread = ''t1'', po_text = ''hi'', po_quoted = ''m1'', po_participant = Some ''ana''\<rparr>"

theorem intent_before_send_witness:
  "Begin (po_seq ex_post) (po_text ex_post) (po_quoted ex_post) \<in> set [Turn 1, Turn 1, Begin 1 ''hi'' ''m1''] \<and>
   Turn (po_seq ex_post) \<notin> set (drop 4 (wd_trace (world_run ex_cf ex_one ex_retry)))"
proof -
  have "wd_trace (world_run ex_cf ex_one ex_retry) = [Turn 1, Turn 1, Begin 1 ''hi'' ''m1''] @ Post ex_post (Some ''r1'') #
      drop 4 (wd_trace (world_run ex_cf ex_one ex_retry))"
    by (simp add: ex_retry_run ex_post_def)
  from intent_before_send [OF this [unfolded ex_one_start]] show ?thesis
    by (simp only: ex_one_start [symmetric]) (simp add: ex_post_def mute_def)
qed

theorem no_second_reply_witness:
  "length (landed 1 (wd_trace (world_run ex_cf ex_one ex_retry))) \<le> 1 \<and>
   landed 1 (wd_trace (world_run ex_cf ex_one ex_retry)) = [ex_post]"
  using no_second_reply [OF ex_inbox_ok ex_retry_honest [unfolded ex_one_start], of 1]
  by (simp only: ex_one_start [symmetric]) (simp add: ex_retry_run landed_def posts_Cons landing_def ex_post_def mute_def)

theorem reply_from_own_account_witness:
  "\<exists>r \<in> set (ix_rows (wd_inbox (world_run ex_cf ex_one ex_retry))).
    ix_seq r = 1 \<and> row_thread r = ''t1'' \<and> sender_for_account ex_cf (im_account (ix_original r)) = Inr ''main''"
proof -
  have "ex_post \<in> set (posts (wd_trace (world_run ex_cf ex_one ex_retry)))"
    by (simp add: ex_retry_run posts_Cons landing_def ex_post_def)
  from reply_from_own_account [OF ex_inbox_ok ex_retry_honest [unfolded ex_one_start] this [unfolded ex_one_start]]
  show ?thesis by (simp add: ex_one_start [symmetric] ex_post_def)
qed

lemma ex_pending: "pending (wd_inbox ex_one) (cf_consumer ex_cf) 1 = Inr (0, [ex_row 1 ''m1'' None ''t1''])"
  by (simp add: ex_one_def consumer_eval)

theorem acknowledged_is_settled_witness:
  "\<exists>row. next_row (wd_inbox ex_one) 0 = Some row \<and>
     cursor_of (wd_inbox (world_step ex_cf ex_one (Pass (ex_answers ''hi'' [])))) ''wa'' = ix_seq row"
proof -
  have a: "ex_one = world_run ex_cf (start_world ex_inbox) []" by (simp add: world_run_def ex_one_start)
  have b: "0 = cursor_of (wd_inbox ex_one) (cf_consumer ex_cf)" by (simp add: ex_one_def consumer_eval)
  have c: "cursor_of (wd_inbox (world_step ex_cf ex_one (Pass (ex_answers ''hi'' [])))) (cf_consumer ex_cf) \<noteq> 0"
    by (simp add: ex_one_def consumer_eval)
  have "cf_consumer ex_cf = ''wa''" by (simp add: ex_cf_def)
  with acknowledged_is_settled [OF a b refl disjI1 [OF refl] c] show ?thesis by auto
qed

theorem working_pass_acknowledges_witness:
  "snd (consumer_pass ex_cf (ex_answers ''hi'' []) ex_one) = None \<and>
   cursor_of (wd_inbox (fst (consumer_pass ex_cf (ex_answers ''hi'' []) ex_one))) ''wa'' = 1"
proof -
  have "snd (consumer_pass ex_cf (ex_answers ''hi'' []) ex_one) = None \<and>
    cursor_of (wd_inbox (fst (consumer_pass ex_cf (ex_answers ''hi'' []) ex_one))) (cf_consumer ex_cf) = ix_seq (ex_row 1 ''m1'' None ''t1'')"
    by (rule working_pass_acknowledges [OF ex_pending]) (simp_all add: ackable_def ex_one_def consumer_eval)
  then show ?thesis by (simp add: ex_cf_def ex_row_def Let_def)
qed

definition ex_group :: world where
  "ex_group = ex_world [ex_row 1 ''m1'' None ''t@g.us'']"

theorem gated_message_is_passed_over_witness:
  "cursor_of (wd_inbox (fst (consumer_pass ex_cf (ex_answers ''hi'' []) ex_group))) ''wa'' = 1 \<and>
   list_all neutral (fst (pass_effects ex_cf (ex_answers ''hi'' []) ex_group))"
proof -
  have pend: "pending (wd_inbox ex_group) (cf_consumer ex_cf) 1 = Inr (0, [ex_row 1 ''m1'' None ''t@g.us''])"
    by (simp add: ex_group_def consumer_eval)
  have "snd (consumer_pass ex_cf (ex_answers ''hi'' []) ex_group) = None \<and>
    cursor_of (wd_inbox (fst (consumer_pass ex_cf (ex_answers ''hi'' []) ex_group))) (cf_consumer ex_cf) = ix_seq (ex_row 1 ''m1'' None ''t@g.us'') \<and>
    wd_ledger (fst (consumer_pass ex_cf (ex_answers ''hi'' []) ex_group)) = wd_ledger ex_group \<and>
    (\<forall>e \<in> set (fst (pass_effects ex_cf (ex_answers ''hi'' []) ex_group)). neutral e)"
    by (rule gated_message_is_passed_over [OF pend, where b = None])
      (simp_all add: ackable_def ex_group_def consumer_eval gated_def mentions_account_def)
  then show ?thesis unfolding list_all_iff by (simp add: ex_cf_def ex_row_def Let_def)
qed

theorem stop_leaves_the_message_witness:
  "snd (consumer_pass ex_cf ((ex_answers ''hi'' [])\<lparr>an_stop := Some 2\<rparr>) ex_one) = None \<and>
   cursor_of (wd_inbox (fst (consumer_pass ex_cf ((ex_answers ''hi'' [])\<lparr>an_stop := Some 2\<rparr>) ex_one))) ''wa'' = 0"
proof -
  have "snd (consumer_pass ex_cf ((ex_answers ''hi'' [])\<lparr>an_stop := Some 2\<rparr>) ex_one) = None \<and>
    wd_ledger (fst (consumer_pass ex_cf ((ex_answers ''hi'' [])\<lparr>an_stop := Some 2\<rparr>) ex_one)) = wd_ledger ex_one \<and>
    cursor_of (wd_inbox (fst (consumer_pass ex_cf ((ex_answers ''hi'' [])\<lparr>an_stop := Some 2\<rparr>) ex_one))) (cf_consumer ex_cf) = 0 \<and>
    posts (wd_trace (fst (consumer_pass ex_cf ((ex_answers ''hi'' [])\<lparr>an_stop := Some 2\<rparr>) ex_one))) = posts (wd_trace ex_one)"
    by (rule stop_leaves_the_message [OF ex_pending, where t = 2]) (simp_all add: ex_one_def consumer_eval)
  then show ?thesis by (simp add: ex_cf_def)
qed

theorem backoff_doubles_to_the_limit_witness:
  "backoffs 1000 60000 1000 (replicate 8 True @ False # [True]) =
     [1000, 2000, 4000, 8000, 16000, 32000, 60000, 60000] @ [1000]"
  using backoff_doubles_to_the_limit [of 1000 60000 8 "[True]" "[]"] by (simp add: upt_rec)

text \<open>Both messages quote the same one; the process died after it had recorded the reply to the second.\<close>

definition ex_shared :: world where
  "ex_shared = world_run ex_cf (ex_world [ex_row 1 ''m1'' (Some ''q0'') ''t1'', ex_row 2 ''m2'' (Some ''q0'') ''t1''])
     [Pass (ex_answers ''one'' []), Crash (ex_answers ''two'' [ex_shown ''one'' ''q0'']) 2]"

theorem any_quote_settles_witness:
  "\<exists>i. process_one ex_cf (ex_answers ''two'' [ex_shown ''one'' ''q0'']) ex_shared 1 (ex_row 2 ''m2'' (Some ''q0'') ''t1'') =
      ([MarkSent 2 i, ack_row 1 (ex_row 2 ''m2'' (Some ''q0'') ''t1'')], None) \<and>
    Begin 2 ''two'' ''q0'' \<in> set (wd_trace ex_shared) \<and> landed 2 (wd_trace ex_shared) = []"
proof -
  have "\<exists>i. process_one ex_cf (ex_answers ''two'' [ex_shown ''one'' ''q0'']) ex_shared 1 (ex_row 2 ''m2'' (Some ''q0'') ''t1'') =
      ([MarkSent (ix_seq (ex_row 2 ''m2'' (Some ''q0'') ''t1'')) i, ack_row 1 (ex_row 2 ''m2'' (Some ''q0'') ''t1'')], None)"
    by (rule any_quote_settles [where r = "\<lparr>sd_seq = 2, sd_state = Sending, sd_reply = ''two'', sd_quoted = Some ''q0'',
          sd_replyId = None, sd_attempts = 1, sd_at = 0\<rparr>" and q = "''q0''" and m = "ex_shown ''one'' ''q0''"
          and ms = "[ex_shown ''one'' ''q0'']" and b = None])
      (simp_all add: ex_shared_def consumer_eval)
  moreover have "Begin 2 ''two'' ''q0'' \<in> set (wd_trace ex_shared)" "landed 2 (wd_trace ex_shared) = []"
    by (simp_all add: ex_shared_def consumer_eval)
  ultimately show ?thesis by (simp add: ex_row_def Let_def)
qed

theorem recorded_reply_stays_witness:
  "send_intent (wd_ledger (world_run ex_cf ex_shared [Pass (ex_answers ''two'' [ex_shown ''one'' ''q0''])])) 2 = Some (''two'', Some ''q0'')"
  by (rule recorded_reply_stays) (simp add: ex_shared_def consumer_eval send_intent_def)

end
