(* ===== verification/Directives.thy ===== *)
theory Directives
  imports Consumer
begin

text \<open>
  What an agent may ask of the task queue at the end of a reply (\<open>parseDirectives\<close> of src/channels/queueBridge.ts): the
  directives are taken out of the text, the last of each kind counts, and one that is too long is dropped.
\<close>

section \<open>Directives\<close>

datatype directive_kind = QueueWork | Followup | StatusReport

record parsed_reply =
  pr_text :: string
  pr_queue :: "string option"
  pr_followup :: "string option"
  pr_status :: bool

definition MAX_DIRECTIVE_BYTES :: nat where
  "MAX_DIRECTIVE_BYTES = 60000"

text \<open>\<open>DIRECTIVE\<close>: one match at the start of a text, with its kind, its value and what follows.\<close>

fun drop_colon :: "string \<Rightarrow> string" where
  "drop_colon [] = []"
| "drop_colon (c # s) = (if c = CHR '':'' then s else c # s)"

definition directive_value :: "string \<Rightarrow> (string \<times> string) option" where
  "directive_value s =
     (let s1 = drop_colon s; value = takeWhile (\<lambda>c. c \<noteq> CHR '']'') s1
      in (case after_opening '']]'' (dropWhile (\<lambda>c. c \<noteq> CHR '']'') s1) of
            None \<Rightarrow> None
          | Some rest \<Rightarrow> Some (js_trim value, rest)))"

definition directive_at :: "string \<Rightarrow> (directive_kind \<times> string \<times> string) option" where
  "directive_at s =
     (case after_opening ''[[mini-'' s of
        None \<Rightarrow> None
      | Some r \<Rightarrow>
          (case after_opening ''queue'' r of
             Some v \<Rightarrow> map_option (\<lambda>(value, rest). (QueueWork, value, rest)) (directive_value v)
           | None \<Rightarrow>
               (case after_opening ''followup'' r of
                  Some v \<Rightarrow> map_option (\<lambda>(value, rest). (Followup, value, rest)) (directive_value v)
                | None \<Rightarrow>
                    (case after_opening ''status'' r of
                       Some v \<Rightarrow> map_option (\<lambda>(value, rest). (StatusReport, value, rest)) (directive_value v)
                     | None \<Rightarrow> None))))"

lemma after_opening_length: "after_opening p s = Some r \<Longrightarrow> length s = length p + length r"
proof -
  assume "after_opening p s = Some r"
  then have "take (length p) s = p" "drop (length p) s = r" by (auto simp: after_opening_def split: if_splits)
  then have "s = p @ r" by (metis append_take_drop_id)
  then show ?thesis by simp
qed

lemma directive_value_length:
  assumes "directive_value s = Some (v, rest)"
  shows "length rest < length s"
proof -
  have "length (drop_colon s) \<le> length s" by (cases s) auto
  moreover have "after_opening '']]'' (dropWhile (\<lambda>c. c \<noteq> CHR '']'') (drop_colon s)) = Some rest"
    using assms by (simp add: directive_value_def Let_def split: option.splits)
  ultimately show ?thesis
    using after_opening_length length_dropWhile_le [of "\<lambda>c. c \<noteq> CHR '']''" "drop_colon s"] by fastforce
qed

lemma directive_at_length [termination_simp]:
  "directive_at s = Some (k, v, rest) \<Longrightarrow> length rest < length s"
  by (auto simp: directive_at_def split: option.splits dest!: after_opening_length directive_value_length)

text \<open>The texts between the directives and the directives, in order.\<close>

function split_directives :: "string \<Rightarrow> string \<times> (directive_kind \<times> string) list" where
  "split_directives s =
     (case directive_at s of
        Some (k, v, rest) \<Rightarrow> (case split_directives rest of (t, ds) \<Rightarrow> (t, (k, v) # ds))
      | None \<Rightarrow> (case s of [] \<Rightarrow> ([], []) | c # r \<Rightarrow> (case split_directives r of (t, ds) \<Rightarrow> (c # t, ds))))"
  by pat_completeness auto
termination by (relation "measure length") (auto simp: directive_at_length)

declare split_directives.simps [simp del]

text \<open>\<open>replace(/\n{3,}/g, "\n\n")\<close>.\<close>

fun squeeze_lines :: "string \<Rightarrow> string" where
  "squeeze_lines (a # b # c # s) =
     (if a = CHR 0x0A \<and> b = CHR 0x0A \<and> c = CHR 0x0A then squeeze_lines (b # c # s) else a # squeeze_lines (b # c # s))"
| "squeeze_lines s = s"

fun apply_directive :: "directive_kind \<times> string \<Rightarrow> parsed_reply \<Rightarrow> parsed_reply" where
  "apply_directive (k, v) p =
     (if MAX_DIRECTIVE_BYTES < byte_length v then p
      else (case k of
          StatusReport \<Rightarrow> p\<lparr>pr_status := True\<rparr>
        | QueueWork \<Rightarrow> (if v = [] then p else p\<lparr>pr_queue := Some v\<rparr>)
        | Followup \<Rightarrow> (if v = [] then p else p\<lparr>pr_followup := Some v\<rparr>)))"

text \<open>The bound on binary integers, for evaluation.\<close>

lemma apply_directive_code [code]:
  "apply_directive (k, v) p =
     (if 60000 < int (byte_length v) then p
      else (case k of
          StatusReport \<Rightarrow> p\<lparr>pr_status := True\<rparr>
        | QueueWork \<Rightarrow> (if v = [] then p else p\<lparr>pr_queue := Some v\<rparr>)
        | Followup \<Rightarrow> (if v = [] then p else p\<lparr>pr_followup := Some v\<rparr>)))"
  by (simp add: MAX_DIRECTIVE_BYTES_def)

definition parse_directives :: "string \<Rightarrow> parsed_reply" where
  "parse_directives reply =
     (case split_directives reply of
        (t, ds) \<Rightarrow> fold apply_directive ds
          \<lparr>pr_text = js_trim (squeeze_lines t), pr_queue = None, pr_followup = None, pr_status = False\<rparr>)"


section \<open>Printing directives\<close>

text \<open>How the prompt asks an agent to write a directive.\<close>

fun print_directive :: "directive_kind \<times> string \<Rightarrow> string" where
  "print_directive (QueueWork, v) = ''[[mini-queue: '' @ v @ '']]''"
| "print_directive (Followup, v) = ''[[mini-followup: '' @ v @ '']]''"
| "print_directive (StatusReport, v) = ''[[mini-status: '' @ v @ '']]''"

fun weave :: "(string \<times> directive_kind \<times> string) list \<Rightarrow> string \<Rightarrow> string" where
  "weave [] last_text = last_text"
| "weave ((t, d) # rest) last_text = t @ print_directive d @ weave rest last_text"

text \<open>A text in which no directive begins, and a value that can stand in one.\<close>

fun plain :: "string \<Rightarrow> bool" where
  "plain [] = True"
| "plain (c # t) = (after_opening ''[[mini-'' (c # t) = None \<and> plain t)"

definition printable :: "directive_kind \<times> string \<Rightarrow> bool" where
  "printable d = (CHR '']'' \<notin> set (snd d) \<and> js_trim (snd d) = snd d)"

definition directive_next :: "string \<Rightarrow> bool" where
  "directive_next s = (s = [] \<or> (\<exists>z. s = ''[[mini-'' @ z))"

text \<open>An opening does not begin in a text and end in the directive after it: no proper end of it is one of its starts.\<close>

lemma opening_not_across:
  assumes "after_opening ''[[mini-'' (c # t) = None" "directive_next s"
  shows "after_opening ''[[mini-'' (c # t @ s) = None"
proof (cases "6 \<le> length t")
  case True
  then have "take (length ''[[mini-'') ((c # t) @ s) = take (length ''[[mini-'') (c # t)" by (simp only: take_append) simp
  with assms(1) show ?thesis unfolding after_opening_def by (metis append_Cons option.distinct(1))
next
  case False
  then have "length t = 0 \<or> length t = 1 \<or> length t = 2 \<or> length t = 3 \<or> length t = 4 \<or> length t = 5" by arith
  with assms(2) show ?thesis
    by (auto simp: after_opening_def directive_next_def length_Suc_conv numeral_eq_Suc)
qed

lemma split_plain: "plain t \<Longrightarrow> directive_next s \<Longrightarrow> split_directives (t @ s) = apfst (append t) (split_directives s)"
proof (induction t)
  case Nil
  show ?case by (cases "split_directives s") simp
next
  case (Cons c t)
  then have "directive_at (c # t @ s) = None" by (simp add: directive_at_def opening_not_across)
  with Cons show ?case
    by (subst append_Cons, subst split_directives.simps) (cases "split_directives s", simp)
qed

lemma split_plain_end: "plain t \<Longrightarrow> split_directives t = (t, [])"
  using split_plain [of t "[]"] by (simp add: split_directives.simps [of "[]"] directive_at_def after_opening_def directive_next_def)

lemma directive_next_print: "directive_next (print_directive d @ s)"
  by (cases d rule: print_directive.cases) (auto simp: directive_next_def)

lemma js_trim_blank: "js_trim (CHR '' '' # v) = js_trim v"
  by (simp add: js_trim_def trim_start_def js_ws_def)

lemma directive_value_print:
  "CHR '']'' \<notin> set v \<Longrightarrow> directive_value ('': '' @ v @ '']]'' @ s) = Some (js_trim v, s)"
proof -
  assume "CHR '']'' \<notin> set v"
  then have "\<And>x. x \<in> set (CHR '' '' # v) \<Longrightarrow> x \<noteq> CHR '']''" by auto
  then have "takeWhile (\<lambda>c. c \<noteq> CHR '']'') ((CHR '' '' # v) @ '']]'' @ s) = CHR '' '' # v"
    "dropWhile (\<lambda>c. c \<noteq> CHR '']'') ((CHR '' '' # v) @ '']]'' @ s) = '']]'' @ s"
    by (subst takeWhile_append2 dropWhile_append2; simp)+
  then show ?thesis by (simp add: directive_value_def js_trim_blank after_opening_def)
qed

lemma directive_at_print:
  "printable d \<Longrightarrow> directive_at (print_directive d @ s) = Some (fst d, snd d, s)"
proof (cases d)
  case (Pair k v)
  assume "printable d"
  then have v: "CHR '']'' \<notin> set v" "js_trim v = v" by (auto simp: printable_def Pair)
  have "after_opening ''[[mini-'' (''[[mini-'' @ x) = Some x" "after_opening ''queue'' (''queue'' @ x) = Some x"
    "after_opening ''followup'' (''followup'' @ x) = Some x" "after_opening ''status'' (''status'' @ x) = Some x" for x
    by (rule after_opening_append)+
  then show ?thesis
    using directive_value_print [OF v(1), of s] v(2)
    by (cases k) (simp_all add: Pair directive_at_def, simp_all add: after_opening_def)
qed

lemma split_weave:
  assumes "list_all (\<lambda>(t, d). plain t \<and> printable d) chunks" "plain last_text"
  shows "split_directives (weave chunks last_text) = (concat (map fst chunks) @ last_text, map snd chunks)"
  using assms(1)
proof (induction chunks)
  case Nil
  show ?case by (simp add: split_plain_end [OF assms(2)])
next
  case (Cons x chunks)
  obtain t d where x: "x = (t, d)" by (cases x)
  with Cons show ?case
    by (simp add: split_plain directive_next_print split_directives.simps [of "print_directive d @ s" for s] directive_at_print)
qed

text \<open>The last value of a kind that counts.\<close>

definition last_value :: "directive_kind \<Rightarrow> (directive_kind \<times> string) list \<Rightarrow> string option" where
  "last_value kind ds =
     (let vs = filter (\<lambda>(k, v). k = kind \<and> v \<noteq> [] \<and> byte_length v \<le> MAX_DIRECTIVE_BYTES) ds
      in if vs = [] then None else Some (snd (last vs)))"

lemma last_value_Nil [simp]: "last_value kind [] = None"
  by (simp add: last_value_def)

lemma last_value_Cons:
  "last_value kind ((k, v) # ds) = (case last_value kind ds of Some w \<Rightarrow> Some w
     | None \<Rightarrow> if k = kind \<and> v \<noteq> [] \<and> byte_length v \<le> MAX_DIRECTIVE_BYTES then Some v else None)"
  by (simp add: last_value_def Let_def)

lemma apply_directive_fields:
  "pr_text (apply_directive (k, v) p) = pr_text p"
  "pr_queue (apply_directive (k, v) p) =
     (if k = QueueWork \<and> v \<noteq> [] \<and> byte_length v \<le> MAX_DIRECTIVE_BYTES then Some v else pr_queue p)"
  "pr_followup (apply_directive (k, v) p) =
     (if k = Followup \<and> v \<noteq> [] \<and> byte_length v \<le> MAX_DIRECTIVE_BYTES then Some v else pr_followup p)"
  "pr_status (apply_directive (k, v) p) \<longleftrightarrow> pr_status p \<or> (k = StatusReport \<and> byte_length v \<le> MAX_DIRECTIVE_BYTES)"
  by (cases k; simp add: not_less)+

lemma apply_directives:
  "pr_text (fold apply_directive ds p) = pr_text p"
  "pr_queue (fold apply_directive ds p) = (case last_value QueueWork ds of None \<Rightarrow> pr_queue p | Some v \<Rightarrow> Some v)"
  "pr_followup (fold apply_directive ds p) = (case last_value Followup ds of None \<Rightarrow> pr_followup p | Some v \<Rightarrow> Some v)"
  "pr_status (fold apply_directive ds p) \<longleftrightarrow>
     pr_status p \<or> list_ex (\<lambda>(k, v). k = StatusReport \<and> byte_length v \<le> MAX_DIRECTIVE_BYTES) ds"
  by (induction ds arbitrary: p)
    (auto simp: last_value_Cons apply_directive_fields simp del: apply_directive.simps split: option.splits)

text \<open>
  C32: What an agent wrote between its directives is the reply, without them; of several directives of a kind the last one
  that has a value and is not too long counts.  The texts are ones in which no directive begins (they contain no
  \<open>[[mini-\<close>), and the values contain no closing bracket and are trimmed, as the prompt asks the agent to write them.
\<close>

theorem directives_roundtrip:
  assumes "list_all (\<lambda>(t, d). plain t \<and> printable d) chunks" "plain last_text"
  shows "parse_directives (weave chunks last_text) =
     \<lparr>pr_text = js_trim (squeeze_lines (concat (map fst chunks) @ last_text)),
      pr_queue = last_value QueueWork (map snd chunks),
      pr_followup = last_value Followup (map snd chunks),
      pr_status = list_ex (\<lambda>(k, v). k = StatusReport \<and> byte_length v \<le> MAX_DIRECTIVE_BYTES) (map snd chunks)\<rparr>"
  by (rule parsed_reply.equality) (simp_all add: parse_directives_def split_weave [OF assms] apply_directives split: option.split)

text \<open>A directive inside another is put together again by taking out the inner one.\<close>

lemma nested_directive_survives:
  "pr_text (parse_directives ''[[mini-[[mini-status]]status]]'') = ''[[mini-status]]''"
  by code_simp

text \<open>A value that contains a closing bracket makes no directive: it is not dropped, the reply shows it raw.\<close>

lemma bracket_in_value_survives:
  "parse_directives ''ok [[mini-queue: fix a[0] now]]'' =
     \<lparr>pr_text = ''ok [[mini-queue: fix a[0] now]]'', pr_queue = None, pr_followup = None, pr_status = False\<rparr>"
  by code_simp

end
