(* ===== verification/Flows.thy ===== *)
theory Flows
  imports Main
begin

text \<open>
  Asynchronous functions.  Between two \<open>await\<close>s a function runs alone on the shared state; at an \<open>await\<close> it hands a
  request to the outside and goes on with the answer, on whatever the state has become.  A running call is therefore
  either finished, or waiting with a request and the rest of its code, or at the head of a loop whose length is not known
  beforehand.  Calls are written in continuation passing style: an action is given what follows it, for a value and for
  an error that is thrown.  The second part is a logic for them: an invariant of the shared state, what only grows, what
  may be asked, what is answered and what holds at a loop head.
\<close>

section \<open>Running calls\<close>

datatype ('s, 'r, 'a, 'l) running =
    Done
  | Await 'r "'a \<Rightarrow> 's \<Rightarrow> 's \<times> ('s, 'r, 'a, 'l) running"
  | Loop 'l

type_synonym ('s, 'r, 'a, 'l) flow = "'s \<Rightarrow> 's \<times> ('s, 'r, 'a, 'l) running"

type_synonym ('s, 'r, 'a, 'l, 'v) action = "(string + 'v \<Rightarrow> ('s, 'r, 'a, 'l) flow) \<Rightarrow> ('s, 'r, 'a, 'l) flow"

fun ended :: "('s, 'r, 'a, 'l) running \<Rightarrow> bool" where
  "ended Done = True"
| "ended p = False"

definition finished :: "('s, 'r, 'a, 'l) flow" where
  "finished s = (s, Done)"

definition ret :: "'v \<Rightarrow> ('s, 'r, 'a, 'l, 'v) action" where
  "ret v k = k (Inr v)"

definition throw :: "string \<Rightarrow> ('s, 'r, 'a, 'l, 'v) action" where
  "throw e k = k (Inl e)"

definition andthen ::
    "('s, 'r, 'a, 'l, 'v) action \<Rightarrow> ('v \<Rightarrow> ('s, 'r, 'a, 'l, 'w) action) \<Rightarrow> ('s, 'r, 'a, 'l, 'w) action" where
  "andthen m f k = m (\<lambda>r. case r of Inl e \<Rightarrow> k (Inl e) | Inr v \<Rightarrow> f v k)"

definition attempting :: "('s, 'r, 'a, 'l, 'v) action \<Rightarrow> ('s, 'r, 'a, 'l, string + 'v) action" where
  "attempting m k = m (\<lambda>r. k (Inr r))"

definition await :: "'r \<Rightarrow> ('s, 'r, 'a, 'l, 'a) action" where
  "await r k s = (s, Await r (\<lambda>a. k (Inr a)))"

definition modify :: "('s \<Rightarrow> 's) \<Rightarrow> ('s, 'r, 'a, 'l, unit) action" where
  "modify f k s = k (Inr ()) (f s)"

definition reading :: "('s \<Rightarrow> 'v) \<Rightarrow> ('s, 'r, 'a, 'l, 'v) action" where
  "reading f k s = k (Inr (f s)) s"

definition of_result :: "string + 'v \<Rightarrow> ('s, 'r, 'a, 'l, 'v) action" where
  "of_result r k = k r"

primrec for_each :: "('x \<Rightarrow> ('s, 'r, 'a, 'l, unit) action) \<Rightarrow> 'x list \<Rightarrow> ('s, 'r, 'a, 'l, unit) action" where
  "for_each f [] = ret ()"
| "for_each f (x # xs) = andthen (f x) (\<lambda>_. for_each f xs)"

lemmas action_defs = ret_def throw_def andthen_def attempting_def await_def modify_def reading_def of_result_def
  finished_def

text \<open>One call on its own, with a given outside; \<^const>\<open>None\<close> when it never ends.\<close>

partial_function (option) drive ::
    "('r \<Rightarrow> 's \<Rightarrow> 'a) \<Rightarrow> ('l \<Rightarrow> ('s, 'r, 'a, 'l) flow) \<Rightarrow> 's \<times> ('s, 'r, 'a, 'l) running \<Rightarrow> 's option" where
  "drive env head x =
     (case x of (s, p) \<Rightarrow>
       (case p of
          Done \<Rightarrow> Some s
        | Await r f \<Rightarrow> drive env head (f (env r s) s)
        | Loop l \<Rightarrow> drive env head (head l s)))"

lemma drive_simps [simp]:
  "drive env head (s, Done) = Some s"
  "drive env head (s, Await r f) = drive env head (f (env r s) s)"
  "drive env head (s, Loop l) = drive env head (head l s)"
  by (subst drive.simps, simp)+

text \<open>The requests of a call, with a given outside.\<close>

inductive asks :: "('r \<Rightarrow> 's \<Rightarrow> 'a) \<Rightarrow> 's \<times> ('s, 'r, 'a, 'l) running \<Rightarrow> 'r \<Rightarrow> bool" for env where
  asks_now: "asks env (s, Await r f) r"
| asks_later: "asks env (f (env r s) s) r' \<Longrightarrow> asks env (s, Await r f) r'"

inductive_cases asks_awaitE: "asks env (s, Await r f) r'"

text \<open>The first of them, computed.\<close>

primrec asked :: "nat \<Rightarrow> ('r \<Rightarrow> 's \<Rightarrow> 'a) \<Rightarrow> 's \<times> ('s, 'r, 'a, 'l) running \<Rightarrow> 'r list" where
  "asked 0 env x = []"
| "asked (Suc n) env x = (case x of (s, p) \<Rightarrow> (case p of Await r f \<Rightarrow> r # asked n env (f (env r s) s) | _ \<Rightarrow> []))"

lemma asked_asks: "r \<in> set (asked n env x) \<Longrightarrow> asks env x r"
proof (induction n arbitrary: x)
  case (Suc n)
  then obtain s r' f where x: "x = (s, Await r' f)" "r = r' \<or> r \<in> set (asked n env (f (env r' s) s))"
    by (auto split: prod.splits running.splits)
  have "r \<in> set (asked n env (f (env r' s) s)) \<Longrightarrow> asks env (f (env r' s) s) r" by (rule Suc.IH)
  with x show ?case by (auto intro: asks_now asks_later)
qed simp

section \<open>A logic of flows\<close>

record ('s, 'r, 'a, 'l) contract =
  ct_inv :: "'s \<Rightarrow> bool"
  ct_grows :: "'s \<Rightarrow> 's \<Rightarrow> bool"
  ct_asks :: "'s \<Rightarrow> 'r \<Rightarrow> bool"
  ct_answers :: "'s \<Rightarrow> 'r \<Rightarrow> 'a \<Rightarrow> bool"
  ct_head :: "'s \<Rightarrow> 'l \<Rightarrow> bool"

text \<open>A running call keeps to the contract from a state on, whatever the others do to the state meanwhile.\<close>

inductive sound :: "('s, 'r, 'a, 'l) contract \<Rightarrow> 's \<Rightarrow> ('s, 'r, 'a, 'l) running \<Rightarrow> bool" for C where
  sound_done: "sound C s Done"
| sound_await:
    "ct_asks C s r \<Longrightarrow>
     (\<And>a t. ct_grows C s t \<Longrightarrow> ct_inv C t \<Longrightarrow> ct_answers C t r a \<Longrightarrow>
        ct_inv C (fst (f a t)) \<and> ct_grows C t (fst (f a t)) \<and> sound C (fst (f a t)) (snd (f a t))) \<Longrightarrow>
     sound C s (Await r f)"
| sound_loop: "ct_head C s l \<Longrightarrow> sound C s (Loop l)"

inductive_cases sound_awaitE: "sound C s (Await r f)"
inductive_cases sound_loopE: "sound C s (Loop l)"

definition runs :: "('s, 'r, 'a, 'l) contract \<Rightarrow> 's \<Rightarrow> ('s, 'r, 'a, 'l) flow \<Rightarrow> bool" where
  "runs C s fl \<longleftrightarrow> ct_inv C (fst (fl s)) \<and> ct_grows C s (fst (fl s)) \<and> sound C (fst (fl s)) (snd (fl s))"

text \<open>From states with \<open>P\<close> the action leads to outcomes with \<open>Q\<close>, if it leads anywhere.\<close>

definition valid ::
    "('s, 'r, 'a, 'l) contract \<Rightarrow> ('s \<Rightarrow> bool) \<Rightarrow> ('s, 'r, 'a, 'l, 'v) action \<Rightarrow> (string + 'v \<Rightarrow> 's \<Rightarrow> bool) \<Rightarrow> bool" where
  "valid C P m Q \<longleftrightarrow>
     (\<forall>k s. P s \<longrightarrow> ct_inv C s \<longrightarrow>
        (\<forall>r t. Q r t \<longrightarrow> ct_inv C t \<longrightarrow> ct_grows C s t \<longrightarrow> runs C t (k r)) \<longrightarrow> runs C s (m k))"

definition lasting :: "('s, 'r, 'a, 'l) contract \<Rightarrow> ('s \<Rightarrow> bool) \<Rightarrow> bool" where
  "lasting C P \<longleftrightarrow> (\<forall>s t. P s \<longrightarrow> ct_grows C s t \<longrightarrow> ct_inv C t \<longrightarrow> P t)"

text \<open>The laws of a contract: growth is a preorder, and what may be asked or holds at a loop head lasts.\<close>

locale flow_contract =
  fixes C :: "('s, 'r, 'a, 'l) contract"
  assumes grows_refl: "ct_grows C s s"
    and grows_trans: "ct_grows C s t \<Longrightarrow> ct_grows C t u \<Longrightarrow> ct_grows C s u"
    and asks_last: "ct_asks C s r \<Longrightarrow> ct_grows C s t \<Longrightarrow> ct_inv C t \<Longrightarrow> ct_asks C t r"
    and head_lasts: "ct_head C s l \<Longrightarrow> ct_grows C s t \<Longrightarrow> ct_inv C t \<Longrightarrow> ct_head C t l"
begin

lemma sound_later:
  assumes p: "sound C s p" and g: "ct_grows C s t" and i: "ct_inv C t"
  shows "sound C t p"
  using p
proof cases
  case (sound_await r f)
  then show ?thesis using asks_last [OF _ g i] grows_trans [OF g] by (auto intro!: sound.sound_await)
qed (use head_lasts [OF _ g i] in \<open>auto intro: sound.intros\<close>)

lemma runs_earlier: "runs C t fl \<Longrightarrow> ct_grows C s t \<Longrightarrow> fl s = fl t \<Longrightarrow> runs C s fl"
  by (auto simp: runs_def intro: grows_trans)

lemma runs_done: "ct_inv C s \<Longrightarrow> runs C s finished"
  by (simp add: runs_def finished_def grows_refl sound_done)

lemma runs_loop: "ct_inv C s \<Longrightarrow> ct_head C s l \<Longrightarrow> runs C s (\<lambda>s. (s, Loop l))"
  by (simp add: runs_def grows_refl sound_loop)

lemma validD:
  "valid C P m Q \<Longrightarrow> P s \<Longrightarrow> ct_inv C s \<Longrightarrow>
   (\<And>r t. Q r t \<Longrightarrow> ct_inv C t \<Longrightarrow> ct_grows C s t \<Longrightarrow> runs C t (k r)) \<Longrightarrow> runs C s (m k)"
  by (simp add: valid_def)

lemma valid_pre: "valid C P m Q \<Longrightarrow> (\<And>s. R s \<Longrightarrow> P s) \<Longrightarrow> valid C R m Q"
  by (simp add: valid_def)

lemma valid_if: "valid C P m Q \<Longrightarrow> valid C P m' Q \<Longrightarrow> valid C P (if c then m else m') Q"
  by simp

lemma valid_with_inv: "valid C P m Q \<Longrightarrow> (\<And>s. R s \<Longrightarrow> ct_inv C s \<Longrightarrow> P s) \<Longrightarrow> valid C R m Q"
  by (simp add: valid_def)

lemma valid_post: "valid C P m Q \<Longrightarrow> (\<And>r s. Q r s \<Longrightarrow> R r s) \<Longrightarrow> valid C P m R"
  unfolding valid_def by blast

lemma valid_runs: "valid C P m Q \<Longrightarrow> P s \<Longrightarrow> ct_inv C s \<Longrightarrow> (\<And>r t. Q r t \<Longrightarrow> ct_inv C t \<Longrightarrow> runs C t (k r)) \<Longrightarrow> runs C s (m k)"
  by (simp add: valid_def)

lemma valid_ret: "valid C (Q (Inr v)) (ret v) Q"
  by (simp add: valid_def ret_def grows_refl)

lemma valid_throw: "valid C (Q (Inl e)) (throw e) Q"
  by (simp add: valid_def throw_def grows_refl)

lemma valid_of_result: "valid C (Q r) (of_result r) Q"
  by (simp add: valid_def of_result_def grows_refl)

lemma valid_reading: "valid C (\<lambda>s. Q (Inr (f s)) s) (reading f) Q"
proof -
  have "runs C s (k (Inr (f s))) \<Longrightarrow> runs C s (reading f k)" for k s
    by (simp add: runs_def reading_def)
  then show ?thesis by (simp add: valid_def grows_refl)
qed

lemma valid_modify:
  assumes "\<And>s. P s \<Longrightarrow> ct_inv C s \<Longrightarrow> ct_inv C (f s) \<and> ct_grows C s (f s) \<and> Q (Inr ()) (f s)"
  shows "valid C P (modify f) Q"
proof -
  have "runs C (f s) (k (Inr ())) \<Longrightarrow> ct_grows C s (f s) \<Longrightarrow> runs C s (modify f k)" for k s
    by (auto simp: runs_def modify_def intro: grows_trans)
  then show ?thesis using assms by (simp add: valid_def)
qed

lemma valid_andthen:
  assumes "valid C P m R" "\<And>v. valid C (R (Inr v)) (f v) Q" "\<And>e s. R (Inl e) s \<Longrightarrow> Q (Inl e) s"
  shows "valid C P (andthen m f) Q"
  unfolding valid_def
proof (intro allI impI)
  fix k s
  assume P: "P s" and i: "ct_inv C s" and k: "\<forall>r t. Q r t \<longrightarrow> ct_inv C t \<longrightarrow> ct_grows C s t \<longrightarrow> runs C t (k r)"
  have "runs C t (case r of Inl e \<Rightarrow> k (Inl e) | Inr v \<Rightarrow> f v k)"
    if t: "R r t" "ct_inv C t" "ct_grows C s t" for r t
  proof (cases r)
    case (Inl e)
    with t k assms(3) show ?thesis by simp
  next
    case (Inr v)
    have "\<forall>r u. Q r u \<longrightarrow> ct_inv C u \<longrightarrow> ct_grows C t u \<longrightarrow> runs C u (k r)"
      using k grows_trans [OF t(3)] by blast
    with assms(2) [of v] t Inr show ?thesis by (simp add: valid_def)
  qed
  then show "runs C s (andthen m f k)"
    using assms(1) P i unfolding valid_def andthen_def by blast
qed

lemma valid_attempting: "valid C P m (\<lambda>r. Q (Inr r)) \<Longrightarrow> valid C P (attempting m) Q"
  by (simp add: valid_def attempting_def)

text \<open>At an \<open>await\<close> only what lasts is still known of the state; the answer is one of those that can be given.\<close>

lemma valid_await:
  assumes "\<And>s. P s \<Longrightarrow> ct_inv C s \<Longrightarrow> ct_asks C s r" "lasting C P"
  shows "valid C P (await r) (\<lambda>x s. P s \<and> (\<exists>a. x = Inr a \<and> ct_answers C s r a))"
  unfolding valid_def
proof (intro allI impI)
  fix k :: "string + 'a \<Rightarrow> ('s, 'r, 'a, 'l) flow" and s
  assume P: "P s" and i: "ct_inv C s"
    and k: "\<forall>x t. P t \<and> (\<exists>a. x = Inr a \<and> ct_answers C t r a) \<longrightarrow> ct_inv C t \<longrightarrow> ct_grows C s t \<longrightarrow> runs C t (k x)"
  have "runs C t (k (Inr a))" if "ct_grows C s t" "ct_inv C t" "ct_answers C t r a" for a t
    using that k P assms(2) by (auto simp: lasting_def)
  then have "sound C s (Await r (\<lambda>a. k (Inr a)))"
    using assms(1) [OF P i] by (intro sound_await) (auto simp: runs_def)
  then show "runs C s (await r k)"
    by (simp add: runs_def await_def i grows_refl)
qed

lemma valid_frame:
  assumes "valid C P m Q" "lasting C F"
  shows "valid C (\<lambda>s. P s \<and> F s) m (\<lambda>r s. Q r s \<and> F s)"
  unfolding valid_def
proof (intro allI impI)
  fix k s
  assume P: "P s \<and> F s" and i: "ct_inv C s"
    and k: "\<forall>r t. Q r t \<and> F t \<longrightarrow> ct_inv C t \<longrightarrow> ct_grows C s t \<longrightarrow> runs C t (k r)"
  have "\<forall>r t. Q r t \<longrightarrow> ct_inv C t \<longrightarrow> ct_grows C s t \<longrightarrow> runs C t (k r)"
    using k P assms(2) by (auto simp: lasting_def)
  with assms(1) P i show "runs C s (m k)" by (simp add: valid_def)
qed

text \<open>The rules in the form in which code is written: an action and what follows.\<close>

lemma valid_read_then:
  assumes "\<And>v. valid C (\<lambda>s. P s \<and> f s = v) (g v) Q"
  shows "valid C P (andthen (reading f) g) Q"
  unfolding valid_def
proof (intro allI impI)
  fix k s
  assume "P s" "ct_inv C s" "\<forall>r t. Q r t \<longrightarrow> ct_inv C t \<longrightarrow> ct_grows C s t \<longrightarrow> runs C t (k r)"
  then have "runs C s (g (f s) k)" using assms [of "f s"] by (simp add: valid_def)
  then show "runs C s (andthen (reading f) g k)" by (simp add: runs_def andthen_def reading_def)
qed

lemma valid_modify_then:
  assumes "\<And>s. P s \<Longrightarrow> ct_inv C s \<Longrightarrow> ct_inv C (f s) \<and> ct_grows C s (f s) \<and> R (f s)" "valid C R (g ()) Q"
  shows "valid C P (andthen (modify f) g) Q"
proof (rule valid_andthen [where R = "\<lambda>r s. (\<exists>v. r = Inr v) \<and> R s"])
  show "valid C P (modify f) (\<lambda>r s. (\<exists>v. r = Inr v) \<and> R s)" by (rule valid_modify) (use assms(1) in auto)
  show "valid C (\<lambda>s. (\<exists>v'. Inr v = Inr v') \<and> R s) (g v) Q" for v :: unit using assms(2) by simp
qed simp

lemma valid_await_then:
  assumes "\<And>s. P s \<Longrightarrow> ct_inv C s \<Longrightarrow> ct_asks C s r" "lasting C P"
    and "\<And>a. valid C (\<lambda>s. P s \<and> ct_answers C s r a) (f a) Q"
  shows "valid C P (andthen (await r) f) Q"
  by (rule valid_andthen [OF valid_await [OF assms(1,2)]]) (use assms(3) in \<open>auto elim!: valid_pre\<close>)

lemma valid_result_then:
  assumes "\<And>e s. r = Inl e \<Longrightarrow> P s \<Longrightarrow> Q (Inl e) s" "\<And>v. r = Inr v \<Longrightarrow> valid C P (f v) Q"
  shows "valid C P (andthen (of_result r) f) Q"
  using assms by (cases r) (auto simp: valid_def andthen_def of_result_def grows_refl)

lemma valid_attempt_then:
  assumes "valid C P m R" "\<And>r. valid C (R r) (f r) Q"
  shows "valid C P (andthen (attempting m) f) Q"
proof -
  have "andthen (attempting m) f k = m (\<lambda>r. f r k)" for k by (simp add: andthen_def attempting_def)
  then show ?thesis
    unfolding valid_def
  proof (intro allI impI)
    fix k s
    assume eq: "\<And>k. andthen (attempting m) f k = m (\<lambda>r. f r k)"
      and P: "P s" "ct_inv C s" and k: "\<forall>r t. Q r t \<longrightarrow> ct_inv C t \<longrightarrow> ct_grows C s t \<longrightarrow> runs C t (k r)"
    have "runs C t (f r k)" if t: "R r t" "ct_inv C t" "ct_grows C s t" for r t
      using assms(2) t(1,2) by (rule validD) (use k grows_trans [OF t(3)] in blast)
    with validD [OF assms(1) P, of "\<lambda>r. f r k"] show "runs C s (andthen (attempting m) f k)" unfolding eq by simp
  qed
qed

lemma lasting_conj: "lasting C P \<Longrightarrow> lasting C Q \<Longrightarrow> lasting C (\<lambda>s. P s \<and> Q s)"
  unfolding lasting_def by blast

lemma lasting_pure [simp]: "lasting C (\<lambda>s. \<phi>)"
  by (simp add: lasting_def)

lemma valid_for_each:
  assumes "\<And>x. x \<in> set xs \<Longrightarrow> valid C P (f x) (\<lambda>r. P)"
  shows "valid C P (for_each f xs) (\<lambda>r. P)"
  using assms
proof (induction xs)
  case Nil
  show ?case by (simp add: valid_ret [where Q = "\<lambda>r. P"])
next
  case (Cons x xs)
  show ?case
    by simp (rule valid_andthen [where R = "\<lambda>r. P"], use Cons in auto)
qed

lemma valid_conj_pure: "(\<phi> \<Longrightarrow> valid C P m Q) \<Longrightarrow> valid C (\<lambda>s. \<phi> \<and> P s) m Q"
  by (auto simp: valid_def)

text \<open>A call that is answered goes on within the contract.\<close>

lemma sound_answer:
  assumes "sound C s (Await r f)" "ct_inv C s" "ct_answers C s r a"
  shows "ct_inv C (fst (f a s)) \<and> ct_grows C s (fst (f a s)) \<and> sound C (fst (f a s)) (snd (f a s))"
  using assms grows_refl by (elim sound_awaitE) auto

text \<open>A call asks only what its contract allows.\<close>

lemma asks_allowed:
  assumes "asks env x r" "sound C (fst x) (snd x)" "ct_inv C (fst x)"
    and "\<And>s r. ct_inv C s \<Longrightarrow> ct_answers C s r (env r s)"
  shows "\<exists>s. ct_asks C s r"
  using assms(1-3)
proof (induction rule: asks.induct)
  case (asks_now s r f)
  then show ?case by (auto elim: sound_awaitE)
next
  case (asks_later f r s r')
  then have "ct_inv C s" "sound C s (Await r f)" by simp_all
  with sound_answer [of s r f "env r s"] assms(4) [of s r] asks_later.IH show ?case by simp
qed

text \<open>On its own a call ends, or comes to a loop head that the contract allows.\<close>

lemma drive_to_head:
  assumes "\<And>s r. ct_inv C s \<Longrightarrow> ct_answers C s r (env r s)"
    and "\<And>s l. ct_inv C s \<Longrightarrow> ct_head C s l \<Longrightarrow> \<exists>t. drive env head (s, Loop l) = Some t"
  shows "sound C s p \<Longrightarrow> ct_inv C s \<Longrightarrow> \<exists>t. drive env head (s, p) = Some t"
proof (induction rule: sound.induct)
  case (sound_await s r f)
  have "ct_answers C s r (env r s)" using assms(1) sound_await.prems by simp
  then show ?case using sound_await.IH [OF grows_refl sound_await.prems, of "env r s"] by simp
qed (use assms(2) in auto)

end

end
