(* ===== verification/QueueBridge.thy ===== *)
theory QueueBridge
  imports Directives Flows
begin

text \<open>
  The bridge between the chats and the persistent task queue (src/channels/queueBridge.ts).  Work asked for in a chat is
  written down and put into the queue; follow-ups amend a task; what happens to a task goes back, as a note, to the thread
  that asked for it.  Every asynchronous method is a flow over the shared state: the bridge's tables and fields, and what
  only others write (the inbox, the queue's log of events, the clock).  Queue commands, sends and histories are requests.
\<close>

section \<open>Data\<close>

text \<open>Columns of the queue's answers that the bridge never reads (a node's directory and fence, an event's time) are left out.\<close>

datatype task_state = Creating | Queued

record task_row =
  tk_task :: string
  tk_seq :: nat
  tk_channel :: string
  tk_account :: string
  tk_thread :: string
  tk_session :: string
  tk_project :: string
  tk_cwd :: string
  tk_goal :: string
  tk_state :: task_state
  tk_attempts :: nat
  tk_updated :: int
  tk_stall :: "int option"

record note_row =
  nt_key :: string
  nt_task :: "string option"
  nt_thread :: string
  nt_quoted :: "string option"
  nt_participant :: "string option"
  nt_account :: string
  nt_text :: string
  nt_state :: send_state
  nt_attempts :: nat
  nt_updated :: int

record graph_node =
  gn_id :: string
  gn_project :: string
  gn_goal :: string
  gn_status :: string
  gn_owner :: "string option"
  gn_lease :: "int option"
  gn_result :: "string option"
  gn_version :: nat

record queue_edge =
  ge_task :: string
  ge_dependency :: string

record queue_event =
  qe_seq :: nat
  qe_task :: string
  qe_kind :: string
  qe_version :: nat
  qe_status :: string

text \<open>An entry of the map \<open>reconciles\<close>; the entries are objects, told apart by a number.\<close>

record reconcile =
  rc_task :: string
  rc_object :: nat
  rc_started :: int
  rc_stopped :: "int option"

record bridge =
  qb_tasks :: "task_row list"
  qb_notes :: "note_row list"
  qb_cursors :: "(string \<times> nat) list"
  qb_reconciles :: "reconcile list"
  qb_objects :: nat
  qb_reconcileSeq :: nat
  qb_sweeping :: bool
  qb_stopped :: bool
  qb_inbox :: inbox
  qb_log :: "queue_event list"
  qb_now :: int

section \<open>Options\<close>

record bridge_options =
  qo_sender :: "string option"
  qo_senderFor :: "(string \<Rightarrow> string option) option"
  qo_consumer :: string
  qo_sessions :: "string \<Rightarrow> string option"
  qo_cwd :: string
  qo_embed :: bool
  qo_timeout_s :: "rat option"
  qo_settle_ms :: "rat option"
  qo_unclaimed_ms :: "rat option"
  qo_lane_unit :: "string option"

record bridge_config =
  qc_senderOf :: "string \<Rightarrow> string option"
  qc_consumer :: string
  qc_sessions :: "string \<Rightarrow> string option"
  qc_cwd :: string
  qc_embed :: bool
  qc_timeout_s :: rat
  qc_settle_ms :: rat
  qc_unclaimed_ms :: rat
  qc_lane_unit :: "string option"

definition with_default :: "'a \<Rightarrow> 'a option \<Rightarrow> 'a" where
  "with_default d v = (case v of None \<Rightarrow> d | Some x \<Rightarrow> x)"

text \<open>The constructor: a single sender serves every account unless there is one per account.\<close>

definition new_bridge :: "bridge_options \<Rightarrow> string + bridge_config" where
  "new_bridge opt =
     (if qo_sender opt = None \<and> qo_senderFor opt = None then Inl ''queue bridge needs a sender or senderFor''
      else Inr \<lparr>qc_senderOf = (case qo_senderFor opt of Some f \<Rightarrow> f | None \<Rightarrow> (\<lambda>_. qo_sender opt)),
        qc_consumer = qo_consumer opt, qc_sessions = qo_sessions opt, qc_cwd = qo_cwd opt, qc_embed = qo_embed opt,
        qc_timeout_s = with_default 180 (qo_timeout_s opt),
        qc_settle_ms = max 0 (with_default 30000 (qo_settle_ms opt)),
        qc_unclaimed_ms = max 1000 (with_default 600000 (qo_unclaimed_ms opt)),
        qc_lane_unit = qo_lane_unit opt\<rparr>)"

section \<open>Requests and answers\<close>

record note_post =
  np_sender :: string
  np_thread :: string
  np_text :: string
  np_quoted :: "(string \<times> string option) option"

datatype request =
    PutTask string string string string
  | GraphRead
  | SearchTasks string
  | AmendTask string nat string
  | RetryTask string
  | ReadEvents nat nat
  | SendNote note_post
  | ReadHistory string string nat
  | LaneState string

text \<open>
  \<open>Exited\<close> carries the status and the error output of a command; \<open>Failed\<close> is an exception, and also an output that
  cannot be parsed.
\<close>

datatype answer =
    Exited int string
  | Failed string
  | Graph "graph_node list" "queue_edge list"
  | Hits "(string \<times> rat) list"
  | Events "queue_event list"
  | Delivered send_result
  | History "outgoing list"
  | Printed string

type_synonym loop_head = "nat \<times> (string \<times> string) list option"

type_synonym 'v act = "(bridge, request, answer, loop_head, 'v) action"

definition command_of :: "answer \<Rightarrow> string + (int \<times> string)" where
  "command_of a = (case a of Exited c e \<Rightarrow> Inr (c, e) | Failed e \<Rightarrow> Inl e | _ \<Rightarrow> Inr (0, []))"

definition or_exit :: "string \<Rightarrow> int \<Rightarrow> string \<Rightarrow> string" where
  "or_exit command c e = (if js_trim e \<noteq> [] then js_trim e else command @ '' exit '' @ show_int c)"

definition graph_of :: "answer \<Rightarrow> string + graph_node list \<times> queue_edge list" where
  "graph_of a =
     (case a of
        Graph ns es \<Rightarrow> Inr (ns, es)
      | Exited c e \<Rightarrow> Inl (or_exit ''graph-read'' c e)
      | Failed e \<Rightarrow> Inl e
      | _ \<Rightarrow> Inl [])"

definition events_of :: "answer \<Rightarrow> string + queue_event list" where
  "events_of a =
     (case a of
        Events es \<Rightarrow> Inr es
      | Exited c e \<Rightarrow> Inl (or_exit ''events-read'' c e)
      | Failed e \<Rightarrow> Inl e
      | _ \<Rightarrow> Inl [])"

definition send_of :: "answer \<Rightarrow> send_result" where
  "send_of a = (case a of Delivered r \<Rightarrow> r | Failed e \<Rightarrow> SendUncertain 0 e False | _ \<Rightarrow> SendUncertain 0 [] False)"

definition read_graph :: "(graph_node list \<times> queue_edge list) act" where
  "read_graph = andthen (await GraphRead) (\<lambda>a. of_result (graph_of a))"

definition read_events :: "nat \<Rightarrow> nat \<Rightarrow> queue_event list act" where
  "read_events after_seq limit = andthen (await (ReadEvents after_seq limit)) (\<lambda>a. of_result (events_of a))"

section \<open>The journal of notes\<close>

definition note_of :: "string \<Rightarrow> bridge \<Rightarrow> note_row option" where
  "note_of key b = row_of nt_key key (qb_notes b)"

definition task_of :: "string \<Rightarrow> bridge \<Rightarrow> task_row option" where
  "task_of t b = row_of tk_task t (qb_tasks b)"

definition inbox_payload :: "nat \<Rightarrow> bridge \<Rightarrow> (string \<times> string) option" where
  "inbox_payload seq b =
     map_option (\<lambda>r. (im_messageId (ix_message r), im_sender (ix_message r))) (row_of ix_seq seq (ix_rows (qb_inbox b)))"

text \<open>\<open>INSERT\<close>: a key that is there already makes it fail.\<close>

definition add_note :: "note_row \<Rightarrow> bridge \<Rightarrow> bridge" where
  "add_note n b = b\<lparr>qb_notes := qb_notes b @ [n\<lparr>nt_state := Sending, nt_attempts := 0, nt_updated := qb_now b\<rparr>]\<rparr>"

definition enqueue_note :: "note_row \<Rightarrow> bool act" where
  "enqueue_note n =
     andthen (reading (\<lambda>b. note_of (nt_key n) b)) (\<lambda>old.
       if old = None then andthen (modify (add_note n)) (\<lambda>_. ret True) else ret False)"

definition make_note ::
    "string \<Rightarrow> string option \<Rightarrow> string \<Rightarrow> (string \<times> string) option \<Rightarrow> string \<Rightarrow> string \<Rightarrow> note_row" where
  "make_note key task thread origin account txt =
     \<lparr>nt_key = key, nt_task = task, nt_thread = thread, nt_quoted = map_option fst origin,
      nt_participant = map_option snd origin, nt_account = account, nt_text = txt, nt_state = Sending,
      nt_attempts = 0, nt_updated = 0\<rparr>"

definition update_note :: "string \<Rightarrow> send_state \<Rightarrow> bridge \<Rightarrow> bridge" where
  "update_note key st b =
     b\<lparr>qb_notes := map (\<lambda>n. if nt_key n = key
        then n\<lparr>nt_state := st, nt_attempts := nt_attempts n + 1, nt_updated := qb_now b\<rparr> else n) (qb_notes b)\<rparr>"

text \<open>Another account's identity is never used: an account without a sender is an error.\<close>

definition sender_for_note :: "bridge_config \<Rightarrow> note_row \<Rightarrow> string + string" where
  "sender_for_note cf n =
     (case qc_senderOf cf (nt_account n) of
        Some s \<Rightarrow> Inr s
      | None \<Rightarrow> Inl (''no sender configured for account '' @ (if nt_account n = [] then ''(empty)'' else nt_account n)))"

text \<open>\<open>findDelivered\<close>: an unreadable, full or empty history shows nothing.\<close>

definition delivered_in :: "int \<Rightarrow> note_row \<Rightarrow> answer \<Rightarrow> string option" where
  "delivered_in now n a =
     (case a of
        History recent \<Rightarrow>
          (if 50 \<le> length recent \<or> recent = [] then None
           else (case find (\<lambda>m. og_text m = nt_text n \<and> recent_text now m) recent of
               Some m \<Rightarrow> (if og_id m = [] then None else Some (og_id m))
             | None \<Rightarrow> None))
      | _ \<Rightarrow> None)"

definition find_note :: "string \<Rightarrow> note_row \<Rightarrow> string option act" where
  "find_note sender n =
     andthen (await (ReadHistory sender (nt_thread n) 50)) (\<lambda>a. reading (\<lambda>b. delivered_in (qb_now b) n a))"

definition note_request :: "string \<Rightarrow> note_row \<Rightarrow> request" where
  "note_request sender n =
     SendNote \<lparr>np_sender = sender, np_thread = nt_thread n, np_text = nt_text n,
       np_quoted = (case nt_quoted n of
          Some q \<Rightarrow> (if q = [] then None
            else Some (q, case nt_participant n of Some p \<Rightarrow> if p = [] then None else Some p | None \<Rightarrow> None))
        | None \<Rightarrow> None)\<rparr>"

text \<open>One send; anything but an answer with an id leaves the note uncertain.\<close>

definition send_note :: "string \<Rightarrow> note_row \<Rightarrow> bool act" where
  "send_note sender n =
     andthen (await (note_request sender n)) (\<lambda>a.
       case send_of a of
         SentAs i \<Rightarrow> andthen (modify (update_note (nt_key n) Sent)) (\<lambda>_. ret True)
       | SendUncertain status e definitive \<Rightarrow> andthen (modify (update_note (nt_key n) Uncertain)) (\<lambda>_. ret False))"

definition attempt_note :: "bridge_config \<Rightarrow> note_row \<Rightarrow> bool act" where
  "attempt_note cf n =
     andthen (of_result (sender_for_note cf n)) (\<lambda>sender.
       andthen (if 0 < nt_attempts n then find_note sender n else ret None) (\<lambda>found.
         if found \<noteq> None then andthen (modify (update_note (nt_key n) Sent)) (\<lambda>_. ret True)
         else send_note sender n))"

definition deliver_note :: "bridge_config \<Rightarrow> string \<Rightarrow> bool act" where
  "deliver_note cf key =
     andthen (reading (note_of key)) (\<lambda>row. case row of
         None \<Rightarrow> ret True
       | Some n \<Rightarrow> (if nt_state n = Sent then ret True else attempt_note cf n))"

definition deliver_pending :: "bridge_config \<Rightarrow> unit act" where
  "deliver_pending cf =
     andthen (reading (\<lambda>b. take 20 (map nt_key
         (sort_stable (\<lambda>m n. nt_updated m < nt_updated n) (filter (\<lambda>n. nt_state n \<noteq> Sent) (qb_notes b))))))
       (for_each (\<lambda>key. andthen (deliver_note cf key) (\<lambda>_. ret ())))"

definition enqueue_and_deliver :: "bridge_config \<Rightarrow> note_row \<Rightarrow> unit act" where
  "enqueue_and_deliver cf n =
     andthen (enqueue_note n) (\<lambda>fresh. if fresh then andthen (deliver_note cf (nt_key n)) (\<lambda>_. ret ()) else ret ())"

definition chat_note :: "bridge_config \<Rightarrow> inbox_row \<Rightarrow> inbound option \<Rightarrow> string \<Rightarrow> string \<Rightarrow> unit act" where
  "chat_note cf row message key txt =
     enqueue_and_deliver cf
       (make_note (''msg-'' @ show_nat (ix_seq row) @ ''-'' @ key) None (row_thread row)
          (map_option (\<lambda>m. (im_messageId m, im_sender m)) message) (im_account (ix_original row)) txt)"

definition operator_note :: "bridge_config \<Rightarrow> string \<Rightarrow> string \<Rightarrow> unit act" where
  "operator_note cf t txt =
     andthen (reading (\<lambda>b. (task_of t b, b))) (\<lambda>(mapping, b). case mapping of
         None \<Rightarrow> ret ()
       | Some m \<Rightarrow> enqueue_and_deliver cf
           (make_note (''op-'' @ t @ ''-'' @ show_int (qb_now b)) (Some t) (tk_thread m) (inbox_payload (tk_seq m) b)
              (tk_account m) txt))"

section \<open>Putting tasks\<close>

definition set_task :: "string \<Rightarrow> (task_row \<Rightarrow> task_row) \<Rightarrow> bridge \<Rightarrow> bridge" where
  "set_task t f b = b\<lparr>qb_tasks := map (\<lambda>r. if tk_task r = t then f r else r) (qb_tasks b)\<rparr>"

definition task_put :: "string \<Rightarrow> bridge \<Rightarrow> bridge" where
  "task_put t b = set_task t (\<lambda>r. r\<lparr>tk_state := Queued, tk_updated := qb_now b\<rparr>) b"

definition task_put_failed :: "string \<Rightarrow> bridge \<Rightarrow> bridge" where
  "task_put_failed t b = set_task t (\<lambda>r. r\<lparr>tk_attempts := tk_attempts r + 1, tk_updated := qb_now b\<rparr>) b"

definition put_task :: "task_row \<Rightarrow> unit act" where
  "put_task m =
     andthen (await (PutTask (tk_task m) (tk_project m) (tk_cwd m) (tk_goal m))) (\<lambda>a.
       modify (case command_of a of
           Inr (c, e) \<Rightarrow> (if c = 0 then task_put (tk_task m) else task_put_failed (tk_task m))
         | Inl e \<Rightarrow> task_put_failed (tk_task m)))"

definition creating_tasks :: "bridge \<Rightarrow> task_row list" where
  "creating_tasks b =
     sort_stable (\<lambda>r s. tk_seq r < tk_seq s) (filter (\<lambda>r. tk_state r = Creating) (qb_tasks b))"

definition set_sweeping :: "bool \<Rightarrow> bridge \<Rightarrow> bridge" where
  "set_sweeping v b = b\<lparr>qb_sweeping := v\<rparr>"

definition sweep_creating :: "unit act" where
  "sweep_creating =
     andthen (reading qb_sweeping) (\<lambda>busy.
       if busy then ret ()
       else andthen (modify (set_sweeping True)) (\<lambda>_.
         andthen (attempting (andthen (reading creating_tasks) (for_each put_task))) (\<lambda>r.
           andthen (modify (set_sweeping False)) (\<lambda>_. of_result r))))"

section \<open>Planning a reply\<close>

definition chat_id :: "nat \<Rightarrow> string" where
  "chat_id seq = ''chat-'' @ show_nat seq"

definition cwd_for_session :: "bridge_config \<Rightarrow> string \<Rightarrow> string" where
  "cwd_for_session cf session =
     (case qc_sessions cf session of Some d \<Rightarrow> (if d = [] then qc_cwd cf else d) | None \<Rightarrow> qc_cwd cf)"

text \<open>The intent, recorded before the reply is sent; the row of an earlier attempt stays.\<close>

definition plan_put :: "bridge_config \<Rightarrow> inbox_row \<Rightarrow> string \<Rightarrow> bridge \<Rightarrow> bridge" where
  "plan_put cf row goal b =
     (let m = ix_original row in
      if task_of (chat_id (ix_seq row)) b \<noteq> None then b
      else b\<lparr>qb_tasks := qb_tasks b @
        [\<lparr>tk_task = chat_id (ix_seq row), tk_seq = ix_seq row, tk_channel = im_channel m, tk_account = im_account m,
          tk_thread = im_thread m, tk_session = ix_session row, tk_project = ix_project row,
          tk_cwd = cwd_for_session cf (ix_session row), tk_goal = goal, tk_state = Creating, tk_attempts = 0,
          tk_updated = qb_now b, tk_stall = None\<rparr>]\<rparr>)"

definition queue_ack :: "nat \<Rightarrow> string" where
  "queue_ack seq = nl @ nl @ ''(Apuntado en la cola como '' @ chat_id seq @ ''; te aviso aqu'' @ [CHR 0xED] @ '' cuando termine.)''"

definition reply_text :: "nat \<Rightarrow> string \<Rightarrow> string" where
  "reply_text seq reply =
     (let p = parse_directives reply
      in if pr_queue p = None then pr_text p else js_trim (pr_text p @ queue_ack seq))"

section \<open>Follow-ups\<close>

definition OPEN_STATUSES :: "string list" where
  "OPEN_STATUSES = [''pending'', ''running'', ''blocked'', ''interrupted'']"

definition token_char :: "char \<Rightarrow> bool" where
  "token_char c = (is_lower_az c \<or> is_upper_az c \<or> is_digit c \<or> c \<in> set ''_.:/-'')"

definition tokens :: "string \<Rightarrow> string list" where
  "tokens s = filter (\<lambda>t. t \<noteq> []) (split_runs (\<lambda>c. \<not> token_char c) s)"

definition first_occurrences :: "'a list \<Rightarrow> 'a list" where
  "first_occurrences xs = rev (remdups (rev xs))"

definition named_tasks :: "string \<Rightarrow> graph_node list \<Rightarrow> string list" where
  "named_tasks note graph = first_occurrences (filter (\<lambda>t. list_ex (\<lambda>n. gn_id n = t) graph) (tokens note))"

text \<open>\<open>taskRecency\<close>: the digits at the end.\<close>

definition recency :: "string \<Rightarrow> nat" where
  "recency i = nat_of_digits 0 (rev (takeWhile is_digit (rev i)))"

definition open_candidates :: "string \<Rightarrow> string list \<Rightarrow> graph_node list \<Rightarrow> graph_node list" where
  "open_candidates project mapped graph =
     sort_stable (\<lambda>a b. recency (gn_id b) < recency (gn_id a))
       (filter (\<lambda>n. gn_project n = project \<and> gn_id n \<in> set mapped \<and> gn_status n \<in> set OPEN_STATUSES) graph)"

datatype choice =
    AskWhich "string list"
  | Refuse graph_node
  | Take graph_node
  | NoneOpen
  | Compare "graph_node list"

definition choose_task :: "string \<Rightarrow> string \<Rightarrow> string list \<Rightarrow> graph_node list \<Rightarrow> choice" where
  "choose_task note project mapped graph =
     (let named = named_tasks note graph in
      if 1 < length named then AskWhich named
      else case (if named = [] then None else row_of gn_id (hd named) graph) of
          Some target \<Rightarrow> (if gn_project target \<noteq> project then Refuse target else Take target)
        | None \<Rightarrow>
            (case open_candidates project mapped graph of
               [] \<Rightarrow> NoneOpen
             | [n] \<Rightarrow> Take n
             | ns \<Rightarrow> Compare ns))"

text \<open>The candidates in the order of the search, then those it did not return; without a search, in their own order.\<close>

definition rank_candidates :: "(string \<times> rat) list option \<Rightarrow> graph_node list \<Rightarrow> (graph_node \<times> rat) list" where
  "rank_candidates hits candidates =
     (case hits of
        None \<Rightarrow> map (\<lambda>n. (n, -1)) candidates
      | Some hs \<Rightarrow>
          (let ranked = List.map_filter (\<lambda>(i, s). map_option (\<lambda>n. (n, s)) (row_of gn_id i (rev candidates))) hs
           in ranked @ map (\<lambda>n. (n, -1)) (filter (\<lambda>n. \<not> list_ex (\<lambda>r. gn_id (fst r) = gn_id n) ranked) candidates)))"

definition clear_winner :: "(graph_node \<times> rat) list \<Rightarrow> graph_node option" where
  "clear_winner ranked =
     (case ranked of
        [] \<Rightarrow> None
      | (n, s) # rest \<Rightarrow>
          (if 45 / 100 \<le> s \<and> (case rest of [] \<Rightarrow> True | (_, s2) # _ \<Rightarrow> 5 / 100 \<le> s - s2) then Some n else None))"

definition search_hits :: "answer \<Rightarrow> (string \<times> rat) list option" where
  "search_hits a = (case a of Hits hs \<Rightarrow> Some hs | _ \<Rightarrow> None)"

definition search_tasks :: "bridge_config \<Rightarrow> string \<Rightarrow> (string \<times> rat) list option act" where
  "search_tasks cf note =
     (if qc_embed cf then andthen (await (SearchTasks note)) (\<lambda>a. ret (search_hits a)) else ret None)"

definition headline :: "string \<Rightarrow> string" where
  "headline goal = take 90 (takeWhile (\<lambda>c. c \<noteq> CHR 0x0A) goal)"

text \<open>The symbols of the notes, with unused codes as in the prelude.\<close>

definition bullet :: string where "bullet = [CHR 0x88]"
definition hourglass :: string where "hourglass = [CHR 0x80]"
definition warning :: string where "warning = [CHR 0x81]"
definition check_mark :: string where "check_mark = [CHR 0x82]"
definition pause :: string where "pause = [CHR 0x83]"
definition prohibited :: string where "prohibited = [CHR 0x84]"
definition plus_sign :: string where "plus_sign = [CHR 0x86]"
definition pencil :: string where "pencil = [CHR 0x87]"

definition quoted_name :: "string \<Rightarrow> string" where
  "quoted_name s = [CHR 0xAB] @ s @ [CHR 0xBB]"

definition UNREADABLE_FOR_NOTE :: string where
  "UNREADABLE_FOR_NOTE = ''No pude leer la cola para atender tu nota: ''"

definition which_text :: "string list \<Rightarrow> string" where
  "which_text ids = ''Mencionaste varias tareas ('' @ join '', '' ids @ ''). '' @ [CHR 0xBF] @ ''A cu'' @ [CHR 0xE1] @
     ''l a'' @ [CHR 0xF1] @ ''ado tu nota?''"

definition refusal_text :: "graph_node \<Rightarrow> string \<Rightarrow> string" where
  "refusal_text target project =
     ''La tarea '' @ gn_id target @ '' pertenece al proyecto '' @ quoted_name (gn_project target) @ '', no a '' @
     quoted_name project @ ''. No la toco desde este chat; d'' @ [CHR 0xED] @
     ''melo desde el chat de ese proyecto o p'' @ [CHR 0xED] @ ''deme cancelarla expl'' @ [CHR 0xED] @ ''citamente.''"

definition none_open_text :: "string \<Rightarrow> string" where
  "none_open_text project =
     ''No hay tareas abiertas del proyecto '' @ quoted_name project @ '' en la cola. Si es trabajo nuevo, p'' @
     [CHR 0xED] @ ''demelo y lo encolo.''"

definition ambiguous_text :: "(graph_node \<times> rat) list \<Rightarrow> string" where
  "ambiguous_text ranked =
     ''Tu nota podr'' @ [CHR 0xED] @ ''a encajar en varias tareas. '' @ [CHR 0xBF] @ ''A cu'' @ [CHR 0xE1] @
     ''l la a'' @ [CHR 0xF1] @ ''ado?'' @ nl @
     join nl (map (\<lambda>(n, s). bullet @ '' '' @ gn_id n @ '' '' @ em_dash @ '' '' @ headline (gn_goal n) @ '' ('' @ gn_status n @ '')'')
       (take 5 ranked)) @ nl @ ''Dime el identificador y la aplico.''"

definition amend_refused_text :: "string \<Rightarrow> string" where
  "amend_refused_text i =
     ''No pude actualizar '' @ i @ '' (versi'' @ [CHR 0xF3] @ ''n de objetivo desfasada o tarea cerrada). Su estado actual lo ves con '' @
     quoted_name ''estado'' @ ''; reintenta cit'' @ [CHR 0xE1] @ ''ndolo de nuevo.''"

definition amended_text :: "graph_node \<Rightarrow> string \<Rightarrow> string" where
  "amended_text target note =
     plus_sign @ '' A'' @ [CHR 0xF1] @ ''adido a '' @ gn_id target @ '' (objetivo v'' @ show_nat (gn_version target + 1) @ ''): '' @
     quoted_name (take 160 note) @
     (if gn_status target = ''running''
      then nl @ ''El worker estaba en marcha: lo interrumpo de forma controlada y relanzo con el objetivo actualizado.'' else [])"

text \<open>\<open>Map.set\<close>: a new object at the old place, or at the end.\<close>

definition start_reconcile :: "string \<Rightarrow> bridge \<Rightarrow> bridge" where
  "start_reconcile t b =
     b\<lparr>qb_reconciles := upsert rc_task
         \<lparr>rc_task = t, rc_object = qb_objects b, rc_started = qb_now b, rc_stopped = None\<rparr> (qb_reconciles b),
       qb_objects := qb_objects b + 1\<rparr>"

definition followup_key :: "inbox_row \<Rightarrow> string" where
  "followup_key row = ''followup-'' @ show_nat (ix_seq row)"

definition apply_followup ::
    "bridge_config \<Rightarrow> inbox_row \<Rightarrow> inbound \<Rightarrow> graph_node \<Rightarrow> string \<Rightarrow> unit act" where
  "apply_followup cf row message target note =
     andthen (await (AmendTask (gn_id target) (gn_version target) note)) (\<lambda>a.
     andthen (of_result (command_of a)) (\<lambda>(code, err).
       if code \<noteq> 0 then chat_note cf row (Some message) (followup_key row) (amend_refused_text (gn_id target))
       else andthen (if gn_status target = ''running'' then modify (start_reconcile (gn_id target)) else ret ()) (\<lambda>_.
         chat_note cf row (Some message) (followup_key row) (amended_text target note))))"

definition route_followup :: "bridge_config \<Rightarrow> inbox_row \<Rightarrow> inbound \<Rightarrow> string \<Rightarrow> unit act" where
  "route_followup cf row message note =
     andthen (attempting read_graph) (\<lambda>r. case r of
         Inl e \<Rightarrow> chat_note cf row (Some message) (followup_key row) (UNREADABLE_FOR_NOTE @ take 160 e)
       | Inr (graph, _) \<Rightarrow>
           andthen (reading (\<lambda>b. map tk_task (qb_tasks b))) (\<lambda>mapped.
             case choose_task note (ix_project row) mapped graph of
               AskWhich ids \<Rightarrow> chat_note cf row (Some message) (followup_key row) (which_text ids)
             | Refuse target \<Rightarrow>
                 chat_note cf row (Some message) (followup_key row) (refusal_text target (ix_project row))
             | Take target \<Rightarrow> apply_followup cf row message target note
             | NoneOpen \<Rightarrow> chat_note cf row (Some message) (followup_key row) (none_open_text (ix_project row))
             | Compare candidates \<Rightarrow>
                 andthen (search_tasks cf note) (\<lambda>hits.
                   let ranked = rank_candidates hits candidates in
                   case clear_winner ranked of
                     Some target \<Rightarrow> apply_followup cf row message target note
                   | None \<Rightarrow> chat_note cf row (Some message) (followup_key row) (ambiguous_text ranked))))"

section \<open>Reconciling interrupted workers\<close>

definition stop_event :: "string \<Rightarrow> queue_event \<Rightarrow> bool" where
  "stop_event t e \<longleftrightarrow> qe_task e = t \<and> qe_kind e = ''state_changed'' \<and> qe_status e \<in> set [''blocked'', ''interrupted'']"

text \<open>The entry is marked, if it still is the one under its task.\<close>

definition mark_stopped :: "reconcile \<Rightarrow> bridge \<Rightarrow> bridge" where
  "mark_stopped c b =
     b\<lparr>qb_reconciles := map (\<lambda>d. if rc_task d = rc_task c \<and> rc_object d = rc_object c
        then d\<lparr>rc_stopped := Some (qb_now b)\<rparr> else d) (qb_reconciles b)\<rparr>"

definition drop_reconcile :: "string \<Rightarrow> bridge \<Rightarrow> bridge" where
  "drop_reconcile t b = b\<lparr>qb_reconciles := delete_key rc_task t (qb_reconciles b)\<rparr>"

definition see_events :: "queue_event list \<Rightarrow> bridge \<Rightarrow> bridge" where
  "see_events events b = b\<lparr>qb_reconcileSeq := fold (\<lambda>e m. max m (qe_seq e)) events (qb_reconcileSeq b)\<rparr>"

definition timeout_text :: "bridge_config \<Rightarrow> string \<Rightarrow> string" where
  "timeout_text cf t =
     hourglass @ '' '' @ t @ '': el worker anterior no ha confirmado su parada en '' @
     show_int (round_half_up (qc_timeout_s cf / 60)) @ '' min. No lo relanzo autom'' @ [CHR 0xE1] @
     ''ticamente; requiere revisi'' @ [CHR 0xF3] @ ''n manual.''"

definition retry_failed_text :: "string \<Rightarrow> string \<Rightarrow> string" where
  "retry_failed_text t e =
     warning @ '' '' @ t @ '': el worker par'' @ [CHR 0xF3] @ '' pero el relanzamiento fall'' @ [CHR 0xF3] @ '': '' @ take 160 (js_trim e)"

definition settled_at :: "bridge_config \<Rightarrow> int \<Rightarrow> int option \<Rightarrow> bool" where
  "settled_at cf now stopped = (case stopped of None \<Rightarrow> False | Some s \<Rightarrow> qc_settle_ms cf \<le> of_int (now - s))"

text \<open>The retry attests the stop of the worker.\<close>

definition retry_task :: "bridge_config \<Rightarrow> string \<Rightarrow> unit act" where
  "retry_task cf t =
     andthen (await (RetryTask t)) (\<lambda>a.
       andthen (of_result (command_of a)) (\<lambda>(code, err).
         if code \<noteq> 0 then operator_note cf t (retry_failed_text t err) else ret ()))"

definition end_reconcile :: "bridge_config \<Rightarrow> string \<Rightarrow> bool \<Rightarrow> unit act" where
  "end_reconcile cf t settled =
     andthen (modify (drop_reconcile t)) (\<lambda>_.
       if \<not> settled then operator_note cf t (timeout_text cf t) else retry_task cf t)"

definition reconcile_one :: "bridge_config \<Rightarrow> queue_event list \<Rightarrow> reconcile \<Rightarrow> unit act" where
  "reconcile_one cf events c =
     andthen (reading qb_now) (\<lambda>now.
       let newly = (list_ex (stop_event (rc_task c)) events \<and> rc_stopped c = None);
           settled = settled_at cf now (if newly then Some now else rc_stopped c)
       in andthen (if newly then modify (mark_stopped c) else ret ()) (\<lambda>_.
         if \<not> settled \<and> of_int (now - rc_started c) < qc_timeout_s cf * 1000 then ret ()
         else end_reconcile cf (rc_task c) settled))"

definition reconcile_amendments :: "bridge_config \<Rightarrow> unit act" where
  "reconcile_amendments cf =
     andthen (reading (\<lambda>b. (qb_reconciles b, qb_reconcileSeq b))) (\<lambda>(waiting, seq).
       if waiting = [] then ret ()
       else andthen (attempting (read_events seq 200)) (\<lambda>r. case r of
           Inl e \<Rightarrow> ret ()
         | Inr events \<Rightarrow>
             andthen (modify (see_events events)) (\<lambda>_.
               andthen (reading qb_reconciles) (for_each (reconcile_one cf events)))))"

definition rearm :: "string list \<Rightarrow> graph_node list \<Rightarrow> bridge \<Rightarrow> bridge" where
  "rearm mapped nodes b =
     fold (\<lambda>n b. if gn_status n = ''interrupted'' \<and> gn_id n \<in> set mapped \<and> row_of rc_task (gn_id n) (qb_reconciles b) = None
       then start_reconcile (gn_id n) b else b) nodes b"

definition rearm_reconciles :: "unit act" where
  "rearm_reconciles =
     andthen (attempting read_graph) (\<lambda>r. case r of
         Inl e \<Rightarrow> ret ()
       | Inr (nodes, _) \<Rightarrow>
           modify (\<lambda>b. rearm (map tk_task (filter (\<lambda>m. tk_channel m = ''whatsapp'') (qb_tasks b))) nodes b))"

section \<open>Reports\<close>

definition nonempty :: "string option \<Rightarrow> string option" where
  "nonempty s = (if s = Some [] then None else s)"

definition lease_fresh :: "int \<Rightarrow> graph_node \<Rightarrow> bool" where
  "lease_fresh now n = (case gn_lease n of None \<Rightarrow> False | Some l \<Rightarrow> of_int now / 1000 < (of_int l :: rat))"

definition describe_node :: "int \<Rightarrow> graph_node \<Rightarrow> string" where
  "describe_node now n =
     bullet @ '' '' @ gn_id n @ '' ['' @ gn_status n @ ''] v'' @ show_nat (gn_version n) @ '' '' @ em_dash @ '' '' @ headline (gn_goal n) @
     (case nonempty (gn_owner n) of
        Some w \<Rightarrow>
          (if gn_status n = ''running'' then
             (if lease_fresh now n then '' (worker '' @ w @ '')''
              else '' (worker '' @ w @ '' '' @ em_dash @ '' lease CADUCADA, worker presumiblemente muerto)'') else [])
      | None \<Rightarrow> []) @
     (if gn_status n = ''done'' then '' (con evidencia de cierre verificada)'' else []) @
     (case nonempty (gn_result n) of
        Some r \<Rightarrow> (if gn_status n = ''blocked'' then '' '' @ em_dash @ '' '' @ take 140 r else [])
      | None \<Rightarrow> [])"

definition status_body :: "int \<Rightarrow> string option \<Rightarrow> graph_node list \<Rightarrow> string" where
  "status_body now explicit_task graph =
     (case explicit_task of
        Some t \<Rightarrow>
          (case row_of gn_id t graph of
             Some n \<Rightarrow> describe_node now n
           | None \<Rightarrow> ''No conozco ninguna tarea '' @ quoted_name t @ ''.'')
      | None \<Rightarrow>
          (let is_open = (\<lambda>n. gn_status n \<in> set OPEN_STATUSES); open_nodes = filter is_open graph;
               recent = last_n 3 (filter (\<lambda>n. \<not> is_open n) graph)
           in (if open_nodes \<noteq> [] then join nl (map (describe_node now) open_nodes) else ''No hay tareas abiertas en la cola.'') @
              (if recent \<noteq> [] then nl @ ''Recientes:'' @ nl @ join nl (map (describe_node now) recent) else [])))"

definition report_status :: "bridge_config \<Rightarrow> inbox_row \<Rightarrow> string option \<Rightarrow> unit act" where
  "report_status cf row explicit_task =
     (let key = ''status-'' @ show_nat (ix_seq row) in
      andthen (attempting read_graph) (\<lambda>r. case r of
          Inl e \<Rightarrow> chat_note cf row None key (''No pude leer la cola: '' @ take 160 e)
        | Inr (graph, _) \<Rightarrow>
            andthen (reading qb_now) (\<lambda>now. chat_note cf row None key (status_body now explicit_task graph))))"

section \<open>The lane watchdog\<close>

definition unit_char :: "char \<Rightarrow> bool" where
  "unit_char c = (is_lower_az c \<or> is_upper_az c \<or> is_digit c \<or> c \<in> set ''_.@-'')"

definition unit_name :: "string \<Rightarrow> bool" where
  "unit_name u = (case u of [] \<Rightarrow> False
     | c # s \<Rightarrow> (is_lower_az c \<or> is_upper_az c \<or> is_digit c) \<and> length s \<le> 127 \<and> list_all unit_char s)"

definition lane_state :: "bridge_config \<Rightarrow> (string \<times> string) act" where
  "lane_state cf =
     (let u = js_trim (with_default ''mini-queue-lane'' (qc_lane_unit cf)) in
      if \<not> unit_name u then ret (''mini-queue-lane'', ''unknown'')
      else andthen (await (LaneState u)) (\<lambda>a. ret (u, case a of
          Printed out \<Rightarrow> (if js_trim out \<noteq> [] \<and> list_all is_lower_az (js_trim out) then js_trim out else ''unknown'')
        | _ \<Rightarrow> ''unknown'')))"

definition stall_text :: "task_row \<Rightarrow> int \<Rightarrow> string list \<Rightarrow> string \<Rightarrow> string \<Rightarrow> string" where
  "stall_text m mins waiting u state =
     join nl (filter (\<lambda>l. l \<noteq> [])
       [hourglass @ '' '' @ tk_task m @ '': encolada hace '' @ show_int mins @ '' min y NADIE la ha reclamado.'',
        ''No hay ning'' @ [CHR 0xFA] @ ''n worker vivo en la cola (ninguna tarea con lease activa), as'' @ [CHR 0xED] @
          '' que no va a terminar por s'' @ [CHR 0xED] @ '' sola.'',
        if waiting \<noteq> [] then ''Adem'' @ [CHR 0xE1] @ ''s espera por: '' @ join '', '' waiting @ ''.'' else [],
        if state = ''unknown'' then [] else ''El carril '' @ u @ '' est'' @ [CHR 0xE1] @ '' '' @ state @ ''.'',
        ''Lev'' @ [CHR 0xE1] @ ''ntalo con: sudo systemctl start '' @ u,
        ''No lo levanto yo: son tarjetas reales con efectos fuera de la caja y el carril consume cuota.''])"

definition set_stall :: "string \<Rightarrow> int option \<Rightarrow> bridge \<Rightarrow> bridge" where
  "set_stall t v b = set_task t (\<lambda>r. r\<lparr>tk_stall := v\<rparr>) b"

definition waiting_for :: "string \<Rightarrow> graph_node list \<Rightarrow> queue_edge list \<Rightarrow> string list" where
  "waiting_for t nodes edges =
     map (\<lambda>n. gn_id n @ '' ('' @ gn_status n @ '')'')
       (filter (\<lambda>n. gn_status n \<noteq> ''done'')
         (List.map_filter (\<lambda>e. row_of gn_id (ge_dependency e) (rev nodes)) (filter (\<lambda>e. ge_task e = t) edges)))"

definition watch_one :: "bridge_config \<Rightarrow> graph_node list \<Rightarrow> queue_edge list \<Rightarrow> bool \<Rightarrow> task_row \<Rightarrow> unit act" where
  "watch_one cf nodes edges alive m =
     (case row_of gn_id (tk_task m) (rev nodes) of
        None \<Rightarrow> ret ()
      | Some n \<Rightarrow>
          (if gn_status n \<noteq> ''pending''
           then (if tk_stall m \<noteq> None then modify (set_stall (tk_task m) None) else ret ())
           else if alive \<or> tk_stall m \<noteq> None then ret ()
           else andthen (reading qb_now) (\<lambda>now.
             andthen (lane_state cf) (\<lambda>(u, state).
             andthen (operator_note cf (tk_task m)
               (stall_text m (max 1 (round_half_up (of_int (now - tk_updated m) / 60000 :: rat)))
                 (waiting_for (tk_task m) nodes edges) u state)) (\<lambda>_.
             modify (\<lambda>b. set_stall (tk_task m) (Some (qb_now b)) b))))))"

definition overdue_tasks :: "bridge_config \<Rightarrow> bridge \<Rightarrow> task_row list" where
  "overdue_tasks cf b =
     filter (\<lambda>m. tk_state m = Queued \<and> of_int (tk_updated m) \<le> of_int (qb_now b) - qc_unclaimed_ms cf) (qb_tasks b)"

definition watch_stalled :: "bridge_config \<Rightarrow> unit act" where
  "watch_stalled cf =
     andthen (reading (overdue_tasks cf)) (\<lambda>rows.
       if rows = [] then ret ()
       else andthen (attempting read_graph) (\<lambda>r. case r of
           Inl e \<Rightarrow> ret ()
         | Inr (nodes, edges) \<Rightarrow>
             andthen (reading qb_now) (\<lambda>now.
               for_each (watch_one cf nodes edges (list_ex (\<lambda>n. gn_status n = ''running'' \<and> lease_fresh now n) nodes)) rows)))"

section \<open>Outcomes\<close>

definition REPORTED_STATUSES :: "string list" where
  "REPORTED_STATUSES = [''done'', ''blocked'', ''interrupted'', ''cancelled'']"

definition event_text :: "queue_event \<Rightarrow> (string \<times> string) list option \<Rightarrow> string option" where
  "event_text e results =
     (let t = qe_task e in
      if qe_kind e = ''goal_updated'' then Some (pencil @ '' '' @ t @ '' actualizada a objetivo v'' @ show_nat (qe_version e) @ ''.'')
      else if qe_kind e \<noteq> ''state_changed'' \<or> qe_status e \<notin> set REPORTED_STATUSES then None
      else if qe_status e = ''done'' then Some (check_mark @ '' '' @ t @ '' terminada (con evidencia de cierre verificada).'')
      else if qe_status e = ''blocked'' then
        Some (warning @ '' '' @ t @ '' bloqueada'' @
          (case nonempty (case results of None \<Rightarrow> None | Some rs \<Rightarrow> map_of (rev rs) t) of Some reason \<Rightarrow> '': '' @ reason | None \<Rightarrow> ''.''))
      else if qe_status e = ''interrupted'' then
        Some (pause @ '' '' @ t @ '' interrumpida '' @ em_dash @ '' worker detenido; se reconcilia antes de reintentar.'')
      else Some (prohibited @ '' '' @ t @ '' cancelada.''))"

definition result_map :: "(string \<times> string) list act" where
  "result_map =
     andthen (attempting read_graph) (\<lambda>r. ret (case r of
         Inl e \<Rightarrow> []
       | Inr (nodes, _) \<Rightarrow> List.map_filter (\<lambda>n. map_option (\<lambda>s. (gn_id n, take 200 s)) (nonempty (gn_result n))) nodes))"

definition event_key :: "nat \<Rightarrow> string" where
  "event_key seq = ''evt-'' @ show_nat seq"

definition EVENT_POLL_LIMIT :: nat where
  "EVENT_POLL_LIMIT = 100"

definition event_cursor :: "bridge_config \<Rightarrow> bridge \<Rightarrow> nat" where
  "event_cursor cf b = (case row_of fst (qc_consumer cf) (qb_cursors b) of None \<Rightarrow> 0 | Some (_, c) \<Rightarrow> c)"

definition save_cursor :: "bridge_config \<Rightarrow> nat \<Rightarrow> bridge \<Rightarrow> bridge" where
  "save_cursor cf c b = b\<lparr>qb_cursors := upsert fst (qc_consumer cf, c) (qb_cursors b)\<rparr>"

text \<open>The \<open>finally\<close> block: the cursor is kept however the loop is left.\<close>

definition leave_at :: "bridge_config \<Rightarrow> nat \<Rightarrow> string + unit \<Rightarrow> unit act" where
  "leave_at cf c r = andthen (modify (save_cursor cf c)) (\<lambda>_. of_result r)"

definition next_page :: "loop_head \<Rightarrow> unit act" where
  "next_page l k b = (b, Loop l)"

definition event_note :: "task_row \<Rightarrow> queue_event \<Rightarrow> string \<Rightarrow> bridge \<Rightarrow> note_row" where
  "event_note m e txt b =
     make_note (event_key (qe_seq e)) (Some (qe_task e)) (tk_thread m) (inbox_payload (tk_seq m) b) (tk_account m) txt"

definition fetch_results :: "queue_event \<Rightarrow> (string \<times> string) list option \<Rightarrow> (string \<times> string) list option act" where
  "fetch_results e results =
     (if qe_kind e = ''state_changed'' \<and> qe_status e = ''blocked'' \<and> results = None
      then andthen result_map (\<lambda>rs. ret (Some rs)) else ret results)"

text \<open>An event of a task of this bridge, with what follows it; an event that is not delivered ends the pass before it.\<close>

definition report_event ::
    "bridge_config \<Rightarrow> nat \<Rightarrow> queue_event \<Rightarrow> task_row \<Rightarrow> ((string \<times> string) list option \<Rightarrow> unit act) \<Rightarrow>
      (string \<times> string) list option \<Rightarrow> unit act" where
  "report_event cf cursor e m on results =
     (case event_text e results of
        None \<Rightarrow> on results
      | Some txt \<Rightarrow>
          andthen (reading (event_note m e txt)) (\<lambda>note.
          andthen (enqueue_note note) (\<lambda>fresh.
            if \<not> fresh then on results
            else andthen (attempting (deliver_note cf (event_key (qe_seq e)))) (\<lambda>r. case r of
                Inl err \<Rightarrow> leave_at cf cursor (Inl err)
              | Inr delivered \<Rightarrow> (if delivered then on results else leave_at cf cursor (Inr ()))))))"

primrec consume_each ::
    "bridge_config \<Rightarrow> bool \<Rightarrow> queue_event list \<Rightarrow> nat \<Rightarrow> (string \<times> string) list option \<Rightarrow> unit act" where
  "consume_each cf full [] cursor results = (if full then next_page (cursor, results) else leave_at cf cursor (Inr ()))"
| "consume_each cf full (e # es) cursor results =
     andthen (reading (task_of (qe_task e))) (\<lambda>mapping. case mapping of
         None \<Rightarrow> consume_each cf full es (qe_seq e) results
       | Some m \<Rightarrow>
           (if tk_channel m \<noteq> ''whatsapp'' then consume_each cf full es (qe_seq e) results
            else andthen (fetch_results e results) (report_event cf cursor e m (consume_each cf full es (qe_seq e)))))"

definition consume_page :: "bridge_config \<Rightarrow> loop_head \<Rightarrow> unit act" where
  "consume_page cf l =
     (case l of (cursor, results) \<Rightarrow>
       andthen (attempting (read_events cursor EVENT_POLL_LIMIT)) (\<lambda>r. case r of
           Inl e \<Rightarrow> leave_at cf cursor (Inl e)
         | Inr events \<Rightarrow>
             (if events = [] then leave_at cf cursor (Inr ())
              else consume_each cf (EVENT_POLL_LIMIT \<le> length events) events cursor results)))"

section \<open>The tick and the deferred work\<close>

type_synonym bridge_flow = "bridge \<Rightarrow> bridge \<times> (bridge, request, answer, loop_head) running"

text \<open>What follows the events in a tick; an error ends the tick.\<close>

definition rest_of_tick :: "bridge_config \<Rightarrow> string + unit \<Rightarrow> bridge_flow" where
  "rest_of_tick cf r =
     (case r of
        Inl e \<Rightarrow> finished
      | Inr _ \<Rightarrow> andthen (reconcile_amendments cf) (\<lambda>_. watch_stalled cf) (\<lambda>_. finished))"

definition page_head :: "bridge_config \<Rightarrow> loop_head \<Rightarrow> bridge_flow" where
  "page_head cf l = consume_page cf l (rest_of_tick cf)"

definition bridge_tick :: "bridge_config \<Rightarrow> bridge_flow" where
  "bridge_tick cf =
     andthen sweep_creating (\<lambda>_. andthen (deliver_pending cf) (\<lambda>_.
       andthen (reading (event_cursor cf)) (\<lambda>c. consume_page cf (c, None)))) (rest_of_tick cf)"

definition has_deferred :: "string \<Rightarrow> bool" where
  "has_deferred reply =
     (let p = parse_directives reply in pr_queue p \<noteq> None \<or> pr_followup p \<noteq> None \<or> pr_status p)"

definition deferred_work :: "bridge_config \<Rightarrow> inbox_row \<Rightarrow> string \<Rightarrow> bridge_flow" where
  "deferred_work cf row reply =
     (let p = parse_directives reply in
      andthen (if pr_queue p \<noteq> None then sweep_creating else ret ()) (\<lambda>_.
      andthen (case pr_followup p of Some note \<Rightarrow> route_followup cf row (ix_message row) note | None \<Rightarrow> ret ()) (\<lambda>_.
        if pr_status p then report_status cf row (if pr_queue p \<noteq> None then Some (chat_id (ix_seq row)) else None)
        else ret ())) (\<lambda>_. finished))"

definition plan_queue_reply :: "bridge_config \<Rightarrow> inbox_row \<Rightarrow> string \<Rightarrow> bridge \<Rightarrow> bridge" where
  "plan_queue_reply cf row reply b =
     (case pr_queue (parse_directives reply) of None \<Rightarrow> b | Some goal \<Rightarrow> plan_put cf row goal b)"

end
