(* ===== verification/BridgeRuns.thy ===== *)
theory BridgeRuns
  imports QueueBridge
begin

text \<open>
  The bridge's process: a tick, the deferred work of replies, a crash, and what the outside does, in any order.  Every
  flow keeps to one contract: what the tables hold, what only grows, what may be sent.
\<close>

section \<open>Runs\<close>

type_synonym bridge_call = "(bridge, request, answer, loop_head) running"

record bridge_world =
  bw_bridge :: bridge
  bw_tick :: bridge_call
  bw_flows :: "bridge_call list"
  bw_started :: bool

datatype bridge_action =
    PlanReply inbox_row string
  | RunDeferred inbox_row string
  | StartBridge
  | NextTick
  | AnswerTick answer
  | TurnPage
  | AnswerFlow nat answer
  | StopBridge
  | Crash
  | ClockTo int
  | QueueLogs queue_event
  | InboxBecomes inbox

definition empty_bridge :: "inbox \<Rightarrow> int \<Rightarrow> bridge" where
  "empty_bridge ib now =
     \<lparr>qb_tasks = [], qb_notes = [], qb_cursors = [], qb_reconciles = [], qb_objects = 0, qb_reconcileSeq = 0,
      qb_sweeping = False, qb_stopped = False, qb_inbox = ib, qb_log = [], qb_now = now\<rparr>"

definition empty_world :: "inbox \<Rightarrow> int \<Rightarrow> bridge_world" where
  "empty_world ib now = \<lparr>bw_bridge = empty_bridge ib now, bw_tick = Done, bw_flows = [], bw_started = False\<rparr>"

text \<open>The fields of a new process.\<close>

definition forget :: "bridge \<Rightarrow> bridge" where
  "forget b = b\<lparr>qb_reconciles := [], qb_reconcileSeq := 0, qb_sweeping := False, qb_stopped := False\<rparr>"

fun answered :: "answer \<Rightarrow> bridge_call \<Rightarrow> bridge_flow" where
  "answered a (Await r f) b = f a b"
| "answered a p b = (b, p)"

definition with_bridge :: "(bridge \<Rightarrow> bridge) \<Rightarrow> bridge_world \<Rightarrow> bridge_world" where
  "with_bridge f w = w\<lparr>bw_bridge := f (bw_bridge w)\<rparr>"

definition run_tick :: "bridge_flow \<Rightarrow> bridge_world \<Rightarrow> bridge_world" where
  "run_tick fl w = (case fl (bw_bridge w) of (b, p) \<Rightarrow> w\<lparr>bw_bridge := b, bw_tick := p\<rparr>)"

definition run_new :: "bridge_flow \<Rightarrow> bridge_world \<Rightarrow> bridge_world" where
  "run_new fl w = (case fl (bw_bridge w) of (b, p) \<Rightarrow> w\<lparr>bw_bridge := b, bw_flows := bw_flows w @ [p]\<rparr>)"

definition run_flow :: "nat \<Rightarrow> answer \<Rightarrow> bridge_world \<Rightarrow> bridge_world" where
  "run_flow i a w =
     (if i < length (bw_flows w) then
        (case answered a (bw_flows w ! i) (bw_bridge w) of (b, p) \<Rightarrow> w\<lparr>bw_bridge := b, bw_flows := (bw_flows w)[i := p]\<rparr>)
      else w)"

text \<open>
  A tick follows the last one, unless the bridge is stopped; a crash leaves the tables; the events of the queue come in
  the order of their numbers.
\<close>

fun bridge_step :: "bridge_config \<Rightarrow> bridge_world \<Rightarrow> bridge_action \<Rightarrow> bridge_world" where
  "bridge_step cf w (PlanReply row reply) = with_bridge (plan_queue_reply cf row reply) w"
| "bridge_step cf w (RunDeferred row reply) = run_new (deferred_work cf row reply) w"
| "bridge_step cf w StartBridge =
     (if bw_started w then w
      else run_tick (bridge_tick cf) (run_new (rearm_reconciles (\<lambda>_. finished)) (w\<lparr>bw_started := True\<rparr>)))"
| "bridge_step cf w NextTick =
     (if bw_started w \<and> ended (bw_tick w) \<and> \<not> qb_stopped (bw_bridge w) then run_tick (bridge_tick cf) w else w)"
| "bridge_step cf w (AnswerTick a) = run_tick (answered a (bw_tick w)) w"
| "bridge_step cf w TurnPage = (case bw_tick w of Loop l \<Rightarrow> run_tick (page_head cf l) w | _ \<Rightarrow> w)"
| "bridge_step cf w (AnswerFlow i a) = run_flow i a w"
| "bridge_step cf w StopBridge = with_bridge (\<lambda>b. b\<lparr>qb_stopped := True\<rparr>) w"
| "bridge_step cf w Crash = (with_bridge forget w)\<lparr>bw_tick := Done, bw_flows := [], bw_started := False\<rparr>"
| "bridge_step cf w (ClockTo now) = with_bridge (\<lambda>b. b\<lparr>qb_now := now\<rparr>) w"
| "bridge_step cf w (QueueLogs e) = with_bridge (\<lambda>b. b\<lparr>qb_log := qb_log b @ [e]\<rparr>) w"
| "bridge_step cf w (InboxBecomes ib) = with_bridge (\<lambda>b. b\<lparr>qb_inbox := ib\<rparr>) w"

fun bridge_run :: "bridge_config \<Rightarrow> bridge_world \<Rightarrow> bridge_action list \<Rightarrow> bridge_world" where
  "bridge_run cf w [] = w"
| "bridge_run cf w (a # as) = bridge_run cf (bridge_step cf w a) as"

text \<open>A page of the log, as the queue promises it (\<open>WHERE seq > ? ORDER BY seq LIMIT ?\<close>).\<close>

definition page_of :: "queue_event list \<Rightarrow> nat \<Rightarrow> nat \<Rightarrow> queue_event list" where
  "page_of lg after_seq limit = take limit (filter (\<lambda>e. after_seq < qe_seq e) lg)"

fun honest_answer :: "queue_event list \<Rightarrow> request \<Rightarrow> answer \<Rightarrow> bool" where
  "honest_answer lg (ReadEvents after_seq limit) (Events es) = (es = page_of lg after_seq limit)"
| "honest_answer lg _ _ = True"

fun honest_for :: "queue_event list \<Rightarrow> bridge_call \<Rightarrow> answer \<Rightarrow> bool" where
  "honest_for lg (Await r f) a = honest_answer lg r a"
| "honest_for lg _ a = True"

text \<open>
  The bridge is the only one that names tasks after messages: the queue has no event of such a task before the bridge
  has written it down.
\<close>

fun honest_action :: "bridge_world \<Rightarrow> bridge_action \<Rightarrow> bool" where
  "honest_action w (PlanReply row reply) =
     (pr_queue (parse_directives reply) = None \<or> task_of (chat_id (ix_seq row)) (bw_bridge w) \<noteq> None \<or>
      list_all (\<lambda>e. qe_task e \<noteq> chat_id (ix_seq row)) (qb_log (bw_bridge w)))"
| "honest_action w (AnswerTick a) = honest_for (qb_log (bw_bridge w)) (bw_tick w) a"
| "honest_action w (AnswerFlow i a) =
     (i < length (bw_flows w) \<longrightarrow> honest_for (qb_log (bw_bridge w)) (bw_flows w ! i) a)"
| "honest_action w (QueueLogs e) = (0 < qe_seq e \<and> list_all (\<lambda>e'. qe_seq e' < qe_seq e) (qb_log (bw_bridge w)))"
| "honest_action w _ = True"

fun honest_actions :: "bridge_config \<Rightarrow> bridge_world \<Rightarrow> bridge_action list \<Rightarrow> bool" where
  "honest_actions cf w [] = True"
| "honest_actions cf w (a # as) = (honest_action w a \<and> honest_actions cf (bridge_step cf w a) as)"

section \<open>The contract of the flows\<close>

definition same_note :: "note_row \<Rightarrow> note_row \<Rightarrow> bool" where
  "same_note n n' \<longleftrightarrow> nt_key n' = nt_key n \<and> nt_task n' = nt_task n \<and> nt_thread n' = nt_thread n \<and>
     nt_quoted n' = nt_quoted n \<and> nt_participant n' = nt_participant n \<and> nt_account n' = nt_account n \<and> nt_text n' = nt_text n"

definition same_task :: "task_row \<Rightarrow> task_row \<Rightarrow> bool" where
  "same_task m m' \<longleftrightarrow> tk_task m' = tk_task m \<and> tk_seq m' = tk_seq m \<and> tk_channel m' = tk_channel m \<and>
     tk_account m' = tk_account m \<and> tk_thread m' = tk_thread m \<and> tk_project m' = tk_project m \<and> tk_cwd m' = tk_cwd m \<and>
     tk_goal m' = tk_goal m"

definition is_note :: "note_row \<Rightarrow> bridge \<Rightarrow> bool" where
  "is_note n b \<longleftrightarrow> (\<exists>n'. note_of (nt_key n) b = Some n' \<and> same_note n n')"

definition is_task :: "task_row \<Rightarrow> bridge \<Rightarrow> bool" where
  "is_task m b \<longleftrightarrow> (\<exists>m'. task_of (tk_task m) b = Some m' \<and> same_task m m')"

definition reported :: "queue_event \<Rightarrow> bool" where
  "reported e \<longleftrightarrow> qe_kind e = ''goal_updated'' \<or> (qe_kind e = ''state_changed'' \<and> qe_status e \<in> set REPORTED_STATUSES)"

definition owed :: "bridge \<Rightarrow> queue_event \<Rightarrow> bool" where
  "owed b e \<longleftrightarrow> reported e \<and> (\<exists>m. task_of (qe_task e) b = Some m \<and> tk_channel m = ''whatsapp'')"

definition journalled :: "bridge \<Rightarrow> queue_event \<Rightarrow> bool" where
  "journalled b e \<longleftrightarrow> (\<exists>n. note_of (event_key (qe_seq e)) b = Some n)"

definition covered :: "nat \<Rightarrow> bridge \<Rightarrow> bool" where
  "covered c b \<longleftrightarrow> (c = 0 \<or> c \<in> qe_seq ` set (qb_log b)) \<and>
     (\<forall>e \<in> set (qb_log b). qe_seq e \<le> c \<longrightarrow> owed b e \<longrightarrow> journalled b e)"

text \<open>A note about a task is for the thread and the account that asked for it; a note of an event says that event.\<close>

definition note_home :: "bridge \<Rightarrow> note_row \<Rightarrow> bool" where
  "note_home b n \<longleftrightarrow> (\<forall>t. nt_task n = Some t \<longrightarrow>
     (\<exists>m. task_of t b = Some m \<and> nt_thread n = tk_thread m \<and> nt_account n = tk_account m))"

definition note_says :: "bridge \<Rightarrow> note_row \<Rightarrow> bool" where
  "note_says b n \<longleftrightarrow> (\<forall>seq. nt_key n = event_key seq \<longrightarrow>
     (\<exists>e \<in> set (qb_log b). \<exists>rs. qe_seq e = seq \<and> nt_task n = Some (qe_task e) \<and> event_text e rs = Some (nt_text n)))"

definition events_ok :: "queue_event list \<Rightarrow> bool" where
  "events_ok lg \<longleftrightarrow> sorted_wrt (<) (map qe_seq lg) \<and> (\<forall>e \<in> set lg. 0 < qe_seq e)"

definition stop_seen :: "string \<Rightarrow> bridge \<Rightarrow> bool" where
  "stop_seen t b \<longleftrightarrow> (\<exists>e \<in> set (qb_log b). stop_event t e)"

definition bridge_ok :: "bridge_config \<Rightarrow> bridge \<Rightarrow> bool" where
  "bridge_ok cf b \<longleftrightarrow>
     unique_keys nt_key (qb_notes b) \<and> unique_keys tk_task (qb_tasks b) \<and> events_ok (qb_log b) \<and>
     (\<forall>n \<in> set (qb_notes b). note_home b n \<and> note_says b n) \<and>
     (\<forall>c \<in> set (qb_reconciles b). rc_stopped c \<noteq> None \<longrightarrow> stop_seen (rc_task c) b) \<and>
     covered (event_cursor cf b) b"

definition bridge_grows :: "bridge \<Rightarrow> bridge \<Rightarrow> bool" where
  "bridge_grows b b' \<longleftrightarrow>
     (\<exists>new. qb_log b' = qb_log b @ new) \<and> (\<forall>e \<in> set (qb_log b). owed b' e \<longrightarrow> owed b e) \<and>
     (\<forall>n. is_note n b \<longrightarrow> is_note n b') \<and> (\<forall>m. is_task m b \<longrightarrow> is_task m b')"

text \<open>What may be sent: a journalled note, by its account; the task as it was asked for; a retry after a stop.\<close>

fun bridge_asks :: "bridge_config \<Rightarrow> bridge \<Rightarrow> request \<Rightarrow> bool" where
  "bridge_asks cf b (SendNote p) =
     (\<exists>n s. is_note n b \<and> qc_senderOf cf (nt_account n) = Some s \<and> note_request s n = SendNote p)"
| "bridge_asks cf b (PutTask i p d g) =
     (\<exists>m. is_task m b \<and> tk_task m = i \<and> tk_project m = p \<and> tk_cwd m = d \<and> tk_goal m = g)"
| "bridge_asks cf b (RetryTask t) = stop_seen t b"
| "bridge_asks cf b r = True"

definition bridge_contract :: "bridge_config \<Rightarrow> (bridge, request, answer, loop_head) contract" where
  "bridge_contract cf =
     \<lparr>ct_inv = bridge_ok cf, ct_grows = bridge_grows, ct_asks = bridge_asks cf,
      ct_answers = (\<lambda>b. honest_answer (qb_log b)), ct_head = (\<lambda>b l. covered (fst l) b)\<rparr>"

lemma contract_simps [simp]:
  "ct_inv (bridge_contract cf) = bridge_ok cf" "ct_grows (bridge_contract cf) = bridge_grows"
  "ct_asks (bridge_contract cf) = bridge_asks cf" "ct_answers (bridge_contract cf) = (\<lambda>b. honest_answer (qb_log b))"
  "ct_head (bridge_contract cf) = (\<lambda>b l. covered (fst l) b)"
  by (simp_all add: bridge_contract_def)

section \<open>What lasts\<close>

lemma same_note_refl [simp]: "same_note n n"
  by (simp add: same_note_def)

lemma same_note_trans: "same_note n m \<Longrightarrow> same_note m k \<Longrightarrow> same_note n k"
  by (simp add: same_note_def)

lemma same_task_refl [simp]: "same_task m m"
  by (simp add: same_task_def)

lemma same_task_trans: "same_task n m \<Longrightarrow> same_task m k \<Longrightarrow> same_task n k"
  by (simp add: same_task_def)

lemma note_ofD: "note_of k b = Some n \<Longrightarrow> nt_key n = k \<and> n \<in> set (qb_notes b)"
  unfolding note_of_def by (auto dest: row_of_SomeD)

lemma task_ofD: "task_of t b = Some m \<Longrightarrow> tk_task m = t \<and> m \<in> set (qb_tasks b)"
  unfolding task_of_def by (auto dest: row_of_SomeD)

lemma note_of_is_note: "note_of k b = Some n \<Longrightarrow> is_note n b"
  using note_ofD [of k b n] by (auto simp: is_note_def)

lemma task_of_is_task: "task_of t b = Some m \<Longrightarrow> is_task m b"
  using task_ofD [of t b m] by (auto simp: is_task_def)

lemma grows_note: "bridge_grows b b' \<Longrightarrow> note_of k b = Some n \<Longrightarrow> \<exists>n'. note_of k b' = Some n' \<and> same_note n n'"
proof -
  assume g: "bridge_grows b b'" and n: "note_of k b = Some n"
  then have "is_note n b'" using note_of_is_note [OF n] by (simp add: bridge_grows_def)
  then show ?thesis using note_ofD [OF n] by (auto simp: is_note_def)
qed

lemma grows_task: "bridge_grows b b' \<Longrightarrow> task_of k b = Some m \<Longrightarrow> \<exists>m'. task_of k b' = Some m' \<and> same_task m m'"
proof -
  assume g: "bridge_grows b b'" and n: "task_of k b = Some m"
  then have "is_task m b'" using task_of_is_task [OF n] by (simp add: bridge_grows_def)
  then show ?thesis using task_ofD [OF n] by (auto simp: is_task_def)
qed

lemma owed_lasts: "bridge_grows b b' \<Longrightarrow> owed b e \<Longrightarrow> owed b' e"
  by (auto simp: owed_def same_task_def dest!: grows_task)

lemma journalled_lasts: "bridge_grows b b' \<Longrightarrow> journalled b e \<Longrightarrow> journalled b' e"
  by (auto simp: journalled_def dest!: grows_note)

lemma stop_seen_lasts: "bridge_grows b b' \<Longrightarrow> stop_seen t b \<Longrightarrow> stop_seen t b'"
  by (auto simp: stop_seen_def bridge_grows_def)

lemma log_new_later: "events_ok (lg @ new) \<Longrightarrow> e \<in> set lg \<Longrightarrow> e' \<in> set new \<Longrightarrow> qe_seq e < qe_seq e'"
  by (auto simp: events_ok_def sorted_wrt_append)

lemma covered_lasts:
  assumes "bridge_grows b b'" "events_ok (qb_log b')" "covered c b"
  shows "covered c b'"
proof -
  obtain new where new: "qb_log b' = qb_log b @ new" using assms(1) by (auto simp: bridge_grows_def)
  have late: "c < qe_seq e" if "e \<in> set new" for e
    using assms(2,3) that log_new_later [of "qb_log b" new] by (auto simp: new covered_def events_ok_def)
  have "journalled b' e" if "e \<in> set (qb_log b')" "qe_seq e \<le> c" "owed b' e" for e
  proof -
    have e: "e \<in> set (qb_log b)" using that(1,2) late by (fastforce simp: new)
    then have "owed b e" using assms(1) that(3) by (simp add: bridge_grows_def)
    with e that(2) assms(3) have "journalled b e" by (simp add: covered_def)
    with assms(1) show ?thesis by (rule journalled_lasts)
  qed
  then show ?thesis using assms(3) by (auto simp: covered_def new)
qed

lemma grows_refl: "bridge_grows b b"
  by (simp add: bridge_grows_def)

lemma grows_trans: "bridge_grows b c \<Longrightarrow> bridge_grows c d \<Longrightarrow> bridge_grows b d"
  by (fastforce simp: bridge_grows_def)

lemma asks_last: "bridge_asks cf b r \<Longrightarrow> bridge_grows b b' \<Longrightarrow> bridge_asks cf b' r"
  by (cases r) (auto simp: bridge_grows_def stop_seen_def)

interpretation bc: flow_contract "bridge_contract cf" for cf
  by unfold_locales
    (auto simp: grows_refl bridge_ok_def intro: grows_trans asks_last covered_lasts)

section \<open>Changes of the tables\<close>

definition same_tables :: "bridge \<Rightarrow> bridge \<Rightarrow> bool" where
  "same_tables b b' \<longleftrightarrow> qb_notes b' = qb_notes b \<and> qb_tasks b' = qb_tasks b \<and> qb_log b' = qb_log b"

lemma same_tables_views:
  assumes "same_tables b b'"
  shows "note_of k b' = note_of k b" "task_of t b' = task_of t b" "is_note n b' = is_note n b" "is_task m b' = is_task m b"
    "owed b' e = owed b e" "journalled b' e = journalled b e" "note_home b' n = note_home b n" "note_says b' n = note_says b n"
    "stop_seen t b' = stop_seen t b" "covered c b' = covered c b" "qb_notes b' = qb_notes b" "qb_tasks b' = qb_tasks b"
    "qb_log b' = qb_log b"
  using assms
  by (simp_all add: same_tables_def note_of_def task_of_def is_note_def is_task_def owed_def journalled_def note_home_def
    note_says_def stop_seen_def covered_def)

lemma same_tables_grows: "same_tables b b' \<Longrightarrow> bridge_grows b b'"
  by (simp add: bridge_grows_def same_tables_views)

lemma same_tables_ok:
  assumes "same_tables b b'" "bridge_ok cf b"
    and "\<And>c. c \<in> set (qb_reconciles b') \<Longrightarrow> rc_stopped c \<noteq> None \<Longrightarrow> stop_seen (rc_task c) b"
    and "covered (event_cursor cf b') b"
  shows "bridge_ok cf b' \<and> bridge_grows b b'"
  using assms same_tables_views [OF assms(1)] same_tables_grows [OF assms(1)] by (simp add: bridge_ok_def)

lemma ok_cursor: "bridge_ok cf b \<Longrightarrow> covered (event_cursor cf b) b"
  by (simp add: bridge_ok_def)

lemma ok_stopped: "bridge_ok cf b \<Longrightarrow> c \<in> set (qb_reconciles b) \<Longrightarrow> rc_stopped c \<noteq> None \<Longrightarrow> stop_seen (rc_task c) b"
  by (simp add: bridge_ok_def)

named_theorems bridge_steps \<open>changes that keep the invariant and only let the tables grow\<close>

lemma keep_sweeping [bridge_steps]: "bridge_ok cf b \<Longrightarrow> bridge_ok cf (set_sweeping v b) \<and> bridge_grows b (set_sweeping v b)"
  by (rule same_tables_ok) (auto simp: same_tables_def set_sweeping_def event_cursor_def dest: ok_cursor ok_stopped)

lemma keep_see_events [bridge_steps]: "bridge_ok cf b \<Longrightarrow> bridge_ok cf (see_events es b) \<and> bridge_grows b (see_events es b)"
  by (rule same_tables_ok) (auto simp: same_tables_def see_events_def event_cursor_def dest: ok_cursor ok_stopped)

lemma keep_drop_reconcile [bridge_steps]:
  "bridge_ok cf b \<Longrightarrow> bridge_ok cf (drop_reconcile t b) \<and> bridge_grows b (drop_reconcile t b)"
  by (rule same_tables_ok)
    (auto simp: same_tables_def drop_reconcile_def delete_key_def event_cursor_def dest: ok_cursor ok_stopped)

lemma keep_start_reconcile [bridge_steps]:
  "bridge_ok cf b \<Longrightarrow> bridge_ok cf (start_reconcile t b) \<and> bridge_grows b (start_reconcile t b)"
  by (rule same_tables_ok)
    (auto simp: same_tables_def start_reconcile_def event_cursor_def dest: ok_cursor ok_stopped dest!: set_upsert_subset [THEN subsetD])

lemma keep_rearm [bridge_steps]:
  "bridge_ok cf b \<Longrightarrow> bridge_ok cf (rearm mapped nodes b) \<and> bridge_grows b (rearm mapped nodes b)"
proof (induction nodes arbitrary: b)
  case Nil
  then show ?case by (simp add: rearm_def grows_refl)
next
  case (Cons n nodes)
  let ?b = "if gn_status n = ''interrupted'' \<and> gn_id n \<in> set mapped \<and> row_of rc_task (gn_id n) (qb_reconciles b) = None
       then start_reconcile (gn_id n) b else b"
  have "bridge_ok cf ?b \<and> bridge_grows b ?b" using Cons.prems keep_start_reconcile grows_refl by simp
  moreover have "rearm mapped (n # nodes) b = rearm mapped nodes ?b" by (simp add: rearm_def)
  ultimately show ?case using Cons.IH [of ?b] grows_trans [of b ?b] by metis
qed

lemma keep_mark_stopped:
  "bridge_ok cf b \<Longrightarrow> stop_seen (rc_task c) b \<Longrightarrow>
   bridge_ok cf (mark_stopped c b) \<and> bridge_grows b (mark_stopped c b)"
  by (rule same_tables_ok) (auto simp: same_tables_def mark_stopped_def event_cursor_def dest: ok_cursor ok_stopped split: if_splits)

lemma keep_save_cursor:
  "bridge_ok cf b \<Longrightarrow> covered c b \<Longrightarrow> bridge_ok cf (save_cursor cf c b) \<and> bridge_grows b (save_cursor cf c b)"
  by (rule same_tables_ok) (auto simp: same_tables_def save_cursor_def event_cursor_def dest: ok_stopped)

text \<open>Rows changed in place.\<close>

lemma keep_rows:
  assumes ok: "bridge_ok cf b" and log: "qb_log b' = qb_log b" and rest: "qb_cursors b' = qb_cursors b" "qb_reconciles b' = qb_reconciles b"
    and nn: "qb_notes b' = map f (qb_notes b)" "\<And>n. same_note n (f n)"
    and tasks: "qb_tasks b' = map g (qb_tasks b)" "\<And>m. same_task m (g m)"
  shows "bridge_ok cf b' \<and> bridge_grows b b'"
proof -
  have nk: "nt_key (f n) = nt_key n" for n using nn(2) by (simp add: same_note_def)
  have tk: "tk_task (g m) = tk_task m" for m using tasks(2) by (simp add: same_task_def)
  have n: "note_of k b' = map_option f (note_of k b)" for k
    unfolding note_of_def nn(1) by (rule row_of_map_keep) (rule nk)
  have t: "task_of k b' = map_option g (task_of k b)" for k
    unfolding task_of_def tasks(1) by (rule row_of_map_keep) (rule tk)
  have owed: "owed b' e = owed b e" for e
    using tasks(2) by (auto simp: owed_def t same_task_def)
  have journalled: "journalled b' e = journalled b e" for e by (auto simp: journalled_def n)
  have isn: "is_note k b'" if "is_note k b" for k
    using that nn(2) by (auto simp: is_note_def n intro: same_note_trans)
  have ist: "is_task k b'" if "is_task k b" for k
    using that tasks(2) by (auto simp: is_task_def t intro: same_task_trans)
  have "note_home b' (f k) \<and> note_says b' (f k)" if "k \<in> set (qb_notes b)" for k
  proof -
    have "note_home b k" "note_says b k" using ok that by (auto simp: bridge_ok_def)
    moreover have "same_note k (f k)" by (rule nn(2))
    ultimately show ?thesis
      using tasks(2) unfolding note_home_def note_says_def t log same_note_def same_task_def
      by (metis option.simps(9))
  qed
  moreover have "stop_seen k b' = stop_seen k b" for k by (simp add: stop_seen_def log)
  moreover have "covered (event_cursor cf b') b'"
    using ok_cursor [OF ok] by (simp add: covered_def log owed journalled event_cursor_def rest)
  moreover have "unique_keys nt_key (qb_notes b')" "unique_keys tk_task (qb_tasks b')"
    using ok by (simp_all add: bridge_ok_def nn(1) tasks(1) unique_keys_map_keep nk tk)
  ultimately show ?thesis
    using ok isn ist by (auto simp: bridge_ok_def bridge_grows_def log rest nn(1) owed)
qed

lemma keep_update_note [bridge_steps]:
  "bridge_ok cf b \<Longrightarrow> bridge_ok cf (update_note key st b) \<and> bridge_grows b (update_note key st b)"
  by (rule keep_rows [where g = id and f = "\<lambda>n. if nt_key n = key
        then n\<lparr>nt_state := st, nt_attempts := nt_attempts n + 1, nt_updated := qb_now b\<rparr> else n"])
    (auto simp: update_note_def same_note_def)

lemma keep_set_task:
  "(\<And>m. same_task m (f m)) \<Longrightarrow> bridge_ok cf b \<Longrightarrow> bridge_ok cf (set_task t f b) \<and> bridge_grows b (set_task t f b)"
  by (rule keep_rows [where f = id and g = "\<lambda>r. if tk_task r = t then f r else r"]) (auto simp: set_task_def)

lemma keep_task_put [bridge_steps]: "bridge_ok cf b \<Longrightarrow> bridge_ok cf (task_put t b) \<and> bridge_grows b (task_put t b)"
  unfolding task_put_def by (rule keep_set_task) (simp_all add: same_task_def)

lemma keep_task_put_failed [bridge_steps]:
  "bridge_ok cf b \<Longrightarrow> bridge_ok cf (task_put_failed t b) \<and> bridge_grows b (task_put_failed t b)"
  unfolding task_put_failed_def by (rule keep_set_task) (simp_all add: same_task_def)

lemma keep_set_stall [bridge_steps]: "bridge_ok cf b \<Longrightarrow> bridge_ok cf (set_stall t v b) \<and> bridge_grows b (set_stall t v b)"
  unfolding set_stall_def by (rule keep_set_task) (simp_all add: same_task_def)

text \<open>Rows that are new.\<close>

lemma keep_add_note:
  assumes ok: "bridge_ok cf b" and new: "note_of (nt_key n) b = None" and home: "note_home b n" "note_says b n"
  shows "bridge_ok cf (add_note n b) \<and> bridge_grows b (add_note n b) \<and> is_note n (add_note n b)"
proof -
  let ?n = "n\<lparr>nt_state := Sending, nt_attempts := 0, nt_updated := qb_now b\<rparr>" and ?b = "add_note n b"
  have t: "task_of k ?b = task_of k b" for k by (simp add: task_of_def add_note_def)
  have nt: "note_of k ?b = (if k = nt_key n then Some ?n else note_of k b)" for k
    using new by (auto simp: note_of_def add_note_def row_of_append split: option.splits)
  have log: "qb_log ?b = qb_log b" by (simp add: add_note_def)
  have owed: "owed ?b e = owed b e" for e by (simp add: owed_def t)
  have jl: "journalled b e \<Longrightarrow> journalled ?b e" for e by (auto simp: journalled_def nt)
  have homes: "note_home ?b k = note_home b k" "note_says ?b k = note_says b k" for k
    by (simp_all add: note_home_def note_says_def t log)
  have "note_home b ?n \<and> note_says b ?n" using home by (simp add: note_home_def note_says_def)
  moreover have "unique_keys nt_key (qb_notes ?b)"
    using ok new by (auto simp: bridge_ok_def unique_keys_def add_note_def note_of_def row_of_None_iff image_iff)
  moreover have "covered (event_cursor cf ?b) ?b"
  proof -
    have "event_cursor cf ?b = event_cursor cf b" by (simp add: event_cursor_def add_note_def)
    then show ?thesis using ok_cursor [OF ok] jl by (simp add: covered_def log owed)
  qed
  moreover have "stop_seen k ?b = stop_seen k b" for k by (simp add: stop_seen_def log)
  moreover have "qb_notes ?b = qb_notes b @ [?n]" "qb_tasks ?b = qb_tasks b" "qb_reconciles ?b = qb_reconciles b"
    by (simp_all add: add_note_def)
  ultimately have "bridge_ok cf ?b" using ok by (simp add: bridge_ok_def homes log)
  moreover have "bridge_grows b ?b"
    using new by (auto simp: bridge_grows_def log owed is_note_def is_task_def t nt)
  ultimately show ?thesis by (auto simp: is_note_def nt same_note_def)
qed

section \<open>Every flow keeps to the contract\<close>

abbreviation fine :: "bridge_config \<Rightarrow> 'v act \<Rightarrow> bool" where
  "fine cf m \<equiv> valid (bridge_contract cf) (\<lambda>_. True) m (\<lambda>_ _. True)"

named_theorems flow_intros \<open>how code that needs nothing of the state keeps to the contract\<close>

lemma fine_ret [flow_intros]: "fine cf (ret v)"
  by (rule bc.valid_ret [where Q = "\<lambda>_ _. True"])

lemma fine_result [flow_intros]: "fine cf (of_result r)"
  by (rule bc.valid_of_result [where Q = "\<lambda>_ _. True"])

lemma fine_reading [flow_intros]: "fine cf (reading f)"
  by (rule bc.valid_reading [where Q = "\<lambda>_ _. True"])

lemma fine_modify: "(\<And>b. bridge_ok cf b \<Longrightarrow> bridge_ok cf (f b) \<and> bridge_grows b (f b)) \<Longrightarrow> fine cf (modify f)"
  by (rule bc.valid_modify) simp

lemma fine_andthen [flow_intros]: "fine cf m \<Longrightarrow> (\<And>v. fine cf (f v)) \<Longrightarrow> fine cf (andthen m f)"
  by (rule bc.valid_andthen) auto

lemma fine_attempting [flow_intros]: "fine cf m \<Longrightarrow> fine cf (attempting m)"
  by (rule bc.valid_attempting)

lemma fine_for_each [flow_intros]: "(\<And>x. fine cf (f x)) \<Longrightarrow> fine cf (for_each f xs)"
  by (rule bc.valid_for_each)

lemma fine_pre: "fine cf m \<Longrightarrow> valid (bridge_contract cf) P m (\<lambda>_ _. True)"
  by (erule bc.valid_pre) simp

lemma fine_await: "(\<And>b. bridge_asks cf b r) \<Longrightarrow> fine cf (await r)"
  by (rule bc.valid_post [OF bc.valid_await]) auto

lemmas fine_changes [flow_intros] = bridge_steps [THEN fine_modify]

lemma fine_read_graph [flow_intros]: "fine cf read_graph"
  unfolding read_graph_def by (intro flow_intros fine_await) simp

lemma lasting_is_note: "lasting (bridge_contract cf) (is_note n)"
  by (simp add: lasting_def bridge_grows_def)

lemma lasting_is_task: "lasting (bridge_contract cf) (is_task m)"
  by (simp add: lasting_def bridge_grows_def)

text \<open>What is read is fixed when it is read.\<close>

lemma read_fixed:
  "(\<And>b. valid (bridge_contract cf) P (g (f b)) Q) \<Longrightarrow> valid (bridge_contract cf) P (andthen (reading f) g) Q"
  by (rule bc.valid_read_then) (auto simp: valid_def)

lemma find_note_fine: "valid (bridge_contract cf) (is_note n) (find_note sender k) (\<lambda>_. is_note n)"
  unfolding find_note_def
  by (rule bc.valid_await_then [OF _ lasting_is_note])
    (auto intro: bc.valid_pre [OF bc.valid_reading [where Q = "\<lambda>_. is_note n"]])

lemma note_request_ok:
  "is_note n b \<Longrightarrow> sender_for_note cf n = Inr s \<Longrightarrow> bridge_asks cf b (note_request s n)"
  by (auto simp: note_request_def sender_for_note_def split: option.splits)

lemma send_note_fine:
  "sender_for_note cf n = Inr sender \<Longrightarrow> valid (bridge_contract cf) (is_note n) (send_note sender n) (\<lambda>_ _. True)"
  unfolding send_note_def
proof (rule bc.valid_await_then [OF _ lasting_is_note])
  fix a
  have "fine cf (case send_of a of
         SentAs i \<Rightarrow> andthen (modify (update_note (nt_key n) Sent)) (\<lambda>_. ret True)
       | SendUncertain status e definitive \<Rightarrow> andthen (modify (update_note (nt_key n) Uncertain)) (\<lambda>_. ret False))"
    by (auto intro!: flow_intros split: send_result.split)
  then show "valid (bridge_contract cf) (\<lambda>s. is_note n s \<and> ct_answers (bridge_contract cf) s (note_request sender n) a)
      (case send_of a of
         SentAs i \<Rightarrow> andthen (modify (update_note (nt_key n) Sent)) (\<lambda>_. ret True)
       | SendUncertain status e definitive \<Rightarrow> andthen (modify (update_note (nt_key n) Uncertain)) (\<lambda>_. ret False)) (\<lambda>_ _. True)"
    by (rule fine_pre)
qed (simp add: note_request_ok)

lemma attempt_note_fine: "valid (bridge_contract cf) (is_note n) (attempt_note cf n) (\<lambda>_ _. True)"
  unfolding attempt_note_def
proof (rule bc.valid_result_then)
  fix sender
  assume s: "sender_for_note cf n = Inr sender"
  have sent: "valid (bridge_contract cf) (is_note n) (andthen (modify (update_note (nt_key n) Sent)) (\<lambda>_. ret True)) (\<lambda>_ _. True)"
    by (rule fine_pre) (intro flow_intros)
  have "valid (bridge_contract cf) (is_note n) (if 0 < nt_attempts n then find_note sender n else ret None) (\<lambda>_. is_note n)"
    by (simp add: find_note_fine bc.valid_ret [where Q = "\<lambda>_. is_note n"])
  then show "valid (bridge_contract cf) (is_note n)
      (andthen (if 0 < nt_attempts n then find_note sender n else ret None) (\<lambda>found.
         if found \<noteq> None then andthen (modify (update_note (nt_key n) Sent)) (\<lambda>_. ret True) else send_note sender n))
      (\<lambda>_ _. True)"
    by (rule bc.valid_andthen) (use send_note_fine [OF s] sent in auto)
qed simp

lemma fine_deliver_note [flow_intros]: "fine cf (deliver_note cf key)"
  unfolding deliver_note_def
proof (rule bc.valid_read_then)
  fix row
  show "valid (bridge_contract cf) (\<lambda>s. True \<and> note_of key s = row)
      (case row of None \<Rightarrow> ret True | Some n \<Rightarrow> (if nt_state n = Sent then ret True else attempt_note cf n)) (\<lambda>_ _. True)"
  proof (cases row)
    case None
    then show ?thesis by simp (rule fine_pre, rule fine_ret)
  next
    case (Some n)
    have "valid (bridge_contract cf) (is_note n) (if nt_state n = Sent then ret True else attempt_note cf n) (\<lambda>_ _. True)"
      by (simp add: attempt_note_fine fine_pre [OF fine_ret])
    then show ?thesis unfolding Some option.case by (rule bc.valid_pre) (auto intro: note_of_is_note)
  qed
qed

lemma fine_deliver_pending [flow_intros]: "fine cf (deliver_pending cf)"
  unfolding deliver_pending_def by (intro flow_intros)

text \<open>A note is written down when it has a home and says what it may.\<close>

lemma valid_enqueue:
  assumes "\<And>b. P b \<Longrightarrow> bridge_ok cf b \<Longrightarrow> note_home b n \<and> note_says b n" "lasting (bridge_contract cf) P"
  shows "valid (bridge_contract cf) P (enqueue_note n)
    (\<lambda>r b. P b \<and> (\<exists>v. r = Inr v) \<and> (\<exists>n'. note_of (nt_key n) b = Some n'))"
  unfolding enqueue_note_def
proof (rule bc.valid_read_then)
  fix old
  let ?Q = "\<lambda>(r :: string + bool) b. P b \<and> (\<exists>v. r = Inr v) \<and> (\<exists>n'. note_of (nt_key n) b = Some n')"
  show "valid (bridge_contract cf) (\<lambda>s. P s \<and> note_of (nt_key n) s = old)
      (if old = None then andthen (modify (add_note n)) (\<lambda>_. ret True) else ret False) ?Q"
  proof (cases old)
    case None
    have "valid (bridge_contract cf) (\<lambda>s. P s \<and> note_of (nt_key n) s = old) (andthen (modify (add_note n)) (\<lambda>_. ret True)) ?Q"
    proof (rule bc.valid_modify_then)
      show "valid (bridge_contract cf) (?Q (Inr True)) (ret True) ?Q" by (rule bc.valid_ret [where Q = ?Q])
    next
      fix s
      assume s: "P s \<and> note_of (nt_key n) s = old" "ct_inv (bridge_contract cf) s"
      then have k: "bridge_ok cf (add_note n s) \<and> bridge_grows s (add_note n s) \<and> is_note n (add_note n s)"
        using None assms(1) by (intro keep_add_note) auto
      moreover have "P (add_note n s)" using s k assms(2) by (auto simp: lasting_def)
      ultimately show "ct_inv (bridge_contract cf) (add_note n s) \<and> ct_grows (bridge_contract cf) s (add_note n s) \<and>
          ?Q (Inr True) (add_note n s)" by (auto simp: is_note_def)
    qed
    then show ?thesis using None by simp
  next
    case (Some n')
    have "valid (bridge_contract cf) (?Q (Inr False)) (ret False) ?Q" by (rule bc.valid_ret [where Q = ?Q])
    then have "valid (bridge_contract cf) (\<lambda>s. P s \<and> note_of (nt_key n) s = old) (ret False) ?Q"
      by (rule bc.valid_pre) (use Some in auto)
    then show ?thesis using Some by simp
  qed
qed

lemma valid_enqueue_deliver:
  assumes "\<And>b. P b \<Longrightarrow> bridge_ok cf b \<Longrightarrow> note_home b n \<and> note_says b n" "lasting (bridge_contract cf) P"
  shows "valid (bridge_contract cf) P (enqueue_and_deliver cf n) (\<lambda>_ _. True)"
  unfolding enqueue_and_deliver_def
proof (rule bc.valid_andthen [OF valid_enqueue [OF assms]])
  fix fresh
  have "fine cf (if fresh then andthen (deliver_note cf (nt_key n)) (\<lambda>_. ret ()) else ret ())"
    by (auto intro!: flow_intros)
  then show "valid (bridge_contract cf) (\<lambda>b. P b \<and> (\<exists>v. Inr fresh = Inr v) \<and> (\<exists>n'. note_of (nt_key n) b = Some n'))
      (if fresh then andthen (deliver_note cf (nt_key n)) (\<lambda>_. ret ()) else ret ()) (\<lambda>_ _. True)"
    by (rule fine_pre)
qed simp_all

lemma fine_chat_note [flow_intros]: "fine cf (chat_note cf row message key txt)"
  unfolding chat_note_def
  by (rule valid_enqueue_deliver) (auto simp: note_home_def note_says_def make_note_def event_key_def)

lemma fine_operator_note [flow_intros]: "fine cf (operator_note cf t txt)"
  unfolding operator_note_def
proof (rule bc.valid_read_then)
  fix v
  show "valid (bridge_contract cf) (\<lambda>s. True \<and> (task_of t s, s) = v)
      (case v of (mapping, b) \<Rightarrow> case mapping of
         None \<Rightarrow> ret ()
       | Some m \<Rightarrow> enqueue_and_deliver cf
           (make_note (''op-'' @ t @ ''-'' @ show_int (qb_now b)) (Some t) (tk_thread m) (inbox_payload (tk_seq m) b)
              (tk_account m) txt)) (\<lambda>_ _. True)"
  proof (cases "fst v")
    case None
    then show ?thesis by (cases v) (simp add: fine_pre [OF fine_ret])
  next
    case (Some m)
    obtain b where v: "v = (Some m, b)" using Some by (cases v) auto
    have "valid (bridge_contract cf) (\<lambda>s. is_task m s \<and> tk_task m = t) (enqueue_and_deliver cf
           (make_note (''op-'' @ t @ ''-'' @ show_int (qb_now b)) (Some t) (tk_thread m) (inbox_payload (tk_seq m) b)
              (tk_account m) txt)) (\<lambda>_ _. True)"
    proof (rule valid_enqueue_deliver)
      show "lasting (bridge_contract cf) (\<lambda>s. is_task m s \<and> tk_task m = t)"
        by (intro bc.lasting_conj lasting_is_task bc.lasting_pure)
    qed (auto simp: note_home_def note_says_def make_note_def event_key_def is_task_def same_task_def)
    then show ?thesis
      unfolding v prod.case option.case by (rule bc.valid_pre) (auto dest: task_ofD intro: task_of_is_task)
  qed
qed

lemma fine_put_task: "valid (bridge_contract cf) (is_task m) (put_task m) (\<lambda>_. is_task m)"
  unfolding put_task_def
proof (rule bc.valid_await_then [OF _ lasting_is_task])
  fix a
  let ?f = "case command_of a of
           Inr (c, e) \<Rightarrow> (if c = 0 then task_put (tk_task m) else task_put_failed (tk_task m))
         | Inl e \<Rightarrow> task_put_failed (tk_task m)"
  have "bridge_ok cf b \<Longrightarrow> bridge_ok cf (?f b) \<and> bridge_grows b (?f b)" for b
    using keep_task_put [of cf b] keep_task_put_failed [of cf b] by (auto split: sum.split)
  then show "valid (bridge_contract cf)
      (\<lambda>s. is_task m s \<and> ct_answers (bridge_contract cf) s (PutTask (tk_task m) (tk_project m) (tk_cwd m) (tk_goal m)) a)
      (modify ?f) (\<lambda>_. is_task m)"
    by (intro bc.valid_modify) (auto simp: bridge_grows_def)
qed auto

lemma fine_sweep [flow_intros]: "fine cf sweep_creating"
proof -
  have "valid (bridge_contract cf) (\<lambda>_. True) (andthen (reading creating_tasks) (for_each put_task)) (\<lambda>_ _. True)"
  proof (rule bc.valid_read_then)
    fix rows
    let ?P = "\<lambda>s. \<forall>m \<in> set rows. is_task m s"
    have last: "lasting (bridge_contract cf) ?P"
      using lasting_is_task by (auto simp: lasting_def)
    have "valid (bridge_contract cf) ?P (for_each put_task rows) (\<lambda>_. ?P)"
    proof (rule bc.valid_for_each)
      fix m
      assume m: "m \<in> set rows"
      have "valid (bridge_contract cf) (\<lambda>s. is_task m s \<and> ?P s) (put_task m) (\<lambda>_ s. is_task m s \<and> ?P s)"
        by (rule bc.valid_frame [OF fine_put_task last])
      then show "valid (bridge_contract cf) ?P (put_task m) (\<lambda>_. ?P)"
        by (rule bc.valid_post [OF bc.valid_pre]) (use m in auto)
    qed
    then have "valid (bridge_contract cf) ?P (for_each put_task rows) (\<lambda>_ _. True)" by (rule bc.valid_post) simp
    moreover have "is_task m s" if "bridge_ok cf s" "creating_tasks s = rows" "m \<in> set rows" for m s
    proof -
      have "m \<in> set (qb_tasks s)" using that(2,3) by (auto simp: creating_tasks_def)
      then have "task_of (tk_task m) s = Some m"
        using that(1) by (simp add: task_of_def bridge_ok_def row_of_eq_Some_iff)
      then show ?thesis by (rule task_of_is_task)
    qed
    ultimately show "valid (bridge_contract cf) (\<lambda>s. True \<and> creating_tasks s = rows) (for_each put_task rows) (\<lambda>_ _. True)"
      by (elim bc.valid_with_inv) simp
  qed
  then show ?thesis
    unfolding sweep_creating_def by (auto intro!: flow_intros)
qed

lemma fine_search [flow_intros]: "fine cf (search_tasks cf note)"
  unfolding search_tasks_def by (auto intro!: flow_intros fine_await)

lemma fine_apply_followup [flow_intros]: "fine cf (apply_followup cf row message target note)"
  unfolding apply_followup_def by (auto intro!: flow_intros fine_await split: prod.split)

lemma fine_route_followup [flow_intros]: "fine cf (route_followup cf row message note)"
  unfolding route_followup_def Let_def
  by (auto intro!: flow_intros split: sum.split prod.split choice.split option.split)

lemma fine_report_status [flow_intros]: "fine cf (report_status cf row t)"
  unfolding report_status_def Let_def by (auto intro!: flow_intros split: sum.split prod.split)

lemma fine_lane_state [flow_intros]: "fine cf (lane_state cf)"
  unfolding lane_state_def Let_def by (auto intro!: flow_intros fine_await)

lemma fine_watch_one [flow_intros]: "fine cf (watch_one cf nodes edges alive m)"
proof -
  have "fine cf (modify (\<lambda>b. set_stall t (Some (qb_now b)) b))" for t
    by (rule fine_modify) (rule keep_set_stall)
  then show ?thesis
    unfolding watch_one_def by (auto intro!: flow_intros split: option.split prod.split)
qed

lemma fine_watch_stalled [flow_intros]: "fine cf (watch_stalled cf)"
  unfolding watch_stalled_def by (auto intro!: flow_intros split: sum.split prod.split)

lemma fine_rearm [flow_intros]: "fine cf rearm_reconciles"
proof -
  have "fine cf (modify (\<lambda>b. rearm (f b) nodes b))" for f nodes
    by (rule fine_modify) (rule keep_rearm)
  then show ?thesis
    unfolding rearm_reconciles_def by (auto intro!: flow_intros split: sum.split prod.split)
qed

subsection \<open>Reconciling\<close>

lemma lasting_stop_seen: "lasting (bridge_contract cf) (stop_seen t)"
  by (auto simp: lasting_def intro: stop_seen_lasts)

lemma lasting_implies: "lasting (bridge_contract cf) P \<Longrightarrow> lasting (bridge_contract cf) (\<lambda>s. \<phi> \<longrightarrow> P s)"
  by (auto simp: lasting_def)

lemma in_log_lasts: "lasting (bridge_contract cf) (\<lambda>b. set es \<subseteq> set (qb_log b))"
  by (auto simp: lasting_def bridge_grows_def)

lemma page_of_subset: "set (page_of lg c n) \<subseteq> set lg"
  by (auto simp: page_of_def dest: in_set_takeD)

lemma events_of_honest: "honest_answer lg (ReadEvents c n) a \<Longrightarrow> events_of a = Inr es \<Longrightarrow> es = page_of lg c n"
  by (cases a) (auto simp: events_of_def)

lemma valid_read_events:
  assumes "lasting (bridge_contract cf) P"
  shows "valid (bridge_contract cf) P (read_events c n)
    (\<lambda>r b. P b \<and> (\<forall>es. r = Inr es \<longrightarrow> es = page_of (qb_log b) c n))"
  unfolding read_events_def
proof (rule bc.valid_await_then [OF _ assms])
  fix a
  show "valid (bridge_contract cf) (\<lambda>s. P s \<and> ct_answers (bridge_contract cf) s (ReadEvents c n) a) (of_result (events_of a))
      (\<lambda>r b. P b \<and> (\<forall>es. r = Inr es \<longrightarrow> es = page_of (qb_log b) c n))"
    by (rule bc.valid_pre [OF bc.valid_of_result]) (auto dest: events_of_honest)
qed simp

lemma valid_retry: "valid (bridge_contract cf) (stop_seen t) (retry_task cf t) (\<lambda>_ _. True)"
  unfolding retry_task_def
proof (rule bc.valid_await_then [OF _ lasting_stop_seen])
  fix a
  have "fine cf (andthen (of_result (command_of a)) (\<lambda>(code, err).
       if code \<noteq> 0 then operator_note cf t (retry_failed_text t err) else ret ()))"
    by (auto intro!: flow_intros split: prod.split)
  then show "valid (bridge_contract cf) (\<lambda>s. stop_seen t s \<and> ct_answers (bridge_contract cf) s (RetryTask t) a)
      (andthen (of_result (command_of a)) (\<lambda>(code, err).
       if code \<noteq> 0 then operator_note cf t (retry_failed_text t err) else ret ())) (\<lambda>_ _. True)"
    by (rule fine_pre)
qed simp

lemma valid_end_reconcile:
  "valid (bridge_contract cf) (\<lambda>s. settled \<longrightarrow> stop_seen t s) (end_reconcile cf t settled) (\<lambda>_ _. True)"
  unfolding end_reconcile_def
proof (rule bc.valid_modify_then)
  fix s
  assume "settled \<longrightarrow> stop_seen t s" "ct_inv (bridge_contract cf) s"
  then show "ct_inv (bridge_contract cf) (drop_reconcile t s) \<and> ct_grows (bridge_contract cf) s (drop_reconcile t s) \<and>
      (settled \<longrightarrow> stop_seen t (drop_reconcile t s))"
    using keep_drop_reconcile [of cf s t] by (auto intro: stop_seen_lasts)
next
  show "valid (bridge_contract cf) (\<lambda>s. settled \<longrightarrow> stop_seen t s)
      (if \<not> settled then operator_note cf t (timeout_text cf t) else retry_task cf t) (\<lambda>_ _. True)"
    by (cases settled) (simp_all add: valid_retry fine_operator_note)
qed

definition known :: "reconcile \<Rightarrow> bridge \<Rightarrow> bool" where
  "known c b \<longleftrightarrow> rc_stopped c \<noteq> None \<longrightarrow> stop_seen (rc_task c) b"

lemma lasting_known: "lasting (bridge_contract cf) (known c)"
  by (auto simp: lasting_def known_def intro: stop_seen_lasts)

lemma valid_mark:
  "valid (bridge_contract cf) (\<lambda>b. known c b \<and> (newly \<longrightarrow> stop_seen (rc_task c) b))
     (if newly then modify (mark_stopped c) else ret ()) (\<lambda>_ b. known c b \<and> (newly \<longrightarrow> stop_seen (rc_task c) b))"
proof (cases newly)
  case True
  have "valid (bridge_contract cf) (stop_seen (rc_task c)) (modify (mark_stopped c)) (\<lambda>_. stop_seen (rc_task c))"
    using keep_mark_stopped [of cf _ c] by (intro bc.valid_modify) (auto intro: stop_seen_lasts)
  then have "valid (bridge_contract cf) (\<lambda>b. stop_seen (rc_task c) b \<and> known c b) (modify (mark_stopped c))
      (\<lambda>_ b. stop_seen (rc_task c) b \<and> known c b)" by (rule bc.valid_frame [OF _ lasting_known])
  then have "valid (bridge_contract cf) (\<lambda>b. known c b \<and> stop_seen (rc_task c) b) (modify (mark_stopped c))
      (\<lambda>_ b. known c b \<and> stop_seen (rc_task c) b)" by (simp add: conj_commute)
  then show ?thesis using True by simp
next
  case False
  then show ?thesis by (simp add: bc.valid_ret [where Q = "\<lambda>_. known c"])
qed

lemma valid_reconcile_one:
  "valid (bridge_contract cf) (\<lambda>b. known c b \<and> set events \<subseteq> set (qb_log b)) (reconcile_one cf events c) (\<lambda>_ _. True)"
  unfolding reconcile_one_def
proof (rule read_fixed, unfold Let_def)
  fix b :: bridge
  let ?now = "qb_now b"
  let ?newly = "list_ex (stop_event (rc_task c)) events \<and> rc_stopped c = None"
  let ?settled = "settled_at cf ?now (if ?newly then Some ?now else rc_stopped c)"
  let ?P = "\<lambda>b. known c b \<and> (?newly \<longrightarrow> stop_seen (rc_task c) b)"
  have seen: "?P s" if "known c s \<and> set events \<subseteq> set (qb_log s)" for s
    using that by (auto simp: stop_seen_def list_ex_iff)
  have settled: "stop_seen (rc_task c) s" if "?P s" ?settled for s
    using that by (auto simp: known_def settled_at_def split: if_splits option.splits)
  have rest: "valid (bridge_contract cf) ?P
      (if \<not> ?settled \<and> of_int (?now - rc_started c) < qc_timeout_s cf * 1000 then ret ()
       else end_reconcile cf (rc_task c) ?settled) (\<lambda>_ _. True)"
    by (rule bc.valid_if [OF fine_pre [OF fine_ret] bc.valid_pre [OF valid_end_reconcile]]) (blast intro: settled)
  have "valid (bridge_contract cf) ?P (andthen (if ?newly then modify (mark_stopped c) else ret ()) (\<lambda>_.
      if \<not> ?settled \<and> of_int (?now - rc_started c) < qc_timeout_s cf * 1000 then ret ()
      else end_reconcile cf (rc_task c) ?settled)) (\<lambda>_ _. True)"
    by (rule bc.valid_andthen [OF valid_mark [of cf c ?newly]]) (use rest in auto)
  then show "valid (bridge_contract cf) (\<lambda>b. known c b \<and> set events \<subseteq> set (qb_log b))
      (andthen (if ?newly then modify (mark_stopped c) else ret ()) (\<lambda>_.
        if \<not> ?settled \<and> of_int (?now - rc_started c) < qc_timeout_s cf * 1000 then ret ()
        else end_reconcile cf (rc_task c) ?settled)) (\<lambda>_ _. True)"
    by (rule bc.valid_pre) (rule seen)
qed

lemma fine_reconcile [flow_intros]: "fine cf (reconcile_amendments cf)"
  unfolding reconcile_amendments_def
proof (rule read_fixed, unfold prod.case)
  fix b :: bridge
  have each: "valid (bridge_contract cf) (\<lambda>s. set es \<subseteq> set (qb_log s))
      (andthen (reading qb_reconciles) (for_each (reconcile_one cf es))) (\<lambda>_ _. True)" for es
  proof (rule bc.valid_read_then)
    fix cs
    let ?P = "\<lambda>s. set es \<subseteq> set (qb_log s) \<and> (\<forall>c \<in> set cs. known c s)"
    have last: "lasting (bridge_contract cf) ?P"
      using lasting_known in_log_lasts [of cf es] by (fastforce simp: lasting_def)
    have "valid (bridge_contract cf) ?P (for_each (reconcile_one cf es) cs) (\<lambda>_. ?P)"
    proof (rule bc.valid_for_each)
      fix c
      assume c: "c \<in> set cs"
      show "valid (bridge_contract cf) ?P (reconcile_one cf es c) (\<lambda>_. ?P)"
        by (rule bc.valid_post [OF bc.valid_pre [OF bc.valid_frame [OF valid_reconcile_one last]]]) (use c in auto)
    qed
    then have "valid (bridge_contract cf) ?P (for_each (reconcile_one cf es) cs) (\<lambda>_ _. True)" by (rule bc.valid_post) simp
    then show "valid (bridge_contract cf) (\<lambda>s. set es \<subseteq> set (qb_log s) \<and> qb_reconciles s = cs)
        (for_each (reconcile_one cf es) cs) (\<lambda>_ _. True)"
      by (rule bc.valid_with_inv) (auto simp: known_def dest: ok_stopped)
  qed
  have seen: "valid (bridge_contract cf) (\<lambda>s. set es \<subseteq> set (qb_log s))
      (andthen (modify (see_events es)) (\<lambda>_. andthen (reading qb_reconciles) (for_each (reconcile_one cf es)))) (\<lambda>_ _. True)" for es
    by (rule bc.valid_modify_then [OF _ each]) (use keep_see_events in \<open>auto simp: see_events_def\<close>)
  show "fine cf (if qb_reconciles b = [] then ret ()
       else andthen (attempting (read_events (qb_reconcileSeq b) 200)) (\<lambda>r. case r of
           Inl e \<Rightarrow> ret ()
         | Inr events \<Rightarrow>
             andthen (modify (see_events events)) (\<lambda>_.
               andthen (reading qb_reconciles) (for_each (reconcile_one cf events)))))"
  proof (cases "qb_reconciles b = []")
    case False
    have "fine cf (andthen (attempting (read_events (qb_reconcileSeq b) 200)) (\<lambda>r. case r of
           Inl e \<Rightarrow> ret ()
         | Inr events \<Rightarrow>
             andthen (modify (see_events events)) (\<lambda>_.
               andthen (reading qb_reconciles) (for_each (reconcile_one cf events)))))"
    proof (rule bc.valid_attempt_then [OF valid_read_events])
      fix r
      show "valid (bridge_contract cf) (\<lambda>s. True \<and> (\<forall>es. r = Inr es \<longrightarrow> es = page_of (qb_log s) (qb_reconcileSeq b) 200))
        (case r of Inl e \<Rightarrow> ret ()
         | Inr events \<Rightarrow> andthen (modify (see_events events)) (\<lambda>_.
               andthen (reading qb_reconciles) (for_each (reconcile_one cf events)))) (\<lambda>_ _. True)"
        by (cases r) (auto intro!: fine_pre [OF fine_ret] bc.valid_pre [OF seen] dest: page_of_subset [THEN subsetD])
    qed simp
    then show ?thesis using False by simp
  qed (simp add: fine_ret)
qed

end
