(* ===== verification/BridgeClaims.thy ===== *)
theory BridgeClaims
  imports BridgeRuns
begin

text \<open>
  What the bridge promises over every run: outcomes are written down before the cursor passes them, notes go home, every
  tick ends.
\<close>

section \<open>Consuming the log\<close>

text \<open>The events still to consume are the next ones after the cursor.\<close>

definition next_events :: "nat \<Rightarrow> queue_event list \<Rightarrow> bridge \<Rightarrow> bool" where
  "next_events c es b \<longleftrightarrow>
     covered c b \<and> set es \<subseteq> set (qb_log b) \<and> (\<forall>y \<in> set es. c < qe_seq y) \<and> sorted_wrt (<) (map qe_seq es) \<and>
     (\<forall>x \<in> set (qb_log b). c < qe_seq x \<longrightarrow> x \<in> set es \<or> (\<forall>y \<in> set es. qe_seq y < qe_seq x))"

lemma lasting_next: "lasting (bridge_contract cf) (next_events c es)"
  unfolding lasting_def
proof (intro allI impI)
  fix s t
  assume n: "next_events c es s" and g: "ct_grows (bridge_contract cf) s t" and i: "ct_inv (bridge_contract cf) t"
  obtain new where new: "qb_log t = qb_log s @ new" using g by (auto simp: bridge_grows_def)
  have ok: "events_ok (qb_log s @ new)" using i by (simp add: bridge_ok_def new)
  have "covered c t" using n g i by (auto simp: next_events_def bridge_ok_def intro: covered_lasts)
  then show "next_events c es t"
    using n log_new_later [OF ok] by (fastforce simp: next_events_def new)
qed

lemma advance:
  assumes n: "next_events c (e # es) b" and j: "owed b e \<Longrightarrow> journalled b e"
  shows "next_events (qe_seq e) es b"
proof -
  have "qe_seq x \<le> c \<or> x = e" if "x \<in> set (qb_log b)" "qe_seq x \<le> qe_seq e" for x
    using n that by (fastforce simp: next_events_def)
  moreover have "c < qe_seq e" using n by (simp add: next_events_def)
  ultimately show ?thesis using n j by (auto simp: next_events_def covered_def)
qed

lemma page_next:
  assumes "events_ok (qb_log b)" "covered c b"
  shows "next_events c (page_of (qb_log b) c limit) b"
proof -
  let ?f = "filter (\<lambda>e. c < qe_seq e) (qb_log b)"
  have s: "sorted_wrt (<) (map qe_seq ?f)"
    using assms(1) by (simp add: events_ok_def sorted_wrt_map sorted_wrt_filter)
  then have split: "sorted_wrt (<) (map qe_seq (take limit ?f @ drop limit ?f))" by simp
  have "x \<in> set (take limit ?f) \<or> (\<forall>y \<in> set (take limit ?f). qe_seq y < qe_seq x)" if "x \<in> set ?f" for x
  proof -
    have "x \<in> set (take limit ?f) \<or> x \<in> set (drop limit ?f)" using that by (metis Un_iff append_take_drop_id set_append)
    then show ?thesis using split by (auto simp only: map_append sorted_wrt_append set_map)
  qed
  moreover have "sorted_wrt (<) (map qe_seq (take limit ?f))" using split by (simp only: map_append sorted_wrt_append)
  ultimately show ?thesis
    using assms(2) page_of_subset [of "qb_log b" c limit] by (auto simp: next_events_def page_of_def dest: in_set_takeD)
qed

lemma fine_result_map: "fine cf result_map"
  unfolding result_map_def by (auto intro!: flow_intros split: sum.split)

lemma not_reported: "event_text e rs = None \<Longrightarrow> \<not> reported e"
  by (auto simp: event_text_def reported_def REPORTED_STATUSES_def Let_def split: if_splits)

lemma event_note_ok:
  assumes "is_task m b" "tk_task m = qe_task e" "e \<in> set (qb_log b)" "events_ok (qb_log b)" "event_text e rs = Some said"
  shows "note_home b (event_note m e said b') \<and> note_says b (event_note m e said b')"
proof -
  have "s = qe_seq e" if "event_key (qe_seq e) = event_key s" for s using that by (simp add: event_key_def)
  then show ?thesis
    using assms by (auto simp: note_home_def note_says_def event_note_def make_note_def is_task_def same_task_def)
qed

lemma valid_leave:
  assumes "\<And>b. P b \<Longrightarrow> covered c b"
  shows "valid (bridge_contract cf) P (leave_at cf c r) (\<lambda>_ _. True)"
  unfolding leave_at_def
  by (rule bc.valid_modify_then [OF _ fine_result]) (use keep_save_cursor assms in auto)

lemma valid_next_page:
  assumes "\<And>b. P b \<Longrightarrow> covered (fst l) b"
  shows "valid (bridge_contract cf) P (next_page l) (\<lambda>_ _. True)"
  using assms by (auto simp: valid_def next_page_def runs_def grows_refl intro: sound.sound_loop)

abbreviation on_from :: "bridge_config \<Rightarrow> queue_event \<Rightarrow> queue_event list \<Rightarrow> ((string \<times> string) list option \<Rightarrow> unit act) \<Rightarrow> bool" where
  "on_from cf e es on \<equiv> (\<forall>rs. valid (bridge_contract cf) (next_events (qe_seq e) es) (on rs) (\<lambda>_ _. True))"

lemma valid_on:
  assumes "on_from cf e es on" "\<And>b. P b \<Longrightarrow> next_events c (e # es) b \<and> (owed b e \<longrightarrow> journalled b e)"
  shows "valid (bridge_contract cf) P (on rs) (\<lambda>_ _. True)"
  by (rule bc.valid_pre [OF assms(1) [rule_format]]) (use assms(2) in \<open>blast intro: advance\<close>)

text \<open>What follows an event that has its note: its delivery, and the next events or the end.\<close>

lemma valid_deliver_event:
  assumes on: "on_from cf e es on"
  shows "valid (bridge_contract cf) (\<lambda>b. next_events c (e # es) b \<and> journalled b e)
    (andthen (attempting (deliver_note cf (event_key (qe_seq e)))) (\<lambda>r. case r of
         Inl err \<Rightarrow> leave_at cf c (Inl err)
       | Inr delivered \<Rightarrow> (if delivered then on rs else leave_at cf c (Inr ()))))
    (\<lambda>_ _. True)"
proof -
  let ?P = "\<lambda>b. next_events c (e # es) b \<and> journalled b e"
  have last: "lasting (bridge_contract cf) ?P"
    using lasting_next [of cf c "e # es"] by (auto simp: lasting_def intro: journalled_lasts)
  have deliver: "valid (bridge_contract cf) ?P (deliver_note cf (event_key (qe_seq e))) (\<lambda>_. ?P)"
    by (rule bc.valid_post [OF bc.valid_pre [OF bc.valid_frame [OF fine_deliver_note last]]]) auto
  have leave: "valid (bridge_contract cf) ?P (leave_at cf c r) (\<lambda>_ _. True)" for r
    by (rule valid_leave) (simp add: next_events_def)
  have "valid (bridge_contract cf) ?P (on rs) (\<lambda>_ _. True)" by (rule valid_on [OF on]) auto
  then show ?thesis
    by (intro bc.valid_attempt_then [OF deliver]) (auto simp: leave split: sum.split)
qed

lemma valid_report:
  assumes on: "on_from cf e es on" and m: "tk_task m = qe_task e"
  shows "valid (bridge_contract cf) (\<lambda>b. next_events c (e # es) b \<and> is_task m b) (report_event cf c e m on rs) (\<lambda>_ _. True)"
proof (cases "event_text e rs")
  case None
  have "valid (bridge_contract cf) (\<lambda>b. next_events c (e # es) b \<and> is_task m b) (on rs) (\<lambda>_ _. True)"
    by (rule valid_on [OF on]) (use not_reported [OF None] in \<open>auto simp: owed_def\<close>)
  then show ?thesis by (simp add: report_event_def None)
next
  case (Some said)
  let ?P = "\<lambda>b. next_events c (e # es) b \<and> is_task m b"
  have last: "lasting (bridge_contract cf) ?P" by (rule bc.lasting_conj [OF lasting_next lasting_is_task])
  have key: "nt_key (event_note m e said b) = event_key (qe_seq e)" for b by (simp add: event_note_def make_note_def)
  have home: "note_home b (event_note m e said b') \<and> note_says b (event_note m e said b')" if "?P b" "bridge_ok cf b" for b b'
    by (rule event_note_ok [OF _ m _ _ Some]) (use that in \<open>auto simp: next_events_def bridge_ok_def\<close>)
  have "valid (bridge_contract cf) (\<lambda>b. next_events c (e # es) b \<and> journalled b e) (on rs) (\<lambda>_ _. True)"
    by (rule valid_on [OF on]) auto
  note next_step = bc.valid_if [OF this valid_deliver_event [OF on]]
  show ?thesis
    unfolding report_event_def Some option.case
    by (rule read_fixed, rule bc.valid_andthen [OF valid_enqueue [OF home last]], assumption+)
      (rule bc.valid_pre [OF next_step], auto simp: key journalled_def)
qed

lemma fine_fetch_results: "fine cf (fetch_results e rs)"
  unfolding fetch_results_def by (auto intro!: flow_intros fine_result_map)

lemma valid_consume_each:
  "valid (bridge_contract cf) (next_events c es) (consume_each cf full es c rs) (\<lambda>_ _. True)"
proof (induction es arbitrary: c rs)
  case Nil
  show ?case
    by (cases full) (auto simp: next_events_def intro!: valid_leave valid_next_page)
next
  case (Cons e es)
  have on: "on_from cf e es (consume_each cf full es (qe_seq e))" using Cons.IH by blast
  show ?case
    unfolding consume_each.simps
  proof (rule bc.valid_read_then)
    fix mapping
    let ?P = "\<lambda>b. next_events c (e # es) b \<and> task_of (qe_task e) b = mapping"
    have skip: "valid (bridge_contract cf) ?P (consume_each cf full es (qe_seq e) rs) (\<lambda>_ _. True)"
      if "\<And>m. mapping = Some m \<Longrightarrow> tk_channel m \<noteq> ''whatsapp''"
      by (rule valid_on [OF on]) (use that in \<open>auto simp: owed_def\<close>)
    have report: "valid (bridge_contract cf) ?P
        (andthen (fetch_results e rs) (report_event cf c e m (consume_each cf full es (qe_seq e)))) (\<lambda>_ _. True)"
      if m: "mapping = Some m" for m
    proof (rule bc.valid_andthen)
      let ?Q = "\<lambda>b. next_events c (e # es) b \<and> is_task m b \<and> tk_task m = qe_task e"
      have "lasting (bridge_contract cf) ?Q" by (intro bc.lasting_conj lasting_next lasting_is_task bc.lasting_pure)
      from bc.valid_frame [OF fine_fetch_results this]
      show "valid (bridge_contract cf) ?P (fetch_results e rs) (\<lambda>_. ?Q)"
        by (rule bc.valid_post [OF bc.valid_pre]) (auto simp: m dest: task_ofD intro: task_of_is_task)
      show "valid (bridge_contract cf) ?Q (report_event cf c e m (consume_each cf full es (qe_seq e)) rs') (\<lambda>_ _. True)" for rs'
        using valid_report [OF on, of m c rs'] by (cases "tk_task m = qe_task e") (auto simp: valid_def)
    qed simp
    show "valid (bridge_contract cf) ?P (case mapping of
         None \<Rightarrow> consume_each cf full es (qe_seq e) rs
       | Some m \<Rightarrow>
           (if tk_channel m \<noteq> ''whatsapp'' then consume_each cf full es (qe_seq e) rs
            else andthen (fetch_results e rs) (report_event cf c e m (consume_each cf full es (qe_seq e))))) (\<lambda>_ _. True)"
      using skip report by (auto split: option.split)
  qed
qed

lemma valid_consume_page:
  "valid (bridge_contract cf) (covered (fst l)) (consume_page cf l) (\<lambda>_ _. True)"
proof -
  obtain c rs where l: "l = (c, rs)" by (cases l)
  have last: "lasting (bridge_contract cf) (covered c)"
    by (auto simp: lasting_def bridge_ok_def intro: covered_lasts)
  show ?thesis
    unfolding consume_page_def l prod.case fst_conv
  proof (rule bc.valid_attempt_then [OF valid_read_events [OF last]])
    fix r :: "string + queue_event list"
    let ?R = "\<lambda>b. covered c b \<and> (\<forall>es. r = Inr es \<longrightarrow> es = page_of (qb_log b) c EVENT_POLL_LIMIT)"
    have leave: "valid (bridge_contract cf) ?R (leave_at cf c x) (\<lambda>_ _. True)" for x by (rule valid_leave) simp
    have page: "valid (bridge_contract cf) ?R (consume_each cf full es c rs) (\<lambda>_ _. True)" if "r = Inr es" for es full
      by (rule bc.valid_with_inv [OF valid_consume_each]) (use that in \<open>auto simp: bridge_ok_def intro: page_next\<close>)
    show "valid (bridge_contract cf) ?R (case r of
           Inl e \<Rightarrow> leave_at cf c (Inl e)
         | Inr events \<Rightarrow>
             (if events = [] then leave_at cf c (Inr ())
              else consume_each cf (EVENT_POLL_LIMIT \<le> length events) events c rs)) (\<lambda>_ _. True)"
      using leave page by (auto split: sum.split)
  qed
qed

section \<open>Every run keeps to the contract\<close>

lemma runs_finished: "fine cf m \<Longrightarrow> bridge_ok cf b \<Longrightarrow> runs (bridge_contract cf) b (m (\<lambda>_. finished))"
  by (erule bc.validD [where k = "\<lambda>_. finished"]) (auto intro: bc.runs_done)

lemma runs_rest: "bridge_ok cf b \<Longrightarrow> runs (bridge_contract cf) b (rest_of_tick cf r)"
proof (cases r)
  case (Inr u)
  assume "bridge_ok cf b"
  moreover have "fine cf (andthen (reconcile_amendments cf) (\<lambda>_. watch_stalled cf))" by (intro flow_intros)
  ultimately show ?thesis by (simp add: rest_of_tick_def Inr runs_finished)
qed (simp add: rest_of_tick_def bc.runs_done)

lemma runs_page: "bridge_ok cf b \<Longrightarrow> covered (fst l) b \<Longrightarrow> runs (bridge_contract cf) b (page_head cf l)"
  unfolding page_head_def by (rule bc.validD [OF valid_consume_page, where k = "rest_of_tick cf"]) (auto intro: runs_rest)

lemma runs_tick: "bridge_ok cf b \<Longrightarrow> runs (bridge_contract cf) b (bridge_tick cf)"
proof -
  assume ok: "bridge_ok cf b"
  have "fine cf (andthen (reading (event_cursor cf)) (\<lambda>c. consume_page cf (c, None)))"
  proof (rule bc.valid_read_then)
    fix c
    show "valid (bridge_contract cf) (\<lambda>s. True \<and> event_cursor cf s = c) (consume_page cf (c, None)) (\<lambda>_ _. True)"
      by (rule bc.valid_with_inv [OF valid_consume_page]) (auto dest: ok_cursor)
  qed
  then have "fine cf (andthen sweep_creating (\<lambda>_. andthen (deliver_pending cf) (\<lambda>_.
       andthen (reading (event_cursor cf)) (\<lambda>c. consume_page cf (c, None)))))"
    by (rule fine_andthen [OF fine_sweep fine_andthen [OF fine_deliver_pending]])
  then show ?thesis
    unfolding bridge_tick_def by (rule bc.validD [where k = "rest_of_tick cf"]) (use ok in \<open>auto intro: runs_rest\<close>)
qed

lemma runs_deferred: "bridge_ok cf b \<Longrightarrow> runs (bridge_contract cf) b (deferred_work cf row reply)"
  unfolding deferred_work_def Let_def
  by (rule runs_finished) (auto intro!: flow_intros split: option.split)

lemma keep_plan:
  assumes ok: "bridge_ok cf b"
    and fresh: "task_of (chat_id (ix_seq row)) b \<noteq> None \<or> list_all (\<lambda>e. qe_task e \<noteq> chat_id (ix_seq row)) (qb_log b)"
  shows "bridge_ok cf (plan_put cf row goal b) \<and> bridge_grows b (plan_put cf row goal b)"
proof (cases "task_of (chat_id (ix_seq row)) b")
  case (Some m)
  then show ?thesis using ok by (simp add: plan_put_def Let_def grows_refl)
next
  case None
  let ?t = "chat_id (ix_seq row)" and ?b = "plan_put cf row goal b"
  obtain m where tasks: "qb_tasks ?b = qb_tasks b @ [m]" and m: "tk_task m = ?t"
    and rest: "qb_notes ?b = qb_notes b" "qb_log ?b = qb_log b" "qb_reconciles ?b = qb_reconciles b" "qb_cursors ?b = qb_cursors b"
    by (simp add: plan_put_def Let_def None)
  have t: "task_of k ?b = (if k = ?t then Some m else task_of k b)" for k
    using None m by (auto simp: task_of_def tasks row_of_append split: option.splits)
  have n: "note_of k ?b = note_of k b" for k by (simp add: note_of_def rest)
  have strange: "qe_task e \<noteq> ?t" if "e \<in> set (qb_log b)" for e
    using fresh None that by (auto simp: list_all_iff)
  have owed: "owed ?b e = owed b e" if "e \<in> set (qb_log b)" for e
    using strange [OF that] by (simp add: owed_def t)
  have home: "note_home b k \<Longrightarrow> note_home ?b k" and says: "note_says ?b k = note_says b k" for k
    using None by (auto simp: note_home_def note_says_def t rest)
  have "unique_keys tk_task (qb_tasks ?b)"
    using ok None m by (auto simp: bridge_ok_def unique_keys_def tasks task_of_def row_of_None_iff image_iff)
  moreover have "covered (event_cursor cf ?b) ?b"
    using ok_cursor [OF ok] by (simp add: covered_def journalled_def n rest owed event_cursor_def)
  ultimately have "bridge_ok cf ?b"
    using ok home by (auto simp: bridge_ok_def rest says stop_seen_def)
  moreover have "bridge_grows b ?b"
    using None by (auto simp: bridge_grows_def rest owed is_note_def n is_task_def t)
  ultimately show ?thesis by simp
qed

lemma keep_log:
  assumes ok: "bridge_ok cf b" and e: "0 < qe_seq e" "list_all (\<lambda>x. qe_seq x < qe_seq e) (qb_log b)"
  defines "c \<equiv> b\<lparr>qb_log := qb_log b @ [e]\<rparr>"
  shows "bridge_ok cf c \<and> bridge_grows b c"
proof -
  have views: "note_of k c = note_of k b" "task_of k c = task_of k b" for k by (simp_all add: note_of_def task_of_def c_def)
  have log: "qb_log c = qb_log b @ [e]" "qb_notes c = qb_notes b" "qb_tasks c = qb_tasks b" "qb_reconciles c = qb_reconciles b"
    "event_cursor cf c = event_cursor cf b" by (simp_all add: c_def event_cursor_def)
  have g: "bridge_grows b c" by (simp add: bridge_grows_def log owed_def is_note_def is_task_def views)
  have evs: "events_ok (qb_log c)"
    using ok e by (auto simp: bridge_ok_def events_ok_def log sorted_wrt_append list_all_iff)
  have "covered (event_cursor cf c) c"
    using covered_lasts [OF g evs ok_cursor [OF ok]] by (simp add: log)
  moreover have "note_home c n = note_home b n" "note_says b n \<Longrightarrow> note_says c n" for n
    by (auto simp: note_home_def note_says_def views log)
  moreover have "stop_seen k b \<Longrightarrow> stop_seen k c" for k by (auto simp: stop_seen_def log)
  ultimately show ?thesis using ok evs g by (simp add: bridge_ok_def log)
qed

lemma keep_outside:
  "bridge_ok cf b \<Longrightarrow> bridge_ok cf (forget b) \<and> bridge_grows b (forget b)"
  "bridge_ok cf b \<Longrightarrow> bridge_ok cf (b\<lparr>qb_stopped := v\<rparr>) \<and> bridge_grows b (b\<lparr>qb_stopped := v\<rparr>)"
  "bridge_ok cf b \<Longrightarrow> bridge_ok cf (b\<lparr>qb_now := now\<rparr>) \<and> bridge_grows b (b\<lparr>qb_now := now\<rparr>)"
  "bridge_ok cf b \<Longrightarrow> bridge_ok cf (b\<lparr>qb_inbox := ib\<rparr>) \<and> bridge_grows b (b\<lparr>qb_inbox := ib\<rparr>)"
  by (rule same_tables_ok; auto simp: same_tables_def forget_def event_cursor_def dest: ok_cursor ok_stopped)+

definition world_ok :: "bridge_config \<Rightarrow> bridge_world \<Rightarrow> bool" where
  "world_ok cf w \<longleftrightarrow> bridge_ok cf (bw_bridge w) \<and> sound (bridge_contract cf) (bw_bridge w) (bw_tick w) \<and>
     (\<forall>p \<in> set (bw_flows w). sound (bridge_contract cf) (bw_bridge w) p)"

lemma later: "bridge_grows b c \<Longrightarrow> bridge_ok cf c \<Longrightarrow> sound (bridge_contract cf) b p \<Longrightarrow> sound (bridge_contract cf) c p"
  by (rule bc.sound_later) simp_all

lemma with_bridge_ok:
  "world_ok cf w \<Longrightarrow> bridge_ok cf (f (bw_bridge w)) \<and> bridge_grows (bw_bridge w) (f (bw_bridge w)) \<Longrightarrow> world_ok cf (with_bridge f w)"
  by (auto simp: world_ok_def with_bridge_def intro: later)

lemma run_tick_ok:
  "world_ok cf w \<Longrightarrow> runs (bridge_contract cf) (bw_bridge w) fl \<Longrightarrow> world_ok cf (run_tick fl w)"
  by (auto simp: world_ok_def run_tick_def runs_def intro: later split: prod.split)

lemma run_new_ok:
  "world_ok cf w \<Longrightarrow> runs (bridge_contract cf) (bw_bridge w) fl \<Longrightarrow> world_ok cf (run_new fl w)"
  by (auto simp: world_ok_def run_new_def runs_def intro: later split: prod.split)

lemma runs_answered:
  assumes "sound (bridge_contract cf) b p" "bridge_ok cf b" "honest_for (qb_log b) p a"
  shows "runs (bridge_contract cf) b (answered a p)"
proof (cases p)
  case (Await r f)
  then show ?thesis using bc.sound_answer [of cf b r f a] assms by (simp add: runs_def)
qed (use assms in \<open>simp_all add: runs_def grows_refl\<close>)

lemma run_flow_ok:
  assumes "world_ok cf w" "i < length (bw_flows w) \<longrightarrow> honest_for (qb_log (bw_bridge w)) (bw_flows w ! i) a"
  shows "world_ok cf (run_flow i a w)"
proof (cases "i < length (bw_flows w)")
  case True
  then have "runs (bridge_contract cf) (bw_bridge w) (answered a (bw_flows w ! i))"
    using assms by (intro runs_answered) (auto simp: world_ok_def)
  then show ?thesis
    using assms(1) True
    by (auto simp: world_ok_def run_flow_def runs_def intro: later split: prod.split dest!: set_update_subset_insert [THEN subsetD])
qed (use assms(1) in \<open>simp add: run_flow_def\<close>)

lemma world_bridge: "world_ok cf w \<Longrightarrow> bridge_ok cf (bw_bridge w)"
  by (simp add: world_ok_def)

lemma world_tick: "world_ok cf w \<Longrightarrow> sound (bridge_contract cf) (bw_bridge w) (bw_tick w)"
  by (simp add: world_ok_def)

lemma start_ok: "world_ok cf w \<Longrightarrow> world_ok cf (run_tick (bridge_tick cf) (run_new (rearm_reconciles (\<lambda>_. finished)) (w\<lparr>bw_started := v\<rparr>)))"
proof -
  assume w: "world_ok cf w"
  then have "world_ok cf (w\<lparr>bw_started := v\<rparr>)" by (simp add: world_ok_def)
  then have "world_ok cf (run_new (rearm_reconciles (\<lambda>_. finished)) (w\<lparr>bw_started := v\<rparr>))"
    by (rule run_new_ok) (rule runs_finished [OF fine_rearm world_bridge], fact)
  then show ?thesis by (rule run_tick_ok) (rule runs_tick [OF world_bridge], fact)
qed

lemma crash_ok: "world_ok cf w \<Longrightarrow> world_ok cf ((with_bridge forget w)\<lparr>bw_tick := Done, bw_flows := [], bw_started := False\<rparr>)"
  using keep_outside(1) [of cf "bw_bridge w"] by (auto simp: world_ok_def with_bridge_def intro: sound_done)

lemma bridge_step_ok:
  assumes w: "world_ok cf w" and h: "honest_action w a"
  shows "world_ok cf (bridge_step cf w a)"
proof -
  note ok = world_bridge [OF w]
  show ?thesis
  proof (cases a)
    case (PlanReply row reply)
    have "bridge_ok cf (plan_queue_reply cf row reply (bw_bridge w)) \<and>
        bridge_grows (bw_bridge w) (plan_queue_reply cf row reply (bw_bridge w))"
      using h keep_plan [OF ok, of row] ok grows_refl
      by (auto simp: PlanReply plan_queue_reply_def split: option.split)
    then show ?thesis by (simp add: PlanReply with_bridge_ok [OF w])
  next
    case TurnPage
    have "world_ok cf (run_tick (page_head cf l) w)" if "bw_tick w = Loop l" for l
      by (rule run_tick_ok [OF w runs_page [OF ok]]) (use world_tick [OF w] that in \<open>auto elim: sound_loopE\<close>)
    then show ?thesis using w by (simp add: TurnPage split: running.split)
  next
    case (QueueLogs e)
    then show ?thesis using h keep_log [OF ok, of e] by (simp add: with_bridge_ok [OF w])
  qed (use w h in \<open>auto simp: with_bridge_ok [OF w] keep_outside [OF ok] intro: start_ok crash_ok run_new_ok [OF w runs_deferred [OF ok]] run_tick_ok [OF w runs_tick [OF ok]]
      run_tick_ok [OF w runs_answered [OF world_tick [OF w] ok]] run_flow_ok\<close>)
qed

lemma bridge_run_ok: "world_ok cf w \<Longrightarrow> honest_actions cf w as \<Longrightarrow> world_ok cf (bridge_run cf w as)"
  by (induction as arbitrary: w) (auto intro: bridge_step_ok)

lemma bridge_empty_ok: "world_ok cf (empty_world ib now)"
  by (auto simp: world_ok_def empty_world_def empty_bridge_def bridge_ok_def events_ok_def covered_def event_cursor_def
    intro: sound_done)

section \<open>Properties\<close>

lemma reachable_ok: "honest_actions cf (empty_world ib now) as \<Longrightarrow> world_ok cf (bridge_run cf (empty_world ib now) as)"
  by (rule bridge_run_ok [OF bridge_empty_ok])

lemma note_unique:
  "bridge_ok cf b \<Longrightarrow> note_of k b = Some n \<Longrightarrow> filter (\<lambda>n. nt_key n = k) (qb_notes b) = [n]"
  unfolding note_of_def bridge_ok_def by (auto intro: filter_row_of)

text \<open>
  C27: Behind the cursor no outcome is lost: each reported event of a task of this bridge has exactly one note, which says this
  event, for the thread and the account that asked for the task, in every run with crashes, ticks and deferred work.
\<close>

theorem outcomes_are_journalled:
  assumes "honest_actions cf (empty_world ib now) as"
    and "bw_bridge (bridge_run cf (empty_world ib now) as) = b"
    and "e \<in> set (qb_log b)" "qe_seq e \<le> event_cursor cf b" "reported e"
    and "row_of tk_task (qe_task e) (qb_tasks b) = Some m" "tk_channel m = ''whatsapp''"
  shows "\<exists>n rs. filter (\<lambda>n. nt_key n = event_key (qe_seq e)) (qb_notes b) = [n] \<and> nt_task n = Some (qe_task e) \<and>
    nt_thread n = tk_thread m \<and> nt_account n = tk_account m \<and> event_text e rs = Some (nt_text n)"
proof -
  have ok: "bridge_ok cf b" using reachable_ok [OF assms(1)] assms(2) by (simp add: world_ok_def)
  have m: "task_of (qe_task e) b = Some m" using assms(6) by (simp add: task_of_def)
  have "journalled b e" using ok_cursor [OF ok] assms(3-5,7) m by (auto simp: covered_def owed_def)
  then obtain n where n: "note_of (event_key (qe_seq e)) b = Some n" by (auto simp: journalled_def)
  with ok have says: "note_says b n" "note_home b n" by (auto simp: bridge_ok_def dest: note_ofD)
  from says(1) note_ofD [OF n] obtain e' rs where e': "e' \<in> set (qb_log b)" "qe_seq e' = qe_seq e" "nt_task n = Some (qe_task e')"
    "event_text e' rs = Some (nt_text n)" by (auto simp: note_says_def)
  have "e' = e"
    using ok e'(1,2) assms(3) by (auto simp: bridge_ok_def events_ok_def strict_sorted_iff distinct_map inj_on_def)
  with e' says(2) m note_unique [OF ok n] show ?thesis by (auto simp: note_home_def)
qed

text \<open>
  C28: Whatever the bridge is sending is a note of its journal, word for word, to the thread of the note and with the sender of
  the account of the note; a note about a task is for the thread and the account that asked for it.
\<close>

theorem notes_go_home:
  assumes "honest_actions cf (empty_world ib now) as"
    and "bridge_run cf (empty_world ib now) as = w" "Await (SendNote p) f \<in> set (bw_tick w # bw_flows w)"
  shows "\<exists>n \<in> set (qb_notes (bw_bridge w)). np_thread p = nt_thread n \<and> np_text p = nt_text n \<and>
    qc_senderOf cf (nt_account n) = Some (np_sender p) \<and>
    (case nt_task n of None \<Rightarrow> True
     | Some t \<Rightarrow> (case row_of tk_task t (qb_tasks (bw_bridge w)) of None \<Rightarrow> False
         | Some m \<Rightarrow> tk_thread m = nt_thread n \<and> tk_account m = nt_account n))"
proof -
  have w: "world_ok cf w" using reachable_ok [OF assms(1)] assms(2) by simp
  then have "sound (bridge_contract cf) (bw_bridge w) (Await (SendNote p) f)" using assms(3) by (auto simp: world_ok_def)
  then have "bridge_asks cf (bw_bridge w) (SendNote p)" by (auto elim: sound_awaitE)
  then obtain n s where n: "is_note n (bw_bridge w)" "qc_senderOf cf (nt_account n) = Some s" "note_request s n = SendNote p" by auto
  then obtain n' where n': "note_of (nt_key n) (bw_bridge w) = Some n'" "same_note n n'" by (auto simp: is_note_def)
  then have "n' \<in> set (qb_notes (bw_bridge w))" by (auto dest: note_ofD)
  moreover from this have "note_home (bw_bridge w) n'" using w by (auto simp: world_ok_def bridge_ok_def)
  ultimately show ?thesis
    using n n'(2)
    by (intro bexI [of _ n']) (auto simp: note_request_def same_note_def note_home_def task_of_def split: option.splits)
qed

text \<open>A retry attests a stop that the queue has logged for that task.\<close>

theorem retry_follows_a_stop:
  assumes "honest_actions cf (empty_world ib now) as"
    and "bridge_run cf (empty_world ib now) as = w" "Await (RetryTask t) f \<in> set (bw_tick w # bw_flows w)"
  shows "\<exists>e \<in> set (qb_log (bw_bridge w)). stop_event t e"
proof -
  have w: "world_ok cf w" using reachable_ok [OF assms(1)] assms(2) by simp
  then have "sound (bridge_contract cf) (bw_bridge w) (Await (RetryTask t) f)" using assms(3) by (auto simp: world_ok_def)
  then show ?thesis by (auto simp: stop_seen_def elim: sound_awaitE)
qed

end
