(* ===== verification/BridgeLive.thy ===== *)
theory BridgeLive
  imports BridgeClaims
begin

text \<open>
  What a flow of the bridge does on its own: a tick ends, a sweep puts every task once, a follow-up amends a task of its
  project.
\<close>

section \<open>Contracts that ask nothing of the state\<close>

locale routine = flow_contract C for C :: "(bridge, request, answer, loop_head) contract" +
  assumes any_inv: "ct_inv C s" and any_grows: "ct_grows C s t"
    and harmless: "(\<And>i v n. r \<noteq> AmendTask i v n) \<Longrightarrow> ct_asks C s r"
begin

lemma calm_ret: "valid C (\<lambda>_. True) (ret v) (\<lambda>_ _. True)"
  by (rule valid_ret [where Q = "\<lambda>_ _. True"])

lemma calm_result: "valid C (\<lambda>_. True) (of_result r) (\<lambda>_ _. True)"
  by (rule valid_of_result [where Q = "\<lambda>_ _. True"])

lemma calm_reading: "valid C (\<lambda>_. True) (reading f) (\<lambda>_ _. True)"
  by (rule valid_reading [where Q = "\<lambda>_ _. True"])

lemma calm_modify: "valid C (\<lambda>_. True) (modify f) (\<lambda>_ _. True)"
  by (rule valid_modify) (simp add: any_inv any_grows)

lemma calm_andthen:
  "valid C (\<lambda>_. True) m (\<lambda>_ _. True) \<Longrightarrow> (\<And>v. valid C (\<lambda>_. True) (f v) (\<lambda>_ _. True)) \<Longrightarrow>
   valid C (\<lambda>_. True) (andthen m f) (\<lambda>_ _. True)"
  by (rule valid_andthen) auto

lemma calm_attempting: "valid C (\<lambda>_. True) m (\<lambda>_ _. True) \<Longrightarrow> valid C (\<lambda>_. True) (attempting m) (\<lambda>_ _. True)"
  by (rule valid_attempting)

lemma calm_for_each: "(\<And>x. valid C (\<lambda>_. True) (f x) (\<lambda>_ _. True)) \<Longrightarrow> valid C (\<lambda>_. True) (for_each f xs) (\<lambda>_ _. True)"
  by (rule valid_for_each)

lemma calm_await: "(\<And>i v n. r \<noteq> AmendTask i v n) \<Longrightarrow> valid C (\<lambda>_. True) (await r) (\<lambda>_ _. True)"
  by (rule valid_post [OF valid_await]) (auto intro: harmless)

lemmas calm_intros = calm_ret calm_result calm_reading calm_modify calm_andthen calm_attempting calm_for_each calm_await

lemma calm_read_graph: "valid C (\<lambda>_. True) read_graph (\<lambda>_ _. True)"
  unfolding read_graph_def by (intro calm_intros) simp

lemma calm_deliver_note: "valid C (\<lambda>_. True) (deliver_note cf key) (\<lambda>_ _. True)"
proof -
  have find: "valid C (\<lambda>_. True) (find_note sender n) (\<lambda>_ _. True)" for sender n
    unfolding find_note_def by (intro calm_intros) simp
  have send: "valid C (\<lambda>_. True) (send_note sender n) (\<lambda>_ _. True)" for sender n
    unfolding send_note_def by (auto intro!: calm_intros simp: note_request_def split: send_result.split)
  have attempt: "valid C (\<lambda>_. True) (attempt_note cf n) (\<lambda>_ _. True)" for n
    unfolding attempt_note_def by (auto intro!: calm_intros find send)
  show ?thesis
    unfolding deliver_note_def by (auto intro!: calm_intros attempt split: option.split)
qed

lemma calm_enqueue: "valid C (\<lambda>_. True) (enqueue_note n) (\<lambda>_ _. True)"
  unfolding enqueue_note_def by (auto intro!: calm_intros)

lemma calm_enqueue_deliver: "valid C (\<lambda>_. True) (enqueue_and_deliver cf n) (\<lambda>_ _. True)"
  unfolding enqueue_and_deliver_def by (auto intro!: calm_intros calm_enqueue calm_deliver_note)

lemma calm_chat_note: "valid C (\<lambda>_. True) (chat_note cf row message key body) (\<lambda>_ _. True)"
  unfolding chat_note_def by (rule calm_enqueue_deliver)

lemma calm_operator_note: "valid C (\<lambda>_. True) (operator_note cf t body) (\<lambda>_ _. True)"
  unfolding operator_note_def by (auto intro!: calm_intros calm_enqueue_deliver split: prod.split option.split)

lemma calm_sweep: "valid C (\<lambda>_. True) sweep_creating (\<lambda>_ _. True)"
proof -
  have "valid C (\<lambda>_. True) (put_task m) (\<lambda>_ _. True)" for m unfolding put_task_def by (intro calm_intros) simp
  then show ?thesis unfolding sweep_creating_def by (auto intro!: calm_intros)
qed

lemma calm_deliver_pending: "valid C (\<lambda>_. True) (deliver_pending cf) (\<lambda>_ _. True)"
  unfolding deliver_pending_def by (intro calm_intros calm_deliver_note)

lemma calm_watch: "valid C (\<lambda>_. True) (watch_stalled cf) (\<lambda>_ _. True)"
proof -
  have "valid C (\<lambda>_. True) (lane_state cf) (\<lambda>_ _. True)"
    unfolding lane_state_def Let_def by (auto intro!: calm_intros)
  then have "valid C (\<lambda>_. True) (watch_one cf nodes edges alive m) (\<lambda>_ _. True)" for nodes edges alive m
    unfolding watch_one_def by (auto intro!: calm_intros calm_operator_note split: option.split prod.split)
  then show ?thesis
    unfolding watch_stalled_def by (auto intro!: calm_intros calm_read_graph split: sum.split prod.split)
qed

lemma calm_reconcile: "valid C (\<lambda>_. True) (reconcile_amendments cf) (\<lambda>_ _. True)"
proof -
  have "valid C (\<lambda>_. True) (retry_task cf t) (\<lambda>_ _. True)" for t
    unfolding retry_task_def by (auto intro!: calm_intros calm_operator_note split: prod.split)
  then have "valid C (\<lambda>_. True) (end_reconcile cf t settled) (\<lambda>_ _. True)" for t settled
    unfolding end_reconcile_def by (auto intro!: calm_intros calm_operator_note)
  then have "valid C (\<lambda>_. True) (reconcile_one cf events c) (\<lambda>_ _. True)" for events c
    unfolding reconcile_one_def Let_def by (auto intro!: calm_intros)
  moreover have "valid C (\<lambda>_. True) (read_events seq n) (\<lambda>_ _. True)" for seq n
    unfolding read_events_def by (intro calm_intros) simp
  ultimately show ?thesis
    unfolding reconcile_amendments_def by (auto intro!: calm_intros split: sum.split prod.split)
qed

lemma calm_fetch: "valid C (\<lambda>_. True) (fetch_results e rs) (\<lambda>_ _. True)"
  unfolding fetch_results_def result_map_def by (auto intro!: calm_intros calm_read_graph)

lemma calm_leave: "valid C (\<lambda>_. True) (leave_at cf c r) (\<lambda>_ _. True)"
  unfolding leave_at_def by (intro calm_intros)

lemma calm_report:
  "(\<And>rs. valid C (\<lambda>_. True) (on rs) (\<lambda>_ _. True)) \<Longrightarrow> valid C (\<lambda>_. True) (report_event cf c e m on rs) (\<lambda>_ _. True)"
  unfolding report_event_def
  by (auto intro!: calm_intros calm_enqueue calm_deliver_note calm_leave split: option.split sum.split)

lemma calm_runs: "valid C (\<lambda>_. True) m (\<lambda>_ _. True) \<Longrightarrow> (\<And>r t. runs C t (k r)) \<Longrightarrow> runs C s (m k)"
  by (erule validD) (simp_all add: any_inv)

lemma calm_rest: "runs C s (rest_of_tick cf r)"
proof (cases r)
  case (Inl e)
  then show ?thesis by (simp add: rest_of_tick_def runs_done any_inv)
next
  case (Inr u)
  have "runs C s (andthen (reconcile_amendments cf) (\<lambda>_. watch_stalled cf) (\<lambda>_. finished))"
    by (rule calm_runs [where k = "\<lambda>_. finished"]) (auto intro: calm_andthen calm_reconcile calm_watch runs_done any_inv)
  then show ?thesis by (simp add: rest_of_tick_def Inr)
qed

end

section \<open>Every tick ends\<close>

definition page_contract :: "queue_event list \<Rightarrow> (loop_head \<Rightarrow> bool) \<Rightarrow> (bridge, request, answer, loop_head) contract" where
  "page_contract lg h =
     \<lparr>ct_inv = (\<lambda>_. True), ct_grows = (\<lambda>_ _. True), ct_asks = (\<lambda>_ _. True),
      ct_answers = (\<lambda>_. honest_answer lg), ct_head = (\<lambda>_. h)\<rparr>"

lemma page_contract_simps [simp]:
  "ct_inv (page_contract lg h) = (\<lambda>_. True)" "ct_grows (page_contract lg h) = (\<lambda>_ _. True)"
  "ct_asks (page_contract lg h) = (\<lambda>_ _. True)" "ct_answers (page_contract lg h) = (\<lambda>_. honest_answer lg)"
  "ct_head (page_contract lg h) = (\<lambda>_. h)"
  by (simp_all add: page_contract_def)

interpretation pc: routine "page_contract lg h" for lg h
  by unfold_locales auto

lemma calm_consume_each:
  assumes "\<And>e rs. e \<in> set es \<Longrightarrow> h (qe_seq e, rs)" "es = [] \<Longrightarrow> full \<Longrightarrow> h (cursor, rs)"
  shows "valid (page_contract lg h) (\<lambda>_. True) (consume_each cf full es cursor rs) (\<lambda>_ _. True)"
  using assms
proof (induction es arbitrary: cursor rs)
  case Nil
  then have "full \<Longrightarrow> valid (page_contract lg h) (\<lambda>_. True) (next_page (cursor, rs)) (\<lambda>_ _. True)"
    by (auto simp: valid_def next_page_def runs_def intro!: sound_loop)
  then show ?case by (simp add: pc.calm_leave)
next
  case (Cons e es)
  have "valid (page_contract lg h) (\<lambda>_. True) (consume_each cf full es (qe_seq e) rs) (\<lambda>_ _. True)" for rs
    by (rule Cons.IH) (use Cons.prems in auto)
  then show ?case
    by (auto intro!: pc.calm_intros pc.calm_fetch pc.calm_report split: option.split)
qed

lemma calm_page:
  assumes "\<And>e rs. e \<in> set lg \<Longrightarrow> c < qe_seq e \<Longrightarrow> h (qe_seq e, rs)"
  shows "valid (page_contract lg h) (\<lambda>_. True) (consume_page cf (c, rs)) (\<lambda>_ _. True)"
proof -
  have page: "valid (page_contract lg h) (\<lambda>_. True) (read_events c n) (\<lambda>r _. \<forall>es. r = Inr es \<longrightarrow> es = page_of lg c n)" for n
    unfolding read_events_def
    by (rule pc.valid_await_then)
      (auto intro: pc.valid_pre [OF pc.valid_of_result] dest: events_of_honest)
  show ?thesis
    unfolding consume_page_def prod.case
  proof (rule pc.valid_attempt_then [OF page])
    fix r :: "string + queue_event list"
    let ?R = "\<lambda>_ :: bridge. \<forall>es. r = Inr es \<longrightarrow> es = page_of lg c EVENT_POLL_LIMIT"
    have each: "valid (page_contract lg h) ?R (consume_each cf full es c rs) (\<lambda>_ _. True)" if "r = Inr es" "es \<noteq> []" for es full
    proof (cases "es = page_of lg c EVENT_POLL_LIMIT")
      case True
      then have "e \<in> set lg \<and> c < qe_seq e" if "e \<in> set es" for e using that by (auto simp: page_of_def dest!: in_set_takeD)
      then show ?thesis using that(2) assms by (intro pc.valid_pre [OF calm_consume_each]) auto
    qed (use that(1) in \<open>simp add: valid_def\<close>)
    have leave: "valid (page_contract lg h) ?R (leave_at cf c x) (\<lambda>_ _. True)" for x
      by (rule pc.valid_pre [OF pc.calm_leave]) simp
    show "valid (page_contract lg h) ?R (case r of
           Inl e \<Rightarrow> leave_at cf c (Inl e)
         | Inr events \<Rightarrow>
             (if events = [] then leave_at cf c (Inr ())
              else consume_each cf (EVENT_POLL_LIMIT \<le> length events) events c rs)) (\<lambda>_ _. True)"
      using each leave by (auto split: sum.split)
  qed
qed

text \<open>A flow on its own ends, when it ends from every loop head it can come to.\<close>

lemma flow_ends:
  assumes "runs (page_contract lg h) s fl" "\<And>r s. honest_answer lg r (env r s)"
    and "\<And>s l. h l \<Longrightarrow> \<exists>t. drive env head (s, Loop l) = Some t"
  shows "\<exists>t. drive env head (fl s) = Some t"
  using pc.drive_to_head [of lg h env head "fst (fl s)" "snd (fl s)"] assms by (simp add: runs_def)

lemma page_ends:
  assumes "\<And>r s. honest_answer lg r (env r s)"
  shows "\<exists>t. drive env (page_head cf) (s, Loop l) = Some t"
proof (induction "Suc (Max (insert 0 (qe_seq ` set lg))) - fst l" arbitrary: s l rule: less_induct)
  case less
  let ?h = "\<lambda>l' :: loop_head. fst l < fst l' \<and> fst l' \<in> qe_seq ` set lg"
  have "valid (page_contract lg ?h) (\<lambda>_. True) (consume_page cf (fst l, snd l)) (\<lambda>_ _. True)" by (rule calm_page) auto
  then have "runs (page_contract lg ?h) s (page_head cf l)"
    unfolding page_head_def prod.collapse
    by (rule pc.calm_runs [where k = "rest_of_tick cf"]) (rule pc.calm_rest)
  then have "\<exists>t. drive env (page_head cf) (page_head cf l s) = Some t"
  proof (rule flow_ends [OF _ assms])
    fix s' l'
    assume l': "?h l'"
    then have "fst l' \<le> Max (insert 0 (qe_seq ` set lg))" by auto
    with l' have "Suc (Max (insert 0 (qe_seq ` set lg))) - fst l' < Suc (Max (insert 0 (qe_seq ` set lg))) - fst l" by linarith
    then show "\<exists>t. drive env (page_head cf) (s', Loop l') = Some t" by (rule less)
  qed
  then show ?case by simp
qed

text \<open>
  C29: A tick ends, whatever the outside answers to its commands and sends, when the queue reads its log out as it promises.
\<close>

theorem tick_ends:
  assumes "\<And>r s. honest_answer lg r (env r s)"
  shows "\<exists>b'. drive env (page_head cf) (bridge_tick cf b) = Some b'"
proof (rule flow_ends [OF _ assms page_ends [OF assms]])
  have "valid (page_contract lg (\<lambda>_. True)) (\<lambda>_. True) (andthen sweep_creating (\<lambda>_. andthen (deliver_pending cf) (\<lambda>_.
       andthen (reading (event_cursor cf)) (\<lambda>c. consume_page cf (c, None))))) (\<lambda>_ _. True)"
    by (intro pc.calm_andthen pc.calm_sweep pc.calm_deliver_pending pc.calm_reading calm_page) simp
  then show "runs (page_contract lg (\<lambda>_. True)) b (bridge_tick cf)"
    unfolding bridge_tick_def by (rule pc.calm_runs [where k = "rest_of_tick cf"]) (rule pc.calm_rest)
qed

section \<open>Follow-ups\<close>

definition candidate :: "string \<Rightarrow> string list \<Rightarrow> graph_node \<Rightarrow> bool" where
  "candidate project mapped n \<longleftrightarrow> gn_project n = project \<and> gn_id n \<in> set mapped \<and> gn_status n \<in> set OPEN_STATUSES"

lemma set_candidates: "set (open_candidates project mapped graph) = {n \<in> set graph. candidate project mapped n}"
  by (auto simp: open_candidates_def candidate_def)

lemma named_in_graph: "t \<in> set (named_tasks wish graph) \<Longrightarrow> t \<in> set (tokens wish) \<and> (\<exists>n \<in> set graph. gn_id n = t)"
  by (auto simp: named_tasks_def first_occurrences_def list_ex_iff)

text \<open>What the choice promises of the task it takes.\<close>

lemma choose_take:
  assumes "choose_task wish project mapped graph = Take n"
  shows "n \<in> set graph \<and> gn_project n = project \<and>
    (named_tasks wish graph = [gn_id n] \<or>
     (named_tasks wish graph = [] \<and> {x \<in> set graph. candidate project mapped x} = {n}))"
proof (cases "named_tasks wish graph")
  case Nil
  then have "open_candidates project mapped graph = [n]"
    using assms by (auto simp: choose_task_def Let_def split: list.splits)
  then have "{x \<in> set graph. candidate project mapped x} = {n}" using set_candidates [of project mapped graph] by simp
  then show ?thesis using Nil by (auto simp: candidate_def)
next
  case (Cons t ts)
  then have ts: "ts = []" using assms by (cases ts) (simp_all add: choose_task_def Let_def)
  with Cons named_in_graph [of t wish graph] obtain m where "row_of gn_id t graph = Some m"
    by (cases "row_of gn_id t graph") (auto simp: row_of_None_iff)
  then show ?thesis
    using assms Cons ts row_of_SomeD [of gn_id t graph m] by (auto simp: choose_task_def Let_def split: if_splits)
qed

lemma choose_compare:
  assumes "choose_task wish project mapped graph = Compare ns" "n \<in> set ns"
  shows "n \<in> set graph \<and> candidate project mapped n"
proof -
  have "named_tasks wish graph = []"
  proof (rule ccontr)
    assume "named_tasks wish graph \<noteq> []"
    then obtain t ts where c: "named_tasks wish graph = t # ts" by (cases "named_tasks wish graph") auto
    with named_in_graph [of t wish graph] have "row_of gn_id t graph \<noteq> None" by (auto simp: row_of_None_iff)
    with c assms(1) show False by (auto simp: choose_task_def Let_def split: if_splits)
  qed
  then have "ns = open_candidates project mapped graph"
    using assms(1) by (auto simp: choose_task_def Let_def split: list.splits)
  then show ?thesis using assms(2) set_candidates [of project mapped graph] by auto
qed

lemma in_map_filter: "y \<in> set (List.map_filter f xs) \<longleftrightarrow> (\<exists>x \<in> set xs. f x = Some y)"
  by (induction xs) (auto simp: List.map_filter_simps split: option.split)

lemma clear_winner_hit:
  assumes "clear_winner (rank_candidates hits ns) = Some n"
  shows "n \<in> set ns \<and> hits \<noteq> None"
proof -
  obtain s rest where r: "rank_candidates hits ns = (n, s) # rest" "45 / 100 \<le> s"
    using assms by (auto simp: clear_winner_def split: list.splits if_splits prod.splits)
  then have "(n, s) \<in> set (rank_candidates hits ns)" by simp
  then have "n \<in> set ns"
    by (cases hits) (auto simp: rank_candidates_def Let_def in_map_filter dest!: row_of_SomeD)
  moreover have "hits \<noteq> None"
  proof
    assume "hits = None"
    then show False using r by (cases ns) (simp_all add: rank_candidates_def)
  qed
  ultimately show ?thesis by simp
qed

text \<open>The contract of a follow-up: a task of the project, in the version that was read.\<close>

definition amends :: "graph_node list \<Rightarrow> string \<Rightarrow> string \<Rightarrow> graph_node \<Rightarrow> bool" where
  "amends nodes project wish n \<longleftrightarrow> n \<in> set nodes \<and> gn_project n = project \<and>
     (gn_id n \<in> set (tokens wish) \<or> gn_status n \<in> set OPEN_STATUSES)"

fun followup_asks :: "graph_node list \<Rightarrow> string \<Rightarrow> string \<Rightarrow> request \<Rightarrow> bool" where
  "followup_asks nodes project wish (AmendTask i v t) =
     (t = wish \<and> (\<exists>n. amends nodes project wish n \<and> gn_id n = i \<and> gn_version n = v))"
| "followup_asks nodes project wish r = True"

definition followup_contract ::
    "graph_node list \<Rightarrow> queue_edge list \<Rightarrow> string \<Rightarrow> string \<Rightarrow> (bridge, request, answer, loop_head) contract" where
  "followup_contract nodes edges project wish =
     \<lparr>ct_inv = (\<lambda>_. True), ct_grows = (\<lambda>_ _. True), ct_asks = (\<lambda>_. followup_asks nodes project wish),
      ct_answers = (\<lambda>_ r a. r = GraphRead \<longrightarrow> a = Graph nodes edges), ct_head = (\<lambda>_ _. True)\<rparr>"

lemma followup_contract_simps [simp]:
  "ct_inv (followup_contract nodes edges project wish) = (\<lambda>_. True)"
  "ct_grows (followup_contract nodes edges project wish) = (\<lambda>_ _. True)"
  "ct_asks (followup_contract nodes edges project wish) = (\<lambda>_. followup_asks nodes project wish)"
  "ct_answers (followup_contract nodes edges project wish) = (\<lambda>_ r a. r = GraphRead \<longrightarrow> a = Graph nodes edges)"
  by (simp_all add: followup_contract_def)

lemma followup_harmless: "(\<And>i v n. r \<noteq> AmendTask i v n) \<Longrightarrow> followup_asks nodes project wish r"
  by (cases r) auto

interpretation fc: routine "followup_contract nodes edges project wish" for nodes edges project wish
  by unfold_locales (auto intro: followup_harmless simp: followup_contract_def)

lemma calm_apply:
  assumes "amends nodes project wish target"
  shows "valid (followup_contract nodes edges project wish) (\<lambda>_. True) (apply_followup cf row message target wish) (\<lambda>_ _. True)"
  unfolding apply_followup_def
proof (rule fc.valid_await_then)
  fix a
  show "valid (followup_contract nodes edges project wish)
     (\<lambda>s. True \<and> ct_answers (followup_contract nodes edges project wish) s (AmendTask (gn_id target) (gn_version target) wish) a)
     (andthen (of_result (command_of a)) (\<lambda>(code, err).
       if code \<noteq> 0 then chat_note cf row (Some message) (followup_key row) (amend_refused_text (gn_id target))
       else andthen (if gn_status target = ''running'' then modify (start_reconcile (gn_id target)) else ret ()) (\<lambda>_.
         chat_note cf row (Some message) (followup_key row) (amended_text target wish)))) (\<lambda>_ _. True)"
    by (rule fc.valid_pre [where P = "\<lambda>_. True"]) (auto intro!: fc.calm_intros fc.calm_chat_note split: prod.split)
qed (use assms in auto)

lemma calm_route:
  "valid (followup_contract nodes edges (ix_project row) wish) (\<lambda>_. True) (route_followup cf row message wish) (\<lambda>_ _. True)"
proof -
  let ?C = "followup_contract nodes edges (ix_project row) wish"
  have graph: "valid ?C (\<lambda>_. True) read_graph (\<lambda>r _. r = Inr (nodes, edges))"
    unfolding read_graph_def
    by (rule fc.valid_await_then) (auto intro!: fc.valid_pre [OF fc.valid_of_result] simp: graph_of_def)
  have take: "amends nodes (ix_project row) wish n" if "choose_task wish (ix_project row) mapped nodes = Take n" for mapped n
    using choose_take [OF that] named_in_graph [of "gn_id n" wish nodes] by (auto simp: amends_def candidate_def)
  have compare: "amends nodes (ix_project row) wish n"
    if "choose_task wish (ix_project row) mapped nodes = Compare ns" "clear_winner (rank_candidates hits ns) = Some n" for mapped ns hits n
    using choose_compare [OF that(1)] clear_winner_hit [OF that(2)] by (auto simp: amends_def candidate_def)
  have search: "valid ?C (\<lambda>_. True) (search_tasks cf wish) (\<lambda>_ _. True)"
    unfolding search_tasks_def by (auto intro!: fc.calm_intros)
  show ?thesis
    unfolding route_followup_def
  proof (rule fc.valid_attempt_then [OF graph])
    fix r
    let ?go = "\<lambda>graph mapped. case choose_task wish (ix_project row) mapped graph of
               AskWhich ids \<Rightarrow> chat_note cf row (Some message) (followup_key row) (which_text ids)
             | Refuse target \<Rightarrow>
                 chat_note cf row (Some message) (followup_key row) (refusal_text target (ix_project row))
             | Take target \<Rightarrow> apply_followup cf row message target wish
             | NoneOpen \<Rightarrow> chat_note cf row (Some message) (followup_key row) (none_open_text (ix_project row))
             | Compare candidates \<Rightarrow>
                 andthen (search_tasks cf wish) (\<lambda>hits.
                   let ranked = rank_candidates hits candidates in
                   case clear_winner ranked of
                     Some target \<Rightarrow> apply_followup cf row message target wish
                   | None \<Rightarrow> chat_note cf row (Some message) (followup_key row) (ambiguous_text ranked))"
    have "valid ?C (\<lambda>_. True) (?go nodes mapped) (\<lambda>_ _. True)" for mapped
      unfolding Let_def
      by (auto intro!: fc.calm_chat_note fc.calm_andthen search calm_apply intro: take compare split: choice.split option.split)
    then have "valid ?C (\<lambda>_. True) (andthen (reading (\<lambda>b. map tk_task (qb_tasks b))) (?go nodes)) (\<lambda>_ _. True)"
      by (intro fc.calm_andthen fc.calm_reading)
    then show "valid ?C (\<lambda>_. r = Inr (nodes, edges)) (case r of
         Inl e \<Rightarrow> chat_note cf row (Some message) (followup_key row) (UNREADABLE_FOR_NOTE @ take 160 e)
       | Inr (graph, _) \<Rightarrow> andthen (reading (\<lambda>b. map tk_task (qb_tasks b))) (?go graph)) (\<lambda>_ _. True)"
      by (cases "r = Inr (nodes, edges)") (auto simp: valid_def)
  qed
qed

text \<open>
  C30: A follow-up amends at most a task of the project its chat is bound to, in the version that was read, and one that the
  note names or that is open.
\<close>

theorem followup_stays_in_project:
  assumes "\<And>s. env GraphRead s = Graph nodes edges"
    and "asks env (route_followup cf row message wish (\<lambda>_. finished) b) (AmendTask i v t)"
  shows "t = wish \<and> (\<exists>n \<in> set nodes. gn_id n = i \<and> gn_version n = v \<and> gn_project n = ix_project row \<and>
    (i \<in> set (tokens wish) \<or> gn_status n \<in> set OPEN_STATUSES))"
proof -
  let ?x = "route_followup cf row message wish (\<lambda>_. finished) b"
  have "runs (followup_contract nodes edges (ix_project row) wish) b (route_followup cf row message wish (\<lambda>_. finished))"
    by (rule fc.calm_runs [where k = "\<lambda>_. finished"]) (auto intro: calm_route fc.runs_done)
  then have s: "sound (followup_contract nodes edges (ix_project row) wish) (fst ?x) (snd ?x)" by (simp add: runs_def)
  have "followup_asks nodes (ix_project row) wish (AmendTask i v t)"
    using fc.asks_allowed [OF assms(2) s] assms(1) by auto
  then show ?thesis by (auto simp: amends_def)
qed

section \<open>Sweeps\<close>

definition swept :: "(string \<Rightarrow> bool) \<Rightarrow> int \<Rightarrow> task_row \<Rightarrow> task_row" where
  "swept good now r =
     (if good (tk_task r) then r\<lparr>tk_state := Queued, tk_updated := now\<rparr>
      else r\<lparr>tk_attempts := tk_attempts r + 1, tk_updated := now\<rparr>)"

definition put_result :: "(string \<Rightarrow> bool) \<Rightarrow> task_row \<Rightarrow> bridge \<Rightarrow> bridge" where
  "put_result good m b = b\<lparr>qb_tasks := map (\<lambda>r. if tk_task r = tk_task m then swept good (qb_now b) r else r) (qb_tasks b)\<rparr>"

lemma put_result_eq:
  "put_result good m = (if good (tk_task m) then task_put (tk_task m) else task_put_failed (tk_task m))"
  by (auto simp: put_result_def task_put_def task_put_failed_def set_task_def swept_def fun_eq_iff intro!: bridge.fold_congs)

lemma drive_puts:
  assumes "\<And>i p d g s. env (PutTask i p d g) s = Exited (if good i then 0 else 1) err"
  shows "drive env head (for_each put_task rows k b) = drive env head (k (Inr ()) (fold (put_result good) rows b))"
proof (induction rows arbitrary: b)
  case Nil
  show ?case by (simp add: ret_def)
next
  case (Cons m rows)
  have "drive env head (put_task m (\<lambda>r. case r of Inl e \<Rightarrow> k (Inl e) | Inr v \<Rightarrow> for_each put_task rows k) b) =
      drive env head (for_each put_task rows k (put_result good m b))"
    by (simp add: put_task_def andthen_def await_def modify_def assms command_of_def put_result_eq)
  then show ?case by (simp add: andthen_def Cons.IH)
qed

lemma fold_puts:
  "distinct (map tk_task rows) \<Longrightarrow> fold (put_result good) rows b =
     b\<lparr>qb_tasks := map (\<lambda>r. if tk_task r \<in> tk_task ` set rows then swept good (qb_now b) r else r) (qb_tasks b)\<rparr>"
proof (induction rows arbitrary: b)
  case (Cons m rows)
  have "tk_task (swept good now r) = tk_task r" for now r by (simp add: swept_def)
  with Cons show ?case by (auto simp: put_result_def comp_def intro!: bridge.fold_congs)
qed simp

text \<open>
  C31: A sweep puts every task that is still to be created, once: those the queue took are queued, the others stay with one
  more attempt counted, and no other task changes.
\<close>

theorem sweep_puts_every_task:
  assumes "\<And>i p d g s. env (PutTask i p d g) s = Exited (if good i then 0 else 1) err"
    and "unique_keys tk_task (qb_tasks b)" "\<not> qb_sweeping b"
  shows "drive env head (sweep_creating (\<lambda>_. finished) b) =
    Some (b\<lparr>qb_tasks := map (\<lambda>r. if tk_state r = Creating then swept good (qb_now b) r else r) (qb_tasks b)\<rparr>)"
proof -
  let ?b = "set_sweeping True b" and ?rows = "creating_tasks (set_sweeping True b)"
  have same: "qb_tasks ?b = qb_tasks b" "qb_now ?b = qb_now b" by (simp_all add: set_sweeping_def)
  have rows: "set ?rows = {r \<in> set (qb_tasks b). tk_state r = Creating}" by (auto simp: creating_tasks_def same)
  have "mset (map tk_task ?rows) = mset (map tk_task (filter (\<lambda>r. tk_state r = Creating) (qb_tasks b)))"
    by (simp add: creating_tasks_def same)
  then have d: "distinct (map tk_task ?rows)"
    using assms(2) mset_eq_imp_distinct_iff unfolding unique_keys_def by (metis distinct_map_filter)
  have mem: "tk_task r \<in> tk_task ` set ?rows \<longleftrightarrow> tk_state r = Creating" if "r \<in> set (qb_tasks b)" for r
    using that assms(2) rows by (auto simp: unique_keys_def distinct_map inj_on_def)
  have "drive env head (sweep_creating (\<lambda>_. finished) b) = Some (set_sweeping False (fold (put_result good) ?rows ?b))"
    using assms(3) drive_puts [of env good err, OF assms(1)]
    by (simp add: sweep_creating_def andthen_def reading_def modify_def attempting_def of_result_def finished_def)
  also have "set_sweeping False (fold (put_result good) ?rows ?b) =
      b\<lparr>qb_tasks := map (\<lambda>r. if tk_state r = Creating then swept good (qb_now b) r else r) (qb_tasks b)\<rparr>"
  proof -
    have "map (\<lambda>r. if tk_task r \<in> tk_task ` set ?rows then swept good (qb_now b) r else r) (qb_tasks b) =
        map (\<lambda>r. if tk_state r = Creating then swept good (qb_now b) r else r) (qb_tasks b)"
      by (rule map_cong) (simp_all add: mem)
    then show ?thesis unfolding fold_puts [OF d] same using assms(3) by (simp add: set_sweeping_def)
  qed
  finally show ?thesis .
qed

end
