(* ===== verification/BridgeCases.thy ===== *)
theory BridgeCases
  imports BridgeLive
begin

text \<open>
  Where the bridge does not do what its comments say, and its properties on concrete runs: one chat message that asks for
  a task, an event of that task, sends that fail, a crash.
\<close>

section \<open>An account without a sender\<close>

lemma sort_hd: "sort_stable lt xs \<noteq> [] \<longleftrightarrow> xs \<noteq> []"
  by (metis length_0_conv length_sort_stable)

text \<open>
  A note whose account has no sender, when it is the oldest that is not sent, ends every tick before any event is read: no
  other note is sent and no outcome is reported, to any account.
\<close>

theorem unsendable_note_ends_the_tick:
  assumes "creating_tasks b = []" "\<not> qb_sweeping b"
    and "sort_stable (\<lambda>m n. nt_updated m < nt_updated n) (filter (\<lambda>n. nt_state n \<noteq> Sent) (qb_notes b)) = n # ns"
    and "unique_keys nt_key (qb_notes b)" "qc_senderOf cf (nt_account n) = None"
  shows "bridge_tick cf b = (b, Done)"
proof -
  have "n \<in> set (sort_stable (\<lambda>m n. nt_updated m < nt_updated n) (filter (\<lambda>n. nt_state n \<noteq> Sent) (qb_notes b)))"
    unfolding assms(3) by simp
  then have n: "n \<in> set (qb_notes b)" "nt_state n \<noteq> Sent" by auto
  then have "note_of (nt_key n) b = Some n" using assms(4) by (simp add: note_of_def row_of_eq_Some_iff)
  moreover have "creating_tasks (set_sweeping True b) = []" using assms(1) by (simp add: creating_tasks_def set_sweeping_def)
  moreover have "set_sweeping False (set_sweeping True b) = b" using assms(2) by (simp add: set_sweeping_def)
  ultimately show ?thesis
    using n(2) assms(2,3,5)
    by (simp add: bridge_tick_def sweep_creating_def deliver_pending_def deliver_note_def attempt_note_def
      sender_for_note_def action_defs rest_of_tick_def)
qed

text \<open>
  A retry that throws (a timeout of the queue's command) is the end of the reconciliation: the task is not retried again
  and nobody is told.
\<close>

theorem lost_retry_is_silent:
  assumes "\<And>s. env (RetryTask t) s = Failed e"
  shows "drive env head (end_reconcile cf t True (\<lambda>_. finished) b) = Some (drop_reconcile t b)"
  by (simp add: end_reconcile_def retry_task_def action_defs assms command_of_def)

section \<open>Concrete runs\<close>

definition chat_row :: inbox_row where
  "chat_row =
     (let m = \<lparr>im_channel = ''whatsapp'', im_account = ''bot'', im_thread = ''t1'', im_messageId = ''m1'', im_sender = ''ana'',
        im_senderName = None, im_sentAt = 1, im_text = ''go'', im_replyTo = None, im_mentions = None,
        im_attachments = [], im_fromMe = None\<rparr>
      in \<lparr>ix_seq = 5, ix_message = m, ix_original = m, ix_session = ''s1'', ix_project = ''p1'', ix_received = 0\<rparr>)"

definition chat_cf :: bridge_config where
  "chat_cf = \<lparr>qc_senderOf = (\<lambda>a. if a = ''bot'' then Some ''main'' else None), qc_consumer = ''q'', qc_sessions = (\<lambda>_. None),
     qc_cwd = ''/w'', qc_embed = False, qc_timeout_s = 180, qc_settle_ms = 30000, qc_unclaimed_ms = 600000,
     qc_lane_unit = None\<rparr>"

definition chat_inbox :: inbox where
  "chat_inbox = \<lparr>ix_bindings = [], ix_rows = [chat_row], ix_next = 6, ix_updates = [], ix_nextUpdate = 1, ix_consumers = [],
     ix_own = [], ix_sends = None\<rparr>"

definition chat_world :: bridge_world where
  "chat_world = empty_world chat_inbox 0"

definition done_event :: queue_event where
  "done_event = \<lparr>qe_seq = 1, qe_task = ''chat-5'', qe_kind = ''state_changed'', qe_version = 1, qe_status = ''done''\<rparr>"

definition no_answer :: answer where
  "no_answer = Delivered (SendUncertain 500 ''timeout'' False)"

fun request_of :: "bridge_call \<Rightarrow> request option" where
  "request_of (Await r f) = Some r"
| "request_of _ = None"

text \<open>A task is asked for and put, its end is logged and read, and its note is being sent.\<close>

definition until_note :: "bridge_action list" where
  "until_note = [PlanReply chat_row ''ok [[mini-queue: go]]'', StartBridge, AnswerTick (Exited 0 []), QueueLogs done_event,
     AnswerTick (Events [done_event])]"

definition undelivered :: "bridge_action list" where
  "undelivered = until_note @ [AnswerTick no_answer, NextTick, AnswerTick (History []), AnswerTick no_answer,
     AnswerTick (Events [done_event])]"

text \<open>
  The cursor passes an outcome whose note was not delivered: the next tick finds the note in the journal and takes it for
  delivered, though both attempts to send it failed.
\<close>

theorem cursor_passes_an_undelivered_note:
  "honest_actions chat_cf chat_world undelivered \<and>
   event_cursor chat_cf (bw_bridge (bridge_run chat_cf chat_world undelivered)) = 1 \<and>
   map nt_state (qb_notes (bw_bridge (bridge_run chat_cf chat_world undelivered))) = [Uncertain]"
  by code_simp

definition status_post :: note_post where
  "status_post = \<lparr>np_sender = ''main'', np_thread = ''t1'', np_text = ''No hay tareas abiertas en la cola.'', np_quoted = None\<rparr>"

definition both_send :: "bridge_action list" where
  "both_send = [RunDeferred chat_row ''[[mini-status]]'', AnswerFlow 0 (Graph [] []), StartBridge]"

text \<open>
  Two flows send the same note at the same time: the report that a reply asked for is on its way when a tick finds it in
  the journal, with no attempt recorded, and sends it too.
\<close>

theorem two_flows_send_one_note:
  "honest_actions chat_cf chat_world both_send \<and>
   request_of (bw_flows (bridge_run chat_cf chat_world both_send) ! 0) = Some (SendNote status_post) \<and>
   request_of (bw_tick (bridge_run chat_cf chat_world both_send)) = Some (SendNote status_post)"
  by code_simp

text \<open>After a crash during its first send a note is sent again without a look at what has landed.\<close>

lemma sent_again_after_a_crash:
  "request_of (bw_tick (bridge_run chat_cf chat_world
     [RunDeferred chat_row ''[[mini-status]]'', AnswerFlow 0 (Graph [] []), Crash, StartBridge])) = Some (SendNote status_post)"
  by code_simp

text \<open>A note that is recorded as sent becomes uncertain again when the other flow's send fails.\<close>

lemma sent_note_becomes_uncertain:
  "map (\<lambda>i. map nt_state (qb_notes (bw_bridge (bridge_run chat_cf chat_world (take i
     (both_send @ [AnswerFlow 0 (Delivered (SentAs ''r1'')), AnswerTick no_answer])))))) [4, 5] = [[Sent], [Uncertain]]"
  by code_simp

section \<open>Witnesses\<close>

definition told :: "bridge_action list" where
  "told = until_note @ [AnswerTick (Delivered (SentAs ''r1''))]"

lemma told_facts:
  "honest_actions chat_cf (empty_world chat_inbox 0) told"
  "done_event \<in> set (qb_log (bw_bridge (bridge_run chat_cf (empty_world chat_inbox 0) told)))"
  "qe_seq done_event \<le> event_cursor chat_cf (bw_bridge (bridge_run chat_cf (empty_world chat_inbox 0) told))"
  "reported done_event"
  "row_of tk_task (qe_task done_event) (qb_tasks (bw_bridge (bridge_run chat_cf (empty_world chat_inbox 0) told))) =
     Some \<lparr>tk_task = ''chat-5'', tk_seq = 5, tk_channel = ''whatsapp'', tk_account = ''bot'', tk_thread = ''t1'',
       tk_session = ''s1'', tk_project = ''p1'', tk_cwd = ''/w'', tk_goal = ''go'', tk_state = Queued, tk_attempts = 0,
       tk_updated = 0, tk_stall = None\<rparr>"
  by code_simp+

theorem outcomes_are_journalled_witness:
  "\<exists>n rs. filter (\<lambda>n. nt_key n = event_key (qe_seq done_event))
      (qb_notes (bw_bridge (bridge_run chat_cf (empty_world chat_inbox 0) told))) = [n] \<and>
    nt_task n = Some ''chat-5'' \<and> nt_thread n = ''t1'' \<and> nt_account n = ''bot'' \<and> event_text done_event rs = Some (nt_text n)"
  using outcomes_are_journalled [OF told_facts(1) refl told_facts(2-5)] by (simp add: done_event_def)

definition note_world :: bridge_world where
  "note_world = bridge_run chat_cf (empty_world chat_inbox 0) until_note"

lemma until_note_facts:
  "honest_actions chat_cf (empty_world chat_inbox 0) until_note"
  "request_of (bw_tick note_world) = Some (SendNote \<lparr>np_sender = ''main'', np_thread = ''t1'',
     np_text = check_mark @ '' chat-5 terminada (con evidencia de cierre verificada).'', np_quoted = Some (''m1'', Some ''ana'')\<rparr>)"
  by code_simp+

lemma request_ofD: "request_of p = Some r \<Longrightarrow> \<exists>f. p = Await r f"
  by (cases p) auto

theorem notes_go_home_witness:
  "\<exists>n \<in> set (qb_notes (bw_bridge note_world)). nt_thread n = ''t1'' \<and> qc_senderOf chat_cf (nt_account n) = Some ''main''"
proof -
  obtain f where f: "bw_tick note_world = Await (SendNote \<lparr>np_sender = ''main'', np_thread = ''t1'',
     np_text = check_mark @ '' chat-5 terminada (con evidencia de cierre verificada).'', np_quoted = Some (''m1'', Some ''ana'')\<rparr>) f"
    using request_ofD [OF until_note_facts(2)] by blast
  show ?thesis
    using notes_go_home [OF until_note_facts(1) refl, folded note_world_def, unfolded f list.set, OF insertI1] by auto
qed

definition chat_env :: "request \<Rightarrow> bridge \<Rightarrow> answer" where
  "chat_env r b = (case r of ReadEvents c n \<Rightarrow> Events (page_of [done_event] c n) | _ \<Rightarrow> Failed ''down'')"

lemma chat_env_honest: "honest_answer [done_event] r (chat_env r b)"
  by (cases r) (simp_all add: chat_env_def)

theorem tick_ends_witness: "\<exists>b'. drive chat_env (page_head chat_cf) (bridge_tick chat_cf (bw_bridge note_world)) = Some b'"
  by (rule tick_ends) (rule chat_env_honest)

definition running_node :: graph_node where
  "running_node = \<lparr>gn_id = ''chat-5'', gn_project = ''p1'', gn_goal = ''go'', gn_status = ''running'', gn_owner = Some ''lane'',
     gn_lease = Some 100, gn_result = None, gn_version = 2\<rparr>"

definition graph_env :: "request \<Rightarrow> bridge \<Rightarrow> answer" where
  "graph_env r b = (if r = GraphRead then Graph [running_node] [] else Failed ''down'')"

lemma followup_asks_amend:
  "AmendTask ''chat-5'' 2 ''and x'' \<in> set (asked 2 graph_env
     (route_followup chat_cf chat_row (ix_message chat_row) ''and x'' (\<lambda>_. finished) (bw_bridge note_world)))"
  by code_simp

theorem followup_stays_in_project_witness: "gn_project running_node = ix_project chat_row"
  using followup_stays_in_project [OF _ asked_asks [OF followup_asks_amend], of "[running_node]" "[]"]
  by (simp add: graph_env_def)

definition planned :: bridge where
  "planned = plan_put chat_cf chat_row ''go'' (empty_bridge chat_inbox 0)"

definition put_env :: "request \<Rightarrow> bridge \<Rightarrow> answer" where
  "put_env r b = (case r of PutTask i p d g \<Rightarrow> Exited (if i = ''chat-5'' then 0 else 1) ''locked'' | _ \<Rightarrow> Failed ''down'')"

theorem sweep_puts_every_task_witness:
  "map_option (\<lambda>b. map tk_state (qb_tasks b)) (drive put_env (page_head chat_cf) (sweep_creating (\<lambda>_. finished) planned)) = Some [Queued]"
proof -
  have "unique_keys tk_task (qb_tasks planned)" "\<not> qb_sweeping planned"
    "map tk_state (map (\<lambda>r. if tk_state r = Creating then swept (\<lambda>i. i = ''chat-5'') (qb_now planned) r else r)
        (qb_tasks planned)) = [Queued]"
    by code_simp+
  then show ?thesis
    using sweep_puts_every_task [of put_env "\<lambda>i. i = ''chat-5''" "''locked''" planned "page_head chat_cf"]
    by (simp add: put_env_def)
qed

definition stuck_note :: note_row where
  "stuck_note = make_note ''msg-1-status-1'' None ''t1'' None ''old'' ''hello''"

definition stuck_bridge :: bridge where
  "stuck_bridge = add_note stuck_note (empty_bridge chat_inbox 0)"

theorem unsendable_note_ends_the_tick_witness: "snd (bridge_tick chat_cf stuck_bridge) = Done"
proof -
  have "creating_tasks stuck_bridge = []" "\<not> qb_sweeping stuck_bridge" "unique_keys nt_key (qb_notes stuck_bridge)"
    "sort_stable (\<lambda>m n. nt_updated m < nt_updated n) (filter (\<lambda>n. nt_state n \<noteq> Sent) (qb_notes stuck_bridge)) = [stuck_note]"
    "qc_senderOf chat_cf (nt_account stuck_note) = None"
    by code_simp+
  then show ?thesis by (simp add: unsendable_note_ends_the_tick)
qed

theorem lost_retry_is_silent_witness:
  "drive chat_env (page_head chat_cf) (end_reconcile chat_cf ''chat-5'' True (\<lambda>_. finished) planned) = Some planned"
  using lost_retry_is_silent [of chat_env "''chat-5''" "''down''" "page_head chat_cf" chat_cf planned]
  by (simp add: chat_env_def drop_reconcile_def planned_def plan_put_def empty_bridge_def task_of_def Let_def delete_key_def)

theorem directives_roundtrip_witness:
  "parse_directives (weave [(''ok '', QueueWork, ''a''), (''fine [1] '', QueueWork, ''b'')] ''bye'') =
     \<lparr>pr_text = ''ok fine [1] bye'', pr_queue = Some ''b'', pr_followup = None, pr_status = False\<rparr>"
proof -
  let ?chunks = "[(''ok '', QueueWork, ''a''), (''fine [1] '', QueueWork, ''b'')]"
  have "list_all (\<lambda>(t, d). plain t \<and> printable d) ?chunks" "plain ''bye''"
    "js_trim (squeeze_lines (concat (map fst ?chunks) @ ''bye'')) = ''ok fine [1] bye''"
    by code_simp+
  moreover have "last_value QueueWork (map snd ?chunks) = Some ''b''" "last_value Followup (map snd ?chunks) = None"
    by (simp_all add: last_value_def MAX_DIRECTIVE_BYTES_def byte_length_def)
  ultimately show ?thesis using directives_roundtrip [of ?chunks "''bye''"] by simp
qed

end
