(* ===== verification/SessionStore.thy ===== *)
theory SessionStore
  imports Table
begin

text \<open>
  The session database that the terminals, the web server and the headless runs share (src/sessions.ts): the saved
  sessions and their listings, the notes beside a session, the task cards that agents fill, the agents that run now, the
  run folders, and the sessions a web server holds open.  A JSON column is text; the clock is an argument; a table is the
  list of its rows.  \<open>LIKE\<close> is written out, with its escape character and its letters that match in either case.
\<close>

section \<open>Rows and tables\<close>

record session_row =
  sr_id :: string
  sr_title :: string
  sr_cwd :: string
  sr_model :: string
  sr_task :: string
  sr_created_at :: int
  sr_updated_at :: int
  sr_api_calls :: int
  sr_cost :: rat
  sr_exit_status :: string
  sr_events_json :: string
  sr_info_json :: string
  sr_messages_json :: string
  sr_parent_id :: string

record session_note =
  nr_session :: string
  nr_body :: string
  nr_updated_at :: int

record todos =
  td_done :: "string list"
  td_pending :: "string list"
  td_left :: "string list"

record task_card =
  tk_id :: string
  tk_title :: string
  tk_description :: string
  tk_todos :: todos
  tk_updated_at :: int

record live_run =
  lr_session :: string
  lr_traj_path :: string
  lr_control_path :: string
  lr_pid :: int
  lr_owner :: string
  lr_started_at :: int

record session_db =
  sd_sessions :: "session_row list"
  sd_notes :: "session_note list"
  sd_tasks :: "task_card list"
  sd_agent_runs :: "(string \<times> string \<times> int) list"
  sd_live_runs :: "live_run list"
  sd_open :: "(string \<times> int) list"
  sd_events :: "(string \<times> string \<times> task_card \<times> int) list"
  sd_resume_files :: "string list"

definition empty_db :: session_db where
  "empty_db = \<lparr>sd_sessions = [], sd_notes = [], sd_tasks = [], sd_agent_runs = [], sd_live_runs = [], sd_open = [],
     sd_events = [], sd_resume_files = []\<rparr>"

text \<open>\<open>INSERT OR REPLACE\<close> deletes the row of the key and adds the new one at the end.\<close>

definition replace_row :: "('r \<Rightarrow> 'k) \<Rightarrow> 'r \<Rightarrow> 'r list \<Rightarrow> 'r list" where
  "replace_row key r rows = delete_key key (key r) rows @ [r]"

text \<open>\<open>ORDER BY f DESC\<close>.\<close>

definition newest_by :: "('r \<Rightarrow> int) \<Rightarrow> 'r list \<Rightarrow> 'r list" where
  "newest_by f rows = sort_stable (\<lambda>a b. f b < f a) rows"

section \<open>Sessions\<close>

definition TITLE_MAX_CHARS :: nat where
  "TITLE_MAX_CHARS = 48"

definition fallbackTitle :: "string \<Rightarrow> string" where
  "fallbackTitle task =
     (let clean = js_trim (collapse_ws task)
      in if length clean \<le> TITLE_MAX_CHARS then clean else take (TITLE_MAX_CHARS - 1) clean @ ellipsis)"

definition get_session :: "session_db \<Rightarrow> string \<Rightarrow> session_row option" where
  "get_session d i = row_of sr_id i (sd_sessions d)"

definition session_exists :: "session_db \<Rightarrow> string \<Rightarrow> bool" where
  "session_exists d i = (get_session d i \<noteq> None)"

definition fresh_row :: "int \<Rightarrow> string \<Rightarrow> string \<Rightarrow> string \<Rightarrow> string \<Rightarrow> string \<Rightarrow> session_row" where
  "fresh_row now i title cwd model task =
     \<lparr>sr_id = i, sr_title = title, sr_cwd = cwd, sr_model = model, sr_task = task, sr_created_at = now,
      sr_updated_at = now, sr_api_calls = 0, sr_cost = 0, sr_exit_status = [], sr_events_json = ''[]'',
      sr_info_json = ''{}'', sr_messages_json = ''[]'', sr_parent_id = []\<rparr>"

definition create_session :: "int \<Rightarrow> string \<Rightarrow> string \<Rightarrow> string \<Rightarrow> string \<Rightarrow> string option \<Rightarrow> session_db \<Rightarrow> session_db" where
  "create_session now i cwd model task title d =
     d\<lparr>sd_sessions := replace_row sr_id
        (fresh_row now i (case title of Some t \<Rightarrow> t | None \<Rightarrow> fallbackTitle task) cwd model task) (sd_sessions d)\<rparr>"

record session_patch =
  pt_title :: "string option"
  pt_model :: "string option"
  pt_api_calls :: "int option"
  pt_cost :: "rat option"
  pt_exit_status :: "string option"
  pt_events_json :: "string option"
  pt_info_json :: "string option"
  pt_messages_json :: "string option"

definition no_patch :: session_patch where
  "no_patch = \<lparr>pt_title = None, pt_model = None, pt_api_calls = None, pt_cost = None, pt_exit_status = None,
     pt_events_json = None, pt_info_json = None, pt_messages_json = None\<rparr>"

definition or_keep :: "'a option \<Rightarrow> 'a \<Rightarrow> 'a" where
  "or_keep v old = (case v of Some x \<Rightarrow> x | None \<Rightarrow> old)"

definition patch_row :: "int \<Rightarrow> session_patch \<Rightarrow> session_row \<Rightarrow> session_row" where
  "patch_row now p r = r\<lparr>sr_title := or_keep (pt_title p) (sr_title r), sr_model := or_keep (pt_model p) (sr_model r),
     sr_api_calls := or_keep (pt_api_calls p) (sr_api_calls r), sr_cost := or_keep (pt_cost p) (sr_cost r),
     sr_exit_status := or_keep (pt_exit_status p) (sr_exit_status r),
     sr_events_json := or_keep (pt_events_json p) (sr_events_json r),
     sr_info_json := or_keep (pt_info_json p) (sr_info_json r),
     sr_messages_json := or_keep (pt_messages_json p) (sr_messages_json r), sr_updated_at := now\<rparr>"

definition update_session :: "int \<Rightarrow> string \<Rightarrow> session_patch \<Rightarrow> session_db \<Rightarrow> session_db" where
  "update_session now i p d =
     (if p = no_patch then d
      else d\<lparr>sd_sessions := map (\<lambda>r. if sr_id r = i then patch_row now p r else r) (sd_sessions d)\<rparr>)"

definition save_transcript ::
  "int \<Rightarrow> string \<Rightarrow> string \<Rightarrow> string \<Rightarrow> string \<Rightarrow> int \<Rightarrow> rat \<Rightarrow> string \<Rightarrow> session_db \<Rightarrow> session_db" where
  "save_transcript now i events_json info_json messages_json api_calls cost exit_status d =
     update_session now i (no_patch\<lparr>pt_events_json := Some events_json, pt_info_json := Some info_json,
       pt_messages_json := Some messages_json, pt_api_calls := Some api_calls, pt_cost := Some cost,
       pt_exit_status := Some exit_status\<rparr>) d"

text \<open>The resume file of a session is a cache beside the database; only its name matters here.\<close>

definition write_resume_file :: "string \<Rightarrow> session_db \<Rightarrow> session_db" where
  "write_resume_file i d = d\<lparr>sd_resume_files := List.insert i (sd_resume_files d)\<rparr>"

definition upsert_subagent :: "int \<Rightarrow> string \<Rightarrow> string \<Rightarrow> string \<Rightarrow> string \<Rightarrow> string \<Rightarrow> string \<Rightarrow> session_db \<Rightarrow> session_db" where
  "upsert_subagent now i parent title cwd model task d =
     (case get_session d i of
        None \<Rightarrow> d\<lparr>sd_sessions := sd_sessions d @ [(fresh_row now i title cwd model task)\<lparr>sr_parent_id := parent\<rparr>]\<rparr>
      | Some r \<Rightarrow> d\<lparr>sd_sessions := upsert sr_id (r\<lparr>sr_model := model, sr_parent_id := parent\<rparr>) (sd_sessions d)\<rparr>)"

definition subagent_sessions :: "session_db \<Rightarrow> string \<Rightarrow> session_row list" where
  "subagent_sessions d parent =
     sort_stable (\<lambda>a b. sr_created_at a < sr_created_at b) (filter (\<lambda>r. sr_parent_id r = parent) (sd_sessions d))"

definition session_stamp :: "session_db \<Rightarrow> string \<Rightarrow> int option" where
  "session_stamp d i = map_option sr_updated_at (get_session d i)"

definition session_stamps :: "session_db \<Rightarrow> string list \<Rightarrow> (string \<times> int) list" where
  "session_stamps d ids = map (\<lambda>r. (sr_id r, sr_updated_at r)) (filter (\<lambda>r. sr_id r \<in> set ids) (sd_sessions d))"

definition delete_session :: "string \<Rightarrow> session_db \<Rightarrow> session_db \<times> bool" where
  "delete_session i d =
     (d\<lparr>sd_sessions := delete_key sr_id i (sd_sessions d), sd_notes := delete_key nr_session i (sd_notes d),
        sd_tasks := delete_key tk_id i (sd_tasks d), sd_resume_files := filter (\<lambda>j. j \<noteq> i) (sd_resume_files d)\<rparr>,
      session_exists d i)"

section \<open>Agents that run, run folders, open sessions\<close>

definition register_live_run :: "live_run \<Rightarrow> session_db \<Rightarrow> session_db" where
  "register_live_run run d = d\<lparr>sd_live_runs := replace_row lr_session run (sd_live_runs d)\<rparr>"

definition get_live_run :: "session_db \<Rightarrow> string \<Rightarrow> live_run option" where
  "get_live_run d i = row_of lr_session i (sd_live_runs d)"

definition find_live_run_by_control :: "session_db \<Rightarrow> string \<Rightarrow> live_run option" where
  "find_live_run_by_control d control = find (\<lambda>r. lr_control_path r = control) (sd_live_runs d)"

definition clear_live_run :: "string \<Rightarrow> string \<Rightarrow> session_db \<Rightarrow> session_db" where
  "clear_live_run i traj d =
     d\<lparr>sd_live_runs := filter (\<lambda>r. \<not> (lr_session r = i \<and> lr_traj_path r = traj)) (sd_live_runs d)\<rparr>"

definition remember_agent_run :: "int \<Rightarrow> string \<Rightarrow> string \<Rightarrow> session_db \<Rightarrow> session_db" where
  "remember_agent_run now i traj d =
     (if list_ex (\<lambda>(j, t, n). j = i \<and> t = traj) (sd_agent_runs d) then d
      else d\<lparr>sd_agent_runs := sd_agent_runs d @ [(i, traj, now)]\<rparr>)"

definition agent_runs :: "session_db \<Rightarrow> string \<Rightarrow> string list" where
  "agent_runs d i = map (fst \<circ> snd) (newest_by (snd \<circ> snd) (filter (\<lambda>r. fst r = i) (sd_agent_runs d)))"

definition mark_open :: "int \<Rightarrow> string \<Rightarrow> session_db \<Rightarrow> session_db" where
  "mark_open now i d = d\<lparr>sd_open := replace_row fst (i, now) (sd_open d)\<rparr>"

definition unmark_open :: "string \<Rightarrow> session_db \<Rightarrow> session_db" where
  "unmark_open i d = d\<lparr>sd_open := delete_key fst i (sd_open d)\<rparr>"

definition open_session_ids :: "session_db \<Rightarrow> string list" where
  "open_session_ids d = map fst (take 50 (newest_by snd (sd_open d)))"

section \<open>Search\<close>

definition ascii_lower :: "char \<Rightarrow> char" where
  "ascii_lower c = (if is_upper_az c then char_lower c else c)"

text \<open>\<open>s LIKE p ESCAPE e\<close> (no escape character without an \<open>ESCAPE\<close> clause); ASCII letters match in either case.\<close>

function (sequential) like :: "char option \<Rightarrow> string \<Rightarrow> string \<Rightarrow> bool" where
  "like e [] s = (s = [])"
| "like e (p # ps) s =
     (if e = Some p then
        (case (ps, s) of (q # qs, c # cs) \<Rightarrow> ascii_lower q = ascii_lower c \<and> like e qs cs | _ \<Rightarrow> False)
      else if p = CHR 0x25 then like e ps s \<or> (case s of [] \<Rightarrow> False | c # cs \<Rightarrow> like e (p # ps) cs)
      else (case s of [] \<Rightarrow> False | c # cs \<Rightarrow> (p = CHR 0x5F \<or> ascii_lower p = ascii_lower c) \<and> like e ps cs))"
  by pat_completeness auto
termination by (relation "measure (\<lambda>(e, p, s). length p + length s)") auto

definition like_escape :: "string \<Rightarrow> string" where
  "like_escape q = concat (map (\<lambda>c. if c \<in> {CHR 0x5C, CHR 0x25, CHR 0x5F} then [CHR 0x5C, c] else [c]) q)"

definition likePattern :: "string \<Rightarrow> string" where
  "likePattern q = [CHR 0x25] @ like_escape q @ [CHR 0x25]"

definition PAGE_SIZE :: nat where
  "PAGE_SIZE = 8"

definition title_like :: "string \<Rightarrow> session_row \<Rightarrow> bool" where
  "title_like q r \<longleftrightarrow> q = [] \<or> like None ([CHR 0x25] @ q @ [CHR 0x25]) (sr_title r)"

definition count_sessions :: "session_db \<Rightarrow> string \<Rightarrow> string \<Rightarrow> nat" where
  "count_sessions d cwd q = length (filter (\<lambda>r. sr_cwd r = cwd \<and> title_like q r) (sd_sessions d))"

text \<open>A listing comes without the transcripts.\<close>

definition meta :: "session_row \<Rightarrow> session_row" where
  "meta r = r\<lparr>sr_events_json := ''[]'', sr_info_json := ''{}'', sr_messages_json := ''[]''\<rparr>"

definition preview :: "session_db \<Rightarrow> string \<Rightarrow> session_row option" where
  "preview d i = map_option (\<lambda>r. r\<lparr>sr_messages_json := ''[]''\<rparr>) (get_session d i)"

definition list_sessions :: "session_db \<Rightarrow> string \<Rightarrow> string \<Rightarrow> nat \<Rightarrow> session_row list" where
  "list_sessions d cwd q page =
     map meta (take PAGE_SIZE (drop (page * PAGE_SIZE)
       (newest_by sr_updated_at (filter (\<lambda>r. sr_cwd r = cwd \<and> title_like q r) (sd_sessions d)))))"

definition latest_session :: "session_db \<Rightarrow> string \<Rightarrow> session_row option" where
  "latest_session d cwd = (case list_sessions d cwd [] 0 of [] \<Rightarrow> None | r # _ \<Rightarrow> Some r)"

text \<open>A session by its identifier or by a prefix that only one session has; \<open>Inl\<close> is the exception.\<close>

definition find_session :: "session_db \<Rightarrow> string \<Rightarrow> string + session_row option" where
  "find_session d q =
     (case get_session d q of
        Some r \<Rightarrow> Inr (Some r)
      | None \<Rightarrow>
          (case take 2 (newest_by sr_updated_at
                  (filter (\<lambda>r. like (Some (CHR 0x5C)) (like_escape q @ [CHR 0x25]) (sr_id r)) (sd_sessions d))) of
             [] \<Rightarrow> Inr None
           | [r] \<Rightarrow> Inr (get_session d (sr_id r))
           | _ \<Rightarrow> Inl (''session id prefix \"'' @ q @ ''\" is ambiguous'')))"

definition at_most :: "int \<Rightarrow> int \<Rightarrow> rat option \<Rightarrow> int" where
  "at_most most normal limit =
     (let n = (case limit of None \<Rightarrow> normal | Some x \<Rightarrow> (if \<lfloor>x\<rfloor> = 0 then normal else \<lfloor>x\<rfloor>)) in min most (max 1 n))"

definition resumable :: "session_row \<Rightarrow> bool" where
  "resumable r = (if 0 < sr_api_calls r then True else 2 < length (sr_events_json r))"

definition list_history :: "session_db \<Rightarrow> string \<Rightarrow> rat option \<Rightarrow> string option \<Rightarrow> (session_row \<times> bool) list" where
  "list_history d raw limit cwd =
     (let q = js_trim raw; hit = (\<lambda>s. like (Some (CHR 0x5C)) (likePattern q) s)
      in map (\<lambda>r. (meta r, resumable r)) (take (nat (at_most 500 50 limit)) (newest_by sr_updated_at
           (filter (\<lambda>r. (q = [] \<or> hit (sr_title r) \<or> hit (sr_task r) \<or> hit (sr_cwd r)) \<and>
                        (case cwd of None \<Rightarrow> True | Some c \<Rightarrow> sr_cwd r = c)) (sd_sessions d)))))"

record folder_summary =
  fs_cwd :: string
  fs_count :: nat
  fs_updated_at :: int

definition folder_of :: "session_row list \<Rightarrow> string \<Rightarrow> folder_summary" where
  "folder_of rows c = (let rs = filter (\<lambda>r. sr_cwd r = c) rows in
     \<lparr>fs_cwd = c, fs_count = length rs, fs_updated_at = fold max (map sr_updated_at (tl rs)) (sr_updated_at (hd rs))\<rparr>)"

definition list_folders :: "session_db \<Rightarrow> rat option \<Rightarrow> folder_summary list" where
  "list_folders d limit =
     take (nat (at_most 1000 200 limit))
       (newest_by fs_updated_at (map (folder_of (sd_sessions d)) (remdups (map sr_cwd (sd_sessions d)))))"

definition list_all_sessions :: "session_db \<Rightarrow> string option \<Rightarrow> string \<Rightarrow> int option \<Rightarrow> session_row list" where
  "list_all_sessions d cwd q limit =
     (let rows = newest_by sr_updated_at (filter (\<lambda>r. (case cwd of None \<Rightarrow> True | Some c \<Rightarrow> sr_cwd r = c) \<and>
                   title_like q r) (sd_sessions d))
      in map meta (case limit of Some n \<Rightarrow> (if 0 < n then take (nat n) rows else rows) | None \<Rightarrow> rows))"

section \<open>Notes\<close>

definition get_note :: "session_db \<Rightarrow> string \<Rightarrow> session_note" where
  "get_note d i = (case row_of nr_session i (sd_notes d) of
     None \<Rightarrow> \<lparr>nr_session = i, nr_body = [], nr_updated_at = 0\<rparr> | Some n \<Rightarrow> n)"

text \<open>\<open>Inl\<close> is a conflict, with the note that is stored; \<open>Inr\<close> is the note after the save.\<close>

definition save_note :: "int \<Rightarrow> string \<Rightarrow> string \<Rightarrow> int option \<Rightarrow> session_db \<Rightarrow> session_db \<times> (session_note + session_note)" where
  "save_note now i body base d =
     (let current = get_note d i
      in if base \<noteq> None \<and> base \<noteq> Some (nr_updated_at current) then (d, Inl current)
         else if body = [] then
           (d\<lparr>sd_notes := delete_key nr_session i (sd_notes d)\<rparr>, Inr \<lparr>nr_session = i, nr_body = [], nr_updated_at = 0\<rparr>)
         else (let n = \<lparr>nr_session = i, nr_body = body, nr_updated_at = max now (nr_updated_at current + 1)\<rparr>
               in (d\<lparr>sd_notes := upsert nr_session n (sd_notes d)\<rparr>, Inr n)))"

section \<open>Task cards\<close>

definition TASK_TITLE :: nat where "TASK_TITLE = 200"
definition TASK_DESCRIPTION :: int where "TASK_DESCRIPTION = 4000"
definition TASK_ITEM :: nat where "TASK_ITEM = 300"
definition TASK_ITEMS :: nat where "TASK_ITEMS = 50"

fun todo_text :: "js \<Rightarrow> string option" where
  "todo_text (JStr s) = (let t = take TASK_ITEM (js_trim (collapse_ws s)) in if t = [] then None else Some t)"
| "todo_text _ = None"

definition todo_list :: "js \<Rightarrow> string list" where
  "todo_list raw = take TASK_ITEMS (List.map_filter todo_text (arr_or_nil raw))"

definition normalizeTodos :: "js \<Rightarrow> todos" where
  "normalizeTodos v = \<lparr>td_done = todo_list (js_field ''done'' v), td_pending = todo_list (js_field ''pending'' v),
     td_left = todo_list (js_field ''left'' v)\<rparr>"

text \<open>The card as it is stored and read back: the buckets go through JSON and are normalised again.\<close>

definition todos_js :: "todos \<Rightarrow> js" where
  "todos_js t = JObj [(''done'', JArr (map JStr (td_done t))), (''pending'', JArr (map JStr (td_pending t))),
     (''left'', JArr (map JStr (td_left t)))]"

definition blank_card :: "string \<Rightarrow> task_card" where
  "blank_card i = \<lparr>tk_id = i, tk_title = [], tk_description = [],
     tk_todos = \<lparr>td_done = [], td_pending = [], td_left = []\<rparr>, tk_updated_at = 0\<rparr>"

definition row_to_task :: "task_card \<Rightarrow> task_card" where
  "row_to_task row = row\<lparr>tk_todos := normalizeTodos (todos_js (tk_todos row))\<rparr>"

definition read_card :: "session_db \<Rightarrow> string \<Rightarrow> task_card" where
  "read_card d i = (case row_of tk_id i (sd_tasks d) of None \<Rightarrow> blank_card i | Some row \<Rightarrow> row_to_task row)"

definition read_cards :: "session_db \<Rightarrow> task_card list" where
  "read_cards d = map row_to_task (newest_by tk_updated_at (sd_tasks d))"

definition save_card :: "int \<Rightarrow> string \<Rightarrow> string \<Rightarrow> string \<Rightarrow> js \<Rightarrow> session_db \<Rightarrow> session_db \<times> task_card" where
  "save_card now i title description todos d =
     (let card = \<lparr>tk_id = i, tk_title = take TASK_TITLE (js_trim (collapse_ws title)),
                  tk_description = slice_to TASK_DESCRIPTION (js_trim description),
                  tk_todos = normalizeTodos todos, tk_updated_at = max now (tk_updated_at (read_card d i) + 1)\<rparr>
      in (d\<lparr>sd_tasks := upsert tk_id card (sd_tasks d),
            sd_events := sd_events d @ [(''task:'' @ i, ''task.saved'', card, now)]\<rparr>, card))"

definition delete_card :: "string \<Rightarrow> session_db \<Rightarrow> session_db" where
  "delete_card i d = d\<lparr>sd_tasks := delete_key tk_id i (sd_tasks d)\<rparr>"

section \<open>Reads after writes\<close>

lemma row_of_replace_row [simp]:
  "row_of key k (replace_row key r rows) = (if k = key r then Some r else row_of key k rows)"
  by (simp add: replace_row_def row_of_append split: option.splits)

lemma unique_keys_replace_row [simp]: "unique_keys key rows \<Longrightarrow> unique_keys key (replace_row key r rows)"
  by (auto simp: replace_row_def unique_keys_def delete_key_def distinct_map_filter)

lemma keys_replace_row [simp]: "key ` set (replace_row key r rows) = insert (key r) (key ` set rows)"
  by (auto simp: replace_row_def delete_key_def)

lemma set_newest_first [simp]: "set (newest_by f rows) = set rows"
  by (simp add: newest_by_def)

lemma length_newest_first [simp]: "length (newest_by f rows) = length rows"
  by (simp add: newest_by_def)

lemma mset_newest_first [simp]: "mset (newest_by f rows) = mset rows"
  by (simp add: newest_by_def)

lemma sorted_newest_first: "sorted_wrt (\<lambda>a b. f b \<le> f a) (newest_by f rows)"
  using sorted_sort_stable [of "\<lambda>a b. f b < f a" rows] by (simp add: newest_by_def not_less)

interpretation live_runs: keyed_store get_live_run "\<lambda>d r. register_live_run r d" lr_session "\<lambda>r. r"
  by unfold_locales (auto simp: get_live_run_def register_live_run_def dest: row_of_SomeD)

interpretation open_marks: keyed_store_delete "\<lambda>d i. row_of fst i (sd_open d)" "\<lambda>d p. mark_open (snd p) (fst p) d" fst "\<lambda>p. p"
  "\<lambda>d i. unmark_open i d"
  by unfold_locales (auto simp: mark_open_def unmark_open_def dest: row_of_SomeD)

lemma get_update_session [simp]:
  "get_session (update_session now i p d) j =
     (if j = i \<and> p \<noteq> no_patch then map_option (patch_row now p) (get_session d j) else get_session d j)"
proof -
  have "row_of sr_id j (map (\<lambda>r. if sr_id r = i then patch_row now p r else r) rows) =
      map_option (\<lambda>r. if sr_id r = i then patch_row now p r else r) (row_of sr_id j rows)" for rows
    by (rule row_of_map_keep) (simp add: patch_row_def)
  then show ?thesis
    by (cases "row_of sr_id j (sd_sessions d)") (auto simp: get_session_def update_session_def dest: row_of_SomeD)
qed

lemma get_create_session [simp]:
  "get_session (create_session now i cwd model task title d) j =
     (if j = i then Some (fresh_row now i (case title of Some t \<Rightarrow> t | None \<Rightarrow> fallbackTitle task) cwd model task)
      else get_session d j)"
  by (simp add: get_session_def create_session_def fresh_row_def)

lemma clear_keeps_newer_run:
  "get_live_run d i = Some r \<Longrightarrow> lr_traj_path r \<noteq> traj \<Longrightarrow> get_live_run (clear_live_run i traj d) i = Some r"
proof -
  assume r: "get_live_run d i = Some r" "lr_traj_path r \<noteq> traj"
  have "row_of lr_session i rows = Some r \<Longrightarrow>
      row_of lr_session i (filter (\<lambda>r. \<not> (lr_session r = i \<and> lr_traj_path r = traj)) rows) = Some r" for rows
    using r(2) by (induction rows) (auto split: if_splits)
  with r(1) show ?thesis by (simp add: get_live_run_def clear_live_run_def)
qed

section \<open>Patterns\<close>

declare like.simps(2) [simp del]

lemma like_percent_any:
  "e \<noteq> Some (CHR 0x25) \<Longrightarrow> like e (CHR 0x25 # ps) s \<longleftrightarrow> (\<exists>s1 s2. s = s1 @ s2 \<and> like e ps s2)"
proof (induction s)
  case Nil
  then show ?case by (simp add: like.simps(2))
next
  case (Cons c cs)
  have "(\<exists>s1 s2. c # cs = s1 @ s2 \<and> like e ps s2) \<longleftrightarrow> like e ps (c # cs) \<or> (\<exists>s1 s2. cs = s1 @ s2 \<and> like e ps s2)"
    by (metis append_Cons append_Nil list.exhaust list.inject)
  with Cons show ?case by (simp add: like.simps(2))
qed

lemma like_percent_end: "e \<noteq> Some (CHR 0x25) \<Longrightarrow> like e [CHR 0x25] s"
  by (subst like_percent_any) (auto intro: exI [of _ s])

lemma like_escape_append:
  "like (Some (CHR 0x5C)) (like_escape q @ ps) s \<longleftrightarrow>
     (\<exists>s1 s2. s = s1 @ s2 \<and> map ascii_lower s1 = map ascii_lower q \<and> like (Some (CHR 0x5C)) ps s2)"
proof (induction q arbitrary: s)
  case Nil
  then show ?case by (simp add: like_escape_def)
next
  case (Cons a q)
  have step: "like (Some (CHR 0x5C)) (like_escape (a # q) @ ps) s \<longleftrightarrow>
      (case s of [] \<Rightarrow> False | c # cs \<Rightarrow> ascii_lower a = ascii_lower c \<and> like (Some (CHR 0x5C)) (like_escape q @ ps) cs)"
    by (auto simp: like_escape_def like.simps(2) split: list.splits)
  show ?case
  proof (cases s)
    case Nil
    then show ?thesis unfolding step by simp
  next
    case (Cons c cs)
    have "(\<exists>s1 s2. c # cs = s1 @ s2 \<and> map ascii_lower s1 = map ascii_lower (a # q) \<and> like (Some (CHR 0x5C)) ps s2) \<longleftrightarrow>
        ascii_lower a = ascii_lower c \<and> (\<exists>s1 s2. cs = s1 @ s2 \<and> map ascii_lower s1 = map ascii_lower q \<and> like (Some (CHR 0x5C)) ps s2)"
      (is "?L \<longleftrightarrow> ?R")
    proof
      assume ?L
      then obtain s1 s2 where "c # cs = s1 @ s2" "map ascii_lower s1 = map ascii_lower (a # q)" "like (Some (CHR 0x5C)) ps s2"
        by blast
      then show ?R by (cases s1) auto
    next
      assume ?R
      then obtain s1 s2 where "cs = s1 @ s2" "map ascii_lower s1 = map ascii_lower q" "like (Some (CHR 0x5C)) ps s2"
        "ascii_lower a = ascii_lower c" by blast
      then show ?L by (intro exI [of _ "c # s1"] exI [of _ s2]) simp
    qed
    then show ?thesis unfolding step using Cons Cons.IH by simp
  qed
qed

lemma search_is_substring:
  "like (Some (CHR 0x5C)) (likePattern q) s \<longleftrightarrow> sublist (map ascii_lower q) (map ascii_lower s)"
proof -
  have "like (Some (CHR 0x5C)) (likePattern q) s \<longleftrightarrow>
      (\<exists>s1 s2 s3. s = s1 @ s2 @ s3 \<and> map ascii_lower s2 = map ascii_lower q)"
    unfolding likePattern_def
    by (simp add: like_percent_any like_escape_append like_percent_end) blast
  also have "\<dots> \<longleftrightarrow> sublist (map ascii_lower q) (map ascii_lower s)"
  proof
    assume "sublist (map ascii_lower q) (map ascii_lower s)"
    then obtain ps ss where "map ascii_lower s = ps @ map ascii_lower q @ ss" by (auto simp: sublist_def)
    then obtain s1 s' where 1: "s = s1 @ s'" "map ascii_lower s' = map ascii_lower q @ ss"
      by (metis append_eq_map_conv)
    then obtain s2 s3 where "s' = s2 @ s3" "map ascii_lower s2 = map ascii_lower q"
      by (metis append_eq_map_conv)
    with 1 show "\<exists>s1 s2 s3. s = s1 @ s2 @ s3 \<and> map ascii_lower s2 = map ascii_lower q" by blast
  qed (force simp: sublist_def)
  finally show ?thesis .
qed

lemma escaped_prefix:
  "like (Some (CHR 0x5C)) (like_escape q @ [CHR 0x25]) s \<longleftrightarrow> prefix (map ascii_lower q) (map ascii_lower s)"
proof -
  have "like (Some (CHR 0x5C)) (like_escape q @ [CHR 0x25]) s \<longleftrightarrow>
      (\<exists>s1 s2. s = s1 @ s2 \<and> map ascii_lower s1 = map ascii_lower q)"
    by (simp add: like_escape_append like_percent_end)
  also have "\<dots> \<longleftrightarrow> prefix (map ascii_lower q) (map ascii_lower s)"
    by (metis append_eq_map_conv map_append prefix_def)
  finally show ?thesis .
qed

text \<open>
  C36: The history's search box: the sessions whose title, task or folder contains the text (in either case of its ASCII letters,
  a percent sign or an underscore standing for itself), newest first, no more than asked for.
\<close>

theorem history_finds_substrings:
  "list_history d raw limit cwd =
     (let q = map ascii_lower (js_trim raw); holds = (\<lambda>s. sublist q (map ascii_lower s))
      in map (\<lambda>r. (meta r, resumable r)) (take (nat (at_most 500 50 limit)) (newest_by sr_updated_at
           (filter (\<lambda>r. (holds (sr_title r) \<or> holds (sr_task r) \<or> holds (sr_cwd r)) \<and>
                        (case cwd of None \<Rightarrow> True | Some c \<Rightarrow> sr_cwd r = c)) (sd_sessions d)))))"
proof -
  have eq: "(js_trim raw = [] \<or> like (Some (CHR 0x5C)) (likePattern (js_trim raw)) (sr_title r) \<or>
         like (Some (CHR 0x5C)) (likePattern (js_trim raw)) (sr_task r) \<or>
         like (Some (CHR 0x5C)) (likePattern (js_trim raw)) (sr_cwd r)) \<and>
        (case cwd of None \<Rightarrow> True | Some c \<Rightarrow> sr_cwd r = c) \<longleftrightarrow>
      (sublist (map ascii_lower (js_trim raw)) (map ascii_lower (sr_title r)) \<or>
       sublist (map ascii_lower (js_trim raw)) (map ascii_lower (sr_task r)) \<or>
       sublist (map ascii_lower (js_trim raw)) (map ascii_lower (sr_cwd r))) \<and>
        (case cwd of None \<Rightarrow> True | Some c \<Rightarrow> sr_cwd r = c)" for r
    by (cases cwd) (auto simp: search_is_substring)
  show ?thesis by (simp only: list_history_def Let_def eq)
qed

text \<open>
  A session is found by its identifier, or by a prefix of it (in either case) that no other session has; a prefix that two
  sessions share is an error and never one of them.
\<close>

theorem find_session_is_unambiguous:
  assumes "unique_keys sr_id (sd_sessions d)"
  shows "find_session d q =
    (let hits = filter (\<lambda>r. prefix (map ascii_lower q) (map ascii_lower (sr_id r))) (sd_sessions d)
     in if get_session d q \<noteq> None then Inr (get_session d q)
        else if length hits \<le> 1 then Inr (case hits of [] \<Rightarrow> None | r # _ \<Rightarrow> Some r)
        else Inl (''session id prefix \"'' @ q @ ''\" is ambiguous''))"
proof (cases "get_session d q")
  case (Some r)
  then show ?thesis by (simp add: find_session_def)
next
  case None
  define hits where "hits = filter (\<lambda>r. prefix (map ascii_lower q) (map ascii_lower (sr_id r))) (sd_sessions d)"
  let ?s = "newest_by sr_updated_at hits"
  have eq: "filter (\<lambda>r. like (Some (CHR 0x5C)) (like_escape q @ [CHR 0x25]) (sr_id r)) (sd_sessions d) = hits"
    by (simp add: hits_def escaped_prefix)
  have found: "get_session d (sr_id r) = Some r" if "r \<in> set hits" for r
    using that assms(1) by (auto simp: hits_def get_session_def row_of_eq_Some_iff)
  consider "hits = []" | r where "hits = [r]" | r s rs where "hits = r # s # rs"
    by (metis list.exhaust)
  then show ?thesis
  proof cases
    case 1
    then show ?thesis using None by (simp add: find_session_def eq newest_by_def flip: hits_def)
  next
    case (2 r)
    then show ?thesis using None found by (simp add: find_session_def eq newest_by_def flip: hits_def)
  next
    case (3 r s rs)
    then have "length ?s = Suc (Suc (length rs))" by simp
    then obtain a b t where "?s = a # b # t" by (metis Suc_length_conv)
    with 3 None show ?thesis by (simp add: find_session_def eq numeral_2_eq_2 flip: hits_def)
  qed
qed

section \<open>Listings\<close>

text \<open>
  The pages of a listing, one after the other, are the sessions of the folder that match, each once and newest first.
\<close>

lemma concat_pages: "concat (map (\<lambda>p. take n (drop (p * n) xs)) [0..<k]) = take (k * n) xs"
proof (induction k)
  case (Suc k)
  have "take (Suc k * n) xs = take (k * n) xs @ take n (drop (k * n) xs)"
    by (metis add.commute mult_Suc take_add)
  with Suc show ?case by simp
qed simp

theorem pages_cover_the_folder:
  assumes "count_sessions d cwd q \<le> n * PAGE_SIZE"
  shows "concat (map (list_sessions d cwd q) [0..<n]) =
           map meta (newest_by sr_updated_at (filter (\<lambda>r. sr_cwd r = cwd \<and> title_like q r) (sd_sessions d)))"
proof -
  let ?xs = "newest_by sr_updated_at (filter (\<lambda>r. sr_cwd r = cwd \<and> title_like q r) (sd_sessions d))"
  have "concat (map (list_sessions d cwd q) [0..<n]) = map meta (concat (map (\<lambda>p. take PAGE_SIZE (drop (p * PAGE_SIZE) ?xs)) [0..<n]))"
    by (simp add: map_concat comp_def list_sessions_def [abs_def])
  also have "\<dots> = map meta ?xs" using assms by (simp add: concat_pages count_sessions_def)
  finally show ?thesis .
qed

lemma set_folders: "fs_cwd ` set (map (folder_of rows) cs) = set cs"
  by (auto simp: folder_of_def Let_def image_iff)

section \<open>Notes\<close>

text \<open>The writers of the notes, one after the other.\<close>

record note_save =
  ns_now :: int
  ns_id :: string
  ns_body :: string
  ns_base :: "int option"

definition note_step :: "note_save \<Rightarrow> session_db \<Rightarrow> session_db" where
  "note_step s d = fst (save_note (ns_now s) (ns_id s) (ns_body s) (ns_base s) d)"

lemma get_note_save:
  "get_note (fst (save_note now i body base d)) j =
     (if j = i \<and> (base = None \<or> base = Some (nr_updated_at (get_note d i)))
      then (if body = [] then \<lparr>nr_session = i, nr_body = [], nr_updated_at = 0\<rparr>
            else \<lparr>nr_session = i, nr_body = body, nr_updated_at = max now (nr_updated_at (get_note d i) + 1)\<rparr>)
      else get_note d j)"
  by (auto simp: save_note_def get_note_def Let_def)

lemma note_versions_grow:
  "list_all (\<lambda>s. ns_id s = i \<longrightarrow> ns_body s \<noteq> []) ss \<Longrightarrow>
     get_note (fold note_step ss d) i = get_note d i \<or> nr_updated_at (get_note d i) < nr_updated_at (get_note (fold note_step ss d) i)"
proof (induction ss arbitrary: d)
  case (Cons s ss)
  have "get_note (note_step s d) i = get_note d i \<or> nr_updated_at (get_note d i) < nr_updated_at (get_note (note_step s d) i)"
    using Cons.prems by (auto simp: note_step_def get_note_save)
  with Cons.IH [of "note_step s d"] Cons.prems show ?case by force
qed simp

text \<open>Only the empty note has version 0.\<close>

definition versioned :: "string \<Rightarrow> session_note \<Rightarrow> bool" where
  "versioned i n \<longleftrightarrow> n = \<lparr>nr_session = i, nr_body = [], nr_updated_at = 0\<rparr> \<or> 0 < nr_updated_at n"

lemma versioned_step: "versioned i (get_note d i) \<Longrightarrow> versioned i (get_note (note_step s d) i)"
  by (auto simp: note_step_def get_note_save versioned_def)

lemma versioned_steps: "versioned i (get_note d i) \<Longrightarrow> versioned i (get_note (fold note_step ss d) i)"
  by (induction ss arbitrary: d) (simp_all add: versioned_step)

lemma note_versions_differ:
  assumes "list_all (\<lambda>s. nr_updated_at n < ns_now s) ss" "versioned i n" "get_note d i = n \<or> nr_updated_at (get_note d i) \<noteq> nr_updated_at n"
  shows "get_note (fold note_step ss d) i = n \<or> nr_updated_at (get_note (fold note_step ss d) i) \<noteq> nr_updated_at n"
  using assms(1,3)
proof (induction ss arbitrary: d)
  case (Cons s ss)
  have "get_note (note_step s d) i = n \<or> nr_updated_at (get_note (note_step s d) i) \<noteq> nr_updated_at n"
    using Cons.prems assms(2) by (auto simp: note_step_def get_note_save versioned_def)
  with Cons show ?case by simp
qed simp

text \<open>
  C37: A save that names the version its editor started from overwrites nothing that the editor did not see.  Whatever was
  saved before the editor loaded the note and whatever other editors saved meanwhile, when it is accepted, the note it
  replaces is the one the editor loaded; and when it is refused, nothing is written and another note is returned.  Of the
  saves meanwhile either none empties this note, or the clock stands later at each of them than the version that was loaded.
\<close>

theorem note_save_replaces_what_was_read:
  assumes "d = fold note_step before empty_db"
    and "list_all (\<lambda>s. ns_id s = i \<longrightarrow> ns_body s \<noteq> []) ss \<or> list_all (\<lambda>s. nr_updated_at (get_note d i) < ns_now s) ss"
  shows "let d' = fold note_step ss d
         in case save_note now i body (Some (nr_updated_at (get_note d i))) d' of
              (d'', Inr n) \<Rightarrow> get_note d' i = get_note d i \<and> nr_body n = body \<and> get_note d'' i = n
            | (d'', Inl n) \<Rightarrow> d'' = d' \<and> n = get_note d' i \<and> nr_updated_at n \<noteq> nr_updated_at (get_note d i)"
proof -
  have "versioned i (get_note d i)"
    unfolding assms(1) by (rule versioned_steps) (simp add: versioned_def get_note_def empty_db_def)
  with assms(2) have kept: "get_note (fold note_step ss d) i = get_note d i \<or>
      nr_updated_at (get_note (fold note_step ss d) i) \<noteq> nr_updated_at (get_note d i)"
    using note_versions_grow [of i ss d] note_versions_differ [of "get_note d i" ss i d] by auto
  show ?thesis
  proof (cases "nr_updated_at (get_note (fold note_step ss d) i) = nr_updated_at (get_note d i)")
    case True
    with kept get_note_save [of now i body "Some (nr_updated_at (get_note d i))" "fold note_step ss d" i] show ?thesis
      by (auto simp: save_note_def Let_def)
  qed (auto simp: save_note_def Let_def)
qed

lemma note_save_replaces_what_was_read_witness:
  "case save_note 9 ''a'' ''mine'' (Some 4)
       (fold note_step [\<lparr>ns_now = 5, ns_id = ''a'', ns_body = [], ns_base = None\<rparr>, \<lparr>ns_now = 5, ns_id = ''a'', ns_body = ''theirs'', ns_base = Some 0\<rparr>]
         (fold note_step [\<lparr>ns_now = 4, ns_id = ''a'', ns_body = ''first'', ns_base = None\<rparr>] empty_db)) of
     (d'', Inr n) \<Rightarrow> False
   | (d'', Inl n) \<Rightarrow> nr_body n = ''theirs'' \<and> nr_updated_at n = 5"
proof -
  let ?d = "fold note_step [\<lparr>ns_now = 4, ns_id = ''a'', ns_body = ''first'', ns_base = None\<rparr>] empty_db"
  let ?ss = "[\<lparr>ns_now = 5, ns_id = ''a'', ns_body = [], ns_base = None\<rparr>, \<lparr>ns_now = 5, ns_id = ''a'', ns_body = ''theirs'', ns_base = Some 0\<rparr>]"
  have v: "nr_updated_at (get_note ?d ''a'') = 4" by code_simp
  then have "list_all (\<lambda>s. nr_updated_at (get_note ?d ''a'') < ns_now s) ?ss" by simp
  from note_save_replaces_what_was_read [OF refl disjI2 [OF this], where now = 9 and body = "''mine''", unfolded v Let_def]
  have "\<And>d'' n. save_note 9 ''a'' ''mine'' (Some 4) (fold note_step ?ss ?d) = (d'', Inr n) \<Longrightarrow> get_note (fold note_step ?ss ?d) ''a'' = get_note ?d ''a''"
    "\<And>d'' n. save_note 9 ''a'' ''mine'' (Some 4) (fold note_step ?ss ?d) = (d'', Inl n) \<Longrightarrow> n = get_note (fold note_step ?ss ?d) ''a''"
    by simp_all
  moreover have "get_note (fold note_step ?ss ?d) ''a'' = \<lparr>nr_session = ''a'', nr_body = ''theirs'', nr_updated_at = 5\<rparr>"
    "get_note ?d ''a'' = \<lparr>nr_session = ''a'', nr_body = ''first'', nr_updated_at = 4\<rparr>" by code_simp+
  ultimately show ?thesis by (auto split: prod.split sum.split)
qed

text \<open>
  A note that was emptied starts again at version 0, so a version can come back: a note saved, emptied and saved again
  within one reading of the clock has the version of the first, and an editor of the first overwrites the second.
\<close>

lemma emptied_note_reuses_a_version:
  "let d = fold note_step [\<lparr>ns_now = 7, ns_id = ''a'', ns_body = ''one'', ns_base = None\<rparr>] empty_db;
       d' = fold note_step [\<lparr>ns_now = 7, ns_id = ''a'', ns_body = [], ns_base = None\<rparr>,
                            \<lparr>ns_now = 7, ns_id = ''a'', ns_body = ''two'', ns_base = Some 0\<rparr>] d
   in nr_body (get_note d' ''a'') = ''two'' \<and>
      snd (save_note 8 ''a'' ''three'' (Some (nr_updated_at (get_note d ''a''))) d') =
        Inr \<lparr>nr_session = ''a'', nr_body = ''three'', nr_updated_at = 8\<rparr>"
  by code_simp

section \<open>Task cards\<close>

text \<open>White space collapsed: every white space character is a blank, and no two are neighbours.\<close>

fun squashed :: "string \<Rightarrow> bool" where
  "squashed [] = True"
| "squashed (x # xs) \<longleftrightarrow> (js_ws x \<longrightarrow> x = CHR '' '' \<and> (case xs of [] \<Rightarrow> True | y # _ \<Rightarrow> \<not> js_ws y)) \<and> squashed xs"

lemma js_ws_blank [simp]: "js_ws CHR '' ''" by (simp add: js_ws_def)

lemma squashed_collapse: "squashed (collapse_ws s)"
proof (induction s rule: collapse_ws.induct)
  case (2 x xs)
  have "case collapse_ws (dropWhile js_ws xs) of [] \<Rightarrow> True | y # _ \<Rightarrow> \<not> js_ws y"
  proof (cases "dropWhile js_ws xs")
    case (Cons y ys)
    then have "\<not> js_ws y" by (metis hd_dropWhile list.distinct(1) list.sel(1))
    with Cons show ?thesis by simp
  next
    case Nil
    then show ?thesis by (simp only: collapse_ws.simps list.case)
  qed
  with 2 show ?case by auto
qed simp

lemma collapse_squashed: "squashed s \<Longrightarrow> collapse_ws s = s"
proof (induction s rule: collapse_ws.induct)
  case (2 x xs)
  then have "js_ws x \<Longrightarrow> dropWhile js_ws xs = xs" by (cases xs) auto
  with 2 show ?case by auto
qed simp

lemma squashed_drop: "squashed s \<Longrightarrow> squashed (drop n s)"
proof (induction s arbitrary: n)
  case (Cons x xs)
  then show ?case by (cases n) auto
qed simp

lemma squashed_take: "squashed s \<Longrightarrow> squashed (take n s)"
proof (induction s arbitrary: n)
  case (Cons x xs)
  then show ?case by (cases n; cases xs) (auto simp: take_Cons split: nat.splits)
qed simp

lemma trim_start_drop: "\<exists>n. trim_start s = drop n s"
  by (metis dropWhile_eq_drop trim_start_def)

lemma trim_end_take: "\<exists>n. trim_end s = take n s"
proof -
  obtain n where "dropWhile js_ws (rev s) = drop n (rev s)" by (metis dropWhile_eq_drop)
  then have "trim_end s = take (length s - n) s" by (simp add: trim_end_def drop_rev)
  then show ?thesis ..
qed

lemma squashed_trim: "squashed s \<Longrightarrow> squashed (js_trim s)"
  by (metis js_trim_def squashed_drop squashed_take trim_end_take trim_start_drop)

lemma trim_start_id: "trim_start s = s \<longleftrightarrow> (case s of [] \<Rightarrow> True | c # _ \<Rightarrow> \<not> js_ws c)"
  by (cases s) (auto simp: trim_start_def, metis dropWhile.simps(2) length_dropWhile_le length_Cons not_less_eq_eq)

lemma trim_start_trim_start [simp]: "trim_start (trim_start s) = trim_start s"
  by (simp add: trim_start_def)

lemma trim_end_trim_end [simp]: "trim_end (trim_end s) = trim_end s"
  by (simp add: trim_end_def)

lemma trim_start_prefix: "trim_start s = s \<Longrightarrow> trim_start (take n s) = take n s"
  by (cases s; cases n) (auto simp: trim_start_id)

lemma js_trim_start [simp]: "trim_start (js_trim s) = js_trim s"
  by (metis js_trim_def trim_end_take trim_start_prefix trim_start_trim_start)

lemma js_trim_idem [simp]: "js_trim (js_trim s) = js_trim s"
  by (metis js_trim_def js_trim_start trim_end_trim_end)

lemma todo_text_stable:
  assumes "squashed s" "trim_start s = s" "trim_end s = s" "length s \<le> TASK_ITEM" "s \<noteq> []"
  shows "todo_text (JStr s) = Some s"
  using assms by (simp add: collapse_squashed js_trim_def)

lemma todo_text_again:
  assumes "todo_text v = Some t"
  shows "\<exists>u. todo_text (JStr t) = Some u \<and> todo_text (JStr u) = Some u"
proof -
  from assms obtain s where s: "t = take TASK_ITEM (js_trim (collapse_ws s))" "t \<noteq> []"
    by (cases v) (auto simp: Let_def split: if_splits)
  then have t: "squashed t" "trim_start t = t" "length t \<le> TASK_ITEM"
    by (auto simp: squashed_take squashed_trim squashed_collapse trim_start_prefix)
  let ?u = "trim_end t"
  obtain n where n: "?u = take n t" using trim_end_take by blast
  have "?u \<noteq> []"
  proof
    assume "?u = []"
    then have "\<forall>c \<in> set t. js_ws c" by (simp add: trim_end_def dropWhile_eq_Nil_conv)
    with t(2) s(2) show False by (cases t) (auto simp: trim_start_id)
  qed
  moreover have "squashed ?u" "trim_start ?u = ?u" "length ?u \<le> TASK_ITEM"
    using t n by (auto simp: squashed_take trim_start_prefix min_le_iff_disj)
  ultimately have "todo_text (JStr ?u) = Some ?u" by (intro todo_text_stable) auto
  moreover have "todo_text (JStr t) = Some ?u"
    using t \<open>?u \<noteq> []\<close> \<open>length ?u \<le> TASK_ITEM\<close> by (simp add: collapse_squashed js_trim_def)
  ultimately show ?thesis by blast
qed

lemma todo_text_bounded: "todo_text v = Some t \<Longrightarrow> t \<noteq> [] \<and> length t \<le> TASK_ITEM"
  by (cases v) (auto simp: Let_def split: if_splits)

lemma map_filter_total: "(\<And>x. x \<in> set xs \<Longrightarrow> f x = Some (g x)) \<Longrightarrow> List.map_filter f xs = map g xs"
  by (induction xs) (auto simp: List.map_filter_simps)

lemma todo_list_items:
  assumes "t \<in> set (todo_list v)"
  obtains w where "todo_text w = Some t"
  using assms by (auto simp: todo_list_def List.map_filter_def dest!: in_set_takeD)

lemma length_todo_list: "length (todo_list v) \<le> TASK_ITEMS"
  by (simp add: todo_list_def)

text \<open>A bucket that is read back: every item is trimmed once more, and from then on nothing changes.\<close>

definition stable_item :: "string \<Rightarrow> bool" where
  "stable_item t \<longleftrightarrow> todo_text (JStr t) = Some t"

lemma todo_list_settled:
  assumes "\<forall>t \<in> set ts. stable_item t" "length ts \<le> TASK_ITEMS"
  shows "todo_list (JArr (map JStr ts)) = ts"
proof -
  have "List.map_filter todo_text (map JStr ts) = ts"
    using assms(1) by (induction ts) (auto simp: List.map_filter_simps stable_item_def)
  with assms(2) show ?thesis by (simp add: todo_list_def)
qed

lemma todo_list_read_back:
  "(\<forall>t \<in> set (todo_list (JArr (map JStr (todo_list v)))). stable_item t) \<and>
   length (todo_list (JArr (map JStr (todo_list v)))) = length (todo_list v)"
proof -
  have ex: "\<exists>u. todo_text (JStr t) = Some u \<and> stable_item u" if t: "t \<in> set (todo_list v)" for t
  proof -
    from t obtain w where "todo_text w = Some t" by (rule todo_list_items)
    from todo_text_again [OF this] show ?thesis by (auto simp: stable_item_def)
  qed
  have "List.map_filter todo_text (map JStr (todo_list v)) = map (\<lambda>t. the (todo_text (JStr t))) (todo_list v)"
  proof -
    have "List.map_filter todo_text (map JStr ts) = map (\<lambda>t. the (todo_text (JStr t))) ts" if "set ts \<subseteq> set (todo_list v)" for ts
      using that ex by (induction ts) (fastforce simp: List.map_filter_simps)+
    then show ?thesis by simp
  qed
  then have eq: "todo_list (JArr (map JStr (todo_list v))) = map (\<lambda>t. the (todo_text (JStr t))) (todo_list v)"
    using length_todo_list [of v] by (simp add: todo_list_def)
  show ?thesis using ex unfolding eq by fastforce
qed

definition stable_todos :: "todos \<Rightarrow> bool" where
  "stable_todos t \<longleftrightarrow>
     (\<forall>ts \<in> {td_done t, td_pending t, td_left t}. (\<forall>s \<in> set ts. stable_item s) \<and> length ts \<le> TASK_ITEMS)"

lemma normalize_fields [simp]:
  "td_done (normalizeTodos (todos_js t)) = todo_list (JArr (map JStr (td_done t)))"
  "td_pending (normalizeTodos (todos_js t)) = todo_list (JArr (map JStr (td_pending t)))"
  "td_left (normalizeTodos (todos_js t)) = todo_list (JArr (map JStr (td_left t)))"
  by (simp_all add: normalizeTodos_def todos_js_def)

lemma stable_todos_stable: "stable_todos t \<Longrightarrow> normalizeTodos (todos_js t) = t"
  by (simp add: stable_todos_def todo_list_settled)

lemma settled_again: "stable_todos (normalizeTodos (todos_js (normalizeTodos v)))"
  using todo_list_read_back [of "js_field ''done'' v"] todo_list_read_back [of "js_field ''pending'' v"]
    todo_list_read_back [of "js_field ''left'' v"] length_todo_list
  by (simp add: stable_todos_def) (simp add: normalizeTodos_def)

definition card_bounded :: "task_card \<Rightarrow> bool" where
  "card_bounded c \<longleftrightarrow> length (tk_title c) \<le> TASK_TITLE \<and> int (length (tk_description c)) \<le> TASK_DESCRIPTION \<and>
     (\<forall>ts \<in> {td_done (tk_todos c), td_pending (tk_todos c), td_left (tk_todos c)}.
        length ts \<le> TASK_ITEMS \<and> (\<forall>t \<in> set ts. t \<noteq> [] \<and> length t \<le> TASK_ITEM))"

lemma todo_list_bounded: "length (todo_list v) \<le> TASK_ITEMS \<and> (\<forall>t \<in> set (todo_list v). t \<noteq> [] \<and> length t \<le> TASK_ITEM)"
  by (metis length_todo_list todo_list_items todo_text_bounded)

lemma normalize_bounded:
  "length (tk_title c) \<le> TASK_TITLE \<Longrightarrow> int (length (tk_description c)) \<le> TASK_DESCRIPTION \<Longrightarrow>
     tk_todos c = normalizeTodos v \<Longrightarrow> card_bounded c"
  using todo_list_bounded by (simp add: card_bounded_def normalizeTodos_def)

lemma get_save_task:
  "read_card (fst (save_card now i title description todos d)) j =
     (if j = i then row_to_task (snd (save_card now i title description todos d)) else read_card d j)"
  by (simp add: read_card_def save_card_def Let_def)

text \<open>
  A card is replaced whole: after a save it holds what the save gave, cut to the limits, with a larger version than any
  card before it whatever the clock says; no other card changes; the board shows it; and what is read back is stable, so
  writing a card as it was read changes nothing but its version.
\<close>

theorem card_is_replaced_whole:
  "let (d', card) = save_card now i title description todos d; c = read_card d' i in
     card_bounded card \<and> card_bounded c \<and> tk_updated_at (read_card d i) < tk_updated_at c \<and> now \<le> tk_updated_at c \<and>
     c = card\<lparr>tk_todos := tk_todos c\<rparr> \<and> row_to_task c = c \<and> c \<in> set (read_cards d') \<and>
     (\<lambda>j. read_card d' j) = (\<lambda>j. read_card d j)(i := c)"
proof -
  obtain d' card where s: "save_card now i title description todos d = (d', card)" by (metis surj_pair)
  let ?c = "read_card d' i"
  have c: "?c = row_to_task card" and other: "j \<noteq> i \<Longrightarrow> read_card d' j = read_card d j" for j
    using get_save_task [of now i title description todos d] s by auto
  have fields: "length (tk_title card) \<le> TASK_TITLE" "int (length (tk_description card)) \<le> TASK_DESCRIPTION"
    "tk_todos card = normalizeTodos todos" "tk_updated_at card = max now (tk_updated_at (read_card d i) + 1)" "tk_id card = i"
    and tasks: "sd_tasks d' = upsert tk_id card (sd_tasks d)"
    using s length_slice_to [of TASK_DESCRIPTION "js_trim description"]
    by (auto simp: save_card_def Let_def TASK_DESCRIPTION_def)
  have b: "card_bounded card" "card_bounded ?c"
    by (rule normalize_bounded [OF fields(1-3)],
        rule normalize_bounded [where v = "todos_js (tk_todos card)"], use fields c in \<open>auto simp: row_to_task_def\<close>)
  have "row_to_task ?c = ?c"
    using stable_todos_stable [OF settled_again [of todos]] by (simp add: c row_to_task_def fields)
  moreover have "row_of tk_id i (sd_tasks d') = Some card" by (simp add: tasks fields(5))
  then have "card \<in> set (sd_tasks d')" by (auto dest: row_of_SomeD)
  then have "?c \<in> set (read_cards d')" by (auto simp: read_cards_def c)
  moreover have "(\<lambda>j. read_card d' j) = (\<lambda>j. read_card d j)(i := ?c)" using other by auto
  moreover have "?c = card\<lparr>tk_todos := tk_todos ?c\<rparr>" "tk_updated_at ?c = tk_updated_at card" by (simp_all add: c row_to_task_def)
  moreover have "tk_updated_at (read_card d i) < tk_updated_at card" "now \<le> tk_updated_at card" using fields(4) by auto
  ultimately show ?thesis unfolding s Let_def prod.case using b by metis
qed

text \<open>An item that is cut after a blank is stored with the blank and read without it.\<close>

lemma saved_card_reads_differently:
  "let (d', card) = save_card 1 ''a'' [] [] (JObj [(''left'', JArr [JStr (replicate 299 CHR ''x'' @ '' y'')])]) empty_db
   in td_left (tk_todos card) = [replicate 299 CHR ''x'' @ '' ''] \<and>
      td_left (tk_todos (read_card d' ''a'')) = [replicate 299 CHR ''x'']"
  by code_simp

end
