(* ===== verification/Prompts.thy ===== *)
theory Prompts
  imports Regex
begin

text \<open>
  What a prompt becomes on its way to the agent and what the transcript shows of it again: the references \<open>$name\<close> to
  skills (src/skillMatch.ts), the block of their instructions and its removal (src/skills.ts), the block of attached files
  (src/web/attachments.ts), and the harness' wrapper around a task (\<open>cleanTaskText\<close> of src/traj/parse.ts).  The skills
  that are installed are an argument: names with the path and the text of the file.
\<close>

section \<open>Searching for a text\<close>

text \<open>\<open>s.indexOf(p)\<close>.\<close>

fun find_sub :: "string \<Rightarrow> string \<Rightarrow> nat option" where
  "find_sub p s = (if prefix p s then Some 0 else (case s of [] \<Rightarrow> None | c # cs \<Rightarrow> map_option Suc (find_sub p cs)))"

declare find_sub.simps [simp del]

text \<open>\<open>s.replace(p, "")\<close> for a text \<open>p\<close>.\<close>

definition remove_first :: "string \<Rightarrow> string \<Rightarrow> string" where
  "remove_first p s = (case find_sub p s of None \<Rightarrow> s | Some i \<Rightarrow> take i s @ drop (i + length p) s)"

definition alpha :: "char \<Rightarrow> bool" where
  "alpha c \<longleftrightarrow> is_lower_az c \<or> is_upper_az c"

definition name_char :: "char \<Rightarrow> bool" where
  "name_char c \<longleftrightarrow> word_char c \<or> c = CHR ''.'' \<or> c = CHR ''-''"

definition opens_token :: "char \<Rightarrow> bool" where
  "opens_token c \<longleftrightarrow> js_ws c \<or> c \<in> set ''([{'' \<or> c = CHR 0x22 \<or> c = CHR 0x27 \<or> c = CHR 0x60 \<or> c = CHR '','' \<or> c = CHR '';''"

text \<open>The name that starts here: the longest run of name characters, less the dots and dashes at its end.\<close>

definition skill_name :: "string \<Rightarrow> string option" where
  "skill_name s = (case s of [] \<Rightarrow> None
     | c # _ \<Rightarrow> (if alpha c then Some (rev (dropWhile (\<lambda>x. \<not> word_char x) (rev (takeWhile name_char s)))) else None))"

definition token_at :: "string \<Rightarrow> string option" where
  "token_at s = (case s of c # r \<Rightarrow> (if c = CHR ''$'' then skill_name r else None) | [] \<Rightarrow> None)"

record skill_ref =
  rf_name :: string
  rf_start :: nat
  rf_end :: nat

text \<open>The global search: \<open>i\<close> is the offset of \<open>s\<close> in the text.\<close>

function (sequential) refs_from :: "nat \<Rightarrow> string \<Rightarrow> skill_ref list" where
  "refs_from i [] = []"
| "refs_from i (c # s) =
     (if i = 0 \<and> token_at (c # s) \<noteq> None then
        (let n = the (token_at (c # s))
         in \<lparr>rf_name = n, rf_start = i, rf_end = i + 1 + length n\<rparr> # refs_from (i + 1 + length n) (drop (length n) s))
      else if opens_token c \<and> token_at s \<noteq> None then
        (let n = the (token_at s)
         in \<lparr>rf_name = n, rf_start = i + 1, rf_end = i + 2 + length n\<rparr> # refs_from (i + 2 + length n) (drop (1 + length n) s))
      else refs_from (i + 1) s)"
  by pat_completeness auto
termination by (relation "measure (\<lambda>(i, s). length s)") auto

declare refs_from.simps(2) [simp del]

definition findSkillRefs :: "(string \<Rightarrow> bool) \<Rightarrow> string \<Rightarrow> skill_ref list" where
  "findSkillRefs known text = filter (\<lambda>r. known (rf_name r)) (refs_from 0 text)"

section \<open>Matching a query\<close>

fun camel_split :: "string \<Rightarrow> string" where
  "camel_split (x # y # r) =
     (if (is_lower_az x \<or> is_digit x) \<and> is_upper_az y then x # CHR '' '' # y # camel_split r else x # camel_split (y # r))"
| "camel_split s = s"

definition word_break :: "char \<Rightarrow> bool" where
  "word_break c \<longleftrightarrow> js_ws c \<or> c = CHR ''.'' \<or> c = CHR ''_'' \<or> c = CHR ''-''"

definition nameWords :: "string \<Rightarrow> string list" where
  "nameWords t = filter (\<lambda>w. w \<noteq> []) (split_runs word_break (js_lower (camel_split t)))"

fun isSubsequence :: "string \<Rightarrow> string \<Rightarrow> bool" where
  "isSubsequence [] hay = True"
| "isSubsequence (n # ns) [] = False"
| "isSubsequence (n # ns) (h # hs) = (if h = n then isSubsequence ns hs else isSubsequence (n # ns) hs)"

definition DETAIL_MIN :: nat where "DETAIL_MIN = 3"

text \<open>\<open>\b\<close> before the query, the query itself without meaning of its own.\<close>

definition skillMatchRank :: "string \<Rightarrow> string \<Rightarrow> string option \<Rightarrow> nat option" where
  "skillMatchRank query name detail =
     (let q0 = js_lower (js_trim query);
          q = (case q0 of c # r \<Rightarrow> (if c = CHR ''$'' then r else q0) | [] \<Rightarrow> []);
          n = js_lower name; ws = nameWords name; terms = nameWords q;
          joined = filter (\<lambda>c. \<not> word_break c) n; d = js_lower (case detail of None \<Rightarrow> [] | Some x \<Rightarrow> x)
      in if q = [] then Some 0
         else if prefix q n then Some 0
         else if list_ex (prefix q) ws then Some 1
         else if sublist q n then Some 2
         else if terms \<noteq> [] \<and> list_all (\<lambda>t. sublist t n) terms then Some 3
         else if terms \<noteq> [] \<and> list_all (\<lambda>t. list_ex (isSubsequence t) ws \<or> isSubsequence t joined) terms then Some 4
         else if length q < DETAIL_MIN then None
         else if d = [] then None
         else if re_test (Seq Boundary (lit q)) d then Some 5
         else if sublist q d then Some 6
         else None)"

definition filterSkills :: "string \<Rightarrow> 'a list \<Rightarrow> ('a \<Rightarrow> string) \<Rightarrow> ('a \<Rightarrow> string option) \<Rightarrow> 'a list" where
  "filterSkills query items nameOf detailOf =
     map snd (sort_stable (\<lambda>a b. fst a < fst b)
       (List.map_filter (\<lambda>x. map_option (\<lambda>r. (r, x)) (skillMatchRank query (nameOf x) (detailOf x))) items))"

text \<open>The query that is being typed before the cursor: the token from the last \<open>$\<close> that can start one.\<close>

definition skillQueryAt :: "string \<Rightarrow> nat \<Rightarrow> (nat \<times> string) option" where
  "skillQueryAt text cursor =
     (let before = take cursor text; q = rev (takeWhile name_char (rev before));
          head = take (length before - length q) before
      in case rev head of
           [] \<Rightarrow> None
         | c # r \<Rightarrow> (if c = CHR ''$'' \<and> (case r of [] \<Rightarrow> True | o' # _ \<Rightarrow> opens_token o') then Some (length head - 1, q) else None))"

definition insertSkill :: "string \<Rightarrow> nat \<Rightarrow> string \<Rightarrow> string \<times> nat" where
  "insertSkill text cursor name =
     (let start = (case skillQueryAt text cursor of Some (s, _) \<Rightarrow> s | None \<Rightarrow> cursor);
          rest = dropWhile name_char (drop cursor text);
          token = CHR ''$'' # name;
          glue = (if prefix '' '' rest then [] else '' '')
      in (take start text @ token @ glue @ rest, start + length token + 1))"

section \<open>Expanding a prompt\<close>

text \<open>An installed skill: its name, the path of its file and the text of the file.\<close>

type_synonym skill_file = "string \<times> string \<times> string"

definition SKILLS_OPEN :: string where "SKILLS_OPEN = ''<skills>'' @ nl"
definition SKILLS_CLOSE :: string where "SKILLS_CLOSE = nl @ ''</skills>'' @ nl @ nl"

definition REQUEST_HEADER :: string where
  "REQUEST_HEADER = ''Follow the skills above where the request references them ($name):'' @ nl"

definition skill_block :: "skill_file \<Rightarrow> string" where
  "skill_block k = (case k of (name, path, body) \<Rightarrow>
     ''<skill name=\"'' @ name @ ''\" path=\"'' @ path @ ''\">'' @ nl @ js_trim body @ nl @ ''</skill>'')"

definition skill_of :: "skill_file list \<Rightarrow> string \<Rightarrow> skill_file option" where
  "skill_of installed n = find (\<lambda>k. fst k = n) installed"

definition first_seen :: "'a list \<Rightarrow> 'a list" where
  "first_seen xs = rev (remdups (rev xs))"

definition used_skills :: "skill_file list \<Rightarrow> string \<Rightarrow> string list" where
  "used_skills installed text = first_seen (filter (\<lambda>n. skill_of installed n \<noteq> None) (map rf_name (refs_from 0 text)))"

definition missing_skills :: "skill_file list \<Rightarrow> string \<Rightarrow> string list" where
  "missing_skills installed text = first_seen (filter (\<lambda>n. skill_of installed n = None) (map rf_name (refs_from 0 text)))"

definition skill_blocks :: "skill_file list \<Rightarrow> string \<Rightarrow> string" where
  "skill_blocks installed text =
     join (nl @ nl) (map (\<lambda>n. skill_block (the (skill_of installed n))) (used_skills installed text))"

definition expandSkills :: "skill_file list \<Rightarrow> string \<Rightarrow> string" where
  "expandSkills installed text =
     (if used_skills installed text = [] then text
      else SKILLS_OPEN @ skill_blocks installed text @ SKILLS_CLOSE @ REQUEST_HEADER @ text)"

record upload =
  am_id :: string
  am_name :: string
  am_mime :: string
  am_size :: nat
  am_path :: string
  am_url :: string

definition ATT_OPEN :: string where "ATT_OPEN = ''<attachments>'' @ nl"
definition ATT_CLOSE :: string where "ATT_CLOSE = nl @ ''</attachments>''"

definition attachmentAgentBlock :: "upload list \<Rightarrow> string" where
  "attachmentAgentBlock atts = ATT_OPEN @
     join nl (map (\<lambda>a. ''- '' @ am_name a @ '' '' @ em_dash @ '' '' @ am_mime a @ '', '' @ show_nat (am_size a) @ '' bytes '' @ em_dash @
       '' guardado en '' @ am_path a @ '' (el navegador lo descarga de '' @ am_url a @ '')'') atts) @ ATT_CLOSE"

definition is_image :: "upload \<Rightarrow> bool" where
  "is_image a \<longleftrightarrow> prefix ''image/'' (am_mime a)"

text \<open>The dot between two links (U+00B7) is one of the characters of the range.\<close>

definition attachmentLinksLine :: "upload list \<Rightarrow> string" where
  "attachmentLinksLine atts = join ('' '' @ [CHR 0xB7] @ '' '')
     (map (\<lambda>a. (if is_image a then ''!['' else ''['') @ am_name a @ '']('' @ am_url a @ '')'') atts)"

text \<open>The task that an agent gets for a prompt.\<close>

definition agent_task :: "skill_file list \<Rightarrow> upload list \<Rightarrow> string \<Rightarrow> string" where
  "agent_task installed atts text =
     (if atts = [] then expandSkills installed text
      else expandSkills installed text @ nl @ nl @ attachmentAgentBlock atts)"

section \<open>Collapsing it again\<close>

text \<open>
  \<open>ATTACHMENTS_BLOCK.exec\<close>: the first opening line after which the text ends with the closing line, with an optional line
  feed before the one and after the other.  \<open>None\<close> when there is none.
\<close>

definition closes_here :: "string \<Rightarrow> bool" where
  "closes_here r \<longleftrightarrow> suffix ATT_CLOSE r \<or> suffix (ATT_CLOSE @ nl) r"

fun attachments_at :: "string \<Rightarrow> nat option" where
  "attachments_at [] = None"
| "attachments_at (c # s) =
     (if c = CHR 0x0A \<and> prefix ATT_OPEN s \<and> closes_here (drop (length ATT_OPEN) s) then Some 0
      else if prefix ATT_OPEN (c # s) \<and> closes_here (drop (length ATT_OPEN) (c # s)) then Some 0
      else map_option Suc (attachments_at s))"

definition drop_attachments :: "string \<Rightarrow> string" where
  "drop_attachments t = (case attachments_at t of None \<Rightarrow> t | Some i \<Rightarrow> trim_end (take i t))"

text \<open>\<open>SKILLS_BLOCK.exec\<close>: what follows the first closing line.\<close>

definition after_skills :: "string \<Rightarrow> string option" where
  "after_skills t =
     (if prefix SKILLS_OPEN t then
        (let r = drop (length SKILLS_OPEN) t
         in map_option (\<lambda>i. drop (i + length SKILLS_CLOSE) r) (find_sub SKILLS_CLOSE r))
      else None)"

text \<open>The older form: one skill, and what follows it.\<close>

definition SKILL_OPEN :: string where "SKILL_OPEN = ''<skill name='' @ [CHR 0x22]"

definition LEGACY_HEADER :: string where
  "LEGACY_HEADER = ''Follow the skill above for this request:'' @ nl"

definition legacy_skill :: "string \<Rightarrow> (string \<times> string) option" where
  "legacy_skill t =
     (if prefix SKILL_OPEN t then
        (let r = drop (length SKILL_OPEN) t; name = takeWhile (\<lambda>c. c \<noteq> CHR 0x22) r; r1 = drop (length name) r;
             r2 = dropWhile (\<lambda>c. c \<noteq> CHR ''>'') (tl r1)
         in if name = [] \<or> r1 = [] \<or> r2 = [] then None
            else map_option (\<lambda>i. (name, dropWhile js_ws (drop (i + length ''</skill>'') (tl r2)))) (find_sub ''</skill>'' (tl r2)))
      else None)"

definition collapseSkillPrompt :: "string \<Rightarrow> string" where
  "collapseSkillPrompt t0 =
     (let t = drop_attachments t0
      in case after_skills t of
           Some request \<Rightarrow> js_trim (remove_first REQUEST_HEADER request)
         | None \<Rightarrow>
             (case legacy_skill t of
                None \<Rightarrow> t
              | Some (name, request) \<Rightarrow>
                  js_trim (CHR ''$'' # name @ '' '' @
                    (if prefix LEGACY_HEADER request then drop (length LEGACY_HEADER) request else request))))"

section \<open>The harness' wrapper\<close>

definition ISSUE_PREFIX :: string where "ISSUE_PREFIX = ''Please solve this issue: ''"

definition ISSUE_ANCHORS :: "string list" where
  "ISSUE_ANCHORS = [nl @ nl @ ''You can execute bash commands'', nl @ nl @ ''## Recommended Workflow'', nl @ nl @ ''<system-reminder>'']"

definition cleanTaskText :: "string \<Rightarrow> string" where
  "cleanTaskText t =
     (if \<not> prefix ISSUE_PREFIX t then collapseSkillPrompt (js_trim t)
      else (let body = drop (length ISSUE_PREFIX) t;
                stop = fold (\<lambda>a e. case find_sub a body of None \<Rightarrow> e | Some i \<Rightarrow> min i e) ISSUE_ANCHORS (length body)
            in collapseSkillPrompt (js_trim (take stop body))))"

section \<open>What is found where\<close>

lemma prefix_before:
  "prefix p (x @ y) \<Longrightarrow> length p \<le> length x \<Longrightarrow> prefix p x"
  by (metis append_eq_append_conv2 prefix_def prefix_length_prefix prefixI)

lemma find_sub_first:
  assumes "p \<noteq> []" and "\<not> sublist p (b @ butlast p)"
  shows "find_sub p (b @ p @ r) = Some (length b)"
  using assms(2)
proof (induction b)
  case Nil
  then show ?case by (subst find_sub.simps) simp
next
  case (Cons c b)
  have "\<not> prefix p (c # b @ p @ r)"
  proof
    assume "prefix p (c # b @ p @ r)"
    moreover have "c # b @ p @ r = (c # b @ butlast p) @ [last p] @ r"
      by (metis append.assoc append_Cons append_butlast_last_id assms(1))
    ultimately have "prefix p ((c # b @ butlast p) @ [last p] @ r)" by simp
    then have "prefix p (c # b @ butlast p)" by (rule prefix_before) (simp add: assms(1))
    then show False using Cons.prems by (auto dest: prefix_imp_sublist)
  qed
  moreover have "\<not> sublist p (b @ butlast p)" using Cons.prems by (simp add: sublist_Cons_right)
  ultimately show ?case using Cons.IH by (subst find_sub.simps) simp
qed

lemma remove_first_prefix: "remove_first p (p @ r) = r"
  by (subst remove_first_def, subst find_sub.simps) simp

lemma att_open_chars: "i < 13 \<Longrightarrow> ATT_OPEN ! i \<noteq> CHR 0x0A"
proof -
  have "list_all (\<lambda>i. ATT_OPEN ! i \<noteq> CHR 0x0A) [0..<13]" by code_simp
  then show "i < 13 \<Longrightarrow> ATT_OPEN ! i \<noteq> CHR 0x0A" by (simp add: list_all_iff)
qed

lemma length_ATT_OPEN: "length ATT_OPEN = 14"
  by (simp add: ATT_OPEN_def nl_def)

lemma no_opening:
  assumes "\<not> sublist ATT_OPEN (e @ nl)"
  shows "\<not> prefix ATT_OPEN (e @ nl @ nl @ x)"
proof
  assume p: "prefix ATT_OPEN (e @ nl @ nl @ x)"
  show False
  proof (cases "length ATT_OPEN \<le> length (e @ nl)")
    case True
    with p have "prefix ATT_OPEN (e @ nl)" using prefix_before [of ATT_OPEN "e @ nl" "nl @ x"] by simp
    with assms show False by (auto dest: prefix_imp_sublist)
  next
    case False
    then have short: "length e < 13" by (simp add: length_ATT_OPEN nl_def)
    from p obtain z where "e @ nl @ nl @ x = ATT_OPEN @ z" by (auto simp: prefix_def)
    then have "(e @ nl @ nl @ x) ! length e = ATT_OPEN ! length e" using short by (simp add: nth_append length_ATT_OPEN)
    then have "ATT_OPEN ! length e = CHR 0x0A" by (simp add: nl_def nth_append)
    with att_open_chars [OF short] show False by simp
  qed
qed

lemma attachments_at_block:
  assumes "\<not> sublist ATT_OPEN (e @ nl)"
  shows "attachments_at (e @ nl @ nl @ ATT_OPEN @ b @ ATT_CLOSE) = Some (Suc (length e))"
  using assms
proof (induction e)
  case Nil
  have "\<not> prefix ATT_OPEN (CHR 0x0A # x)" for x by (simp add: ATT_OPEN_def)
  then show ?case by (simp add: nl_def closes_here_def suffix_def)
next
  case (Cons c e)
  then have e: "\<not> sublist ATT_OPEN (e @ nl)" by (simp add: sublist_Cons_right)
  show ?case
    using no_opening [OF Cons.prems, of "ATT_OPEN @ b @ ATT_CLOSE"] no_opening [OF e, of "ATT_OPEN @ b @ ATT_CLOSE"] Cons.IH [OF e]
    by simp
qed

lemma attachments_at_None: "\<not> sublist ATT_OPEN e \<Longrightarrow> attachments_at e = None"
proof (induction e)
  case (Cons c e)
  then show ?case by (auto simp: sublist_Cons_right dest: prefix_imp_sublist)
qed simp

section \<open>Round trip\<close>

lemma trim_text:
  "js_trim t = t \<Longrightarrow> t \<noteq> [] \<Longrightarrow> \<not> js_ws (hd t) \<and> \<not> js_ws (last t)"
proof -
  assume t: "js_trim t = t" "t \<noteq> []"
  have e: "trim_end s = s' \<Longrightarrow> s' \<noteq> [] \<Longrightarrow> \<not> js_ws (last s')" for s s'
    using hd_dropWhile [of js_ws "rev s"] by (auto simp: trim_end_def last_rev)
  have "\<not> js_ws (last t)" using t e [of "trim_start t" t] by (simp add: js_trim_def)
  moreover have "\<not> js_ws (hd t)"
  proof
    assume "js_ws (hd t)"
    then have "length (trim_start t) < length t" using t(2)
      by (cases t) (auto simp: trim_start_def length_dropWhile_le less_Suc_eq_le)
    with t(1) length_trim_end [of "trim_start t"] show False by (simp add: js_trim_def)
  qed
  ultimately show ?thesis by simp
qed

lemma trim_end_last: "s = [] \<or> \<not> js_ws (last s) \<Longrightarrow> trim_end s = s"
  by (cases s rule: rev_cases) (auto simp: trim_end_def)

lemma js_trim_ends: "s = [] \<or> \<not> js_ws (hd s) \<and> \<not> js_ws (last s) \<Longrightarrow> js_trim s = s"
  by (cases s) (auto simp: js_trim_def trim_start_def trim_end_last)

lemma trim_end_newline: "s = [] \<or> \<not> js_ws (last s) \<Longrightarrow> trim_end (s @ nl) = s"
proof -
  have "js_ws CHR 0x0A" by (simp add: js_ws_def)
  then show "s = [] \<or> \<not> js_ws (last s) \<Longrightarrow> trim_end (s @ nl) = s"
    using trim_end_last [of s] by (simp add: trim_end_def nl_def)
qed

text \<open>
  A prompt that can be told from the blocks around it: trimmed, not itself beginning like a block of skills or like the
  harness' wrapper, without an opening line of attachments in it or in the skills it uses, and the skills' texts do not
  contain the line that closes them.
\<close>

text \<open>
  A prompt as it can be told apart from what is put around it: trimmed, not empty, beginning neither with \<open><skill\<close> nor with
  the words of the agent's template; with no opening of the attachments' block in it or in its skills, and no skill that
  contains the end of the skills' block.
\<close>

definition plain_prompt :: "skill_file list \<Rightarrow> string \<Rightarrow> bool" where
  "plain_prompt installed text \<longleftrightarrow>
     js_trim text = text \<and> text \<noteq> [] \<and> \<not> prefix ''<skill'' text \<and> \<not> prefix ISSUE_PREFIX text \<and>
     \<not> sublist ATT_OPEN (expandSkills installed text @ nl) \<and>
     \<not> sublist SKILLS_CLOSE (skill_blocks installed text @ butlast SKILLS_CLOSE)"

lemma collapse_expanded:
  assumes "plain_prompt installed text"
  shows "after_skills (expandSkills installed text) = None \<and> legacy_skill (expandSkills installed text) = None \<and>
           expandSkills installed text = text \<or>
         after_skills (expandSkills installed text) = Some (REQUEST_HEADER @ text)"
proof (cases "used_skills installed text = []")
  case True
  have "\<not> prefix SKILLS_OPEN text" "\<not> prefix SKILL_OPEN text"
    using assms by (auto simp: plain_prompt_def SKILLS_OPEN_def SKILL_OPEN_def prefix_def nl_def)
  with True show ?thesis by (simp add: expandSkills_def after_skills_def legacy_skill_def)
next
  case False
  have "find_sub SKILLS_CLOSE (skill_blocks installed text @ SKILLS_CLOSE @ REQUEST_HEADER @ text) = Some (length (skill_blocks installed text))"
    by (rule find_sub_first) (use assms in \<open>auto simp: plain_prompt_def SKILLS_CLOSE_def nl_def\<close>)
  with False show ?thesis by (simp add: expandSkills_def after_skills_def Let_def)
qed

text \<open>
  C35: The transcript shows a prompt as it was typed: whatever skills it refers to and whatever files go with it, taking the
  blocks off the agent's task gives the prompt back, when neither the prompt nor the text of a skill imitates the blocks:
  the prompt is trimmed and begins neither with a skill's opening tag nor with \<open>Please solve this issue: \<close>, the opening
  of the attachments' block is in neither, and no skill contains the end of the skills' block.
\<close>

theorem prompt_round_trip:
  assumes "plain_prompt installed text"
  shows "cleanTaskText (agent_task installed atts text) = text"
proof -
  let ?e = "expandSkills installed text"
  have tx: "js_trim text = text" "text \<noteq> []" using assms by (auto simp: plain_prompt_def)
  note ends = trim_text [OF tx]
  have e: "?e \<noteq> []" "last ?e = last text" "?e = text \<or> hd ?e = CHR ''<''"
    using tx(2) by (auto simp: expandSkills_def SKILLS_OPEN_def)
  have lt: "\<not> js_ws CHR ''<''" by (simp add: js_ws_def)
  have "\<not> prefix ISSUE_PREFIX ?e"
    using assms by (auto simp: plain_prompt_def expandSkills_def ISSUE_PREFIX_def SKILLS_OPEN_def)
  have long: "\<not> prefix ISSUE_PREFIX (?e @ nl @ nl @ attachmentAgentBlock atts)"
  proof
    assume p: "prefix ISSUE_PREFIX (?e @ nl @ nl @ attachmentAgentBlock atts)"
    show False
    proof (cases "length ISSUE_PREFIX \<le> length ?e")
      case True
      with p \<open>\<not> prefix ISSUE_PREFIX ?e\<close> prefix_before [of ISSUE_PREFIX ?e] show False by simp
    next
      case False
      have "list_all (\<lambda>i. ISSUE_PREFIX ! i \<noteq> CHR 0x0A) [0..<length ISSUE_PREFIX]" by code_simp
      with False have "ISSUE_PREFIX ! length ?e \<noteq> CHR 0x0A" by (simp add: list_all_iff)
      moreover from p obtain z where "?e @ nl @ nl @ attachmentAgentBlock atts = ISSUE_PREFIX @ z" by (auto simp: prefix_def)
      then have "(?e @ nl @ nl @ attachmentAgentBlock atts) ! length ?e = ISSUE_PREFIX ! length ?e"
        using False by (simp add: nth_append)
      ultimately show False by (simp add: nl_def nth_append)
    qed
  qed
  have trimmed: "js_trim ?e = ?e" using e ends lt by (intro js_trim_ends) auto
  have collapse: "collapseSkillPrompt t = text" if "drop_attachments t = ?e" for t
    using collapse_expanded [OF assms] tx that
    by (auto simp: collapseSkillPrompt_def Let_def remove_first_prefix)
  show ?thesis
  proof (cases "atts = []")
    case True
    have "\<not> sublist ATT_OPEN ?e" using assms by (auto simp: plain_prompt_def sublist_append)
    then have "drop_attachments ?e = ?e" by (simp add: drop_attachments_def attachments_at_None)
    with True trimmed \<open>\<not> prefix ISSUE_PREFIX ?e\<close> collapse show ?thesis by (simp add: cleanTaskText_def agent_task_def)
  next
    case False
    let ?t = "?e @ nl @ nl @ attachmentAgentBlock atts"
    have "last ?t = CHR ''>''" by (simp add: attachmentAgentBlock_def ATT_CLOSE_def)
    moreover have "hd ?t = hd ?e" using e(1) by simp
    ultimately have "js_trim ?t = ?t"
      using e ends lt by (intro js_trim_ends) (auto simp: js_ws_def)
    moreover have "drop_attachments ?t = ?e"
    proof -
      have "attachments_at ?t = Some (Suc (length ?e))"
        unfolding attachmentAgentBlock_def by (rule attachments_at_block) (use assms in \<open>simp add: plain_prompt_def\<close>)
      moreover have "take (Suc (length ?e)) ?t = ?e @ nl" by (simp add: nl_def)
      ultimately show ?thesis using e ends trim_end_newline [of ?e] by (simp add: drop_attachments_def)
    qed
    ultimately show ?thesis using False long collapse by (simp add: cleanTaskText_def agent_task_def)
  qed
qed

lemma prompt_round_trip_witness:
  "cleanTaskText (agent_task [(''e2e'', ''/s/SKILL.md'', ''Run the tests.'')]
      [\<lparr>am_id = ''1'', am_name = ''a.png'', am_mime = ''image/png'', am_size = 7, am_path = ''/f'', am_url = ''/u''\<rparr>]
      ''use $e2e here'') = ''use $e2e here'' \<and>
   findSkillRefs (\<lambda>_. True) ''use $e2e here'' = [\<lparr>rf_name = ''e2e'', rf_start = 4, rf_end = 8\<rparr>]"
proof
  have "plain_prompt [(''e2e'', ''/s/SKILL.md'', ''Run the tests.'')] ''use $e2e here''" by code_simp
  then show "cleanTaskText (agent_task [(''e2e'', ''/s/SKILL.md'', ''Run the tests.'')]
      [\<lparr>am_id = ''1'', am_name = ''a.png'', am_mime = ''image/png'', am_size = 7, am_path = ''/f'', am_url = ''/u''\<rparr>]
      ''use $e2e here'') = ''use $e2e here''" by (rule prompt_round_trip)
  show "findSkillRefs (\<lambda>_. True) ''use $e2e here'' = [\<lparr>rf_name = ''e2e'', rf_start = 4, rf_end = 8\<rparr>]" by code_simp
qed

text \<open>
  Prompts that imitate the blocks lose text: the words of the agent's template at the beginning, all that follows an opening
  of the attachments' block when a file is sent, and the end of a skill stays in front of the request.
\<close>

lemma typed_template_words_are_dropped:
  "cleanTaskText (agent_task [] [] ''Please solve this issue: fix it'') = ''fix it''"
  by code_simp

lemma typed_attachments_are_cut:
  "cleanTaskText (agent_task [] [\<lparr>am_id = ''1'', am_name = ''a.png'', am_mime = ''image/png'', am_size = 7, am_path = ''/f'', am_url = ''/u''\<rparr>]
      (''why is '' @ ATT_OPEN @ ''in my prompt?'')) = ''why is''"
  by code_simp

lemma end_of_a_skill_is_shown:
  "cleanTaskText (agent_task [(''s'', ''/s/SKILL.md'', ''a'' @ SKILLS_CLOSE @ ''b'')] [] ''use $s'') \<noteq> ''use $s''"
  by code_simp

end
