(* ===== verification/Transcript.thy ===== *)
theory Transcript
  imports Prompts
begin

text \<open>
  From the messages that an agent journals to the events of a transcript (src/traj/parse.ts), and what is kept of long
  outputs (src/traj/slim.ts).  A message is the JSON value it was read as.  \<open>JSON.parse\<close> (\<open>None\<close> when it throws),
  \<open>JSON.stringify\<close> \<open>String\<close> of a value and the message
  of a parse error are the functions of a \<open>json\<close> record; the entries of an object come
  in the order in which they were written.
\<close>

section \<open>Events\<close>

text \<open>A file as the transcript shows it: identifier, kind, type, address, name.\<close>

record shown_file =
  sf_id :: string
  sf_kind :: string
  sf_mime :: string
  sf_url :: string
  sf_name :: string

record channel_message =
  cm_channel :: string
  cm_sender :: string
  cm_sender_name :: "string option"
  cm_text :: string
  cm_ts :: int
  cm_mirror_id :: int

datatype run_event =
    EvTask string "shown_file list"
  | EvAssistant string "rat option"
  | EvThinking string rat
  | EvToolCall string string string
  | EvObservation "string option" "rat option" string string
  | EvNotice string string
  | EvExit string string
  | EvUi string js
  | EvError string
  | EvChannel channel_message

text \<open>The last argument of a notice is its interrupt type, empty when it has none.\<close>

definition recorded_voice :: "upload \<Rightarrow> bool" where
  "recorded_voice a \<longleftrightarrow> (let n = js_lower (am_name a) in
     prefix ''nota-de-voz-'' n \<and> suffix ''.webm'' n \<and> 17 \<le> length n \<and> list_all (\<lambda>c. c \<noteq> CHR 0x0A \<and> c \<noteq> CHR 0x0D) n)"

definition transcriptAttachment :: "upload \<Rightarrow> shown_file" where
  "transcriptAttachment a = \<lparr>sf_id = am_id a,
     sf_kind = (if prefix ''audio/'' (am_mime a) \<or> recorded_voice a then ''audio''
                else if is_image a then ''image'' else ''file''),
     sf_mime = am_mime a, sf_url = am_url a, sf_name = am_name a\<rparr>"

section \<open>Long texts\<close>

definition OUTPUT_HEAD_LINES :: nat where "OUTPUT_HEAD_LINES = 500"
definition OUTPUT_TAIL_LINES :: nat where "OUTPUT_TAIL_LINES = 12"
definition OUTPUT_MAX_CHARS :: int where "OUTPUT_MAX_CHARS = 40000"

definition drop_last_lines :: "string \<Rightarrow> string" where
  "drop_last_lines t = rev (dropWhile (\<lambda>c. c = CHR 0x0A) (rev t))"

definition cut_line :: "string \<Rightarrow> string" where
  "cut_line l = (if 2000 < int (length l) then slice_to 2000 l @ ellipsis else l)"

definition kb_marker :: "string \<Rightarrow> string" where
  "kb_marker body = ''... '' @ show_int (round_half_up (of_nat (length body) / 1024 :: rat)) @ '' KB output truncated ...''"

definition boundText :: "string \<Rightarrow> string" where
  "boundText t =
     (if int (length t) \<le> OUTPUT_MAX_CHARS + 2000 then t
      else (let body = drop_last_lines t; lines = split_char (CHR 0x0A) body; n = length lines;
                long = OUTPUT_HEAD_LINES + OUTPUT_TAIL_LINES + 1 < n;
                hidden = n - OUTPUT_HEAD_LINES - OUTPUT_TAIL_LINES;
                head = (if long then join nl (take OUTPUT_HEAD_LINES lines) else body);
                tail = (if long then map cut_line (last_n OUTPUT_TAIL_LINES lines) else []);
                parts = (if OUTPUT_MAX_CHARS < int (length head) then [slice_to OUTPUT_MAX_CHARS head, kb_marker body]
                         else if long then [head, ''... '' @ show_nat hidden @ '' lines hidden ...''] else [head])
            in join nl (parts @ tail)))"

fun boundEvent :: "run_event \<Rightarrow> run_event" where
  "boundEvent (EvObservation i rc out exc) = EvObservation i rc (boundText out) (boundText exc)"
| "boundEvent e = e"

text \<open>A field of an object set, in its place or at the end.\<close>

fun put_field :: "string \<Rightarrow> js \<Rightarrow> (string \<times> js) list \<Rightarrow> (string \<times> js) list" where
  "put_field k v [] = [(k, v)]"
| "put_field k v ((j, w) # r) = (if j = k then (k, v) # r else (j, w) # put_field k v r)"

definition HEAVY_EXTRA :: "string list" where
  "HEAVY_EXTRA = [''response'', ''raw_output'']"

definition slimMessage :: "js \<Rightarrow> js" where
  "slimMessage m =
     (let extra = js_field ''extra'' m;
          heavy = (case extra of JObj kvs \<Rightarrow> list_ex (\<lambda>p. fst p \<in> set HEAVY_EXTRA) kvs | _ \<Rightarrow> False);
          content = (case js_field ''content'' m of JStr s \<Rightarrow> JStr (boundText s) | v \<Rightarrow> v)
      in if \<not> heavy \<and> content = js_field ''content'' m then m
         else (case m of
                 JObj kvs \<Rightarrow>
                   (let next = put_field ''content'' content kvs
                    in JObj (if heavy then put_field ''extra''
                               (case extra of JObj es \<Rightarrow> JObj (filter (\<lambda>p. fst p \<notin> set HEAVY_EXTRA) es) | v \<Rightarrow> v) next
                             else next))
               | v \<Rightarrow> v))"

section \<open>The text of a message\<close>

record json =
  rt_parse :: "string \<Rightarrow> js option"
  rt_dump :: "js \<Rightarrow> string"
  rt_show :: "js \<Rightarrow> string"
  rt_error :: "string \<Rightarrow> string"

fun has_field :: "string \<Rightarrow> js \<Rightarrow> bool" where
  "has_field k (JObj kvs) = (map_of kvs k \<noteq> None)"
| "has_field k _ = False"

fun truthy :: "js \<Rightarrow> bool" where
  "truthy JUndef = False"
| "truthy JNull = False"
| "truthy (JBool b) = b"
| "truthy (JNum r) = (r \<noteq> 0)"
| "truthy (JStr s) = (s \<noteq> [])"
| "truthy _ = True"

definition nullish :: "js \<Rightarrow> bool" where
  "nullish v \<longleftrightarrow> v = JUndef \<or> v = JNull"

fun num_of :: "js \<Rightarrow> rat option" where
  "num_of (JNum r) = Some r"
| "num_of _ = None"

fun str_of :: "js \<Rightarrow> string option" where
  "str_of (JStr s) = Some s"
| "str_of _ = None"

text \<open>\<open>String(v)\<close>, of a text the text itself.\<close>

definition show_js :: "json \<Rightarrow> js \<Rightarrow> string" where
  "show_js rt v = (case v of JStr s \<Rightarrow> s | _ \<Rightarrow> rt_show rt v)"

definition fenced :: "string \<Rightarrow> string" where
  "fenced s = ''```'' @ nl @ s @ nl @ ''```''"

definition formatToolCall :: "json \<Rightarrow> js \<Rightarrow> string" where
  "formatToolCall rt args =
     (case (case args of JStr s \<Rightarrow> rt_parse rt s | v \<Rightarrow> Some v) of
        Some v \<Rightarrow> (if has_field ''command'' v then fenced (show_js rt (js_field ''command'' v)) else fenced (show_js rt args))
      | None \<Rightarrow> fenced (show_js rt args))"

definition formatObservation :: "json \<Rightarrow> string \<Rightarrow> string" where
  "formatObservation rt s =
     (case rt_parse rt s of
        Some (JObj kvs) \<Rightarrow>
          (if has_field ''returncode'' (JObj kvs) then join nl (map (\<lambda>(k, v). ''<'' @ k @ ''>'' @ nl @ show_js rt v) kvs) else s)
      | _ \<Rightarrow> s)"

definition content_item :: "json \<Rightarrow> js \<Rightarrow> string list" where
  "content_item rt b =
     (if \<not> is_object_or_array b then []
      else if js_field ''type'' b = JStr ''tool_use'' then
        [formatToolCall rt (JStr (rt_dump rt (if nullish (js_field ''input'' b) then JObj [] else js_field ''input'' b)))]
      else (case (js_field ''type'' b = JStr ''tool_result'', js_field ''content'' b) of
              (True, JStr s) \<Rightarrow> [formatObservation rt s]
            | _ \<Rightarrow> (case js_field ''text'' b of JStr s \<Rightarrow> (if s \<noteq> [] then [s] else []) | _ \<Rightarrow> [])))"

definition or_braces :: "js \<Rightarrow> js" where
  "or_braces v = (if nullish v then JStr ''{}'' else v)"

definition call_text :: "json \<Rightarrow> js \<Rightarrow> string list" where
  "call_text rt tc =
     (let f = (if is_object_or_array tc then js_field ''function'' tc else JUndef)
      in if truthy f then [formatToolCall rt (or_braces (js_field ''arguments'' f))] else [])"

definition nonempty_text :: "js \<Rightarrow> string list" where
  "nonempty_text c = (case js_field ''text'' c of JStr s \<Rightarrow> (if s \<noteq> [] then [s] else []) | _ \<Rightarrow> [])"

definition output_item :: "json \<Rightarrow> js \<Rightarrow> string list" where
  "output_item rt e =
     (if \<not> is_object_or_array e then []
      else (case (js_field ''type'' e = JStr ''message'', js_field ''content'' e) of
              (True, JArr cs) \<Rightarrow> concat (map nonempty_text cs)
            | _ \<Rightarrow> (if js_field ''type'' e = JStr ''function_call''
                    then [formatToolCall rt (or_braces (js_field ''arguments'' e))] else [])))"

definition getContentString :: "json \<Rightarrow> js \<Rightarrow> string" where
  "getContentString rt m =
     join (nl @ nl) (filter (\<lambda>t. t \<noteq> [])
       ((case js_field ''content'' m of JStr s \<Rightarrow> [formatObservation rt s] | JArr items \<Rightarrow> concat (map (content_item rt) items) | _ \<Rightarrow> [])
        @ concat (map (call_text rt) (arr_or_nil (js_field ''tool_calls'' m)))
        @ (case js_field ''output'' m of JStr s \<Rightarrow> [formatObservation rt s] | JArr es \<Rightarrow> concat (map (output_item rt) es) | _ \<Rightarrow> [])))"

definition getContentText :: "js \<Rightarrow> string" where
  "getContentText content =
     (case content of
        JStr s \<Rightarrow> s
      | JArr items \<Rightarrow> join nl (concat (map (\<lambda>b.
          (if \<not> is_object_or_array b then []
           else if nonempty_text b \<noteq> [] then nonempty_text b
           else if js_field ''type'' b \<in> {JStr ''image_url'', JStr ''image''} then [''<image>''] else [])) items))
      | _ \<Rightarrow> [])"

section \<open>The parts of a message\<close>

definition extraOf :: "js \<Rightarrow> js" where
  "extraOf m = (case js_field ''extra'' m of JObj kvs \<Rightarrow> JObj kvs | _ \<Rightarrow> JObj [])"

definition commandFromArguments :: "json \<Rightarrow> js \<Rightarrow> string" where
  "commandFromArguments rt args =
     (let raw = (case args of JStr s \<Rightarrow> s | v \<Rightarrow> rt_dump rt (if nullish v then JObj [] else v))
      in case (case args of JStr s \<Rightarrow> rt_parse rt s | v \<Rightarrow> Some v) of
           Some (JObj kvs) \<Rightarrow> (case js_field ''command'' (JObj kvs) of JStr c \<Rightarrow> c | _ \<Rightarrow> raw)
         | _ \<Rightarrow> raw)"

definition actionsOf :: "js \<Rightarrow> js list" where
  "actionsOf m = filter is_object (arr_or_nil (js_field ''actions'' (extraOf m)))"

text \<open>The type of an interruption; the empty text counts as none, as it does in the code.\<close>

definition interrupt_type :: "js \<Rightarrow> string" where
  "interrupt_type m = str_or_empty (js_field ''interrupt_type'' (extraOf m))"

definition commandFor :: "json \<Rightarrow> js \<Rightarrow> string \<Rightarrow> js \<Rightarrow> string" where
  "commandFor rt m call args =
     (case find (\<lambda>a. is_string (js_field ''command'' a) \<and> (call = [] \<or> js_field ''tool_call_id'' a = JStr call)) (actionsOf m) of
        Some a \<Rightarrow> str_or_empty (js_field ''command'' a)
      | None \<Rightarrow> commandFromArguments rt args)"

definition thinking_block :: "js \<Rightarrow> string list option" where
  "thinking_block b =
     (if \<not> is_object b then None
      else if js_field ''type'' b = JStr ''thinking'' \<and> is_string (js_field ''thinking'' b) then
        Some (let s = str_or_empty (js_field ''thinking'' b) in if js_trim s = [] then [] else [s])
      else if js_field ''type'' b = JStr ''redacted_thinking'' then Some [''(redacted thinking)'']
      else None)"

definition reasoning_item :: "js \<Rightarrow> string list option" where
  "reasoning_item b =
     (if \<not> is_object b \<or> js_field ''type'' b \<noteq> JStr ''reasoning'' then None
      else Some (concat (map (\<lambda>e. (if is_object e \<and> js_trim (str_or_empty (js_field ''text'' e)) \<noteq> []
                                   then [str_or_empty (js_field ''text'' e)] else []))
             (arr_or_nil (js_field ''summary'' b)))))"

definition gather :: "string list option list \<Rightarrow> string option" where
  "gather parts = (if list_all (\<lambda>p. p = None) parts then None
     else Some (join (nl @ nl) (concat (map (\<lambda>p. case p of None \<Rightarrow> [] | Some ts \<Rightarrow> ts) parts))))"

text \<open>\<open>thinkingTextOf\<close>: \<open>None\<close> is \<open>present: false\<close>.\<close>

definition thinkingTextOf :: "js \<Rightarrow> string option" where
  "thinkingTextOf m =
     (let plain = (\<lambda>k. (case js_field k m of JStr s \<Rightarrow> (if js_trim s = [] then None else Some s) | _ \<Rightarrow> None))
      in case plain ''reasoning_content'' of
           Some s \<Rightarrow> Some s
         | None \<Rightarrow>
             (case plain ''reasoning'' of
                Some s \<Rightarrow> Some s
              | None \<Rightarrow>
                  (case gather (map thinking_block (arr_or_nil (js_field ''content'' m))) of
                     Some s \<Rightarrow> Some s
                   | None \<Rightarrow> gather (map reasoning_item (arr_or_nil (js_field ''output'' m))))))"

definition compactionNotice :: "json \<Rightarrow> js \<Rightarrow> string" where
  "compactionNotice rt info =
     (let k = (\<lambda>v. (case v of JNum n \<Rightarrow> (if 0 < n then show_int (round_half_up (n / 1000)) @ ''k'' else ''?'') | _ \<Rightarrow> ''?''));
          reason = (if js_field ''reason'' info = JStr ''overflow'' then ''context overflow''
                    else if js_field ''reason'' info = JStr ''manual'' then ''requested'' else ''auto'');
          summarized = (case js_field ''summarized_messages'' info of
                          JNum n \<Rightarrow> rt_show rt (JNum n) @ '' messages summarized'' | _ \<Rightarrow> ''summarized'')
      in ''compacted ('' @ reason @ ''): '' @ k (js_field ''tokens_before'' info) @ '' tokens of '' @
         k (js_field ''context_window'' info) @ '' window, '' @ summarized)"

definition toolEvent :: "json \<Rightarrow> js \<Rightarrow> run_event" where
  "toolEvent rt m =
     (let extra = extraOf m;
          output = str_of (js_field ''raw_output'' extra);
          code = num_of (js_field ''returncode'' extra);
          exc = str_of (js_field ''exception_info'' extra);
          missing = (output = None \<or> code = None \<or> exc = None);
          parsed = (case js_field ''content'' m of
                      JStr s \<Rightarrow> (case rt_parse rt s of Some (JObj kvs) \<Rightarrow> Some (JObj kvs) | _ \<Rightarrow> None)
                    | JObj kvs \<Rightarrow> Some (JObj kvs)
                    | _ \<Rightarrow> None);
          result = (if \<not> missing then (output, code, exc)
                    else (case parsed of
                            Some p \<Rightarrow>
                              (case output of Some s \<Rightarrow> Some s
                               | None \<Rightarrow> Some (case js_field ''output'' p of JStr s \<Rightarrow> s
                                               | v \<Rightarrow> (if nullish v then [] else rt_show rt v)),
                               case code of Some n \<Rightarrow> Some n | None \<Rightarrow> num_of (js_field ''returncode'' p),
                               case exc of Some s \<Rightarrow> Some s | None \<Rightarrow> str_of (js_field ''exception_info'' p))
                          | None \<Rightarrow> (case output of Some s \<Rightarrow> Some s | None \<Rightarrow> Some (getContentString rt m), code, exc)))
      in case result of (out, rc, ex) \<Rightarrow>
           EvObservation (str_of (js_field ''tool_call_id'' m)) rc
             (boundText (case out of Some s \<Rightarrow> s | None \<Rightarrow> [])) (boundText (case ex of Some s \<Rightarrow> s | None \<Rightarrow> [])))"

definition RETRY_NUDGE :: string where
  "RETRY_NUDGE = ''Your previous response reached the output token limit (finish_reason=''"

definition isRuntimeRetryNudge :: "string \<Rightarrow> bool" where
  "isRuntimeRetryNudge t = prefix RETRY_NUDGE (dropWhile js_ws t)"

section \<open>Events of messages\<close>

definition NEW_TASK :: string where "NEW_TASK = ''The user added a new task:''"

definition strip_new_task :: "string \<Rightarrow> string" where
  "strip_new_task t = (if prefix NEW_TASK t then dropWhile js_ws (drop (length NEW_TASK) t) else t)"

definition opens_task :: "js \<Rightarrow> bool" where
  "opens_task m \<longleftrightarrow> js_field ''role'' m = JStr ''user'' \<and> interrupt_type m = [] \<and> actionsOf m = []"

definition createParseState :: "js list \<Rightarrow> nat \<Rightarrow> bool" where
  "createParseState ms start = list_ex opens_task (take start ms)"

definition action_event :: "json \<Rightarrow> js \<Rightarrow> run_event" where
  "action_event rt a = EvToolCall (str_or_empty (js_field ''tool_call_id'' a))
     (case js_field ''name'' a of JStr s \<Rightarrow> s | _ \<Rightarrow> ''bash'')
     (case js_field ''command'' a of JStr s \<Rightarrow> s | _ \<Rightarrow> commandFromArguments rt a)"

definition user_events :: "json \<Rightarrow> bool \<Rightarrow> js \<Rightarrow> run_event list" where
  "user_events rt seen m =
     (let itype = interrupt_type m; text = getContentString rt m
      in if itype = ''UserNewTask'' then [EvTask (cleanTaskText (strip_new_task text)) []]
         else if itype = ''CompactionSkipped'' then [EvNotice ''nothing to compact yet: the conversation is too short'' ''context'']
         else if itype = ''Compaction'' then [EvNotice (compactionNotice rt (js_field ''compaction'' (extraOf m))) ''context'']
         else if itype \<noteq> [] then [EvNotice text itype]
         else if actionsOf m \<noteq> [] then map (action_event rt) (actionsOf m)
         else if \<not> seen then [EvTask (cleanTaskText text) []]
         else if isRuntimeRetryNudge text then []
         else [EvNotice text []])"

definition assistant_events :: "json \<Rightarrow> js \<Rightarrow> run_event list" where
  "assistant_events rt m =
     (let text = getContentText (js_field ''content'' m)
      in (case thinkingTextOf m of
            None \<Rightarrow> []
          | Some t \<Rightarrow> [EvThinking t (case js_field ''thinking_seconds'' (extraOf m) of JNum n \<Rightarrow> n | _ \<Rightarrow> 0)]) @
         (if js_field ''interrupt_type'' (extraOf m) = JStr ''OutputLimitDraft'' then []
          else (if js_trim text = [] then [] else [EvAssistant text (num_of (js_field ''cost'' (extraOf m)))]) @
               map (\<lambda>tc. let i = str_or_empty (js_field ''id'' tc); f = js_field ''function'' tc
                         in EvToolCall i (case js_field ''name'' f of JStr s \<Rightarrow> s | _ \<Rightarrow> ''bash'')
                              (commandFor rt m i (js_field ''arguments'' f)))
                 (arr_or_nil (js_field ''tool_calls'' m))))"

definition exit_event :: "js \<Rightarrow> run_event" where
  "exit_event m = EvExit (str_or_empty (js_field ''exit_status'' (extraOf m))) (str_or_empty (js_field ''submission'' (extraOf m)))"

definition message_events :: "json \<Rightarrow> bool \<Rightarrow> bool \<Rightarrow> js \<Rightarrow> run_event list" where
  "message_events rt showSystem seen m =
     (let role = js_field ''role'' m
      in if role = JStr ''system'' then (if showSystem then [EvNotice (getContentString rt m) ''system''] else [])
         else if role = JStr ''user'' then user_events rt seen m
         else if role = JStr ''assistant'' then assistant_events rt m
         else if role = JStr ''tool'' then [toolEvent rt m]
         else if role = JStr ''exit'' then [exit_event m]
         else [EvNotice (getContentString rt m) []])"

text \<open>The loop, with the flag it carries: whether the first task was shown.\<close>

fun fold_messages :: "json \<Rightarrow> bool \<Rightarrow> bool \<Rightarrow> js list \<Rightarrow> run_event list \<times> bool" where
  "fold_messages rt showSystem seen [] = ([], seen)"
| "fold_messages rt showSystem seen (m # ms) =
     (case fold_messages rt showSystem (seen \<or> opens_task m) ms of
        (es, s) \<Rightarrow> (message_events rt showSystem seen m @ es, s))"

text \<open>\<open>messagesToEvents\<close>: the events, and the state when one was passed.\<close>

definition messagesToEvents :: "json \<Rightarrow> bool \<Rightarrow> js list \<Rightarrow> nat \<Rightarrow> bool option \<Rightarrow> run_event list \<times> bool" where
  "messagesToEvents rt showSystem ms start state =
     fold_messages rt showSystem (case state of Some s \<Rightarrow> s | None \<Rightarrow> createParseState ms start) (drop start ms)"

record trajectory =
  tj_info :: js
  tj_messages :: "js list"
  tj_format :: "string option"
  tj_partial :: "(string \<times> string) option"

record run_info =
  ri_model :: "string option"
  ri_api_base :: "string option"
  ri_cost :: rat
  ri_api_calls :: rat
  ri_exit_status :: "string option"
  ri_submission :: "string option"
  ri_format :: "string option"

definition parseInfo :: "trajectory \<Rightarrow> run_info" where
  "parseInfo t =
     (let info = tj_info t; stats = js_field ''model_stats'' info; model = js_field ''model'' (js_field ''config'' info)
      in \<lparr>ri_model = str_of (js_field ''model_name'' model), ri_api_base = str_of (js_field ''api_base'' model),
          ri_cost = (case js_field ''instance_cost'' stats of JNum n \<Rightarrow> n | _ \<Rightarrow> 0),
          ri_api_calls = (case js_field ''api_calls'' stats of JNum n \<Rightarrow> n | _ \<Rightarrow> 0),
          ri_exit_status = str_of (js_field ''exit_status'' info), ri_submission = str_of (js_field ''submission'' info),
          ri_format = tj_format t\<rparr>)"

definition parseTrajectory :: "json \<Rightarrow> bool \<Rightarrow> trajectory \<Rightarrow> run_event list \<times> run_info" where
  "parseTrajectory rt showSystem t = (fst (messagesToEvents rt showSystem (tj_messages t) 0 None), parseInfo t)"

section \<open>Components in a reply\<close>

text \<open>Fenced blocks that name a component (src/web/uiComponents.ts): the body and what follows the fence.\<close>

definition UI_TEMPLATES :: "string list" where
  "UI_TEMPLATES = [''form'', ''chart'', ''table'', ''card'', ''list'', ''gallery'', ''progress'']"

definition UI_MAX_PER_MESSAGE :: nat where "UI_MAX_PER_MESSAGE = 4"

definition fence_at :: "string \<Rightarrow> (string \<times> string) option" where
  "fence_at s =
     (if \<not> prefix ''```'' s then None
      else (let r = dropWhile js_ws (drop 3 s)
            in if \<not> prefix ''ui-component'' r then None
               else (let r1 = dropWhile (\<lambda>c. c = CHR '' '' \<or> c = CHR 0x09) (drop 12 r);
                         r2 = (case r1 of c # x \<Rightarrow> (if c = CHR 0x0D then x else r1) | [] \<Rightarrow> [])
                     in case r2 of
                          c # body \<Rightarrow> (if c \<noteq> CHR 0x0A then None
                             else map_option (\<lambda>i. (take i body, drop (i + 3) body)) (find_sub ''```'' body))
                        | [] \<Rightarrow> None)))"

lemma fence_at_shorter: "fence_at s = Some (b, r) \<Longrightarrow> length r < length s"
proof -
  assume f: "fence_at s = Some (b, r)"
  let ?r1 = "dropWhile (\<lambda>c. c = CHR '' '' \<or> c = CHR 0x09) (drop 12 (dropWhile js_ws (drop 3 s)))"
  have "length ?r1 \<le> length (drop 12 (dropWhile js_ws (drop 3 s)))" by (rule length_dropWhile_le)
  also have "\<dots> \<le> length (dropWhile js_ws (drop 3 s))" by simp
  also have "\<dots> \<le> length (drop 3 s)" by (rule length_dropWhile_le)
  also have "\<dots> \<le> length s" by simp
  finally have le: "length ?r1 \<le> length s" .
  have "length r < length ?r1"
    using f by (auto simp: fence_at_def Let_def less_Suc_eq_le split: if_splits list.splits)
  with le show ?thesis by simp
qed

function (sequential) fences :: "string \<Rightarrow> string \<times> string list" where
  "fences [] = ([], [])"
| "fences (c # s) =
     (case fence_at (c # s) of
        Some (body, rest) \<Rightarrow> (case fences rest of (t, bs) \<Rightarrow> (t, body # bs))
      | None \<Rightarrow> (case fences s of (t, bs) \<Rightarrow> (c # t, bs)))"
  by pat_completeness auto
termination by (relation "measure length") (auto dest: fence_at_shorter)

declare fences.simps(2) [simp del]

definition ui_fallback :: "string \<Rightarrow> string \<Rightarrow> string \<Rightarrow> string \<times> js" where
  "ui_fallback reason detail requested =
     (''__fallback__'', JObj ([(''reason'', JStr reason), (''detail'', JStr detail)] @
        (if requested = [] then [] else [(''requested'', JStr requested)])))"

definition parseSpec :: "json \<Rightarrow> string \<Rightarrow> string \<times> js" where
  "parseSpec rt body =
     (case rt_parse rt (js_trim body) of
        None \<Rightarrow> ui_fallback ''json'' (take 140 (rt_error rt (js_trim body))) []
      | Some v \<Rightarrow>
          (if \<not> is_object_or_array v then ui_fallback ''shape'' ''no es un objeto'' []
           else case js_field ''template'' v of
                  JStr t \<Rightarrow>
                    (let props = js_field ''props'' v
                     in if t = [] then ui_fallback ''shape'' ''falta template'' []
                        else if props \<noteq> JUndef \<and> \<not> is_object props then ui_fallback ''shape'' ''props no es un objeto'' []
                        else if t \<notin> set UI_TEMPLATES then ui_fallback ''template'' t t
                        else (t, if props = JUndef then JObj [] else props))
                | _ \<Rightarrow> ui_fallback ''shape'' ''falta template'' []))"

text \<open>\<open>s.replace(/\n{3,}/g, "\n\n")\<close>.\<close>

fun squeeze_breaks :: "nat \<Rightarrow> string \<Rightarrow> string" where
  "squeeze_breaks n [] = []"
| "squeeze_breaks n (c # s) =
     (if c = CHR 0x0A then (if n < 2 then c # squeeze_breaks (Suc n) s else squeeze_breaks n s) else c # squeeze_breaks 0 s)"

definition extractUiComponents :: "json \<Rightarrow> string \<Rightarrow> string \<times> (string \<times> js) list" where
  "extractUiComponents rt t =
     (if \<not> sublist ''```'' t then (t, [])
      else (case fences t of (clean, bodies) \<Rightarrow>
              (trim_end (squeeze_breaks 0 clean), map (parseSpec rt) (take UI_MAX_PER_MESSAGE bodies))))"

section \<open>Lemmas\<close>

lemma events_of_append:
  "fold_messages rt ss seen (ms @ ns) =
     (case fold_messages rt ss seen ms of (es, s) \<Rightarrow> (case fold_messages rt ss s ns of (fs, s') \<Rightarrow> (es @ fs, s')))"
  by (induction ms arbitrary: seen) (simp_all add: case_prod_beta)

lemma snd_events_of: "snd (fold_messages rt ss seen ms) = (seen \<or> list_ex opens_task ms)"
  by (induction ms arbitrary: seen) (simp_all add: case_prod_beta disj_assoc)

text \<open>
  C34: A transcript can be followed piece by piece: what a reader shows that took over at any message, with the state it
  carried, or with none (then the state is found again in the messages before), is what one pass over the whole journal shows.
\<close>

theorem incremental_parse:
  "let (es, seen) = messagesToEvents rt ss ms 0 state in
     messagesToEvents rt ss (ms @ ns) 0 state =
       (es @ fst (messagesToEvents rt ss (ms @ ns) (length ms) (Some seen)),
        snd (messagesToEvents rt ss (ms @ ns) (length ms) (Some seen))) \<and>
     messagesToEvents rt ss (ms @ ns) (length ms) (Some (createParseState (ms @ ns) (length ms))) =
       messagesToEvents rt ss (ms @ ns) (length ms) None \<and>
     seen = (state = Some True \<or> createParseState (ms @ ns) (length ms))"
proof -
  define s0 where "s0 = (case state of Some s \<Rightarrow> s | None \<Rightarrow> False)"
  have start: "messagesToEvents rt ss xs 0 state = fold_messages rt ss s0 xs" for xs
    by (cases state) (simp_all add: messagesToEvents_def createParseState_def s0_def)
  obtain es s where e: "fold_messages rt ss s0 ms = (es, s)" by (metis surj_pair)
  obtain fs s' where f: "fold_messages rt ss s ns = (fs, s')" by (metis surj_pair)
  have "s = (s0 \<or> list_ex opens_task ms)" using snd_events_of [of rt ss s0 ms] e by simp
  moreover have "s0 = (state = Some True)" by (cases state) (simp_all add: s0_def)
  moreover have "messagesToEvents rt ss (ms @ ns) (length ms) (Some s) = (fs, s')" by (simp add: messagesToEvents_def f)
  moreover have "fold_messages rt ss s0 (ms @ ns) = (es @ fs, s')" by (simp add: events_of_append e f)
  ultimately show ?thesis unfolding start e
    by (simp add: createParseState_def) (simp add: messagesToEvents_def createParseState_def)
qed

text \<open>The lines of a text.\<close>

lemma split_char_no: "c \<notin> set s \<Longrightarrow> split_char c s = [s]"
  by (induction s) auto

lemma split_char_append:
  "c \<notin> set s \<Longrightarrow> split_char c (s @ c # r) = s # split_char c r"
  by (induction s) auto

lemma split_join_lines:
  "ls \<noteq> [] \<Longrightarrow> list_all (\<lambda>l. CHR 0x0A \<notin> set l) ls \<Longrightarrow> split_char (CHR 0x0A) (join nl ls) = ls"
  by (induction ls rule: induct_list012) (auto simp: nl_def split_char_no split_char_append)

lemma split_char_some: "split_char c s \<noteq> []"
  by (cases s) (auto split: list.splits)

lemma length_join: "length (join sep ls) = sum_list (map length ls) + length sep * (length ls - 1)"
  by (induction ls rule: induct_list012) auto

lemma join_append:
  "xs \<noteq> [] \<Longrightarrow> ys \<noteq> [] \<Longrightarrow> join sep (xs @ ys) = join sep xs @ sep @ join sep ys"
  by (induction xs rule: induct_list012) (auto simp: neq_Nil_conv)

lemma length_show_nat_mono: "m \<le> n \<Longrightarrow> length (show_nat m) \<le> length (show_nat n)"
proof (induction n arbitrary: m rule: less_induct)
  case (less n)
  show ?case
  proof (cases "m < 10")
    case True
    have "show_nat n \<noteq> []" by (rule show_nat_nonempty)
    with True show ?thesis by (subst show_nat.simps) (cases "show_nat n", auto)
  next
    case False
    with less have "length (show_nat (m div 10)) \<le> length (show_nat (n div 10))" by (intro less.IH div_le_mono) auto
    with False less.prems show ?thesis by (subst (1 2) show_nat.simps) simp
  qed
qed

lemma length_cut_line: "length (cut_line l) \<le> 2001"
  by (auto simp: cut_line_def slice_to_def ellipsis_def)

lemma length_kb_marker: "length body \<le> n \<Longrightarrow> length (kb_marker body) \<le> 28 + length (show_nat n)"
proof -
  assume le: "length body \<le> n"
  let ?k = "round_half_up (of_nat (length body) / 1024 :: rat)"
  have "?k \<le> \<lfloor>(of_nat (length body) :: rat)\<rfloor>"
  proof (cases "length body = 0")
    case True
    then show ?thesis by (simp add: round_half_up_def)
  next
    case False
    then have "(1 :: rat) \<le> of_nat (length body)" by (metis of_nat_1 of_nat_le_iff One_nat_def Suc_leI neq0_conv)
    then have "(of_nat (length body) / 1024 + 1 / 2 :: rat) \<le> of_nat (length body)" by simp
    then show ?thesis unfolding round_half_up_def by (rule floor_mono)
  qed
  moreover have "0 \<le> ?k" by (simp add: round_half_up_def)
  ultimately have "show_int ?k = show_nat (nat ?k)" "nat ?k \<le> length body" by (auto simp: show_int_def)
  then show ?thesis using length_show_nat_mono [of "nat ?k" n] le by (simp add: kb_marker_def)
qed

text \<open>
  However long an output is, what the transcript keeps of it has at most 64\,100 characters, and the digits of a number.
\<close>

lemma sum_list_bound: "(\<And>x. x \<in> set xs \<Longrightarrow> f x \<le> (k::nat)) \<Longrightarrow> sum_list (map f xs) \<le> k * length xs"
  by (induction xs) (auto simp: add_mono)

theorem bound_text_bounded: "length (boundText t) \<le> 64100 + length (show_nat (length t))"
proof (cases "int (length t) \<le> OUTPUT_MAX_CHARS + 2000")
  case True
  then show ?thesis by (simp add: boundText_def OUTPUT_MAX_CHARS_def)
next
  case False
  define body where "body = drop_last_lines t"
  define lines where "lines = split_char (CHR 0x0A) body"
  define long where "long \<longleftrightarrow> OUTPUT_HEAD_LINES + OUTPUT_TAIL_LINES + 1 < length lines"
  define head where "head = (if long then join nl (take OUTPUT_HEAD_LINES lines) else body)"
  define tail where "tail = (if long then map cut_line (last_n OUTPUT_TAIL_LINES lines) else [])"
  define mark where "mark = ''... '' @ show_nat (length lines - OUTPUT_HEAD_LINES - OUTPUT_TAIL_LINES) @ '' lines hidden ...''"
  define parts where "parts = (if OUTPUT_MAX_CHARS < int (length head) then [slice_to OUTPUT_MAX_CHARS head, kb_marker body]
                         else if long then [head, mark] else [head])"
  have t: "boundText t = join nl (parts @ tail)"
    using False by (simp add: boundText_def body_def lines_def long_def head_def tail_def mark_def parts_def Let_def)
  have body: "length body \<le> length t" by (simp add: body_def drop_last_lines_def) (metis length_dropWhile_le length_rev)
  have "length (split_char c s) \<le> Suc (length s)" for c s by (induction s) (auto split: list.splits)
  then have "length lines \<le> Suc (length body)" by (simp add: lines_def)
  then have mark: "length mark \<le> 28 + length (show_nat (length t))"
    using length_show_nat_mono [of "length lines - OUTPUT_HEAD_LINES - OUTPUT_TAIL_LINES" "length t"] body
    by (simp add: mark_def OUTPUT_HEAD_LINES_def OUTPUT_TAIL_LINES_def le_diff_conv)
  have ltail: "length tail \<le> 12" by (simp add: tail_def last_n_def OUTPUT_TAIL_LINES_def) arith
  have "sum_list (map length tail) \<le> 2001 * length tail"
    by (rule sum_list_bound) (auto simp: tail_def length_cut_line)
  with ltail have tail: "sum_list (map length tail) \<le> 24012" by simp
  have len: "length nl = 1" by (simp add: nl_def)
  have "sum_list (map length parts) \<le> 40028 + length (show_nat (length t)) \<and> length parts \<le> 2"
    using mark length_kb_marker [OF body] length_slice_to [of OUTPUT_MAX_CHARS head]
    by (auto simp: parts_def OUTPUT_MAX_CHARS_def)
  with tail ltail show ?thesis by (simp add: t length_join len) arith
qed

text \<open>How many lines a text has.\<close>

lemma length_split_char: "length (split_char c s) = Suc (count_list s c)"
  by (induction s) (auto split: list.splits)

lemma count_join: "list_all (\<lambda>l. CHR 0x0A \<notin> set l) ls \<Longrightarrow> count_list (join nl ls) (CHR 0x0A) = length ls - 1"
  by (induction ls rule: induct_list012) (auto simp: nl_def)

lemma drop_last_lines_id: "s \<noteq> [] \<Longrightarrow> last s \<noteq> CHR 0x0A \<Longrightarrow> drop_last_lines s = s"
  by (cases s rule: rev_cases) (auto simp: drop_last_lines_def)

lemma last_join: "ls \<noteq> [] \<Longrightarrow> last ls \<noteq> [] \<Longrightarrow> join nl ls \<noteq> [] \<and> last (join nl ls) = last (last ls)"
  by (induction ls rule: induct_list012) (auto simp: nl_def)

lemma digits_no_newline: "CHR 0x0A \<notin> set (show_nat n)"
  using show_nat_digits [of n] by (auto simp: list_all_iff is_digit_def)

lemma kb_marker_no_newline: "CHR 0x0A \<notin> set (kb_marker s)"
  by (auto simp: kb_marker_def show_int_def digits_no_newline)

lemma join_snoc: "ls \<noteq> [] \<Longrightarrow> join nl (l # ls) = l @ nl @ join nl ls"
  by (cases ls) auto

lemma bound_long:
  assumes "OUTPUT_MAX_CHARS + 2000 < int (length t)" "drop_last_lines t = t"
    "split_char (CHR 0x0A) t = hs @ ms @ ts" "length hs = OUTPUT_HEAD_LINES" "2 \<le> length ms" "length ts = OUTPUT_TAIL_LINES"
    "OUTPUT_MAX_CHARS < int (length (join nl hs))" "list_all (\<lambda>l. int (length l) \<le> 2000) ts"
  shows "boundText t = join nl ([slice_to OUTPUT_MAX_CHARS (join nl hs), kb_marker t] @ ts)"
proof -
  have "map cut_line ts = ts" using assms(8) by (induction ts) (auto simp: cut_line_def)
  with assms show ?thesis
    by (simp add: boundText_def Let_def last_n_def OUTPUT_HEAD_LINES_def OUTPUT_TAIL_LINES_def)
qed

lemma bound_few_lines:
  assumes "OUTPUT_MAX_CHARS + 2000 < int (length t)" "drop_last_lines t = t"
    "length (split_char (CHR 0x0A) t) \<le> OUTPUT_HEAD_LINES + OUTPUT_TAIL_LINES + 1"
  shows "boundText t = join nl [slice_to OUTPUT_MAX_CHARS t, kb_marker t]"
  using assms by (simp add: boundText_def Let_def)

text \<open>
  A text that was bounded is bounded again when it is read back from the database, and that is not the identity: the
  first time the last lines are kept behind a mark, the second time the text has few lines, is too long still, and is cut
  behind the head, so the last lines are gone.
\<close>

lemma bound_text_loses_the_tail:
  assumes ls: "list_all (\<lambda>l. CHR 0x0A \<notin> set l) (hs @ ms @ ts)" "length hs = OUTPUT_HEAD_LINES" "2 \<le> length ms"
    "length ts = OUTPUT_TAIL_LINES"
    and head: "OUTPUT_MAX_CHARS < int (length (join nl hs))"
    and tail: "list_all (\<lambda>l. int (length l) \<le> 2000) ts" "2000 < int (length (join nl ts))" "last ts \<noteq> []"
  shows "\<exists>h mark mark'. int (length h) = OUTPUT_MAX_CHARS \<and> prefix h (join nl hs) \<and>
           boundText (join nl (hs @ ms @ ts)) = join nl ([h, mark] @ ts) \<and>
           boundText (boundText (join nl (hs @ ms @ ts))) = join nl [h, mark']"
proof -
  let ?t = "join nl (hs @ ms @ ts)"
  define h where "h = slice_to OUTPUT_MAX_CHARS (join nl hs)"
  have ne: "hs \<noteq> []" "ms \<noteq> []" "ts \<noteq> []" using ls by (auto simp: OUTPUT_HEAD_LINES_def OUTPUT_TAIL_LINES_def)
  have no: "CHR 0x0A \<notin> set (last ts)" using ls(1) ne(3) by (auto simp: list_all_iff)
  have ends: "last (join nl (us @ ts)) \<noteq> CHR 0x0A \<and> join nl (us @ ts) \<noteq> []" for us
    using last_join [of "us @ ts"] ne tail(3) no by (metis append_is_Nil_conv last_appendR last_in_set)
  have t: "?t = join nl hs @ nl @ join nl ms @ nl @ join nl ts" using ne by (simp add: join_append)
  have lh: "int (length h) = OUTPUT_MAX_CHARS" using head by (simp add: h_def slice_to_def OUTPUT_MAX_CHARS_def)
  have kept: "drop_last_lines (join nl (us @ ts)) = join nl (us @ ts)" for us
    using ends [of us] by (intro drop_last_lines_id) auto
  have lines: "split_char (CHR 0x0A) ?t = hs @ ms @ ts" by (rule split_join_lines) (use ls(1) ne in auto)
  have "OUTPUT_MAX_CHARS + 2000 < int (length ?t)" unfolding t using head tail(2) by simp
  then have first: "boundText ?t = join nl ([h, kb_marker ?t] @ ts)" unfolding h_def
    using kept [of "hs @ ms"] by (intro bound_long [OF _ _ lines ls(2-4) head tail(1)]) auto
  let ?b = "join nl ([h, kb_marker ?t] @ ts)"
  have b: "?b = h @ nl @ kb_marker ?t @ nl @ join nl ts" using ne by (simp add: join_snoc)
  have "count_list h (CHR 0x0A) \<le> count_list (join nl hs) (CHR 0x0A)"
    by (metis append_take_drop_id count_list_append h_def le_add1 slice_to_def)
  then have "count_list h (CHR 0x0A) \<le> 499" using ls(1,2) by (simp add: count_join OUTPUT_HEAD_LINES_def)
  moreover have "count_list (join nl ts) (CHR 0x0A) = 11" using ls by (simp add: count_join OUTPUT_TAIL_LINES_def)
  ultimately have few: "length (split_char (CHR 0x0A) ?b) \<le> OUTPUT_HEAD_LINES + OUTPUT_TAIL_LINES + 1"
    using kb_marker_no_newline [of ?t] unfolding b
    by (simp add: length_split_char nl_def OUTPUT_HEAD_LINES_def OUTPUT_TAIL_LINES_def)
  have "boundText ?b = join nl [slice_to OUTPUT_MAX_CHARS ?b, kb_marker ?b]"
  proof (rule bound_few_lines [OF _ kept few])
    show "OUTPUT_MAX_CHARS + 2000 < int (length ?b)" unfolding b using lh tail(2) by simp
  qed
  moreover have "slice_to OUTPUT_MAX_CHARS ?b = h" unfolding b using lh by (simp add: slice_to_def flip: lh)
  moreover have "prefix h (join nl hs)" by (simp add: h_def slice_to_def take_is_prefix)
  ultimately show ?thesis using first lh by metis
qed

end
