(* ===== verification/LiveSessions.thy ===== *)
theory LiveSessions
  imports SessionStore Transcript
begin

text \<open>
  The sessions a web server holds open (src/web/sessions.ts, \<open>SessionManager\<close>).  An entry is an object that the handlers of
  its processes keep a reference to, also after the session was closed, so the entries are a store and the map of open
  sessions holds references.  A process is a row of a table: a local agent with its control file, or a remote turn over
  \<open>ssh\<close>.  What the server does to the outside is a log.  A method is a function on the server; a wait for a probe (is that
  agent alive?) ends the function, and the probe's answer is an event of its own.  The clock, the files, the installed skills,
  the configured hosts and the encoding of a transcript as text are the environment.  The router's supervision of a run,
  the roster of subagents on disk and the chat groups are outside this model.
\<close>

section \<open>State\<close>

datatype session_status = SIdle | SRunning | SDone | SError | SInterrupted

record live_session =
  ls_id :: string
  ls_title :: string
  ls_cwd :: string
  ls_model :: string
  ls_task :: string
  ls_remote :: bool
  ls_host :: string
  ls_status :: session_status
  ls_events :: "run_event list"
  ls_partial :: "(string \<times> string) option"
  ls_messages :: "js list"
  ls_info :: run_info
  ls_created_at :: int
  ls_updated_at :: int
  ls_started_at :: int
  ls_api_calls :: rat
  ls_cost :: rat
  ls_exit_status :: string
  ls_subagents :: "(string \<times> string) list"
  ls_parent :: string
  ls_role :: "string option"

text \<open>A subagent is its session and its state; a profile its role, its environment and its configuration files.\<close>

record profile =
  pf_role :: string
  pf_env :: "(string \<times> string) list"
  pf_specs :: "string list"

record mini_run =
  mr_id :: nat
  mr_traj :: string
  mr_control :: string
  mr_pid :: int
  mr_attached :: bool

record internal =
  en_session :: live_session
  en_run :: "mini_run option"
  en_remote :: "nat option"
  en_watch :: "(string \<times> bool) option"
  en_pending :: "string list"
  en_exited :: bool
  en_traj :: "string option"
  en_consumed :: nat
  en_seen :: bool
  en_probing :: bool
  en_synced :: "int option"
  en_rebuild :: bool
  en_remotes :: "nat list"
  en_stopped :: "nat list"
  en_queue :: "string list"
  en_persisted_count :: "nat option"
  en_persisted_at :: int
  en_mirror :: "run_event list option"
  en_usage :: nat
  en_profile :: "profile option"

datatype control_line = CMessage string | CModel string | CCompact

text \<open>Which handler waits for the end of a local process.\<close>

datatype run_kind = KCreate | KResume | KCompact | KAttach

record proc =
  pr_id :: nat
  pr_entry :: nat
  pr_kind :: run_kind
  pr_traj :: string
  pr_alive :: bool
  pr_told :: bool
  pr_unread :: "control_line list"

record remote_proc =
  rp_id :: nat
  rp_entry :: nat
  rp_first :: bool
  rp_alive :: bool
  rp_told :: bool
  rp_settled :: bool
  rp_buffer :: string

datatype out =
    OEmit string
  | ORunExit string session_status
  | OFallback string string
  | OUsage string nat nat
  | OSpawn nat string string string "string list" bool bool
  | OControl nat control_line
  | OInterrupt nat
  | OKill nat
  | ORemote nat string string string
  | OStopRemote nat
  | OAskTitle string string
  | OLastModel string

text \<open>What goes on when a probe answers.\<close>

datatype purpose = PSync | PSend string "upload list" string bool | POpen bool

record server =
  sv_entries :: "internal list"
  sv_live :: "(string \<times> nat) list"
  sv_db :: session_db
  sv_closed :: bool
  sv_procs :: "proc list"
  sv_remotes :: "remote_proc list"
  sv_probes :: "(nat \<times> live_run \<times> purpose) list"
  sv_pass :: "(nat \<times> int option \<times> bool option) list"
  sv_next :: nat
  sv_out :: "out list"

record host =
  hs_id :: string
  hs_workdir :: string

record env =
  ev_now :: int
  ev_json :: json
  ev_skills :: "skill_file list"
  ev_exists :: "string \<Rightarrow> bool"
  ev_expand :: "string \<Rightarrow> string"
  ev_home :: string
  ev_here :: string
  ev_default_model :: string
  ev_inline :: "string \<Rightarrow> string \<Rightarrow> string"
  ev_mirror :: "string \<Rightarrow> run_event list \<Rightarrow> run_event list"
  ev_profile_of :: "string \<Rightarrow> profile option"
  ev_hosts :: "host list"
  ev_resume_ok :: bool
  ev_paths :: "nat \<Rightarrow> string \<times> string \<times> int"
  ev_journal :: "string \<Rightarrow> trajectory option"
  ev_child :: "string \<Rightarrow> string \<Rightarrow> string option"
  ev_log_tail :: "nat \<Rightarrow> string"
  ev_compact_ok :: bool
  ev_dump_events :: "run_event list \<Rightarrow> string"
  ev_load_events :: "string \<Rightarrow> run_event list"
  ev_dump_info :: "run_info \<Rightarrow> string"
  ev_load_info :: "string \<Rightarrow> run_info option"

section \<open>Entries\<close>

definition entry :: "nat \<Rightarrow> server \<Rightarrow> internal" where
  "entry k s = sv_entries s ! k"

definition put_entry :: "nat \<Rightarrow> internal \<Rightarrow> server \<Rightarrow> server" where
  "put_entry k e s = s\<lparr>sv_entries := (sv_entries s)[k := e]\<rparr>"

definition on_session :: "(live_session \<Rightarrow> live_session) \<Rightarrow> internal \<Rightarrow> internal" where
  "on_session f e = e\<lparr>en_session := f (en_session e)\<rparr>"

definition add_events :: "run_event list \<Rightarrow> internal \<Rightarrow> internal" where
  "add_events es = on_session (\<lambda>l. l\<lparr>ls_events := ls_events l @ es\<rparr>)"

definition set_status :: "session_status \<Rightarrow> internal \<Rightarrow> internal" where
  "set_status st = on_session (\<lambda>l. l\<lparr>ls_status := st\<rparr>)"

definition say :: "out list \<Rightarrow> server \<Rightarrow> server" where
  "say os s = s\<lparr>sv_out := sv_out s @ os\<rparr>"

definition held :: "server \<Rightarrow> string \<Rightarrow> nat option" where
  "held s i = map_of (sv_live s) i"

definition touch :: "env \<Rightarrow> internal \<Rightarrow> internal" where
  "touch v = on_session (\<lambda>l. l\<lparr>ls_updated_at := ev_now v\<rparr>)"

definition emit :: "env \<Rightarrow> nat \<Rightarrow> server \<Rightarrow> server" where
  "emit v k s = say [OEmit (ls_id (en_session (entry k s)))] (put_entry k (touch v (entry k s)) s)"

text \<open>The session's own or attached agent has not left: \<open>entry.run && !entry.exited\<close>.\<close>

definition run_live :: "internal \<Rightarrow> bool" where
  "run_live e \<longleftrightarrow> en_run e \<noteq> None \<and> \<not> en_exited e"

definition attached :: "internal \<Rightarrow> bool" where
  "attached e \<longleftrightarrow> (case en_run e of Some r \<Rightarrow> mr_attached r | None \<Rightarrow> False)"

section \<open>Saved rows\<close>

definition attach_notice :: "run_event \<Rightarrow> bool" where
  "attach_notice e \<longleftrightarrow> (case e of EvNotice t i \<Rightarrow> i = ''attach'' | _ \<Rightarrow> False)"

definition row_messages :: "env \<Rightarrow> session_row \<Rightarrow> js list" where
  "row_messages v r = (case rt_parse (ev_json v) (sr_messages_json r) of
     Some (JArr ms) \<Rightarrow> filter is_object_or_array ms | _ \<Rightarrow> [])"

definition restoreFromRow :: "env \<Rightarrow> session_row \<Rightarrow> live_session" where
  "restoreFromRow v r =
     \<lparr>ls_id = sr_id r,
      ls_title = (if sr_title r \<noteq> [] then sr_title r else if fallbackTitle (sr_task r) \<noteq> [] then fallbackTitle (sr_task r) else sr_id r),
      ls_cwd = sr_cwd r, ls_model = sr_model r, ls_task = sr_task r, ls_remote = False, ls_host = [],
      ls_status = (if sr_exit_status r = ''Submitted'' then SDone else if sr_exit_status r \<noteq> [] then SError else SIdle),
      ls_events = map boundEvent (ev_load_events v (sr_events_json r)), ls_partial = None,
      ls_messages = row_messages v r,
      ls_info = (case ev_load_info v (sr_info_json r) of Some i \<Rightarrow> i
                 | None \<Rightarrow> \<lparr>ri_model = None, ri_api_base = None, ri_cost = sr_cost r, ri_api_calls = of_int (sr_api_calls r),
                            ri_exit_status = None, ri_submission = None, ri_format = None\<rparr>),
      ls_created_at = sr_created_at r, ls_updated_at = sr_updated_at r, ls_started_at = sr_updated_at r,
      ls_api_calls = of_int (sr_api_calls r), ls_cost = sr_cost r, ls_exit_status = sr_exit_status r,
      ls_subagents = [], ls_parent = sr_parent_id r, ls_role = None\<rparr>"

text \<open>Is the saved row newer than this copy, and not ours to write?\<close>

definition superseded_by_row :: "internal \<Rightarrow> session_db \<Rightarrow> bool" where
  "superseded_by_row e d =
     (if en_run e \<noteq> None \<and> \<not> attached e then False
      else (case (en_synced e, session_stamp d (ls_id (en_session e))) of
              (Some at', Some stamp) \<Rightarrow> at' < stamp | _ \<Rightarrow> False))"

definition persist :: "env \<Rightarrow> nat \<Rightarrow> server \<Rightarrow> server" where
  "persist v k s =
     (let e = entry k s; l = en_session e; d = sv_db s
      in if attached e \<and> \<not> en_exited e then s
         else if superseded_by_row e d then s
         else put_entry k (e\<lparr>en_synced := Some (ev_now v)\<rparr>)
           (s\<lparr>sv_db :=
              (if ls_messages l \<noteq> [] then
                 write_resume_file (ls_id l) (save_transcript (ev_now v) (ls_id l) (ev_dump_events v (ls_events l))
                   (ev_dump_info v (ls_info l)) (rt_dump (ev_json v) (JArr (ls_messages l)))
                   (round_half_up (ri_api_calls (ls_info l))) (ri_cost (ls_info l))
                   (case ri_exit_status (ls_info l) of Some x \<Rightarrow> x | None \<Rightarrow> []) d)
               else update_session (ev_now v) (ls_id l) (no_patch\<lparr>pt_exit_status := Some (ls_exit_status l),
                      pt_api_calls := Some (round_half_up (ls_api_calls l)), pt_cost := Some (ls_cost l),
                      pt_events_json := Some (ev_dump_events v (ls_events l))\<rparr>) d)\<rparr>))"

definition PERSIST_MS :: int where "PERSIST_MS = 15000"

definition persist_dirty_entry :: "env \<Rightarrow> nat \<Rightarrow> server \<Rightarrow> server" where
  "persist_dirty_entry v k s =
     (let e = entry k s; count = length (ls_messages (en_session e)) + length (ls_events (en_session e))
      in if ls_remote (en_session e) \<or> en_exited e \<or> attached e then s
         else if count = 0 \<or> en_persisted_count e = Some count then s
         else if ev_now v - en_persisted_at e < PERSIST_MS then s
         else (let s' = persist v k s
               in put_entry k ((entry k s')\<lparr>en_persisted_count := Some count, en_persisted_at := ev_now v\<rparr>) s'))"

definition persist_dirty :: "env \<Rightarrow> server \<Rightarrow> server" where
  "persist_dirty v s = fold (persist_dirty_entry v) (map snd (sv_live s)) s"

definition persist_all :: "env \<Rightarrow> server \<Rightarrow> server" where
  "persist_all v s = fold (persist v) (map snd (sv_live s)) s"

section \<open>The mirror\<close>

definition with_mirror :: "env \<Rightarrow> internal \<Rightarrow> internal" where
  "with_mirror v e =
     (let m = (case en_mirror e of Some m \<Rightarrow> m | None \<Rightarrow> ev_mirror v (ls_id (en_session e)) (ls_events (en_session e)))
      in add_events m (e\<lparr>en_mirror := Some m\<rparr>))"

definition inject_channel :: "env \<Rightarrow> string \<Rightarrow> run_event \<Rightarrow> server \<Rightarrow> server \<times> bool" where
  "inject_channel v i ev s =
     (case held s i of
        None \<Rightarrow> (s, False)
      | Some k \<Rightarrow>
          (let e = entry k s; m = (case en_mirror e of Some m \<Rightarrow> m | None \<Rightarrow> [])
           in (emit v k (put_entry k (add_events [ev] (e\<lparr>en_mirror := Some (m @ [ev])\<rparr>)) s), True)))"

definition inject_notice :: "env \<Rightarrow> string \<Rightarrow> string \<Rightarrow> server \<Rightarrow> server \<times> bool" where
  "inject_notice v i text s = inject_channel v i (EvNotice text ''queue'') s"

section \<open>Following a journal\<close>

text \<open>The journal's copy of a prompt that was shown when it was sent is left out, once for every pending prompt.\<close>

fun drop_echoes :: "string list \<Rightarrow> run_event list \<Rightarrow> run_event list \<times> string list" where
  "drop_echoes pending [] = ([], pending)"
| "drop_echoes pending (e # es) =
     (case e of
        EvTask t atts \<Rightarrow>
          (if t \<in> set pending then drop_echoes (remove1 t pending) es
           else (case drop_echoes pending es of (r, p) \<Rightarrow> (e # r, p)))
      | _ \<Rightarrow> (case drop_echoes pending es of (r, p) \<Rightarrow> (e # r, p)))"

text \<open>The images an agent names become served images (local sessions with a folder).\<close>

definition inline_text :: "env \<Rightarrow> live_session \<Rightarrow> string \<Rightarrow> string" where
  "inline_text v l t = (if \<not> ls_remote l \<and> ls_cwd l \<noteq> [] then ev_inline v t (ls_cwd l) else t)"

definition present :: "env \<Rightarrow> live_session \<Rightarrow> run_event \<Rightarrow> run_event list" where
  "present v l ev =
     (case ev of
        EvAssistant t cost \<Rightarrow>
          (if t = [] then [ev]
           else (let t' = inline_text v l t
                 in if sublist ''```'' t' then
                      (case extractUiComponents (ev_json v) t' of (clean, specs) \<Rightarrow>
                         (if specs = [] then [EvAssistant t' cost]
                          else (if js_trim clean = [] then [] else [EvAssistant clean cost]) @ map (\<lambda>(n, p). EvUi n p) specs))
                    else [EvAssistant t' cost]))
      | EvExit st sub \<Rightarrow> (if sub = [] then [ev] else [EvExit st (inline_text v l sub)])
      | _ \<Rightarrow> [ev])"

definition is_prompt :: "run_event \<Rightarrow> bool" where
  "is_prompt e \<longleftrightarrow> (case e of EvTask t a \<Rightarrow> True | _ \<Rightarrow> False)"

fun exit_of :: "run_event \<Rightarrow> string option" where
  "exit_of (EvExit st sub) = Some st"
| "exit_of e = None"

definition last_exit :: "run_event list \<Rightarrow> string option" where
  "last_exit es = (case rev (List.map_filter exit_of es) of [] \<Rightarrow> None | x # _ \<Rightarrow> Some x)"

definition fell_back :: "run_event list \<Rightarrow> bool" where
  "fell_back es = list_ex (\<lambda>e. case e of EvNotice t i \<Rightarrow> i = ''ModelFallback'' | _ \<Rightarrow> False) es"

definition children_working :: "live_session \<Rightarrow> bool" where
  "children_working l = list_ex (\<lambda>c. snd c = ''running'' \<or> snd c = ''starting'') (ls_subagents l)"

definition take_info :: "run_info \<Rightarrow> live_session \<Rightarrow> live_session" where
  "take_info i l = l\<lparr>ls_info := i, ls_api_calls := ri_api_calls i, ls_cost := ri_cost i,
     ls_exit_status := (case ri_exit_status i of Some x \<Rightarrow> (if x = [] then ls_exit_status l else x) | None \<Rightarrow> ls_exit_status l)\<rparr>"

text \<open>The transcript starts again: on another agent's journal, or on a journal that was written anew.\<close>

definition restart_transcript :: "env \<Rightarrow> (run_event \<Rightarrow> bool) \<Rightarrow> internal \<Rightarrow> internal" where
  "restart_transcript v keep e =
     with_mirror v (on_session (\<lambda>l. l\<lparr>ls_events := filter keep (ls_events l)\<rparr>)
       (e\<lparr>en_consumed := 0, en_seen := False, en_pending := []\<rparr>))"

text \<open>The turn's status after new events.\<close>

definition status_after :: "env \<Rightarrow> run_event list \<Rightarrow> internal \<Rightarrow> internal" where
  "status_after v fresh e =
     (let l = en_session e; ex = last_exit fresh
      in case ex of
           None \<Rightarrow>
             (if run_live e \<and> ls_status l \<noteq> SRunning \<and> ls_status l \<noteq> SInterrupted \<and> list_ex is_prompt fresh
              then on_session (\<lambda>l. l\<lparr>ls_status := SRunning, ls_started_at := ev_now v\<rparr>) e else e)
         | Some st \<Rightarrow>
             (if ls_status l = SInterrupted then e
              else on_session (\<lambda>l. l\<lparr>
                     ls_status := (if st = ''Submitted'' then (if children_working l then SIdle else SDone) else SError),
                     ls_exit_status := (if children_working l \<and> st = ''Submitted'' then [] else st)\<rparr>) e))"

record journal_state =
  sn_traj :: trajectory
  sn_same :: bool

text \<open>
  \<open>sn_same\<close>: the snapshot's messages are the very array of the one before, so only the new ones are copied.
\<close>

definition retained :: "journal_state \<Rightarrow> js list \<Rightarrow> js list" where
  "retained n old = (let ms = tj_messages (sn_traj n)
     in if \<not> sn_same n \<or> length ms < length old then map slimMessage ms
        else old @ map slimMessage (drop (length old) ms))"

text \<open>What a snapshot does first: the transcript starts again where it must, and the message in flight is shown.\<close>

definition ingest_start :: "env \<Rightarrow> journal_state \<Rightarrow> internal \<Rightarrow> internal" where
  "ingest_start v n e0 =
     (let ms = tj_messages (sn_traj n);
          e1 = (if en_rebuild e0 \<and> ms \<noteq> [] then restart_transcript v attach_notice (e0\<lparr>en_rebuild := False\<rparr>) else e0);
          e2 = (if length ms < en_consumed e1 then restart_transcript v (\<lambda>_. False) e1 else e1)
      in on_session (\<lambda>l. l\<lparr>ls_partial := (case tj_partial (sn_traj n) of
             Some (a, b) \<Rightarrow> (if a = [] \<and> b = [] then None else Some (a, b)) | None \<Rightarrow> None)\<rparr>)
           (e2\<lparr>en_usage := max (en_usage e2) (length ms)\<rparr>))"

text \<open>The new messages of a snapshot: their events, less the echoes of prompts that were shown when they were sent.\<close>

definition fresh_events :: "env \<Rightarrow> journal_state \<Rightarrow> internal \<Rightarrow> run_event list \<times> string list" where
  "fresh_events v n e = drop_echoes (en_pending e)
     (fst (messagesToEvents (ev_json v) False (tj_messages (sn_traj n)) (en_consumed e) (Some (en_seen e))))"

definition show_fresh :: "env \<Rightarrow> journal_state \<Rightarrow> internal \<Rightarrow> internal" where
  "show_fresh v n e =
     add_events (map boundEvent (concat (map (present v (en_session e)) (fst (fresh_events v n e)))))
       (e\<lparr>en_consumed := length (tj_messages (sn_traj n)),
          en_seen := snd (messagesToEvents (ev_json v) False (tj_messages (sn_traj n)) (en_consumed e) (Some (en_seen e))),
          en_pending := snd (fresh_events v n e)\<rparr>)"

definition switched_model :: "run_event list \<Rightarrow> run_info \<Rightarrow> live_session \<Rightarrow> string option" where
  "switched_model fresh i l =
     (case ri_model i of Some m \<Rightarrow> (if fell_back fresh \<and> m \<noteq> [] \<and> m \<noteq> ls_model l then Some m else None) | None \<Rightarrow> None)"

definition take_model :: "string option \<Rightarrow> internal \<Rightarrow> internal" where
  "take_model m e = (case m of Some x \<Rightarrow> on_session (\<lambda>l. l\<lparr>ls_model := x\<rparr>) e | None \<Rightarrow> e)"

definition ingest_entry :: "env \<Rightarrow> journal_state \<Rightarrow> internal \<Rightarrow> internal \<times> out list" where
  "ingest_entry v n e0 =
     (let ms = tj_messages (sn_traj n); i = ls_id (en_session e0); e = ingest_start v n e0; info = parseInfo (sn_traj n);
          used = (if en_usage e0 < length ms then [OUsage i (en_usage e0) (length ms)] else []);
          fresh = fst (fresh_events v n e); m = switched_model fresh info (en_session e)
      in if length ms = en_consumed e then (touch v (on_session (take_info info) e), used @ [OEmit i])
         else (touch v (on_session (\<lambda>l. l\<lparr>ls_messages := retained n (ls_messages l)\<rparr>)
                 (status_after v fresh (take_model m (on_session (take_info info) (show_fresh v n e))))),
               used @ (case m of Some x \<Rightarrow> [OFallback i x] | None \<Rightarrow> []) @ [OEmit i]))"

end
