(* ===== verification/SessionOps.thy ===== *)
theory SessionOps
  imports LiveSessions
begin

text \<open>
  What the server does with its sessions (src/web/sessions.ts): starting, following, resuming and ending agents, remote
  turns, prompts, stops, the background pass that keeps step with other user interfaces, and the saved list of open sessions.
\<close>

section \<open>Why a run failed\<close>

definition cause_line :: "string \<Rightarrow> bool" where
  "cause_line l =
     (let run = takeWhile (\<lambda>c. word_char c \<or> c = CHR ''.'') l
      in (case run of [] \<Rightarrow> False | c # _ \<Rightarrow> alpha c \<or> c = CHR ''_'') \<and> prefix '':'' (drop (length run) l) \<and>
         list_ex (\<lambda>k. suffix k run \<and> length k < length run) [''Error'', ''Exception'', ''Abort'', ''Timeout''])"

definition without_request_id :: "string \<Rightarrow> string" where
  "without_request_id s =
     (case find_sub ''(request_id:'' s of
        None \<Rightarrow> s
      | Some i \<Rightarrow>
          (case dropWhile (\<lambda>c. c \<noteq> CHR '')'') (drop i s) of
             [] \<Rightarrow> s
           | _ # rest \<Rightarrow> trim_end (take i s) @ rest))"

definition http_status :: "string \<Rightarrow> string \<Rightarrow> bool" where
  "http_status n t = re_test (Seq Boundary (Seq (lit (''HTTP '' @ n)) Boundary)) t"

definition explainFailure :: "string \<Rightarrow> string" where
  "explainFailure log_tail =
     (case rev (filter cause_line (map js_trim (split_char (CHR 0x0A) log_tail))) of
        [] \<Rightarrow> []
      | cause # _ \<Rightarrow>
          (let (type, rest) = (case find_sub '': '' cause of None \<Rightarrow> (cause, []) | Some i \<Rightarrow> (take i cause, drop (i + 2) cause));
               friendly = after_last (CHR ''.'') type @ '': '' @ js_trim (without_request_id rest);
               advice = (\<lambda>t. friendly @ nl @ nl @ t)
           in if http_status ''402'' friendly then
                advice ''The provider account is out of credit. Retrying will not help until it is topped up.''
              else if http_status ''401'' friendly \<or> http_status ''403'' friendly then
                advice ''The provider rejected the API key. Check the key configured for this model.''
              else if http_status ''429'' friendly then
                advice ''Rate limited by the provider. Wait a moment, or switch to another model.''
              else if re_test (re_any [lit_i ''context length'', lit_i ''context window'', lit_i ''too many tokens'', lit_i ''maximum context'']) friendly then
                advice (''The conversation outgrew the model'' @ [CHR 0x27] @ ''s context window. Start a new session.'')
              else friendly))"

section \<open>Processes\<close>

definition spawn ::
  "env \<Rightarrow> nat \<Rightarrow> run_kind \<Rightarrow> string \<Rightarrow> string \<Rightarrow> string \<Rightarrow> string list \<Rightarrow> bool \<Rightarrow> bool \<Rightarrow> server \<Rightarrow> server \<times> mini_run" where
  "spawn v k kind task model cwd specs resume shrink s =
     (let n = sv_next s
      in case ev_paths v n of (traj, control, pid) \<Rightarrow>
           (say [OSpawn n task model cwd specs resume shrink]
              (s\<lparr>sv_next := Suc n, sv_procs := sv_procs s @
                  [\<lparr>pr_id = n, pr_entry = k, pr_kind = kind, pr_traj = traj, pr_alive = True, pr_told = False, pr_unread = []\<rparr>]\<rparr>),
            \<lparr>mr_id = n, mr_traj = traj, mr_control = control, mr_pid = pid, mr_attached = False\<rparr>))"

definition on_proc :: "nat \<Rightarrow> (proc \<Rightarrow> proc) \<Rightarrow> server \<Rightarrow> server" where
  "on_proc n f s = s\<lparr>sv_procs := map (\<lambda>p. if pr_id p = n then f p else p) (sv_procs s)\<rparr>"

text \<open>A line for the control file of an agent.\<close>

definition control :: "mini_run \<Rightarrow> control_line \<Rightarrow> server \<Rightarrow> server" where
  "control r c s = say [OControl (mr_id r) c] (on_proc (mr_id r) (\<lambda>p. p\<lparr>pr_unread := pr_unread p @ [c]\<rparr>) s)"

text \<open>\<open>kill\<close> only lets go of an attached agent; the owner decides when it ends.\<close>

definition kill :: "mini_run \<Rightarrow> server \<Rightarrow> server" where
  "kill r s = (if mr_attached r then on_proc (mr_id r) (\<lambda>p. p\<lparr>pr_alive := False\<rparr>) s
     else say [OKill (mr_id r)] (on_proc (mr_id r) (\<lambda>p. p\<lparr>pr_told := True\<rparr>) s))"

definition interrupt_run :: "mini_run \<Rightarrow> server \<Rightarrow> server" where
  "interrupt_run r s = say [OInterrupt (mr_id r)] (on_proc (mr_id r) (\<lambda>p. p\<lparr>pr_told := True\<rparr>) s)"

definition announce :: "env \<Rightarrow> nat \<Rightarrow> mini_run \<Rightarrow> server \<Rightarrow> server" where
  "announce v k r s =
     (if mr_attached r \<or> mr_pid r = 0 then s
      else (let i = ls_id (en_session (entry k s))
            in s\<lparr>sv_db := register_live_run \<lparr>lr_session = i, lr_traj_path = mr_traj r, lr_control_path = mr_control r,
                 lr_pid = mr_pid r, lr_owner = ''web'', lr_started_at = ev_now v\<rparr>
                 (remember_agent_run (ev_now v) i (mr_traj r) (sv_db s))\<rparr>))"

definition retire :: "nat \<Rightarrow> mini_run \<Rightarrow> server \<Rightarrow> server" where
  "retire k r s = (if mr_attached r then s
     else s\<lparr>sv_db := clear_live_run (ls_id (en_session (entry k s))) (mr_traj r) (sv_db s)\<rparr>)"

definition stop_watch :: "internal \<Rightarrow> internal" where
  "stop_watch e = e\<lparr>en_watch := map_option (\<lambda>(t, on). (t, False)) (en_watch e)\<rparr>"

definition ingest :: "env \<Rightarrow> nat \<Rightarrow> journal_state \<Rightarrow> server \<Rightarrow> server" where
  "ingest v k n s = (case ingest_entry v n (entry k s) of (e, os) \<Rightarrow> say os (put_entry k e s))"

definition finish_run :: "env \<Rightarrow> nat \<Rightarrow> session_status \<Rightarrow> server \<Rightarrow> server" where
  "finish_run v k status s =
     (let e = entry k s;
          e1 = on_session (\<lambda>l. let x = (if status = SInterrupted \<and> ls_exit_status l = [] then ''Interrupted'' else ls_exit_status l)
                 in l\<lparr>ls_exit_status := x, ls_status := status, ls_info := (ls_info l)\<lparr>ri_exit_status := Some x\<rparr>\<rparr>) e;
          tail = (case en_run e of Some r \<Rightarrow> ev_log_tail v (mr_id r) | None \<Rightarrow> []);
          why = (if explainFailure tail \<noteq> [] then explainFailure tail else tail);
          e2 = (if status = SError \<and> \<not> list_ex (\<lambda>x. case x of EvError t \<Rightarrow> True | _ \<Rightarrow> False) (ls_events (en_session e1)) \<and> why \<noteq> []
                then add_events [EvError why] e1 else e1)
      in say [ORunExit (ls_id (en_session e)) status] (emit v k (persist v k (put_entry k e2 s))))"

definition fail_with :: "env \<Rightarrow> nat \<Rightarrow> string \<Rightarrow> server \<Rightarrow> server" where
  "fail_with v k message s = emit v k (put_entry k (add_events [EvError message] (set_status SError (entry k s))) s)"

section \<open>Run folders of a session\<close>

function (sequential) trajs_of :: "env \<Rightarrow> server \<Rightarrow> string \<Rightarrow> string list" where
  "trajs_of v s i =
     (let own = (case held s i of Some k \<Rightarrow> (case en_traj (entry k s) of Some t \<Rightarrow> [t] | None \<Rightarrow> []) | None \<Rightarrow> []);
          live = (case get_live_run (sv_db s) i of Some r \<Rightarrow> [lr_traj_path r] | None \<Rightarrow> []);
          out = first_seen (filter (\<lambda>t. t \<noteq> []) (own @ live @ agent_runs (sv_db s) i));
          name = after_last (CHR 0x7E) i; cut = length i - Suc (length name)
      in if out \<noteq> [] then out
         else if \<not> (Suc (length name) < length i) then []
         else (case trajs_of v s (take cut i) of
                 [] \<Rightarrow> []
               | parent # _ \<Rightarrow> (case ev_child v parent name of Some t \<Rightarrow> (if t = [] then [] else [t]) | None \<Rightarrow> [])))"
  by pat_completeness auto
termination by (relation "measure (\<lambda>(v, s, i). length i)") auto

declare trajs_of.simps [simp del]

section \<open>Resuming\<close>

text \<open>The saved conversation goes on in a new agent.\<close>

definition start_follow :: "mini_run \<Rightarrow> internal \<Rightarrow> internal" where
  "start_follow r e = (let ms = ls_messages (en_session e)
     in e\<lparr>en_run := Some r, en_exited := False, en_traj := Some (mr_traj r), en_consumed := length ms,
          en_seen := createParseState ms (length ms), en_watch := Some (mr_traj r, True)\<rparr>)"

definition resume_local :: "env \<Rightarrow> nat \<Rightarrow> string \<Rightarrow> server \<Rightarrow> server" where
  "resume_local v k task s =
     (let e = entry k s; l = en_session e
      in if \<not> ev_resume_ok v then fail_with v k ''could not prepare the saved conversation'' s
         else
           (let s0 = s\<lparr>sv_db := write_resume_file (ls_id l) (sv_db s)\<rparr>;
                cwd = (if ev_exists v (ls_cwd l) then ls_cwd l else ev_here v);
                note' = (if cwd \<noteq> ls_cwd l then [EvNotice (ls_cwd l @ '' is not on this machine: continuing in '' @ cwd) []] else []);
                prof = (case en_profile e of Some p \<Rightarrow> Some p | None \<Rightarrow> ev_profile_of v (ls_id l));
                model = (if ls_model l \<noteq> [] then ls_model l else ev_default_model v);
                e1 = on_session (\<lambda>l. (case prof of Some p \<Rightarrow> l\<lparr>ls_role := Some (pf_role p)\<rparr> | None \<Rightarrow> l))
                       (add_events note' (e\<lparr>en_profile := prof\<rparr>));
                (s1, r) = spawn v k KResume task model cwd (case prof of Some p \<Rightarrow> pf_specs p | None \<Rightarrow> []) True False (put_entry k e1 s0)
            in emit v k (announce v k r (put_entry k (start_follow r e1) s1))))"

definition compact_only :: "env \<Rightarrow> nat \<Rightarrow> server \<Rightarrow> server" where
  "compact_only v k s =
     (let e = entry k s; l = en_session e
      in if \<not> ev_resume_ok v then fail_with v k ''could not prepare the saved conversation'' s
         else
           (let s0 = s\<lparr>sv_db := write_resume_file (ls_id l) (sv_db s)\<rparr>;
                cwd = (if ev_exists v (ls_cwd l) then ls_cwd l else ev_here v);
                model = (if ls_model l \<noteq> [] then ls_model l else ev_default_model v);
                (s1, r) = spawn v k KCompact [] model cwd [] True True s0
            in emit v k (announce v k r (put_entry k (start_follow r e) s1))))"

fun message_text :: "control_line \<Rightarrow> string option" where
  "message_text (CMessage t) = Some t"
| "message_text c = None"

definition unread :: "nat \<Rightarrow> server \<Rightarrow> string list" where
  "unread n s = concat (map (\<lambda>p. if pr_id p = n then List.map_filter message_text (pr_unread p) else []) (sv_procs s))"

text \<open>Prompts that reached the control file after the agent's last read are a turn of their own.\<close>

definition resume_unread :: "env \<Rightarrow> nat \<Rightarrow> mini_run \<Rightarrow> server \<Rightarrow> server option" where
  "resume_unread v k r s =
     (let texts = unread (mr_id r) s
      in if texts = [] \<or> ls_messages (en_session (entry k s)) = [] then None
         else Some (resume_local v k (join (nl @ nl) texts) (on_proc (mr_id r) (\<lambda>p. p\<lparr>pr_unread := []\<rparr>) s)))"

section \<open>The end of a local agent\<close>

definition outcome :: "int \<Rightarrow> bool \<Rightarrow> session_status" where
  "outcome code interrupted = (if interrupted then SInterrupted else if code = 0 then SDone else SError)"

definition last_snapshot :: "env \<Rightarrow> nat \<Rightarrow> journal_state option \<Rightarrow> server \<Rightarrow> server" where
  "last_snapshot v k final s = (case final of Some n \<Rightarrow> ingest v k n s | None \<Rightarrow> s)"

definition run_of :: "nat \<Rightarrow> internal \<Rightarrow> mini_run option" where
  "run_of n e = (case en_run e of Some r \<Rightarrow> (if mr_id r = n then Some r else None) | None \<Rightarrow> None)"

text \<open>
  The handler of a process: only the entry's current agent settles it.  An agent that was created, or that compacted, is
  followed by one for the prompts it left unread; a resumed agent is not.
\<close>

definition own_exit :: "env \<Rightarrow> nat \<Rightarrow> run_kind \<Rightarrow> nat \<Rightarrow> string \<Rightarrow> int \<Rightarrow> journal_state option \<Rightarrow> server \<Rightarrow> server" where
  "own_exit v n kind k traj code final s0 =
     (let s = s0\<lparr>sv_db := clear_live_run (ls_id (en_session (entry k s0))) traj (sv_db s0)\<rparr>
      in case run_of n (entry k s) of
           None \<Rightarrow> s
         | Some r \<Rightarrow>
             (let s1 = last_snapshot v k final (put_entry k (stop_watch ((entry k s)\<lparr>en_exited := True\<rparr>)) s);
                  interrupted = (ls_status (en_session (entry k s1)) = SInterrupted);
                  s2 = put_entry k (on_session (\<lambda>l. l\<lparr>ls_partial := None\<rparr>) (entry k s1)) s1
              in case (if kind \<noteq> KResume \<and> \<not> interrupted \<and> code = 0 then resume_unread v k r s2 else None) of
                   Some s3 \<Rightarrow> s3
                 | None \<Rightarrow> finish_run v k (outcome code interrupted) s2))"

definition attached_exit :: "env \<Rightarrow> nat \<Rightarrow> nat \<Rightarrow> journal_state option \<Rightarrow> server \<Rightarrow> server" where
  "attached_exit v n k final s =
     (case run_of n (entry k s) of
        None \<Rightarrow> s
      | Some r \<Rightarrow>
          (let s1 = last_snapshot v k final (put_entry k (stop_watch ((entry k s)\<lparr>en_exited := True\<rparr>)) s);
               st = ls_status (en_session (entry k s1));
               st' = (if st = SInterrupted then SInterrupted else if st = SError then SError else SDone)
           in emit v k (put_entry k (on_session (\<lambda>l. l\<lparr>ls_partial := None, ls_status := st'\<rparr>)
                ((entry k s1)\<lparr>en_synced := Some 0\<rparr>)) s1)))"

definition proc_exit :: "env \<Rightarrow> nat \<Rightarrow> int \<Rightarrow> journal_state option \<Rightarrow> server \<Rightarrow> server" where
  "proc_exit v n code final s =
     (case find (\<lambda>p. pr_id p = n \<and> pr_alive p) (sv_procs s) of
        None \<Rightarrow> s
      | Some p \<Rightarrow>
          (let s1 = on_proc n (\<lambda>p. p\<lparr>pr_alive := False\<rparr>) s; k = pr_entry p
           in if pr_kind p = KAttach then attached_exit v n k final s1
              else own_exit v n (pr_kind p) k (pr_traj p) code final s1))"

text \<open>A journal grew: the watcher of an entry that follows it hands it over; after a compaction it is saved at once.\<close>

definition journal :: "env \<Rightarrow> nat \<Rightarrow> journal_state \<Rightarrow> server \<Rightarrow> server" where
  "journal v k n s =
     (case en_watch (entry k s) of
        Some (t, True) \<Rightarrow>
          (let s1 = ingest v k n s
           in case en_run (entry k s) of
                Some r \<Rightarrow> (if list_ex (\<lambda>p. pr_id p = mr_id r \<and> pr_kind p = KCompact) (sv_procs s) then persist v k s1 else s1)
              | None \<Rightarrow> s1)
      | _ \<Rightarrow> s)"

section \<open>Creating\<close>

record create_options =
  co_prompt :: string
  co_cwd :: string
  co_model :: string
  co_remote :: bool
  co_host :: string
  co_atts :: "upload list"
  co_profile :: "profile option"
  co_suffix :: string
  co_title :: string

definition no_info :: run_info where
  "no_info = \<lparr>ri_model = None, ri_api_base = None, ri_cost = 0, ri_api_calls = 0, ri_exit_status = None,
     ri_submission = None, ri_format = None\<rparr>"

definition new_session :: "env \<Rightarrow> string \<Rightarrow> string \<Rightarrow> string \<Rightarrow> string \<Rightarrow> string \<Rightarrow> bool \<Rightarrow> string \<Rightarrow> string option \<Rightarrow> live_session" where
  "new_session v i title cwd model task remote h role =
     \<lparr>ls_id = i, ls_title = title, ls_cwd = cwd, ls_model = model, ls_task = task, ls_remote = remote, ls_host = h,
      ls_status = SRunning, ls_events = [], ls_partial = None, ls_messages = [], ls_info = no_info,
      ls_created_at = ev_now v, ls_updated_at = ev_now v, ls_started_at = ev_now v, ls_api_calls = 0, ls_cost = 0,
      ls_exit_status = [], ls_subagents = [], ls_parent = [], ls_role = role\<rparr>"

definition new_entry :: "live_session \<Rightarrow> internal" where
  "new_entry l = \<lparr>en_session = l, en_run = None, en_remote = None, en_watch = None, en_pending = [], en_exited = False,
     en_traj = None, en_consumed = 0, en_seen = False, en_probing = False, en_synced = None, en_rebuild = False,
     en_remotes = [], en_stopped = [], en_queue = [], en_persisted_count = None, en_persisted_at = 0, en_mirror = None,
     en_usage = 0, en_profile = None\<rparr>"

text \<open>\<open>#live.set\<close> and \<open>#markOpen\<close>.\<close>

definition hold :: "env \<Rightarrow> internal \<Rightarrow> server \<Rightarrow> server \<times> nat" where
  "hold v e s =
     (let k = length (sv_entries s); i = ls_id (en_session e)
      in (s\<lparr>sv_entries := sv_entries s @ [e], sv_live := upsert fst (i, k) (sv_live s), sv_db := mark_open (ev_now v) i (sv_db s)\<rparr>, k))"

definition prompt_event :: "string \<Rightarrow> upload list \<Rightarrow> run_event" where
  "prompt_event text atts = EvTask (if atts = [] then text else text @ nl @ nl @ attachmentLinksLine atts) (map transcriptAttachment atts)"

definition ask_title :: "string \<Rightarrow> string \<Rightarrow> string \<Rightarrow> server \<Rightarrow> server" where
  "ask_title i title prompt s = (if js_trim prompt = [] then s else say [OAskTitle i title] s)"

definition create_local ::
  "env \<Rightarrow> string \<Rightarrow> string \<Rightarrow> string \<Rightarrow> string \<Rightarrow> create_options \<Rightarrow> server \<Rightarrow> server \<times> nat" where
  "create_local v i title cwd model opts s =
     (let prompt = co_prompt opts; atts = co_atts opts; prof = co_profile opts;
          effective = (if model \<noteq> [] then model else ev_default_model v);
          (s1, r) = spawn v (length (sv_entries s)) KCreate (agent_task (ev_skills v) atts prompt @ co_suffix opts) effective cwd
                      (case prof of Some p \<Rightarrow> pf_specs p | None \<Rightarrow> []) False False s;
          l = new_session v i title cwd effective prompt False [] (map_option pf_role prof);
          e = (new_entry l)\<lparr>en_run := Some r, en_traj := Some (mr_traj r), en_profile := prof,
                en_watch := Some (mr_traj r, True)\<rparr>;
          e1 = (if atts = [] then e else add_events [prompt_event prompt atts] (e\<lparr>en_pending := [prompt]\<rparr>));
          (s2, k) = hold v e1 s1;
          s3 = s2\<lparr>sv_db := create_session (ev_now v) i cwd effective prompt (Some title) (sv_db s2)\<rparr>;
          s4 = (if co_title opts = [] then ask_title i title prompt s3 else s3)
      in (emit v k (announce v k r s4), k))"

definition start_remote :: "env \<Rightarrow> nat \<Rightarrow> bool \<Rightarrow> string \<Rightarrow> string \<Rightarrow> string \<Rightarrow> server \<Rightarrow> server" where
  "start_remote v k first prompt workdir model s =
     (let n = sv_next s; e = entry k s
      in say [ORemote n prompt workdir model]
           (put_entry k (e\<lparr>en_remote := Some n, en_remotes := List.insert n (en_remotes e)\<rparr>)
              (s\<lparr>sv_next := Suc n, sv_remotes := sv_remotes s @ [\<lparr>rp_id = n, rp_entry = k, rp_first = first, rp_alive = True,
                   rp_told = False, rp_settled = False, rp_buffer = []\<rparr>]\<rparr>)))"

definition create_remote :: "env \<Rightarrow> string \<Rightarrow> string \<Rightarrow> string \<Rightarrow> string \<Rightarrow> host \<Rightarrow> create_options \<Rightarrow> server \<Rightarrow> server \<times> nat" where
  "create_remote v i title cwd model h opts s =
     (let prompt = co_prompt opts; atts = co_atts opts; workdir = (if cwd \<noteq> [] then cwd else hs_workdir h);
          e = add_events [prompt_event prompt atts]
                ((new_entry (new_session v i title workdir model prompt True (hs_id h) None))
                   \<lparr>en_pending := (if atts = [] then [] else [prompt])\<rparr>);
          (s1, k) = hold v e s;
          s2 = s1\<lparr>sv_db := create_session (ev_now v) i workdir model prompt (Some title) (sv_db s1)\<rparr>
      in (start_remote v k True (agent_task (ev_skills v) atts prompt) workdir model (emit v k (ask_title i title prompt s2)), k))"

text \<open>
  \<open>routed\<close> is the model the router chose, empty when it is off or cannot decide; \<open>Inl\<close> is the exception, thrown after the
  model was remembered.
\<close>

definition create_live :: "env \<Rightarrow> string \<Rightarrow> string \<Rightarrow> create_options \<Rightarrow> server \<Rightarrow> server \<times> (string + nat)" where
  "create_live v i routed opts s0 =
     (let title = (if js_trim (co_title opts) \<noteq> [] then js_trim (co_title opts) else fallbackTitle (co_prompt opts));
          model = (if js_trim (co_model opts) \<noteq> [] then js_trim (co_model opts) else routed);
          s = (if model \<noteq> [] then say [OLastModel model] s0 else s0)
      in if co_remote opts then
           (if co_host opts = [] then (s, Inl ''a remote session needs a host'')
            else (case find (\<lambda>h. hs_id h = co_host opts) (ev_hosts v) of
                    None \<Rightarrow> (s, Inl ''unknown remote host'')
                  | Some h \<Rightarrow> map_prod id Inr (create_remote v i title (js_trim (co_cwd opts)) model h opts s)))
         else
           (let cwd = (if js_trim (co_cwd opts) \<noteq> [] then ev_expand v (co_cwd opts) else ev_home v)
            in if \<not> ev_exists v cwd then (s, Inl (cwd @ '' is not a folder on this machine''))
               else map_prod id Inr (create_local v i title cwd model opts s)))"

end
