(* ===== verification/SessionSteps.thy ===== *)
theory SessionSteps
  imports SessionOps
begin

text \<open>
  The rest of the session manager (src/web/sessions.ts): remote turns, attaching to the agent of another user interface,
  prompts, stops, closing and opening, models and titles, the background pass; and every event the server can see, as one
  step function.
\<close>

section \<open>Remote turns\<close>

definition str_field :: "json \<Rightarrow> string \<Rightarrow> js \<Rightarrow> string" where
  "str_field rt k v = (if nullish (js_field k v) then [] else show_js rt (js_field k v))"

definition str_or :: "json \<Rightarrow> string \<Rightarrow> string \<Rightarrow> js \<Rightarrow> string" where
  "str_or rt k j v = (if nullish (js_field k v) then str_field rt j v else show_js rt (js_field k v))"

definition str_default :: "json \<Rightarrow> string \<Rightarrow> string \<Rightarrow> js \<Rightarrow> string" where
  "str_default rt k d v = (if nullish (js_field k v) then d else show_js rt (js_field k v))"

definition remoteEventToRunEvent :: "json \<Rightarrow> js \<Rightarrow> run_event option" where
  "remoteEventToRunEvent rt p =
     (let num = (\<lambda>v. case js_number v of Some n \<Rightarrow> n | None \<Rightarrow> 0); k = js_field ''type'' p
      in if k = JStr ''task'' then Some (EvTask (str_or rt ''text'' ''task'' p) [])
         else if k = JStr ''assistant'' then Some (EvAssistant (str_field rt ''text'' p) None)
         else if k = JStr ''thinking'' then
           Some (EvThinking (str_field rt ''text'' p) (if nullish (js_field ''seconds'' p) then 0 else num (js_field ''seconds'' p)))
         else if k = JStr ''tool_call'' then
           Some (EvToolCall (str_field rt ''id'' p) (str_default rt ''name'' ''bash'' p) (str_field rt ''command'' p))
         else if k = JStr ''observation'' then
           Some (EvObservation (if truthy (js_field ''tool_call_id'' p) then Some (show_js rt (js_field ''tool_call_id'' p)) else None)
             (if nullish (js_field ''returncode'' p) then None else Some (num (js_field ''returncode'' p)))
             (str_field rt ''output'' p) (str_field rt ''exception_info'' p))
         else if k = JStr ''notice'' then Some (EvNotice (str_field rt ''text'' p) [])
         else if k = JStr ''exit'' then
           Some (EvExit (str_default rt ''exit_status'' ''Submitted'' p) (str_or rt ''submission'' ''result'' p))
         else if k = JStr ''error'' then Some (EvError (str_or rt ''text'' ''error'' p))
         else None)"

definition has_exit :: "live_session \<Rightarrow> bool" where
  "has_exit l = list_ex (\<lambda>e. exit_of e \<noteq> None) (ls_events l)"

definition result_status :: "js \<Rightarrow> live_session \<Rightarrow> string" where
  "result_status p l = (if nullish (js_field ''exit_status'' p) then ls_exit_status l else str_or_empty (js_field ''exit_status'' p))"

definition exit_card :: "json \<Rightarrow> js \<Rightarrow> live_session \<Rightarrow> run_event" where
  "exit_card rt p l = EvExit
     (if ls_exit_status l \<noteq> [] then ls_exit_status l
      else if js_field ''subtype'' p = JStr ''success'' then ''Submitted'' else ''error'')
     (str_field rt ''result'' p)"

definition on_remote :: "nat \<Rightarrow> (remote_proc \<Rightarrow> remote_proc) \<Rightarrow> server \<Rightarrow> server" where
  "on_remote n f s = s\<lparr>sv_remotes := map (\<lambda>p. if rp_id p = n then f p else p) (sv_remotes s)\<rparr>"

definition remote_of :: "nat \<Rightarrow> server \<Rightarrow> remote_proc option" where
  "remote_of n s = find (\<lambda>p. rp_id p = n) (sv_remotes s)"

text \<open>The result line of the first turn: the totals are set, and one exit card is added if there is none.\<close>

definition first_result :: "json \<Rightarrow> js \<Rightarrow> live_session \<Rightarrow> live_session" where
  "first_result rt p l =
     (let l1 = l\<lparr>ls_api_calls := (case num_of (js_field ''api_calls'' p) of Some n \<Rightarrow> n | None \<Rightarrow> ls_api_calls l),
                 ls_cost := (case num_of (js_field ''cost_usd'' p) of Some n \<Rightarrow> n | None \<Rightarrow> ls_cost l),
                 ls_exit_status := result_status p l\<rparr>
      in if has_exit l1 then l1 else l1\<lparr>ls_events := ls_events l1 @ [exit_card rt p l1]\<rparr>)"

text \<open>Of a later turn: the totals are added up, and the card is added unless this very turn has one.\<close>

definition later_result :: "json \<Rightarrow> js \<Rightarrow> bool \<Rightarrow> live_session \<Rightarrow> live_session" where
  "later_result rt p settled l =
     (let l1 = l\<lparr>ls_exit_status := result_status p l,
                 ls_api_calls := ls_api_calls l + (case num_of (js_field ''api_calls'' p) of Some n \<Rightarrow> n | None \<Rightarrow> 0),
                 ls_cost := ls_cost l + (case num_of (js_field ''cost_usd'' p) of Some n \<Rightarrow> n | None \<Rightarrow> 0)\<rparr>
      in if settled then l1 else l1\<lparr>ls_events := ls_events l1 @ [exit_card rt p l1]\<rparr>)"

definition remote_payload :: "env \<Rightarrow> nat \<Rightarrow> js \<Rightarrow> server \<Rightarrow> server" where
  "remote_payload v n p s =
     (case remote_of n s of
        None \<Rightarrow> s
      | Some r \<Rightarrow>
          (let k = rp_entry r;
               s1 = (if js_field ''type'' p = JStr ''task'' then s
                     else (case remoteEventToRunEvent (ev_json v) p of
                             Some ev \<Rightarrow> emit v k (put_entry k (add_events [ev] (entry k s)) s)
                           | None \<Rightarrow> s))
           in if js_field ''type'' p \<noteq> JStr ''result'' then s1
              else if rp_first r then put_entry k (on_session (first_result (ev_json v) p) (entry k s1)) s1
              else emit v k (on_remote n (\<lambda>x. x\<lparr>rp_settled := True\<rparr>)
                     (put_entry k (on_session (later_result (ev_json v) p (rp_settled r)) (entry k s1)) s1))))"

text \<open>
  The lines of a chunk; the tail of a line that is not complete waits for the next chunk.  A line that is the JSON value
  null makes the handler throw, and the lines after it are lost.
\<close>

fun remote_lines :: "env \<Rightarrow> nat \<Rightarrow> string list \<Rightarrow> server \<Rightarrow> server" where
  "remote_lines v n [] s = s"
| "remote_lines v n (l # ls) s =
     (let t = js_trim l
      in if t = [] \<or> prefix [CHR 0x00] t then remote_lines v n ls s
         else (case rt_parse (ev_json v) t of
                 None \<Rightarrow> remote_lines v n ls s
               | Some JNull \<Rightarrow> s
               | Some p \<Rightarrow> remote_lines v n ls (remote_payload v n p s)))"

definition remote_data :: "env \<Rightarrow> nat \<Rightarrow> string \<Rightarrow> server \<Rightarrow> server" where
  "remote_data v n chunk s =
     (case remote_of n s of
        None \<Rightarrow> s
      | Some r \<Rightarrow>
          (let lines = split_char (CHR 0x0A) (rp_buffer r @ chunk)
           in remote_lines v n (butlast lines) (on_remote n (\<lambda>x. x\<lparr>rp_buffer := last lines\<rparr>) s)))"

text \<open>What the first turn says on its error stream is shown.\<close>

definition remote_stderr :: "env \<Rightarrow> nat \<Rightarrow> string \<Rightarrow> server \<Rightarrow> server" where
  "remote_stderr v n chunk s =
     (case remote_of n s of
        None \<Rightarrow> s
      | Some r \<Rightarrow> (if rp_first r \<and> js_trim chunk \<noteq> []
          then emit v (rp_entry r) (put_entry (rp_entry r) (add_events [EvNotice (js_trim chunk) []] (entry (rp_entry r) s)) s)
          else s))"

definition continue_remote :: "env \<Rightarrow> nat \<Rightarrow> string \<Rightarrow> server \<Rightarrow> server" where
  "continue_remote v k prompt s =
     (let e = entry k s; l = en_session e
      in case find (\<lambda>h. hs_id h = ls_host l) (ev_hosts v) of
           None \<Rightarrow> fail_with v k ''the remote host is no longer configured'' s
         | Some h \<Rightarrow>
             (if en_remote e \<noteq> None then
                emit v k (put_entry k (add_events
                  [EvNotice (''queued: the remote host runs one turn at a time ('' @ show_nat (Suc (length (en_queue e))) @ '' waiting)'') []]
                  (e\<lparr>en_queue := en_queue e @ [prompt]\<rparr>)) s)
              else start_remote v k False prompt (if ls_cwd l \<noteq> [] then ls_cwd l else hs_workdir h) (ls_model l)
                (emit v k (put_entry k (add_events [EvNotice (''starting a new turn on the remote host'' @ ellipsis) []]
                  (on_session (\<lambda>l. l\<lparr>ls_status := SRunning, ls_started_at := ev_now v\<rparr>) e)) s))))"

definition drain_remote_queue :: "env \<Rightarrow> nat \<Rightarrow> bool \<Rightarrow> server \<Rightarrow> server" where
  "drain_remote_queue v k interrupted s =
     (if interrupted \<or> ls_status (en_session (entry k s)) = SInterrupted then s
      else (case en_queue (entry k s) of
              [] \<Rightarrow> s
            | next # rest \<Rightarrow> continue_remote v k next (put_entry k ((entry k s)\<lparr>en_queue := rest\<rparr>) s)))"

definition stop_remote :: "nat \<Rightarrow> server \<Rightarrow> server" where
  "stop_remote k s =
     (let e = entry k s; rs = en_remotes e
      in say (map OStopRemote rs)
           (put_entry k (e\<lparr>en_stopped := fold List.insert rs (en_stopped e), en_remotes := [], en_remote := None, en_queue := []\<rparr>)
              (s\<lparr>sv_remotes := map (\<lambda>p. if rp_id p \<in> set rs then p\<lparr>rp_told := True\<rparr> else p) (sv_remotes s)\<rparr>)))"

definition owns_turn :: "internal \<Rightarrow> nat \<Rightarrow> bool" where
  "owns_turn e n \<longleftrightarrow> en_remote e = Some n \<or> n \<in> set (en_stopped e)"

definition turn_card :: "bool \<Rightarrow> int \<Rightarrow> run_event" where
  "turn_card interrupted code = EvExit (if interrupted then ''Interrupted'' else if code = 0 then ''Submitted'' else ''Error'') []"

text \<open>The end of the first turn of a session, and of a later one: \<open>e\<close> is the entry without the turn.\<close>

definition settle_first :: "env \<Rightarrow> nat \<Rightarrow> int \<Rightarrow> internal \<Rightarrow> server \<Rightarrow> server" where
  "settle_first v k code e s =
     (let interrupted = (ls_status (en_session e) = SInterrupted)
      in drain_remote_queue v k interrupted (finish_run v k (outcome code interrupted)
           (put_entry k (if has_exit (en_session e) then e else add_events [turn_card interrupted code] e) s)))"

definition settle_later :: "env \<Rightarrow> nat \<Rightarrow> bool \<Rightarrow> nat \<Rightarrow> int \<Rightarrow> internal \<Rightarrow> server \<Rightarrow> server" where
  "settle_later v n settled k code e s =
     (let interrupted = (ls_status (en_session e) = SInterrupted);
          s1 = emit v k (put_entry k (if settled then e else add_events [turn_card interrupted code] e)
                 (on_remote n (\<lambda>x. x\<lparr>rp_settled := True\<rparr>) s));
          s2 = (if \<not> interrupted \<and> ls_status (en_session (entry k s1)) = SRunning
                then put_entry k (set_status (if code = 0 then SDone else SError) (entry k s1)) s1 else s1)
      in drain_remote_queue v k interrupted (persist v k s2))"

definition remote_exit :: "env \<Rightarrow> nat \<Rightarrow> int \<Rightarrow> server \<Rightarrow> server" where
  "remote_exit v n code s0 =
     (case find (\<lambda>p. rp_id p = n \<and> rp_alive p) (sv_remotes s0) of
        None \<Rightarrow> s0
      | Some r \<Rightarrow>
          (let k = rp_entry r;
               s = on_remote n (\<lambda>x. x\<lparr>rp_alive := False\<rparr>) s0;
               e = (entry k s)\<lparr>en_remotes := filter (\<lambda>m. m \<noteq> n) (en_remotes (entry k s))\<rparr>
           in if \<not> owns_turn e n then put_entry k e s
              else
                (let e1 = e\<lparr>en_stopped := filter (\<lambda>m. m \<noteq> n) (en_stopped e),
                            en_remote := (if en_remote e = Some n then None else en_remote e)\<rparr>
                 in if rp_first r then settle_first v k code e1 s else settle_later v n (rp_settled r) k code e1 s)))"

section \<open>Agents of other user interfaces\<close>

definition waitingAtExit :: "js list \<Rightarrow> bool" where
  "waitingAtExit ms =
     (case dropWhile (\<lambda>m. js_field ''role'' m \<noteq> JStr ''exit'' \<and>
                (js_field ''interrupt_type'' (js_field ''extra'' m) \<in> {JStr ''Compaction'', JStr ''CompactionSkipped''})) (rev ms) of
        [] \<Rightarrow> False | m # _ \<Rightarrow> js_field ''role'' m = JStr ''exit'')"

definition owns_traj :: "server \<Rightarrow> string \<Rightarrow> bool" where
  "owns_traj s t = list_ex (\<lambda>(i, k). case en_run (entry k s) of Some r \<Rightarrow> \<not> mr_attached r \<and> mr_traj r = t | None \<Rightarrow> False) (sv_live s)"

datatype attach_answer = Now bool | Ask live_run

definition attach_ask :: "nat \<Rightarrow> server \<Rightarrow> server \<times> attach_answer" where
  "attach_ask k s =
     (let e = entry k s
      in if ls_remote (en_session e) then (s, Now False)
         else if run_live e then (s, Now (attached e))
         else (case get_live_run (sv_db s) (ls_id (en_session e)) of
                 None \<Rightarrow> (s, Now False)
               | Some r \<Rightarrow>
                   (if owns_traj s (lr_traj_path r) \<or> en_probing e then (s, Now False)
                    else (put_entry k (e\<lparr>en_probing := True\<rparr>) s, Ask r))))"

definition retire_ghost :: "nat \<Rightarrow> live_run \<Rightarrow> server \<Rightarrow> server" where
  "retire_ghost k r s =
     (let s1 = s\<lparr>sv_db := clear_live_run (lr_session r) (lr_traj_path r) (sv_db s)\<rparr>
      in if en_traj (entry k s1) = Some (lr_traj_path r) then put_entry k ((entry k s1)\<lparr>en_traj := None\<rparr>) s1 else s1)"

definition where_of :: "string \<Rightarrow> string" where
  "where_of owner = (if owner = ''web'' then ''another mini-tui web server''
     else if owner = ''subagent'' then ''its parent session (subagent)'' else ''a terminal'')"

definition attach_settle :: "env \<Rightarrow> nat \<Rightarrow> live_run \<Rightarrow> bool \<Rightarrow> server \<Rightarrow> server \<times> bool" where
  "attach_settle v k r alive s0 =
     (let s = put_entry k ((entry k s0)\<lparr>en_probing := False\<rparr>) s0; e = entry k s
      in if \<not> alive \<or> ls_remote (en_session e) \<or> run_live e \<or> sv_closed s then
           (if alive then s else retire_ghost k r s, False)
         else
           (let n = sv_next s;
                run = \<lparr>mr_id = n, mr_traj = lr_traj_path r, mr_control = lr_control_path r, mr_pid = lr_pid r, mr_attached = True\<rparr>;
                s1 = s\<lparr>sv_next := Suc n, sv_procs := sv_procs s @ [\<lparr>pr_id = n, pr_entry = k, pr_kind = KAttach,
                       pr_traj = lr_traj_path r, pr_alive = True, pr_told = False, pr_unread = []\<rparr>]\<rparr>;
                e1 = add_events [EvNotice (''following the agent running in '' @ where_of (lr_owner r)) ''attach'']
                       (on_session (\<lambda>l. l\<lparr>ls_events := filter (\<lambda>x. \<not> attach_notice x) (ls_events l)\<rparr>)
                          ((stop_watch e)\<lparr>en_run := Some run, en_exited := False, en_traj := Some (lr_traj_path r), en_pending := [],
                             en_rebuild := True, en_consumed := 0, en_seen := False\<rparr>));
                s2 = put_entry k e1 s1;
                t = ev_journal v (lr_traj_path r);
                s3 = (case t of Some t \<Rightarrow> ingest v k \<lparr>sn_traj = t, sn_same = False\<rparr> s2 | None \<Rightarrow> s2);
                e3 = entry k s3;
                e4 = (if (case t of Some t \<Rightarrow> waitingAtExit (tj_messages t) | None \<Rightarrow> False) then
                        (if ls_status (en_session e3) \<in> {SRunning, SIdle} then set_status SDone e3 else e3)
                      else on_session (\<lambda>l. l\<lparr>ls_status := SRunning, ls_started_at := ev_now v\<rparr>) e3)
            in (emit v k (put_entry k (e4\<lparr>en_watch := Some (lr_traj_path r, True)\<rparr>) s3), True)))"

definition reload_from_db :: "env \<Rightarrow> nat \<Rightarrow> server \<Rightarrow> server" where
  "reload_from_db v k s =
     (case get_session (sv_db s) (ls_id (en_session (entry k s))) of
        None \<Rightarrow> s
      | Some row \<Rightarrow>
          (let r = restoreFromRow v row; e = (entry k s)\<lparr>en_synced := Some (sr_updated_at row)\<rparr>; l = en_session e
           in if length (ls_messages r) = length (ls_messages l) \<and> length (ls_events r) = length (ls_events l) then put_entry k e s
              else emit v k (put_entry k (with_mirror v
                     (on_session (\<lambda>l. l\<lparr>ls_title := ls_title r, ls_model := (if ls_model r \<noteq> [] then ls_model r else ls_model l),
                          ls_events := ls_events r, ls_messages := ls_messages r, ls_info := ls_info r,
                          ls_api_calls := ls_api_calls r, ls_cost := ls_cost r, ls_exit_status := ls_exit_status r,
                          ls_status := ls_status r\<rparr>)
                        (e\<lparr>en_consumed := length (ls_messages r), en_seen := createParseState (ls_messages r) 0, en_pending := []\<rparr>))) s)))"

definition refresh_if_stale :: "env \<Rightarrow> nat \<Rightarrow> server \<Rightarrow> server" where
  "refresh_if_stale v k s =
     (let e = entry k s
      in case session_stamp (sv_db s) (ls_id (en_session e)) of
           Some stamp \<Rightarrow> (if (case en_synced e of Some x \<Rightarrow> x | None \<Rightarrow> 0) < stamp then reload_from_db v k s else s)
         | None \<Rightarrow> s)"

section \<open>Prompts\<close>

definition unknown_skills :: "string list \<Rightarrow> run_event list" where
  "unknown_skills ns = (if ns = [] then []
     else [EvNotice (''unknown skill'' @ (if 1 < length ns then ''s'' else []) @ '' sent as plain text: '' @
             join '', '' (map (\<lambda>n. CHR ''$'' # n) ns)) []])"

definition send_go :: "env \<Rightarrow> nat \<Rightarrow> string \<Rightarrow> upload list \<Rightarrow> string \<Rightarrow> bool \<Rightarrow> server \<Rightarrow> string + server" where
  "send_go v k text atts sfx expand s =
     (let e = entry k s; l = en_session e; running = (run_live e \<or> en_remote e \<noteq> None)
      in if \<not> running \<and> \<not> ls_remote l \<and> ls_messages l = [] then
           Inl ''this session has no saved conversation and cannot be continued: start a new chat''
         else
           (let skills = (if expand then ev_skills v else []);
                task = agent_task skills atts text @ sfx;
                missing = (if expand then missing_skills (ev_skills v) text else []);
                e1 = on_session (\<lambda>l. l\<lparr>ls_status := SRunning, ls_started_at := ev_now v\<rparr>)
                       (add_events ([prompt_event text atts] @ unknown_skills missing) (e\<lparr>en_pending := en_pending e @ [text]\<rparr>));
                s1 = emit v k (put_entry k e1 s)
            in Inr (case (run_live e, en_run e) of
                      (True, Some r) \<Rightarrow>
                        control r (CMessage task) (put_entry k ((entry k s1)\<lparr>en_watch :=
                          (case en_watch e of Some w \<Rightarrow> Some w | None \<Rightarrow> Some (mr_traj r, True))\<rparr>) s1)
                    | _ \<Rightarrow> (if ls_remote l then continue_remote v k task s1 else resume_local v k task s1))))"

text \<open>What a prompt throws is thrown after the copy was refreshed.\<close>

definition send_on :: "env \<Rightarrow> nat \<Rightarrow> string \<Rightarrow> upload list \<Rightarrow> string \<Rightarrow> bool \<Rightarrow> server \<Rightarrow> server \<times> string option" where
  "send_on v k text atts sfx expand s =
     (case send_go v k text atts sfx expand s of Inr s' \<Rightarrow> (s', None) | Inl m \<Rightarrow> (s, Some m))"

definition send :: "env \<Rightarrow> string \<Rightarrow> string \<Rightarrow> upload list \<Rightarrow> string \<Rightarrow> bool \<Rightarrow> server \<Rightarrow> server \<times> string option" where
  "send v i prompt atts sfx expand s =
     (case held s i of
        None \<Rightarrow> (s, Some ''unknown session'')
      | Some k \<Rightarrow>
          (let text = js_trim prompt
           in if text = [] then (s, None)
              else if run_live (entry k s) \<or> ls_remote (en_session (entry k s)) then send_on v k text atts sfx expand s
              else (case attach_ask k s of
                      (s1, Now True) \<Rightarrow> send_on v k text atts sfx expand s1
                    | (s1, Now False) \<Rightarrow> send_on v k text atts sfx expand (refresh_if_stale v k s1)
                    | (s1, Ask r) \<Rightarrow> (s1\<lparr>sv_probes := sv_probes s1 @ [(k, r, PSend text atts sfx expand)]\<rparr>, None))))"

definition message_agent :: "string \<Rightarrow> string \<Rightarrow> server \<Rightarrow> server \<times> bool" where
  "message_agent i text s =
     (case held s i of
        None \<Rightarrow> (s, False)
      | Some k \<Rightarrow> (case (run_live (entry k s), en_run (entry k s)) of
                    (True, Some r) \<Rightarrow> (control r (CMessage text) s, True) | _ \<Rightarrow> (s, False)))"

section \<open>Stopping, closing, opening\<close>

definition interrupt :: "env \<Rightarrow> string \<Rightarrow> server \<Rightarrow> string + server" where
  "interrupt v i s =
     (case held s i of
        None \<Rightarrow> Inl ''unknown session''
      | Some k \<Rightarrow>
          (let s1 = put_entry k (on_session (\<lambda>l. l\<lparr>ls_status := SInterrupted, ls_exit_status := ''Interrupted''\<rparr>) (entry k s)) s
           in Inr (emit v k (case en_run (entry k s) of Some r \<Rightarrow> interrupt_run r s1 | None \<Rightarrow> stop_remote k s1))))"

definition let_go :: "string \<Rightarrow> server \<Rightarrow> server" where
  "let_go i s = s\<lparr>sv_live := delete_key fst i (sv_live s), sv_db := unmark_open i (sv_db s)\<rparr>"

definition stop_all :: "nat \<Rightarrow> server \<Rightarrow> server" where
  "stop_all k s =
     (let s1 = put_entry k (stop_watch (entry k s)) s
      in stop_remote k (case en_run (entry k s) of Some r \<Rightarrow> kill r s1 | None \<Rightarrow> s1))"

definition close :: "env \<Rightarrow> string \<Rightarrow> server \<Rightarrow> server" where
  "close v i s =
     (case held s i of
        None \<Rightarrow> s
      | Some k \<Rightarrow>
          (let s1 = stop_all k s;
               e = entry k s1;
               s2 = (if ls_status (en_session e) = SRunning then put_entry k (set_status SInterrupted e) s1 else s1)
           in let_go i (persist v k s2)))"

definition delete_history :: "string \<Rightarrow> server \<Rightarrow> server \<times> bool" where
  "delete_history i s =
     (let s1 = (case held s i of None \<Rightarrow> s | Some k \<Rightarrow> let_go i (stop_all k s))
      in case delete_session i (sv_db s1) of (d, found) \<Rightarrow> (s1\<lparr>sv_db := d\<rparr>, found))"

text \<open>A row without messages: the transcript is rebuilt from the first journal of the session that has some.\<close>

definition from_journal :: "env \<Rightarrow> server \<Rightarrow> live_session \<Rightarrow> live_session" where
  "from_journal v s l =
     (if ls_messages l \<noteq> [] then l
      else (case List.map_filter (\<lambda>p. case ev_journal v p of Some t \<Rightarrow> (if tj_messages t \<noteq> [] then Some t else None) | None \<Rightarrow> None)
                   (trajs_of v s (ls_id l)) of
              [] \<Rightarrow> l
            | t # _ \<Rightarrow> l\<lparr>ls_messages := tj_messages t, ls_info := parseInfo t,
                          ls_events := fst (messagesToEvents (ev_json v) False (tj_messages t) 0 (Some False))\<rparr>))"

definition open_row :: "env \<Rightarrow> session_row \<Rightarrow> server \<Rightarrow> server \<times> nat" where
  "open_row v row s =
     (let l = from_journal v s (restoreFromRow v row);
          (s1, k) = hold v ((new_entry l)\<lparr>en_consumed := length (ls_messages l), en_seen := createParseState (ls_messages l) 0,
                      en_synced := Some (sr_updated_at row)\<rparr>) s
      in (put_entry k (with_mirror v (entry k s1)) s1, k))"

definition ask_open :: "nat \<Rightarrow> server \<Rightarrow> server" where
  "ask_open k s = (case attach_ask k s of
     (s1, Ask r) \<Rightarrow> s1\<lparr>sv_probes := sv_probes s1 @ [(k, r, POpen False)]\<rparr> | (s1, Now b) \<Rightarrow> s1)"

definition open_history :: "env \<Rightarrow> string \<Rightarrow> server \<Rightarrow> string + server" where
  "open_history v i s =
     (case held s i of
        Some k \<Rightarrow>
          (let e = entry k s
           in if (run_live e \<and> \<not> attached e) \<or> ls_remote (en_session e) then Inr s
              else (case attach_ask k s of
                      (s1, Now True) \<Rightarrow> Inr s1
                    | (s1, Now False) \<Rightarrow> Inr (refresh_if_stale v k s1)
                    | (s1, Ask r) \<Rightarrow> Inr (s1\<lparr>sv_probes := sv_probes s1 @ [(k, r, POpen True)]\<rparr>)))
      | None \<Rightarrow>
          (case get_session (sv_db s) i of
             None \<Rightarrow> Inl ''unknown session''
           | Some row \<Rightarrow> (case open_row v row s of (s1, k) \<Rightarrow> Inr (ask_open k s1))))"

text \<open>After a start of the server: the sessions that were open are opened again; a mark without a session is dropped.\<close>

definition reopen :: "env \<Rightarrow> string \<Rightarrow> server \<Rightarrow> server" where
  "reopen v i s = (if held s i \<noteq> None then s
     else (case open_history v i s of
             Inr s1 \<Rightarrow> say [OEmit i] s1
           | Inl m \<Rightarrow> s\<lparr>sv_db := unmark_open i (sv_db s)\<rparr>))"

definition rehydrate :: "env \<Rightarrow> server \<Rightarrow> server" where
  "rehydrate v s = fold (reopen v) (open_session_ids (sv_db s)) s"

definition restart :: "server \<Rightarrow> server" where
  "restart s = \<lparr>sv_entries = [], sv_live = [], sv_db = sv_db s, sv_closed = False, sv_procs = [], sv_remotes = [],
     sv_probes = [], sv_pass = [], sv_next = sv_next s, sv_out = []\<rparr>"

definition exists_session :: "server \<Rightarrow> string \<Rightarrow> bool" where
  "exists_session s i = (held s i \<noteq> None \<or> session_exists (sv_db s) i)"

definition list_live :: "server \<Rightarrow> live_session list" where
  "list_live s = sort_stable (\<lambda>a b. ls_updated_at b < ls_updated_at a) (map (\<lambda>(i, k). en_session (entry k s)) (sv_live s))"

definition get_live :: "server \<Rightarrow> string \<Rightarrow> live_session option" where
  "get_live s i = map_option (\<lambda>k. en_session (entry k s)) (held s i)"

definition agent_running :: "server \<Rightarrow> string \<Rightarrow> bool" where
  "agent_running s i = (case held s i of Some k \<Rightarrow> run_live (entry k s) | None \<Rightarrow> False)"

definition history_items :: "server \<Rightarrow> string \<Rightarrow> rat option \<Rightarrow> string option \<Rightarrow> (session_row \<times> bool \<times> bool) list" where
  "history_items s q limit cwd = map (\<lambda>(r, b). (r, b, held s (sr_id r) \<noteq> None)) (list_history (sv_db s) q limit cwd)"

section \<open>Titles and models\<close>

definition title_ready :: "env \<Rightarrow> string \<Rightarrow> string \<Rightarrow> string \<Rightarrow> server \<Rightarrow> server" where
  "title_ready v i fallback title s =
     (if title = [] \<or> title = fallback then s
      else (let save = (\<lambda>s. s\<lparr>sv_db := update_session (ev_now v) i (no_patch\<lparr>pt_title := Some title\<rparr>) (sv_db s)\<rparr>)
            in case held s i of
                 Some k \<Rightarrow> (if ls_title (en_session (entry k s)) \<noteq> fallback then s
                    else save (emit v k (put_entry k (on_session (\<lambda>l. l\<lparr>ls_title := title\<rparr>) (entry k s)) s)))
               | None \<Rightarrow> save s))"

text \<open>The length of a text in UTF-8: two bytes from the code 128 on.\<close>

definition utf8_length :: "string \<Rightarrow> int" where
  "utf8_length t = sum_list (map (\<lambda>c. if (of_char c :: int) < 128 then 1 else 2) t)"

definition rename :: "env \<Rightarrow> string \<Rightarrow> string \<Rightarrow> server \<Rightarrow> string + server" where
  "rename v i title s =
     (let clean = js_trim (collapse_ws title)
      in if clean = [] then Inl ''a title is required''
         else if 200 < utf8_length clean then Inl ''the title is too long (max 200 bytes)''
         else if held s i = None \<and> get_session (sv_db s) i = None then Inl ''unknown session''
         else (let s1 = (case held s i of
                           Some k \<Rightarrow> emit v k (put_entry k (on_session (\<lambda>l. l\<lparr>ls_title := clean\<rparr>) (entry k s)) s) | None \<Rightarrow> s)
               in Inr (s1\<lparr>sv_db := update_session (ev_now v) i (no_patch\<lparr>pt_title := Some clean\<rparr>) (sv_db s1)\<rparr>)))"

definition model_notice :: "string \<Rightarrow> bool \<Rightarrow> run_event" where
  "model_notice name working = EvNotice (''model '' @ [CHR 0x1A] @ '' '' @ name @
     (if working then '' (from next step)'' else '' (from your next message)'')) ''model''"

text \<open>The arrow of the notice (U+2192) is written with an unused code.\<close>

text \<open>A run in progress takes the model from its next step.\<close>

definition tell_model :: "internal \<Rightarrow> string \<Rightarrow> server \<Rightarrow> server" where
  "tell_model e name s = (if run_live e then (case en_run e of Some r \<Rightarrow> control r (CModel name) s | None \<Rightarrow> s) else s)"

definition set_session_model :: "env \<Rightarrow> string \<Rightarrow> string \<Rightarrow> server \<Rightarrow> string + server" where
  "set_session_model v i model s =
     (case held s i of
        None \<Rightarrow> Inl ''unknown session''
      | Some k \<Rightarrow>
          (let name = js_trim model; e = entry k s
           in if name = [] then Inl ''a model name is required''
              else
                (let working = (run_live e \<and> ls_status (en_session e) = SRunning);
                     s1 = say [OLastModel name] (put_entry k (on_session (\<lambda>l. l\<lparr>ls_model := name\<rparr>) e) s);
                     s2 = tell_model e name s1;
                     s3 = put_entry k (add_events [model_notice name working] (entry k s2)) s2;
                     s4 = s3\<lparr>sv_db := update_session (ev_now v) i (no_patch\<lparr>pt_model := Some name\<rparr>) (sv_db s3)\<rparr>
                 in Inr (emit v k (persist v k s4)))))"

definition compact_session :: "env \<Rightarrow> string \<Rightarrow> server \<Rightarrow> string + server" where
  "compact_session v i s =
     (case held s i of
        None \<Rightarrow> Inl ''unknown session''
      | Some k \<Rightarrow>
          (let e = entry k s
           in case (run_live e, en_run e) of
                (True, Some r) \<Rightarrow> Inr (emit v k (put_entry k (add_events
                   [EvNotice ''compacting the conversation before the next step'' ''context''] (entry k s)) (control r CCompact s)))
              | _ \<Rightarrow>
                  (if ls_remote (en_session e) then Inl ''compaction needs a live local run: a remote turn is one-shot''
                   else if length (ls_messages (en_session e)) < 3 then Inl ''nothing to compact yet: send a message first''
                   else if \<not> ev_compact_ok v then
                     Inl ''/compact between turns needs the integrated runner (pip install -e ./agent); it still works while a run is live''
                   else Inr (compact_only v k (put_entry k (on_session (\<lambda>l. l\<lparr>ls_status := SRunning, ls_started_at := ev_now v\<rparr>)
                          (add_events [EvNotice ''compacting the saved conversation'' ''context''] e)) s)))))"

section \<open>The background pass\<close>

text \<open>The roster of an entry's subagents, as it was read (\<open>None\<close> when it is not read now).\<close>

definition sync_children :: "env \<Rightarrow> (string \<Rightarrow> (string \<times> string) list option) \<Rightarrow> nat \<Rightarrow> server \<Rightarrow> server" where
  "sync_children v roster k s =
     (let e = entry k s; l = en_session e
      in case (en_traj e, roster (ls_id l)) of
           (Some t, Some views) \<Rightarrow>
             (if views = ls_subagents l then s
              else (let l1 = l\<lparr>ls_subagents := views\<rparr>;
                        l2 = (if ls_status l1 = SDone \<and> children_working l1 then l1\<lparr>ls_status := SIdle, ls_exit_status := []\<rparr> else l1)
                    in emit v k (put_entry k (e\<lparr>en_session := l2\<rparr>) s)))
         | _ \<Rightarrow> s)"

definition sync_idle :: "internal \<Rightarrow> bool" where
  "sync_idle e \<longleftrightarrow> \<not> ls_remote (en_session e) \<and> \<not> run_live e \<and> ls_status (en_session e) \<noteq> SRunning \<and> \<not> en_probing e"

definition sync_ask :: "nat \<Rightarrow> server \<Rightarrow> server" where
  "sync_ask k s =
     (let stamp = session_stamp (sv_db s) (ls_id (en_session (entry k s)))
      in case attach_ask k s of
           (s1, Now b) \<Rightarrow> s1\<lparr>sv_pass := sv_pass s1 @ [(k, stamp, Some b)]\<rparr>
         | (s1, Ask r) \<Rightarrow> s1\<lparr>sv_pass := sv_pass s1 @ [(k, stamp, None)], sv_probes := sv_probes s1 @ [(k, r, PSync)]\<rparr>)"

definition sync_begin :: "env \<Rightarrow> (string \<Rightarrow> (string \<times> string) list option) \<Rightarrow> server \<Rightarrow> server" where
  "sync_begin v roster s =
     (if sv_pass s \<noteq> [] then s
      else (let ks = map snd (sv_live s);
                s1 = persist_dirty v (fold (sync_children v roster) ks s)
            in fold sync_ask (filter (\<lambda>k. sync_idle (entry k s1)) ks) s1))"

text \<open>When every probe of the pass has answered, the rows that moved are read back, one at a time.\<close>

definition sync_reload :: "env \<Rightarrow> server \<Rightarrow> server" where
  "sync_reload v s =
     (if list_ex (\<lambda>(k, stamp, b). b = None) (sv_pass s) then s
      else (case sv_pass s of
              [] \<Rightarrow> s
            | (k, stamp, b) # rest \<Rightarrow>
                (let s1 = s\<lparr>sv_pass := rest\<rparr>
                 in if b = Some True then s1
                    else (case stamp of
                            Some x \<Rightarrow> (if (case en_synced (entry k s1) of Some y \<Rightarrow> y | None \<Rightarrow> 0) < x then reload_from_db v k s1 else s1)
                          | None \<Rightarrow> s1))))"

definition probe_done :: "env \<Rightarrow> nat \<Rightarrow> bool \<Rightarrow> server \<Rightarrow> server" where
  "probe_done v j alive s =
     (if length (sv_probes s) \<le> j then s
      else (case sv_probes s ! j of
              (k, r, why) \<Rightarrow>
                (case attach_settle v k r alive (s\<lparr>sv_probes := take j (sv_probes s) @ drop (Suc j) (sv_probes s)\<rparr>) of
                   (s1, got) \<Rightarrow>
                     (case why of
                        PSync \<Rightarrow> s1\<lparr>sv_pass := map (\<lambda>(k', stamp, b). if k' = k \<and> b = None then (k', stamp, Some got) else (k', stamp, b)) (sv_pass s1)\<rparr>
                      | POpen was_held \<Rightarrow> (if was_held \<and> \<not> got then refresh_if_stale v k s1 else s1)
                      | PSend text atts sfx expand \<Rightarrow>
                          fst (send_on v k text atts sfx expand (if got then s1 else refresh_if_stale v k s1))))))"

section \<open>Every event\<close>

text \<open>
  What another user interface does to the shared database are three events of its own (a save, an agent that it starts or
  ends); \<open>AgentReads\<close> is an agent that drained its control file.
\<close>

datatype happening =
    Create string string create_options
  | Send string string "upload list" string bool
  | MessageAgent string string
  | Interrupt string
  | Close string
  | Delete string
  | Open string
  | Rename string string
  | SetModel string string
  | Compact string
  | InjectChannel string run_event
  | TitleReady string string string
  | Journal nat journal_state
  | ProcExit nat int "journal_state option"
  | RemoteData nat string
  | RemoteStderr nat string
  | RemoteExit nat int
  | ProbeDone nat bool
  | SyncBegin "string \<Rightarrow> (string \<times> string) list option"
  | SyncReload
  | PersistAll
  | Dispose
  | AgentReads nat
  | ForeignSave session_row
  | ForeignRun live_run
  | ForeignEnd string string

definition or_unchanged :: "server \<Rightarrow> 'a + server \<Rightarrow> server" where
  "or_unchanged s r = (case r of Inr s' \<Rightarrow> s' | Inl m \<Rightarrow> s)"

fun serve_step :: "env \<Rightarrow> happening \<Rightarrow> server \<Rightarrow> server" where
  "serve_step v (Create i routed opts) s = (if i \<in> fst ` set (sv_live s) then s
     else fst (create_live v i routed opts s))"
| "serve_step v (Send i p atts sfx expand) s = fst (send v i p atts sfx expand s)"
| "serve_step v (MessageAgent i t) s = fst (message_agent i t s)"
| "serve_step v (Interrupt i) s = or_unchanged s (interrupt v i s)"
| "serve_step v (Close i) s = close v i s"
| "serve_step v (Delete i) s = fst (delete_history i s)"
| "serve_step v (Open i) s = or_unchanged s (open_history v i s)"
| "serve_step v (Rename i t) s = or_unchanged s (rename v i t s)"
| "serve_step v (SetModel i m) s = or_unchanged s (set_session_model v i m s)"
| "serve_step v (Compact i) s = or_unchanged s (compact_session v i s)"
| "serve_step v (InjectChannel i e) s = fst (inject_channel v i e s)"
| "serve_step v (TitleReady i f t) s = title_ready v i f t s"
| "serve_step v (Journal k n) s = (if k < length (sv_entries s) then journal v k n s else s)"
| "serve_step v (ProcExit n code final) s = proc_exit v n code final s"
| "serve_step v (RemoteData n chunk) s = remote_data v n chunk s"
| "serve_step v (RemoteStderr n chunk) s = remote_stderr v n chunk s"
| "serve_step v (RemoteExit n code) s = remote_exit v n code s"
| "serve_step v (ProbeDone j alive) s = probe_done v j alive s"
| "serve_step v (SyncBegin roster) s = (if sv_closed s then s else sync_begin v roster s)"
| "serve_step v SyncReload s = sync_reload v s"
| "serve_step v PersistAll s = persist_all v s"
| "serve_step v Dispose s = s\<lparr>sv_closed := True\<rparr>"
| "serve_step v (AgentReads n) s = on_proc n (\<lambda>p. p\<lparr>pr_unread := []\<rparr>) s"
| "serve_step v (ForeignSave r) s = s\<lparr>sv_db := (sv_db s)\<lparr>sd_sessions := upsert sr_id r (sd_sessions (sv_db s))\<rparr>\<rparr>"
| "serve_step v (ForeignRun r) s = s\<lparr>sv_db := register_live_run r (sv_db s)\<rparr>"
| "serve_step v (ForeignEnd i t) s = s\<lparr>sv_db := clear_live_run i t (sv_db s)\<rparr>"

text \<open>A run: each event comes with the environment it finds.\<close>

fun serve :: "(env \<times> happening) list \<Rightarrow> server \<Rightarrow> server" where
  "serve [] s = s"
| "serve ((v, h) # hs) s = serve hs (serve_step v h s)"

definition empty_server :: "session_db \<Rightarrow> server" where
  "empty_server d = \<lparr>sv_entries = [], sv_live = [], sv_db = d, sv_closed = False, sv_procs = [], sv_remotes = [],
     sv_probes = [], sv_pass = [], sv_next = 0, sv_out = []\<rparr>"

end
