(* ===== verification/SessionInv.thy ===== *)
theory SessionInv
  imports SessionSteps
begin

text \<open>
  What holds of a server whatever happens to it: references are good, and an entry has at most one process that works for
  it and was not told to stop.  \<open>frame\<close> is the part of a server that the invariant is about; most of what a method does
  leaves it alone, and the rules of \<open>frame_simps\<close> say so once for every helper.
\<close>

section \<open>The frame\<close>

record core =
  ce_run :: "nat option"
  ce_own :: bool
  ce_live :: bool
  ce_turn :: "nat option"
  ce_turns :: "nat list"
  ce_remote :: bool
  ce_id :: string

definition core_of :: "internal \<Rightarrow> core" where
  "core_of e = \<lparr>ce_run = map_option mr_id (en_run e), ce_own = (en_run e \<noteq> None \<and> \<not> attached e), ce_live = run_live e,
     ce_turn = en_remote e, ce_turns = en_remotes e, ce_remote = ls_remote (en_session e), ce_id = ls_id (en_session e)\<rparr>"

definition proc_core :: "proc \<Rightarrow> nat \<times> nat \<times> bool \<times> bool" where
  "proc_core p = (pr_id p, pr_entry p, pr_kind p = KAttach, pr_alive p \<and> \<not> pr_told p)"

definition remote_core :: "remote_proc \<Rightarrow> nat \<times> nat \<times> bool" where
  "remote_core p = (rp_id p, rp_entry p, rp_alive p \<and> \<not> rp_told p)"

definition frame where
  "frame s = (map core_of (sv_entries s), map proc_core (sv_procs s), map remote_core (sv_remotes s), sv_next s, sv_live s,
     map fst (sv_probes s) @ map fst (sv_pass s))"

definition count :: "server \<Rightarrow> nat" where
  "count s = length (sv_entries s)"

lemma frame_count: "frame s = frame s' \<Longrightarrow> count s = count s'"
  by (drule arg_cong [where f = "\<lambda>x. length (fst x)"]) (simp add: frame_def count_def)

lemma frame_entry: "frame s = frame s' \<Longrightarrow> k < count s \<Longrightarrow> core_of (entry k s) = core_of (entry k s')"
proof -
  assume f: "frame s = frame s'" and k: "k < count s"
  from arg_cong [OF f, of "\<lambda>x. fst x ! k"] show ?thesis
    using k frame_count [OF f] by (simp add: frame_def count_def entry_def)
qed

lemma frame_live: "frame s = frame s' \<Longrightarrow> sv_live s = sv_live s'"
  by (simp add: frame_def)

lemma frame_held: "frame s = frame s' \<Longrightarrow> held s i = held s' i"
  by (simp add: frame_def held_def)

lemma entry_put [simp]: "k < count s \<Longrightarrow> entry k (put_entry k e s) = e"
  by (simp add: entry_def put_entry_def count_def)

lemma entry_put_other [simp]: "j \<noteq> k \<Longrightarrow> entry j (put_entry k e s) = entry j s"
  by (simp add: entry_def put_entry_def)

lemma count_put [simp]: "count (put_entry k e s) = count s"
  by (simp add: count_def put_entry_def)

lemma put_fields [simp]:
  "sv_live (put_entry k e s) = sv_live s" "sv_db (put_entry k e s) = sv_db s" "sv_closed (put_entry k e s) = sv_closed s"
  "sv_procs (put_entry k e s) = sv_procs s" "sv_remotes (put_entry k e s) = sv_remotes s" "sv_probes (put_entry k e s) = sv_probes s"
  "sv_pass (put_entry k e s) = sv_pass s" "sv_next (put_entry k e s) = sv_next s" "sv_out (put_entry k e s) = sv_out s"
  "held (put_entry k e s) i = held s i"
  by (simp_all add: put_entry_def held_def)

lemma say_fields [simp]:
  "sv_live (say os s) = sv_live s" "sv_db (say os s) = sv_db s" "sv_closed (say os s) = sv_closed s"
  "sv_procs (say os s) = sv_procs s" "sv_remotes (say os s) = sv_remotes s" "sv_probes (say os s) = sv_probes s"
  "sv_pass (say os s) = sv_pass s" "sv_next (say os s) = sv_next s" "sv_entries (say os s) = sv_entries s"
  "entry k (say os s) = entry k s" "count (say os s) = count s" "held (say os s) i = held s i"
  by (simp_all add: say_def entry_def count_def held_def)

lemma db_fields [simp]:
  "entry k (s\<lparr>sv_db := d\<rparr>) = entry k s" "count (s\<lparr>sv_db := d\<rparr>) = count s" "held (s\<lparr>sv_db := d\<rparr>) i = held s i"
  "entry k (s\<lparr>sv_pass := ps\<rparr>) = entry k s" "count (s\<lparr>sv_pass := ps\<rparr>) = count s" "held (s\<lparr>sv_pass := ps\<rparr>) i = held s i"
  "entry k (s\<lparr>sv_probes := qs\<rparr>) = entry k s" "count (s\<lparr>sv_probes := qs\<rparr>) = count s" "held (s\<lparr>sv_probes := qs\<rparr>) i = held s i"
  by (simp_all add: entry_def count_def held_def)

lemma frame_fields [simp, frame_simps]:
  "frame (say os s) = frame s" "frame (s\<lparr>sv_db := d\<rparr>) = frame s" "frame (s\<lparr>sv_closed := b\<rparr>) = frame s"
  by (simp_all add: frame_def say_def)

lemma frame_put: "core_of e = core_of (entry k s) \<Longrightarrow> frame (put_entry k e s) = frame s"
proof -
  assume "core_of e = core_of (entry k s)"
  then have "map core_of ((sv_entries s)[k := e]) = map core_of (sv_entries s)"
    by (cases "k < length (sv_entries s)") (simp_all add: entry_def map_update list_update_same_conv list_update_beyond)
  then show ?thesis by (simp add: frame_def put_entry_def)
qed

section \<open>What leaves the core of an entry alone\<close>

named_theorems core_simps \<open>updates of an entry that keep its core\<close>

lemma core_on_session [core_simps]:
  "(\<And>l. ls_remote (f l) = ls_remote l \<and> ls_id (f l) = ls_id l) \<Longrightarrow> core_of (on_session f e) = core_of e"
  by (simp add: core_of_def on_session_def run_live_def attached_def)

lemma core_add_events [simp, core_simps]: "core_of (add_events es e) = core_of e"
  by (simp add: add_events_def core_simps)

lemma core_set_status [simp, core_simps]: "core_of (set_status st e) = core_of e"
  by (simp add: set_status_def core_simps)

lemma core_touch [simp, core_simps]: "core_of (touch v e) = core_of e"
  by (simp add: touch_def core_simps)

lemma core_fields [simp]:
  "core_of (e\<lparr>en_watch := w\<rparr>) = core_of e" "core_of (e\<lparr>en_pending := p\<rparr>) = core_of e" "core_of (e\<lparr>en_traj := t\<rparr>) = core_of e"
  "core_of (e\<lparr>en_consumed := n\<rparr>) = core_of e" "core_of (e\<lparr>en_seen := b\<rparr>) = core_of e" "core_of (e\<lparr>en_probing := b\<rparr>) = core_of e"
  "core_of (e\<lparr>en_synced := x\<rparr>) = core_of e" "core_of (e\<lparr>en_rebuild := b\<rparr>) = core_of e" "core_of (e\<lparr>en_queue := q\<rparr>) = core_of e"
  "core_of (e\<lparr>en_persisted_count := c\<rparr>) = core_of e" "core_of (e\<lparr>en_persisted_at := a\<rparr>) = core_of e"
  "core_of (e\<lparr>en_mirror := m\<rparr>) = core_of e" "core_of (e\<lparr>en_usage := u\<rparr>) = core_of e" "core_of (e\<lparr>en_profile := pf\<rparr>) = core_of e"
  "core_of (e\<lparr>en_stopped := st\<rparr>) = core_of e"
  by (simp_all add: core_of_def run_live_def attached_def)

lemma core_stop_watch [simp]: "core_of (stop_watch e) = core_of e"
  by (simp add: stop_watch_def)

lemma core_with_mirror [simp]: "core_of (with_mirror v e) = core_of e"
  by (simp add: with_mirror_def Let_def)

lemma core_restart_transcript [simp]: "core_of (restart_transcript v keep e) = core_of e"
  by (simp add: restart_transcript_def core_simps)

lemma core_status_after [simp]: "core_of (status_after v fresh e) = core_of e"
  by (simp add: status_after_def Let_def core_simps split: option.split)

lemma core_take_info [simp]: "core_of (on_session (take_info i) e) = core_of e"
  by (rule core_on_session) (simp add: take_info_def)

lemma core_ingest_start [simp]: "core_of (ingest_start v n e) = core_of e"
  by (simp add: ingest_start_def Let_def core_simps)

lemma core_show_fresh [simp]: "core_of (show_fresh v n e) = core_of e"
  by (simp add: show_fresh_def)

lemma core_take_model [simp]: "core_of (take_model m e) = core_of e"
  by (simp add: take_model_def core_simps split: option.split)

lemma core_ingest [simp]: "core_of (fst (ingest_entry v n e)) = core_of e"
  by (simp add: ingest_entry_def Let_def core_simps)

section \<open>What leaves the frame alone\<close>

lemma frame_emit [simp, frame_simps]: "frame (emit v k s) = frame s"
  by (simp add: emit_def frame_put)

lemma frame_persist [simp, frame_simps]: "frame (persist v k s) = frame s"
  by (simp add: persist_def Let_def frame_put)

lemma frame_persist_dirty_entry [simp, frame_simps]: "frame (persist_dirty_entry v k s) = frame s"
  by (simp add: persist_dirty_entry_def Let_def frame_put)

lemma frame_fold: "(\<And>x s. frame (f x s) = frame s) \<Longrightarrow> frame (fold f xs s) = frame s"
  by (induction xs arbitrary: s) auto

lemma frame_persist_all [simp, frame_simps]: "frame (persist_all v s) = frame s" "frame (persist_dirty v s) = frame s"
  by (simp_all add: persist_all_def persist_dirty_def frame_fold)

lemma frame_ingest [simp, frame_simps]: "frame (ingest v k n s) = frame s"
proof -
  have "frame (put_entry k (fst (ingest_entry v n (entry k s))) s) = frame s" by (simp add: frame_put)
  then show ?thesis by (simp add: ingest_def split: prod.split) (metis fst_conv frame_fields(1))
qed

lemma frame_finish [simp, frame_simps]: "frame (finish_run v k st s) = frame s"
  by (simp add: finish_run_def Let_def frame_put core_simps)

lemma frame_fail_with [simp, frame_simps]: "frame (fail_with v k m s) = frame s"
  by (simp add: fail_with_def frame_put)

lemma frame_announce [simp, frame_simps]: "frame (announce v k r s) = frame s" "frame (retire k r s) = frame s"
  by (simp_all add: announce_def retire_def Let_def)

lemma frame_last_snapshot [simp, frame_simps]: "frame (last_snapshot v k n s) = frame s"
  by (simp add: last_snapshot_def split: option.split)

lemma frame_inject_channel [simp, frame_simps]: "frame (fst (inject_channel v i ev s)) = frame s"
  by (simp add: inject_channel_def Let_def frame_put split: option.split)

lemma map_quiet: "(\<And>x. g (f x) = g x) \<Longrightarrow> map (g \<circ> (\<lambda>x. if P x then f x else x)) xs = map g xs"
  by auto

lemma frame_control [simp, frame_simps]: "frame (control r c s) = frame s"
proof -
  have "map proc_core (map (\<lambda>p. if pr_id p = n then p\<lparr>pr_unread := pr_unread p @ [c]\<rparr> else p) ps) = map proc_core ps" for n ps
    by (auto simp: proc_core_def)
  then show ?thesis by (simp add: control_def on_proc_def frame_def say_def)
qed

lemma frame_on_proc_unread [simp, frame_simps]: "frame (on_proc n (\<lambda>p. p\<lparr>pr_unread := u\<rparr>) s) = frame s"
proof -
  have "map proc_core (map (\<lambda>p. if pr_id p = n then p\<lparr>pr_unread := u\<rparr> else p) ps) = map proc_core ps" for ps
    by (auto simp: proc_core_def)
  then show ?thesis by (simp add: on_proc_def frame_def)
qed

lemma frame_on_remote [simp, frame_simps]:
  "frame (on_remote n (\<lambda>p. p\<lparr>rp_settled := b\<rparr>) s) = frame s" "frame (on_remote n (\<lambda>p. p\<lparr>rp_buffer := t\<rparr>) s) = frame s"
proof -
  have "map remote_core (map (\<lambda>p. if rp_id p = n then p\<lparr>rp_settled := b\<rparr> else p) ps) = map remote_core ps"
    "map remote_core (map (\<lambda>p. if rp_id p = n then p\<lparr>rp_buffer := t\<rparr> else p) ps) = map remote_core ps" for ps
    by (auto simp: remote_core_def)
  then show "frame (on_remote n (\<lambda>p. p\<lparr>rp_settled := b\<rparr>) s) = frame s" "frame (on_remote n (\<lambda>p. p\<lparr>rp_buffer := t\<rparr>) s) = frame s"
    by (simp_all add: on_remote_def frame_def)
qed

lemma core_first_result [simp]: "core_of (on_session (first_result rt p) e) = core_of e"
  by (rule core_on_session) (simp add: first_result_def Let_def)

lemma core_later_result [simp]: "core_of (on_session (later_result rt p b) e) = core_of e"
  by (rule core_on_session) (simp add: later_result_def Let_def)

lemma frame_remote_payload [simp, frame_simps]: "frame (remote_payload v n p s) = frame s"
  by (simp add: remote_payload_def Let_def frame_put split: option.split)

lemma frame_remote_lines [simp, frame_simps]: "frame (remote_lines v n ls s) = frame s"
  by (induction v n ls s rule: remote_lines.induct) (simp add: Let_def split: option.split js.split)+

lemma frame_remote_data [simp, frame_simps]:
  "frame (remote_data v n chunk s) = frame s" "frame (remote_stderr v n chunk s) = frame s"
  by (simp_all add: remote_data_def remote_stderr_def Let_def frame_put split: option.split)

lemma frame_attach_ask [simp, frame_simps]: "frame (fst (attach_ask k s)) = frame s"
  by (simp add: attach_ask_def Let_def frame_put split: option.split)

lemma frame_retire_ghost [simp, frame_simps]: "frame (retire_ghost k r s) = frame s"
  by (simp add: retire_ghost_def Let_def frame_put)

lemma frame_reload [simp, frame_simps]: "frame (reload_from_db v k s) = frame s"
  by (simp add: reload_from_db_def Let_def frame_put core_simps split: option.split)

lemma frame_refresh [simp, frame_simps]: "frame (refresh_if_stale v k s) = frame s"
  by (simp add: refresh_if_stale_def Let_def split: option.split)

lemma frame_journal [simp, frame_simps]: "frame (journal v k n s) = frame s"
  by (simp add: journal_def Let_def split: option.split bool.split)

lemma frame_title_ready [simp, frame_simps]: "frame (title_ready v i f t s) = frame s"
  by (simp add: title_ready_def Let_def frame_put core_simps split: option.split)

lemma frame_sync_children [simp, frame_simps]: "frame (sync_children v roster k s) = frame s"
  by (simp add: sync_children_def Let_def frame_put core_of_def run_live_def attached_def split: option.split)

section \<open>The invariant\<close>

text \<open>
  On the frame: the map of open sessions has good references, every process has an entry and an identifier of its own, and a
  process that works for an entry (alive, not told to stop) is the one the entry holds: a local agent its live run, a remote
  turn its current turn, which is also among the turns a stop walks over.
\<close>

type_synonym frame_parts =
  "core list \<times> (nat \<times> nat \<times> bool \<times> bool) list \<times> (nat \<times> nat \<times> bool) list \<times> nat \<times> (string \<times> nat) list \<times> nat list"

fun frame_ok :: "frame_parts \<Rightarrow> bool" where
  "frame_ok (cs, ps, rs, n, live, refs) \<longleftrightarrow>
     distinct (map fst live) \<and> (\<forall>i k. (i, k) \<in> set live \<longrightarrow> k < length cs \<and> ce_id (cs ! k) = i) \<and>
     distinct (map fst ps @ map fst rs) \<and>
     (\<forall>j k att on. (j, k, att, on) \<in> set ps \<longrightarrow> k < length cs \<and> j < n \<and> \<not> ce_remote (cs ! k) \<and>
        (\<not> att \<and> on \<longrightarrow> ce_run (cs ! k) = Some j \<and> ce_live (cs ! k))) \<and>
     (\<forall>j k on. (j, k, on) \<in> set rs \<longrightarrow> k < length cs \<and> j < n \<and> ce_remote (cs ! k) \<and>
        (on \<longrightarrow> ce_turn (cs ! k) = Some j)) \<and>
     (\<forall>k < length cs. \<forall>j. ce_turn (cs ! k) = Some j \<longrightarrow> j \<in> set (ce_turns (cs ! k))) \<and>
     (\<forall>k \<in> set refs. k < length cs)"

definition session_inv :: "server \<Rightarrow> bool" where
  "session_inv s \<longleftrightarrow> frame_ok (frame s)"

lemma new_key: "\<forall>j k on. (j, k, on) \<in> set ps \<longrightarrow> P k on \<and> j < n \<Longrightarrow> n \<notin> fst ` set ps" for n :: nat
  by force

lemma frame_ok_agent:
  assumes ok: "frame_ok (cs, ps, rs, n, live, refs)" and k: "k < length cs" "\<not> ce_live (cs ! k)" "\<not> ce_remote (cs ! k)"
    and c: "c = (cs ! k)\<lparr>ce_run := Some n, ce_own := w, ce_live := True\<rparr>"
  shows "frame_ok (cs[k := c], ps @ [(n, k, att, True)], rs, Suc n, live, refs)"
proof -
  have "n \<notin> fst ` set ps" "n \<notin> fst ` set rs" using ok by fastforce+
  with ok k c show ?thesis by (simp add: nth_list_update less_Suc_eq) metis
qed

lemma frame_ok_turn:
  assumes ok: "frame_ok (cs, ps, rs, n, live, refs)" and k: "k < length cs" "ce_turn (cs ! k) = None" "ce_remote (cs ! k)"
    and c: "c = (cs ! k)\<lparr>ce_turn := Some n, ce_turns := List.insert n (ce_turns (cs ! k))\<rparr>"
  shows "frame_ok (cs[k := c], ps, rs @ [(n, k, True)], Suc n, live, refs)"
proof -
  have "n \<notin> fst ` set ps" "n \<notin> fst ` set rs" using ok by fastforce+
  with ok k c show ?thesis by (simp add: nth_list_update less_Suc_eq) (metis option.distinct(1))
qed

lemma fst_told: "map fst (map (\<lambda>(j, k, att, on). (j, k, att, Q j on)) ps) = map fst ps"
  "map fst (map (\<lambda>(j, k', on). (j, k', Q j on)) rs) = map fst rs"
  by auto

lemma in_told:
  "(j, k, att, on) \<in> set (map (\<lambda>(j, k, att, on). (j, k, att, Q j on)) ps) \<longleftrightarrow> (\<exists>on'. (j, k, att, on') \<in> set ps \<and> on = Q j on')"
  "(j, k, on) \<in> set (map (\<lambda>(j, k', on). (j, k', Q j on)) rs) \<longleftrightarrow> (\<exists>on'. (j, k, on') \<in> set rs \<and> on = Q j on')"
  by force+

lemma frame_ok_told:
  assumes "frame_ok (cs, ps, rs, n, live, refs)"
  shows "frame_ok (cs, map (\<lambda>(j, k, att, on). (j, k, att, on \<and> j \<noteq> m)) ps, rs, n, live, refs)"
  using assms unfolding frame_ok.simps fst_told in_told by (simp only:) blast

lemma frame_ok_ended:
  assumes "frame_ok (cs, ps, rs, n, live, refs)" "k < length cs" "ce_run (cs ! k) = Some m"
    and "c = (cs ! k)\<lparr>ce_live := False\<rparr>"
  shows "frame_ok (cs[k := c], map (\<lambda>(j, k, att, on). (j, k, att, on \<and> j \<noteq> m)) ps, rs, n, live, refs)"
  using assms unfolding frame_ok.simps fst_told in_told by (simp add: nth_list_update) (metis option.inject)

lemma frame_ok_stopped:
  assumes "frame_ok (cs, ps, rs, n, live, refs)" "k < length cs"
    and "c = (cs ! k)\<lparr>ce_turn := None, ce_turns := []\<rparr>"
  shows "frame_ok (cs[k := c], ps, map (\<lambda>(j, k', on). (j, k', on \<and> j \<notin> set (ce_turns (cs ! k)))) rs, n, live, refs)"
  using assms unfolding frame_ok.simps fst_told in_told by (simp add: nth_list_update) metis

lemma frame_ok_turn_ended:
  assumes "frame_ok (cs, ps, rs, n, live, refs)" "k < length cs"
    and "c = (cs ! k)\<lparr>ce_turn := (if ce_turn (cs ! k) = Some m then None else ce_turn (cs ! k)),
               ce_turns := filter (\<lambda>j. j \<noteq> m) (ce_turns (cs ! k))\<rparr>"
  shows "frame_ok (cs[k := c], ps, map (\<lambda>(j, k', on). (j, k', on \<and> j \<noteq> m)) rs, n, live, refs)"
  using assms unfolding frame_ok.simps fst_told in_told
  by (intro conjI allI impI) (auto simp: nth_list_update split: if_splits)

lemma frame_ok_held:
  assumes ok: "frame_ok (cs, ps, rs, n, live, refs)" and c: "ce_turn c = None"
  shows "frame_ok (cs @ [c], ps, rs, n, upsert fst (ce_id c, length cs) live, refs)"
proof -
  have d: "distinct (map fst (upsert fst (ce_id c, length cs) live))"
    using ok unique_keys_upsert [of fst live "(ce_id c, length cs)"] by (simp add: unique_keys_def)
  have "k < length (cs @ [c]) \<and> ce_id ((cs @ [c]) ! k) = i" if "(i, k) \<in> set (upsert fst (ce_id c, length cs) live)" for i k
    using that ok set_upsert_subset [of fst "(ce_id c, length cs)" live] by (auto simp: nth_append dest!: subsetD)
  moreover have "(\<forall>k < length (cs @ [c]). \<forall>j. ce_turn ((cs @ [c]) ! k) = Some j \<longrightarrow> j \<in> set (ce_turns ((cs @ [c]) ! k)))"
    using ok c by (auto simp: nth_append)
  moreover have "\<forall>j k att on. (j, k, att, on) \<in> set ps \<longrightarrow> (cs @ [c]) ! k = cs ! k"
    "\<forall>j k on. (j, k, on) \<in> set rs \<longrightarrow> (cs @ [c]) ! k = cs ! k"
    using ok by (auto simp: nth_append)
  moreover have "\<forall>k \<in> set refs. k < length (cs @ [c])" using ok by auto
  ultimately show ?thesis using ok d by (simp del: nth_append) (metis less_SucI)
qed

lemma frame_ok_let_go: "frame_ok (cs, ps, rs, n, live, refs) \<Longrightarrow> frame_ok (cs, ps, rs, n, delete_key fst i live, refs)"
  using unique_keys_delete_key [of fst live i] by (auto simp: unique_keys_def delete_key_def)

section \<open>Operations keep the invariant\<close>

lemma nth_core [simp]: "k < count s \<Longrightarrow> map core_of (sv_entries s) ! k = core_of (entry k s)"
  by (simp add: count_def entry_def)

lemma frame_parts:
  obtains cs ps rs n live refs where "frame s = (cs, ps, rs, n, live, refs)" "length cs = count s"
    "cs = map core_of (sv_entries s)" "ps = map proc_core (sv_procs s)" "rs = map remote_core (sv_remotes s)" "n = sv_next s"
    "live = sv_live s" "refs = map fst (sv_probes s) @ map fst (sv_pass s)"
  by (rule that [of "map core_of (sv_entries s)" "map proc_core (sv_procs s)" "map remote_core (sv_remotes s)" "sv_next s" "sv_live s"
        "map fst (sv_probes s) @ map fst (sv_pass s)"])
     (simp_all add: frame_def count_def)

text \<open>The clauses of the invariant, said of the server.\<close>

lemma inv_clauses:
  assumes "session_inv s"
  shows "distinct (map fst (sv_live s))" "distinct (map pr_id (sv_procs s))" "distinct (map rp_id (sv_remotes s))"
    and "(i, k) \<in> set (sv_live s) \<Longrightarrow> k < count s \<and> ls_id (en_session (entry k s)) = i"
    and "p \<in> set (sv_procs s) \<Longrightarrow> pr_entry p < count s \<and> \<not> ls_remote (en_session (entry (pr_entry p) s)) \<and>
      (pr_kind p \<noteq> KAttach \<and> pr_alive p \<and> \<not> pr_told p \<longrightarrow>
       map_option mr_id (en_run (entry (pr_entry p) s)) = Some (pr_id p) \<and> run_live (entry (pr_entry p) s))"
    and "r \<in> set (sv_remotes s) \<Longrightarrow> rp_entry r < count s \<and> ls_remote (en_session (entry (rp_entry r) s)) \<and>
      (rp_alive r \<and> \<not> rp_told r \<longrightarrow> en_remote (entry (rp_entry r) s) = Some (rp_id r))"
    and "x \<in> set (sv_probes s) \<Longrightarrow> fst x < count s"
    and "y \<in> set (sv_pass s) \<Longrightarrow> fst y < count s"
proof -
  obtain cs ps rs n live refs where f: "frame s = (cs, ps, rs, n, live, refs)" "length cs = count s" "cs = map core_of (sv_entries s)"
    "ps = map proc_core (sv_procs s)" "rs = map remote_core (sv_remotes s)" "n = sv_next s" "live = sv_live s"
    "refs = map fst (sv_probes s) @ map fst (sv_pass s)"
    by (rule frame_parts [of s])
  have f9: "k < count s \<Longrightarrow> cs ! k = core_of (entry k s)" for k using f(3) by simp
  have ok: "frame_ok (cs, ps, rs, n, live, refs)" using assms by (simp add: session_inv_def f(1))
  show "distinct (map fst (sv_live s))" using ok f(7) by simp
  have "map pr_id (sv_procs s) = map fst ps" "map rp_id (sv_remotes s) = map fst rs"
    using f(4,5) by (simp_all add: proc_core_def remote_core_def)
  then show "distinct (map pr_id (sv_procs s))" "distinct (map rp_id (sv_remotes s))" using ok by simp_all
  show "(i, k) \<in> set (sv_live s) \<Longrightarrow> k < count s \<and> ls_id (en_session (entry k s)) = i" for i k
  proof -
    assume "(i, k) \<in> set (sv_live s)"
    with ok f(2,7) have "k < count s \<and> ce_id (cs ! k) = i" by simp
    then show ?thesis using f9 [of k] by (simp add: core_of_def)
  qed
  have pc: "(j, k, att, on) \<in> set ps \<Longrightarrow> k < count s \<and> \<not> ce_remote (cs ! k) \<and>
        (\<not> att \<and> on \<longrightarrow> ce_run (cs ! k) = Some j \<and> ce_live (cs ! k))" for j k att on
    using ok f(2) by simp
  show "p \<in> set (sv_procs s) \<Longrightarrow> pr_entry p < count s \<and> \<not> ls_remote (en_session (entry (pr_entry p) s)) \<and>
      (pr_kind p \<noteq> KAttach \<and> pr_alive p \<and> \<not> pr_told p \<longrightarrow>
       map_option mr_id (en_run (entry (pr_entry p) s)) = Some (pr_id p) \<and> run_live (entry (pr_entry p) s))" for p
  proof -
    assume "p \<in> set (sv_procs s)"
    then have "(pr_id p, pr_entry p, pr_kind p = KAttach, pr_alive p \<and> \<not> pr_told p) \<in> set ps"
      using f(4) by (auto simp: proc_core_def)
    from pc [OF this] show ?thesis using f9 [of "pr_entry p"] by (simp add: core_of_def)
  qed
  have rc: "(j, k, on) \<in> set rs \<Longrightarrow> k < count s \<and> ce_remote (cs ! k) \<and> (on \<longrightarrow> ce_turn (cs ! k) = Some j)" for j k on
    using ok f(2) by simp
  show "r \<in> set (sv_remotes s) \<Longrightarrow> rp_entry r < count s \<and> ls_remote (en_session (entry (rp_entry r) s)) \<and>
      (rp_alive r \<and> \<not> rp_told r \<longrightarrow> en_remote (entry (rp_entry r) s) = Some (rp_id r))" for r
  proof -
    assume "r \<in> set (sv_remotes s)"
    then have "(rp_id r, rp_entry r, rp_alive r \<and> \<not> rp_told r) \<in> set rs" using f(5) by (auto simp: remote_core_def)
    from rc [OF this] show ?thesis using f9 [of "rp_entry r"] by (simp add: core_of_def)
  qed
  have refs: "k \<in> set refs \<Longrightarrow> k < count s" for k using ok f(2) by simp
  show "x \<in> set (sv_probes s) \<Longrightarrow> fst x < count s" for x using refs f(8) by simp
  show "y \<in> set (sv_pass s) \<Longrightarrow> fst y < count s" for y using refs f(8) by simp
qed

declare frame_ok.simps [simp del]

lemma inv_frame: "frame s' = frame s \<Longrightarrow> session_inv s' = session_inv s"
  by (simp add: session_inv_def)

lemma inv_put: "core_of e = core_of (entry k s) \<Longrightarrow> session_inv (put_entry k e s) = session_inv s"
  by (rule inv_frame) (rule frame_put)

lemma inv_held:
  assumes "session_inv s" "held s i = Some k"
  shows "k < count s" "ls_id (en_session (entry k s)) = i"
  using inv_clauses(4) [OF assms(1), of i k] assms(2) by (auto simp: held_def dest: map_of_SomeD)

lemma map_put: "map core_of ((sv_entries s)[k := e]) = (map core_of (sv_entries s))[k := core_of e]"
  by (simp add: map_update)

lemma inv_start:
  assumes inv: "session_inv s" and k: "k < count s" and e: "core_of e = core_of (entry k s)"
    and idle: "\<not> run_live (entry k s)" "\<not> ls_remote (en_session (entry k s))"
    and kind: "kind \<noteq> KAttach" and sp: "spawn v k kind task m cwd sp re sh s = (s1, r)"
  shows "session_inv (put_entry k (start_follow r e) s1)"
proof -
  obtain cs ps rs n live refs where f: "frame s = (cs, ps, rs, n, live, refs)" "length cs = count s" "cs = map core_of (sv_entries s)"
    "ps = map proc_core (sv_procs s)" "rs = map remote_core (sv_remotes s)" "n = sv_next s" "live = sv_live s"
    "refs = map fst (sv_probes s) @ map fst (sv_pass s)"
    by (rule frame_parts [of s])
  have f9: "k < count s \<Longrightarrow> cs ! k = core_of (entry k s)" for k using f(3) by simp
  let ?c = "(cs ! k)\<lparr>ce_run := Some n, ce_own := True, ce_live := True\<rparr>"
  have r: "mr_id r = n" "\<not> mr_attached r" using sp f(6) by (auto simp: spawn_def Let_def split: prod.splits)
  have c: "core_of (start_follow r e) = ?c"
    using e r f9 [OF k] by (simp add: start_follow_def Let_def core_of_def run_live_def attached_def)
  have "frame (put_entry k (start_follow r e) s1) = (cs[k := ?c], ps @ [(n, k, False, True)], rs, Suc n, live, refs)"
    using sp kind f by (auto simp: spawn_def Let_def frame_def put_entry_def map_put c proc_core_def say_def split: prod.splits)
  moreover have "frame_ok (cs[k := ?c], ps @ [(n, k, False, True)], rs, Suc n, live, refs)"
    by (rule frame_ok_agent [OF inv [unfolded session_inv_def f(1)]])
       (use k f(2) f9 idle in \<open>auto simp: core_of_def\<close>)
  ultimately show ?thesis by (simp only: session_inv_def)
qed

lemma inv_quiet [simp]:
  "session_inv (emit v k s) = session_inv s" "session_inv (announce v k r s) = session_inv s" "session_inv (say os s) = session_inv s"
  "session_inv (s\<lparr>sv_db := d\<rparr>) = session_inv s" "session_inv (persist v k s) = session_inv s" "session_inv (finish_run v k st s) = session_inv s"
  "session_inv (fail_with v k m s) = session_inv s" "session_inv (control r c s) = session_inv s" "session_inv (ingest v k n s) = session_inv s"
  "session_inv (last_snapshot v k final s) = session_inv s" "session_inv (refresh_if_stale v k s) = session_inv s"
  "session_inv (persist_dirty v s) = session_inv s" "session_inv (persist_all v s) = session_inv s"
  "session_inv (reload_from_db v k s) = session_inv s" "session_inv (fst (attach_ask k s)) = session_inv s"
  "session_inv (on_proc j (\<lambda>p. p\<lparr>pr_unread := u\<rparr>) s) = session_inv s"
  by (rule inv_frame, simp)+

lemma count_quiet [simp]:
  "count (emit v k s) = count s" "count (announce v k r s) = count s" "count (persist v k s) = count s" "count (finish_run v k' st s) = count s"
  "count (control r c s) = count s" "count (ingest v k n s) = count s" "count (last_snapshot v k final s) = count s"
  "count (refresh_if_stale v k s) = count s" "count (fst (attach_ask k s)) = count s" "count (on_proc j (\<lambda>p. p\<lparr>pr_unread := u\<rparr>) s) = count s"
  by (rule frame_count, simp)+

text \<open>Frame and core read back as the fields the guards look at.\<close>

lemma core_eqD:
  assumes "core_of e = core_of e'"
  shows "run_live e = run_live e'" "ls_remote (en_session e) = ls_remote (en_session e')" "en_remote e = en_remote e'"
    "en_remotes e = en_remotes e'" "ls_id (en_session e) = ls_id (en_session e')" "map_option mr_id (en_run e) = map_option mr_id (en_run e')"
  using assms by (simp_all add: core_of_def)

lemma inv_start_put:
  assumes inv: "session_inv s" and k: "k < count s"
    and idle: "\<not> run_live (entry k s)" "\<not> ls_remote (en_session (entry k s))"
    and e: "core_of e = core_of (entry k s)" and kind: "kind \<noteq> KAttach"
    and sp: "spawn v k kind task m cwd sp re sh (put_entry k e (s\<lparr>sv_db := d\<rparr>)) = (s1, r)"
  shows "session_inv (put_entry k (start_follow r e) s1)"
proof (rule inv_start [OF _ _ _ _ _ kind sp])
  show "session_inv (put_entry k e (s\<lparr>sv_db := d\<rparr>))" using inv e by (simp add: inv_put)
  show "k < count (put_entry k e (s\<lparr>sv_db := d\<rparr>))" "core_of e = core_of (entry k (put_entry k e (s\<lparr>sv_db := d\<rparr>)))" using k by simp_all
  show "\<not> run_live (entry k (put_entry k e (s\<lparr>sv_db := d\<rparr>)))" "\<not> ls_remote (en_session (entry k (put_entry k e (s\<lparr>sv_db := d\<rparr>))))"
    using idle k core_eqD [OF e] by simp_all
qed

lemma core_profile [simp]: "core_of (on_session (\<lambda>l. case x of Some p \<Rightarrow> l\<lparr>ls_role := f p\<rparr> | None \<Rightarrow> l) e) = core_of e"
  by (rule core_on_session) (simp split: option.split)

lemma inv_resume_local:
  assumes "session_inv s" "k < count s" "\<not> run_live (entry k s)" "\<not> ls_remote (en_session (entry k s))"
  shows "session_inv (resume_local v k task s)"
proof -
  have "session_inv (put_entry k (start_follow r e) s1)"
    if "spawn v k KResume t m c sp a b (put_entry k e (s\<lparr>sv_db := d\<rparr>)) = (s1, r)" "core_of e = core_of (entry k s)" for s1 r t m c sp a b d e
    using inv_start_put [OF assms that(2) _ that(1)] by simp
  with assms show ?thesis by (simp add: resume_local_def Let_def split: prod.split)
qed

lemma inv_compact_only:
  assumes "session_inv s" "k < count s" "\<not> run_live (entry k s)" "\<not> ls_remote (en_session (entry k s))"
  shows "session_inv (compact_only v k s)"
proof -
  have "session_inv (put_entry k (start_follow r (entry k s)) s1)"
    if "spawn v k KCompact t m c sp a b (s\<lparr>sv_db := d\<rparr>) = (s1, r)" for s1 r t m c sp a b d
    by (rule inv_start [OF _ _ _ _ _ _ that]) (use assms in simp_all)
  with assms show ?thesis by (simp add: compact_only_def Let_def split: prod.split)
qed

lemma inv_resume_unread:
  assumes "session_inv s" "k < count s" "\<not> run_live (entry k s)" "\<not> ls_remote (en_session (entry k s))"
    and "resume_unread v k r s = Some s'"
  shows "session_inv s'"
proof -
  have "entry k (on_proc n f s) = entry k s" for n f by (simp add: on_proc_def entry_def)
  with assms show ?thesis by (auto simp: resume_unread_def Let_def inv_resume_local split: if_splits)
qed

end
