(* ===== verification/SessionSafe.thy ===== *)
theory SessionSafe
  imports SessionInv
begin

text \<open>
  Every event keeps the invariant of \<open>SessionInv\<close>: one lemma per operation, each a frame equation and one transition of the
  frame, and their composition over whole runs.
\<close>

section \<open>Guards read off the core\<close>

lemma guards:
  assumes "frame s' = frame s" "k < count s"
  shows "run_live (entry k s') = run_live (entry k s)" "ls_remote (en_session (entry k s')) = ls_remote (en_session (entry k s))"
    "en_remote (entry k s') = en_remote (entry k s)" "count s' = count s"
  using core_eqD [OF frame_entry [OF assms(1)]] assms frame_count [OF assms(1)] by simp_all

lemma frame_ok_refs:
  assumes "frame_ok (cs, ps, rs, n, live, refs)" "set refs' \<subseteq> {..< length cs}"
  shows "frame_ok (cs, ps, rs, n, live, refs')"
  using assms unfolding frame_ok.simps by (simp only: subset_iff lessThan_iff Ball_def) simp

lemma old_refs:
  assumes "session_inv s"
  shows "fst ` set (sv_probes s) \<subseteq> {..< count s}" "fst ` set (sv_pass s) \<subseteq> {..< count s}"
  using inv_clauses(7,8) [OF assms] by auto

lemma inv_refs:
  assumes "session_inv s" "fst ` set qs \<subseteq> {..< count s}" "fst ` set ps \<subseteq> {..< count s}"
  shows "session_inv (s\<lparr>sv_probes := qs, sv_pass := ps\<rparr>)"
  using frame_ok_refs [OF assms(1) [unfolded session_inv_def frame_def], of "map fst qs @ map fst ps"] assms(2,3)
  by (simp add: session_inv_def frame_def count_def)

lemma inv_probe:
  assumes "session_inv s" "k < count s"
  shows "session_inv (s\<lparr>sv_probes := sv_probes s @ [(k, r, why)]\<rparr>)"
  using inv_refs [OF assms(1), of "sv_probes s @ [(k, r, why)]" "sv_pass s"] assms(2) old_refs [OF assms(1)] by simp

lemma inv_pass:
  assumes "session_inv s" "k < count s"
  shows "session_inv (s\<lparr>sv_pass := sv_pass s @ [(k, x)]\<rparr>)"
  using inv_refs [OF assms(1), of "sv_probes s" "sv_pass s @ [(k, x)]"] assms(2) old_refs [OF assms(1)] by simp

lemma inv_pass_answered:
  assumes "session_inv s" "map fst ps = map fst (sv_pass s)"
  shows "session_inv (s\<lparr>sv_pass := ps\<rparr>)"
  using assms by (simp add: session_inv_def frame_def)

lemma inv_pass_rest:
  assumes "session_inv s" "sv_pass s = p # ps"
  shows "session_inv (s\<lparr>sv_pass := ps\<rparr>)"
  using inv_refs [OF assms(1), of "sv_probes s" ps] assms(2) old_refs [OF assms(1)] by simp

lemma inv_probe_taken:
  assumes "session_inv s"
  shows "session_inv (s\<lparr>sv_probes := take j (sv_probes s) @ drop i (sv_probes s)\<rparr>)"
proof -
  have "fst ` set (take j (sv_probes s) @ drop i (sv_probes s)) \<subseteq> {..< count s}"
    using old_refs(1) [OF assms] by (auto dest!: in_set_takeD in_set_dropD)
  from inv_refs [OF assms this old_refs(2) [OF assms]] show ?thesis by simp
qed

section \<open>Remote turns\<close>

lemma inv_start_remote:
  assumes inv: "session_inv s" and k: "k < count s" and guard: "en_remote (entry k s) = None" "ls_remote (en_session (entry k s))"
  shows "session_inv (start_remote v k first p w m s)"
proof -
  obtain cs ps rs n live refs where f: "frame s = (cs, ps, rs, n, live, refs)" "length cs = count s" "cs = map core_of (sv_entries s)"
    "ps = map proc_core (sv_procs s)" "rs = map remote_core (sv_remotes s)" "n = sv_next s" "live = sv_live s"
    "refs = map fst (sv_probes s) @ map fst (sv_pass s)"
    by (rule frame_parts [of s])
  have f9: "cs ! k = core_of (entry k s)" using f(3) k by simp
  let ?c = "(cs ! k)\<lparr>ce_turn := Some n, ce_turns := List.insert n (ce_turns (cs ! k))\<rparr>"
  have c: "core_of ((entry k s)\<lparr>en_remote := Some n, en_remotes := List.insert n (en_remotes (entry k s))\<rparr>) = ?c"
    using f9 by (simp add: core_of_def run_live_def attached_def)
  have "frame (start_remote v k first p w m s) = (cs[k := ?c], ps, rs @ [(n, k, True)], Suc n, live, refs)"
    unfolding start_remote_def Let_def using f c by (simp add: frame_def put_entry_def map_put remote_core_def)
  moreover have "frame_ok (cs[k := ?c], ps, rs @ [(n, k, True)], Suc n, live, refs)"
    by (rule frame_ok_turn [OF inv [unfolded session_inv_def f(1)]]) (use k f(2) f9 guard in \<open>auto simp: core_of_def\<close>)
  ultimately show ?thesis by (simp only: session_inv_def)
qed

lemma inv_continue_remote:
  assumes "session_inv s" "k < count s" "ls_remote (en_session (entry k s))"
  shows "session_inv (continue_remote v k p s)"
proof -
  let ?e = "add_events [EvNotice (''starting a new turn on the remote host'' @ ellipsis) []]
    (on_session (\<lambda>l. l\<lparr>ls_status := SRunning, ls_started_at := ev_now v\<rparr>) (entry k s))"
  have c: "core_of ?e = core_of (entry k s)" by (simp add: core_simps)
  have "session_inv (start_remote v k False p w m (emit v k (put_entry k ?e s)))" if "en_remote (entry k s) = None" for w m
  proof (rule inv_start_remote)
    have f: "frame (emit v k (put_entry k ?e s)) = frame s" using c by (simp add: frame_put)
    from guards [OF f assms(2)] show "k < count (emit v k (put_entry k ?e s))" "en_remote (entry k (emit v k (put_entry k ?e s))) = None"
      "ls_remote (en_session (entry k (emit v k (put_entry k ?e s))))"
      using assms that by simp_all
    show "session_inv (emit v k (put_entry k ?e s))" using assms(1) c by (simp add: inv_put)
  qed
  with assms(1) show ?thesis by (simp add: continue_remote_def Let_def inv_put split: option.split)
qed

lemma inv_drain:
  assumes "session_inv s" "k < count s" "ls_remote (en_session (entry k s))"
  shows "session_inv (drain_remote_queue v k b s)"
  using assms by (simp add: drain_remote_queue_def inv_continue_remote inv_put split: list.split)

lemma inv_stop_remote:
  assumes inv: "session_inv s" and k: "k < count s"
  shows "session_inv (stop_remote k s)"
proof -
  obtain cs ps rs n live refs where f: "frame s = (cs, ps, rs, n, live, refs)" "length cs = count s" "cs = map core_of (sv_entries s)"
    "ps = map proc_core (sv_procs s)" "rs = map remote_core (sv_remotes s)" "n = sv_next s" "live = sv_live s"
    "refs = map fst (sv_probes s) @ map fst (sv_pass s)"
    by (rule frame_parts [of s])
  let ?c = "(cs ! k)\<lparr>ce_turn := None, ce_turns := []\<rparr>"
  let ?rs = "map (\<lambda>(j, k', on). (j, k', on \<and> j \<notin> set (ce_turns (cs ! k)))) rs"
  have "remote_core (if rp_id p \<in> set xs then p\<lparr>rp_told := True\<rparr> else p) = (case remote_core p of (j, k', on) \<Rightarrow> (j, k', on \<and> j \<notin> set xs))"
    for p xs by (auto simp: remote_core_def)
  moreover have "core_of ((entry k s)\<lparr>en_stopped := st, en_remotes := [], en_remote := None, en_queue := []\<rparr>) = ?c" for st
    using f(3) k by (simp add: core_of_def run_live_def attached_def)
  moreover have "ce_turns (cs ! k) = en_remotes (entry k s)" using f(3) k by (simp add: core_of_def)
  ultimately have "frame (stop_remote k s) = (cs[k := ?c], ps, ?rs, n, live, refs)"
    unfolding stop_remote_def Let_def using f by (simp add: frame_def put_entry_def map_put comp_def)
  moreover have "frame_ok (cs[k := ?c], ps, ?rs, n, live, refs)"
    by (rule frame_ok_stopped [OF inv [unfolded session_inv_def f(1)] _ refl]) (use k f(2) in simp)
  ultimately show ?thesis by (simp only: session_inv_def)
qed

lemma find_in: "find P xs = Some x \<Longrightarrow> x \<in> set xs \<and> P x"
  by (auto simp: find_Some_iff)

lemma entry_on [simp]: "entry k (on_remote n f s) = entry k s" "entry k (on_proc n g s) = entry k s"
  "count (on_remote n f s) = count s" "count (on_proc n g s) = count s"
  by (simp_all add: entry_def on_remote_def on_proc_def count_def)

lemma inv_turn_ended:
  assumes inv: "session_inv s" and k: "k < count s"
    and c: "core_of e = (core_of (entry k s))\<lparr>ce_turn := (if en_remote (entry k s) = Some n then None else en_remote (entry k s)),
               ce_turns := filter (\<lambda>j. j \<noteq> n) (en_remotes (entry k s))\<rparr>"
  shows "session_inv (put_entry k e (on_remote n (\<lambda>x. x\<lparr>rp_alive := False\<rparr>) s))"
proof -
  obtain cs ps rs n' live refs where f: "frame s = (cs, ps, rs, n', live, refs)" "length cs = count s" "cs = map core_of (sv_entries s)"
    "ps = map proc_core (sv_procs s)" "rs = map remote_core (sv_remotes s)" "n' = sv_next s" "live = sv_live s"
    "refs = map fst (sv_probes s) @ map fst (sv_pass s)"
    by (rule frame_parts [of s])
  let ?c = "(cs ! k)\<lparr>ce_turn := (if ce_turn (cs ! k) = Some n then None else ce_turn (cs ! k)),
               ce_turns := filter (\<lambda>j. j \<noteq> n) (ce_turns (cs ! k))\<rparr>"
  let ?rs = "map (\<lambda>(j, k', on). (j, k', on \<and> j \<noteq> n)) rs"
  have "remote_core (if rp_id p = n then p\<lparr>rp_alive := False\<rparr> else p) = (case remote_core p of (j, k', on) \<Rightarrow> (j, k', on \<and> j \<noteq> n))" for p
    by (auto simp: remote_core_def)
  moreover have "core_of e = ?c" using c f(3) k by (simp add: core_of_def)
  ultimately have "frame (put_entry k e (on_remote n (\<lambda>x. x\<lparr>rp_alive := False\<rparr>) s)) = (cs[k := ?c], ps, ?rs, n', live, refs)"
    unfolding on_remote_def using f by (simp add: frame_def put_entry_def map_put comp_def)
  moreover have "frame_ok (cs[k := ?c], ps, ?rs, n', live, refs)"
    by (rule frame_ok_turn_ended [OF inv [unfolded session_inv_def f(1)] _ refl]) (use k f(2) in simp)
  ultimately show ?thesis by (simp only: session_inv_def)
qed

lemma frame_put_cong: "frame s' = frame s \<Longrightarrow> frame (put_entry k e s') = frame (put_entry k e s)"
  by (simp add: frame_def put_entry_def map_put)

lemma inv_settle:
  assumes inv: "session_inv (put_entry k e s)" and k: "k < count s" and rem: "ls_remote (en_session e)"
  shows "session_inv (settle_first v k code e s)" "session_inv (settle_later v n b k code e s)"
proof -
  have drain: "session_inv (drain_remote_queue v k b s')" if "frame s' = frame (put_entry k e s)" for s' b
  proof (rule inv_drain)
    show "session_inv s'" using inv by (simp add: inv_frame [OF that])
    have "k < count (put_entry k e s)" using k by simp
    from guards [OF that this] show "k < count s'" "ls_remote (en_session (entry k s'))" using k rem by simp_all
  qed
  have put: "frame (put_entry k e' s) = frame (put_entry k e s)" if "core_of e' = core_of e" for e'
    using that by (simp add: frame_def put_entry_def map_put)
  show "session_inv (settle_first v k code e s)"
    unfolding settle_first_def Let_def by (rule drain) (unfold frame_finish, rule put, simp)
  define s1 where "s1 = emit v k (put_entry k (if b then e else add_events [turn_card (ls_status (en_session e) = SInterrupted) code] e)
    (on_remote n (\<lambda>x. x\<lparr>rp_settled := True\<rparr>) s))"
  have s1: "frame s1 = frame (put_entry k e s)"
    unfolding s1_def frame_emit frame_put_cong [OF frame_on_remote(1)] by (rule put) simp
  show "session_inv (settle_later v n b k code e s)"
    unfolding settle_later_def Let_def s1_def [symmetric] by (rule drain) (simp add: frame_put s1)
qed

lemma inv_remote_exit:
  assumes inv: "session_inv s0"
  shows "session_inv (remote_exit v n code s0)"
proof (cases "find (\<lambda>p. rp_id p = n \<and> rp_alive p) (sv_remotes s0)")
  case None
  then show ?thesis using inv by (simp add: remote_exit_def)
next
  case (Some r)
  let ?k = "rp_entry r" and ?s = "on_remote n (\<lambda>x. x\<lparr>rp_alive := False\<rparr>) s0"
  let ?e = "(entry ?k s0)\<lparr>en_remotes := filter (\<lambda>m. m \<noteq> n) (en_remotes (entry ?k s0))\<rparr>"
  let ?e1 = "?e\<lparr>en_stopped := filter (\<lambda>m. m \<noteq> n) (en_stopped ?e), en_remote := (if en_remote ?e = Some n then None else en_remote ?e)\<rparr>"
  have k: "?k < count s0" and rem: "ls_remote (en_session (entry ?k s0))"
    using find_in [OF Some] inv_clauses(6) [OF inv, of r] by simp_all
  show ?thesis
  proof (cases "owns_turn ?e n")
    case True
    have e1: "session_inv (put_entry ?k ?e1 ?s)"
      by (rule inv_turn_ended [OF inv k]) (simp add: core_of_def run_live_def attached_def)
    have k': "?k < count ?s" and rem': "ls_remote (en_session ?e1)" using k rem by simp_all
    have "remote_exit v n code s0 = (if rp_first r then settle_first v ?k code ?e1 ?s else settle_later v n (rp_settled r) ?k code ?e1 ?s)"
      using True by (simp add: remote_exit_def Some Let_def)
    then show ?thesis using inv_settle [OF e1 k' rem'] by (simp only: split: if_split) simp
  next
    case False
    have "session_inv (put_entry ?k ?e ?s)"
      by (rule inv_turn_ended [OF inv k]) (use False in \<open>simp add: core_of_def run_live_def attached_def owns_turn_def\<close>)
    then show ?thesis using False by (simp add: remote_exit_def Some Let_def)
  qed
qed

section \<open>Local agents\<close>

lemma inv_told:
  assumes inv: "session_inv s" and f: "\<And>p. pr_id (f p) = pr_id p \<and> pr_entry (f p) = pr_entry p \<and> pr_kind (f p) = pr_kind p \<and> \<not> (pr_alive (f p) \<and> \<not> pr_told (f p))"
  shows "session_inv (on_proc m f s)"
proof -
  obtain cs ps rs n live refs where g: "frame s = (cs, ps, rs, n, live, refs)" "length cs = count s" "cs = map core_of (sv_entries s)"
    "ps = map proc_core (sv_procs s)" "rs = map remote_core (sv_remotes s)" "n = sv_next s" "live = sv_live s"
    "refs = map fst (sv_probes s) @ map fst (sv_pass s)"
    by (rule frame_parts [of s])
  have "proc_core (if pr_id p = m then f p else p) = (case proc_core p of (j, k, att, on) \<Rightarrow> (j, k, att, on \<and> j \<noteq> m))" for p
    using f [of p] by (auto simp: proc_core_def)
  then have "frame (on_proc m f s) = (cs, map (\<lambda>(j, k, att, on). (j, k, att, on \<and> j \<noteq> m)) ps, rs, n, live, refs)"
    unfolding on_proc_def using g by (simp add: frame_def comp_def)
  with frame_ok_told [OF inv [unfolded session_inv_def g(1)], of m] show ?thesis by (simp only: session_inv_def)
qed

lemma inv_kill [simp]: "session_inv s \<Longrightarrow> session_inv (kill r s)" "session_inv s \<Longrightarrow> session_inv (interrupt_run r s)"
  by (simp_all add: kill_def interrupt_run_def inv_told)

lemma inv_ended:
  assumes inv: "session_inv s" and k: "k < count s" and run: "map_option mr_id (en_run (entry k s)) = Some m"
  shows "session_inv (put_entry k (stop_watch ((entry k s)\<lparr>en_exited := True\<rparr>)) (on_proc m (\<lambda>p. p\<lparr>pr_alive := False\<rparr>) s))"
proof -
  obtain cs ps rs n live refs where g: "frame s = (cs, ps, rs, n, live, refs)" "length cs = count s" "cs = map core_of (sv_entries s)"
    "ps = map proc_core (sv_procs s)" "rs = map remote_core (sv_remotes s)" "n = sv_next s" "live = sv_live s"
    "refs = map fst (sv_probes s) @ map fst (sv_pass s)"
    by (rule frame_parts [of s])
  let ?c = "(cs ! k)\<lparr>ce_live := False\<rparr>" and ?ps = "map (\<lambda>(j, k, att, on). (j, k, att, on \<and> j \<noteq> m)) ps"
  have g9: "cs ! k = core_of (entry k s)" using g(3) k by simp
  then have "core_of ((entry k s)\<lparr>en_exited := True\<rparr>) = ?c" by (simp add: core_of_def run_live_def attached_def)
  moreover have "proc_core (if pr_id p = m then p\<lparr>pr_alive := False\<rparr> else p) = (case proc_core p of (j, k, att, on) \<Rightarrow> (j, k, att, on \<and> j \<noteq> m))" for p
    by (auto simp: proc_core_def)
  ultimately have "frame (put_entry k (stop_watch ((entry k s)\<lparr>en_exited := True\<rparr>)) (on_proc m (\<lambda>p. p\<lparr>pr_alive := False\<rparr>) s)) =
      (cs[k := ?c], ?ps, rs, n, live, refs)"
    unfolding on_proc_def using g by (simp add: frame_def put_entry_def map_put comp_def)
  moreover have "frame_ok (cs[k := ?c], ?ps, rs, n, live, refs)"
    by (rule frame_ok_ended [OF inv [unfolded session_inv_def g(1)] _ _ refl]) (use k g(2) g9 run in \<open>simp_all add: core_of_def\<close>)
  ultimately show ?thesis by (simp only: session_inv_def)
qed

lemma inv_own_exit:
  assumes inv: "session_inv s" and k: "k < count s" and rem: "\<not> ls_remote (en_session (entry k s))"
  shows "session_inv (own_exit v n kind k traj code final (on_proc n (\<lambda>p. p\<lparr>pr_alive := False\<rparr>) s))"
proof -
  let ?d = "clear_live_run (ls_id (en_session (entry k s))) traj (sv_db s)"
  let ?s0 = "(on_proc n (\<lambda>p. p\<lparr>pr_alive := False\<rparr>) s)\<lparr>sv_db := ?d\<rparr>"
  have s0: "session_inv ?s0" using inv by (simp add: inv_told)
  define s1 where "s1 = last_snapshot v k final (put_entry k (stop_watch ((entry k s)\<lparr>en_exited := True\<rparr>)) ?s0)"
  define s2 where "s2 = put_entry k (on_session (\<lambda>l. l\<lparr>ls_partial := None\<rparr>) (entry k s1)) s1"
  let ?x = "put_entry k (stop_watch ((entry k s)\<lparr>en_exited := True\<rparr>)) (on_proc n (\<lambda>p. p\<lparr>pr_alive := False\<rparr>) s)"
  have f2: "frame s2 = frame ?x"
    unfolding s2_def s1_def by (simp add: frame_put core_simps) (simp add: frame_def put_entry_def)
  have x: "\<not> run_live (entry k ?x)" "\<not> ls_remote (en_session (entry k ?x))" "k < count ?x"
    using k rem by (simp_all add: run_live_def stop_watch_def)
  have idle: "\<not> run_live (entry k s2)" "\<not> ls_remote (en_session (entry k s2))" "k < count s2"
    using guards [OF f2 x(3)] x by simp_all
  have s2: "session_inv s2" if "run_of n (entry k s) = Some r" for r
  proof -
    from that have "map_option mr_id (en_run (entry k s)) = Some n" by (auto simp: run_of_def split: option.splits if_splits)
    from inv_ended [OF inv k this] show ?thesis by (simp only: inv_frame [OF f2])
  qed
  have db: "sv_db (on_proc n f s) = sv_db s" for f by (simp add: on_proc_def)
  show ?thesis
  proof (cases "run_of n (entry k s)")
    case None
    then show ?thesis using s0 by (simp add: own_exit_def Let_def db)
  next
    case (Some r)
    let ?i = "ls_status (en_session (entry k s1)) = SInterrupted"
    have "own_exit v n kind k traj code final (on_proc n (\<lambda>p. p\<lparr>pr_alive := False\<rparr>) s) =
        (case (if kind \<noteq> KResume \<and> \<not> ?i \<and> code = 0 then resume_unread v k r s2 else None) of
           Some s3 \<Rightarrow> s3 | None \<Rightarrow> finish_run v k (outcome code ?i) s2)"
      using Some by (simp add: own_exit_def Let_def db s1_def [symmetric] s2_def [symmetric] split: option.split)
    then show ?thesis
      using s2 [OF Some] inv_resume_unread [OF s2 [OF Some] idle(3,1,2)] by (simp split: option.split)
  qed
qed

lemma inv_attached_exit:
  assumes inv: "session_inv s" and k: "k < count s"
  shows "session_inv (attached_exit v n k final (on_proc n (\<lambda>p. p\<lparr>pr_alive := False\<rparr>) s))"
proof (cases "run_of n (entry k s)")
  case None
  then show ?thesis using inv by (simp add: attached_exit_def inv_told)
next
  case (Some r)
  then have "map_option mr_id (en_run (entry k s)) = Some n" by (auto simp: run_of_def split: option.splits if_splits)
  note ended = inv_ended [OF inv k this]
  define s1 where "s1 = last_snapshot v k final (put_entry k (stop_watch ((entry k s)\<lparr>en_exited := True\<rparr>)) (on_proc n (\<lambda>p. p\<lparr>pr_alive := False\<rparr>) s))"
  have "session_inv s1" unfolding s1_def using ended by simp
  then have "session_inv (put_entry k (on_session (\<lambda>l. l\<lparr>ls_partial := None, ls_status := st\<rparr>) ((entry k s1)\<lparr>en_synced := x\<rparr>)) s1)" for st x
    by (simp add: inv_put core_simps)
  then show ?thesis using Some by (simp add: attached_exit_def Let_def s1_def [symmetric])
qed

lemma inv_proc_exit:
  assumes inv: "session_inv s"
  shows "session_inv (proc_exit v n code final s)"
proof (cases "find (\<lambda>p. pr_id p = n \<and> pr_alive p) (sv_procs s)")
  case None
  then show ?thesis using inv by (simp add: proc_exit_def)
next
  case (Some p)
  then have "pr_entry p < count s" "\<not> ls_remote (en_session (entry (pr_entry p) s))"
    using find_in [OF Some] inv_clauses(5) [OF inv, of p] by simp_all
  then show ?thesis by (simp add: proc_exit_def Some Let_def inv_own_exit [OF inv] inv_attached_exit [OF inv])
qed

lemma inv_agent:
  assumes inv: "session_inv s" and k: "k < count s" and idle: "\<not> run_live (entry k s)" "\<not> ls_remote (en_session (entry k s))"
    and p: "pr_id p = sv_next s" "pr_entry p = k" "pr_alive p" "\<not> pr_told p"
    and c: "core_of e = (core_of (entry k s))\<lparr>ce_run := Some (sv_next s), ce_own := w, ce_live := True\<rparr>"
  shows "session_inv (put_entry k e (s\<lparr>sv_next := Suc (sv_next s), sv_procs := sv_procs s @ [p]\<rparr>))"
proof -
  obtain cs ps rs n live refs where f: "frame s = (cs, ps, rs, n, live, refs)" "length cs = count s" "cs = map core_of (sv_entries s)"
    "ps = map proc_core (sv_procs s)" "rs = map remote_core (sv_remotes s)" "n = sv_next s" "live = sv_live s"
    "refs = map fst (sv_probes s) @ map fst (sv_pass s)"
    by (rule frame_parts [of s])
  have f9: "cs ! k = core_of (entry k s)" using f(3) k by simp
  let ?c = "(cs ! k)\<lparr>ce_run := Some n, ce_own := w, ce_live := True\<rparr>"
  have "frame (put_entry k e (s\<lparr>sv_next := Suc (sv_next s), sv_procs := sv_procs s @ [p]\<rparr>)) =
      (cs[k := ?c], ps @ [(n, k, pr_kind p = KAttach, True)], rs, Suc n, live, refs)"
    using f c f9 p by (simp add: frame_def put_entry_def map_put proc_core_def)
  moreover have "frame_ok (cs[k := ?c], ps @ [(n, k, pr_kind p = KAttach, True)], rs, Suc n, live, refs)"
    by (rule frame_ok_agent [OF inv [unfolded session_inv_def f(1)] _ _ _ refl]) (use k f(2) f9 idle in \<open>simp_all add: core_of_def\<close>)
  ultimately show ?thesis by (simp only: session_inv_def)
qed

lemma inv_retire_ghost [simp]: "session_inv (retire_ghost k r s) = session_inv s"
  by (rule inv_frame) simp

lemma inv_attach_settle:
  assumes inv: "session_inv s0" and k: "k < count s0"
  shows "session_inv (fst (attach_settle v k r alive s0))" "count (fst (attach_settle v k r alive s0)) = count s0"
proof -
  define s where "s = put_entry k ((entry k s0)\<lparr>en_probing := False\<rparr>) s0"
  have f: "frame s = frame s0" unfolding s_def by (simp add: frame_put)
  have s: "session_inv s" "k < count s" using inv k guards [OF f k] by (simp_all add: inv_frame [OF f])
  let ?e = "entry k s" and ?n = "sv_next s"
  have "session_inv (fst (attach_settle v k r alive s0)) \<and> count (fst (attach_settle v k r alive s0)) = count s0"
  proof (cases "\<not> alive \<or> ls_remote (en_session ?e) \<or> run_live ?e \<or> sv_closed s")
    case True
    have "count (retire_ghost k r s) = count s" by (rule frame_count) simp
    then show ?thesis using True s guards(4) [OF f k] by (auto simp: attach_settle_def s_def [symmetric])
  next
    case False
    define s2 where "s2 = put_entry k (add_events [EvNotice (''following the agent running in '' @ where_of (lr_owner r)) ''attach'']
       (on_session (\<lambda>l. l\<lparr>ls_events := filter (\<lambda>x. \<not> attach_notice x) (ls_events l)\<rparr>)
          ((stop_watch ?e)\<lparr>en_run := Some \<lparr>mr_id = ?n, mr_traj = lr_traj_path r, mr_control = lr_control_path r, mr_pid = lr_pid r, mr_attached = True\<rparr>,
             en_exited := False, en_traj := Some (lr_traj_path r), en_pending := [], en_rebuild := True, en_consumed := 0, en_seen := False\<rparr>)))
       (s\<lparr>sv_next := Suc ?n, sv_procs := sv_procs s @ [\<lparr>pr_id = ?n, pr_entry = k, pr_kind = KAttach,
                       pr_traj = lr_traj_path r, pr_alive = True, pr_told = False, pr_unread = []\<rparr>]\<rparr>)"
    have s2: "session_inv s2" "count s2 = count s0"
      unfolding s2_def
      by (rule inv_agent [OF s, where w = False])
         (use False guards(4) [OF f k] in \<open>simp_all add: core_simps core_of_def run_live_def attached_def stop_watch_def add_events_def on_session_def
            put_entry_def count_def\<close>)
    define s3 where "s3 = (case ev_journal v (lr_traj_path r) of Some t \<Rightarrow> ingest v k \<lparr>sn_traj = t, sn_same = False\<rparr> s2 | None \<Rightarrow> s2)"
    have f3: "frame s3 = frame s2" unfolding s3_def by (simp split: option.split)
    have s3: "session_inv s3" "count s3 = count s0" using s2 frame_count [OF f3] by (simp_all add: inv_frame [OF f3])
    define e4 where "e4 = (if (case ev_journal v (lr_traj_path r) of Some t \<Rightarrow> waitingAtExit (tj_messages t) | None \<Rightarrow> False) then
                        (if ls_status (en_session (entry k s3)) \<in> {SRunning, SIdle} then set_status SDone (entry k s3) else entry k s3)
                      else on_session (\<lambda>l. l\<lparr>ls_status := SRunning, ls_started_at := ev_now v\<rparr>) (entry k s3))"
    have e4: "core_of e4 = core_of (entry k s3)" unfolding e4_def by (simp add: core_simps)
    have "fst (attach_settle v k r alive s0) = emit v k (put_entry k (e4\<lparr>en_watch := Some (lr_traj_path r, True)\<rparr>) s3)"
      using False unfolding attach_settle_def Let_def s_def [symmetric] s2_def [symmetric] s3_def [symmetric] e4_def [symmetric] by simp
    then show ?thesis using s3 e4 by (simp add: inv_put)
  qed
  then show "session_inv (fst (attach_settle v k r alive s0))" "count (fst (attach_settle v k r alive s0)) = count s0" by simp_all
qed

section \<open>Prompts\<close>

definition inv_result :: "'a + server \<Rightarrow> bool" where
  "inv_result r \<longleftrightarrow> (case r of Inr s \<Rightarrow> session_inv s | Inl m \<Rightarrow> True)"

lemma inv_result [simp]: "inv_result (Inr s) = session_inv s" "inv_result (Inl m)"
  by (simp_all add: inv_result_def)

lemma inv_or_unchanged: "session_inv s \<Longrightarrow> inv_result r \<Longrightarrow> session_inv (or_unchanged s r)"
  by (simp add: or_unchanged_def inv_result_def split: sum.splits)

lemma inv_send_go:
  assumes inv: "session_inv s" and k: "k < count s"
  shows "inv_result (send_go v k text atts sfx expand s)"
proof -
  define e1 where "e1 = on_session (\<lambda>l. l\<lparr>ls_status := SRunning, ls_started_at := ev_now v\<rparr>)
     (add_events ([prompt_event text atts] @ unknown_skills (if expand then missing_skills (ev_skills v) text else []))
       ((entry k s)\<lparr>en_pending := en_pending (entry k s) @ [text]\<rparr>))"
  define s1 where "s1 = emit v k (put_entry k e1 s)"
  have e1: "core_of e1 = core_of (entry k s)" unfolding e1_def by (simp add: core_simps)
  have f: "frame s1 = frame s" unfolding s1_def using e1 by (simp add: frame_put)
  have s1: "session_inv s1" using inv by (simp add: inv_frame [OF f])
  note g = guards [OF f k]
  have rem: "session_inv (continue_remote v k t s1)" if "ls_remote (en_session (entry k s))" for t
    by (rule inv_continue_remote [OF s1]) (use g k that in simp_all)
  have loc: "session_inv (resume_local v k t s1)" if "\<not> ls_remote (en_session (entry k s))" "\<not> run_live (entry k s)" for t
    by (rule inv_resume_local [OF s1]) (use g k that in simp_all)
  have live: "session_inv (put_entry k ((entry k s1)\<lparr>en_watch := w\<rparr>) s1)" for w using s1 by (simp add: inv_put)
  show ?thesis
  proof (cases "run_live (entry k s)")
    case True
    then obtain r where "en_run (entry k s) = Some r" by (auto simp: run_live_def)
    then show ?thesis
      unfolding send_go_def Let_def e1_def [symmetric] s1_def [symmetric] using True live by simp
  next
    case False
    then show ?thesis
      unfolding send_go_def Let_def e1_def [symmetric] s1_def [symmetric] using rem loc by (simp split: option.split)
  qed
qed

lemma attach_ask_parts:
  assumes "attach_ask k s = (s1, a)" "session_inv s" "k < count s"
  shows "session_inv s1" "count s1 = count s" "k < count s1" "sv_live s1 = sv_live s"
proof -
  have f: "frame s1 = frame s" using frame_attach_ask [of k s] assms(1) by simp
  show "session_inv s1" "count s1 = count s" "k < count s1" "sv_live s1 = sv_live s"
    using assms(2,3) frame_count [OF f] frame_live [OF f] by (simp_all add: inv_frame [OF f])
qed

lemma inv_send_on: "session_inv s \<Longrightarrow> k < count s \<Longrightarrow> session_inv (fst (send_on v k text atts sfx expand s))"
  using inv_send_go [of s k v "text" atts sfx expand] by (auto simp: send_on_def inv_result_def split: sum.splits)

lemma inv_send:
  assumes inv: "session_inv s"
  shows "session_inv (fst (send v i p atts sfx expand s))"
proof (cases "held s i")
  case None
  then show ?thesis using inv by (simp add: send_def)
next
  case (Some k)
  have k: "k < count s" by (rule inv_held [OF inv Some])
  obtain s1 a where a: "attach_ask k s = (s1, a)" by (cases "attach_ask k s")
  note p = attach_ask_parts [OF a inv k]
  show ?thesis
    using Some a inv k p inv_probe [OF p(1,3)] by (simp add: send_def Let_def inv_send_on split: attach_answer.split bool.split)
qed

section \<open>Opening, creating, closing\<close>

lemma inv_hold:
  assumes inv: "session_inv s" and e: "en_remote e = None"
  shows "session_inv (fst (hold v e s))" "snd (hold v e s) = count s" "count (fst (hold v e s)) = Suc (count s)"
    "entry (count s) (fst (hold v e s)) = e"
proof -
  obtain cs ps rs n live refs where f: "frame s = (cs, ps, rs, n, live, refs)" "length cs = count s" "cs = map core_of (sv_entries s)"
    "ps = map proc_core (sv_procs s)" "rs = map remote_core (sv_remotes s)" "n = sv_next s" "live = sv_live s"
    "refs = map fst (sv_probes s) @ map fst (sv_pass s)"
    by (rule frame_parts [of s])
  have "frame (fst (hold v e s)) = (cs @ [core_of e], ps, rs, n, upsert fst (ce_id (core_of e), length cs) live, refs)"
    using f by (simp add: hold_def Let_def frame_def core_of_def)
  moreover have "frame_ok (cs @ [core_of e], ps, rs, n, upsert fst (ce_id (core_of e), length cs) live, refs)"
    by (rule frame_ok_held [OF inv [unfolded session_inv_def f(1)]]) (use e in \<open>simp add: core_of_def\<close>)
  ultimately show "session_inv (fst (hold v e s))" by (simp only: session_inv_def)
  show "snd (hold v e s) = count s" "count (fst (hold v e s)) = Suc (count s)" "entry (count s) (fst (hold v e s)) = e"
    by (simp_all add: hold_def Let_def count_def entry_def)
qed

lemma inv_let_go: "session_inv s \<Longrightarrow> session_inv (let_go i s)"
  using frame_ok_let_go [of "map core_of (sv_entries s)" "map proc_core (sv_procs s)" "map remote_core (sv_remotes s)" "sv_next s" "sv_live s"
    "map fst (sv_probes s) @ map fst (sv_pass s)" i]
  by (simp add: session_inv_def frame_def let_go_def)

lemma entry_kill [simp]: "entry k (kill r s) = entry k s" "count (kill r s) = count s"
  "entry k (interrupt_run r s) = entry k s" "count (interrupt_run r s) = count s"
  by (simp_all add: kill_def interrupt_run_def)

lemma inv_stop_all:
  assumes "session_inv s" "k < count s"
  shows "session_inv (stop_all k s)"
  unfolding stop_all_def Let_def
  by (rule inv_stop_remote) (use assms in \<open>simp_all add: inv_put split: option.split\<close>)

lemma inv_close: "session_inv s \<Longrightarrow> session_inv (close v i s)"
  by (auto simp: close_def Let_def inv_put intro!: inv_let_go inv_stop_all inv_held split: option.split)

lemma inv_delete: "session_inv s \<Longrightarrow> session_inv (fst (delete_history i s))"
  by (auto simp: delete_history_def Let_def intro!: inv_let_go inv_stop_all inv_held split: option.split prod.split)

lemma inv_interrupt:
  assumes inv: "session_inv s"
  shows "inv_result (interrupt v i s)"
proof (cases "held s i")
  case None
  then show ?thesis by (simp add: interrupt_def)
next
  case (Some k)
  have k: "k < count s" by (rule inv_held [OF inv Some])
  let ?s = "put_entry k (on_session (\<lambda>l. l\<lparr>ls_status := SInterrupted, ls_exit_status := ''Interrupted''\<rparr>) (entry k s)) s"
  have s: "session_inv ?s" using inv by (simp add: inv_put core_simps)
  then have "session_inv (stop_remote k ?s)" by (rule inv_stop_remote) (use k in simp)
  then show ?thesis using s Some by (simp add: interrupt_def Let_def split: option.split)
qed

lemma core_new: "en_remote (new_entry l) = None" "\<not> run_live (new_entry l)" "en_session (new_entry l) = l"
  by (simp_all add: new_entry_def run_live_def)

lemma inv_ask_title [simp]: "session_inv (ask_title i title p s) = session_inv s" "frame (ask_title i title p s) = frame s"
  by (simp_all add: ask_title_def)

lemma hold_spawned:
  "hold v e (s\<lparr>sv_next := n, sv_procs := ps, sv_out := os\<rparr>) =
     ((fst (hold v e s))\<lparr>sv_next := n, sv_procs := ps, sv_out := os\<rparr>, snd (hold v e s))"
  by (simp add: hold_def Let_def)

text \<open>An entry that is made for an agent that runs: the same as holding it idle and starting its agent.\<close>

lemma inv_hold_running:
  assumes inv: "session_inv s" and sp': "spawn v (count s) kind task m cwd sp re sh s = (s1, r)"
    and e: "core_of e = (core_of e0)\<lparr>ce_run := Some (mr_id r), ce_own := True, ce_live := True\<rparr>"
      "en_remote e0 = None" "\<not> run_live e0" "\<not> ls_remote (en_session e0)" "ls_id (en_session e0) = ls_id (en_session e)"
  shows "session_inv (fst (hold v' e s1))"
proof -
  let ?h = "fst (hold v' e0 s)"
  note h = inv_hold [OF inv e(2), of v']
  obtain t c pid where paths: "ev_paths v (sv_next s) = (t, c, pid)" by (cases "ev_paths v (sv_next s)")
  let ?p = "\<lparr>pr_id = sv_next s, pr_entry = count s, pr_kind = kind, pr_traj = t, pr_alive = True, pr_told = False, pr_unread = []\<rparr>"
  have live: "sv_next ?h = sv_next s" "sv_procs ?h = sv_procs s" by (simp_all add: hold_def Let_def)
  have r: "mr_id r = sv_next s" using sp' paths by (auto simp: spawn_def Let_def)
  have "session_inv (put_entry (count s) e (?h\<lparr>sv_next := Suc (sv_next ?h), sv_procs := sv_procs ?h @ [?p]\<rparr>))"
    by (rule inv_agent [OF h(1), where w = True]) (use h e live r in simp_all)
  moreover have "s1 = say [OSpawn (sv_next s) task m cwd sp re sh] (s\<lparr>sv_next := Suc (sv_next s), sv_procs := sv_procs s @ [?p]\<rparr>)"
    using sp' paths by (auto simp: spawn_def Let_def)
  then have "frame (fst (hold v' e s1)) = frame (put_entry (count s) e (?h\<lparr>sv_next := Suc (sv_next ?h), sv_procs := sv_procs ?h @ [?p]\<rparr>))"
    using e(5) by (simp add: hold_def Let_def frame_def put_entry_def say_def count_def)
  ultimately show ?thesis by (simp only: session_inv_def)
qed

lemma inv_create_local:
  assumes inv: "session_inv s"
  shows "session_inv (fst (create_local v i title cwd model opts s))"
proof -
  let ?eff = "if model \<noteq> [] then model else ev_default_model v"
  let ?task = "agent_task (ev_skills v) (co_atts opts) (co_prompt opts) @ co_suffix opts"
  let ?specs = "case co_profile opts of Some p \<Rightarrow> pf_specs p | None \<Rightarrow> []"
  obtain s1 r where sp: "spawn v (length (sv_entries s)) KCreate ?task ?eff cwd ?specs False False s = (s1, r)"
    by (cases "spawn v (length (sv_entries s)) KCreate ?task ?eff cwd ?specs False False s")
  let ?l = "new_session v i title cwd ?eff (co_prompt opts) False [] (map_option pf_role (co_profile opts))"
  let ?e = "(new_entry ?l)\<lparr>en_run := Some r, en_traj := Some (mr_traj r), en_profile := co_profile opts, en_watch := Some (mr_traj r, True)\<rparr>"
  let ?e1 = "if co_atts opts = [] then ?e else add_events [prompt_event (co_prompt opts) (co_atts opts)] (?e\<lparr>en_pending := [co_prompt opts]\<rparr>)"
  have r: "\<not> mr_attached r" using sp by (auto simp: spawn_def Let_def split: prod.splits)
  have "core_of ?e1 = core_of ?e" by simp
  also have "\<dots> = (core_of (new_entry ?l))\<lparr>ce_run := Some (mr_id r), ce_own := True, ce_live := True\<rparr>"
    using r by (simp add: core_of_def run_live_def attached_def new_entry_def)
  finally have c: "core_of ?e1 = (core_of (new_entry ?l))\<lparr>ce_run := Some (mr_id r), ce_own := True, ce_live := True\<rparr>" .
  have "session_inv (fst (hold v ?e1 s1))"
    by (rule inv_hold_running [OF inv _ c]) (use sp in \<open>simp_all add: count_def core_new new_session_def add_events_def on_session_def\<close>)
  then show ?thesis
    by (cases "hold v ?e1 s1") (simp add: create_local_def Let_def sp)
qed

lemma inv_create_remote:
  assumes inv: "session_inv s"
  shows "session_inv (fst (create_remote v i title cwd model h opts s))"
proof -
  let ?w = "if cwd \<noteq> [] then cwd else hs_workdir h"
  let ?e = "add_events [prompt_event (co_prompt opts) (co_atts opts)]
     ((new_entry (new_session v i title ?w model (co_prompt opts) True (hs_id h) None))\<lparr>en_pending := (if co_atts opts = [] then [] else [co_prompt opts])\<rparr>)"
  have e: "en_remote ?e = None" "ls_remote (en_session ?e)"
    by (simp_all add: add_events_def on_session_def new_entry_def new_session_def)
  obtain s1 k where h: "hold v ?e s = (s1, k)" by (cases "hold v ?e s")
  note h' = inv_hold [OF inv e(1), of v, unfolded h, simplified]
  let ?s2 = "emit v k (ask_title i title (co_prompt opts) (s1\<lparr>sv_db := create_session (ev_now v) i ?w model (co_prompt opts) (Some title) (sv_db s1)\<rparr>))"
  have f: "frame ?s2 = frame s1" by simp
  have k: "k < count s1" using h' by simp
  have "session_inv (start_remote v k True p w m ?s2)" for p w m
    by (rule inv_start_remote) (use guards [OF f k] h' k e in \<open>simp_all add: inv_frame [OF f]\<close>)
  then show ?thesis by (simp add: create_remote_def Let_def h)
qed

lemma inv_create:
  assumes "session_inv s"
  shows "session_inv (fst (create_live v i routed opts s))"
  using assms by (simp add: create_live_def Let_def inv_create_local inv_create_remote split: option.split)

lemma inv_open_row:
  assumes "session_inv s"
  shows "session_inv (fst (open_row v row s))" "snd (open_row v row s) < count (fst (open_row v row s))"
proof -
  let ?l = "from_journal v s (restoreFromRow v row)"
  let ?e = "(new_entry ?l)\<lparr>en_consumed := length (ls_messages ?l), en_seen := createParseState (ls_messages ?l) 0, en_synced := Some (sr_updated_at row)\<rparr>"
  have e: "en_remote ?e = None" by (simp add: new_entry_def)
  obtain s1 k where h: "hold v ?e s = (s1, k)" by (cases "hold v ?e s")
  note h' = inv_hold [OF assms e, of v, unfolded h, simplified]
  show "session_inv (fst (open_row v row s))" "snd (open_row v row s) < count (fst (open_row v row s))"
    using h' by (simp_all add: open_row_def Let_def h inv_put)
qed

lemma inv_ask_open:
  assumes "session_inv s" "k < count s"
  shows "session_inv (ask_open k s)"
proof -
  obtain s1 a where a: "attach_ask k s = (s1, a)" by (cases "attach_ask k s")
  note p = attach_ask_parts [OF a assms]
  show ?thesis using a p inv_probe [OF p(1,3)] by (simp add: ask_open_def split: attach_answer.split)
qed

lemma inv_open_history:
  assumes inv: "session_inv s"
  shows "inv_result (open_history v i s)"
proof (cases "held s i")
  case None
  have "session_inv (ask_open k s1)" if "open_row v row s = (s1, k)" for row s1 k
    using inv_ask_open inv_open_row [OF inv, of v row] that by simp
  then show ?thesis using None by (simp add: open_history_def split: option.split prod.split)
next
  case (Some k)
  have k: "k < count s" by (rule inv_held [OF inv Some])
  obtain s1 a where a: "attach_ask k s = (s1, a)" by (cases "attach_ask k s")
  note p = attach_ask_parts [OF a inv k]
  show ?thesis
    using Some a p inv inv_probe [OF p(1,3)] by (simp add: open_history_def Let_def split: attach_answer.split bool.split)
qed

section \<open>Models, compaction, the background pass\<close>

lemma frame_tell_model [simp]: "frame (tell_model e m s) = frame s"
  by (simp add: tell_model_def split: option.split)

lemma inv_set_model: "session_inv s \<Longrightarrow> inv_result (set_session_model v i m s)"
proof (cases "held s i")
  case (Some k)
  assume inv: "session_inv s"
  have "session_inv (tell_model e x (say os (put_entry k (on_session (\<lambda>l. l\<lparr>ls_model := x\<rparr>) (entry k s)) s)))" for e x os
    using inv by (simp add: inv_frame [OF frame_tell_model] inv_put core_simps)
  then show ?thesis using Some by (simp add: set_session_model_def Let_def inv_put)
qed (simp add: set_session_model_def)

lemma inv_rename: "session_inv s \<Longrightarrow> inv_result (rename v i t s)"
  by (simp add: rename_def Let_def inv_put core_simps split: option.split)

lemma inv_compact:
  assumes inv: "session_inv s"
  shows "inv_result (compact_session v i s)"
proof (cases "held s i")
  case None
  then show ?thesis by (simp add: compact_session_def)
next
  case (Some k)
  have k: "k < count s" by (rule inv_held [OF inv Some])
  show ?thesis
  proof (cases "run_live (entry k s)")
    case True
    then obtain r where "en_run (entry k s) = Some r" by (auto simp: run_live_def)
    moreover have "frame (put_entry k (add_events es (entry k s)) (control r CCompact s)) = frame s" for es
      unfolding frame_put_cong [OF frame_control] by (rule frame_put) simp
    then have "session_inv (put_entry k (add_events es (entry k s)) (control r CCompact s))" for es
      using inv by (simp only: session_inv_def)
    ultimately show ?thesis using True Some by (simp add: compact_session_def Let_def)
  next
    case False
    let ?e = "on_session (\<lambda>l. l\<lparr>ls_status := SRunning, ls_started_at := ev_now v\<rparr>) (add_events es (entry k s))"
    have "session_inv (compact_only v k (put_entry k e s))" if "core_of e = core_of (entry k s)" "\<not> ls_remote (en_session (entry k s))" for e
      by (rule inv_compact_only) (use that inv k False core_eqD [OF that(1)] in \<open>simp_all add: inv_put\<close>)
    then show ?thesis using False Some by (simp add: compact_session_def Let_def core_simps)
  qed
qed

lemma inv_sync_ask:
  assumes "session_inv s" "k < count s"
  shows "session_inv (sync_ask k s)" "count (sync_ask k s) = count s"
proof -
  obtain s1 a where a: "attach_ask k s = (s1, a)" by (cases "attach_ask k s")
  note p = attach_ask_parts [OF a assms]
  have "session_inv (s1\<lparr>sv_pass := sv_pass s1 @ [(k, x)], sv_probes := sv_probes s1 @ [(k, r, PSync)]\<rparr>)" for x r
    using inv_probe [OF inv_pass [OF p(1,3)], of k x r PSync] p(3) by simp
  then show "session_inv (sync_ask k s)" using a inv_pass [OF p(1,3)] by (simp add: sync_ask_def Let_def split: attach_answer.split)
  show "count (sync_ask k s) = count s" using a p(2) by (simp add: sync_ask_def Let_def count_def split: attach_answer.split)
qed

lemma inv_sync_asks: "session_inv s \<Longrightarrow> \<forall>k \<in> set ks. k < count s \<Longrightarrow> session_inv (fold sync_ask ks s)"
  by (induction ks arbitrary: s) (simp_all add: inv_sync_ask)

lemma inv_sync_begin:
  assumes "session_inv s"
  shows "session_inv (sync_begin v roster s)"
proof -
  let ?s1 = "persist_dirty v (fold (sync_children v roster) (map snd (sv_live s)) s)"
  have f: "frame ?s1 = frame s" by (simp add: frame_fold)
  have "\<forall>k \<in> set (map snd (sv_live s)). k < count ?s1" using inv_clauses(4) [OF assms] frame_count [OF f] by auto
  moreover have "session_inv ?s1" using assms by (simp only: inv_frame [OF f])
  ultimately have "session_inv (fold sync_ask (filter P (map snd (sv_live s))) ?s1)" for P
    by (intro inv_sync_asks) auto
  then show ?thesis using assms by (simp add: sync_begin_def Let_def)
qed

lemma inv_sync_reload: "session_inv s \<Longrightarrow> session_inv (sync_reload v s)"
  by (simp add: sync_reload_def inv_pass_rest Let_def split: list.split prod.split option.split)

lemma inv_probe_done:
  assumes inv: "session_inv s"
  shows "session_inv (probe_done v j alive s)"
proof (cases "j < length (sv_probes s)")
  case False
  then show ?thesis using inv by (simp add: probe_done_def)
next
  case True
  obtain k r why where x: "sv_probes s ! j = (k, r, why)" by (cases "sv_probes s ! j")
  have k: "k < count s" using inv_clauses(7) [OF inv, of "(k, r, why)"] True x nth_mem by fastforce
  let ?s0 = "s\<lparr>sv_probes := take j (sv_probes s) @ drop (Suc j) (sv_probes s)\<rparr>"
  obtain s1 got where a: "attach_settle v k r alive ?s0 = (s1, got)" by (cases "attach_settle v k r alive ?s0")
  have "session_inv ?s0" using inv by (rule inv_probe_taken)
  from inv_attach_settle [OF this, of k v r alive] a k have s1: "session_inv s1" "k < count s1" by simp_all
  have "map fst (map (\<lambda>(k', stamp, b). if k' = k \<and> b = None then (k', stamp, Some got) else (k', stamp, b)) ps) = map fst ps" for ps :: "(nat \<times> int option \<times> bool option) list"
    by (auto simp: prod.case_eq_if)
  then have pass: "session_inv (s1\<lparr>sv_pass := map (\<lambda>(k', stamp, b). if k' = k \<and> b = None then (k', stamp, Some got) else (k', stamp, b)) (sv_pass s1)\<rparr>)"
    by (rule inv_pass_answered [OF s1(1)])
  have go: "session_inv (fst (send_on v k t as sf ex s1))" "session_inv (fst (send_on v k t as sf ex (refresh_if_stale v k s1)))" for t as sf ex
    using s1 by (simp_all add: inv_send_on)
  show ?thesis
    unfolding probe_done_def x using True a pass go s1 by (cases why) simp_all
qed

section \<open>Every run\<close>

lemma inv_journal: "session_inv s \<Longrightarrow> session_inv (journal v k n s)"
  by (subst inv_frame [of _ s]) simp_all

lemma inv_step:
  assumes "session_inv s"
  shows "session_inv (serve_step v h s)"
proof (cases h)
  case (Create i routed opts)
  then show ?thesis using assms by (simp add: inv_create)
next
  case (MessageAgent i t)
  then show ?thesis using assms by (simp add: message_agent_def split: option.split bool.split)
next
  case (RemoteData n c)
  then show ?thesis using assms inv_frame [OF frame_remote_data(1)] by simp
next
  case (RemoteStderr n c)
  then show ?thesis using assms inv_frame [OF frame_remote_data(2)] by simp
next
  case (InjectChannel i e)
  then show ?thesis using assms inv_frame [OF frame_inject_channel] by simp
next
  case (TitleReady i f t)
  then show ?thesis using assms inv_frame [OF frame_title_ready] by simp
next
  case (AgentReads n)
  then show ?thesis using assms inv_frame [OF frame_on_proc_unread] by simp
next
  case Dispose
  then show ?thesis using assms inv_frame [OF frame_fields(3)] by simp
qed (use assms in \<open>simp_all add: inv_or_unchanged inv_send inv_interrupt inv_close inv_delete inv_open_history inv_rename inv_set_model
   inv_compact inv_journal inv_proc_exit inv_remote_exit inv_probe_done inv_sync_begin inv_sync_reload\<close>)

lemma inv_run: "session_inv s \<Longrightarrow> session_inv (serve hs s)"
  by (induction hs s rule: serve.induct) (simp_all add: inv_step)

lemma inv_empty: "session_inv (empty_server d)"
  by (simp add: session_inv_def frame_def empty_server_def frame_ok.simps)

text \<open>The processes at work: alive, of this server, and not told to stop.\<close>

definition agents_at_work :: "server \<Rightarrow> proc list" where
  "agents_at_work s = filter (\<lambda>p. pr_kind p \<noteq> KAttach \<and> pr_alive p \<and> \<not> pr_told p) (sv_procs s)"

definition turns_at_work :: "server \<Rightarrow> remote_proc list" where
  "turns_at_work s = filter (\<lambda>p. rp_alive p \<and> \<not> rp_told p) (sv_remotes s)"

lemma distinct_of_key:
  assumes "distinct (map key xs)" "\<And>x y. x \<in> set xs \<Longrightarrow> y \<in> set xs \<Longrightarrow> f x = f y \<Longrightarrow> key x = key y"
  shows "distinct (map f xs)"
proof -
  have d: "distinct xs" and i: "inj_on key (set xs)" using assms(1) by (simp_all add: distinct_map)
  have "inj_on f (set xs)" by (rule inj_onI) (rule inj_onD [OF i assms(2)])
  with d show ?thesis by (simp add: distinct_map)
qed

lemma inv_one_worker:
  assumes inv: "session_inv s"
  shows "distinct (map pr_entry (agents_at_work s) @ map rp_entry (turns_at_work s))"
proof -
  have ids: "distinct (map pr_id (agents_at_work s))" "distinct (map rp_id (turns_at_work s))"
    using inv_clauses(2,3) [OF inv] by (simp_all add: agents_at_work_def turns_at_work_def distinct_map_filter)
  have agent: "map_option mr_id (en_run (entry (pr_entry p) s)) = Some (pr_id p)" "\<not> ls_remote (en_session (entry (pr_entry p) s))"
    if "p \<in> set (agents_at_work s)" for p
    using that inv_clauses(5) [OF inv, of p] by (simp_all add: agents_at_work_def)
  have turn: "en_remote (entry (rp_entry q) s) = Some (rp_id q)" "ls_remote (en_session (entry (rp_entry q) s))"
    if "q \<in> set (turns_at_work s)" for q
    using that inv_clauses(6) [OF inv, of q] by (simp_all add: turns_at_work_def)
  have "distinct (map pr_entry (agents_at_work s))"
    by (rule distinct_of_key [OF ids(1)]) (use agent(1) in \<open>metis option.inject\<close>)
  moreover have "distinct (map rp_entry (turns_at_work s))"
    by (rule distinct_of_key [OF ids(2)]) (use turn(1) in \<open>metis option.inject\<close>)
  moreover have "pr_entry p \<noteq> rp_entry q" if "p \<in> set (agents_at_work s)" "q \<in> set (turns_at_work s)" for p q
    using agent(2) [OF that(1)] turn(2) [OF that(2)] by auto
  ultimately show ?thesis by auto
qed

text \<open>The session that a process works for, and the objects that the server made for a session.\<close>

definition workers :: "server \<Rightarrow> nat list" where
  "workers s = map pr_entry (agents_at_work s) @ map rp_entry (turns_at_work s)"

definition session_of :: "server \<Rightarrow> nat \<Rightarrow> string" where
  "session_of s k = ls_id (en_session (entry k s))"

definition objects_of :: "server \<Rightarrow> string \<Rightarrow> nat list" where
  "objects_of s i = filter (\<lambda>k. session_of s k = i) [0..<count s]"

lemma workers_in_range: "session_inv s \<Longrightarrow> k \<in> set (workers s) \<Longrightarrow> k < count s"
  using inv_clauses(5,6) [of s] by (auto simp: workers_def agents_at_work_def turns_at_work_def)

lemma inv_workers_of:
  assumes "session_inv s"
  shows "length (filter (\<lambda>k. session_of s k = i) (workers s)) \<le> length (objects_of s i)"
proof -
  have d: "distinct (workers s)" using inv_one_worker [OF assms] by (simp add: workers_def)
  have "set (filter (\<lambda>k. session_of s k = i) (workers s)) \<subseteq> set (objects_of s i)"
    using workers_in_range [OF assms] by (auto simp: objects_of_def)
  from card_mono [OF _ this] show ?thesis
    using d by (simp add: distinct_card objects_of_def del: set_filter)
qed


end
