(* ===== verification/SessionMarks.thy ===== *)
theory SessionMarks
  imports SessionSafe
begin

text \<open>
  The list of open sessions in the database, which a restarted server reads: the sessions that are held are marked, and
  only they and the ones that an earlier server left.
\<close>

section \<open>What leaves the marks alone\<close>

definition marks :: "server \<Rightarrow> (string \<times> nat) list \<times> (string \<times> int) list" where
  "marks s = (sv_live s, sd_open (sv_db s))"

lemma open_of_updates [simp]:
  "sd_open (update_session now i p d) = sd_open d" "sd_open (save_transcript now i e f m a c x d) = sd_open d"
  "sd_open (write_resume_file i d) = sd_open d" "sd_open (clear_live_run i t d) = sd_open d"
  "sd_open (register_live_run r d) = sd_open d" "sd_open (remember_agent_run now i t d) = sd_open d"
  "sd_open (create_session now i cwd m t ti d) = sd_open d" "sd_open (fst (delete_session i d)) = sd_open d"
  by (simp_all add: update_session_def save_transcript_def write_resume_file_def clear_live_run_def register_live_run_def
      remember_agent_run_def create_session_def delete_session_def)

lemma marks_fields [simp]:
  "marks (put_entry k e s) = marks s" "marks (say os s) = marks s" "marks (on_proc n f s) = marks s" "marks (on_remote n g s) = marks s"
  "marks (s\<lparr>sv_probes := qs\<rparr>) = marks s" "marks (s\<lparr>sv_pass := ps\<rparr>) = marks s" "marks (s\<lparr>sv_closed := b\<rparr>) = marks s"
  "marks (s\<lparr>sv_next := n, sv_procs := pr\<rparr>) = marks s" "marks (s\<lparr>sv_next := n, sv_remotes := rr\<rparr>) = marks s" "marks (s\<lparr>sv_remotes := rr\<rparr>) = marks s"
  "marks (s\<lparr>sv_next := n\<rparr>) = marks s"
  "sd_open d = sd_open (sv_db s) \<Longrightarrow> marks (s\<lparr>sv_db := d\<rparr>) = marks s"
  by (simp_all add: marks_def put_entry_def say_def on_proc_def on_remote_def)

lemma marks_emit [simp]: "marks (emit v k s) = marks s"
  by (simp add: emit_def)

lemma marks_persist [simp]: "marks (persist v k s) = marks s" "marks (persist_dirty_entry v k s) = marks s"
proof -
  show "marks (persist v k s) = marks s" for s by (simp add: persist_def Let_def)
  then show "marks (persist_dirty_entry v k s) = marks s" by (simp add: persist_dirty_entry_def Let_def)
qed

lemma marks_fold: "(\<And>x s. marks (f x s) = marks s) \<Longrightarrow> marks (fold f xs s) = marks s"
  by (induction xs arbitrary: s) auto

lemma marks_persist_all [simp]: "marks (persist_all v s) = marks s" "marks (persist_dirty v s) = marks s"
  by (simp_all add: persist_all_def persist_dirty_def marks_fold)

lemma marks_ingest [simp]: "marks (ingest v k n s) = marks s" "marks (last_snapshot v k final s) = marks s"
  by (simp_all add: ingest_def last_snapshot_def split: prod.split option.split)

lemma marks_run_ends [simp]: "marks (finish_run v k st s) = marks s" "marks (fail_with v k m s) = marks s"
  "marks (announce v k r s) = marks s" "marks (control r c s) = marks s" "marks (kill r s) = marks s" "marks (interrupt_run r s) = marks s"
  by (simp_all add: finish_run_def fail_with_def announce_def control_def kill_def interrupt_run_def Let_def)

lemma marks_spawn [simp]: "spawn v k kind t m c sp a b s = (s1, r) \<Longrightarrow> marks s1 = marks s"
  by (auto simp: spawn_def Let_def split: prod.splits)

lemma marks_resume [simp]: "marks (resume_local v k t s) = marks s" "marks (compact_only v k s) = marks s"
  by (auto simp: resume_local_def compact_only_def Let_def split: prod.split)

lemma marks_resume_unread: "resume_unread v k r s = Some s' \<Longrightarrow> marks s' = marks s"
  by (auto simp: resume_unread_def Let_def split: if_splits)

lemma marks_own_exit [simp]: "marks (own_exit v n kind k traj code final s) = marks s"
  by (auto simp: own_exit_def Let_def dest: marks_resume_unread split: option.split)

lemma marks_exits [simp]: "marks (attached_exit v n k final s) = marks s" "marks (proc_exit v n code final s) = marks s"
  by (simp_all add: attached_exit_def proc_exit_def Let_def split: option.split)

lemma marks_journal [simp]: "marks (journal v k n s) = marks s"
  by (simp add: journal_def Let_def split: option.split bool.split)

lemma marks_start_remote [simp]: "marks (start_remote v k first p w m s) = marks s"
  by (simp add: start_remote_def Let_def)

lemma marks_continue [simp]: "marks (continue_remote v k p s) = marks s" "marks (drain_remote_queue v k b s) = marks s"
proof -
  show "marks (continue_remote v k p s) = marks s" for p s by (simp add: continue_remote_def Let_def split: option.split)
  then show "marks (drain_remote_queue v k b s) = marks s" by (simp add: drain_remote_queue_def split: list.split)
qed

lemma marks_remote [simp]: "marks (remote_payload v n p s) = marks s" "marks (stop_remote k s) = marks s"
  by (simp_all add: remote_payload_def stop_remote_def Let_def split: option.split)

lemma marks_lines [simp]: "marks (remote_lines v n ls s) = marks s"
  by (induction v n ls s rule: remote_lines.induct) (simp add: Let_def split: option.split js.split)+

lemma marks_data [simp]: "marks (remote_data v n chunk s) = marks s" "marks (remote_stderr v n chunk s) = marks s"
  by (simp_all add: remote_data_def remote_stderr_def Let_def split: option.split)

lemma marks_settle [simp]: "marks (settle_first v k code e s) = marks s" "marks (settle_later v n b k code e s) = marks s"
  by (simp_all add: settle_first_def settle_later_def Let_def)

lemma marks_remote_exit [simp]: "marks (remote_exit v n code s) = marks s"
  by (simp add: remote_exit_def Let_def split: option.split)

lemma marks_attach [simp]: "marks (fst (attach_ask k s)) = marks s" "marks (retire_ghost k r s) = marks s"
  "marks (fst (attach_settle v k r alive s)) = marks s"
proof -
  show "marks (fst (attach_ask k s)) = marks s" by (simp add: attach_ask_def Let_def split: option.split)
  show g: "marks (retire_ghost k r s) = marks s" for k r s by (simp add: retire_ghost_def Let_def)
  show "marks (fst (attach_settle v k r alive s)) = marks s" by (simp add: attach_settle_def Let_def g split: option.split)
qed

lemma marks_ask: "attach_ask k s = (s1, a) \<Longrightarrow> marks s1 = marks s"
  using marks_attach(1) [of k s] by simp

lemma marks_settled: "attach_settle v k r alive s = (s1, got) \<Longrightarrow> marks s1 = marks s"
  using marks_attach(3) [of v k r alive s] by simp

lemma marks_reload [simp]: "marks (reload_from_db v k s) = marks s" "marks (refresh_if_stale v k s) = marks s"
proof -
  show "marks (reload_from_db v k s) = marks s" by (simp add: reload_from_db_def Let_def split: option.split)
  then show "marks (refresh_if_stale v k s) = marks s" by (simp add: refresh_if_stale_def Let_def split: option.split)
qed

lemma marks_send_go: "send_go v k text atts sfx expand s = Inr s' \<Longrightarrow> marks s' = marks s"
  by (auto simp: send_go_def Let_def split: if_splits option.splits bool.splits)

lemma marks_send_on [simp]: "marks (fst (send_on v k text atts sfx expand s)) = marks s"
  by (auto simp: send_on_def dest: marks_send_go split: sum.split)

lemma marks_send [simp]: "marks (fst (send v i p atts sfx expand s)) = marks s"
  by (auto simp: send_def Let_def marks_ask split: option.split prod.split attach_answer.split bool.split)

lemma marks_children [simp]: "marks (sync_children v roster k s) = marks s" "marks (sync_ask k s) = marks s"
  by (auto simp: sync_children_def sync_ask_def Let_def marks_ask split: option.split prod.split attach_answer.split)

lemma marks_sync [simp]: "marks (sync_begin v roster s) = marks s" "marks (sync_reload v s) = marks s" "marks (probe_done v j alive s) = marks s"
  by (auto simp: sync_begin_def sync_reload_def probe_done_def Let_def marks_fold dest!: marks_settled split: list.split prod.split option.split purpose.split)

lemma marks_small [simp]:
  "marks (fst (message_agent i t s)) = marks s" "marks (fst (inject_channel v i e s)) = marks s" "marks (title_ready v i f t s) = marks s"
  by (simp_all add: message_agent_def inject_channel_def title_ready_def Let_def split: option.split bool.split)

lemma marks_or_unchanged: "(case r of Inr s' \<Rightarrow> marks s' = marks s | Inl m \<Rightarrow> True) \<Longrightarrow> marks (or_unchanged s r) = marks s"
  by (simp add: or_unchanged_def split: sum.splits)

lemma marks_asked [simp]: "marks (or_unchanged s (interrupt v i s)) = marks s" "marks (or_unchanged s (rename v i t s)) = marks s"
  by (rule marks_or_unchanged, simp add: interrupt_def rename_def Let_def split: option.split)+

lemma marks_compact [simp]: "marks (or_unchanged s (compact_session v i s)) = marks s"
proof (rule marks_or_unchanged, cases "held s i")
  case (Some k)
  then show "case compact_session v i s of Inr s' \<Rightarrow> marks s' = marks s | Inl m \<Rightarrow> True"
    by (cases "run_live (entry k s)") (simp_all add: compact_session_def Let_def split: option.split)
qed (simp add: compact_session_def)

lemma marks_tell_model [simp]: "marks (tell_model e m s) = marks s"
  by (simp add: tell_model_def split: option.split)

lemma marks_set_model [simp]: "marks (or_unchanged s (set_session_model v i m s)) = marks s"
  by (simp add: set_session_model_def or_unchanged_def Let_def split: option.split)

section \<open>What moves both\<close>

definition held_ids :: "server \<Rightarrow> string set" where
  "held_ids s = fst ` set (sv_live s)"

definition marked_ids :: "session_db \<Rightarrow> string set" where
  "marked_ids d = fst ` set (sd_open d)"

definition marks_ok :: "session_db \<Rightarrow> (string \<times> nat) list \<times> (string \<times> int) list \<Rightarrow> bool" where
  "marks_ok d m \<longleftrightarrow> fst ` set (fst m) \<subseteq> fst ` set (snd m) \<and> fst ` set (snd m) \<subseteq> fst ` set (fst m) \<union> marked_ids d"

lemma marked_hold [simp]: "marks_ok d (marks s) \<Longrightarrow> marks_ok d (marks (fst (hold v e s)))"
  by (auto simp: hold_def Let_def marks_ok_def marks_def mark_open_def)

lemma marked_held: "hold v e s = (s', k) \<Longrightarrow> marks_ok d (marks s) \<Longrightarrow> marks_ok d (marks s')"
  using marked_hold [of d s v e] by simp

lemma marked_let_go: "marks_ok d (marks s) \<Longrightarrow> marks_ok d (marks (let_go i s))"
proof -
  have k: "fst ` set (delete_key fst i xs) = fst ` set xs - {i}" for xs :: "(string \<times> 'b) list"
    by (auto simp: delete_key_def image_iff)
  assume "marks_ok d (marks s)"
  then show ?thesis by (auto simp: let_go_def marks_ok_def marks_def unmark_open_def k)
qed

lemma marks_ask_title [simp]: "marks (ask_title i t p s) = marks s"
  by (simp add: ask_title_def)

lemma marked_create_local: "marks_ok d (marks s) \<Longrightarrow> marks_ok d (marks (fst (create_local v i title cwd model opts s)))"
proof -
  assume m: "marks_ok d (marks s)"
  let ?eff = "if model \<noteq> [] then model else ev_default_model v"
  let ?task = "agent_task (ev_skills v) (co_atts opts) (co_prompt opts) @ co_suffix opts"
  let ?specs = "case co_profile opts of Some p \<Rightarrow> pf_specs p | None \<Rightarrow> []"
  obtain s1 r where sp: "spawn v (length (sv_entries s)) KCreate ?task ?eff cwd ?specs False False s = (s1, r)"
    by (cases "spawn v (length (sv_entries s)) KCreate ?task ?eff cwd ?specs False False s")
  let ?e = "(new_entry (new_session v i title cwd ?eff (co_prompt opts) False [] (map_option pf_role (co_profile opts))))
    \<lparr>en_run := Some r, en_traj := Some (mr_traj r), en_profile := co_profile opts, en_watch := Some (mr_traj r, True)\<rparr>"
  let ?e1 = "if co_atts opts = [] then ?e else add_events [prompt_event (co_prompt opts) (co_atts opts)] (?e\<lparr>en_pending := [co_prompt opts]\<rparr>)"
  obtain s2 k where h: "hold v ?e1 s1 = (s2, k)" by (cases "hold v ?e1 s1")
  have "marks_ok d (marks s2)" by (rule marked_held [OF h]) (simp add: marks_spawn [OF sp] m)
  then show ?thesis using h by (simp add: create_local_def Let_def sp)
qed

lemma marked_create_remote: "marks_ok d (marks s) \<Longrightarrow> marks_ok d (marks (fst (create_remote v i title cwd model h opts s)))"
  by (simp add: create_remote_def Let_def split: prod.split) (blast intro: marked_held)

lemma marked_create: "marks_ok d (marks s) \<Longrightarrow> marks_ok d (marks (fst (create_live v i routed opts s)))"
  by (simp add: create_live_def Let_def marked_create_local marked_create_remote split: option.split)

lemma marked_open_row: "open_row v row s = (s1, k) \<Longrightarrow> marks_ok d (marks s) \<Longrightarrow> marks_ok d (marks s1)"
  by (auto simp: open_row_def Let_def split: prod.splits elim!: marked_held)

lemma marks_ask_open [simp]: "marks (ask_open k s) = marks s"
  by (auto simp: ask_open_def split: prod.split attach_answer.split dest!: marks_ask)

lemma marked_open: "marks_ok d (marks s) \<Longrightarrow> marks_ok d (marks (or_unchanged s (open_history v i s)))"
  by (auto simp: open_history_def or_unchanged_def Let_def split: option.split prod.split attach_answer.split bool.split
      dest!: marks_ask elim: marked_open_row)

lemma marks_stop_all [simp]: "marks (stop_all k s) = marks s"
  by (simp add: stop_all_def Let_def split: option.split)

lemma marked_close: "marks_ok d (marks s) \<Longrightarrow> marks_ok d (marks (close v i s))"
  by (simp add: close_def Let_def marked_let_go split: option.split)

lemma marked_delete: "marks_ok d (marks s) \<Longrightarrow> marks_ok d (marks (fst (delete_history i s)))"
proof -
  assume "marks_ok d (marks s)"
  then have s: "marks_ok d (marks (case held s i of None \<Rightarrow> s | Some k \<Rightarrow> let_go i (stop_all k s)))"
    by (simp add: marked_let_go split: option.split)
  have "marks (fst (case delete_session i (sv_db x) of (d, found) \<Rightarrow> (x\<lparr>sv_db := d\<rparr>, found))) = marks x" for x
    by (simp add: marks_def delete_session_def)
  with s show ?thesis by (simp add: delete_history_def Let_def)
qed

lemma marks_foreign [simp]:
  "marks (s\<lparr>sv_db := (sv_db s)\<lparr>sd_sessions := rows\<rparr>\<rparr>) = marks s" "marks (s\<lparr>sv_db := register_live_run r (sv_db s)\<rparr>) = marks s"
  "marks (s\<lparr>sv_db := clear_live_run i t (sv_db s)\<rparr>) = marks s"
  by simp_all

lemma marked_step: "marks_ok d (marks s) \<Longrightarrow> marks_ok d (marks (serve_step v h s))"
  by (cases h) (simp_all add: marked_create marked_open marked_close marked_delete)

lemma marked_serve: "marks_ok d (marks s) \<Longrightarrow> marks_ok d (marks (serve hs s))"
  by (induction hs s rule: serve.induct) (simp_all add: marked_step)

text \<open>
  C38: After any run of a server every session that it holds open is marked in the database, where a restarted server finds
  it; and a mark is of a session that is held, or was left by an earlier server.
\<close>

theorem open_sessions_are_marked:
  "held_ids (serve hs (empty_server d)) \<subseteq> marked_ids (sv_db (serve hs (empty_server d))) \<and>
   marked_ids (sv_db (serve hs (empty_server d))) \<subseteq> held_ids (serve hs (empty_server d)) \<union> marked_ids d"
  using marked_serve [of d "empty_server d" hs] by (simp add: marks_ok_def marks_def empty_server_def held_ids_def marked_ids_def)

end
