(* ===== verification/SessionCases.thy ===== *)
theory SessionCases
  imports SessionMarks
begin

text \<open>Runs of the session manager on small inputs: where the code falls short of what it means to do.\<close>

section \<open>An environment\<close>

definition plain_json :: json where
  "plain_json = \<lparr>rt_parse = (\<lambda>t. if t = ''[]'' then Some (JArr []) else if t = ''null'' then Some JNull
       else if t = ''note'' then Some (JObj [(''type'', JStr ''notice''), (''text'', JStr ''hi'')]) else None),
     rt_dump = (\<lambda>v. ''{}''), rt_show = (\<lambda>v. ''x''), rt_error = (\<lambda>t. [])\<rparr>"

definition test_env :: "int \<Rightarrow> env" where
  "test_env now = \<lparr>ev_now = now, ev_json = plain_json, ev_skills = [], ev_exists = (\<lambda>p. p = ''/w''), ev_expand = (\<lambda>p. p),
     ev_home = ''/w'', ev_here = ''/w'', ev_default_model = ''m'', ev_inline = (\<lambda>t c. t), ev_mirror = (\<lambda>i es. []),
     ev_profile_of = (\<lambda>i. None), ev_hosts = [\<lparr>hs_id = ''h'', hs_workdir = ''/r''\<rparr>], ev_resume_ok = True,
     ev_paths = (\<lambda>n. (''t'' @ show_nat n, ''c'' @ show_nat n, 10)), ev_journal = (\<lambda>t. None), ev_child = (\<lambda>p n. None),
     ev_log_tail = (\<lambda>n. []), ev_compact_ok = True, ev_dump_events = (\<lambda>es. []), ev_load_events = (\<lambda>t. []),
     ev_dump_info = (\<lambda>i. []), ev_load_info = (\<lambda>t. None)\<rparr>"

definition a_chat :: "bool \<Rightarrow> string \<Rightarrow> create_options" where
  "a_chat remote prompt = \<lparr>co_prompt = prompt, co_cwd = ''/w'', co_model = ''m'', co_remote = remote, co_host = ''h'', co_atts = [],
     co_profile = None, co_suffix = [], co_title = ''t''\<rparr>"

definition timed :: "happening list \<Rightarrow> (env \<times> happening) list" where
  "timed hs = zip (map (\<lambda>n. test_env (int n)) [1..<Suc (length hs)]) hs"

section \<open>Remote turns\<close>

lemma late_exit_settles_the_next_turn:
  "let s = serve (timed [Create ''a'' [] (a_chat True ''one''), Interrupt ''a'', Send ''a'' ''two'' [] [] False, RemoteExit 0 255])
             (empty_server empty_db); l = en_session (entry 0 s)
   in map rp_id (turns_at_work s) = [1] \<and> en_remote (entry 0 s) = Some 1 \<and> ls_status l = SError \<and> last_exit (ls_events l) = Some ''Error''"
  by code_simp

lemma late_exit_reorders_the_queue:
  "let s = serve (timed [Create ''a'' [] (a_chat True ''one''), Interrupt ''a'', Send ''a'' ''two'' [] [] False,
             Send ''a'' ''three'' [] [] False, Send ''a'' ''four'' [] [] False, RemoteExit 0 255]) (empty_server empty_db)
   in en_queue (entry 0 s) = [''four'', ''three'']"
  by code_simp

lemma null_line_loses_the_lines_after_it:
  "let shown = (\<lambda>chunk. ls_events (en_session (entry 0 (serve (timed [Create ''a'' [] (a_chat True ''one''), RemoteData 0 chunk]) (empty_server empty_db)))))
   in shown (''null'' @ nl @ ''note'' @ nl) = [EvTask ''one'' []] \<and> shown (''noise'' @ nl @ ''note'' @ nl) = [EvTask ''one'' [], EvNotice ''hi'' []]"
  by code_simp

text \<open>A remote session that a restarted server opens again is a local one without messages, and cannot go on.\<close>

lemma remote_session_ends_with_the_server:
  "let s = serve (timed [Create ''a'' [] (a_chat True ''one''), RemoteExit 0 0]) (empty_server empty_db);
       s1 = rehydrate (test_env 9) (restart s)
   in held s1 ''a'' = Some 0 \<and> ls_remote (en_session (entry 0 s)) \<and> \<not> ls_remote (en_session (entry 0 s1)) \<and>
      snd (send (test_env 10) ''a'' ''two'' [] [] False s1) =
        Some ''this session has no saved conversation and cannot be continued: start a new chat''"
  by code_simp

section \<open>Local agents\<close>

text \<open>A message as the journal of an agent has it.\<close>

definition said :: "string \<Rightarrow> string \<Rightarrow> js" where
  "said role t = JObj [(''role'', JStr role), (''content'', JStr t)]"

definition follow_up :: "string \<Rightarrow> js" where
  "follow_up t = JObj [(''role'', JStr ''user''), (''content'', JStr (NEW_TASK @ '' '' @ t)),
     (''extra'', JObj [(''interrupt_type'', JStr ''UserNewTask'')])]"

definition journal_of :: "js list \<Rightarrow> journal_state" where
  "journal_of ms = \<lparr>sn_traj = \<lparr>tj_info = JObj [], tj_messages = ms, tj_format = None, tj_partial = None\<rparr>, sn_same = False\<rparr>"

definition one_turn :: "happening list" where
  "one_turn = [Create ''a'' [] (a_chat False ''one''), Journal 0 (journal_of [said ''user'' ''one'', said ''assistant'' ''hello'']), ProcExit 0 0 None]"

lemma unread_prompt_of_a_resumed_agent_is_lost:
  "let s = serve (timed (one_turn @ [Send ''a'' ''two'' [] [] False, Send ''a'' ''three'' [] [] False, ProcExit 1 0 None])) (empty_server empty_db)
   in map pr_unread (sv_procs s) = [[], [CMessage ''three'']] \<and> ls_status (en_session (entry 0 s)) = SDone \<and> agents_at_work s = []"
  by code_simp

lemma unread_prompt_of_a_created_agent_goes_on:
  "let s = serve (timed [Create ''a'' [] (a_chat False ''one''), Journal 0 (journal_of [said ''user'' ''one'', said ''assistant'' ''hello'']),
             Send ''a'' ''two'' [] [] False, ProcExit 0 0 None]) (empty_server empty_db)
   in map pr_entry (agents_at_work s) = [0] \<and> OSpawn 1 ''two'' ''m'' ''/w'' [] True False \<in> set (sv_out s)"
  by code_simp

lemma suffixed_prompt_is_shown_twice:
  "let s = serve (timed (one_turn @ [Send ''a'' ''two'' [] (nl @ nl @ ''<queue_state>'' @ nl @ ''</queue_state>'') False,
             Journal 0 (journal_of [said ''user'' ''one'', said ''assistant'' ''hello'',
               follow_up (''two'' @ nl @ nl @ ''<queue_state>'' @ nl @ ''</queue_state>'')])])) (empty_server empty_db)
   in filter is_prompt (ls_events (en_session (entry 0 s))) =
        [EvTask ''one'' [], EvTask ''two'' [], EvTask (''two'' @ nl @ nl @ ''<queue_state>'' @ nl @ ''</queue_state>'') []]"
  by code_simp

text \<open>A session that is closed while a prompt waits for a probe: the prompt starts an agent that nobody holds.\<close>

lemma closed_session_starts_an_agent:
  "let s0 = serve (timed one_turn) (empty_server empty_db);
       s = serve (timed [ForeignRun \<lparr>lr_session = ''a'', lr_traj_path = ''tx'', lr_control_path = ''cx'', lr_pid = 7, lr_owner = ''tui'', lr_started_at = 1\<rparr>,
             Send ''a'' ''two'' [] [] False, Close ''a'', ProbeDone 0 False]) s0
   in held s ''a'' = None \<and> map pr_entry (agents_at_work s) = [0]"
  by code_simp

text \<open>When the session was opened again and had another prompt meanwhile, two agents work for it, on two objects.\<close>

definition with_journals :: "(env \<times> happening) list \<Rightarrow> (env \<times> happening) list" where
  "with_journals = map (\<lambda>(v, h). (v\<lparr>ev_journal := (\<lambda>t. Some (sn_traj (journal_of [said ''user'' ''one'', said ''assistant'' ''hello''])))\<rparr>, h))"

lemma reopened_session_has_two_agents:
  "let s0 = serve (timed one_turn) (empty_server empty_db);
       s = serve (with_journals (timed [ForeignRun \<lparr>lr_session = ''a'', lr_traj_path = ''tx'', lr_control_path = ''cx'', lr_pid = 7, lr_owner = ''tui'', lr_started_at = 1\<rparr>,
             Send ''a'' ''two'' [] [] False, Close ''a'', Open ''a'', Send ''a'' ''three'' [] [] False, ProbeDone 0 False])) s0
   in map (session_of s) (workers s) = [''a'', ''a''] \<and> distinct (workers s) \<and> length (objects_of s ''a'') = 2"
  by code_simp

section \<open>Saving and opening again\<close>

lemma stopped_session_comes_back_as_failed:
  "let s = serve (timed [Create ''a'' [] (a_chat False ''one''), Interrupt ''a'', ProcExit 0 130 None]) (empty_server empty_db);
       s1 = rehydrate (test_env 9) (restart s)
   in ls_status (en_session (entry 0 s)) = SInterrupted \<and> ls_status (en_session (entry 0 s1)) = SError"
  by code_simp

text \<open>
  A model chosen for an idle session that was opened from its row: the method's own update makes the row the newer copy,
  so the transcript is not saved, and the next pass reads the row back without the notice.
\<close>

lemma notice_of_a_model_change_is_dropped:
  "let row = (fresh_row 1 ''a'' ''t'' ''/w'' ''m'' ''one'')\<lparr>sr_exit_status := ''Submitted''\<rparr>;
       s = serve (timed [ForeignSave row, Open ''a'', SetModel ''a'' ''n'']) (empty_server empty_db);
       s1 = serve (timed [SyncBegin (\<lambda>i. None), SyncReload]) s
   in ls_events (en_session (entry 0 s)) = [model_notice ''n'' False] \<and> ls_events (en_session (entry 0 s1)) = [] \<and>
      ls_model (en_session (entry 0 s1)) = ''n''"
  by code_simp

end
