(* ===== verification/SessionClaims.thy ===== *)
theory SessionClaims
  imports SessionCases
begin

text \<open>Properties of single methods of the session manager, where many parts meet.\<close>

section \<open>The queue of a remote session\<close>

text \<open>What a continued turn reads of the entry: its queue and turn, and where the session runs.\<close>

definition turn_view :: "internal \<Rightarrow> string list \<times> nat option \<times> string \<times> string \<times> string" where
  "turn_view e = (en_queue e, en_remote e, ls_host (en_session e), ls_cwd (en_session e), ls_model (en_session e))"

lemma turn_view_updates [simp]:
  "turn_view (add_events es e) = turn_view e" "turn_view (touch v e) = turn_view e" "turn_view (e\<lparr>en_synced := x\<rparr>) = turn_view e"
  "turn_view (set_status st e) = turn_view e"
  by (simp_all add: turn_view_def add_events_def touch_def set_status_def on_session_def)

lemma entry_emit: "k < count s \<Longrightarrow> entry k (emit v k s) = touch v (entry k s)"
  by (simp add: emit_def)

lemma some_synced: "\<exists>x. e = e\<lparr>en_synced := x\<rparr>"
  by (rule exI [of _ "en_synced e"]) simp

lemma entry_persist: "k < count s \<Longrightarrow> \<exists>x. entry k (persist v k s) = (entry k s)\<lparr>en_synced := x\<rparr>"
  using some_synced [of "entry k s"] by (auto simp: persist_def Let_def)

lemma status_fields [simp]: "ls_status (en_session (touch v e)) = ls_status (en_session e)"
  "ls_status (en_session (add_events es e)) = ls_status (en_session e)" "ls_status (en_session (set_status st e)) = st"
  by (simp_all add: touch_def add_events_def set_status_def on_session_def)

lemma next_fields [simp]: "sv_next (emit v k s) = sv_next s" "sv_next (persist v k s) = sv_next s" "sv_next (on_remote n f s) = sv_next s"
  "sv_next (s\<lparr>sv_db := d\<rparr>) = sv_next s"
  by (simp_all add: emit_def persist_def on_remote_def Let_def)

lemma after_finish:
  assumes "k < count s"
  shows "turn_view (entry k (finish_run v k st s)) = turn_view (entry k s)" "ls_status (en_session (entry k (finish_run v k st s))) = st"
    "sv_next (finish_run v k st s) = sv_next s"
proof -
  obtain e where e: "finish_run v k st s = say [ORunExit (ls_id (en_session (entry k s))) st] (emit v k (persist v k (put_entry k e s)))"
    and v: "turn_view e = turn_view (entry k s)" "ls_status (en_session e) = st"
    by (rule that, unfold finish_run_def Let_def, rule refl)
       (simp_all add: turn_view_def add_events_def on_session_def)
  obtain x where x: "entry k (persist v k (put_entry k e s)) = e\<lparr>en_synced := x\<rparr>"
    using entry_persist [of k "put_entry k e s" v] assms by auto
  have "entry k (finish_run v k st s) = touch v (e\<lparr>en_synced := x\<rparr>)" using assms by (simp add: e entry_emit x)
  then show "turn_view (entry k (finish_run v k st s)) = turn_view (entry k s)" "ls_status (en_session (entry k (finish_run v k st s))) = st"
    using v by simp_all
  show "sv_next (finish_run v k st s) = sv_next s" by (simp add: e)
qed

lemma continue_starts:
  assumes "k < count s" "en_remote (entry k s) = None" "find (\<lambda>h. hs_id h = ls_host (en_session (entry k s))) (ev_hosts v) = Some h"
  shows "let s' = continue_remote v k p s; l = en_session (entry k s)
         in en_queue (entry k s') = en_queue (entry k s) \<and> en_remote (entry k s') = Some (sv_next s) \<and>
            ls_status (en_session (entry k s')) = SRunning \<and>
            last (sv_remotes s') = \<lparr>rp_id = sv_next s, rp_entry = k, rp_first = False, rp_alive = True, rp_told = False, rp_settled = False, rp_buffer = []\<rparr> \<and>
            last (sv_out s') = ORemote (sv_next s) p (if ls_cwd l \<noteq> [] then ls_cwd l else hs_workdir h) (ls_model l)"
  using assms by (simp add: continue_remote_def start_remote_def emit_def touch_def add_events_def on_session_def put_entry_def say_def entry_def count_def Let_def)

lemma find_unique:
  assumes "distinct (map f xs)" "x \<in> set xs" "P x" "\<And>y. y \<in> set xs \<Longrightarrow> P y \<Longrightarrow> f y = f x"
  shows "find P xs = Some x"
proof -
  obtain y where y: "find P xs = Some y" using assms(2,3) by (cases "find P xs") (auto simp: find_None_iff)
  with find_in [OF y] assms(4) [of y] have "y = x" using assms(1,2) by (auto simp: distinct_map inj_on_def)
  with y show ?thesis by simp
qed

text \<open>
  C39: A prompt that was queued behind a remote turn starts when that turn ends, however it ends, unless it was stopped or the
  host is gone: the first of the queue becomes the session's turn, in its folder and on its model, and the others wait.
\<close>

theorem next_queued_prompt_starts:
  assumes "s = serve hs (empty_server d)" "r \<in> set (turns_at_work s)" "k = rp_entry r" "l = en_session (entry k s)"
    and "en_queue (entry k s) = p # ps" "ls_status l \<noteq> SInterrupted" "find (\<lambda>h. hs_id h = ls_host l) (ev_hosts v) = Some h"
  shows "let s' = remote_exit v (rp_id r) code s
         in en_queue (entry k s') = ps \<and> en_remote (entry k s') = Some (sv_next s) \<and> ls_status (en_session (entry k s')) = SRunning \<and>
            last (sv_remotes s') = \<lparr>rp_id = sv_next s, rp_entry = k, rp_first = False, rp_alive = True, rp_told = False, rp_settled = False, rp_buffer = []\<rparr> \<and>
            last (sv_out s') = ORemote (sv_next s) p (if ls_cwd l \<noteq> [] then ls_cwd l else hs_workdir h) (ls_model l)"
proof -
  let ?n = "rp_id r"
  have inv: "session_inv s" using assms(1) inv_run [OF inv_empty] by simp
  have r: "r \<in> set (sv_remotes s)" "rp_alive r" using assms(2) by (auto simp: turns_at_work_def)
  have k: "k < count s" and turn: "en_remote (entry k s) = Some ?n"
    using inv_clauses(6) [OF inv r(1)] assms(2,3) by (auto simp: turns_at_work_def)
  have found: "find (\<lambda>p. rp_id p = ?n \<and> rp_alive p) (sv_remotes s) = Some r"
    by (rule find_unique [OF inv_clauses(3) [OF inv] r(1)]) (use r in simp_all)
  let ?s = "on_remote ?n (\<lambda>x. x\<lparr>rp_alive := False\<rparr>) s"
  let ?e = "(entry k s)\<lparr>en_remotes := filter (\<lambda>m. m \<noteq> ?n) (en_remotes (entry k s)), en_stopped := filter (\<lambda>m. m \<noteq> ?n) (en_stopped (entry k s)),
    en_remote := None\<rparr>"
  have exit: "remote_exit v ?n code s = (if rp_first r then settle_first v k code ?e ?s else settle_later v ?n (rp_settled r) k code ?e ?s)"
    using found turn assms(3) by (simp add: remote_exit_def owns_turn_def Let_def)
  have view: "turn_view ?e = (p # ps, None, ls_host l, ls_cwd l, ls_model l)" "ls_status (en_session ?e) = ls_status l"
    using assms(4,5) by (simp_all add: turn_view_def)
  have drained: "let s' = drain_remote_queue v k False s2
         in en_queue (entry k s') = ps \<and> en_remote (entry k s') = Some (sv_next s) \<and> ls_status (en_session (entry k s')) = SRunning \<and>
            last (sv_remotes s') = \<lparr>rp_id = sv_next s, rp_entry = k, rp_first = False, rp_alive = True, rp_told = False, rp_settled = False, rp_buffer = []\<rparr> \<and>
            last (sv_out s') = ORemote (sv_next s) p (if ls_cwd l \<noteq> [] then ls_cwd l else hs_workdir h) (ls_model l)"
    if s2: "turn_view (entry k s2) = turn_view ?e" "ls_status (en_session (entry k s2)) \<noteq> SInterrupted" "sv_next s2 = sv_next s" "k < count s2" for s2
  proof -
    let ?s3 = "put_entry k ((entry k s2)\<lparr>en_queue := ps\<rparr>) s2"
    have "entry k ?s3 = (entry k s2)\<lparr>en_queue := ps\<rparr>" using s2(4) by simp
    moreover have "sv_next ?s3 = sv_next s" using s2(3) by simp
    moreover have "en_queue (entry k s2) = p # ps" "en_remote (entry k s2) = None" "ls_host (en_session (entry k s2)) = ls_host l"
      "ls_cwd (en_session (entry k s2)) = ls_cwd l" "ls_model (en_session (entry k s2)) = ls_model l"
      using s2(1) view(1) by (simp_all add: turn_view_def)
    ultimately show ?thesis
      using continue_starts [of k ?s3 v h p] s2(2,4) assms(7) by (simp add: drain_remote_queue_def Let_def)
  qed
  have i: "(ls_status (en_session ?e) = SInterrupted) = False" using assms(6) view(2) by simp
  show ?thesis
  proof (cases "rp_first r")
    case True
    let ?e1 = "if has_exit (en_session ?e) then ?e else add_events [turn_card False code] ?e"
    have "turn_view ?e1 = turn_view ?e" by simp
    then have "let s' = drain_remote_queue v k False (finish_run v k (outcome code False) (put_entry k ?e1 ?s))
         in en_queue (entry k s') = ps \<and> en_remote (entry k s') = Some (sv_next s) \<and> ls_status (en_session (entry k s')) = SRunning \<and>
            last (sv_remotes s') = \<lparr>rp_id = sv_next s, rp_entry = k, rp_first = False, rp_alive = True, rp_told = False, rp_settled = False, rp_buffer = []\<rparr> \<and>
            last (sv_out s') = ORemote (sv_next s) p (if ls_cwd l \<noteq> [] then ls_cwd l else hs_workdir h) (ls_model l)"
      using k by (intro drained) (simp_all add: after_finish outcome_def)
    then show ?thesis using True by (simp only: exit settle_first_def Let_def i if_True if_False)
  next
    case False
    let ?e1 = "if rp_settled r then ?e else add_events [turn_card False code] ?e"
    define s1 where "s1 = emit v k (put_entry k ?e1 (on_remote ?n (\<lambda>x. x\<lparr>rp_settled := True\<rparr>) ?s))"
    have s1: "entry k s1 = touch v ?e1" "sv_next s1 = sv_next s" "count s1 = count s" unfolding s1_def using k by (simp_all add: entry_emit)
    define s2 where "s2 = (if \<not> False \<and> ls_status (en_session (entry k s1)) = SRunning
       then put_entry k (set_status (if code = 0 then SDone else SError) (entry k s1)) s1 else s1)"
    have s2: "turn_view (entry k s2) = turn_view ?e" "ls_status (en_session (entry k s2)) \<noteq> SInterrupted" "sv_next s2 = sv_next s" "count s2 = count s"
      unfolding s2_def using s1 k i by auto
    obtain x where x: "entry k (persist v k s2) = (entry k s2)\<lparr>en_synced := x\<rparr>" using entry_persist [of k s2 v] s2(4) k by auto
    have "let s' = drain_remote_queue v k False (persist v k s2)
         in en_queue (entry k s') = ps \<and> en_remote (entry k s') = Some (sv_next s) \<and> ls_status (en_session (entry k s')) = SRunning \<and>
            last (sv_remotes s') = \<lparr>rp_id = sv_next s, rp_entry = k, rp_first = False, rp_alive = True, rp_told = False, rp_settled = False, rp_buffer = []\<rparr> \<and>
            last (sv_out s') = ORemote (sv_next s) p (if ls_cwd l \<noteq> [] then ls_cwd l else hs_workdir h) (ls_model l)"
      using s2 k by (intro drained) (simp_all add: x)
    then show ?thesis using False by (simp only: exit settle_later_def Let_def i s1_def [symmetric] s2_def [symmetric] if_False)
  qed
qed

lemma next_queued_prompt_starts_witness:
  "let s = serve (timed [Create ''a'' [] (a_chat True ''one''), Send ''a'' ''two'' [] [] False, Send ''a'' ''three'' [] [] False]) (empty_server empty_db);
       s' = remote_exit (test_env 9) 0 0 s
   in en_queue (entry 0 s') = [''three''] \<and> last (sv_out s') = ORemote 1 ''two'' ''/w'' ''m''"
proof -
  let ?s = "serve (timed [Create ''a'' [] (a_chat True ''one''), Send ''a'' ''two'' [] [] False, Send ''a'' ''three'' [] [] False]) (empty_server empty_db)"
  let ?r = "\<lparr>rp_id = 0, rp_entry = 0, rp_first = True, rp_alive = True, rp_told = False, rp_settled = False, rp_buffer = []\<rparr>"
  let ?h = "\<lparr>hs_id = ''h'', hs_workdir = ''/r''\<rparr>"
  have r: "?r \<in> set (turns_at_work ?s)" by code_simp
  have q: "en_queue (entry 0 ?s) = [''two'', ''three'']" by code_simp
  have st: "ls_status (en_session (entry 0 ?s)) \<noteq> SInterrupted" by code_simp
  have h: "find (\<lambda>h. hs_id h = ls_host (en_session (entry 0 ?s))) (ev_hosts (test_env 9)) = Some ?h" by code_simp
  have l: "ls_cwd (en_session (entry 0 ?s)) = ''/w''" "ls_model (en_session (entry 0 ?s)) = ''m''" "sv_next ?s = 1" by code_simp+
  have k: "0 = rp_entry ?r" and i: "rp_id ?r = 0" by simp_all
  have "let s' = remote_exit (test_env 9) (rp_id ?r) 0 ?s
         in en_queue (entry 0 s') = [''three''] \<and> en_remote (entry 0 s') = Some (sv_next ?s) \<and> ls_status (en_session (entry 0 s')) = SRunning \<and>
            last (sv_remotes s') = \<lparr>rp_id = sv_next ?s, rp_entry = 0, rp_first = False, rp_alive = True, rp_told = False, rp_settled = False, rp_buffer = []\<rparr> \<and>
            last (sv_out s') = ORemote (sv_next ?s) ''two'' (if ls_cwd (en_session (entry 0 ?s)) \<noteq> [] then ls_cwd (en_session (entry 0 ?s)) else hs_workdir ?h) (ls_model (en_session (entry 0 ?s)))"
    by (rule next_queued_prompt_starts [OF refl r k refl q st h])
  then have "let s' = remote_exit (test_env 9) 0 0 ?s in en_queue (entry 0 s') = [''three''] \<and>
      last (sv_out s') = ORemote (sv_next ?s) ''two'' (if ls_cwd (en_session (entry 0 ?s)) \<noteq> [] then ls_cwd (en_session (entry 0 ?s)) else hs_workdir ?h) (ls_model (en_session (entry 0 ?s)))"
    unfolding i Let_def by blast
  then show ?thesis unfolding l by (simp only: list.distinct if_True not_False_eq_True simp_thms Let_def)
qed

end
