(* ===== verification/HostGuard.thy ===== *)
theory HostGuard
  imports Prelude
begin

text \<open>
  Which names the web server answers to (src/web/hostGuard.ts): parsing an authority, the rules made of server state,
  and the checks of the \<open>Host\<close> and \<open>Origin\<close> headers.  \<open>new URL(origin).host\<close> is an argument (\<^const>\<open>None\<close> when it throws).
\<close>

section \<open>Names\<close>

record host_rule =
  hr_name :: string
  hr_port :: "nat option"

definition LOOPBACK :: "string list" where
  "LOOPBACK = [''localhost'', ''127.0.0.1'', ''::1'', ''[::1]'', ''0:0:0:0:0:0:0:1'']"

definition is_loopback_name :: "string \<Rightarrow> bool" where
  "is_loopback_name n = (js_lower n \<in> set LOOPBACK)"

text \<open>\<open>/^\d{1,5}$/\<close> and the range check.\<close>

definition port_of :: "string \<Rightarrow> nat option" where
  "port_of s =
     (if s = [] \<or> 5 < length s \<or> \<not> list_all is_digit s then None
      else (let p = nat_of_digits 0 s in if 1 \<le> p \<and> p \<le> 65535 then Some p else None))"

definition parse_authority :: "string \<Rightarrow> host_rule option" where
  "parse_authority raw =
     (let s = js_lower (js_trim raw) in
      if s = [] \<or> 255 < length s then None
      else if hd s = CHR ''['' then
        (case index_of (CHR '']'') s of
           None \<Rightarrow> None
         | Some close \<Rightarrow>
             (let name = take (Suc close) s; rest = drop (Suc close) s in
              if rest = [] then Some \<lparr>hr_name = name, hr_port = None\<rparr>
              else if hd rest \<noteq> CHR '':'' then None
              else map_option (\<lambda>p. \<lparr>hr_name = name, hr_port = Some p\<rparr>) (port_of (tl rest))))
      else
        (case index_of (CHR '':'') s of
           None \<Rightarrow> Some \<lparr>hr_name = s, hr_port = None\<rparr>
         | Some colon \<Rightarrow>
             (let portPart = drop (Suc colon) s in
              if CHR '':'' \<in> set portPart then Some \<lparr>hr_name = s, hr_port = None\<rparr>
              else map_option (\<lambda>p. \<lparr>hr_name = take colon s, hr_port = Some p\<rparr>) (port_of portPart))))"

section \<open>Rules\<close>

text \<open>\<open>add\<close>: the key is the text \<open>name:port\<close>.\<close>

definition rule_key :: "host_rule \<Rightarrow> string" where
  "rule_key r = hr_name r @ '':'' @ (case hr_port r of None \<Rightarrow> ''*'' | Some p \<Rightarrow> show_nat p)"

definition add_rule :: "host_rule list \<Rightarrow> host_rule \<Rightarrow> host_rule list" where
  "add_rule rules r = (if rule_key r \<in> rule_key ` set rules then rules else rules @ [r])"

definition add_parsed :: "host_rule list \<Rightarrow> string \<Rightarrow> host_rule list" where
  "add_parsed rules raw = (case parse_authority raw of None \<Rightarrow> rules | Some r \<Rightarrow> add_rule rules r)"

definition host_rules :: "string \<Rightarrow> string list \<Rightarrow> host_rule list" where
  "host_rules bind_host extra =
     (let bound = add_parsed [] bind_host;
          loop = foldl add_rule bound (map (\<lambda>n. \<lparr>hr_name = n, hr_port = None\<rparr>) [''localhost'', ''127.0.0.1'', ''::1'', ''[::1]''])
      in foldl add_parsed loop extra)"

definition parse_allowed_hosts :: "string option \<Rightarrow> string list" where
  "parse_allowed_hosts raw =
     (case raw of
        None \<Rightarrow> []
      | Some s \<Rightarrow> (if s = [] then [] else filter (\<lambda>e. e \<noteq> []) (map js_trim (split_char (CHR '','') s))))"

definition host_allowed :: "string option \<Rightarrow> host_rule list \<Rightarrow> bool" where
  "host_allowed raw rules =
     (case raw of
        None \<Rightarrow> False
      | Some s \<Rightarrow>
          (if s = [] then False
           else (case parse_authority s of
               None \<Rightarrow> False
             | Some got \<Rightarrow> list_ex (\<lambda>r. hr_name r = hr_name got \<and> (hr_port r = None \<or> hr_port r = hr_port got)) rules)))"

definition same_origin :: "(string \<Rightarrow> string option) \<Rightarrow> string option \<Rightarrow> host_rule list \<Rightarrow> bool" where
  "same_origin url_host origin rules =
     (case origin of
        None \<Rightarrow> True
      | Some s \<Rightarrow>
          (if s = [] then True
           else (case url_host s of None \<Rightarrow> False | Some host \<Rightarrow> host_allowed (Some host) rules)))"

section \<open>Lemmas\<close>

text \<open>Two rules with the same key are the same rule: the text of a port holds no colon.\<close>

definition port_text :: "nat option \<Rightarrow> string" where
  "port_text p = (case p of None \<Rightarrow> ''*'' | Some n \<Rightarrow> show_nat n)"

lemma port_text_no_colon: "CHR '':'' \<notin> set (port_text p)"
proof (cases p)
  case (Some n)
  have "\<not> is_digit (CHR '':'')" by (simp add: is_digit_def)
  with show_nat_digits [of n] Some show ?thesis by (auto simp: port_text_def list_all_iff)
qed (simp add: port_text_def)

lemma port_text_inject: "port_text p = port_text q \<longleftrightarrow> p = q"
proof -
  have "show_nat n \<noteq> ''*''" for n
    using show_nat_digits [of n] by (auto simp: list_all_iff is_digit_def)
  then show ?thesis by (cases p; cases q) (simp_all add: port_text_def, metis)
qed

lemma takeWhile_until: "c \<notin> set xs \<Longrightarrow> takeWhile (\<lambda>x. x \<noteq> c) (xs @ c # ys) = xs"
  by (induction xs) auto

lemma rule_key_inject: "rule_key r = rule_key r' \<longleftrightarrow> r = r'"
proof -
  have key: "rule_key x = hr_name x @ CHR '':'' # port_text (hr_port x)" for x :: host_rule
    by (simp add: rule_key_def port_text_def)
  have "takeWhile (\<lambda>c. c \<noteq> CHR '':'') (rev (rule_key x)) = rev (port_text (hr_port x))" for x :: host_rule
    using takeWhile_until [of "CHR '':''" "rev (port_text (hr_port x))"] port_text_no_colon [of "hr_port x"] by (simp add: key)
  then have "rule_key r = rule_key r' \<Longrightarrow> hr_port r = hr_port r'" by (metis port_text_inject rev_rev_ident)
  then show ?thesis by (auto simp: key)
qed

lemma set_add_rule [simp]: "set (add_rule rules r) = insert r (set rules)"
  by (auto simp: add_rule_def rule_key_inject)

lemma set_add_parsed [simp]: "set (add_parsed rules raw) = set_option (parse_authority raw) \<union> set rules"
  by (auto simp: add_parsed_def split: option.splits)

lemma set_foldl_rules: "set (foldl add_rule rules rs) = set rules \<union> set rs"
  by (induction rs arbitrary: rules) simp_all

lemma set_foldl_parsed: "set (foldl add_parsed rules es) = set rules \<union> (\<Union>e \<in> set es. set_option (parse_authority e))"
  by (induction es arbitrary: rules) (simp_all add: Un_ac)

lemma host_rules_mem:
  "r \<in> set (host_rules bind_host extra) \<longleftrightarrow>
     hr_port r = None \<and> hr_name r \<in> {''localhost'', ''127.0.0.1'', ''::1'', ''[::1]''} \<or>
     (\<exists>e. e \<in> set (bind_host # extra) \<and> parse_authority e = Some r)"
  unfolding host_rules_def Let_def set_foldl_parsed set_foldl_rules set_add_parsed
  by (cases r) auto

lemma parse_authority_empty [simp]: "parse_authority [] = None"
  by (simp add: parse_authority_def js_trim_def trim_start_def trim_end_def js_lower_def)

section \<open>Properties\<close>

text \<open>
  C16: A request reaches the server only under a name the server's own settings give it.  A \<open>Host\<close> header is accepted
  exactly when it parses and its name is one of the four loopback names, or the name of the bind address or of a declared
  host whose port is left open or is the same; a cross-site \<open>Origin\<close> is accepted exactly when its host is.
\<close>

theorem host_named_by_server:
  "(host_allowed raw (host_rules bind_host extra) \<longleftrightarrow>
     (\<exists>s got. raw = Some s \<and> parse_authority s = Some got \<and>
        (hr_name got \<in> {''localhost'', ''127.0.0.1'', ''::1'', ''[::1]''} \<or>
         (\<exists>e rule. e \<in> set (bind_host # extra) \<and> parse_authority e = Some rule \<and> hr_name rule = hr_name got \<and>
            (hr_port rule = None \<or> hr_port rule = hr_port got))))) \<and>
   (same_origin url_host origin (host_rules bind_host extra) \<longleftrightarrow>
     origin = None \<or> origin = Some [] \<or>
     (\<exists>s h. origin = Some s \<and> url_host s = Some h \<and> host_allowed (Some h) (host_rules bind_host extra)))"
proof -
  let ?L = "{''localhost'', ''127.0.0.1'', ''::1'', ''[::1]''}"
  have named: "list_ex (\<lambda>r. hr_name r = n \<and> (hr_port r = None \<or> hr_port r = p)) (host_rules bind_host extra) \<longleftrightarrow>
      n \<in> ?L \<or> (\<exists>e rule. e \<in> set (bind_host # extra) \<and> parse_authority e = Some rule \<and> hr_name rule = n \<and>
        (hr_port rule = None \<or> hr_port rule = p))" (is "?lhs \<longleftrightarrow> ?rhs") for n p
  proof
    assume ?lhs
    then obtain r where "r \<in> set (host_rules bind_host extra)" "hr_name r = n" "hr_port r = None \<or> hr_port r = p"
      by (auto simp only: list_ex_iff)
    then show ?rhs unfolding host_rules_mem by blast
  next
    assume ?rhs
    then consider "n \<in> ?L" | e rule where "e \<in> set (bind_host # extra)" "parse_authority e = Some rule" "hr_name rule = n"
        "hr_port rule = None \<or> hr_port rule = p" by blast
    then show ?lhs
    proof cases
      case 1
      then have "\<lparr>hr_name = n, hr_port = None\<rparr> \<in> set (host_rules bind_host extra)" by (simp add: host_rules_mem)
      then show ?thesis by (force simp: list_ex_iff)
    next
      case (2 e rule)
      then have "rule \<in> set (host_rules bind_host extra)" unfolding host_rules_mem by blast
      with 2 show ?thesis by (auto simp: list_ex_iff)
    qed
  qed
  have "host_allowed raw (host_rules bind_host extra) \<longleftrightarrow>
     (\<exists>s got. raw = Some s \<and> parse_authority s = Some got \<and>
        (hr_name got \<in> ?L \<or>
         (\<exists>e rule. e \<in> set (bind_host # extra) \<and> parse_authority e = Some rule \<and> hr_name rule = hr_name got \<and>
            (hr_port rule = None \<or> hr_port rule = hr_port got))))"
  proof (cases raw)
    case (Some s)
    then show ?thesis
      by (cases "s = []"; cases "parse_authority s") (simp_all only: host_allowed_def named option.case if_True if_False
          option.inject option.distinct parse_authority_empty simp_thms ex_simps)
  qed (simp add: host_allowed_def)
  then show ?thesis
    by (cases origin) (auto simp: same_origin_def split: option.splits)
qed

end
