(* ===== verification/RateLimit.thy ===== *)
theory RateLimit
  imports Table
begin

text \<open>
  The rate limiter of the expensive routes (src/web/rateLimit.ts): a list of hits per key, \<open>take\<close>, \<open>give\<close> and
  \<open>sweep\<close>.  Times are whole milliseconds.  The map is the list of its entries in insertion order.
\<close>

section \<open>The limiter\<close>

record limiter =
  rl_max :: nat
  rl_window :: int
  rl_hits :: "(string \<times> int list) list"

definition hits_of_key :: "limiter \<Rightarrow> string \<Rightarrow> (string \<times> int list) option" where
  "hits_of_key l k = row_of fst k (rl_hits l)"

definition set_hits :: "limiter \<Rightarrow> string \<times> int list \<Rightarrow> limiter" where
  "set_hits l e = l\<lparr>rl_hits := upsert fst e (rl_hits l)\<rparr>"

definition drop_hits :: "limiter \<Rightarrow> string \<Rightarrow> limiter" where
  "drop_hits l k = l\<lparr>rl_hits := delete_key fst k (rl_hits l)\<rparr>"

interpretation hits: keyed_store_delete hits_of_key set_hits fst "\<lambda>e. e" drop_hits
  by unfold_locales (auto simp: hits_of_key_def set_hits_def drop_hits_def dest: row_of_SomeD)

definition hits_in :: "limiter \<Rightarrow> string \<Rightarrow> int list" where
  "hits_in l k = (case hits_of_key l k of None \<Rightarrow> [] | Some e \<Rightarrow> snd e)"

definition sweep :: "limiter \<Rightarrow> int \<Rightarrow> limiter" where
  "sweep l now = l\<lparr>rl_hits := filter (\<lambda>e. snd e \<noteq> [])
     (map (\<lambda>e. (fst e, filter (\<lambda>t. now - rl_window l < t) (snd e))) (rl_hits l))\<rparr>"

text \<open>Whether it is allowed, and after how many seconds to retry (\<^const>\<open>None\<close> is not a number: a limit of 0).\<close>

record take_result =
  tr_ok :: bool
  tr_retry :: "int option"

definition take_hit :: "limiter \<Rightarrow> string \<Rightarrow> int \<Rightarrow> limiter \<times> take_result" where
  "take_hit l k now =
     (let l' = (if 1024 < length (rl_hits l) then sweep l now else l);
          live = filter (\<lambda>t. now - rl_window l' < t) (hits_in l' k)
      in if rl_max l' \<le> length live
         then (l', \<lparr>tr_ok = False, tr_retry = (case live of [] \<Rightarrow> None | t # _ \<Rightarrow> Some (max 1 \<lceil>of_int (t - (now - rl_window l')) / (1000 :: rat)\<rceil>))\<rparr>)
         else (set_hits l' (k, live @ [now]), \<lparr>tr_ok = True, tr_retry = Some 0\<rparr>))"

definition give_hit :: "limiter \<Rightarrow> string \<Rightarrow> limiter" where
  "give_hit l k =
     (case hits_of_key l k of
        None \<Rightarrow> l
      | Some e \<Rightarrow>
          (if snd e = [] then l
           else if butlast (snd e) \<noteq> [] then set_hits l (k, butlast (snd e)) else drop_hits l k))"

section \<open>Lemmas\<close>

lemma hits_in_set [simp]: "hits_in (set_hits l (k, hs)) j = (if j = k then hs else hits_in l j)"
  by (simp add: hits_in_def hits.find_put)

lemma limiter_frame [simp]:
  "rl_max (set_hits l e) = rl_max l" "rl_window (set_hits l e) = rl_window l"
  "rl_max (sweep l now) = rl_max l" "rl_window (sweep l now) = rl_window l"
  by (simp_all add: set_hits_def sweep_def)

lemma live_sweep:
  "unique_keys fst (rl_hits l) \<Longrightarrow>
   hits_in (sweep l now) k = filter (\<lambda>t. now - rl_window l < t) (hits_in l k)"
proof -
  have "(case row_of fst k (filter (\<lambda>e. snd e \<noteq> []) (map (\<lambda>e. (fst e, filter (\<lambda>t. now - w < t) (snd e))) es)) of None \<Rightarrow> [] | Some e \<Rightarrow> snd e) =
      filter (\<lambda>t. now - w < t) (case row_of fst k es of None \<Rightarrow> [] | Some e \<Rightarrow> snd e)" if "unique_keys fst es" for es :: "(string \<times> int list) list" and w
    using that
  proof (induction es)
    case (Cons e es)
    have "k \<notin> fst ` set (filter (\<lambda>e. snd e \<noteq> []) (map (\<lambda>e. (fst e, filter (\<lambda>t. now - w < t) (snd e))) es))" if "fst e = k"
      using Cons.prems that by force
    with Cons show ?case by (auto simp: row_of_None_iff [symmetric])
  qed simp
  then show "unique_keys fst (rl_hits l) \<Longrightarrow> hits_in (sweep l now) k = filter (\<lambda>t. now - rl_window l < t) (hits_in l k)"
    by (simp add: hits_in_def hits_of_key_def sweep_def)
qed

lemma unique_sweep: "unique_keys fst (rl_hits l) \<Longrightarrow> unique_keys fst (rl_hits (sweep l now))"
  by (simp add: sweep_def unique_keys_def comp_def distinct_map_filter)

definition NEW_LIMITER :: "nat \<Rightarrow> int \<Rightarrow> limiter" where
  "NEW_LIMITER m w = \<lparr>rl_max = m, rl_window = w, rl_hits = []\<rparr>"

text \<open>
  Calls that take a hit or give one back.  Beside the limiter a run has the hits that were allowed, and those of them that
  were not given back: a return takes the newest hit of its key.
\<close>

datatype call = Take string int | Give string

record books =
  bk_limiter :: limiter
  bk_allowed :: "(string \<times> int) list"
  bk_kept :: "(string \<times> int) list"

fun drop_first :: "('a \<Rightarrow> bool) \<Rightarrow> 'a list \<Rightarrow> 'a list" where
  "drop_first P [] = []"
| "drop_first P (x # xs) = (if P x then xs else x # drop_first P xs)"

definition drop_newest :: "string \<Rightarrow> (string \<times> int) list \<Rightarrow> (string \<times> int) list" where
  "drop_newest k acc = rev (drop_first (\<lambda>e. fst e = k) (rev acc))"

fun call_step :: "call \<Rightarrow> books \<Rightarrow> books" where
  "call_step (Take k now) b =
     (case take_hit (bk_limiter b) k now of
        (l', r) \<Rightarrow> (if tr_ok r then \<lparr>bk_limiter = l', bk_allowed = bk_allowed b @ [(k, now)], bk_kept = bk_kept b @ [(k, now)]\<rparr>
                    else b\<lparr>bk_limiter := l'\<rparr>))"
| "call_step (Give k) b = b\<lparr>bk_limiter := give_hit (bk_limiter b) k, bk_kept := drop_newest k (bk_kept b)\<rparr>"

definition call_run :: "limiter \<Rightarrow> call list \<Rightarrow> books" where
  "call_run l calls = fold call_step calls \<lparr>bk_limiter = l, bk_allowed = [], bk_kept = []\<rparr>"

definition call_times :: "call list \<Rightarrow> int list" where
  "call_times calls = List.map_filter (\<lambda>c. case c of Take k t \<Rightarrow> Some t | Give k \<Rightarrow> None) calls"

definition gives :: "string \<Rightarrow> call list \<Rightarrow> nat" where
  "gives k calls = length (filter (\<lambda>c. c = Give k) calls)"

definition times_of :: "string \<Rightarrow> (string \<times> int) list \<Rightarrow> int list" where
  "times_of k acc = map snd (filter (\<lambda>e. fst e = k) acc)"

lemma map_filter_append: "List.map_filter f (xs @ ys) = List.map_filter f xs @ List.map_filter f ys"
  by (simp add: List.map_filter_def)

lemma times_of_append [simp]: "times_of k (acc @ [(j, t)]) = (if j = k then times_of k acc @ [t] else times_of k acc)"
  by (simp add: times_of_def)

lemma filter_drop_first: "filter P (drop_first Q xs) = (if \<forall>x. Q x \<longrightarrow> P x then drop_first Q (filter P xs) else filter P (drop_first Q xs))"
  by (induction xs) auto

lemma drop_first_tl: "list_all P xs \<Longrightarrow> drop_first P xs = tl xs"
  by (cases xs) auto

lemma filter_drop_first_other: "\<forall>x. Q x \<longrightarrow> \<not> P x \<Longrightarrow> filter P (drop_first Q xs) = filter P xs"
  by (induction xs) auto

lemma rev_tl_rev: "rev (tl (rev xs)) = butlast xs"
  by (metis butlast_rev rev_swap)

lemma times_of_drop [simp]: "times_of k (drop_newest j acc) = (if j = k then butlast (times_of k acc) else times_of k acc)"
proof (cases "j = k")
  case True
  have "filter (\<lambda>e. fst e = k) (drop_first (\<lambda>e. fst e = k) (rev acc)) = tl (filter (\<lambda>e. fst e = k) (rev acc))"
    using drop_first_tl [of "\<lambda>e. fst e = k" "filter (\<lambda>e. fst e = k) (rev acc)"] filter_drop_first [of "\<lambda>e. fst e = k" "\<lambda>e. fst e = k" "rev acc"]
    by (simp add: list_all_iff)
  then show ?thesis using True by (simp add: times_of_def drop_newest_def rev_filter [symmetric] map_butlast [symmetric] rev_tl_rev)
next
  case False
  then show ?thesis by (simp add: times_of_def drop_newest_def rev_filter [symmetric] filter_drop_first_other)
qed

text \<open>What the limiter holds of a key is the kept hits but for expired ones at the front.\<close>

definition remembers :: "limiter \<Rightarrow> (string \<times> int) list \<Rightarrow> int \<Rightarrow> bool" where
  "remembers l kept now \<longleftrightarrow> unique_keys fst (rl_hits l) \<and>
     (\<forall>k. sorted (times_of k kept) \<and> (\<forall>t \<in> set (times_of k kept). t \<le> now) \<and>
       (\<exists>old. times_of k kept = old @ hits_in l k \<and> (\<forall>t \<in> set old. t \<le> now - rl_window l)))"

lemma remembers_later: "remembers l kept now \<Longrightarrow> now \<le> later \<Longrightarrow> remembers l kept later"
  by (fastforce simp: remembers_def)

lemma sorted_live: "sorted xs \<Longrightarrow> \<exists>old. xs = old @ filter (\<lambda>t. c < t) xs \<and> (\<forall>t \<in> set old. t \<le> c)" for c :: int
proof (induction xs)
  case (Cons x xs)
  show ?case
  proof (cases "c < x")
    case True
    then have "\<forall>t \<in> set xs. c < t" using Cons.prems by auto
    then have "filter (\<lambda>t. c < t) (x # xs) = x # xs" using True by (simp add: filter_id_conv)
    then show ?thesis by (intro exI [of _ "[]"]) simp
  next
    case False
    with Cons obtain old where old: "xs = old @ filter (\<lambda>t. c < t) xs" "\<forall>t \<in> set old. t \<le> c" by auto
    then have "x # xs = (x # old) @ filter (\<lambda>t. c < t) (x # xs)" using False by simp
    with old False show ?thesis by (intro exI [of _ "x # old"]) auto
  qed
qed simp

lemma remembersD:
  assumes "remembers l kept now"
  shows "sorted (times_of k kept)" "\<forall>t \<in> set (times_of k kept). t \<le> now"
    "\<exists>old. times_of k kept = old @ hits_in l k \<and> (\<forall>t \<in> set old. t \<le> now - rl_window l)"
  using assms unfolding remembers_def by blast+

lemma remembersI:
  assumes "unique_keys fst (rl_hits l)"
    and "\<And>k. sorted (times_of k kept)" "\<And>k t. t \<in> set (times_of k kept) \<Longrightarrow> t \<le> now"
    and "\<And>k. \<exists>old. times_of k kept = old @ hits_in l k \<and> (\<forall>t \<in> set old. t \<le> now - rl_window l)"
  shows "remembers l kept now"
  using assms unfolding remembers_def by blast

lemma remembers_live:
  "remembers l kept now \<Longrightarrow> filter (\<lambda>t. now - rl_window l < t) (hits_in l k) = filter (\<lambda>t. now - rl_window l < t) (times_of k kept)"
proof -
  assume "remembers l kept now"
  from remembersD [OF this, of k] obtain old where "times_of k kept = old @ hits_in l k" "\<forall>t \<in> set old. t \<le> now - rl_window l" by blast
  moreover from this have "filter (\<lambda>t. now - rl_window l < t) old = []" by (auto simp: filter_empty_conv)
  ultimately show ?thesis by simp
qed

lemma remembers_keep:
  assumes "remembers l kept now" "unique_keys fst (rl_hits l')" "rl_window l' = rl_window l"
    and "\<And>k. hits_in l' k = hits_in l k \<or> hits_in l' k = filter (\<lambda>t. now - rl_window l < t) (hits_in l k)"
  shows "remembers l' kept now"
proof -
  have "\<exists>old. times_of k kept = old @ hits_in l' k \<and> (\<forall>t \<in> set old. t \<le> now - rl_window l)" for k
  proof -
    note k = remembersD [OF assms(1), of k]
    from k(3) obtain old where old: "times_of k kept = old @ hits_in l k" "\<forall>t \<in> set old. t \<le> now - rl_window l" by blast
    with k(1) have "sorted (hits_in l k)" by (simp add: sorted_append)
    from sorted_live [OF this, of "now - rl_window l"] obtain new
      where "hits_in l k = new @ filter (\<lambda>t. now - rl_window l < t) (hits_in l k)" "\<forall>t \<in> set new. t \<le> now - rl_window l" by blast
    with old assms(4) [of k] show ?thesis by (metis Un_iff append_assoc set_append)
  qed
  with assms(1-3) show ?thesis by (intro remembersI) (use remembersD [OF assms(1)] in simp_all)
qed

lemma filter_later:
  fixes w :: int
  assumes "now \<le> later"
  shows "filter (\<lambda>t. now - w < t \<and> later - w < t) xs = filter (\<lambda>t. later - w < t) xs"
  using assms by (auto intro: filter_cong)

lemma unique_set_hits: "unique_keys fst (rl_hits l) \<Longrightarrow> unique_keys fst (rl_hits (set_hits l e))"
  by (simp add: set_hits_def)

lemma unique_drop_hits: "unique_keys fst (rl_hits l) \<Longrightarrow> unique_keys fst (rl_hits (drop_hits l k))"
  by (simp add: drop_hits_def delete_key_def unique_keys_def distinct_map_filter)

lemma remembers_sweep: "remembers l kept now \<Longrightarrow> remembers (sweep l now) kept now"
  by (rule remembers_keep) (auto simp: live_sweep unique_sweep remembers_def)

lemma take_hit_cases:
  assumes "remembers l kept now" "take_hit l k now = (l', r)"
  shows "(tr_ok r \<longleftrightarrow> length (filter (\<lambda>t. now - rl_window l < t) (times_of k kept)) < rl_max l) \<and>
    remembers l' (if tr_ok r then kept @ [(k, now)] else kept) now \<and> rl_max l' = rl_max l \<and> rl_window l' = rl_window l \<and>
    (\<not> tr_ok r \<longrightarrow> tr_retry r = (case filter (\<lambda>t. now - rl_window l < t) (times_of k kept) of
       [] \<Rightarrow> None | t # _ \<Rightarrow> Some (max 1 \<lceil>of_int (t - (now - rl_window l)) / (1000 :: rat)\<rceil>)))"
proof -
  define l1 where "l1 = (if 1024 < length (rl_hits l) then sweep l now else l)"
  have l1: "remembers l1 kept now" "rl_max l1 = rl_max l" "rl_window l1 = rl_window l"
    using assms(1) remembers_sweep by (auto simp: l1_def)
  note live = remembers_live [OF l1(1), of k, unfolded l1(3)]
  let ?live = "filter (\<lambda>t. now - rl_window l < t) (hits_in l1 k)"
  have kept: "remembers (set_hits l1 (k, ?live)) kept now"
    by (rule remembers_keep [OF l1(1)]) (use l1 in \<open>auto simp: unique_set_hits remembers_def\<close>)
  have "remembers (set_hits l1 (k, ?live @ [now])) (kept @ [(k, now)]) now"
  proof (rule remembersI)
    show "unique_keys fst (rl_hits (set_hits l1 (k, ?live @ [now])))" using l1(1) by (simp add: unique_set_hits remembers_def)
    show "\<exists>old. times_of j (kept @ [(k, now)]) = old @ hits_in (set_hits l1 (k, ?live @ [now])) j \<and>
        (\<forall>t \<in> set old. t \<le> now - rl_window (set_hits l1 (k, ?live @ [now])))" for j
      using remembersD(3) [OF kept, of j] by (cases "k = j") auto
  qed (use remembersD(1,2) [OF kept] in \<open>auto simp: sorted_append split: if_splits\<close>)
  with assms(2) l1 live show ?thesis
    by (auto simp: take_hit_def l1_def [symmetric] Let_def split: if_splits list.split)
qed

lemma hits_in_give: "hits_in (give_hit l k) j = (if j = k then butlast (hits_in l k) else hits_in l j)"
  by (auto simp: give_hit_def hits_in_def hits.find_put hits.find_del split: option.splits dest: row_of_SomeD)

lemma remembers_give:
  assumes "remembers l kept now"
  shows "remembers (give_hit l k) (drop_newest k kept) now"
proof -
  have "unique_keys fst (rl_hits l)" using assms by (simp add: remembers_def)
  then have fields: "rl_window (give_hit l k) = rl_window l" "unique_keys fst (rl_hits (give_hit l k))"
    by (simp_all add: give_hit_def unique_set_hits unique_drop_hits drop_hits_def split: option.split)
  have "\<exists>old. butlast (times_of k kept) = old @ butlast (hits_in l k) \<and> (\<forall>t \<in> set old. t \<le> now - rl_window l)"
  proof -
    from remembersD(3) [OF assms, of k] obtain old where old: "times_of k kept = old @ hits_in l k" "\<forall>t \<in> set old. t \<le> now - rl_window l" by blast
    show ?thesis
    proof (cases "hits_in l k = []")
      case True
      with old show ?thesis by (intro exI [of _ "butlast old"]) (auto dest: in_set_butlastD)
    next
      case False
      with old show ?thesis by (intro exI [of _ old]) (simp add: butlast_append)
    qed
  qed
  moreover have "sorted (butlast xs)" if "sorted xs" for xs :: "int list" using that by (simp add: sorted_butlast)
  moreover have "t \<in> set (times_of j (drop_newest k kept)) \<Longrightarrow> t \<le> now" for t j
    using remembersD(2) [OF assms, of j] in_set_butlastD [of t "times_of j kept"] by (simp split: if_splits)
  ultimately show ?thesis using fields remembersD(1,3) [OF assms] by (intro remembersI) (auto simp: hits_in_give)
qed

lemma NEW_LIMITER_remembers: "remembers (NEW_LIMITER m w) [] now"
  by (simp add: remembers_def NEW_LIMITER_def hits_in_def hits_of_key_def times_of_def)

text \<open>No window of the limiter's length holds more kept hits than the limit, and at most as many more allowed ones as were given back.\<close>

lemma length_filter_butlast: "length (filter P xs) \<le> Suc (length (filter P (butlast xs))) \<and> length (filter P (butlast xs)) \<le> length (filter P xs)"
  by (cases xs rule: rev_cases) auto

lemma call_run_bound:
  assumes "sorted (call_times calls)" "\<forall>t \<in> set (call_times calls). t \<le> now"
  shows "let b = call_run (NEW_LIMITER m w) calls
    in remembers (bk_limiter b) (bk_kept b) now \<and> rl_max (bk_limiter b) = m \<and> rl_window (bk_limiter b) = w \<and>
       length (filter (\<lambda>t. s < t \<and> t \<le> s + w) (times_of k (bk_kept b))) \<le> m \<and>
       length (filter P (times_of k (bk_allowed b))) \<le> length (filter P (times_of k (bk_kept b))) + gives k calls"
  using assms
proof (induction calls arbitrary: now rule: rev_induct)
  case Nil
  then show ?case by (simp add: call_run_def NEW_LIMITER_remembers times_of_def) (simp add: NEW_LIMITER_def)
next
  case (snoc x calls)
  define b where "b = call_run (NEW_LIMITER m w) calls"
  have step: "call_run (NEW_LIMITER m w) (calls @ [x]) = call_step x b" by (simp add: call_run_def b_def)
  show ?case
  proof (cases x)
    case (Give j)
    have "sorted (call_times calls)" "\<forall>t \<in> set (call_times calls). t \<le> now"
      using snoc.prems by (simp_all add: call_times_def Give map_filter_simps map_filter_append)
    from snoc.IH [OF this, folded b_def]
    have IH: "remembers (bk_limiter b) (bk_kept b) now" "rl_max (bk_limiter b) = m" "rl_window (bk_limiter b) = w"
      "length (filter (\<lambda>t. s < t \<and> t \<le> s + w) (times_of k (bk_kept b))) \<le> m"
      "length (filter P (times_of k (bk_allowed b))) \<le> length (filter P (times_of k (bk_kept b))) + gives k calls"
      by (simp_all add: Let_def)
    have "rl_max (give_hit l j) = rl_max l \<and> rl_window (give_hit l j) = rl_window l" for l
      by (simp add: give_hit_def drop_hits_def split: option.split)
    moreover note remembers_give [OF IH(1), of j] IH(2-5) length_filter_butlast [of "\<lambda>t. s < t \<and> t \<le> s + w" "times_of k (bk_kept b)"]
      length_filter_butlast [of P "times_of k (bk_kept b)"]
    ultimately show ?thesis unfolding step [unfolded Give] Give Let_def by (auto simp: gives_def)
  next
    case (Take j u)
    obtain l' r where hit: "take_hit (bk_limiter b) j u = (l', r)" by (cases "take_hit (bk_limiter b) j u")
    have "sorted (call_times calls)" "\<forall>t \<in> set (call_times calls). t \<le> u" and "u \<le> now"
      using snoc.prems by (simp_all add: call_times_def Take map_filter_simps map_filter_append sorted_append)
    from snoc.IH [OF this(1,2), folded b_def]
    have IH: "remembers (bk_limiter b) (bk_kept b) u" "rl_max (bk_limiter b) = m" "rl_window (bk_limiter b) = w"
      "length (filter (\<lambda>t. s < t \<and> t \<le> s + w) (times_of k (bk_kept b))) \<le> m"
      "length (filter P (times_of k (bk_allowed b))) \<le> length (filter P (times_of k (bk_kept b))) + gives k calls"
      by (simp_all add: Let_def)
    note c = take_hit_cases [OF IH(1) hit]
    have "length (filter (\<lambda>t. s < t \<and> t \<le> s + w) (times_of k (bk_kept b @ [(j, u)]))) \<le> m" if ok: "tr_ok r"
    proof (cases "j = k \<and> s < u \<and> u \<le> s + w")
      case True
      have "length (filter (\<lambda>t. s < t \<and> t \<le> s + w) (times_of k (bk_kept b))) \<le> length (filter (\<lambda>t. u - w < t) (times_of k (bk_kept b)))"
        using True by (induction "times_of k (bk_kept b)") (auto simp: length_filter_conv_card intro!: card_mono)
      with True c ok IH(2,3) show ?thesis by simp
    qed (use IH(4) in auto)
    with c IH remembers_later [OF _ \<open>u \<le> now\<close>] show ?thesis
      unfolding step [unfolded Take] Take Let_def by (cases "tr_ok r") (auto simp: hit gives_def)
  qed
qed

lemmas limiter_eval = call_run_def take_hit_def NEW_LIMITER_def set_hits_def hits_in_def hits_of_key_def

text \<open>
  \<open>give\<close> drops the newest hit, whoever took it.  With two a minute: one call at 0 s, another at 50 s; the first one
  gives its hit back, and at 61 s two more are allowed, the third kept within eleven seconds.
\<close>

lemma give_drops_the_newest:
  "(let l1 = fst (take_hit (NEW_LIMITER 2 60000) ''a'' 0); l2 = fst (take_hit l1 ''a'' 50000); l3 = give_hit l2 ''a'';
        (l4, r4) = take_hit l3 ''a'' 61000; (l5, r5) = take_hit l4 ''a'' 61000
    in tr_ok r4 \<and> tr_ok r5)"
  by (simp add: limiter_eval give_hit_def)

text \<open>A client that is refused and waits as long as it is told.\<close>

lemma refused_waits:
  assumes l: "remembers l kept now" "rl_max l = m" "rl_window l = w" and hit: "take_hit l k now = (l', r)" and no: "\<not> tr_ok r" and m: "0 < m"
    and most: "length (filter (\<lambda>t. now - w < t) (times_of k kept)) \<le> m"
  shows "\<exists>wait. tr_retry r = Some wait \<and> 1 \<le> wait \<and> tr_ok (snd (take_hit l' k (now + 1000 * wait)))"
proof -
  note c = take_hit_cases [OF l(1) hit]
  let ?live = "filter (\<lambda>t. now - w < t) (times_of k kept)"
  have full: "m \<le> length ?live" using c no l(2,3) by auto
  obtain t0 rest where live: "?live = t0 # rest" using full m by (cases ?live) auto
  define wait where "wait = max 1 \<lceil>of_int (t0 - (now - w)) / (1000 :: rat)\<rceil>"
  have retry: "tr_retry r = Some wait" using c no l(3) live by (simp add: wait_def)
  have "rat_of_int (t0 - (now - w)) / 1000 \<le> of_int wait"
    unfolding wait_def by (rule order.trans [OF le_of_int_ceiling]) simp
  then have "rat_of_int (t0 - (now - w)) \<le> rat_of_int (1000 * wait)" by simp
  then have dead: "t0 \<le> now + 1000 * wait - w" by (simp only: of_int_le_iff)
  have w1: "1 \<le> wait" by (simp add: wait_def)
  obtain l2 r2 where hit2: "take_hit l' k (now + 1000 * wait) = (l2, r2)" by (cases "take_hit l' k (now + 1000 * wait)")
  have "remembers l' kept now" using c no by simp
  then have "remembers l' kept (now + 1000 * wait)" by (rule remembers_later) (use w1 in simp)
  note c2 = take_hit_cases [OF this hit2]
  have "filter (\<lambda>t. now + 1000 * wait - w < t) (times_of k kept) = filter (\<lambda>t. now + 1000 * wait - w < t) ?live"
    using filter_later [of now "now + 1000 * wait" w "times_of k kept"] w1 by simp
  also have "length \<dots> \<le> length rest" using dead by (simp add: live)
  finally have "length (filter (\<lambda>t. now + 1000 * wait - w < t) (times_of k kept)) < m"
    using most live by simp
  with c2 c l hit2 w1 retry show ?thesis by auto
qed

section \<open>Properties\<close>

text \<open>
  C17: The limiter limits.  For calls that take hits and give them back, with times that do not go back: no interval of the
  window's length contains more than the maximum of hits of one key that were not given back, nor more allowed calls than
  the maximum and one for each return; a call is refused only when the last window already contains the maximum of hits
  not given back; and a client that is refused and waits the time it is told, while nobody calls, is let through.
\<close>

theorem limiter_limits:
  assumes "sorted (call_times calls)" "\<forall>t \<in> set (call_times calls). t \<le> now" "0 < m"
    and "call_run (NEW_LIMITER m w) calls = b" "take_hit (bk_limiter b) k now = (l', r)"
  shows "length (filter (\<lambda>t. s < t \<and> t \<le> s + w) (times_of k (bk_kept b))) \<le> m \<and>
    length (filter (\<lambda>t. s < t \<and> t \<le> s + w) (times_of k (bk_allowed b))) \<le> m + gives k calls \<and>
    (tr_ok r \<longleftrightarrow> length (filter (\<lambda>t. now - w < t \<and> t \<le> now) (times_of k (bk_kept b))) < m) \<and>
    (\<not> tr_ok r \<longrightarrow> (\<exists>wait. tr_retry r = Some wait \<and> 1 \<le> wait \<and> tr_ok (snd (take_hit l' k (now + 1000 * wait)))))"
proof -
  note bound = call_run_bound [OF assms(1,2), of m w, unfolded assms(4) Let_def]
  have l: "remembers (bk_limiter b) (bk_kept b) now" "rl_max (bk_limiter b) = m" "rl_window (bk_limiter b) = w" using bound by blast+
  have win: "length (filter (\<lambda>t. s < t \<and> t \<le> s + w) (times_of k (bk_kept b))) \<le> m" for s using bound by blast
  have all: "length (filter (\<lambda>t. s < t \<and> t \<le> s + w) (times_of k (bk_allowed b))) \<le> m + gives k calls"
    using bound [of s k "\<lambda>t. s < t \<and> t \<le> s + w"] by linarith
  note c = take_hit_cases [OF l(1) assms(5)]
  have past: "\<forall>t \<in> set (times_of k (bk_kept b)). t \<le> now" using l(1) by (auto simp: remembers_def)
  then have eq: "filter (\<lambda>t. now - w < t \<and> t \<le> now) (times_of k (bk_kept b)) = filter (\<lambda>t. now - w < t) (times_of k (bk_kept b))"
    by (auto intro: filter_cong)
  have "\<exists>wait. tr_retry r = Some wait \<and> 1 \<le> wait \<and> tr_ok (snd (take_hit l' k (now + 1000 * wait)))" if no: "\<not> tr_ok r"
    using refused_waits [OF l assms(5) no assms(3)] win [of "now - w"] eq by (simp add: conj_commute)
  with win [of s] all c l eq show ?thesis by simp
qed

theorem limiter_limits_witness:
  "\<exists>b l' r. call_run (NEW_LIMITER 2 60000) [Take ''a'' 0, Take ''b'' 5, Take ''a'' 10, Take ''a'' 20, Give ''a'', Take ''a'' 30] = b \<and>
     times_of ''a'' (bk_allowed b) = [0, 10, 30] \<and> times_of ''a'' (bk_kept b) = [0, 30] \<and>
     take_hit (bk_limiter b) ''a'' 1000 = (l', r) \<and> tr_retry r = Some 59 \<and> tr_ok (snd (take_hit l' ''a'' 60000))"
proof -
  let ?calls = "[Take ''a'' 0, Take ''b'' 5, Take ''a'' 10, Take ''a'' 20, Give ''a'', Take ''a'' 30]"
  obtain b where run: "call_run (NEW_LIMITER 2 60000) ?calls = b" by simp
  obtain l' r where hit: "take_hit (bk_limiter b) ''a'' 1000 = (l', r)" by (cases "take_hit (bk_limiter b) ''a'' 1000")
  have e: "times_of ''a'' (bk_allowed b) = [0, 10, 30]" "times_of ''a'' (bk_kept b) = [0, 30]" "\<not> tr_ok r" "tr_retry r = Some 59"
    using run hit by (auto simp: limiter_eval times_of_def give_hit_def drop_newest_def)
  have "sorted (call_times ?calls)" "\<forall>t \<in> set (call_times ?calls). t \<le> 1000" by (simp_all add: call_times_def map_filter_simps)
  from limiter_limits [OF this _ run hit] e run hit show ?thesis by auto
qed

end
