(* ===== verification/Kanban.thy ===== *)
theory Kanban
  imports Table Similarity
begin

text \<open>
  The bot's board (src/kanban.ts): cards with one assignee at most, links between cards, search, the \<open>kanban\<close>
  command and its arguments, and the report of a subagent that ends.  The tables are lists of rows in insertion order;
  rows with the same time keep that order in a listing.  The clock and the fresh identifier are arguments; JSON output
  is kept as the value it prints.
\<close>

section \<open>Cards\<close>

definition COLUMNS :: "string list" where
  "COLUMNS = [''backlog'', ''doing'', ''review'', ''done'', ''blocked'']"

record card =
  kc_id :: string
  kc_session :: string
  kc_title :: string
  kc_description :: string
  kc_column :: string
  kc_assignee :: string
  kc_result :: string
  kc_notes :: "string list"
  kc_created :: int
  kc_updated :: int

datatype snapshot = CardNow card | LinkNow string string string

record board_event =
  be_entity :: string
  be_kind :: string
  be_snapshot :: snapshot
  be_at :: int

record board =
  kb_cards :: "card list"
  kb_links :: "(string \<times> string \<times> string) list"
  kb_events :: "board_event list"

definition EMPTY_BOARD :: board where
  "EMPTY_BOARD = \<lparr>kb_cards = [], kb_links = [], kb_events = []\<rparr>"

definition get_card :: "board \<Rightarrow> string \<Rightarrow> card option" where
  "get_card b i = row_of kc_id i (kb_cards b)"

definition put_card :: "board \<Rightarrow> card \<Rightarrow> board" where
  "put_card b c = b\<lparr>kb_cards := upsert kc_id c (kb_cards b)\<rparr>"

definition record_event :: "board \<Rightarrow> string \<Rightarrow> string \<Rightarrow> snapshot \<Rightarrow> int \<Rightarrow> board" where
  "record_event b entity kind snap now =
     b\<lparr>kb_events := kb_events b @ [\<lparr>be_entity = entity, be_kind = kind, be_snapshot = snap, be_at = now\<rparr>]\<rparr>"

record new_card =
  nc_title :: string
  nc_description :: "string option"
  nc_column :: "string option"
  nc_self :: bool

definition or_else :: "'a option \<Rightarrow> 'a \<Rightarrow> 'a" where
  "or_else v d = (case v of None \<Rightarrow> d | Some x \<Rightarrow> x)"

text \<open>\<^const>\<open>None\<close> is the exception of the database for an identifier that is taken.\<close>

definition add_card :: "board \<Rightarrow> string \<Rightarrow> new_card \<Rightarrow> string \<Rightarrow> int \<Rightarrow> (board \<times> card) option" where
  "add_card b session f fresh now =
     (if get_card b fresh \<noteq> None then None
      else (let c = \<lparr>kc_id = fresh, kc_session = session, kc_title = slice_to 200 (nc_title f),
                kc_description = slice_to 4000 (or_else (nc_description f) []),
                kc_column = (if nc_self f then ''doing'' else or_else (nc_column f) ''backlog''),
                kc_assignee = (if nc_self f then fresh else []), kc_result = [], kc_notes = [], kc_created = now, kc_updated = now\<rparr>
            in Some (record_event (put_card b c) fresh ''card.created'' (CardNow c) now, c)))"

definition newest_first :: "card list \<Rightarrow> card list" where
  "newest_first cs = sort_stable (\<lambda>x y. kc_updated y < kc_updated x) cs"

definition all_cards :: "board \<Rightarrow> nat \<Rightarrow> card list" where
  "all_cards b limit = take limit (newest_first (kb_cards b))"

definition given :: "string option \<Rightarrow> bool" where
  "given v = (v \<noteq> None \<and> v \<noteq> Some [])"

definition list_cards :: "board \<Rightarrow> string \<Rightarrow> string option \<Rightarrow> card list" where
  "list_cards b session column =
     newest_first (filter (\<lambda>c. kc_session c = session \<and> (given column \<longrightarrow> column = Some (kc_column c))) (kb_cards b))"

record card_patch =
  cp_column :: "string option"
  cp_assignee :: "string option"
  cp_result :: "string option"
  cp_note :: "string option"
  cp_title :: "string option"
  cp_description :: "string option"

definition NO_PATCH :: card_patch where
  "NO_PATCH = \<lparr>cp_column = None, cp_assignee = None, cp_result = None, cp_note = None, cp_title = None, cp_description = None\<rparr>"

definition patched :: "card \<Rightarrow> card_patch \<Rightarrow> int \<Rightarrow> card" where
  "patched c f now =
     c\<lparr>kc_title := or_else (cp_title f) (kc_title c), kc_description := or_else (cp_description f) (kc_description c),
       kc_column := or_else (cp_column f) (kc_column c), kc_assignee := or_else (cp_assignee f) (kc_assignee c),
       kc_result := slice_to 8000 (or_else (cp_result f) (kc_result c)),
       kc_notes := (if given (cp_note f) then last_n 30 (kc_notes c @ [slice_to 1000 (or_else (cp_note f) [])]) else kc_notes c),
       kc_updated := now\<rparr>"

definition patch_card :: "board \<Rightarrow> string \<Rightarrow> card_patch \<Rightarrow> int \<Rightarrow> (board \<times> card) option" where
  "patch_card b i f now =
     (case get_card b i of
        None \<Rightarrow> None
      | Some c \<Rightarrow> Some (record_event (put_card b (patched c f now)) i ''card.updated'' (CardNow (patched c f now)) now, patched c f now))"

text \<open>\<open>INSERT OR REPLACE\<close>: the row that had the key is deleted and the new one comes last.\<close>

definition link_cards :: "board \<Rightarrow> string \<Rightarrow> string \<Rightarrow> string \<Rightarrow> int \<Rightarrow> board" where
  "link_cards b x y kind now =
     record_event (b\<lparr>kb_links := delete_key (\<lambda>(p, q, k). (p, q)) (x, y) (kb_links b) @ [(x, y, kind)]\<rparr>) x ''card.linked'' (LinkNow x y kind) now"

section \<open>Search\<close>

definition card_words :: "string \<Rightarrow> string list" where
  "card_words s = remdups (filter (\<lambda>w. 2 < length w)
     (split_runs (\<lambda>c. \<not> (is_lower_az c \<or> is_digit c)) (map unaccent (js_lower s))))"

record hit =
  ht_card :: card
  ht_score :: rat
  ht_via :: "string option"

definition card_text :: "card \<Rightarrow> string" where
  "card_text c = kc_title c @ '' '' @ kc_description c @ '' '' @ kc_result c @ '' '' @ join '' '' (kc_notes c)"

definition match_score :: "string list \<Rightarrow> card \<Rightarrow> rat" where
  "match_score q c =
     (if q = [] then 0 else of_nat (length (filter (\<lambda>t. t \<in> set (card_words (card_text c))) q)) / of_nat (length q))"

text \<open>The edges of one hit: the card at the other end comes in once, at half the score.\<close>

fun hop :: "board \<Rightarrow> hit \<Rightarrow> (string \<times> string \<times> string) list \<Rightarrow> hit list \<Rightarrow> hit list" where
  "hop b s [] acc = acc"
| "hop b s ((x, y, k) # es) acc =
     (if x \<noteq> kc_id (ht_card s) \<and> y \<noteq> kc_id (ht_card s) then hop b s es acc
      else (let other = (if x = kc_id (ht_card s) then y else x) in
        if other \<in> (\<lambda>h. kc_id (ht_card h)) ` set acc then hop b s es acc
        else (case get_card b other of
            None \<Rightarrow> hop b s es acc
          | Some c \<Rightarrow> hop b s es (acc @ [\<lparr>ht_card = c, ht_score = ht_score s / 2, ht_via = Some (kc_id (ht_card s))\<rparr>]))))"

definition direct_hits :: "board \<Rightarrow> string \<Rightarrow> string \<Rightarrow> nat \<Rightarrow> hit list" where
  "direct_hits b session query limit =
     take limit (sort_stable (\<lambda>x y. ht_score y < ht_score x) (filter (\<lambda>h. 0 < ht_score h)
       (map (\<lambda>c. \<lparr>ht_card = c, ht_score = match_score (card_words query) c, ht_via = None\<rparr>) (list_cards b session None))))"

definition search_cards :: "board \<Rightarrow> string \<Rightarrow> string \<Rightarrow> nat \<Rightarrow> hit list" where
  "search_cards b session query limit =
     take (limit + 4) (foldl (\<lambda>acc s. hop b s (kb_links b) acc) (direct_hits b session query limit)
       (take 4 (direct_hits b session query limit)))"

section \<open>The command\<close>

datatype action = AddCard | MoveCard | AssignCard | DoneCard | NoteCard | LinkCards | ListCards | ShowCard | SearchCards

record kanban_args =
  ka_action :: action
  ka_session :: "string option"
  ka_id :: "string option"
  ka_other :: "string option"
  ka_title :: "string option"
  ka_description :: "string option"
  ka_column :: "string option"
  ka_assignee :: "string option"
  ka_assign :: bool
  ka_text :: "string option"
  ka_json :: bool

datatype printed = Text string | CardJson card | CardsJson "card list" | HitsJson "hit list" | Complaint string

text \<open>The exit code, what was printed (\<^const>\<open>Complaint\<close> on stderr) and the board.\<close>

type_synonym outcome = "nat \<times> printed list \<times> board"

definition card_line :: "card \<Rightarrow> string" where
  "card_line c = kc_id c @ ''  ['' @ kc_column c @ '']'' @ (if kc_assignee c \<noteq> [] then '' @'' @ kc_assignee c else []) @
     ''  '' @ kc_title c"

definition no_card :: "board \<Rightarrow> string option \<Rightarrow> outcome" where
  "no_card b i = (2, [Complaint (''error: no card '' @ or_else i ''(missing id)'' @ nl)], b)"

definition need :: "board \<Rightarrow> string option \<Rightarrow> card option" where
  "need b i = (if given i then get_card b (or_else i []) else None)"

definition refuse :: "board \<Rightarrow> string \<Rightarrow> outcome" where
  "refuse b message = (2, [Complaint (''error: '' @ message @ nl)], b)"

definition add_command :: "kanban_args \<Rightarrow> string \<Rightarrow> string option \<Rightarrow> board \<Rightarrow> string \<Rightarrow> int \<Rightarrow> outcome option" where
  "add_command a session col b fresh now =
     (if js_trim (or_else (ka_title a) []) = [] then Some (refuse b ''add needs --title'')
      else if ka_assign a \<and> given col \<and> col \<noteq> Some ''doing''
        then Some (refuse b (''add --assign puts the card in doing; it conflicts with --column '' @ or_else col []))
      else map_option (\<lambda>(b', c). (0,
          [if ka_json a then CardJson c
           else Text (''card '' @ kc_id c @ '' added to '' @ kc_column c @ '': '' @ kc_title c @ nl)], b'))
        (add_card b session \<lparr>nc_title = or_else (ka_title a) [], nc_description = ka_description a,
           nc_column = (if ka_assign a then Some ''doing'' else col), nc_self = ka_assign a\<rparr> fresh now))"

text \<open>The patch of \<open>move\<close>, \<open>assign\<close>, \<open>done\<close> and \<open>note\<close>, or the complaint.\<close>

definition command_patch :: "kanban_args \<Rightarrow> string option \<Rightarrow> card \<Rightarrow> string + card_patch" where
  "command_patch a col c =
     (case ka_action a of
        MoveCard \<Rightarrow> (if \<not> given col then Inl ''move needs --column'' else Inr (NO_PATCH\<lparr>cp_column := col\<rparr>))
      | AssignCard \<Rightarrow>
          (let who = (if given (ka_assignee a) then or_else (ka_assignee a) [] else kc_id c)
           in if kc_assignee c \<noteq> [] \<and> kc_assignee c \<noteq> who \<and> kc_column c = ''doing''
              then Inl (''card already belongs to @'' @ kc_assignee c @ '': one task, one subagent'')
              else Inr (NO_PATCH\<lparr>cp_assignee := Some who, cp_column := Some ''doing''\<rparr>))
      | DoneCard \<Rightarrow> Inr (NO_PATCH\<lparr>cp_column := Some (or_else col ''done''), cp_result := (if given (ka_text a) then ka_text a else None)\<rparr>)
      | _ \<Rightarrow> (if \<not> given (ka_text a) then Inl ''note needs --text'' else Inr (NO_PATCH\<lparr>cp_note := ka_text a\<rparr>)))"

definition change_command :: "kanban_args \<Rightarrow> string option \<Rightarrow> board \<Rightarrow> int \<Rightarrow> outcome" where
  "change_command a col b now =
     (case need b (ka_id a) of
        None \<Rightarrow> no_card b (ka_id a)
      | Some c \<Rightarrow>
          (case command_patch a col c of
             Inl message \<Rightarrow> refuse b message
           | Inr patch \<Rightarrow>
               (case patch_card b (kc_id c) patch now of
                  None \<Rightarrow> (0, [], b)
                | Some (b', u) \<Rightarrow> (0, [if ka_json a then CardJson u else Text (card_line u @ nl)], b'))))"

definition link_command :: "kanban_args \<Rightarrow> board \<Rightarrow> int \<Rightarrow> outcome" where
  "link_command a b now =
     (if need b (ka_id a) = None then no_card b (ka_id a)
      else if need b (ka_other a) = None then no_card b (ka_other a)
      else (0, [Text (''linked '' @ or_else (ka_id a) [] @ '' <-> '' @ or_else (ka_other a) [] @ nl)],
        link_cards b (or_else (ka_id a) []) (or_else (ka_other a) []) ''related'' now))"

definition show_command :: "kanban_args \<Rightarrow> board \<Rightarrow> outcome" where
  "show_command a b =
     (case need b (ka_id a) of
        None \<Rightarrow> no_card b (ka_id a)
      | Some c \<Rightarrow> (0, [if ka_json a then CardJson c
          else Text (card_line c @ nl @ (if kc_description c \<noteq> [] then kc_description c @ nl else []) @
            (if kc_result c \<noteq> [] then ''result: '' @ kc_result c @ nl else []) @
            join nl (map (\<lambda>n. ''- '' @ n) (kc_notes c)) @ (if kc_notes c \<noteq> [] then nl else []))], b))"

definition hit_line :: "hit \<Rightarrow> string" where
  "hit_line h = card_line (ht_card h) @
     (if given (ht_via h) then ''   (linked to '' @ or_else (ht_via h) [] @ '')'' else []) @
     (if kc_result (ht_card h) \<noteq> [] then nl @ ''    result: '' @ slice_to 200 (kc_result (ht_card h)) else [])"

definition search_command :: "kanban_args \<Rightarrow> string \<Rightarrow> board \<Rightarrow> outcome" where
  "search_command a session b =
     (let hits = search_cards b session (or_else (ka_text a) (or_else (ka_title a) [])) 8
      in (0, [if ka_json a then HitsJson hits
          else Text (if hits \<noteq> [] then join nl (map hit_line hits) @ nl else ''no related cards'' @ nl)], b))"

definition column_title :: "string \<Rightarrow> string" where
  "column_title c = map (\<lambda>x. if is_lower_az x then char_of ((of_char x :: nat) - 32) else x) c"

definition column_section :: "card list \<Rightarrow> string \<Rightarrow> printed list" where
  "column_section cards c =
     (let here = filter (\<lambda>x. kc_column x = c) cards
      in if here = [] then [] else [Text (column_title c @ nl @ join nl (map (\<lambda>x. ''  '' @ card_line x) here) @ nl)])"

definition list_command :: "kanban_args \<Rightarrow> string \<Rightarrow> string option \<Rightarrow> board \<Rightarrow> outcome" where
  "list_command a session col b =
     (let cards = list_cards b session col
      in (0, if ka_json a then [CardsJson cards] else if cards = [] then [Text (''the board is empty'' @ nl)]
          else concat (map (column_section cards) COLUMNS), b))"

text \<open>
  \<open>kanbanCommand\<close>: \<open>session\<close> is what \<open>resolve\<close> found.  \<^const>\<open>None\<close> is the exception of a taken identifier.
\<close>

definition kanban_command :: "kanban_args \<Rightarrow> string option \<Rightarrow> string \<Rightarrow> int \<Rightarrow> board \<Rightarrow> outcome option" where
  "kanban_command a session fresh now b =
     (if \<not> given session \<and> ka_action a \<in> {AddCard, ListCards, SearchCards}
        then Some (refuse b ''cannot tell which bot this board is for: pass --session <id>, or run inside a mini-tui session'')
      else if given (ka_column a) \<and> or_else (ka_column a) [] \<notin> set COLUMNS
        then Some (refuse b (''column must be one of '' @ join '', '' COLUMNS))
      else if ka_assign a \<and> ka_action a \<noteq> AddCard then Some (refuse b ''--assign only applies to kanban add'')
      else (case ka_action a of
          AddCard \<Rightarrow> add_command a (or_else session []) (ka_column a) b fresh now
        | LinkCards \<Rightarrow> Some (link_command a b now)
        | ShowCard \<Rightarrow> Some (show_command a b)
        | SearchCards \<Rightarrow> Some (search_command a (or_else session []) b)
        | ListCards \<Rightarrow> Some (list_command a (or_else session []) (ka_column a) b)
        | _ \<Rightarrow> Some (change_command a (ka_column a) b now)))"

section \<open>The arguments\<close>

datatype usage_error =
    NeedsValue string
  | NotANumber string string
  | UnknownOption string string
  | UnknownAction string
  | Usage string

definition take_value :: "string \<Rightarrow> string list \<Rightarrow> usage_error + string" where
  "take_value flag rest = (case rest of v # _ \<Rightarrow> (if v = [] then Inl (NeedsValue flag) else Inr v) | [] \<Rightarrow> Inl (NeedsValue flag))"

text \<open>The options of \<open>kanban\<close> that take a value.\<close>

datatype kanban_field = SessionField | TitleField | DescriptionField | ColumnField | AssigneeField | TextField

definition kanban_option :: "string \<Rightarrow> kanban_field option" where
  "kanban_option x = map_of
     [(''--session'', SessionField), (''-s'', SessionField), (''--title'', TitleField), (''--description'', DescriptionField),
      (''--desc'', DescriptionField), (''--column'', ColumnField), (''--to'', ColumnField), (''--assignee'', AssigneeField),
      (''--agent'', AssigneeField), (''--text'', TextField), (''--result'', TextField)] x"

fun set_field :: "kanban_field \<Rightarrow> string \<Rightarrow> kanban_args \<Rightarrow> kanban_args" where
  "set_field SessionField v a = a\<lparr>ka_session := Some v\<rparr>"
| "set_field TitleField v a = a\<lparr>ka_title := Some v\<rparr>"
| "set_field DescriptionField v a = a\<lparr>ka_description := Some v\<rparr>"
| "set_field ColumnField v a = a\<lparr>ka_column := Some v\<rparr>"
| "set_field AssigneeField v a = a\<lparr>ka_assignee := Some v\<rparr>"
| "set_field TextField v a = a\<lparr>ka_text := Some v\<rparr>"

fun kanban_walk :: "string list \<Rightarrow> kanban_args \<Rightarrow> string list \<Rightarrow> usage_error + (kanban_args \<times> string list)" where
  "kanban_walk [] a pos = Inr (a, pos)"
| "kanban_walk (x # rest) a pos =
     (if x = ''--json'' then kanban_walk rest (a\<lparr>ka_json := True\<rparr>) pos
      else if x = ''--assign'' then kanban_walk rest (a\<lparr>ka_assign := True\<rparr>) pos
      else (case kanban_option x of
          Some f \<Rightarrow>
            (case take_value x rest of
               Inl e \<Rightarrow> Inl e
             | Inr v \<Rightarrow> kanban_walk (tl rest) (set_field f v a) pos)
        | None \<Rightarrow>
            (if take 1 x = ''-'' then Inl (UnknownOption ''kanban'' x)
             else kanban_walk rest a (pos @ [x]))))"

definition action_of :: "string \<Rightarrow> action option" where
  "action_of s = map_of [(''add'', AddCard), (''move'', MoveCard), (''assign'', AssignCard), (''done'', DoneCard), (''note'', NoteCard),
     (''link'', LinkCards), (''list'', ListCards), (''show'', ShowCard), (''search'', SearchCards)] s"

definition NO_ARGS :: kanban_args where
  "NO_ARGS = \<lparr>ka_action = ListCards, ka_session = None, ka_id = None, ka_other = None, ka_title = None, ka_description = None,
     ka_column = None, ka_assignee = None, ka_assign = False, ka_text = None, ka_json = False\<rparr>"

definition nth_of :: "nat \<Rightarrow> 'a list \<Rightarrow> 'a option" where
  "nth_of i xs = (if i < length xs then Some (xs ! i) else None)"

definition parse_kanban :: "string list \<Rightarrow> usage_error + kanban_args" where
  "parse_kanban rest =
     (case kanban_walk rest NO_ARGS [] of
        Inl e \<Rightarrow> Inl e
      | Inr (a, pos) \<Rightarrow>
          (let word = or_else (nth_of 0 pos) [] in
           if word \<noteq> [] \<and> action_of word = None then Inl (UnknownAction word)
           else (let a' = (if word \<noteq> [] then a\<lparr>ka_action := or_else (action_of word) ListCards\<rparr> else a);
                     i = nth_of 1 pos; other = nth_of 2 pos
                 in Inr (if ka_action a' = SearchCards \<and> given i \<and> \<not> given (ka_text a') then a'\<lparr>ka_text := Some (join '' '' (tl pos))\<rparr>
                         else a'\<lparr>ka_id := (if given i then i else ka_id a'), ka_other := (if given other then other else ka_other a')\<rparr>))))"

section \<open>The end of a subagent\<close>

definition settled_column :: "string \<Rightarrow> string \<Rightarrow> nat \<Rightarrow> string option" where
  "settled_column state exit_status steps =
     (if state = ''waiting'' then Some ''review''
      else if state = ''stopped'' \<or> state = ''exited''
        then Some (if 0 < steps \<and> (exit_status = [] \<or> exit_status = ''Submitted'') then ''done'' else ''blocked'')
      else None)"

text \<open>The card of the report: by identifier, else the one passed in (\<open>known\<close>), else the newest one assigned to that name.\<close>

definition reported_card :: "board \<Rightarrow> string \<Rightarrow> string \<Rightarrow> card option option \<Rightarrow> card option" where
  "reported_card b parent name known =
     (case get_card b name of
        Some c \<Rightarrow> Some c
      | None \<Rightarrow> (case known of None \<Rightarrow> find (\<lambda>c. kc_assignee c = name) (list_cards b parent None) | Some k \<Rightarrow> k))"

definition settle_result :: "card \<Rightarrow> string \<Rightarrow> string \<Rightarrow> nat \<Rightarrow> string" where
  "settle_result c state exit_status steps =
     (if kc_result c \<noteq> [] then kc_result c
      else if exit_status \<noteq> [] then ''subagent '' @ state @ '': '' @ exit_status
      else if steps = 0 then ''subagent '' @ state @ '' before taking a step'' else ''subagent '' @ state)"

definition settle_from_subagent ::
    "board \<Rightarrow> string \<Rightarrow> string \<Rightarrow> string \<Rightarrow> string \<Rightarrow> nat \<Rightarrow> card option option \<Rightarrow> int \<Rightarrow> board \<times> card option" where
  "settle_from_subagent b parent name state exit_status steps known now =
     (case reported_card b parent name known of
        None \<Rightarrow> (b, None)
      | Some c \<Rightarrow>
          (if kc_session c \<noteq> parent then (b, None)
           else if kc_column c \<noteq> ''doing'' \<and> kc_column c \<noteq> ''review'' then (b, None)
           else (case settled_column state exit_status steps of
               None \<Rightarrow> (b, None)
             | Some column \<Rightarrow>
                 (if column = kc_column c then (b, None)
                  else (case patch_card b (kc_id c)
                      (NO_PATCH\<lparr>cp_column := Some column, cp_result := Some (settle_result c state exit_status steps),
                        cp_note := Some (''auto: subagent '' @ state @ (if exit_status \<noteq> [] then '' ('' @ exit_status @ '')'' else []))\<rparr>) now of
                      None \<Rightarrow> (b, None)
                    | Some (b', u) \<Rightarrow> (b', Some u))))))"

definition drop_board :: "board \<Rightarrow> string \<Rightarrow> nat" where
  "drop_board b scope = 0"

interpretation cards: keyed_store get_card put_card kc_id "\<lambda>c. c"
  by unfold_locales (auto simp: get_card_def put_card_def dest: row_of_SomeD)

section \<open>Runs\<close>

text \<open>A call of \<open>mini-tui kanban\<close> (its arguments, the session it resolves to and the fresh identifier), or a report.\<close>

datatype board_call =
    Call "string list" "string option" string
  | Report string string string string nat

fun board_step :: "board \<Rightarrow> int \<times> board_call \<Rightarrow> board" where
  "board_step b (now, Call argv session fresh) =
     (case parse_kanban argv of
        Inl e \<Rightarrow> b
      | Inr a \<Rightarrow> (case kanban_command a session fresh now b of None \<Rightarrow> b | Some (code, printed, b') \<Rightarrow> b'))"
| "board_step b (now, Report parent name state exit_status steps) =
     fst (settle_from_subagent b parent name state exit_status steps None now)"

definition board_run :: "board \<Rightarrow> (int \<times> board_call) list \<Rightarrow> board" where
  "board_run b calls = foldl board_step b calls"

text \<open>The only three changes a board goes through.\<close>

definition patch_ok :: "card \<Rightarrow> card_patch \<Rightarrow> bool" where
  "patch_ok c f \<longleftrightarrow> cp_title f = None \<and> cp_description f = None \<and> (case cp_column f of None \<Rightarrow> True | Some k \<Rightarrow> k \<in> set COLUMNS) \<and>
     (case cp_assignee f of None \<Rightarrow> True | Some who \<Rightarrow> kc_assignee c = [] \<or> kc_assignee c = who \<or> kc_column c \<noteq> ''doing'')"

definition new_ok :: "card \<Rightarrow> bool" where
  "new_ok c \<longleftrightarrow> kc_column c \<in> set COLUMNS \<and> length (kc_title c) \<le> 200 \<and> length (kc_description c) \<le> 4000 \<and>
     kc_result c = [] \<and> kc_notes c = []"

inductive board_edit :: "board \<Rightarrow> board \<Rightarrow> bool" where
  created: "get_card b (kc_id c) = None \<Longrightarrow> new_ok c \<Longrightarrow>
     board_edit b (record_event (put_card b c) (kc_id c) ''card.created'' (CardNow c) t)"
| updated: "get_card b i = Some c \<Longrightarrow> patch_ok c f \<Longrightarrow>
     board_edit b (record_event (put_card b (patched c f t)) i ''card.updated'' (CardNow (patched c f t)) t)"
| linked: "board_edit b (link_cards b x y kind t)"

lemma set_field_column: "v \<noteq> [] \<Longrightarrow> ka_column a \<noteq> Some [] \<Longrightarrow> ka_column (set_field f v a) \<noteq> Some []"
  by (cases f) auto

lemma kanban_walk_column:
  "kanban_walk rest a pos = Inr (a', pos') \<Longrightarrow> ka_column a \<noteq> Some [] \<Longrightarrow> ka_column a' \<noteq> Some []"
proof (induction rest a pos rule: kanban_walk.induct)
  case (2 x rest a pos)
  consider "x = ''--json'' \<or> x = ''--assign''" | f where "x \<noteq> ''--json''" "x \<noteq> ''--assign''" "kanban_option x = Some f"
    | "x \<noteq> ''--json''" "x \<noteq> ''--assign''" "kanban_option x = None" by (cases "kanban_option x") auto
  then show ?case
  proof cases
    case 1
    with 2 show ?thesis by auto
  next
    case (2 f)
    with "2.prems" obtain v where v: "take_value x rest = Inr v" by (auto split: sum.splits)
    then have "v \<noteq> []" by (auto simp: take_value_def split: list.splits if_splits)
    with "2.IH"(4) [OF 2(1,2) 2(3) v] "2.prems" 2 v set_field_column [of v a f] show ?thesis by simp
  next
    case 3
    with 2 show ?thesis by (auto split: if_splits)
  qed
qed simp

lemma parse_kanban_column: "parse_kanban argv = Inr a \<Longrightarrow> ka_column a \<noteq> Some []"
  using kanban_walk_column [of argv NO_ARGS "[]"]
  by (auto simp: parse_kanban_def NO_ARGS_def Let_def split: sum.splits if_splits)

lemma need_Some: "need b i = Some c \<Longrightarrow> get_card b (kc_id c) = Some c"
  using cards.find_key by (fastforce simp: need_def split: if_splits)

lemma patch_card_edit:
  assumes "patch_card b i f t = Some (b', u)" "\<And>c. get_card b i = Some c \<Longrightarrow> patch_ok c f"
  shows "board_edit b b'"
  using assms by (auto simp: patch_card_def split: option.splits intro: board_edit.updated)

lemma add_card_edit:
  assumes "add_card b s f fresh t = Some (b', c)" "or_else (nc_column f) ''backlog'' \<in> set COLUMNS"
  shows "board_edit b b'"
proof -
  have "get_card b (kc_id c) = None" and b': "b' = record_event (put_card b c) (kc_id c) ''card.created'' (CardNow c) t"
    using assms(1) by (auto simp: add_card_def Let_def split: if_split_asm)
  moreover have "kc_title c = slice_to 200 (nc_title f)" "kc_description c = slice_to 4000 (or_else (nc_description f) [])"
    "kc_column c = (if nc_self f then ''doing'' else or_else (nc_column f) ''backlog'')" "kc_result c = []" "kc_notes c = []"
    using assms(1) by (auto simp: add_card_def Let_def split: if_split_asm)
  then have "new_ok c"
    using assms(2) length_slice_to [of 200 "nc_title f"] length_slice_to [of 4000 "or_else (nc_description f) []"]
    by (auto simp: new_ok_def COLUMNS_def)
  ultimately show ?thesis by (simp only: board_edit.created)
qed

lemma command_patch_ok:
  assumes "command_patch a col c = Inr f" "col = None \<or> or_else col [] \<in> set COLUMNS"
  shows "patch_ok c f"
  using assms
  by (cases "ka_action a"; cases col)
    (auto simp: command_patch_def patch_ok_def NO_PATCH_def or_else_def COLUMNS_def given_def Let_def split: if_splits)

lemma kanban_command_edit:
  assumes "kanban_command a session fresh t b = Some (code, printed, b')" "ka_column a \<noteq> Some []"
  shows "b' = b \<or> board_edit b b'"
proof -
  have col: "ka_column a = None \<or> or_else (ka_column a) [] \<in> set COLUMNS \<or> b' = b"
    using assms by (auto simp: kanban_command_def given_def refuse_def split: if_splits)
  have change: "b' = b \<or> board_edit b b'" if "change_command a (ka_column a) b t = (code, printed, b')"
  proof -
    from that consider "b' = b" | c patch u where "get_card b (kc_id c) = Some c" "command_patch a (ka_column a) c = Inr patch"
        "patch_card b (kc_id c) patch t = Some (b', u)"
      by (auto simp: change_command_def no_card_def refuse_def dest: need_Some split: option.splits sum.splits if_splits)
    then show ?thesis
    proof cases
      case 2
      with col command_patch_ok [OF 2(2)] show ?thesis by (auto intro: patch_card_edit)
    qed simp
  qed
  have add: "b' = b \<or> board_edit b b'" if "add_command a s (ka_column a) b fresh t = Some (code, printed, b')" for s
  proof -
    from that consider "b' = b" | c where "add_card b s \<lparr>nc_title = or_else (ka_title a) [], nc_description = ka_description a,
           nc_column = (if ka_assign a then Some ''doing'' else ka_column a), nc_self = ka_assign a\<rparr> fresh t = Some (b', c)"
      by (auto simp: add_command_def refuse_def split: if_splits)
    then show ?thesis
    proof cases
      case (2 c)
      have "or_else (if ka_assign a then Some ''doing'' else ka_column a) ''backlog'' \<in> set COLUMNS \<or> b' = b"
        using col by (cases "ka_column a") (auto simp: or_else_def COLUMNS_def)
      with add_card_edit [OF 2] show ?thesis by auto
    qed simp
  qed
  have link: "b' = b \<or> board_edit b b'" if "link_command a b t = (code, printed, b')"
    using that by (auto simp: link_command_def no_card_def split: if_splits intro: board_edit.linked)
  show ?thesis
  proof (cases "\<exists>message. refuse b message = (code, printed, b')")
    case False
    show ?thesis
    proof (cases "ka_action a")
      case ShowCard
      with assms(1) False show ?thesis by (auto simp: kanban_command_def show_command_def no_card_def split: if_splits option.splits)
    qed (use assms(1) False in \<open>auto simp: kanban_command_def search_command_def list_command_def Let_def split: if_splits
        dest: change add link\<close>)
  qed (auto simp: refuse_def)
qed

text \<open>A report changes nothing, or it patches the card it is about.\<close>

definition settle_patch :: "card \<Rightarrow> string \<Rightarrow> string \<Rightarrow> nat \<Rightarrow> string \<Rightarrow> card_patch" where
  "settle_patch c state exit_status steps column =
     NO_PATCH\<lparr>cp_column := Some column, cp_result := Some (settle_result c state exit_status steps),
       cp_note := Some (''auto: subagent '' @ state @ (if exit_status \<noteq> [] then '' ('' @ exit_status @ '')'' else []))\<rparr>"

lemma settle_cases:
  assumes "settle_from_subagent b parent name state exit_status steps known t = (b', r)"
  obtains (nothing) "b' = b" "r = None"
  | (patch) c column u where "reported_card b parent name known = Some c" "kc_session c = parent"
      "kc_column c = ''doing'' \<or> kc_column c = ''review''" "settled_column state exit_status steps = Some column" "column \<noteq> kc_column c"
      "patch_card b (kc_id c) (settle_patch c state exit_status steps column) t = Some (b', u)" "r = Some u"
proof (cases "b' = b \<and> r = None")
  case False
  have eq: "(case reported_card b parent name known of None \<Rightarrow> (b, None)
      | Some c \<Rightarrow> (if kc_session c \<noteq> parent then (b, None)
           else if kc_column c \<noteq> ''doing'' \<and> kc_column c \<noteq> ''review'' then (b, None)
           else (case settled_column state exit_status steps of None \<Rightarrow> (b, None)
             | Some column \<Rightarrow> (if column = kc_column c then (b, None)
                  else (case patch_card b (kc_id c) (settle_patch c state exit_status steps column) t of
                      None \<Rightarrow> (b, None) | Some (b', u) \<Rightarrow> (b', Some u)))))) = (b', r)"
    using assms by (simp only: settle_from_subagent_def settle_patch_def)
  obtain c where c: "reported_card b parent name known = Some c" using eq False by (cases "reported_card b parent name known") simp_all
  obtain column where k: "settled_column state exit_status steps = Some column"
    using eq False by (cases "settled_column state exit_status steps") (simp_all add: c split: if_split_asm)
  obtain u where u: "patch_card b (kc_id c) (settle_patch c state exit_status steps column) t = Some u"
    using eq False by (cases "patch_card b (kc_id c) (settle_patch c state exit_status steps column) t") (simp_all add: c k split: if_split_asm)
  from eq False show ?thesis
    by (cases u) (rule patch [OF c _ _ k], auto simp: c k u split: if_split_asm)
qed (use nothing in blast)

lemma settle_patch_ok: "settled_column state exit_status steps = Some column \<Longrightarrow> patch_ok d (settle_patch c state exit_status steps column)"
  by (auto simp: patch_ok_def settle_patch_def NO_PATCH_def settled_column_def COLUMNS_def split: if_split_asm)

lemma settle_edit:
  assumes "settle_from_subagent b parent name state exit_status steps known t = (b', r)"
  shows "b' = b \<or> board_edit b b'"
  using assms
proof (cases rule: settle_cases)
  case (patch c column u)
  with patch_card_edit [OF patch(6)] settle_patch_ok show ?thesis by blast
qed simp

lemma board_step_edit: "board_step b (t, call) = b \<or> board_edit b (board_step b (t, call))"
proof (cases call)
  case (Call argv session fresh)
  show ?thesis
  proof (cases "parse_kanban argv")
    case (Inr a)
    show ?thesis
    proof (cases "kanban_command a session fresh t b")
      case (Some r)
      then obtain code printed b' where "kanban_command a session fresh t b = Some (code, printed, b')" by (cases r) auto
      with kanban_command_edit [OF this parse_kanban_column [OF Inr]] show ?thesis by (simp add: Call Inr)
    qed (simp add: Call Inr)
  qed (simp add: Call)
next
  case (Report parent name state exit_status steps)
  then show ?thesis
    by (cases "settle_from_subagent b parent name state exit_status steps None t") (auto dest: settle_edit)
qed

section \<open>What a board keeps\<close>

definition card_ok :: "card \<Rightarrow> bool" where
  "card_ok c \<longleftrightarrow> kc_column c \<in> set COLUMNS \<and> length (kc_title c) \<le> 200 \<and> length (kc_description c) \<le> 4000 \<and>
     length (kc_result c) \<le> 8000 \<and> length (kc_notes c) \<le> 30 \<and> (\<forall>n \<in> set (kc_notes c). length n \<le> 1000)"

definition replay_cards :: "board_event list \<Rightarrow> card list" where
  "replay_cards es = foldl (\<lambda>cs e. case be_snapshot e of CardNow c \<Rightarrow> upsert kc_id c cs | LinkNow x y k \<Rightarrow> cs) [] es"

definition replay_links :: "board_event list \<Rightarrow> (string \<times> string \<times> string) list" where
  "replay_links es = foldl (\<lambda>ls e. case be_snapshot e of CardNow c \<Rightarrow> ls
     | LinkNow x y k \<Rightarrow> delete_key (\<lambda>(p, q, k). (p, q)) (x, y) ls @ [(x, y, k)]) [] es"

definition board_ok :: "board \<Rightarrow> bool" where
  "board_ok b \<longleftrightarrow> unique_keys kc_id (kb_cards b) \<and> (\<forall>c \<in> set (kb_cards b). card_ok c) \<and>
     replay_cards (kb_events b) = kb_cards b \<and> replay_links (kb_events b) = kb_links b"

lemma patched_id [simp]: "kc_id (patched c f t) = kc_id c"
  by (simp add: patched_def)

lemma patched_ok: "card_ok c \<Longrightarrow> patch_ok c f \<Longrightarrow> card_ok (patched c f t)"
proof -
  assume c: "card_ok c" "patch_ok c f"
  have "length (last_n 30 xs) \<le> 30" "set (last_n 30 xs) \<subseteq> set xs" for xs :: "string list"
    by (auto simp: last_n_def dest: in_set_dropD)
  note l = this
  have "\<forall>n \<in> set (kc_notes (patched c f t)). length n \<le> 1000" "length (kc_notes (patched c f t)) \<le> 30"
    using c l(2) [of "kc_notes c @ [slice_to 1000 (or_else (cp_note f) [])]"] l(1) length_slice_to [of 1000 "or_else (cp_note f) []"]
    by (auto simp: patched_def card_ok_def)
  moreover have "length (kc_result (patched c f t)) \<le> 8000"
    using length_slice_to [of 8000] by (simp add: patched_def)
  moreover have "kc_column (patched c f t) \<in> set COLUMNS" "kc_title (patched c f t) = kc_title c"
    "kc_description (patched c f t) = kc_description c"
    using c by (auto simp: patched_def patch_ok_def card_ok_def or_else_def split: option.splits)
  ultimately show ?thesis using c(1) by (simp add: card_ok_def)
qed

lemma put_card_ok:
  assumes "board_ok b" "card_ok c"
  shows "board_ok (record_event (put_card b c) i kind (CardNow c) t)"
  using assms set_upsert_subset [of kc_id c "kb_cards b"]
  by (auto simp: board_ok_def record_event_def put_card_def replay_cards_def replay_links_def)

lemma board_edit_ok [inv_intros]: "board_edit b b' \<Longrightarrow> board_ok b \<Longrightarrow> board_ok b'"
proof (induction rule: board_edit.induct)
  case (created b c t)
  then have "card_ok c" by (simp add: new_ok_def card_ok_def)
  with created show ?case by (simp add: put_card_ok)
next
  case (updated b i c f t)
  then have "card_ok c" by (auto simp: board_ok_def get_card_def dest: row_of_SomeD)
  with updated show ?case by (simp add: put_card_ok patched_ok)
next
  case (linked b x y kind t)
  then show ?case by (simp add: board_ok_def link_cards_def record_event_def replay_cards_def replay_links_def)
qed

lemma board_run_Nil [simp]: "board_run b [] = b"
  by (simp add: board_run_def)

lemma board_run_Cons [simp]: "board_run b (x # xs) = board_run (board_step b x) xs"
  by (simp add: board_run_def)

lemma board_run_ok [inv_intros]: "board_ok b \<Longrightarrow> board_ok (board_run b calls)"
proof (induction calls arbitrary: b)
  case (Cons x calls)
  obtain t call where "x = (t, call)" by (cases x)
  with board_step_edit [of b t call] Cons board_edit_ok show ?case by fastforce
qed simp

lemma empty_board_ok [simp]: "board_ok EMPTY_BOARD"
  by (simp add: board_ok_def EMPTY_BOARD_def replay_cards_def replay_links_def)

text \<open>No edit removes a card, and one that is being done keeps its assignee.\<close>

lemma board_edit_owner:
  assumes "board_edit b b'" "get_card b i = Some c" "kc_column c = ''doing''" "kc_assignee c \<noteq> []"
  shows "\<exists>c'. get_card b' i = Some c' \<and> kc_assignee c' = kc_assignee c"
  using assms
proof (induction rule: board_edit.induct)
  case (created b d t)
  then show ?case using cards.find_put [of b d i] by (auto simp: record_event_def get_card_def)
next
  case (updated b j d f t)
  show ?case
  proof (cases "i = j")
    case True
    with updated have "d = c" by simp
    moreover have "kc_assignee (patched c f t) = kc_assignee c"
      using updated \<open>d = c\<close> by (auto simp: patched_def patch_ok_def or_else_def split: option.splits)
    ultimately show ?thesis using updated True cards.find_put [of b "patched d f t" i] cards.find_key [OF updated.hyps(1)]
      by (auto simp: record_event_def get_card_def)
  next
    case False
    with updated cards.find_put [of b "patched d f t" i] cards.find_key [OF updated.hyps(1)] show ?thesis
      by (auto simp: record_event_def get_card_def)
  qed
next
  case (linked b x y kind t)
  then show ?case by (simp add: link_cards_def record_event_def get_card_def)
qed

lemma reported_on_board:
  assumes "board_ok b" "reported_card b parent name None = Some c"
  shows "get_card b (kc_id c) = Some c"
proof (cases "get_card b name")
  case None
  with assms(2) have "find (\<lambda>c. kc_assignee c = name) (list_cards b parent None) = Some c" by (simp add: reported_card_def)
  then have "c \<in> set (list_cards b parent None)" by (metis find_Some_iff nth_mem)
  then have "c \<in> set (kb_cards b)" by (simp add: list_cards_def newest_first_def)
  with assms(1) show ?thesis by (simp add: board_ok_def get_card_def row_of_eq_Some_iff)
next
  case (Some d)
  with assms(2) cards.find_key [OF Some] show ?thesis by (simp add: reported_card_def)
qed

lemma get_card_update:
  assumes "patch_card b i f t = Some (b', u)" "get_card b i = Some c"
  shows "u = patched c f t" "get_card b' j = (if j = i then Some u else get_card b j)"
  using assms cards.find_put [of b "patched c f t" j] cards.find_key [OF assms(2)]
  by (auto simp: patch_card_def record_event_def get_card_def)

lemma settle_nothing:
  assumes "settle_from_subagent b parent name state exit_status steps known t = (b, None)"
  shows "settle_from_subagent b parent name state exit_status steps known t' = (b, None)"
proof -
  obtain b' r where r: "settle_from_subagent b parent name state exit_status steps known t' = (b', r)" by (cases rule: prod.exhaust)
  then show ?thesis
  proof (cases rule: settle_cases)
    case nothing
    with r show ?thesis by simp
  next
    case (patch c column u)
    then obtain b2 u2 where "patch_card b (kc_id c) (settle_patch c state exit_status steps column) t = Some (b2, u2)"
      by (auto simp: patch_card_def split: option.splits)
    with patch(1-5) assms show ?thesis by (auto simp: settle_from_subagent_def settle_patch_def)
  qed
qed

section \<open>Properties\<close>

text \<open>
  C14: The event log is the board.  After any sequence of calls and reports, replaying the recorded events gives exactly
  the cards and the links; identifiers are unique, every card is in one of the five columns, and its texts and notes
  are within their limits.
\<close>

theorem events_are_the_board:
  "replay_cards (kb_events (board_run EMPTY_BOARD calls)) = kb_cards (board_run EMPTY_BOARD calls) \<and>
    replay_links (kb_events (board_run EMPTY_BOARD calls)) = kb_links (board_run EMPTY_BOARD calls) \<and>
    distinct (map kc_id (kb_cards (board_run EMPTY_BOARD calls))) \<and>
    list_all (\<lambda>c. kc_column c \<in> set COLUMNS \<and> length (kc_title c) \<le> 200 \<and> length (kc_description c) \<le> 4000 \<and>
      length (kc_result c) \<le> 8000 \<and> length (kc_notes c) \<le> 30 \<and> list_all (\<lambda>n. length n \<le> 1000) (kc_notes c))
      (kb_cards (board_run EMPTY_BOARD calls))"
  using board_run_ok [OF empty_board_ok, of calls]
  by (simp add: board_ok_def card_ok_def unique_keys_def list_all_iff)

definition ex_calls :: "(int \<times> board_call) list" where
  "ex_calls = [(1, Call [''add'', ''--title'', ''fix it'', ''--assign''] (Some ''s'') ''k-1''),
     (2, Call [''assign'', ''k-1'', ''--agent'', ''bob''] (Some ''s'') ''k-2''), (3, Report ''s'' ''k-1'' ''exited'' ''Submitted'' 4)]"

lemmas board_eval = Let_def board_run_def EMPTY_BOARD_def parse_kanban_def kanban_option_def action_of_def take_value_def NO_ARGS_def
  nth_of_def or_else_def given_def kanban_command_def COLUMNS_def add_command_def add_card_def change_command_def need_def
  command_patch_def refuse_def js_trim_def trim_start_def trim_end_def js_ws_def slice_to_code get_card_def put_card_def record_event_def

definition ex_card :: card where
  "ex_card = \<lparr>kc_id = ''k-1'', kc_session = ''s'', kc_title = ''fix it'', kc_description = [], kc_column = ''doing'',
     kc_assignee = ''k-1'', kc_result = [], kc_notes = [], kc_created = 1, kc_updated = 1\<rparr>"

lemma ex_board:
  "board_run EMPTY_BOARD (take 1 ex_calls) = record_event (put_card EMPTY_BOARD ex_card) ''k-1'' ''card.created'' (CardNow ex_card) 1"
  by (simp add: board_eval ex_calls_def ex_card_def)

text \<open>
  C15: One task, one subagent.  As long as a card that has an assignee stays in \<open>doing\<close>, no call and no report changes who
  it belongs to; \<open>assign\<close> to somebody else is refused with exit code 2 and leaves the board as it is.
\<close>

theorem one_subagent:
  assumes "get_card b i = Some c" "kc_assignee c \<noteq> []"
    and "\<forall>k < length calls. \<exists>d. get_card (board_run b (take k calls)) i = Some d \<and> kc_column d = ''doing''"
  shows "(\<exists>d. get_card (board_run b calls) i = Some d \<and> kc_assignee d = kc_assignee c) \<and>
    (kc_column c = ''doing'' \<and> i \<noteq> [] \<and> who \<noteq> [] \<and> who \<noteq> kc_assignee c \<longrightarrow>
      kanban_command (NO_ARGS\<lparr>ka_action := AssignCard, ka_id := Some i, ka_assignee := Some who\<rparr>) session fresh t b =
        Some (2, [Complaint (''error: card already belongs to @'' @ kc_assignee c @ '': one task, one subagent'' @ nl)], b))"
proof -
  have "\<exists>d. get_card (board_run b calls) i = Some d \<and> kc_assignee d = kc_assignee c" using assms
  proof (induction calls arbitrary: b c)
    case (Cons x calls)
    obtain t call where x: "x = (t, call)" by (cases x)
    have doing: "kc_column c = ''doing''" using Cons.prems(1) spec [OF Cons.prems(3), of 0] by auto
    obtain c' where c': "get_card (board_step b x) i = Some c'" "kc_assignee c' = kc_assignee c"
      using board_step_edit [of b t call] board_edit_owner [OF _ Cons.prems(1) doing Cons.prems(2)] Cons.prems(1) x by auto
    have "\<forall>k < length calls. \<exists>d. get_card (board_run (board_step b x) (take k calls)) i = Some d \<and> kc_column d = ''doing''"
    proof (intro allI impI)
      fix k assume "k < length calls"
      with spec [OF Cons.prems(3), of "Suc k"] show "\<exists>d. get_card (board_run (board_step b x) (take k calls)) i = Some d \<and> kc_column d = ''doing''"
        by simp
    qed
    from Cons.IH [OF c'(1) _ this] c'(2) Cons.prems(2) show ?case by simp
  qed simp
  moreover have "kanban_command (NO_ARGS\<lparr>ka_action := AssignCard, ka_id := Some i, ka_assignee := Some who\<rparr>) session fresh t b =
        Some (2, [Complaint (''error: card already belongs to @'' @ kc_assignee c @ '': one task, one subagent'' @ nl)], b)"
    if "kc_column c = ''doing''" "i \<noteq> []" "who \<noteq> []" "who \<noteq> kc_assignee c"
    using that assms(1,2)
    by (simp add: kanban_command_def NO_ARGS_def given_def change_command_def need_def or_else_def command_patch_def refuse_def Let_def)
  ultimately show ?thesis by blast
qed

theorem one_subagent_witness:
  "\<exists>d. get_card (board_run EMPTY_BOARD (take 2 ex_calls)) ''k-1'' = Some d \<and> kc_assignee d = ''k-1''"
proof -
  let ?b = "board_run EMPTY_BOARD (take 1 ex_calls)"
  have run: "board_run EMPTY_BOARD (take 2 ex_calls) = board_run ?b [ex_calls ! 1]" by (simp add: ex_calls_def)
  have "get_card ?b ''k-1'' = Some ex_card" unfolding ex_board by (simp add: get_card_def record_event_def put_card_def EMPTY_BOARD_def ex_card_def)
  from one_subagent [OF this, of "[ex_calls ! 1]"] this show ?thesis by (simp add: run ex_card_def)
qed

text \<open>
  A report settles its card once.  It changes at most the card it is about, which is one of the parent's that is being
  done or reviewed: the card goes to review while the subagent waits, to done when it stops cleanly after a step and to
  blocked otherwise, with a result if it had none, and keeps its title, owner and session.  The same report of a
  subagent named after its card changes nothing more.
\<close>

theorem settle_once:
  assumes "settle_from_subagent (board_run EMPTY_BOARD calls) parent name state exit_status steps None t = (b', r)"
  shows "(r = None \<longrightarrow> b' = board_run EMPTY_BOARD calls) \<and>
    (\<forall>u. r = Some u \<longrightarrow> (\<exists>c. reported_card (board_run EMPTY_BOARD calls) parent name None = Some c \<and> kc_session c = parent \<and>
       kc_column c \<in> {''doing'', ''review''} \<and> settled_column state exit_status steps = Some (kc_column u) \<and>
       kc_result u = slice_to 8000 (settle_result c state exit_status steps) \<and> kc_title u = kc_title c \<and>
       kc_assignee u = kc_assignee c \<and> kc_session u = kc_session c \<and>
       (\<forall>i. get_card b' i = (if i = kc_id c then Some u else get_card (board_run EMPTY_BOARD calls) i)))) \<and>
    (get_card (board_run EMPTY_BOARD calls) name \<noteq> None \<longrightarrow>
       settle_from_subagent b' parent name state exit_status steps None later = (b', None))"
  using assms
proof (cases rule: settle_cases)
  case nothing
  with settle_nothing assms show ?thesis by auto
next
  case (patch c column u)
  let ?b = "board_run EMPTY_BOARD calls"
  have "get_card ?b (kc_id c) = Some c"
    using reported_on_board [OF board_run_ok [OF empty_board_ok] patch(1)] .
  note g = get_card_update [OF patch(6) this]
  have u: "kc_column u = column" "kc_result u = slice_to 8000 (settle_result c state exit_status steps)" "kc_title u = kc_title c"
      "kc_assignee u = kc_assignee c" "kc_session u = parent"
    using patch(2) by (simp_all add: g(1) patched_def settle_patch_def NO_PATCH_def or_else_def)
  have "settle_from_subagent b' parent name state exit_status steps None later = (b', None)" if n: "get_card ?b name \<noteq> None"
  proof -
    from n patch(1) have "get_card ?b name = Some c" by (auto simp: reported_card_def)
    then have "get_card b' name = Some u" using g(2) [of name] cards.find_key by fastforce
    then have "reported_card b' parent name None = Some u" by (simp add: reported_card_def)
    with u patch(4) show ?thesis by (simp add: settle_from_subagent_def)
  qed
  with patch u g(2) show ?thesis by auto
qed

theorem settle_once_witness:
  "\<exists>b' u. settle_from_subagent (board_run EMPTY_BOARD (take 1 ex_calls)) ''s'' ''k-1'' ''exited'' ''Submitted'' 4 None 3 = (b', Some u) \<and>
     kc_column u = ''done'' \<and> kc_assignee u = ''k-1'' \<and>
     settle_from_subagent b' ''s'' ''k-1'' ''exited'' ''Submitted'' 4 None 9 = (b', None)"
proof -
  let ?b = "board_run EMPTY_BOARD (take 1 ex_calls)"
  have card: "get_card ?b ''k-1'' = Some ex_card" unfolding ex_board by (simp add: get_card_def record_event_def put_card_def EMPTY_BOARD_def ex_card_def)
  then have "\<exists>b' u. settle_from_subagent ?b ''s'' ''k-1'' ''exited'' ''Submitted'' 4 None 3 = (b', Some u)"
    by (simp add: settle_from_subagent_def reported_card_def patch_card_def settled_column_def ex_card_def)
  then obtain b' u where r: "settle_from_subagent ?b ''s'' ''k-1'' ''exited'' ''Submitted'' 4 None 3 = (b', Some u)" by blast
  from settle_once [OF r, of 9] card r show ?thesis by (auto simp: settled_column_def reported_card_def ex_card_def)
qed

end
