(* ===== verification/Args.thy ===== *)
theory Args
  imports Kanban
begin

text \<open>
  The command line (src/cli/args.ts): splitting \<open>--flag=value\<close>, dispatch on the first word, and the parser of each
  entry point.  Numbers are rational; a parser walks the arguments and keeps what it has read so far.
\<close>

section \<open>What a command line says\<close>

definition OUTPUT_FORMATS :: "string list" where
  "OUTPUT_FORMATS = [''text'', ''json'', ''stream-json'']"

datatype tui_command = Run | View

record tui_args =
  tu_command :: tui_command
  tu_model :: "string option"
  tu_specs :: "string list"
  tu_showSystem :: bool
  tu_task :: "string option"
  tu_viewPath :: "string option"
  tu_follow :: bool

record headless_args =
  he_model :: "string option"
  he_specs :: "string list"
  he_showSystem :: bool
  he_prompt :: string
  he_outputFormat :: string
  he_verbose :: bool
  he_quiet :: bool
  he_continueLast :: bool
  he_resumeId :: "string option"
  he_noSession :: bool
  he_compact :: bool
  he_cwd :: "string option"
  he_maxSteps :: "rat option"
  he_costLimit :: "rat option"
  he_timeout :: "rat option"

datatype sessions_action = ListSessions | ShowSession | RemoveSession

record sessions_args =
  se_action :: sessions_action
  se_id :: "string option"
  se_all :: bool
  se_limit :: rat
  se_query :: string
  se_json :: bool
  se_cwd :: "string option"

datatype tasks_action = SetTasks | ShowTasks | ClearTasks

record tasks_args =
  ta_action :: tasks_action
  ta_session :: "string option"
  ta_title :: "string option"
  ta_description :: "string option"
  ta_done :: "string list"
  ta_pending :: "string list"
  ta_left :: "string list"
  ta_json :: bool

datatype cli_args =
    Tui tui_args
  | Print headless_args
  | Sessions sessions_args
  | Models bool
  | Model "string option" bool
  | Skills bool
  | Tasks tasks_args
  | KanbanBoard kanban_args
  | Doctor "string option" bool
  | Settings "string option" "string option" bool
  | Jev bool
  | Help
  | Version

definition SUBCOMMANDS :: "string list" where
  "SUBCOMMANDS = [''run'', ''view'', ''sessions'', ''session'', ''models'', ''model'', ''skills'', ''tasks'', ''kanban'', ''settings'',
     ''jev'', ''doctor'', ''help'', ''version'']"

section \<open>Values\<close>

definition positive_number :: "string \<Rightarrow> string \<Rightarrow> bool \<Rightarrow> usage_error + rat" where
  "positive_number raw flag integer =
     (case number_of_string raw of
        None \<Rightarrow> Inl (NotANumber flag raw)
      | Some v \<Rightarrow> (if v < 0 \<or> integer \<and> v \<noteq> of_int \<lfloor>v\<rfloor> then Inl (NotANumber flag raw) else Inr v))"

definition split_inline :: "string \<Rightarrow> string list" where
  "split_inline arg =
     (case index_of (CHR ''='') arg of
        Some eq \<Rightarrow> (if take 2 arg = ''--'' \<and> 2 < eq then [take eq arg, drop (Suc eq) arg] else [arg])
      | None \<Rightarrow> [arg])"

text \<open>The loop at the head of \<open>parseArgs\<close>: the value of \<open>-c\<close>, \<open>--config\<close> and \<open>-t\<close> is taken as it is.\<close>

fun expand_argv :: "string list \<Rightarrow> string list" where
  "expand_argv [] = []"
| "expand_argv (arg # rest) =
     (if arg = ''-c'' \<or> arg = ''--config'' \<or> arg = ''-t''
      then (case rest of [] \<Rightarrow> [arg, []] | v # rest' \<Rightarrow> arg # v # expand_argv rest')
      else split_inline arg @ expand_argv rest)"

fun is_headless :: "string list \<Rightarrow> bool" where
  "is_headless [] = False"
| "is_headless (arg # rest) = (if arg = ''--'' then False else arg = ''-p'' \<or> arg = ''--print'' \<or> is_headless rest)"

section \<open>The interactive entry points\<close>

fun tui_walk :: "string list \<Rightarrow> tui_args \<Rightarrow> string list \<Rightarrow> usage_error + (tui_args \<times> string list)" where
  "tui_walk [] a pos = Inr (a, pos)"
| "tui_walk (arg # rest) a pos =
     (if arg = ''-m'' \<or> arg = ''--model'' then
        (case take_value arg rest of Inl e \<Rightarrow> Inl e | Inr v \<Rightarrow> tui_walk (tl rest) (a\<lparr>tu_model := Some v\<rparr>) pos)
      else if arg = ''-c'' \<or> arg = ''--config'' then
        (case take_value arg rest of Inl e \<Rightarrow> Inl e | Inr v \<Rightarrow> tui_walk (tl rest) (a\<lparr>tu_specs := tu_specs a @ [v]\<rparr>) pos)
      else if arg = ''--follow'' then tui_walk rest (a\<lparr>tu_follow := True\<rparr>) pos
      else if arg = ''--show-system'' then tui_walk rest (a\<lparr>tu_showSystem := True\<rparr>) pos
      else if take 1 arg = ''-'' \<and> arg \<noteq> ''-'' then Inl (UnknownOption [] arg)
      else tui_walk rest a (if arg \<noteq> [] then pos @ [arg] else pos))"

definition parse_tui :: "tui_command \<Rightarrow> string list \<Rightarrow> usage_error + cli_args" where
  "parse_tui command rest =
     (case tui_walk rest \<lparr>tu_command = command, tu_model = None, tu_specs = [], tu_showSystem = False, tu_task = None,
        tu_viewPath = None, tu_follow = False\<rparr> [] of
        Inl e \<Rightarrow> Inl e
      | Inr (a, pos) \<Rightarrow>
          (if command = View then
             (if \<not> given (nth_of 0 pos) then Inl (Usage ''view needs a trajectory path'')
              else Inr (Tui (a\<lparr>tu_viewPath := nth_of 0 pos\<rparr>)))
           else Inr (Tui (if pos \<noteq> [] then a\<lparr>tu_task := Some (join '' '' pos)\<rparr> else a))))"

section \<open>A headless run\<close>

datatype headless_switch = PrintSwitch | JsonSwitch | VerboseSwitch | QuietSwitch | ContinueSwitch | NoSessionSwitch
  | CompactSwitch | ShowSystemSwitch

definition switch_of :: "string \<Rightarrow> headless_switch option" where
  "switch_of x = map_of
     [(''-p'', PrintSwitch), (''--print'', PrintSwitch), (''--json'', JsonSwitch), (''-v'', VerboseSwitch), (''--verbose'', VerboseSwitch),
      (''-q'', QuietSwitch), (''--quiet'', QuietSwitch), (''-C'', ContinueSwitch), (''--continue'', ContinueSwitch),
      (''--no-session'', NoSessionSwitch), (''--compact'', CompactSwitch), (''--show-system'', ShowSystemSwitch)] x"

fun set_switch :: "headless_switch \<Rightarrow> headless_args \<Rightarrow> headless_args" where
  "set_switch PrintSwitch a = a"
| "set_switch JsonSwitch a = a\<lparr>he_outputFormat := ''json''\<rparr>"
| "set_switch VerboseSwitch a = a\<lparr>he_verbose := True\<rparr>"
| "set_switch QuietSwitch a = a\<lparr>he_quiet := True\<rparr>"
| "set_switch ContinueSwitch a = a\<lparr>he_continueLast := True\<rparr>"
| "set_switch NoSessionSwitch a = a\<lparr>he_noSession := True\<rparr>"
| "set_switch CompactSwitch a = a\<lparr>he_compact := True\<rparr>"
| "set_switch ShowSystemSwitch a = a\<lparr>he_showSystem := True\<rparr>"

datatype headless_option = ModelOption | SpecOption | TaskOption | FormatOption | ResumeOption | CwdOption | StepsOption
  | CostOption | TimeoutOption

definition headless_option_of :: "string \<Rightarrow> headless_option option" where
  "headless_option_of x = map_of
     [(''-m'', ModelOption), (''--model'', ModelOption), (''-c'', SpecOption), (''--config'', SpecOption), (''-t'', TaskOption),
      (''--task'', TaskOption), (''-o'', FormatOption), (''--output-format'', FormatOption), (''-r'', ResumeOption),
      (''--resume'', ResumeOption), (''--cwd'', CwdOption), (''--max-steps'', StepsOption), (''--cost-limit'', CostOption),
      (''--timeout'', TimeoutOption)] x"

text \<open>An option with its value, on the arguments and the positional words read so far.\<close>

fun set_value ::
    "headless_option \<Rightarrow> string \<Rightarrow> string \<Rightarrow> headless_args \<times> string list \<Rightarrow> usage_error + (headless_args \<times> string list)" where
  "set_value ModelOption arg v (a, pos) = Inr (a\<lparr>he_model := Some v\<rparr>, pos)"
| "set_value SpecOption arg v (a, pos) = Inr (a\<lparr>he_specs := he_specs a @ [v]\<rparr>, pos)"
| "set_value TaskOption arg v (a, pos) = Inr (a, pos @ [v])"
| "set_value FormatOption arg v (a, pos) =
     (if v \<notin> set OUTPUT_FORMATS then Inl (Usage (arg @ '' must be one of '' @ join '', '' OUTPUT_FORMATS))
      else Inr (a\<lparr>he_outputFormat := v\<rparr>, pos))"
| "set_value ResumeOption arg v (a, pos) = Inr (a\<lparr>he_resumeId := Some v\<rparr>, pos)"
| "set_value CwdOption arg v (a, pos) = Inr (a\<lparr>he_cwd := Some v\<rparr>, pos)"
| "set_value StepsOption arg v (a, pos) = map_sum id (\<lambda>n. (a\<lparr>he_maxSteps := Some n\<rparr>, pos)) (positive_number v arg True)"
| "set_value CostOption arg v (a, pos) = map_sum id (\<lambda>n. (a\<lparr>he_costLimit := Some n\<rparr>, pos)) (positive_number v arg False)"
| "set_value TimeoutOption arg v (a, pos) = map_sum id (\<lambda>n. (a\<lparr>he_timeout := Some n\<rparr>, pos)) (positive_number v arg True)"

fun headless_walk :: "string list \<Rightarrow> headless_args \<Rightarrow> string list \<Rightarrow> usage_error + (headless_args \<times> string list)" where
  "headless_walk [] a pos = Inr (a, pos)"
| "headless_walk (arg # rest) a pos =
     (if arg = ''--'' then Inr (a, pos @ rest)
      else (case switch_of arg of
          Some s \<Rightarrow> headless_walk rest (set_switch s a) pos
        | None \<Rightarrow>
            (case headless_option_of arg of
               Some f \<Rightarrow>
                 (case take_value arg rest of
                    Inl e \<Rightarrow> Inl e
                  | Inr v \<Rightarrow>
                      (case set_value f arg v (a, pos) of
                         Inl e \<Rightarrow> Inl e
                       | Inr p \<Rightarrow> headless_walk (tl rest) (fst p) (snd p)))
             | None \<Rightarrow>
                 (if take 1 arg = ''-'' \<and> arg \<noteq> ''-'' then Inl (UnknownOption ''-p'' arg)
                  else headless_walk rest a (if arg \<noteq> ''-'' then pos @ [arg] else pos)))))"

definition NO_HEADLESS :: headless_args where
  "NO_HEADLESS = \<lparr>he_model = None, he_specs = [], he_showSystem = False, he_prompt = [], he_outputFormat = ''text'', he_verbose = False,
     he_quiet = False, he_continueLast = False, he_resumeId = None, he_noSession = False, he_compact = False, he_cwd = None,
     he_maxSteps = None, he_costLimit = None, he_timeout = None\<rparr>"

definition check_headless :: "headless_args \<Rightarrow> usage_error + cli_args" where
  "check_headless a =
     (if he_verbose a \<and> he_quiet a then Inl (Usage ''--verbose and --quiet exclude each other'')
      else if he_continueLast a \<and> given (he_resumeId a) then Inl (Usage ''use either --continue or --resume <id>'')
      else if he_compact a \<and> \<not> he_continueLast a \<and> \<not> given (he_resumeId a) then Inl (Usage ''--compact needs --continue or --resume <id>'')
      else if he_compact a \<and> he_noSession a then Inl (Usage ''--compact updates a saved session: drop --no-session'')
      else Inr (Print a))"

definition parse_headless :: "string list \<Rightarrow> usage_error + cli_args" where
  "parse_headless argv =
     (case headless_walk argv NO_HEADLESS [] of
        Inl e \<Rightarrow> Inl e
      | Inr (a, pos) \<Rightarrow> check_headless (a\<lparr>he_prompt := js_trim (join '' '' pos)\<rparr>))"

section \<open>The other commands\<close>

datatype sessions_field = LimitField | SearchField | CwdField

definition sessions_option :: "string \<Rightarrow> sessions_field option" where
  "sessions_option x = map_of
     [(''-n'', LimitField), (''--limit'', LimitField), (''--search'', SearchField), (''-s'', SearchField), (''--cwd'', CwdField)] x"

fun set_sessions_field :: "sessions_field \<Rightarrow> string \<Rightarrow> string \<Rightarrow> sessions_args \<Rightarrow> usage_error + sessions_args" where
  "set_sessions_field LimitField arg v a = map_sum id (\<lambda>n. a\<lparr>se_limit := n\<rparr>) (positive_number v arg True)"
| "set_sessions_field SearchField arg v a = Inr (a\<lparr>se_query := v\<rparr>)"
| "set_sessions_field CwdField arg v a = Inr (a\<lparr>se_cwd := Some v\<rparr>)"

fun sessions_walk :: "string list \<Rightarrow> sessions_args \<Rightarrow> string list \<Rightarrow> usage_error + (sessions_args \<times> string list)" where
  "sessions_walk [] a pos = Inr (a, pos)"
| "sessions_walk (arg # rest) a pos =
     (if arg = ''--json'' then sessions_walk rest (a\<lparr>se_json := True\<rparr>) pos
      else if arg = ''-a'' \<or> arg = ''--all'' then sessions_walk rest (a\<lparr>se_all := True\<rparr>) pos
      else (case sessions_option arg of
          Some f \<Rightarrow>
            (case take_value arg rest of
               Inl e \<Rightarrow> Inl e
             | Inr v \<Rightarrow>
                 (case set_sessions_field f arg v a of
                    Inl e \<Rightarrow> Inl e
                  | Inr a' \<Rightarrow> sessions_walk (tl rest) a' pos))
        | None \<Rightarrow>
            (if take 1 arg = ''-'' then Inl (UnknownOption ''sessions'' arg)
             else sessions_walk rest a (pos @ [arg]))))"

definition parse_sessions :: "string list \<Rightarrow> usage_error + cli_args" where
  "parse_sessions rest =
     (case sessions_walk rest \<lparr>se_action = ListSessions, se_id = None, se_all = False, se_limit = 20, se_query = [], se_json = False,
        se_cwd = None\<rparr> [] of
        Inl e \<Rightarrow> Inl e
      | Inr (a, pos) \<Rightarrow>
          (case nth_of 0 pos of
             None \<Rightarrow> Inr (Sessions a)
           | Some act \<Rightarrow>
               (if act = ''list'' \<or> act = ''ls'' then Inr (Sessions a)
                else if act = ''show'' \<or> act = ''rm'' \<or> act = ''delete'' then
                  (if \<not> given (nth_of 1 pos) then Inl (Usage (''sessions '' @ act @ '' needs a session id''))
                   else Inr (Sessions (a\<lparr>se_action := (if act = ''show'' then ShowSession else RemoveSession), se_id := nth_of 1 pos\<rparr>)))
                else Inr (Sessions (a\<lparr>se_action := ShowSession, se_id := Some act\<rparr>)))))"

definition parse_model_args :: "string list \<Rightarrow> usage_error + cli_args" where
  "parse_model_args rest =
     (let positional = filter (\<lambda>arg. arg \<noteq> ''--json'') rest
      in if list_ex (\<lambda>arg. take 1 arg = ''-'') positional then Inl (Usage ''usage: mini-tui model [<model id>] [--json]'')
         else Inr (Model (nth_of 0 positional) (''--json'' \<in> set rest)))"

definition dashes :: "string \<Rightarrow> string" where
  "dashes s = map (\<lambda>c. if c = CHR ''_'' then CHR ''-'' else c) s"

definition parse_settings :: "string list \<Rightarrow> usage_error + cli_args" where
  "parse_settings rest =
     (let positional = filter (\<lambda>arg. arg \<noteq> ''--json'') rest; key = nth_of 0 positional; v = nth_of 1 positional
      in if given key \<and> v = None \<and> dashes (or_else key []) \<noteq> ''jev-key''
         then Inl (Usage (''settings '' @ or_else key [] @ '' needs a value''))
         else Inr (Settings key v (''--json'' \<in> set rest)))"

definition parse_jev :: "string list \<Rightarrow> usage_error + cli_args" where
  "parse_jev rest =
     (let word = or_else (nth_of 0 (filter (\<lambda>arg. arg \<noteq> ''--json'') rest)) ''check''
      in if word \<noteq> ''check'' then Inl (Usage (''unknown jev action: '' @ word @ '' (only `check` today)'')) else Inr (Jev (''--json'' \<in> set rest)))"

datatype tasks_field = TaskSession | TaskTitle | TaskDescription | TaskDone | TaskPending | TaskLeft

definition tasks_option :: "string \<Rightarrow> tasks_field option" where
  "tasks_option x = map_of
     [(''--session'', TaskSession), (''-s'', TaskSession), (''--title'', TaskTitle), (''--description'', TaskDescription),
      (''--desc'', TaskDescription), (''--done'', TaskDone), (''--pending'', TaskPending), (''--left'', TaskLeft),
      (''--remaining'', TaskLeft)] x"

fun set_task_field :: "tasks_field \<Rightarrow> string \<Rightarrow> tasks_args \<Rightarrow> tasks_args" where
  "set_task_field TaskSession v a = a\<lparr>ta_session := Some v\<rparr>"
| "set_task_field TaskTitle v a = a\<lparr>ta_title := Some v\<rparr>"
| "set_task_field TaskDescription v a = a\<lparr>ta_description := Some v\<rparr>"
| "set_task_field TaskDone v a = a\<lparr>ta_done := ta_done a @ [v]\<rparr>"
| "set_task_field TaskPending v a = a\<lparr>ta_pending := ta_pending a @ [v]\<rparr>"
| "set_task_field TaskLeft v a = a\<lparr>ta_left := ta_left a @ [v]\<rparr>"

fun tasks_walk :: "string list \<Rightarrow> tasks_args \<Rightarrow> string list \<Rightarrow> usage_error + (tasks_args \<times> string list)" where
  "tasks_walk [] a pos = Inr (a, pos)"
| "tasks_walk (arg # rest) a pos =
     (if arg = ''--json'' then tasks_walk rest (a\<lparr>ta_json := True\<rparr>) pos
      else (case tasks_option arg of
          Some f \<Rightarrow>
            (case take_value arg rest of
               Inl e \<Rightarrow> Inl e
             | Inr v \<Rightarrow> tasks_walk (tl rest) (set_task_field f v a) pos)
        | None \<Rightarrow>
            (if take 1 arg = ''-'' then Inl (UnknownOption ''tasks'' arg)
             else tasks_walk rest a (pos @ [arg]))))"

definition tasks_action_of :: "string \<Rightarrow> tasks_action option" where
  "tasks_action_of s = map_of [(''show'', ShowTasks), (''set'', SetTasks), (''clear'', ClearTasks)] s"

text \<open>A positional identifier names the session; the fields belong to \<open>set\<close>.\<close>

definition checked_tasks :: "tasks_args \<Rightarrow> string option \<Rightarrow> usage_error + cli_args" where
  "checked_tasks a i =
     (if ta_action a \<noteq> SetTasks \<and>
         (ta_title a \<noteq> None \<or> ta_description a \<noteq> None \<or> ta_done a \<noteq> [] \<or> ta_pending a \<noteq> [] \<or> ta_left a \<noteq> [])
      then Inl (Usage ''task fields are only written by `mini-tui tasks set`'')
      else Inr (Tasks (if given i then a\<lparr>ta_session := i\<rparr> else a)))"

definition parse_tasks :: "string list \<Rightarrow> usage_error + cli_args" where
  "parse_tasks rest =
     (case tasks_walk rest \<lparr>ta_action = ShowTasks, ta_session = None, ta_title = None, ta_description = None, ta_done = [],
        ta_pending = [], ta_left = [], ta_json = False\<rparr> [] of
        Inl e \<Rightarrow> Inl e
      | Inr (a, pos) \<Rightarrow>
          (case nth_of 0 pos of
             Some act \<Rightarrow>
               (if tasks_action_of act = None then Inr (Tasks (a\<lparr>ta_action := ShowTasks, ta_session := Some act\<rparr>))
                else checked_tasks (a\<lparr>ta_action := or_else (tasks_action_of act) ShowTasks\<rparr>) (nth_of 1 pos))
           | None \<Rightarrow> checked_tasks a (nth_of 1 pos)))"

section \<open>Dispatch\<close>

definition parse_doctor :: "string list \<Rightarrow> usage_error + cli_args" where
  "parse_doctor rest =
     (case (case index_of ''-m'' rest of Some i \<Rightarrow> Some i | None \<Rightarrow> index_of ''--model'' rest) of
        None \<Rightarrow> Inr (Doctor None (''--json'' \<in> set rest))
      | Some i \<Rightarrow> map_sum id (\<lambda>v. Doctor (Some v) (''--json'' \<in> set rest)) (take_value (rest ! i) (drop (Suc i) rest)))"

definition parse_args :: "string list \<Rightarrow> usage_error + cli_args" where
  "parse_args raw =
     (case expand_argv raw of
        [] \<Rightarrow> parse_tui Run []
      | command # rest \<Rightarrow>
          (if command \<in> {''-h'', ''--help'', ''help''} then Inr Help
           else if command \<in> {''-V'', ''--version'', ''version''} then Inr Version
           else if is_headless (command # rest) then parse_headless (if command = ''run'' then rest else command # rest)
           else if command = ''sessions'' \<or> command = ''session'' then parse_sessions rest
           else if command = ''models'' then Inr (Models (''--json'' \<in> set rest))
           else if command = ''model'' then parse_model_args rest
           else if command = ''skills'' then Inr (Skills (''--json'' \<in> set rest))
           else if command = ''doctor'' then parse_doctor rest
           else if command = ''tasks'' then parse_tasks rest
           else if command = ''kanban'' then map_sum id KanbanBoard (parse_kanban rest)
           else if command = ''settings'' then parse_settings rest
           else if command = ''jev'' then parse_jev rest
           else if command = ''run'' then parse_tui Run rest
           else if command = ''view'' then parse_tui View rest
           else if command \<notin> set SUBCOMMANDS \<and> take 1 command \<noteq> ''-'' then Inl (Usage (''unknown command: '' @ command @ '' (a headless run is `mini-tui -p '' @ [CHR 0x22] @ ''<prompt>'' @ [CHR 0x22] @ ''`)''))
           else parse_tui Run (command # rest)))"

section \<open>Config specs\<close>

definition with_default_config :: "string list \<Rightarrow> string \<Rightarrow> string list" where
  "with_default_config specs default_spec =
     (if specs = [] \<or> list_ex (\<lambda>s. CHR ''='' \<notin> set s) specs then specs else default_spec # specs)"

text \<open>\<open>show_number\<close> is the text of a number.\<close>

definition headless_specs :: "(rat \<Rightarrow> string) \<Rightarrow> string \<Rightarrow> headless_args \<Rightarrow> string list" where
  "headless_specs show_number default_spec a =
     with_default_config (he_specs a @
       (case he_maxSteps a of None \<Rightarrow> [] | Some n \<Rightarrow> [''agent.step_limit='' @ show_number n]) @
       (case he_costLimit a of None \<Rightarrow> [] | Some n \<Rightarrow> [''agent.cost_limit='' @ show_number n]) @
       (case he_timeout a of None \<Rightarrow> [] | Some n \<Rightarrow> [''agent.wall_time_limit_seconds='' @ show_number n])) default_spec"

section \<open>Lemmas\<close>

lemma map_sum_Inr [simp]: "map_sum id g x = Inr y \<longleftrightarrow> (\<exists>z. x = Inr z \<and> y = g z)"
  by (cases x) auto

lemma take_value_nonempty: "take_value flag rest = Inr v \<Longrightarrow> v \<noteq> []"
  by (auto simp: take_value_def split: list.splits if_splits)

lemma positive_number_range:
  "positive_number raw flag b = Inr n \<Longrightarrow> 0 \<le> n \<and> (b \<longrightarrow> n = of_int \<lfloor>n\<rfloor>)"
  by (auto simp: positive_number_def split: option.splits if_splits)

text \<open>What the parser keeps of a headless run while it reads.\<close>

definition headless_ok :: "headless_args \<Rightarrow> bool" where
  "headless_ok a \<longleftrightarrow> he_outputFormat a \<in> set OUTPUT_FORMATS \<and> he_model a \<noteq> Some [] \<and> he_resumeId a \<noteq> Some [] \<and> he_cwd a \<noteq> Some [] \<and>
     [] \<notin> set (he_specs a) \<and> pred_option (\<lambda>n. 0 \<le> n \<and> n = of_int \<lfloor>n\<rfloor>) (he_maxSteps a) \<and> pred_option ((\<le>) 0) (he_costLimit a) \<and>
     pred_option (\<lambda>n. 0 \<le> n \<and> n = of_int \<lfloor>n\<rfloor>) (he_timeout a)"

lemma set_switch_ok: "headless_ok a \<Longrightarrow> headless_ok (set_switch s a)"
  by (cases s) (simp_all add: headless_ok_def OUTPUT_FORMATS_def)

lemma set_value_ok:
  assumes "set_value f arg v (a, pos) = Inr p" "headless_ok a" "v \<noteq> []"
  shows "headless_ok (fst p)"
proof (cases f)
  case StepsOption
  with assms obtain n where "positive_number v arg True = Inr n" "p = (a\<lparr>he_maxSteps := Some n\<rparr>, pos)"
    by (cases "positive_number v arg True") auto
  with assms(2) positive_number_range [of v arg True n] show ?thesis by (simp add: headless_ok_def)
next
  case CostOption
  with assms obtain n where "positive_number v arg False = Inr n" "p = (a\<lparr>he_costLimit := Some n\<rparr>, pos)"
    by (cases "positive_number v arg False") auto
  with assms(2) positive_number_range [of v arg False n] show ?thesis by (simp add: headless_ok_def)
next
  case TimeoutOption
  with assms obtain n where "positive_number v arg True = Inr n" "p = (a\<lparr>he_timeout := Some n\<rparr>, pos)"
    by (cases "positive_number v arg True") auto
  with assms(2) positive_number_range [of v arg True n] show ?thesis by (simp add: headless_ok_def)
qed (use assms in \<open>auto simp: headless_ok_def split: if_splits\<close>)

lemma headless_walk_ok: "headless_walk argv a pos = Inr (a', pos') \<Longrightarrow> headless_ok a \<Longrightarrow> headless_ok a'"
proof (induction argv arbitrary: a pos rule: length_induct)
  case (1 argv)
  show ?case
  proof (cases argv)
    case (Cons arg rest)
    consider "arg = ''--''" | s where "arg \<noteq> ''--''" "switch_of arg = Some s"
      | f where "arg \<noteq> ''--''" "switch_of arg = None" "headless_option_of arg = Some f"
      | "arg \<noteq> ''--''" "switch_of arg = None" "headless_option_of arg = None"
      by (cases "switch_of arg"; cases "headless_option_of arg") auto
    then show ?thesis
    proof cases
      case (2 s)
      with "1.prems" Cons have "headless_walk rest (set_switch s a) pos = Inr (a', pos')" by simp
      with "1.IH" Cons set_switch_ok [OF "1.prems"(2)] show ?thesis by auto
    next
      case (3 f)
      with "1.prems" Cons obtain v p where v: "take_value arg rest = Inr v" "set_value f arg v (a, pos) = Inr p"
          "headless_walk (tl rest) (fst p) (snd p) = Inr (a', pos')"
        by (auto split: sum.splits)
      have "length (tl rest) < length argv" by (simp add: Cons less_Suc_eq_le)
      with "1.IH" v(3) set_value_ok [OF v(2) "1.prems"(2) take_value_nonempty [OF v(1)]] show ?thesis by blast
    next
      case 4
      with "1.prems" Cons obtain pos2 where "headless_walk rest a pos2 = Inr (a', pos')" by (auto split: if_splits)
      with "1.IH" Cons "1.prems"(2) show ?thesis by auto
    qed (use "1.prems" Cons in simp)
  qed (use "1.prems" in simp)
qed

lemma parse_args_headless:
  assumes "parse_args raw = Inr (Print h)"
  obtains argv a pos where "headless_walk argv NO_HEADLESS [] = Inr (a, pos)" "check_headless (a\<lparr>he_prompt := js_trim (join '' '' pos)\<rparr>) = Inr (Print h)"
proof -
  have tui: "parse_tui c xs \<noteq> Inr (Print h)" for c xs
    by (auto simp: parse_tui_def split: sum.splits if_splits)
  have rest: "parse_sessions xs \<noteq> Inr (Print h)" "parse_model_args xs \<noteq> Inr (Print h)" "parse_doctor xs \<noteq> Inr (Print h)"
      "parse_tasks xs \<noteq> Inr (Print h)" "parse_settings xs \<noteq> Inr (Print h)" "parse_jev xs \<noteq> Inr (Print h)"
      "map_sum id KanbanBoard (parse_kanban xs) \<noteq> Inr (Print h)" for xs
    by (auto simp: parse_sessions_def parse_model_args_def parse_doctor_def parse_tasks_def checked_tasks_def parse_settings_def parse_jev_def
        Let_def split: sum.splits if_splits option.splits)
  obtain xs where "parse_headless xs = Inr (Print h)"
    using assms tui rest by (auto simp: parse_args_def split: list.splits if_splits)
  then show ?thesis
    by (auto simp: parse_headless_def split: sum.splits intro: that)
qed

text \<open>Numbers: the text of a whole number is read back.\<close>

lemma digit_not_ws: "is_digit c \<Longrightarrow> \<not> js_ws c"
  by (simp add: is_digit_def js_ws_def Let_def)

lemma trim_digits: "list_all is_digit s \<Longrightarrow> js_trim s = s"
proof -
  assume s: "list_all is_digit s"
  have drop: "dropWhile js_ws xs = xs" if "list_all is_digit xs" for xs
    using that digit_not_ws by (cases xs) auto
  show ?thesis using s drop [of s] drop [of "rev s"] by (simp add: js_trim_def trim_start_def trim_end_def)
qed

lemma number_of_digits:
  assumes "list_all is_digit s" "s \<noteq> []" "nat_of_digits 0 s < 2 ^ 1000"
  shows "number_of_string s = Some (of_nat (nat_of_digits 0 s))"
proof -
  let ?n = "nat_of_digits 0 s"
  have neg: "\<not> is_digit (CHR ''-'')" "\<not> is_digit (CHR ''+'')" "\<not> is_digit (CHR ''x'')" "\<not> is_digit (CHR ''X'')" "\<not> is_digit (CHR ''o'')"
    "\<not> is_digit (CHR ''O'')" "\<not> is_digit (CHR ''b'')" "\<not> is_digit (CHR ''B'')" by (simp_all add: is_digit_def)
  have "take 2 s \<noteq> [c, d]" if "\<not> is_digit d" for c d
    using assms(1) that by (cases s; cases "tl s") auto
  then have prefixes: "take 2 s \<notin> {''0x'', ''0X'', ''0o'', ''0O'', ''0b'', ''0B''}" using neg by auto
  have "takeWhile is_digit s = s" "dropWhile is_digit s = []" using assms(1) by (simp_all add: takeWhile_eq_all_conv list_all_iff)
  note td = this
  have "unsigned_decimal s = Some (of_nat ?n, [])" unfolding unsigned_decimal_def td Let_def using assms(2) by simp
  then have dec: "signed_decimal s = Some (of_nat ?n)"
    using assms(1,2) neg by (cases s) (auto simp: signed_decimal_def exponent_of_def)
  have "(of_nat ?n :: rat) < of_nat (2 ^ 1000)" using assms(3) by (simp only: of_nat_less_iff)
  also have "of_nat (2 ^ 1000) \<le> (2 :: rat) ^ 1024 - 2 ^ 970" by simp
  finally have "finite_double (of_nat ?n) = Some (of_nat ?n)" by (simp add: finite_double_def)
  with dec prefixes assms(1,2) show ?thesis by (simp add: number_of_string_def trim_digits)
qed

lemma positive_number_show:
  assumes "n < 2 ^ 1000"
  shows "positive_number (show_nat n) flag b = Inr (of_nat n)"
  using number_of_digits [OF show_nat_digits [of n] show_nat_nonempty] assms by (simp add: positive_number_def)

section \<open>Writing a headless run as a command line\<close>

text \<open>
  A value is written behind its long flag and an equals sign, the prompt as the value of \<open>-t\<close>: so no value is split, whatever
  it looks like.
\<close>

definition switch_words :: "string \<Rightarrow> bool \<Rightarrow> string list" where
  "switch_words flag b = (if b then [flag] else [])"

definition value_words :: "string \<Rightarrow> string option \<Rightarrow> string list" where
  "value_words flag v = (case v of None \<Rightarrow> [] | Some s \<Rightarrow> [flag @ ''='' @ s])"

definition spec_words :: "string list \<Rightarrow> string list" where
  "spec_words specs = concat (map (\<lambda>s. [''-c'', s]) specs)"

definition prompt_words :: "string \<Rightarrow> string list" where
  "prompt_words p = (if p = [] then [] else [''-t'', p])"

definition number_text :: "rat option \<Rightarrow> string option" where
  "number_text x = map_option (\<lambda>r. show_nat (nat \<lfloor>r\<rfloor>)) x"

definition command_line :: "headless_args \<Rightarrow> string list" where
  "command_line h =
     ''-p'' # switch_words ''-v'' (he_verbose h) @ switch_words ''-q'' (he_quiet h) @ switch_words ''-C'' (he_continueLast h) @
     switch_words ''--no-session'' (he_noSession h) @ switch_words ''--compact'' (he_compact h) @
     switch_words ''--show-system'' (he_showSystem h) @ value_words ''--output-format'' (Some (he_outputFormat h)) @
     value_words ''--model'' (he_model h) @ value_words ''--resume'' (he_resumeId h) @ value_words ''--cwd'' (he_cwd h) @
     value_words ''--max-steps'' (number_text (he_maxSteps h)) @ value_words ''--cost-limit'' (number_text (he_costLimit h)) @
     value_words ''--timeout'' (number_text (he_timeout h)) @ spec_words (he_specs h) @ prompt_words (he_prompt h)"

text \<open>
  The runs that can be written down so: a known format, whole limits, no empty value and a trimmed prompt.  The parser only
  makes such runs, but for a cost limit that is not whole (\<open>headless_sound\<close>).
\<close>

definition whole :: "rat option \<Rightarrow> bool" where
  "whole x = pred_option (\<lambda>r. \<exists>n. r = of_nat n \<and> n < 2 ^ 1000) x"

definition writable :: "headless_args \<Rightarrow> bool" where
  "writable h \<longleftrightarrow> he_outputFormat h \<in> set OUTPUT_FORMATS \<and> he_model h \<noteq> Some [] \<and> he_resumeId h \<noteq> Some [] \<and> he_cwd h \<noteq> Some [] \<and>
     whole (he_maxSteps h) \<and> whole (he_costLimit h) \<and> whole (he_timeout h) \<and> [] \<notin> set (he_specs h) \<and>
     js_trim (he_prompt h) = he_prompt h"

text \<open>The same words after the flags were split from their values.\<close>

definition value_pair :: "string \<Rightarrow> string option \<Rightarrow> string list" where
  "value_pair flag v = (case v of None \<Rightarrow> [] | Some s \<Rightarrow> [flag, s])"

definition long_flag :: "string \<Rightarrow> bool" where
  "long_flag f \<longleftrightarrow> take 2 f = ''--'' \<and> 2 < length f \<and> CHR ''='' \<notin> set f"

lemma index_of_first: "c \<notin> set xs \<Longrightarrow> index_of c (xs @ c # ys) = Some (length xs)"
  by (induction xs) auto

lemma index_of_absent: "c \<notin> set xs \<Longrightarrow> index_of c xs = None"
  by (induction xs) auto

lemma split_long: "long_flag f \<Longrightarrow> split_inline (f @ ''='' @ s) = [f, s]"
  by (simp add: long_flag_def split_inline_def index_of_first)

lemma split_other: "take 2 w \<noteq> ''--'' \<or> CHR ''='' \<notin> set w \<Longrightarrow> split_inline w = [w]"
  by (auto simp: split_inline_def index_of_absent split: option.split)

lemma expand_value:
  assumes "long_flag f"
  shows "expand_argv (value_words f v @ rest) = value_pair f v @ expand_argv rest"
proof (cases v)
  case (Some s)
  have "f @ ''='' @ s \<noteq> x" if "CHR ''='' \<notin> set x" for x using that by auto
  then have "f @ ''='' @ s \<noteq> ''-c''" "f @ ''='' @ s \<noteq> ''--config''" "f @ ''='' @ s \<noteq> ''-t''" by simp_all
  then show ?thesis using Some split_long [OF assms, of s] by (simp add: value_words_def value_pair_def)
qed (simp add: value_words_def value_pair_def)

lemma expand_switch:
  "CHR ''='' \<notin> set f \<Longrightarrow> f \<notin> {''-c'', ''--config'', ''-t''} \<Longrightarrow> expand_argv (switch_words f b @ rest) = switch_words f b @ expand_argv rest"
  by (simp add: switch_words_def split_other)

lemma expand_specs: "expand_argv (spec_words specs @ rest) = spec_words specs @ expand_argv rest"
  by (induction specs) (simp_all add: spec_words_def)

lemma expand_prompt: "expand_argv (prompt_words p) = prompt_words p"
  by (simp add: prompt_words_def)

definition split_line :: "headless_args \<Rightarrow> string list" where
  "split_line h =
     ''-p'' # switch_words ''-v'' (he_verbose h) @ switch_words ''-q'' (he_quiet h) @ switch_words ''-C'' (he_continueLast h) @
     switch_words ''--no-session'' (he_noSession h) @ switch_words ''--compact'' (he_compact h) @
     switch_words ''--show-system'' (he_showSystem h) @ value_pair ''--output-format'' (Some (he_outputFormat h)) @
     value_pair ''--model'' (he_model h) @ value_pair ''--resume'' (he_resumeId h) @ value_pair ''--cwd'' (he_cwd h) @
     value_pair ''--max-steps'' (number_text (he_maxSteps h)) @ value_pair ''--cost-limit'' (number_text (he_costLimit h)) @
     value_pair ''--timeout'' (number_text (he_timeout h)) @ spec_words (he_specs h) @ prompt_words (he_prompt h)"

lemma expand_command_line: "expand_argv (command_line h) = split_line h"
proof -
  have p: "expand_argv (''-p'' # rest) = ''-p'' # expand_argv rest" for rest by (simp add: split_other)
  show ?thesis unfolding command_line_def split_line_def p
    by (simp add: expand_switch expand_value expand_specs expand_prompt long_flag_def del: expand_argv.simps)
qed

lemma walk_specs:
  "[] \<notin> set specs \<Longrightarrow> headless_walk (spec_words specs @ rest) a pos = headless_walk rest (a\<lparr>he_specs := he_specs a @ specs\<rparr>) pos"
  by (induction specs arbitrary: a) (auto simp: spec_words_def take_value_def switch_of_def headless_option_of_def)

lemma walk_switches:
  "headless_walk (switch_words ''-v'' b @ rest) a pos = headless_walk rest (a\<lparr>he_verbose := he_verbose a \<or> b\<rparr>) pos"
  "headless_walk (switch_words ''-q'' b @ rest) a pos = headless_walk rest (a\<lparr>he_quiet := he_quiet a \<or> b\<rparr>) pos"
  "headless_walk (switch_words ''-C'' b @ rest) a pos = headless_walk rest (a\<lparr>he_continueLast := he_continueLast a \<or> b\<rparr>) pos"
  "headless_walk (switch_words ''--no-session'' b @ rest) a pos = headless_walk rest (a\<lparr>he_noSession := he_noSession a \<or> b\<rparr>) pos"
  "headless_walk (switch_words ''--compact'' b @ rest) a pos = headless_walk rest (a\<lparr>he_compact := he_compact a \<or> b\<rparr>) pos"
  "headless_walk (switch_words ''--show-system'' b @ rest) a pos = headless_walk rest (a\<lparr>he_showSystem := he_showSystem a \<or> b\<rparr>) pos"
  by (cases b; simp add: switch_words_def switch_of_def)+

lemma walk_values:
  "v \<noteq> Some [] \<Longrightarrow> headless_walk (value_pair ''--model'' v @ rest) a pos =
     headless_walk rest (a\<lparr>he_model := (if v = None then he_model a else v)\<rparr>) pos"
  "v \<noteq> Some [] \<Longrightarrow> headless_walk (value_pair ''--resume'' v @ rest) a pos =
     headless_walk rest (a\<lparr>he_resumeId := (if v = None then he_resumeId a else v)\<rparr>) pos"
  "v \<noteq> Some [] \<Longrightarrow> headless_walk (value_pair ''--cwd'' v @ rest) a pos =
     headless_walk rest (a\<lparr>he_cwd := (if v = None then he_cwd a else v)\<rparr>) pos"
  by (cases v; simp add: value_pair_def switch_of_def headless_option_of_def take_value_def)+

lemma walk_numbers:
  "whole x \<Longrightarrow> headless_walk (value_pair ''--max-steps'' (number_text x) @ rest) a pos =
     headless_walk rest (a\<lparr>he_maxSteps := (if x = None then he_maxSteps a else x)\<rparr>) pos"
  "whole x \<Longrightarrow> headless_walk (value_pair ''--cost-limit'' (number_text x) @ rest) a pos =
     headless_walk rest (a\<lparr>he_costLimit := (if x = None then he_costLimit a else x)\<rparr>) pos"
  "whole x \<Longrightarrow> headless_walk (value_pair ''--timeout'' (number_text x) @ rest) a pos =
     headless_walk rest (a\<lparr>he_timeout := (if x = None then he_timeout a else x)\<rparr>) pos"
  by (cases x; auto simp: whole_def number_text_def value_pair_def switch_of_def headless_option_of_def take_value_def
      positive_number_show show_nat_nonempty)+

lemma walk_format:
  "f \<in> set OUTPUT_FORMATS \<Longrightarrow>
     headless_walk (value_pair ''--output-format'' (Some f) @ rest) a pos = headless_walk rest (a\<lparr>he_outputFormat := f\<rparr>) pos"
  by (auto simp: value_pair_def switch_of_def headless_option_of_def take_value_def OUTPUT_FORMATS_def)

lemma walk_prompt: "headless_walk (prompt_words p) a [] = Inr (a, if p = [] then [] else [p])"
  by (simp add: prompt_words_def take_value_def switch_of_def headless_option_of_def)

lemma js_trim_Nil: "js_trim [] = []"
  by (simp add: js_trim_def trim_start_def trim_end_def)

lemma walk_split_line:
  assumes "writable h"
  shows "headless_walk (split_line h) NO_HEADLESS [] = Inr (h\<lparr>he_prompt := []\<rparr>, if he_prompt h = [] then [] else [he_prompt h])"
proof -
  have p: "headless_walk (''-p'' # rest) a pos = headless_walk rest a pos" for rest a pos by (simp add: switch_of_def)
  show ?thesis
    using assms unfolding split_line_def p append_Cons append_Nil writable_def
    by (simp add: walk_switches walk_values walk_numbers walk_format walk_specs walk_prompt del: headless_walk.simps)
      (simp add: NO_HEADLESS_def)
qed

section \<open>Properties\<close>

text \<open>
  C18: A headless run can be written down and read back.  For every run with a known format, limits that are whole numbers
  (below two to the thousandth), no empty value and a trimmed prompt, the command line that is written for it (long flags
  with their values behind an equals sign, the prompt behind \<open>-t\<close>) parses to that run, unless its flags exclude each other;
  and then it is refused.
\<close>

theorem headless_roundtrip:
  assumes "writable h"
  shows "parse_args (command_line h) = check_headless h \<and>
    (check_headless h = Inr (Print h) \<longleftrightarrow>
       \<not> (he_verbose h \<and> he_quiet h) \<and> \<not> (he_continueLast h \<and> he_resumeId h \<noteq> None) \<and>
       (he_compact h \<longrightarrow> (he_continueLast h \<or> he_resumeId h \<noteq> None) \<and> \<not> he_noSession h))"
proof
  have "parse_args (command_line h) = parse_headless (split_line h)"
    using expand_command_line [of h] by (simp add: parse_args_def) (simp add: split_line_def)
  also have "\<dots> = check_headless h"
  proof (cases "he_prompt h = []")
    case True
    then have "h\<lparr>he_prompt := []\<rparr> = h" by (cases h) simp
    then show ?thesis by (simp add: parse_headless_def walk_split_line [OF assms] True js_trim_Nil \<open>h\<lparr>he_prompt := []\<rparr> = h\<close>)
  next
    case False
    then show ?thesis using assms by (simp add: parse_headless_def walk_split_line [OF assms] writable_def)
  qed
  finally show "parse_args (command_line h) = check_headless h" .
  have "given (he_resumeId h) \<longleftrightarrow> he_resumeId h \<noteq> None" using assms by (auto simp: writable_def given_def)
  then show "check_headless h = Inr (Print h) \<longleftrightarrow>
       \<not> (he_verbose h \<and> he_quiet h) \<and> \<not> (he_continueLast h \<and> he_resumeId h \<noteq> None) \<and>
       (he_compact h \<longrightarrow> (he_continueLast h \<or> he_resumeId h \<noteq> None) \<and> \<not> he_noSession h)"
    by (auto simp: check_headless_def)
qed

definition ex_headless :: headless_args where
  "ex_headless = NO_HEADLESS\<lparr>he_model := Some ''--a=b'', he_specs := [''--agent.step=3''], he_quiet := True, he_prompt := ''--fix=x = 1'',
     he_maxSteps := Some 40\<rparr>"

theorem headless_roundtrip_witness:
  "parse_args (command_line ex_headless) = Inr (Print ex_headless)"
proof -
  have "whole (Some 40)" unfolding whole_def by (simp add: exI [of _ 40])
  then have "writable ex_headless"
    by (simp add: writable_def ex_headless_def NO_HEADLESS_def OUTPUT_FORMATS_def
        js_trim_def trim_start_def trim_end_def js_ws_def whole_def)
  from headless_roundtrip [OF this] show ?thesis by (simp add: ex_headless_def NO_HEADLESS_def)
qed

text \<open>
  C19: What is accepted makes sense.  Whatever the arguments, an accepted headless run has one of the three formats, no
  flags that exclude each other, whole limits that are not negative, and no empty value.
\<close>

theorem headless_sound:
  assumes "parse_args raw = Inr (Print h)"
  shows "he_outputFormat h \<in> set OUTPUT_FORMATS \<and> \<not> (he_verbose h \<and> he_quiet h) \<and>
    \<not> (he_continueLast h \<and> he_resumeId h \<noteq> None) \<and>
    (he_compact h \<longrightarrow> (he_continueLast h \<or> he_resumeId h \<noteq> None) \<and> \<not> he_noSession h) \<and>
    (\<forall>n. he_maxSteps h = Some n \<or> he_timeout h = Some n \<longrightarrow> (\<exists>k. n = of_nat k)) \<and> (\<forall>n. he_costLimit h = Some n \<longrightarrow> 0 \<le> n) \<and>
    he_model h \<noteq> Some [] \<and> he_resumeId h \<noteq> Some [] \<and> he_cwd h \<noteq> Some [] \<and> [] \<notin> set (he_specs h)"
proof -
  obtain argv a pos where w: "headless_walk argv NO_HEADLESS [] = Inr (a, pos)"
    and c: "check_headless (a\<lparr>he_prompt := js_trim (join '' '' pos)\<rparr>) = Inr (Print h)"
    by (rule parse_args_headless [OF assms])
  have "headless_ok NO_HEADLESS" by (simp add: headless_ok_def NO_HEADLESS_def OUTPUT_FORMATS_def)
  then have ok: "headless_ok a" using headless_walk_ok [OF w] by simp
  have h: "h = a\<lparr>he_prompt := js_trim (join '' '' pos)\<rparr>" using c by (auto simp: check_headless_def split: if_splits)
  have nat: "0 \<le> n \<Longrightarrow> n = of_int \<lfloor>n\<rfloor> \<Longrightarrow> \<exists>k. n = of_nat k" for n :: rat
    by (metis nonneg_int_cases of_int_of_nat_eq zero_le_floor)
  have g: "given (he_resumeId a) \<longleftrightarrow> he_resumeId a \<noteq> None" using ok by (auto simp: headless_ok_def given_def)
  from c have "\<not> (he_verbose h \<and> he_quiet h) \<and> \<not> (he_continueLast h \<and> he_resumeId h \<noteq> None) \<and>
    (he_compact h \<longrightarrow> (he_continueLast h \<or> he_resumeId h \<noteq> None) \<and> \<not> he_noSession h)"
    by (auto simp: check_headless_def h g split: if_splits)
  with ok nat show ?thesis by (auto simp: headless_ok_def h)
qed

theorem headless_sound_witness:
  "parse_args [''-p'', ''--cwd=/x'', ''--json'', ''hi'', ''-C''] =
     Inr (Print (NO_HEADLESS\<lparr>he_prompt := ''hi'', he_cwd := Some ''/x'', he_outputFormat := ''json'', he_continueLast := True\<rparr>)) \<and>
   he_outputFormat (NO_HEADLESS\<lparr>he_prompt := ''hi'', he_cwd := Some ''/x'', he_outputFormat := ''json'', he_continueLast := True\<rparr>)
     \<in> set OUTPUT_FORMATS"
proof -
  have h: "parse_args [''-p'', ''--cwd=/x'', ''--json'', ''hi'', ''-C''] =
     Inr (Print (NO_HEADLESS\<lparr>he_prompt := ''hi'', he_cwd := Some ''/x'', he_outputFormat := ''json'', he_continueLast := True\<rparr>))"
    by code_simp
  from headless_sound [OF h] h show ?thesis by blast
qed

text \<open>A word after \<open>--\<close>, or the value of an option, is split at its first \<open>=\<close> like a flag.\<close>

lemma words_after_dashes_split:
  "parse_args [''-p'', ''--'', ''--x=1''] = Inr (Print (NO_HEADLESS\<lparr>he_prompt := ''--x 1''\<rparr>))"
  by code_simp

end
