(* ===== verification/Spec2Isabelle.thy ===== *)
theory Spec2Isabelle
  imports WorkQueueClaims Router PaneLayout DeliveryCases BridgeCases SessionClaims HostGuard RateLimit Args
begin

text \<open>
  A model of the core of mini-tui (a terminal and web front end that runs coding agents, with a work queue, a model
  router, a bot's board and a channel inbox), and the theorems that make it correct.  The program is TypeScript under
  src/ and web/src/; a file named below is relative to the repository.

  \<^bold>\<open>The parts and how they work together.\<close>  A message of a chat thread is accepted by the inbox and handed, once and in
  order, to a consumer, which runs an agent and sends its reply.  Work that the reply asks for goes through a bridge into
  a persistent queue, whose outcomes come back to the thread.  The dispatcher turns work into tasks of the work queue, which starts workers within its limits.
  A worker is an agent run started from a command line; its model is chosen by the router from the catalog, the
  circuits and what models did before.  A bot keeps its own tasks on a board whose cards follow the subagents.  The
  web server holds the sessions a user has open: it starts, follows, stops and resumes their agents, keeps step with the
  other interfaces that share the session database, and turns the journals of the agents into transcripts; it answers only to its own names and limits the expensive routes; the client keeps its panes in a tree.

  \<^item> Prelude: strings as sequences of UTF-16 code units in the Latin-1 range, the string functions of the language,
    untyped JSON values, stable sorting, rounding.  Table: rows under a primary key; the locales \<open>keyed_store\<close> and
    \<open>keyed_store_delete\<close> are the contract of a table, interpreted for the queue's rows, the circuits, the bindings and
    checkpoints of the inbox, the cards of the board and the hits of the limiter.  Regex: the regular expressions the
    router searches with.
  \<^item> Work queue (src/web/workQueue.ts): WQ_Text (texts, directories, overlap), Similarity (TF-IDF and cosine), WorkQueue
    (state, rows, \<open>pump\<close>, workers), WorkQueueCreate (validation, duplicates, overlaps, creation), WorkQueueSteps (every
    operation as an event, and reachability).  WorkQueueSched, WorkQueueProps and WorkQueueLive hold the lemmas:
    invariants of the rows, what a pass starts, what settles, no idle slot, waits for a human.  WorkQueueClaims states
    the properties of the whole queue.
  \<^item> Router: Catalog (src/router/candidates.ts), Breaker (src/router/breaker.ts, refined by a streak of failures per
    model), Scoring (src/router/scoring.ts), Task (src/router/task.ts), LayaClient (src/router/laya.ts; the locale
    \<open>decision_model\<close> is what the router relies on), Router (src/router/index.ts and audit.ts: route, fallback, succeed,
    status, the trail).
  \<^item> Inbox (src/channels/inbox.ts, senderName.ts): bindings, acceptance, transcripts, consumers and own sends, and runs
    of all of them in any order.
  \<^item> Channel consumer: TurnFailure (src/turnFailure.ts), Consumer (src/channels/consumer.ts with the ledger of
    evoSend.ts and the mentions of accounts.ts: what one pass does, as a list of effects, so that a crash is a prefix of
    it).  Outbox states the protocol of one message (the locale \<open>intent_log\<close> is the contract of the ledger) and the
    invariants; Delivery the properties over every run of passes, crashes and other processes; DeliveryCases examples.
  \<^item> Queue bridge (src/channels/queueBridge.ts): Directives (the end of a reply), QueueBridge (every asynchronous method,
    as a flow over the shared state), BridgeRuns (the process with its tick, deferred work and crashes in any order, and
    the contract that every flow keeps), BridgeClaims and BridgeLive (the properties), BridgeCases (where the code falls
    short, and examples).  Flows is the model of asynchronous functions and their logic: the locales \<open>flow_contract\<close> and
    \<open>routine\<close> are interpreted on the contracts of the bridge.
  \<^item> Kanban (src/kanban.ts): cards, links, search, the command with its arguments, the report of a subagent; events are
    replayed to the board.
  \<^item> Args (src/cli/args.ts): the parser of every command; a headless run is written and read back.
  \<^item> Sessions: SessionStore (src/sessions.ts: the database of sessions, notes, task cards, runs and open marks, with its
    searches), Prompts (src/skillMatch.ts, the prompt half of skills.ts, the blocks of src/web/attachments.ts), Transcript
    (src/traj/parse.ts, slim.ts, src/web/uiComponents.ts: from the messages of a journal to what is shown).  LiveSessions,
    SessionOps and SessionSteps are the session manager of src/web/sessions.ts: the state of the server and of its
    processes, every method, and every event the server can see as a step.  SessionInv and SessionSafe show what every run keeps,
    SessionMarks that the sessions to reopen after a restart are the open ones, SessionClaims that a queued prompt starts, and
    SessionCases holds runs where the code falls short.
  \<^item> HostGuard (src/web/hostGuard.ts), RateLimit (src/web/rateLimit.ts): the guards of the web server.
  \<^item> Panes and PaneLayout (web/src/lib/panes.ts, paneLayout.ts): the pane tree, its geometry and even layouts.

  \<^bold>\<open>How the code is modelled.\<close>  A class is a record of its tables and fields, a method a function from state and
  arguments to the new state and the result; an exception or an early return is a value (an error datatype in a sum,
  or \<^const>\<open>None\<close>).  A handler is modelled whole, with its guards in order.  Operations that can come in any order are a
  datatype of events and a step function or relation, and properties range over all sequences.  The clock, fresh
  identifiers, what the file system or another process answers, and the libraries of the runtime are arguments.
  Where the code compares objects by reference, the model says when a new one is made.

  \<^bold>\<open>Idealisations.\<close>  Doubles are exact reals or rationals, so sums do not depend on their order; \<open>toFixed\<close>,
  \<open>Math.round\<close>, \<open>floor\<close> and the bounds of \<open>Number\<close> are written out.  Texts are in the Latin-1 range (a longer dash or
  an ellipsis of a message is written as its escape), and byte lengths count two for a character from 128 on.  An
  operation reads the clock once.  A JSON column is read back as it was written.  Rows with equal sort keys keep the
  order in which they were inserted.  Two operations of one process do not interleave within a transaction or a
  synchronous function; the work queue's asynchronous steps (a start that settles later, a wait for a human) are
  events of their own, a pass of the consumer is a list of effects that can be cut off, and the flows of the bridge
  interleave at every \<open>await\<close>.

  \<^bold>\<open>Bounds and termination.\<close>  No definition of the program takes fuel.  Loops that are not structural have a measure: the rest of a
  string or an argument list, the work left for a pass of the queue, the depth a stored layout may have.  The loop over
  the pages of the queue's log has no bound of its own: its head is a point where a flow stops and goes on, a call on
  its own is a partial function, and a theorem shows that a tick ends when the log is finite and read out in order.

  \<^bold>\<open>Not modelled.\<close>  The HTTP routes and web sockets (src/web/serve.ts, hub.ts), processes and terminals
  (src/mini, src/proc), provider and MCP clients, rendering (src/ui, the Svelte components) and the agent programs in
  Python and Rust: their logic is in the effects of a runtime or a service the repository does not contain, or in
  another language.  Of the consumer: the prompt, the titles of sessions, the image and voice markers and the sweep for
  late transcripts.  Of the sessions: the routing of a run
  in progress by the model router, rosters and plans of subagents on disk, the chat group of a session, the watcher of a
  journal's file (src/traj/watch.ts; a journal arrives as an event), the files of skills and uploads.  The acknowledgement
  lines (ack.ts), the other bridges and commands of the channels and the usage store (src/usage) are left out.
\<close>

end
